(* ===== verification/Console_Prelude.thy ===== *)
theory Console_Prelude
  imports Main "HOL-Library.AList" "HOL-Library.Multiset" "HOL-Library.Char_ord"
begin

text \<open>
  What every component of the development shares: the result type, the insertion-ordered
  map that stands for a JavaScript \<open>Map\<close>, the lists the code filters and searches, and
  the two collections of facts (\<open>console_defs\<close>: definitions that are always unfolded,
  \<open>console_inv\<close>: facts about invariants) the component proofs add to the simplifier.
\<close>

named_theorems console_defs
named_theorems console_inv

section \<open>Results\<close>

text \<open>
  \<open>Result<T, E>\<close> of the code (a value with \<open>ok\<close> true, or an error with \<open>ok\<close> false) is a
  sum: \<open>Inl\<close> carries the error and \<open>Inr\<close> the value.
\<close>

type_synonym ('e, 'a) result = "'e + 'a"

abbreviation is_ok :: "('e, 'a) result \<Rightarrow> bool" where
  "is_ok r \<equiv> \<not> isl r"

lemma is_ok_Inr [simp]: "is_ok (Inr v)"
  by simp

lemma is_ok_cases: "is_ok r \<longleftrightarrow> (\<exists>v. r = Inr v)"
  by (cases r) auto

text \<open>Results in sequence: an error ends the evaluation, as an early return or an exception does.\<close>

fun and_then :: "('e, 'a) result \<Rightarrow> ('a \<Rightarrow> ('e, 'b) result) \<Rightarrow> ('e, 'b) result" where
  "and_then (Inl e) f = Inl e"
| "and_then (Inr a) f = f a"

lemma and_then_Inr: "and_then r f = Inr b \<longleftrightarrow> (\<exists>a. r = Inr a \<and> f a = Inr b)"
  by (cases r) auto

lemma and_then_Inl: "and_then r f = Inl e \<longleftrightarrow> r = Inl e \<or> (\<exists>a. r = Inr a \<and> f a = Inl e)"
  by (cases r) auto

section \<open>Insertion-ordered maps\<close>

text \<open>
  A JavaScript \<open>Map\<close> iterates its keys in the order of their first insertion; setting a key
  that is present keeps its place. The association lists of the library with
  \<open>AList.update\<close> and \<open>AList.delete\<close> are exactly that.
\<close>

type_synonym ('k, 'v) jmap = "('k \<times> 'v) list"

definition jget :: "('k, 'v) jmap \<Rightarrow> 'k \<Rightarrow> 'v option" where
  "jget m k = map_of m k"

definition jset :: "('k, 'v) jmap \<Rightarrow> 'k \<Rightarrow> 'v \<Rightarrow> ('k, 'v) jmap" where
  "jset m k v = AList.update k v m"

definition jdel :: "('k, 'v) jmap \<Rightarrow> 'k \<Rightarrow> ('k, 'v) jmap" where
  "jdel m k = AList.delete k m"

definition jhas :: "('k, 'v) jmap \<Rightarrow> 'k \<Rightarrow> bool" where
  "jhas m k = (jget m k \<noteq> None)"

definition jvals :: "('k, 'v) jmap \<Rightarrow> 'v list" where
  "jvals m = map snd m"

definition jmap_ok :: "('k, 'v) jmap \<Rightarrow> bool" where
  "jmap_ok m = distinct (map fst m)"

lemma jget_Nil [simp]: "jget [] k = None"
  by (simp add: jget_def)

lemma jget_jset: "jget (jset m k v) k' = (if k' = k then Some v else jget m k')"
  by (simp add: jget_def jset_def update_conv')

lemma jget_jset_same [simp]: "jget (jset m k v) k = Some v"
  by (simp add: jget_jset)

lemma jget_jset_other [simp]: "k' \<noteq> k \<Longrightarrow> jget (jset m k v) k' = jget m k'"
  by (simp add: jget_jset)

lemma jget_jdel: "jget (jdel m k) k' = (if k' = k then None else jget m k')"
  by (simp add: jget_def jdel_def delete_conv')

lemma jget_jdel_same [simp]: "jget (jdel m k) k = None"
  by (simp add: jget_jdel)

lemma jget_jdel_other [simp]: "k' \<noteq> k \<Longrightarrow> jget (jdel m k) k' = jget m k'"
  by (simp add: jget_jdel)

lemma jmap_ok_Nil [simp]: "jmap_ok []"
  by (simp add: jmap_ok_def)

lemma jmap_ok_jset [simp]: "jmap_ok m \<Longrightarrow> jmap_ok (jset m k v)"
  by (simp add: jmap_ok_def jset_def distinct_update)

lemma jmap_ok_jdel [simp]: "jmap_ok m \<Longrightarrow> jmap_ok (jdel m k)"
  by (simp add: jmap_ok_def jdel_def distinct_delete)

lemma jset_fresh: "jget m k = None \<Longrightarrow> jset m k v = m @ [(k, v)]"
  unfolding jget_def jset_def by (induction m) auto

lemma jdel_fresh: "jget m k = None \<Longrightarrow> jdel m k = m"
  unfolding jget_def jdel_def by (induction m) (auto split: if_splits)

lemma jget_in_set: "jget m k = Some v \<Longrightarrow> (k, v) \<in> set m"
  by (simp add: jget_def map_of_SomeD)

lemma in_set_jget: "jmap_ok m \<Longrightarrow> (k, v) \<in> set m \<longleftrightarrow> jget m k = Some v"
  by (simp add: jget_def jmap_ok_def)

lemma set_jset: "jmap_ok m \<Longrightarrow> set (jset m k v) = {(k', v') \<in> set m. k' \<noteq> k} \<union> {(k, v)}"
  using in_set_jget [of "jset m k v"] in_set_jget [of m]
  by (auto simp: jget_jset split: if_splits)

lemma set_jdel: "set (jdel m k) = {(k', v') \<in> set m. k' \<noteq> k}"
  by (auto simp: jdel_def AList.delete_eq)

lemma jhas_jset [simp]: "jhas (jset m k v) k' \<longleftrightarrow> k' = k \<or> jhas m k'"
  by (simp add: jhas_def jget_jset)

lemma jhas_jdel [simp]: "jhas (jdel m k) k' \<longleftrightarrow> k' \<noteq> k \<and> jhas m k'"
  by (simp add: jhas_def jget_jdel)

section \<open>Lists\<close>

text \<open>\<open>split\<close> of a string at a character.\<close>

fun split_on :: "char \<Rightarrow> string \<Rightarrow> string list" where
  "split_on c [] = [[]]"
| "split_on c (x # xs) =
     (if x = c then [] # split_on c xs
      else (case split_on c xs of w # ws \<Rightarrow> (x # w) # ws | [] \<Rightarrow> [[x]]))"

lemma split_on_nonempty [simp]: "split_on c xs \<noteq> []"
  by (cases xs) (auto split: list.splits)

lemma split_on_line: "c \<notin> set l \<Longrightarrow> split_on c (l @ c # xs) = l # split_on c xs"
  by (induction l) auto

lemma split_on_append:
  "split_on c (xs @ c # ys) = split_on c xs @ split_on c ys"
  by (induction xs) (auto split: list.splits)

lemma split_on_plain: "c \<notin> set l \<Longrightarrow> split_on c l = [l]"
  by (induction l) auto

text \<open>The words equation \<open>s @ v = w @ s\<close> makes \<open>v\<close> a permutation of \<open>w\<close>.\<close>

lemma conjugate_set: "s @ v = w @ s \<Longrightarrow> set v = set w"
proof -
  assume "s @ v = w @ s"
  then have "mset s + mset v = mset w + mset s"
    by (metis mset_append)
  then have "mset v = mset w" by simp
  then show ?thesis by (rule mset_eq_setD)
qed

text \<open>Decimal numerals, as a template literal prints a number.\<close>

fun decimal_nat :: "nat \<Rightarrow> string" where
  "decimal_nat n =
     (if n < 10 then [char_of (48 + n)] else decimal_nat (n div 10) @ [char_of (48 + n mod 10)])"

declare decimal_nat.simps [simp del]

definition decimal :: "int \<Rightarrow> string" where
  "decimal n = (if n < 0 then CHR ''-'' # decimal_nat (nat (- n)) else decimal_nat (nat n))"

lemma drop_nth_Cons: "i < length xs \<Longrightarrow> drop i xs = xs ! i # drop (Suc i) xs"
  by (simp add: Cons_nth_drop_Suc)

lemma take_Suc_nth: "i < length xs \<Longrightarrow> take (Suc i) xs = take i xs @ [xs ! i]"
  by (rule take_Suc_conv_app_nth)

lemma find_Some_in: "find P xs = Some x \<Longrightarrow> x \<in> set xs \<and> P x"
  by (induction xs) (auto split: if_splits)

lemma filter_keeps_sorted: "sorted_wrt R xs \<Longrightarrow> sorted_wrt R (filter P xs)"
  by (induction xs) auto

text \<open>A numeral determines its number.\<close>

definition digits_value :: "string \<Rightarrow> nat" where
  "digits_value ds = foldl (\<lambda>v d. 10 * v + (of_char d - 48)) 0 ds"

lemma digits_value_decimal_nat [simp]: "digits_value (decimal_nat n) = n"
proof (induction n rule: decimal_nat.induct)
  case (1 n)
  show ?case
  proof (cases "n < 10")
    case True
    then show ?thesis by (simp add: decimal_nat.simps [of n] digits_value_def)
  next
    case False
    with 1 have "digits_value (decimal_nat (n div 10)) = n div 10" by simp
    with False show ?thesis
      by (simp add: decimal_nat.simps [of n] digits_value_def)
  qed
qed

lemma decimal_nat_inject [simp]: "decimal_nat m = decimal_nat n \<longleftrightarrow> m = n"
  by (metis digits_value_decimal_nat)

lemma digit_not_minus: "k < 10 \<Longrightarrow> CHR ''-'' \<noteq> char_of (48 + k :: nat)"
proof
  assume k: "k < 10" and "CHR ''-'' = char_of (48 + k)"
  then have "(of_char CHR ''-'' :: nat) = of_char (char_of (48 + k) :: char)" by simp
  with k show False by simp
qed

lemma decimal_nat_no_minus: "CHR ''-'' \<notin> set (decimal_nat n)"
proof (induction n rule: decimal_nat.induct)
  case (1 n)
  then show ?case
    using digit_not_minus [of n] digit_not_minus [of "n mod 10"]
    by (subst decimal_nat.simps) auto
qed

lemma decimal_inject [simp]: "decimal m = decimal n \<longleftrightarrow> m = n"
proof -
  have *: "CHR ''-'' # ds \<noteq> decimal_nat k" for ds k
    using decimal_nat_no_minus [of k] by (metis list.set_intros(1))
  then show ?thesis
    using *[symmetric] by (auto simp: decimal_def)
qed

end
