(* ===== verification/Vocabulary.thy ===== *)
theory Vocabulary
  imports Console_Prelude
begin

text \<open>
  The data of the session runtime: \<open>src/agent-console/contract/index.ts\<close> (event payloads and
  envelopes), \<open>src/agent-console/core/types.ts\<close> (session records, turns, audit records, the
  error unions), \<open>src/agent-console/providers/types.ts\<close> (what a provider adapter reports) and
  \<open>src/agent-console/process/ledger.ts\<close> (process records).

  Branded identifiers are strings. A timestamp is its number of milliseconds: the code's
  timestamps are ISO texts of one fixed width, so that comparing two texts compares the
  numbers. A payload's \<open>turnId\<close> member is kept beside the payload (\<open>env_turn\<close>): \<open>None\<close> is a
  payload without one, or the \<open>null\<close> of a safety checkpoint.
\<close>

section \<open>Identifiers and JSON\<close>

type_synonym session_id = string
type_synonym turn_id = string
type_synonym attachment_id = string
type_synonym cli_session_id = string
type_synonym call_id = string
type_synonym request_id = string
type_synonym resolved_path = string
type_synonym git_sha = string
type_synonym principal_id = string
type_synonym provider_id = string
type_synonym iso_timestamp = int

datatype json =
    JNull
  | JBool bool
  | JNum int
  | JStr string
  | JArr "json list"
  | JObj "(string \<times> json) list"

section \<open>Provider vocabulary\<close>

datatype sandbox_mode = ReadOnly | WorkspaceWrite | Unrestricted

datatype permission_decision = Allow | Deny

datatype policy_mode = Interactive | Preauthorised

record permission_policy =
  pp_mode :: policy_mode
  pp_sandbox :: "sandbox_mode option"
  pp_banner :: "string option"

datatype output_mode = Normal | Terse

record output_policy =
  op_mode :: output_mode
  op_persist_reasoning :: bool
  op_tool_output_bytes :: "nat option"
  op_preserve_failure_tail :: bool

definition terse_tool_output_bytes :: nat where
  "terse_tool_output_bytes = 24000"

definition output_policy_for :: "output_mode option \<Rightarrow> output_policy" where
  "output_policy_for mode =
     (if mode = Some Terse
      then \<lparr>op_mode = Terse, op_persist_reasoning = False,
            op_tool_output_bytes = Some terse_tool_output_bytes, op_preserve_failure_tail = True\<rparr>
      else \<lparr>op_mode = Normal, op_persist_reasoning = True,
            op_tool_output_bytes = None, op_preserve_failure_tail = False\<rparr>)"

datatype adapter_error =
    InvalidModel string
  | AdapterTurnInFlight
  | SessionClosed
  | AgentUnavailable string string
  | UnsupportedVendor string
  | UnsupportedSandbox string
  | NoChild
  | SchemaMismatch string
  | WriteFailed string

section \<open>Event payloads\<close>

datatype session_state = Live | Ended

datatype session_end_reason = ByOperator | ServerRestartEnd | StorageFailureEnd

datatype session_notice_code =
    Compaction | ResumeUnavailable | CheckpointsUnavailable | CheckpointSkipped | SandboxNotice
  | AuditUnavailable | StorageFailure | ServerRestart | UsageUnavailable
  | TaskStarted | TaskProgress | TaskCompleted | TaskFailed | TaskCancelled
  | BudgetWarning | BudgetExhausted

datatype notice_level = Info | Warn | Error

datatype turn_stop_reason =
  StopCompleted | StopError | StopProcessExit | StopInterrupted | StopServerRestart | StopStorageFailure

record usage =
  input_tokens :: int
  output_tokens :: int
  cache_read :: int
  cache_create :: int

record attachment_ref =
  ar_id :: attachment_id
  ar_filename :: string
  ar_media_type :: string
  ar_bytes :: nat

datatype message_role = User | Assistant

datatype hook_phase = HookStarted | HookCompleted

record hook_event =
  he_id :: string
  he_phase :: hook_phase
  he_event :: string
  he_name :: string
  he_outcome :: "string option"
  he_exit_code :: "int option"

record tool_call =
  tc_call_id :: call_id
  tc_name :: string
  tc_input :: json
  tc_summary :: string

record diff_hunk =
  dh_path :: "string option"
  dh_old_start :: int
  dh_old_lines :: int
  dh_new_start :: int
  dh_new_lines :: int
  dh_lines :: "string list"

record tool_result =
  tr_call_id :: call_id
  tr_ok :: bool
  tr_output :: "nat list"
  tr_truncated :: bool
  tr_bytes :: nat
  tr_diff :: "diff_hunk list option"

record permission_request =
  pr_request_id :: request_id
  pr_call_id :: call_id
  pr_tool :: string
  pr_input :: json
  pr_match_target :: "string option"
  pr_suggestions :: "json list"

datatype resolved_scope = Once | Always | Standing

datatype resolved_reason =
  Answered | Preapproved | CancelledProcessExit | Superseded | AuditWasUnavailable

record permission_resolved =
  pv_request_id :: request_id
  pv_decision :: permission_decision
  pv_scope :: resolved_scope
  pv_operator :: "principal_id option"
  pv_reason :: resolved_reason

record session_started =
  ss_vendor :: provider_id
  ss_cwd :: resolved_path
  ss_model :: "string option"
  ss_policy :: permission_policy
  ss_state :: session_state
  ss_created_at :: iso_timestamp

datatype error_event_kind =
    ReplayGap | AgentUnavailableError | AdapterUnknownRecord | AdapterBadLine
  | AdapterSchemaMismatch | AdapterOutputOverflow | CheckpointRestoreFailed | SessionDeleteIncomplete

text \<open>
  One constructor for each key of \<open>EventPayloadMap\<close>, and the host's checklist payload, which
  its contract adds to the map.
\<close>

datatype payload =
    SessionStarted session_started
  | SessionEnded session_end_reason iso_timestamp
  | SessionNotice notice_level session_notice_code string
  | TurnStarted
  | TurnEnded turn_stop_reason "usage option"
  | Message message_role string "attachment_ref list"
  | MessageDelta string
  | Thinking string
  | Hook hook_event
  | ToolCall tool_call
  | ToolResult tool_result
  | PermissionRequest permission_request
  | PermissionResolved permission_resolved
  | CheckpointCreated git_sha string
  | UsageEvent usage
  | ErrorEvent error_event_kind string bool
  | ChecklistItemCompleted string principal_id

text \<open>\<open>KINDS_CARRYING_TURN_ID\<close>.\<close>

fun carries_turn_id :: "payload \<Rightarrow> bool" where
  "carries_turn_id (Message _ _ _) = True"
| "carries_turn_id (MessageDelta _) = True"
| "carries_turn_id (Thinking _) = True"
| "carries_turn_id (Hook _) = True"
| "carries_turn_id (ToolCall _) = True"
| "carries_turn_id (ToolResult _) = True"
| "carries_turn_id (PermissionRequest _) = True"
| "carries_turn_id (PermissionResolved _) = True"
| "carries_turn_id TurnStarted = True"
| "carries_turn_id (TurnEnded _ _) = True"
| "carries_turn_id (UsageEvent _) = True"
| "carries_turn_id _ = False"

text \<open>
  What \<open>raw\<close> may hold: the vendor's own line, or the data of an event the runtime reported
  instead of delivering.
\<close>

datatype raw_value = RawVendor json | RawData payload

record envelope =
  env_seq :: nat
  env_session :: session_id
  env_ts :: iso_timestamp
  env_turn :: "turn_id option"
  env_data :: payload
  env_raw :: "raw_value option"

record frame =
  fr_session :: session_id
  fr_ts :: iso_timestamp
  fr_turn :: "turn_id option"
  fr_data :: payload
  fr_raw :: "raw_value option"

datatype delivery = EnvelopeD envelope | FrameD frame

fun is_frame :: "delivery \<Rightarrow> bool" where
  "is_frame (FrameD _) = True"
| "is_frame (EnvelopeD _) = False"

text \<open>The event's kind, the key of \<open>EventPayloadMap\<close>.\<close>

fun kind_name :: "payload \<Rightarrow> string" where
  "kind_name (SessionStarted _) = ''session.started''"
| "kind_name (SessionEnded _ _) = ''session.ended''"
| "kind_name (SessionNotice _ _ _) = ''session.notice''"
| "kind_name TurnStarted = ''turn.started''"
| "kind_name (TurnEnded _ _) = ''turn.ended''"
| "kind_name (Message _ _ _) = ''message''"
| "kind_name (MessageDelta _) = ''message.delta''"
| "kind_name (Thinking _) = ''thinking''"
| "kind_name (Hook _) = ''hook''"
| "kind_name (ToolCall _) = ''tool.call''"
| "kind_name (ToolResult _) = ''tool.result''"
| "kind_name (PermissionRequest _) = ''permission.request''"
| "kind_name (PermissionResolved _) = ''permission.resolved''"
| "kind_name (CheckpointCreated _ _) = ''checkpoint.created''"
| "kind_name (UsageEvent _) = ''usage''"
| "kind_name (ErrorEvent _ _ _) = ''error''"
| "kind_name (ChecklistItemCompleted _ _) = ''x-skynet.checklist.item.completed''"

section \<open>What an adapter reports\<close>

record adapter_event =
  ae_data :: payload
  ae_raw :: "json option"

text \<open>\<open>AdapterEmitted\<close>: the kinds an adapter may report; the rest belong to the runtime.\<close>

fun adapter_emitted :: "payload \<Rightarrow> bool" where
  "adapter_emitted (SessionStarted _) = False"
| "adapter_emitted (SessionEnded _ _) = False"
| "adapter_emitted (CheckpointCreated _ _) = False"
| "adapter_emitted (ChecklistItemCompleted _ _) = False"
| "adapter_emitted (PermissionResolved _) = False"
| "adapter_emitted _ = True"

datatype adapter_notification =
    AdapterEvent adapter_event
  | CliSession cli_session_id
  | Spawned int "int option" string
  | Exited "int option" "string option"

section \<open>Sessions\<close>

record session_record =
  sr_id :: session_id
  sr_owner :: principal_id
  sr_vendor :: provider_id
  sr_cwd :: resolved_path
  sr_model :: "string option"
  sr_policy :: permission_policy
  sr_sandbox :: "sandbox_mode option"
  sr_cli_session_id :: "cli_session_id option"
  sr_last_seq :: nat
  sr_state :: session_state
  sr_created_at :: iso_timestamp
  sr_ended_at :: "iso_timestamp option"
  sr_end_reason :: "session_end_reason option"
  sr_name :: "string option"

record session_summary =
  sm_id :: session_id
  sm_owner :: principal_id
  sm_vendor :: provider_id
  sm_cwd :: resolved_path
  sm_model :: "string option"
  sm_policy :: permission_policy
  sm_sandbox :: "sandbox_mode option"
  sm_last_seq :: nat
  sm_state :: session_state
  sm_created_at :: iso_timestamp
  sm_ended_at :: "iso_timestamp option"
  sm_end_reason :: "session_end_reason option"
  sm_name :: "string option"
  sm_pending_permissions :: nat

datatype turn_phase = Starting | Running

record pending_permission =
  pn_call_id :: call_id
  pn_tool :: string
  pn_input :: json
  pn_match_target :: "string option"

record turn =
  tn_id :: turn_id
  tn_phase :: turn_phase
  tn_started_at :: iso_timestamp
  tn_pending :: "(request_id, pending_permission) jmap"

record checkpoint =
  ck_sha :: git_sha
  ck_label :: string
  ck_ts :: iso_timestamp

record audit_record =
  au_ts :: iso_timestamp
  au_operator :: "principal_id option"
  au_session :: session_id
  au_vendor :: provider_id
  au_sandbox :: "sandbox_mode option"
  au_tool :: string
  au_input :: json
  au_decision :: permission_decision
  au_scope :: resolved_scope
  au_reason :: "string option"

record audit_query =
  aq_before :: "string option"
  aq_limit :: "int option"
  aq_session :: "session_id option"
  aq_operator :: "principal_id option"
  aq_since :: "iso_timestamp option"
  aq_until :: "iso_timestamp option"
  aq_incidents_only :: bool

record caps =
  ring_capacity :: nat
  tool_result_bytes :: nat
  subscriber_queue_high_water :: nat
  audit_page_max :: nat
  standing_rule_bytes :: nat
  attachment_bytes :: nat
  attachment_count :: nat
  session_tool_output_bytes :: nat
  permission_reason_bytes :: nat

datatype answer_scope = AnswerOnce | AnswerAlways

record permission_answer =
  pa_request_id :: request_id
  pa_decision :: permission_decision
  pa_scope :: answer_scope
  pa_rule :: "string option"
  pa_reason :: "string option"

record tool_output_window =
  tw_from_line :: int
  tw_line_count :: "int option"

record process_record =
  pc_pid :: int
  pc_pgid :: "int option"
  pc_session :: session_id
  pc_turn :: turn_id
  pc_hostname :: "string option"
  pc_started_at :: iso_timestamp
  pc_image :: string
  pc_os_created_at :: "iso_timestamp option"
  pc_exited_at :: "iso_timestamp option"

section \<open>Errors\<close>

datatype jail_error =
    OutsideWorkspaceRoot string "string list"
  | Unresolvable string string

datatype store_error =
    Io string string
  | StoreNotFound string
  | Corrupt string string
  | UnsupportedSchemaVersion string int

datatype checkpoint_error =
    GitUnavailable string
  | InitFailed string
  | CheckpointLocked string
  | NoSuchCheckpoint git_sha
  | CommitFailed string
  | RestoreIncomplete string
  | IgnoredPathCollision "string list"
  | IgnoredSetUnreadable string

text \<open>
  \<open>SessionError\<close>. The type variable is the host's own error, which the runtime carries in
  \<open>host_create\<close> without looking at it.
\<close>

datatype 'h session_error =
    NotFound session_id
  | SessionHasEnded session_id
  | TurnInFlight session_id turn_id
  | WorkspaceBusy resolved_path principal_id
  | BadRequest string string
  | JailE jail_error
  | AdapterE adapter_error
  | CheckpointE checkpoint_error
  | StorageE store_error
  | HostCreate 'h
  | CreateOutcomeUnknown session_id

end
