(* ===== verification/Standing_Rules.thy ===== *)
theory Standing_Rules
  imports Console_Prelude
begin

text \<open>
  The standing-rule grammar of \<open>src/agent-console/core/index.ts\<close>: \<open>parseStandingRule\<close>,
  \<open>matchesPattern\<close> (the wildcard loop, with its indices) and \<open>match\<close>. The abstract
  specification \<open>glob\<close> says what a pattern with wildcards stands for. A string is the list
  of its code units; the model's characters are the code units up to U+00FF.
\<close>

section \<open>Strings\<close>

text \<open>\<open>Buffer.byteLength(text, 'utf8')\<close> on code units up to U+00FF: one byte below 128, two above.\<close>

definition utf8_byte_length :: "string \<Rightarrow> nat" where
  "utf8_byte_length s = sum_list (map (\<lambda>c. if (of_char c :: nat) < 128 then 1 else 2) s)"

text \<open>\<open>indexOf\<close> of a character, with \<open>None\<close> for the code's -1.\<close>

fun index_of :: "char \<Rightarrow> string \<Rightarrow> nat option" where
  "index_of c [] = None"
| "index_of c (x # xs) = (if x = c then Some 0 else map_option Suc (index_of c xs))"

lemma index_of_Some: "index_of c s = Some i \<Longrightarrow> i < length s \<and> s ! i = c \<and> c \<notin> set (take i s)"
  by (induction s arbitrary: i) (auto split: if_splits)

lemma index_of_takeWhile:
  "c \<in> set s \<Longrightarrow> index_of c s = Some (length (takeWhile (\<lambda>x. x \<noteq> c) s))"
  by (induction s) auto

lemma utf8_byte_length_ge: "length s \<le> utf8_byte_length s"
  unfolding utf8_byte_length_def by (induction s) auto

section \<open>Parsing\<close>

definition rule_char_first :: "char \<Rightarrow> bool" where
  "rule_char_first c =
     ((CHR ''A'' \<le> c \<and> c \<le> CHR ''Z'') \<or> (CHR ''a'' \<le> c \<and> c \<le> CHR ''z'')
      \<or> (CHR ''0'' \<le> c \<and> c \<le> CHR ''9'') \<or> c = CHR ''_'')"

definition rule_char_rest :: "char \<Rightarrow> bool" where
  "rule_char_rest c = (rule_char_first c \<or> c = CHR ''.'' \<or> c = CHR ''-'')"

definition cr_lf :: "char \<Rightarrow> bool" where
  "cr_lf c = (c = CHR 0x0D \<or> c = CHR 0x0A)"

text \<open>
  \<open>STANDING_RULE_PATTERN\<close>: a tool name, a colon and a non-empty line. No tool character is a
  colon, so the first colon is the only place the regular expression can split at.
\<close>

definition standing_rule_pattern :: "string \<Rightarrow> bool" where
  "standing_rule_pattern text =
     (case index_of (CHR '':'') text of
        None \<Rightarrow> False
      | Some i \<Rightarrow>
          (case take i text of
             [] \<Rightarrow> False
           | c # cs \<Rightarrow> rule_char_first c \<and> list_all rule_char_rest cs)
          \<and> drop (Suc i) text \<noteq> [] \<and> list_all (\<lambda>c. \<not> cr_lf c) (drop (Suc i) text))"

definition parse_standing_rule :: "string \<Rightarrow> nat \<Rightarrow> string option" where
  "parse_standing_rule text standing_rule_bytes =
     (if standing_rule_bytes < utf8_byte_length text then None
      else if \<not> standing_rule_pattern text then None
      else Some text)"

section \<open>Matching\<close>

definition wildcard_forbids :: "char set" where
  "wildcard_forbids = set [CHR '';'', CHR ''&'', CHR ''|'', CHR ''<'', CHR ''>'', CHR 0x60,
     CHR ''$'', CHR 0x0D, CHR 0x0A]"

text \<open>
  The loop of \<open>matchesPattern\<close>: \<open>pi\<close> and \<open>ti\<close> index the pattern and the target, \<open>star_at\<close> is
  the index of the last wildcard seen (\<open>None\<close> for -1) and \<open>star_ti\<close> the place in the target
  that wildcard stretches to. \<open>None\<close> as a result is a loop that does not end.
\<close>

partial_function (option) match_loop ::
  "string \<Rightarrow> string \<Rightarrow> nat \<Rightarrow> nat \<Rightarrow> nat option \<Rightarrow> nat \<Rightarrow> bool option" where
  "match_loop p t pi ti star_at star_ti =
     (if ti < length t then
        if pi < length p \<and> p ! pi = t ! ti then
          match_loop p t (Suc pi) (Suc ti) star_at star_ti
        else if pi < length p \<and> p ! pi = CHR ''*'' then
          match_loop p t (Suc pi) ti (Some pi) ti
        else (case star_at of
            Some sa \<Rightarrow>
              if t ! star_ti \<in> wildcard_forbids then Some False
              else match_loop p t (Suc sa) (Suc star_ti) star_at (Suc star_ti)
          | None \<Rightarrow> Some False)
      else Some (dropWhile (\<lambda>c. c = CHR ''*'') (drop pi p) = []))"

declare match_loop.simps [code]

definition matches_pattern :: "string \<Rightarrow> string \<Rightarrow> bool" where
  "matches_pattern p t = (match_loop p t 0 0 None 0 = Some True)"

text \<open>
  \<open>match\<close>. The request is given by its tool and its match target. \<open>slice(0, -1)\<close> and
  \<open>slice(0)\<close>, which a rule without a colon would meet, drop the last character and nothing.
\<close>

definition match_rule :: "string \<Rightarrow> string \<Rightarrow> string option \<Rightarrow> bool" where
  "match_rule rule request_tool match_target =
     (case match_target of
        None \<Rightarrow> False
      | Some target \<Rightarrow>
          (let (tool, pattern) =
             (case index_of (CHR '':'') rule of
                Some colon \<Rightarrow> (take colon rule, drop (Suc colon) rule)
              | None \<Rightarrow> (butlast rule, rule))
           in tool = request_tool \<and> matches_pattern pattern target))"

section \<open>Specification\<close>

text \<open>
  What a pattern stands for: each wildcard is some run of characters without a shell
  metacharacter, the empty run included, and every other character is itself.
\<close>

fun glob :: "string \<Rightarrow> string \<Rightarrow> bool" where
  "glob [] t = (t = [])"
| "glob (p # ps) [] = (p = CHR ''*'' \<and> glob ps [])"
| "glob (p # ps) (c # cs) =
     (if p = CHR ''*'' then glob ps (c # cs) \<or> (c \<notin> wildcard_forbids \<and> glob (p # ps) cs)
      else c = p \<and> glob ps cs)"

abbreviation star :: char where
  "star \<equiv> CHR ''*''"

lemma star_not_forbidden [simp]: "star \<notin> wildcard_forbids"
  by (simp add: wildcard_forbids_def)

lemma glob_star_skip: "glob ps t \<Longrightarrow> glob (star # ps) t"
  by (cases t) auto

lemma glob_star_run:
  "set w \<inter> wildcard_forbids = {} \<Longrightarrow> glob (star # ps) v \<Longrightarrow> glob (star # ps) (w @ v)"
  by (induction w) auto

lemma glob_star_elim:
  "glob (star # ps) t \<Longrightarrow> \<exists>w v. t = w @ v \<and> set w \<inter> wildcard_forbids = {} \<and> glob ps v"
proof (induction t)
  case Nil
  then show ?case by auto
next
  case (Cons c cs)
  show ?case
  proof (cases "glob ps (c # cs)")
    case True
    then show ?thesis by (intro exI [of _ "[]"] exI [of _ "c # cs"]) simp
  next
    case False
    with Cons.prems have "c \<notin> wildcard_forbids" "glob (star # ps) cs" by auto
    with Cons.IH obtain w v where "cs = w @ v" "set w \<inter> wildcard_forbids = {}" "glob ps v"
      by blast
    with \<open>c \<notin> wildcard_forbids\<close> show ?thesis
      by (intro exI [of _ "c # w"] exI [of _ v]) auto
  qed
qed

lemma glob_literal: "star \<notin> set s \<Longrightarrow> glob (s @ ps) t \<longleftrightarrow> (\<exists>v. t = s @ v \<and> glob ps v)"
proof (induction s arbitrary: t)
  case Nil
  then show ?case by simp
next
  case (Cons c s)
  then show ?case by (cases t) auto
qed

lemma glob_empty: "glob ps [] \<longleftrightarrow> dropWhile (\<lambda>c. c = star) ps = []"
  by (induction ps) auto

text \<open>
  The step that makes backtracking to the last wildcard enough: when a literal segment has
  been matched as early as possible and another wildcard follows it, nothing is lost by
  forgetting the wildcard before the segment.
\<close>

lemma glob_greedy:
  assumes g: "glob (star # s @ star # ps) (s @ u)" and lit: "star \<notin> set s"
  shows "glob (star # ps) u"
proof -
  from glob_star_elim [OF g] obtain w x where
    w: "s @ u = w @ x" "set w \<inter> wildcard_forbids = {}" and x: "glob (s @ star # ps) x"
    by blast
  from x lit obtain v where v: "x = s @ v" "glob (star # ps) v"
    by (auto simp: glob_literal)
  from w v have eq: "s @ u = (w @ s) @ v" by simp
  define y where "y = take (length w) u"
  have u: "u = y @ v"
  proof -
    from eq have "drop (length (w @ s)) (s @ u) = v" by simp
    then have "drop (length w) u = v" by (simp add: add.commute)
    then show ?thesis by (metis append_take_drop_id y_def)
  qed
  with eq have "s @ y = w @ s" by simp
  then have "set y = set w" by (rule conjugate_set)
  with w(2) v(2) u show ?thesis by (simp add: glob_star_run)
qed

section \<open>The loop returns\<close>

definition loop_wf :: "string \<Rightarrow> string \<Rightarrow> nat \<Rightarrow> nat \<Rightarrow> nat option \<Rightarrow> nat \<Rightarrow> bool" where
  "loop_wf p t pi ti sa st =
     (ti \<le> length t \<and> pi \<le> length p \<and> st \<le> ti
      \<and> (case sa of None \<Rightarrow> True | Some a \<Rightarrow> a < pi \<and> a < length p \<and> p ! a = star))"

text \<open>
  Every turn of the loop moves the wildcard's stretch forward, or keeps it and moves one of
  the two indices forward: the lexicographic order below decreases.
\<close>

definition loop_rel :: "string \<Rightarrow> string \<Rightarrow> ((nat \<times> nat \<times> nat option \<times> nat) \<times> (nat \<times> nat \<times> nat option \<times> nat)) set" where
  "loop_rel p t = measures [\<lambda>(pi, ti, sa, st). length t - st,
                            \<lambda>(pi, ti, sa, st). (length t - ti) + (length p - pi)]"

lemma wf_loop_rel: "wf (loop_rel p t)"
  by (simp add: loop_rel_def)

text \<open>
  Induction over the turns of the loop: a property of its states that holds at the exits and
  is inherited from the next state holds everywhere.
\<close>

lemma match_loop_induct [consumes 1, case_names turn]:
  assumes wf: "loop_wf p t pi ti sa st"
    and step: "\<And>pi ti sa st.
      loop_wf p t pi ti sa st \<Longrightarrow>
      (ti < length t \<Longrightarrow> pi < length p \<Longrightarrow> p ! pi = t ! ti \<Longrightarrow> P (Suc pi) (Suc ti) sa st) \<Longrightarrow>
      (ti < length t \<Longrightarrow> pi < length p \<Longrightarrow> p ! pi \<noteq> t ! ti \<Longrightarrow> p ! pi = star \<Longrightarrow>
         P (Suc pi) ti (Some pi) ti) \<Longrightarrow>
      (\<And>a. ti < length t \<Longrightarrow> \<not> (pi < length p \<and> p ! pi = t ! ti) \<Longrightarrow>
         \<not> (pi < length p \<and> p ! pi = star) \<Longrightarrow> sa = Some a \<Longrightarrow> t ! st \<notin> wildcard_forbids \<Longrightarrow>
         P (Suc a) (Suc st) sa (Suc st)) \<Longrightarrow>
      P pi ti sa st"
  shows "P pi ti sa st"
proof -
  have "loop_wf p t (fst x) (fst (snd x)) (fst (snd (snd x))) (snd (snd (snd x))) \<Longrightarrow>
      P (fst x) (fst (snd x)) (fst (snd (snd x))) (snd (snd (snd x)))" for x
  proof (induction x rule: wf_induct_rule [OF wf_loop_rel [of p t]])
    case (1 x)
    obtain pi ti sa st where x: "x = (pi, ti, sa, st)" by (cases x) auto
    from "1.prems" x have wf: "loop_wf p t pi ti sa st" by simp
    have IH: "((pi', ti', sa', st'), x) \<in> loop_rel p t \<Longrightarrow> loop_wf p t pi' ti' sa' st' \<Longrightarrow>
        P pi' ti' sa' st'" for pi' ti' sa' st'
      using "1.IH" [of "(pi', ti', sa', st')"] by simp
    have "P pi ti sa st"
    proof (rule step [OF wf])
      assume "ti < length t" "pi < length p" "p ! pi = t ! ti"
      with wf show "P (Suc pi) (Suc ti) sa st"
        by (intro IH) (auto simp: loop_rel_def loop_wf_def x split: option.splits)
    next
      assume "ti < length t" "pi < length p" "p ! pi = star"
      with wf show "P (Suc pi) ti (Some pi) ti"
        by (intro IH) (auto simp: loop_rel_def loop_wf_def x split: option.splits)
    next
      fix a
      assume "ti < length t" "sa = Some a"
      with wf show "P (Suc a) (Suc st) sa (Suc st)"
        by (intro IH) (auto simp: loop_rel_def loop_wf_def x)
    qed
    then show ?case by (simp add: x)
  qed
  from this [of "(pi, ti, sa, st)"] wf show ?thesis by simp
qed

lemma loop_wf_start [simp]: "loop_wf p t 0 0 None 0"
  by (simp add: loop_wf_def)

lemma match_loop_returns:
  "loop_wf p t pi ti sa st \<Longrightarrow> \<exists>b. match_loop p t pi ti sa st = Some b"
proof (induction rule: match_loop_induct)
  case (turn pi ti sa st)
  then show ?case
    by (subst match_loop.simps) (auto split: option.splits)
qed

section \<open>Soundness\<close>

definition loop_sound :: "string \<Rightarrow> string \<Rightarrow> nat \<Rightarrow> nat \<Rightarrow> nat option \<Rightarrow> nat \<Rightarrow> bool" where
  "loop_sound p t pi ti sa st =
     ((glob (drop pi p) (drop ti t) \<longrightarrow> glob p t)
      \<and> (\<forall>a. sa = Some a \<longrightarrow> glob (drop a p) (drop st t) \<longrightarrow> glob p t))"

lemma match_loop_sound:
  "loop_wf p t pi ti sa st \<Longrightarrow> loop_sound p t pi ti sa st \<Longrightarrow>
   match_loop p t pi ti sa st = Some True \<Longrightarrow> glob p t"
proof (induction rule: match_loop_induct)
  case (turn pi ti sa st)
  note wf = turn.hyps and sound = turn.prems(1) and ret = turn.prems(2)
  consider (finish) "\<not> ti < length t"
    | (agree) "ti < length t" "pi < length p" "p ! pi = t ! ti"
    | (wild) "ti < length t" "pi < length p" "p ! pi \<noteq> t ! ti" "p ! pi = star"
    | (retry) "ti < length t" "\<not> (pi < length p \<and> p ! pi = t ! ti)"
        "\<not> (pi < length p \<and> p ! pi = star)"
    by blast
  then show ?case
  proof cases
    case finish
    with ret have "dropWhile (\<lambda>c. c = star) (drop pi p) = []"
      by (subst (asm) match_loop.simps) simp
    with finish sound show ?thesis by (simp add: loop_sound_def glob_empty)
  next
    case agree
    have "glob (drop (Suc pi) p) (drop (Suc ti) t) \<Longrightarrow> glob (drop pi p) (drop ti t)"
      using agree by (auto simp: drop_nth_Cons glob_star_skip)
    with sound have "loop_sound p t (Suc pi) (Suc ti) sa st"
      by (auto simp: loop_sound_def)
    with agree ret show ?thesis
      by (intro turn.IH(1)) (auto simp: match_loop.simps [of p t pi ti])
  next
    case wild
    have "glob (drop (Suc pi) p) (drop ti t) \<Longrightarrow> glob (drop pi p) (drop ti t)"
      using wild by (simp add: drop_nth_Cons [of pi p] glob_star_skip)
    with sound have "loop_sound p t (Suc pi) ti (Some pi) ti"
      by (auto simp: loop_sound_def)
    with wild ret show ?thesis
      by (intro turn.IH(2)) (auto simp: match_loop.simps [of p t pi ti])
  next
    case retry
    with ret obtain a where a: "sa = Some a" "t ! st \<notin> wildcard_forbids"
        "match_loop p t (Suc a) (Suc st) sa (Suc st) = Some True"
      by (auto simp: match_loop.simps [of p t pi ti] split: option.splits if_splits)
    from wf retry a have st: "st < length t" and sa: "a < length p" "p ! a = star"
      by (auto simp: loop_wf_def)
    have s: "glob (drop a p) (drop (Suc st) t) \<Longrightarrow> glob (drop a p) (drop st t)"
      using st sa a by (simp add: drop_nth_Cons [of a p] drop_nth_Cons [of st t])
    moreover have "glob (drop (Suc a) p) (drop (Suc st) t) \<Longrightarrow> glob (drop a p) (drop (Suc st) t)"
      using sa by (simp add: drop_nth_Cons [of a p] glob_star_skip)
    ultimately have "loop_sound p t (Suc a) (Suc st) sa (Suc st)"
      using sound a by (auto simp: loop_sound_def)
    with retry a show ?thesis by (intro turn.IH(3)) auto
  qed
qed

section \<open>Completeness on targets without an asterisk\<close>

text \<open>
  What the loop keeps when the target has no asterisk: if the pattern matches at all, it
  still matches from the last wildcard on, and the pattern between that wildcard and the
  index is the text between the stretch and the other index.
\<close>

definition loop_complete :: "string \<Rightarrow> string \<Rightarrow> nat \<Rightarrow> nat \<Rightarrow> nat option \<Rightarrow> nat \<Rightarrow> bool" where
  "loop_complete p t pi ti sa st =
     (case sa of
        None \<Rightarrow> glob (drop pi p) (drop ti t)
      | Some a \<Rightarrow> glob (drop a p) (drop st t)
          \<and> (\<exists>s. star \<notin> set s \<and> drop (Suc a) p = s @ drop pi p \<and> drop st t = s @ drop ti t))"

lemma drop_split: "xs = s @ drop i ys \<Longrightarrow> i < length ys \<Longrightarrow> xs = (s @ [ys ! i]) @ drop (Suc i) ys"
  by (simp add: drop_nth_Cons)

lemma loop_complete_agree:
  assumes inv: "loop_complete p t pi ti sa st" and t: "ti < length t" and p: "pi < length p"
    and eq: "p ! pi = t ! ti" and ns: "star \<notin> set t"
  shows "loop_complete p t (Suc pi) (Suc ti) sa st"
proof (cases sa)
  case None
  from t ns have "t ! ti \<noteq> star" by (metis nth_mem)
  with inv None t p eq show ?thesis
    by (simp add: loop_complete_def drop_nth_Cons [of pi p] drop_nth_Cons [of ti t])
next
  case (Some a)
  with inv obtain s where g: "glob (drop a p) (drop st t)" and s: "star \<notin> set s"
      "drop (Suc a) p = s @ drop pi p" "drop st t = s @ drop ti t"
    by (auto simp: loop_complete_def)
  from t ns have "t ! ti \<noteq> star" by (metis nth_mem)
  with s drop_split [OF s(2) p] drop_split [OF s(3) t] eq
  have "star \<notin> set (s @ [t ! ti])" "drop (Suc a) p = (s @ [t ! ti]) @ drop (Suc pi) p"
      "drop st t = (s @ [t ! ti]) @ drop (Suc ti) t"
    by auto
  with g Some show ?thesis unfolding loop_complete_def by auto
qed

lemma loop_complete_wild:
  assumes inv: "loop_complete p t pi ti sa st" and wf: "loop_wf p t pi ti sa st"
    and p: "pi < length p" "p ! pi = star"
  shows "loop_complete p t (Suc pi) ti (Some pi) ti"
proof -
  have "glob (drop pi p) (drop ti t)"
  proof (cases sa)
    case None
    with inv show ?thesis by (simp add: loop_complete_def)
  next
    case (Some a)
    with inv obtain s where g: "glob (drop a p) (drop st t)" and s: "star \<notin> set s"
        "drop (Suc a) p = s @ drop pi p" "drop st t = s @ drop ti t"
      by (auto simp: loop_complete_def)
    from wf Some have "a < length p" "p ! a = star" by (auto simp: loop_wf_def)
    with s p g have "glob (star # s @ star # drop (Suc pi) p) (s @ drop ti t)"
      by (simp add: drop_nth_Cons [of a p] drop_nth_Cons [of pi p])
    from glob_greedy [OF this s(1)] p show ?thesis by (simp add: drop_nth_Cons [of pi p])
  qed
  then show ?thesis
    by (auto simp: loop_complete_def intro: exI [of _ "[]"])
qed

text \<open>A mismatch after a literal segment is a mismatch of the pattern from that segment on.\<close>

lemma glob_mismatch:
  assumes "star \<notin> set s" "ti < length t" "\<not> (pi < length p \<and> p ! pi = t ! ti)"
    "\<not> (pi < length p \<and> p ! pi = star)"
  shows "\<not> glob (s @ drop pi p) (s @ drop ti t)"
proof (cases "pi < length p")
  case True
  with assms show ?thesis
    by (auto simp: glob_literal drop_nth_Cons [of pi p] drop_nth_Cons [of ti t])
next
  case False
  with assms show ?thesis using glob_literal [of s "[]"] by auto
qed

lemma loop_complete_retry:
  assumes inv: "loop_complete p t pi ti (Some a) st" and wf: "loop_wf p t pi ti (Some a) st"
    and mis: "ti < length t" "\<not> (pi < length p \<and> p ! pi = t ! ti)"
      "\<not> (pi < length p \<and> p ! pi = star)"
  shows "t ! st \<notin> wildcard_forbids \<and> loop_complete p t (Suc a) (Suc st) (Some a) (Suc st)"
proof -
  from inv obtain s where g: "glob (drop a p) (drop st t)" and s: "star \<notin> set s"
      "drop (Suc a) p = s @ drop pi p" "drop st t = s @ drop ti t"
    by (auto simp: loop_complete_def)
  from wf mis have b: "a < length p" "p ! a = star" "st < length t" by (auto simp: loop_wf_def)
  have "\<not> glob (drop (Suc a) p) (drop st t)"
    using glob_mismatch [OF s(1) mis] by (simp add: s)
  with g b have "t ! st \<notin> wildcard_forbids" "glob (drop a p) (drop (Suc st) t)"
    by (auto simp: drop_nth_Cons [of a p] drop_nth_Cons [of st t])
  then show ?thesis by (auto simp: loop_complete_def intro: exI [of _ "[]"])
qed

lemma loop_complete_finish:
  assumes inv: "loop_complete p t pi ti sa st" and wf: "loop_wf p t pi ti sa st"
    and fin: "\<not> ti < length t"
  shows "glob (drop pi p) []"
proof (cases sa)
  case None
  with inv fin show ?thesis by (simp add: loop_complete_def)
next
  case (Some a)
  with inv fin obtain s where g: "glob (drop a p) (drop st t)" and s: "star \<notin> set s"
      "drop (Suc a) p = s @ drop pi p" "drop st t = s"
    by (auto simp: loop_complete_def)
  from wf Some have "a < length p" "p ! a = star" by (auto simp: loop_wf_def)
  with g s have "glob (star # s @ drop pi p) s" by (simp add: drop_nth_Cons [of a p])
  from glob_star_elim [OF this] obtain w v where "s = w @ v" "glob (s @ drop pi p) v" by blast
  moreover from this(2) s(1) obtain u where "v = s @ u" "glob (drop pi p) u"
    by (auto simp: glob_literal)
  ultimately have "s = w @ s @ u" by simp
  then have "length s = length w + (length s + length u)" by (metis length_append)
  then have "u = []" by simp
  with \<open>glob (drop pi p) u\<close> show ?thesis by simp
qed

lemma match_loop_complete:
  "loop_wf p t pi ti sa st \<Longrightarrow> loop_complete p t pi ti sa st \<Longrightarrow> star \<notin> set t \<Longrightarrow>
   match_loop p t pi ti sa st = Some True"
proof (induction rule: match_loop_induct)
  case (turn pi ti sa st)
  note wf = turn.hyps and inv = turn.prems(1) and ns = turn.prems(2)
  consider (finish) "\<not> ti < length t"
    | (agree) "ti < length t" "pi < length p" "p ! pi = t ! ti"
    | (wild) "ti < length t" "pi < length p" "p ! pi \<noteq> t ! ti" "p ! pi = star"
    | (retry) "ti < length t" "\<not> (pi < length p \<and> p ! pi = t ! ti)"
        "\<not> (pi < length p \<and> p ! pi = star)"
    by blast
  then show ?case
  proof cases
    case finish
    with loop_complete_finish [OF inv wf] show ?thesis
      by (subst match_loop.simps) (simp add: glob_empty)
  next
    case agree
    with turn.IH(1) loop_complete_agree [OF inv] ns show ?thesis
      by (simp add: match_loop.simps [of p t pi ti])
  next
    case wild
    with turn.IH(2) loop_complete_wild [OF inv wf] ns show ?thesis
      by (simp add: match_loop.simps [of p t pi ti])
  next
    case retry
    show ?thesis
    proof (cases sa)
      case None
      with inv glob_mismatch [of "[]", OF _ retry] have False
        by (simp add: loop_complete_def)
      then show ?thesis ..
    next
      case (Some a)
      with loop_complete_retry [of p t pi ti a st] inv wf retry
      have "t ! st \<notin> wildcard_forbids" "loop_complete p t (Suc a) (Suc st) sa (Suc st)" by auto
      with retry turn.IH(3) [of a] Some ns show ?thesis
        by (subst match_loop.simps) auto
    qed
  qed
qed

lemma matches_pattern_sound: "matches_pattern p t \<Longrightarrow> glob p t"
  using match_loop_sound [of p t 0 0 None 0] by (simp add: matches_pattern_def loop_sound_def)

lemma matches_pattern_complete: "glob p t \<Longrightarrow> star \<notin> set t \<Longrightarrow> matches_pattern p t"
  using match_loop_complete [of p t 0 0 None 0]
  by (simp add: matches_pattern_def loop_complete_def)

lemma match_rule_split:
  "standing_rule_pattern rule \<Longrightarrow>
   \<exists>tool pat. rule = tool @ CHR '':'' # pat \<and> CHR '':'' \<notin> set tool \<and> tool \<noteq> [] \<and> pat \<noteq> []
     \<and> (\<forall>q m. match_rule rule q m \<longleftrightarrow> (\<exists>t. m = Some t \<and> tool = q \<and> matches_pattern pat t))"
proof -
  assume r: "standing_rule_pattern rule"
  then obtain i where i: "index_of (CHR '':'') rule = Some i" "drop (Suc i) rule \<noteq> []"
      "take i rule \<noteq> []"
    by (cases "index_of (CHR '':'') rule")
      (fastforce simp: standing_rule_pattern_def split: list.splits)+
  from index_of_Some [OF i(1)] have "rule = take i rule @ CHR '':'' # drop (Suc i) rule"
    "CHR '':'' \<notin> set (take i rule)"
    using id_take_nth_drop [of i rule] by auto
  with i show ?thesis
    by (intro exI [of _ "take i rule"] exI [of _ "drop (Suc i) rule"])
      (auto simp: match_rule_def split: option.splits)
qed

section \<open>Properties\<close>

text \<open>
  C34: the wildcard loop of \<open>matchesPattern\<close> returns on every pattern and target, from its
  initial indices, and whenever it answers that the target matches, the target is an instance
  of the pattern in which no wildcard crosses a shell metacharacter.
\<close>

theorem matches_pattern_safe:
  "\<exists>b. match_loop p t 0 0 None 0 = Some b \<and> matches_pattern p t = b \<and> (b \<longrightarrow> glob p t)"
  using match_loop_returns [of p t 0 0 None 0] matches_pattern_sound [of p t]
  by (auto simp: matches_pattern_def)

theorem matches_pattern_safe_witness:
  "glob ''rm -r *'' ''rm -r build/x'' \<and> \<not> matches_pattern ''rm -r *'' ''rm -r x; reboot''"
proof
  have "match_loop ''rm -r *'' ''rm -r build/x'' 0 0 None 0 = Some True"
    by (simp add: match_loop.simps wildcard_forbids_def)
  with matches_pattern_safe [of "''rm -r *''" "''rm -r build/x''"]
  show "glob ''rm -r *'' ''rm -r build/x''" by auto
  show "\<not> matches_pattern ''rm -r *'' ''rm -r x; reboot''"
    by (simp add: matches_pattern_def match_loop.simps wildcard_forbids_def)
qed

text \<open>
  C35: on a target without an asterisk, the single-backtrack loop of \<open>matchesPattern\<close> decides
  exactly the declarative reading of the pattern: forgetting all but the last wildcard loses
  no match, even though wildcards may not cross metacharacters.
\<close>

theorem matches_pattern_exact:
  assumes "star \<notin> set t"
  shows "matches_pattern p t = glob p t"
  using assms matches_pattern_sound matches_pattern_complete by blast

theorem matches_pattern_exact_witness:
  "matches_pattern ''npm * --x=*'' ''npm run a --x=1'' = glob ''npm * --x=*'' ''npm run a --x=1''
   \<and> glob ''npm * --x=*'' ''npm run a --x=1''"
proof
  show "matches_pattern ''npm * --x=*'' ''npm run a --x=1''
      = glob ''npm * --x=*'' ''npm run a --x=1''"
    by (rule matches_pattern_exact) simp
  show "glob ''npm * --x=*'' ''npm run a --x=1''"
    by (simp add: wildcard_forbids_def)
qed

text \<open>
  The loop compares characters before it looks for a wildcard, so a wildcard that meets
  an asterisk in the target is consumed as a literal. The rule \<open>Bash:ls *\<close> does not match the
  command \<open>ls *.txt\<close>, although the command is an instance of the pattern.
\<close>

theorem match_rule_literal_star:
  "glob ''ls *'' ''ls *.txt'' \<and> \<not> matches_pattern ''ls *'' ''ls *.txt''
   \<and> \<not> match_rule ''Bash:ls *'' ''Bash'' (Some ''ls *.txt'')
   \<and> match_rule ''Bash:ls *'' ''Bash'' (Some ''ls a.txt'')"
  by (simp add: wildcard_forbids_def match_rule_def matches_pattern_def match_loop.simps)

text \<open>
  A rule that parses splits at its first colon into a non-empty tool name and a
  non-empty pattern; it matches a request exactly when the request has a match target, names
  that very tool, and the pattern matches the target. It never matches a request without a
  match target, and it fits the byte limit.
\<close>

theorem parsed_rule_matches:
  assumes "parse_standing_rule text limit = Some rule"
  shows "rule = text \<and> utf8_byte_length rule \<le> limit \<and>
    (\<exists>tool pat. rule = tool @ CHR '':'' # pat \<and> CHR '':'' \<notin> set tool \<and> tool \<noteq> [] \<and> pat \<noteq> []
     \<and> (\<forall>q m. match_rule rule q m \<longleftrightarrow> (\<exists>t. m = Some t \<and> tool = q \<and> matches_pattern pat t)))"
proof -
  from assms have "rule = text" "utf8_byte_length rule \<le> limit" "standing_rule_pattern rule"
    by (auto simp: parse_standing_rule_def split: if_splits)
  with match_rule_split [of rule] show ?thesis by simp
qed

theorem parsed_rule_matches_witness:
  "\<exists>tool pat. ''Bash:ls *'' = tool @ CHR '':'' # pat \<and> tool \<noteq> [] \<and> pat \<noteq> []"
proof -
  have "parse_standing_rule ''Bash:ls *'' 64 = Some ''Bash:ls *''"
    by code_simp
  from parsed_rule_matches [OF this] show ?thesis by blast
qed

end
