(* ===== verification/Uploads.thy ===== *)
theory Uploads
  imports Vocabulary "HOL-Library.Word"
begin

text \<open>
  \<open>createAttachmentStaging\<close> of \<open>src/agent-console/core/attachments.ts\<close>: the in-memory staging
  of chunked uploads. The clock reading, the fresh identifier and the authorisation callback
  are arguments of the operations; one call reads the clock once. An operation returns the
  staged uploads it leaves and its result.
\<close>

type_synonym byte = "8 word"

section \<open>State\<close>

text \<open>\<open>None\<close> as a declared size is a number that is not an integer.\<close>

record upload_metadata =
  um_filename :: string
  um_media_type :: string
  um_size_bytes :: "int option"

record upload =
  up_session :: session_id
  up_principal :: principal_id
  up_metadata :: upload_metadata
  up_expires :: int
  up_chunks :: "byte list list"
  up_size :: nat
  up_committed :: bool

type_synonym uploads = "(string, upload) jmap"

type_synonym 'h authorize = "session_id \<Rightarrow> principal_id \<Rightarrow> ('h session_error, unit) result"

definition max_safe_integer :: int where
  "max_safe_integer = 2 ^ 53 - 1"

definition is_safe_integer :: "int option \<Rightarrow> bool" where
  "is_safe_integer n = (case n of None \<Rightarrow> False | Some k \<Rightarrow> \<bar>k\<bar> \<le> max_safe_integer)"

definition chunk_limit :: nat where
  "chunk_limit = 256 * 1024"

section \<open>Operations\<close>

definition bad :: "string \<Rightarrow> 'h session_error" where
  "bad detail = BadRequest ''attachments'' detail"

definition purge :: "int \<Rightarrow> uploads \<Rightarrow> uploads" where
  "purge now us = filter (\<lambda>(i, u). \<not> up_expires u \<le> now) us"

definition find_upload ::
  "'h authorize \<Rightarrow> session_id \<Rightarrow> principal_id \<Rightarrow> string \<Rightarrow> uploads
   \<Rightarrow> ('h session_error, upload) result" where
  "find_upload authorize session owner i us =
     (case jget us i of
        None \<Rightarrow> Inl (NotFound session)
      | Some u \<Rightarrow>
          if up_session u \<noteq> session \<or> up_principal u \<noteq> owner then Inl (NotFound session)
          else (case authorize session owner of Inl e \<Rightarrow> Inl e | Inr _ \<Rightarrow> Inr u))"

definition begin_upload ::
  "caps \<Rightarrow> int \<Rightarrow> 'h authorize \<Rightarrow> int \<Rightarrow> string \<Rightarrow> session_id \<Rightarrow> principal_id \<Rightarrow> upload_metadata
   \<Rightarrow> uploads \<Rightarrow> uploads \<times> ('h session_error, string) result" where
  "begin_upload caps ttl authorize now fresh session owner metadata us0 =
     (let us = purge now us0 in
      case authorize session owner of
        Inl e \<Rightarrow> (us, Inl e)
      | Inr _ \<Rightarrow>
          if \<not> is_safe_integer (um_size_bytes metadata) \<or> the (um_size_bytes metadata) < 0
             \<or> int (attachment_bytes caps) < the (um_size_bytes metadata)
          then (us, Inl (bad ''attachment exceeds byte cap''))
          else if attachment_count caps \<le> length (filter (\<lambda>u. up_session u = session) (jvals us))
          then (us, Inl (bad ''attachment count exceeded''))
          else (jset us fresh \<lparr>up_session = session, up_principal = owner, up_metadata = metadata,
                  up_expires = now + ttl, up_chunks = [], up_size = 0, up_committed = False\<rparr>,
                Inr fresh))"

definition write_upload ::
  "'h authorize \<Rightarrow> int \<Rightarrow> session_id \<Rightarrow> principal_id \<Rightarrow> string \<Rightarrow> int \<Rightarrow> byte list
   \<Rightarrow> uploads \<Rightarrow> uploads \<times> ('h session_error, nat) result" where
  "write_upload authorize now session owner i offset bytes us0 =
     (let us = purge now us0 in
      case find_upload authorize session owner i us of
        Inl e \<Rightarrow> (us, Inl e)
      | Inr u \<Rightarrow>
          if up_committed u \<or> offset \<noteq> int (up_size u) \<or> length bytes = 0
             \<or> chunk_limit < length bytes
             \<or> the (um_size_bytes (up_metadata u)) < int (up_size u + length bytes)
          then (us, Inl (bad ''invalid upload chunk or offset''))
          else (jset us i (u\<lparr>up_chunks := up_chunks u @ [bytes],
                             up_size := up_size u + length bytes\<rparr>),
                Inr (up_size u + length bytes)))"

definition commit_upload ::
  "'h authorize \<Rightarrow> int \<Rightarrow> session_id \<Rightarrow> principal_id \<Rightarrow> string
   \<Rightarrow> uploads \<Rightarrow> uploads \<times> ('h session_error, string) result" where
  "commit_upload authorize now session owner i us0 =
     (let us = purge now us0 in
      case find_upload authorize session owner i us of
        Inl e \<Rightarrow> (us, Inl e)
      | Inr u \<Rightarrow>
          if int (up_size u) \<noteq> the (um_size_bytes (up_metadata u))
          then (us, Inl (bad ''upload is incomplete''))
          else (jset us i (u\<lparr>up_committed := True\<rparr>), Inr i))"

definition abort_upload ::
  "'h authorize \<Rightarrow> int \<Rightarrow> session_id \<Rightarrow> principal_id \<Rightarrow> string
   \<Rightarrow> uploads \<Rightarrow> uploads \<times> ('h session_error, unit) result" where
  "abort_upload authorize now session owner i us0 =
     (let us = purge now us0 in
      case find_upload authorize session owner i us of
        Inl e \<Rightarrow> (us, Inl e)
      | Inr u \<Rightarrow> (jdel us i, Inr ()))"

text \<open>The loop of \<open>take\<close> that selects the uploads, in the order of the identifiers.\<close>

fun select_uploads ::
  "'h authorize \<Rightarrow> session_id \<Rightarrow> principal_id \<Rightarrow> string list \<Rightarrow> uploads
   \<Rightarrow> ('h session_error, upload list) result" where
  "select_uploads authorize session owner [] us = Inr []"
| "select_uploads authorize session owner (i # is) us =
     (case find_upload authorize session owner i us of
        Inl e \<Rightarrow> Inl e
      | Inr u \<Rightarrow>
          if \<not> up_committed u then Inl (bad ''upload is not committed'')
          else (case select_uploads authorize session owner is us of
                  Inl e \<Rightarrow> Inl e
                | Inr us' \<Rightarrow> Inr (u # us')))"

text \<open>\<open>Buffer.concat(chunks, size)\<close>: cut or filled with zeros to the size.\<close>

definition buffer_concat :: "byte list list \<Rightarrow> nat \<Rightarrow> byte list" where
  "buffer_concat chunks n = take n (concat chunks @ replicate n 0)"

definition take_uploads ::
  "caps \<Rightarrow> 'h authorize \<Rightarrow> int \<Rightarrow> session_id \<Rightarrow> principal_id \<Rightarrow> string list
   \<Rightarrow> uploads \<Rightarrow> uploads \<times> ('h session_error, (upload_metadata \<times> byte list) list) result" where
  "take_uploads caps authorize now session owner is us0 =
     (if attachment_count caps < length is \<or> \<not> distinct is
      then (us0, Inl (bad ''invalid attachment count or duplicate upload''))
      else
        (let us = (if is = [] then us0 else purge now us0) in
         case select_uploads authorize session owner is us of
           Inl e \<Rightarrow> (us, Inl e)
         | Inr selected \<Rightarrow>
             (fold (\<lambda>i m. jdel m i) is us,
              Inr (map (\<lambda>u. (up_metadata u, buffer_concat (up_chunks u) (up_size u))) selected))))"

definition discard_uploads :: "session_id \<Rightarrow> uploads \<Rightarrow> uploads" where
  "discard_uploads session us = filter (\<lambda>(i, u). up_session u \<noteq> session) us"

section \<open>Invariant\<close>

text \<open>
  A staged upload's size is the number of bytes received, within the size it declared, which
  is within the cap; a committed upload is complete.
\<close>

definition upload_ok :: "caps \<Rightarrow> upload \<Rightarrow> bool" where
  "upload_ok caps u =
     (up_size u = length (concat (up_chunks u))
      \<and> (\<exists>n. um_size_bytes (up_metadata u) = Some (int n) \<and> up_size u \<le> n \<and> n \<le> attachment_bytes caps
            \<and> (up_committed u \<longrightarrow> up_size u = n)))"

definition session_uploads :: "session_id \<Rightarrow> uploads \<Rightarrow> upload list" where
  "session_uploads session us = filter (\<lambda>u. up_session u = session) (jvals us)"

definition uploads_ok :: "caps \<Rightarrow> uploads \<Rightarrow> bool" where
  "uploads_ok caps us =
     (jmap_ok us \<and> (\<forall>i u. jget us i = Some u \<longrightarrow> upload_ok caps u)
      \<and> (\<forall>session. length (session_uploads session us) \<le> attachment_count caps))"

lemma jget_filter:
  "jmap_ok us \<Longrightarrow> jget (filter (\<lambda>(i, u). P i u) us) i =
     (case jget us i of None \<Rightarrow> None | Some u \<Rightarrow> if P i u then Some u else None)"
  unfolding jmap_ok_def jget_def
  by (induction us) (auto split: option.splits simp: map_of_eq_None_iff dest: map_of_SomeD)

lemma jmap_ok_filter: "jmap_ok us \<Longrightarrow> jmap_ok (filter P us)"
  unfolding jmap_ok_def by (induction us) auto

lemma session_uploads_filter: "length (session_uploads s (filter P us)) \<le> length (session_uploads s us)"
  unfolding session_uploads_def jvals_def by (induction us) auto

lemma session_uploads_jset:
  "jget us i = Some u \<Longrightarrow> up_session v = up_session u \<Longrightarrow>
   length (session_uploads s (jset us i v)) = length (session_uploads s us)"
  unfolding session_uploads_def jvals_def jset_def jget_def by (induction us) auto

lemma session_uploads_jset_le:
  "length (session_uploads s (jset us i v))
     \<le> length (session_uploads s us) + (if up_session v = s then 1 else 0)"
  unfolding session_uploads_def jvals_def jset_def by (induction us) auto

lemma uploads_ok_filter:
  assumes ok: "uploads_ok caps us"
  shows "uploads_ok caps (filter (\<lambda>(i, u). P i u) us)"
proof -
  have "length (session_uploads s (filter (\<lambda>(i, u). P i u) us)) \<le> attachment_count caps" for s
    using session_uploads_filter [of s "\<lambda>(i, u). P i u" us] ok
    by (auto simp: uploads_ok_def intro: order_trans)
  with ok show ?thesis
    by (auto simp: uploads_ok_def jget_filter jmap_ok_filter split: option.splits if_splits)
qed

lemma uploads_ok_purge [console_inv]: "uploads_ok caps us \<Longrightarrow> uploads_ok caps (purge now us)"
  unfolding purge_def using uploads_ok_filter [of caps us "\<lambda>i u. \<not> up_expires u \<le> now"] by simp

lemma uploads_ok_jdel [console_inv]: "uploads_ok caps us \<Longrightarrow> uploads_ok caps (jdel us i)"
proof -
  have "jdel us i = filter (\<lambda>(j, u). j \<noteq> i) us"
    by (simp add: jdel_def AList.delete_eq case_prod_unfold eq_commute)
  then show "uploads_ok caps us \<Longrightarrow> uploads_ok caps (jdel us i)"
    using uploads_ok_filter [of caps us "\<lambda>j u. j \<noteq> i"] by simp
qed

lemma uploads_ok_update:
  "uploads_ok caps us \<Longrightarrow> jget us i = Some u \<Longrightarrow> up_session v = up_session u \<Longrightarrow> upload_ok caps v \<Longrightarrow>
   uploads_ok caps (jset us i v)"
  unfolding uploads_ok_def by (auto simp: session_uploads_jset jget_jset)

lemma find_upload_Inr:
  "find_upload authorize session owner i us = Inr u \<Longrightarrow>
   jget us i = Some u \<and> up_session u = session \<and> up_principal u = owner
   \<and> authorize session owner = Inr ()"
  by (auto simp: find_upload_def split: option.splits if_splits sum.splits)

lemma uploads_ok_begin:
  "uploads_ok caps us \<Longrightarrow> uploads_ok caps (fst (begin_upload caps ttl authorize now fresh session owner md us))"
proof -
  assume ok: "uploads_ok caps us"
  let ?us = "purge now us"
  from ok have p: "uploads_ok caps ?us" by (rule uploads_ok_purge)
  show ?thesis
  proof (cases "fst (begin_upload caps ttl authorize now fresh session owner md us) = ?us")
    case True
    with p show ?thesis by simp
  next
    case False
    let ?u = "\<lparr>up_session = session, up_principal = owner, up_metadata = md,
                  up_expires = now + ttl, up_chunks = [], up_size = 0, up_committed = False\<rparr>"
    from False have r: "fst (begin_upload caps ttl authorize now fresh session owner md us) = jset ?us fresh ?u"
      and sz: "is_safe_integer (um_size_bytes md)" "\<not> the (um_size_bytes md) < 0"
        "\<not> int (attachment_bytes caps) < the (um_size_bytes md)"
      and room: "length (session_uploads session ?us) < attachment_count caps"
      by (auto simp: begin_upload_def Let_def session_uploads_def split: sum.splits if_splits)
    from sz obtain n where "um_size_bytes md = Some (int n)" "n \<le> attachment_bytes caps"
      by (auto simp: is_safe_integer_def not_less split: option.splits elim!: nonneg_int_cases)
    then have "upload_ok caps ?u" by (simp add: upload_ok_def)
    moreover have "length (session_uploads s (jset ?us fresh ?u)) \<le> attachment_count caps" for s
      using session_uploads_jset_le [of s ?us fresh ?u] room p
      by (cases "s = session") (auto simp: uploads_ok_def intro: order_trans)
    ultimately show ?thesis
      using p unfolding r uploads_ok_def by (auto simp: jget_jset)
  qed
qed

lemma uploads_ok_write:
  "uploads_ok caps us \<Longrightarrow> uploads_ok caps (fst (write_upload authorize now session owner i offset bytes us))"
proof -
  assume ok: "uploads_ok caps us"
  then have p: "uploads_ok caps (purge now us)" by (rule uploads_ok_purge)
  show ?thesis
  proof (cases "find_upload authorize session owner i (purge now us)")
    case (Inl e)
    with p show ?thesis by (simp add: write_upload_def Let_def)
  next
    case (Inr u)
    from find_upload_Inr [OF this] have g: "jget (purge now us) i = Some u" by blast
    with p have u: "upload_ok caps u" by (auto simp: uploads_ok_def)
    have "\<not> up_committed u \<Longrightarrow> \<not> the (um_size_bytes (up_metadata u)) < int (up_size u + length bytes) \<Longrightarrow>
        upload_ok caps (u\<lparr>up_chunks := up_chunks u @ [bytes], up_size := up_size u + length bytes\<rparr>)"
      using u by (auto simp: upload_ok_def)
    with p g Inr show ?thesis
      by (auto simp: write_upload_def Let_def intro!: uploads_ok_update)
  qed
qed

lemma uploads_ok_commit:
  "uploads_ok caps us \<Longrightarrow> uploads_ok caps (fst (commit_upload authorize now session owner i us))"
proof -
  assume ok: "uploads_ok caps us"
  then have p: "uploads_ok caps (purge now us)" by (rule uploads_ok_purge)
  show ?thesis
  proof (cases "find_upload authorize session owner i (purge now us)")
    case (Inl e)
    with p show ?thesis by (simp add: commit_upload_def Let_def)
  next
    case (Inr u)
    from find_upload_Inr [OF this] have g: "jget (purge now us) i = Some u" by blast
    with p have u: "upload_ok caps u" by (auto simp: uploads_ok_def)
    have "\<not> int (up_size u) \<noteq> the (um_size_bytes (up_metadata u)) \<Longrightarrow> upload_ok caps (u\<lparr>up_committed := True\<rparr>)"
      using u by (auto simp: upload_ok_def)
    with p g Inr show ?thesis
      by (auto simp: commit_upload_def Let_def intro!: uploads_ok_update)
  qed
qed

lemma uploads_ok_abort:
  "uploads_ok caps us \<Longrightarrow> uploads_ok caps (fst (abort_upload authorize now session owner i us))"
  by (auto simp: abort_upload_def Let_def console_inv split: sum.splits)

lemma uploads_ok_fold_jdel: "uploads_ok caps us \<Longrightarrow> uploads_ok caps (fold (\<lambda>i m. jdel m i) is us)"
  by (induction "is" arbitrary: us) (simp_all add: uploads_ok_jdel)

lemma uploads_ok_take:
  "uploads_ok caps us \<Longrightarrow> uploads_ok caps (fst (take_uploads caps authorize now session owner is us))"
  by (auto simp: take_uploads_def Let_def console_inv uploads_ok_fold_jdel split: sum.splits)

lemma uploads_ok_discard: "uploads_ok caps us \<Longrightarrow> uploads_ok caps (discard_uploads session us)"
  unfolding discard_uploads_def using uploads_ok_filter [of caps us "\<lambda>i u. up_session u \<noteq> session"] by simp

lemma select_uploads_Inr:
  "select_uploads authorize session owner is us = Inr sel \<Longrightarrow>
   list_all2 (\<lambda>i u. jget us i = Some u \<and> up_committed u \<and> up_session u = session \<and> up_principal u = owner)
     is sel"
  by (induction authorize session owner "is" us arbitrary: sel rule: select_uploads.induct)
    (auto split: sum.splits if_splits dest!: find_upload_Inr)

lemma jget_fold_jdel: "jget (fold (\<lambda>i m. jdel m i) is us) j = (if j \<in> set is then None else jget us j)"
  by (induction "is" arbitrary: us) (auto simp: jget_jdel)

section \<open>Runs\<close>

datatype upload_op =
    UBegin int string session_id principal_id upload_metadata
  | UWrite int session_id principal_id string int "byte list"
  | UCommit int session_id principal_id string
  | UAbort int session_id principal_id string
  | UTake int session_id principal_id "string list"
  | UDiscard session_id

fun upload_step :: "caps \<Rightarrow> int \<Rightarrow> 'h authorize \<Rightarrow> uploads \<Rightarrow> upload_op \<Rightarrow> uploads" where
  "upload_step caps ttl au us (UBegin now fresh s p md) = fst (begin_upload caps ttl au now fresh s p md us)"
| "upload_step caps ttl au us (UWrite now s p i offset bytes) = fst (write_upload au now s p i offset bytes us)"
| "upload_step caps ttl au us (UCommit now s p i) = fst (commit_upload au now s p i us)"
| "upload_step caps ttl au us (UAbort now s p i) = fst (abort_upload au now s p i us)"
| "upload_step caps ttl au us (UTake now s p is) = fst (take_uploads caps au now s p is us)"
| "upload_step caps ttl au us (UDiscard s) = discard_uploads s us"

definition upload_run :: "caps \<Rightarrow> int \<Rightarrow> 'h authorize \<Rightarrow> upload_op list \<Rightarrow> uploads" where
  "upload_run caps ttl au ops = foldl (upload_step caps ttl au) [] ops"

lemma uploads_ok_run: "uploads_ok caps (upload_run caps ttl au ops)"
proof -
  have "uploads_ok caps (upload_step caps ttl au us op)" if "uploads_ok caps us" for us op
    using that
    by (cases op) (simp_all add: uploads_ok_begin uploads_ok_write uploads_ok_commit uploads_ok_abort
        uploads_ok_take uploads_ok_discard)
  then have "uploads_ok caps us \<Longrightarrow> uploads_ok caps (foldl (upload_step caps ttl au) us ops)" for us
    by (induction ops arbitrary: us) simp_all
  moreover have "uploads_ok caps []" by (simp add: uploads_ok_def session_uploads_def jvals_def)
  ultimately show ?thesis by (simp add: upload_run_def)
qed

text \<open>A run of writes at successive offsets.\<close>

fun write_all ::
  "'h authorize \<Rightarrow> int \<Rightarrow> session_id \<Rightarrow> principal_id \<Rightarrow> string \<Rightarrow> nat \<Rightarrow> byte list list \<Rightarrow> uploads \<Rightarrow> uploads" where
  "write_all au now s p i offset [] us = us"
| "write_all au now s p i offset (c # cs) us =
     write_all au now s p i (offset + length c) cs (fst (write_upload au now s p i (int offset) c us))"

lemma purge_keeps: "jmap_ok us \<Longrightarrow> jget us i = Some u \<Longrightarrow> now < up_expires u \<Longrightarrow> jget (purge now us) i = Some u"
  unfolding purge_def using jget_filter [of us "\<lambda>i u. \<not> up_expires u \<le> now" i] by simp

lemma jmap_ok_purge [simp]: "jmap_ok us \<Longrightarrow> jmap_ok (purge now us)"
  by (simp add: purge_def jmap_ok_filter)

lemma write_all_received:
  assumes "jmap_ok us" "jget us i = Some u" "up_session u = s" "up_principal u = p" "now < up_expires u"
    and "\<not> up_committed u" "authorize s p = Inr ()"
    and "um_size_bytes (up_metadata u) = Some (int n)" "up_size u + length (concat cs) \<le> n"
    and "\<forall>c\<in>set cs. c \<noteq> [] \<and> length c \<le> chunk_limit"
  shows "let us' = write_all authorize now s p i (up_size u) cs us in
     jmap_ok us' \<and> jget us' i = Some (u\<lparr>up_chunks := up_chunks u @ cs,
                                        up_size := up_size u + length (concat cs)\<rparr>)"
  using assms
proof (induction cs arbitrary: us u)
  case Nil
  then show ?case by simp
next
  case (Cons c cs)
  let ?u = "u\<lparr>up_chunks := up_chunks u @ [c], up_size := up_size u + length c\<rparr>"
  let ?us = "jset (purge now us) i ?u"
  from Cons.prems have "find_upload authorize s p i (purge now us) = Inr u"
    by (simp add: find_upload_def purge_keeps)
  with Cons.prems have "fst (write_upload authorize now s p i (int (up_size u)) c us) = ?us"
    by (simp add: write_upload_def Let_def)
  with Cons.IH [of ?us ?u] Cons.prems show ?case by (simp add: add.assoc)
qed

section \<open>Properties\<close>

text \<open>
  after any sequence of staging calls, every staged upload holds exactly the bytes it
  counts, never more than it declared or than the attachment cap, a committed one is
  complete, and no session stages more uploads than the attachment count.
\<close>

theorem staging_bounded:
  fixes authorize :: "'h authorize"
  shows "uploads_ok caps (upload_run caps ttl authorize ops)"
  by (rule uploads_ok_run)

text \<open>
  What \<open>take\<close> hands to a turn are committed uploads of that very session and principal,
  at most as many as the cap, in the order asked for, each with exactly the bytes received
  and the size declared; they are gone from the staging area afterwards, so no upload is ever
  taken twice.
\<close>

theorem take_delivers:
  assumes ok: "uploads_ok caps us"
    and t: "take_uploads caps authorize now session owner is us = (us', Inr out)"
  shows "length out = length is \<and> length is \<le> attachment_count caps \<and> distinct is
    \<and> list_all2 (\<lambda>i (md, bytes). \<exists>u. jget us i = Some u \<and> up_committed u \<and> up_session u = session
         \<and> up_principal u = owner \<and> md = up_metadata u \<and> bytes = concat (up_chunks u)
         \<and> um_size_bytes md = Some (int (length bytes)) \<and> length bytes \<le> attachment_bytes caps) is out
    \<and> (\<forall>i \<in> set is. jget us' i = None)"
proof -
  let ?us = "if is = [] then us else purge now us"
  from t have d: "\<not> attachment_count caps < length is" "distinct is"
    by (auto simp: take_uploads_def split: if_splits)
  with t obtain sel where sel: "select_uploads authorize session owner is ?us = Inr sel"
    and us': "us' = fold (\<lambda>i m. jdel m i) is ?us"
    and out: "out = map (\<lambda>u. (up_metadata u, buffer_concat (up_chunks u) (up_size u))) sel"
    by (auto simp: take_uploads_def Let_def split: sum.splits)
  from ok have okp: "uploads_ok caps ?us" by (simp add: uploads_ok_purge)
  have sub: "jget ?us i = Some u \<Longrightarrow> jget us i = Some u" for i u
    using ok jget_filter [of us "\<lambda>i u. \<not> up_expires u \<le> now" i]
    by (auto simp: purge_def uploads_ok_def split: if_splits option.splits)
  note l2 = select_uploads_Inr [OF sel]
  have "list_all2 (\<lambda>i (md, bytes). \<exists>u. jget us i = Some u \<and> up_committed u \<and> up_session u = session
         \<and> up_principal u = owner \<and> md = up_metadata u \<and> bytes = concat (up_chunks u)
         \<and> um_size_bytes md = Some (int (length bytes)) \<and> length bytes \<le> attachment_bytes caps) is out"
    unfolding out list_all2_map2
  proof (rule list_all2_mono [OF l2])
    fix i u
    assume a: "jget ?us i = Some u \<and> up_committed u \<and> up_session u = session \<and> up_principal u = owner"
    with okp have "upload_ok caps u" by (auto simp: uploads_ok_def)
    with a sub [of i u]
    show "case (up_metadata u, buffer_concat (up_chunks u) (up_size u)) of (md, bytes) \<Rightarrow>
        \<exists>u. jget us i = Some u \<and> up_committed u \<and> up_session u = session
         \<and> up_principal u = owner \<and> md = up_metadata u \<and> bytes = concat (up_chunks u)
         \<and> um_size_bytes md = Some (int (length bytes)) \<and> length bytes \<le> attachment_bytes caps"
      by (auto simp: upload_ok_def buffer_concat_def intro!: exI [of _ u])
  qed
  with d l2 show ?thesis
    by (auto simp: us' jget_fold_jdel out dest: list_all2_lengthD)
qed

text \<open>A small configuration for concrete evaluations.\<close>

definition example_caps :: caps where
  "example_caps = \<lparr>ring_capacity = 3, tool_result_bytes = 8, subscriber_queue_high_water = 2,
     audit_page_max = 5, standing_rule_bytes = 64, attachment_bytes = 8, attachment_count = 2,
     session_tool_output_bytes = 100, permission_reason_bytes = 16\<rparr>"

definition example_uploads :: uploads where
  "example_uploads = upload_run example_caps 1000 (\<lambda>_ _. Inr () :: (unit session_error, unit) result)
     [UBegin 0 ''u1'' ''s'' ''ann'' \<lparr>um_filename = ''a'', um_media_type = ''t'', um_size_bytes = Some 3\<rparr>,
      UWrite 1 ''s'' ''ann'' ''u1'' 0 [1, 2], UWrite 2 ''s'' ''ann'' ''u1'' 2 [3], UCommit 3 ''s'' ''ann'' ''u1'']"

theorem take_delivers_witness:
  "uploads_ok example_caps example_uploads \<and>
   jget (fst (take_uploads example_caps (\<lambda>_ _. Inr () :: (unit session_error, unit) result) 4 ''s'' ''ann''
      [''u1''] example_uploads)) ''u1'' = None"
proof
  show ok: "uploads_ok example_caps example_uploads"
    unfolding example_uploads_def by (rule uploads_ok_run)
  let ?t = "take_uploads example_caps (\<lambda>_ _. Inr () :: (unit session_error, unit) result) 4 ''s'' ''ann''
      [''u1''] example_uploads"
  have "snd ?t = Inr [(\<lparr>um_filename = ''a'', um_media_type = ''t'', um_size_bytes = Some 3\<rparr>, [1, 2, 3])]"
    unfolding example_uploads_def upload_run_def
    by (simp add: begin_upload_def write_upload_def commit_upload_def take_uploads_def find_upload_def
        purge_def Let_def is_safe_integer_def max_safe_integer_def example_caps_def jvals_def jset_def
        jget_def buffer_concat_def chunk_limit_def)
  then have "?t = (fst ?t, Inr [(\<lparr>um_filename = ''a'', um_media_type = ''t'', um_size_bytes = Some 3\<rparr>, [1, 2, 3])])"
    by (metis prod.collapse)
  from take_delivers [OF ok this] show "jget (fst ?t) ''u1'' = None" by simp
qed

text \<open>
  An upload that was begun, written in non-empty chunks of at most 256 KiB at successive
  offsets up to its declared size and committed before it expired is taken with exactly the
  concatenation of its chunks.
\<close>

theorem upload_roundtrip:
  fixes authorize :: "'h authorize"
  assumes us: "jmap_ok us" and au: "authorize s p = Inr ()"
    and md: "um_size_bytes md = Some (int (length (concat cs)))" "length (concat cs) \<le> attachment_bytes caps"
      "int (length (concat cs)) \<le> max_safe_integer"
    and room: "length (session_uploads s (purge now us)) < attachment_count caps"
    and cs: "\<forall>c\<in>set cs. c \<noteq> [] \<and> length c \<le> chunk_limit" and ttl: "0 < ttl"
  shows "snd (take_uploads caps authorize now s p [fresh]
      (fst (commit_upload authorize now s p fresh
        (write_all authorize now s p fresh 0 cs
          (fst (begin_upload caps ttl authorize now fresh s p md us))))))
    = Inr [(md, concat cs)]"
proof -
  let ?u0 = "\<lparr>up_session = s, up_principal = p, up_metadata = md,
                  up_expires = now + ttl, up_chunks = [], up_size = 0, up_committed = False\<rparr>"
  let ?u1 = "?u0\<lparr>up_chunks := cs, up_size := length (concat cs)\<rparr>" and ?u2 = "?u0\<lparr>up_chunks := cs,
                  up_size := length (concat cs), up_committed := True\<rparr>"
  let ?us0 = "fst (begin_upload caps ttl authorize now fresh s p md us)"
  let ?us1 = "write_all authorize now s p fresh 0 cs ?us0"
  have us0: "?us0 = jset (purge now us) fresh ?u0"
    using au md room by (simp add: begin_upload_def Let_def is_safe_integer_def session_uploads_def)
  have us1: "jmap_ok ?us1 \<and> jget ?us1 fresh = Some ?u1"
    using write_all_received [of ?us0 fresh ?u0 s p now authorize "length (concat cs)" cs]
      us au md ttl cs by (simp add: us0 Let_def)
  let ?us2 = "fst (commit_upload authorize now s p fresh ?us1)"
  have f1: "find_upload authorize s p fresh (purge now ?us1) = Inr ?u1"
    using us1 au ttl by (simp add: find_upload_def purge_keeps)
  then have us2: "?us2 = jset (purge now ?us1) fresh ?u2"
    using md by (simp add: commit_upload_def Let_def)
  then have "jget (purge now ?us2) fresh = Some ?u2"
    using us1 ttl by (simp add: purge_keeps)
  then have "find_upload authorize s p fresh (purge now ?us2) = Inr ?u2"
    using au by (simp add: find_upload_def)
  then have "select_uploads authorize s p [fresh] (purge now ?us2) = Inr [?u2]" by simp
  moreover from room have "\<not> attachment_count caps < length [fresh]" by simp
  ultimately show ?thesis
    by (simp add: take_uploads_def Let_def buffer_concat_def del: select_uploads.simps)
qed

theorem upload_roundtrip_witness:
  "snd (take_uploads example_caps (\<lambda>_ _. Inr () :: (unit session_error, unit) result) 7 ''s'' ''ann'' [''f'']
      (fst (commit_upload (\<lambda>_ _. Inr () :: (unit session_error, unit) result) 7 ''s'' ''ann'' ''f''
        (write_all (\<lambda>_ _. Inr () :: (unit session_error, unit) result) 7 ''s'' ''ann'' ''f'' 0 [[1, 2], [3]]
          (fst (begin_upload example_caps 10 (\<lambda>_ _. Inr () :: (unit session_error, unit) result) 7 ''f'' ''s'' ''ann''
             \<lparr>um_filename = ''a'', um_media_type = ''t'', um_size_bytes = Some 3\<rparr> []))))))
    = Inr [(\<lparr>um_filename = ''a'', um_media_type = ''t'', um_size_bytes = Some 3\<rparr>, [1, 2, 3])]"
proof -
  let ?au = "\<lambda>_ _. Inr () :: (unit session_error, unit) result"
  have c: "concat [[1, 2], [3 :: byte]] = [1, 2, 3]" by simp
  show ?thesis
    by (rule upload_roundtrip [where authorize = ?au and us = "[]" and cs = "[[1, 2], [3]]", unfolded c])
      (simp_all add: example_caps_def max_safe_integer_def session_uploads_def jvals_def purge_def
        chunk_limit_def)
qed

end
