(* ===== verification/Truncation.thy ===== *)
theory Truncation
  imports Uploads
begin

unbundle bit_operations_syntax

text \<open>
  The truncation of tool output in \<open>src/agent-console/core/index.ts\<close>: \<open>truncateUtf8\<close> and
  \<open>truncateHeadTailUtf8\<close>. They work on the encoded bytes and return the bytes they keep, before
  these are decoded. \<open>utf8_encode\<close> is the encoding of \<open>Buffer.from(text, 'utf8')\<close> on Unicode
  scalar values, given by their numbers.
\<close>

section \<open>UTF-8\<close>

definition utf8_bytes :: "nat \<Rightarrow> byte list" where
  "utf8_bytes cp =
     (let b = \<lambda>k. (word_of_nat (cp div 2 ^ k) :: byte) in
      if cp < 0x80 then [b 0 AND 0x7F]
      else if cp < 0x800 then [0xC0 OR (b 6 AND 0x1F), 0x80 OR (b 0 AND 0x3F)]
      else if cp < 0x10000
      then [0xE0 OR (b 12 AND 0x0F), 0x80 OR (b 6 AND 0x3F), 0x80 OR (b 0 AND 0x3F)]
      else [0xF0 OR (b 18 AND 0x07), 0x80 OR (b 12 AND 0x3F), 0x80 OR (b 6 AND 0x3F),
            0x80 OR (b 0 AND 0x3F)])"

definition utf8_encode :: "nat list \<Rightarrow> byte list" where
  "utf8_encode cps = concat (map utf8_bytes cps)"

text \<open>The test of the loops: \<open>(b & 0xc0) === 0x80\<close>.\<close>

definition is_continuation :: "byte \<Rightarrow> bool" where
  "is_continuation b = (b AND 0xC0 = 0x80)"

lemma continuation_byte: "is_continuation (0x80 OR (x AND 0x3F))"
proof -
  have "((0x80 :: byte) OR (x AND 0x3F)) AND 0xC0 = (0x80 AND 0xC0) OR (x AND (0x3F AND 0xC0))"
    by (simp only: bit.conj_disj_distrib2 and.assoc)
  also have "\<dots> = 0x80" by simp
  finally show ?thesis by (simp add: is_continuation_def)
qed

lemma lead_byte:
  assumes "l AND 0xC0 = (0xC0 :: byte)" "m AND 0xC0 = (0 :: byte)"
  shows "\<not> is_continuation (l OR (x AND m))"
proof -
  have "(l OR (x AND m)) AND 0xC0 = (l AND 0xC0) OR (x AND (m AND 0xC0))"
    by (simp only: bit.conj_disj_distrib2 and.assoc)
  also have "\<dots> = 0xC0" by (simp add: assms)
  finally show ?thesis by (simp add: is_continuation_def)
qed

lemma ascii_byte: "\<not> is_continuation (x AND 0x7F)"
proof
  assume "is_continuation (x AND 0x7F)"
  then have "(x AND 0x7F) AND 0xC0 = 0x80" by (simp add: is_continuation_def)
  then have "((x AND 0x7F) AND 0xC0) AND 0x80 = 0x80" by simp
  moreover have "((x AND 0x7F) AND 0xC0) AND 0x80 = x AND ((0x7F AND 0xC0) AND 0x80)"
    by (simp only: and.assoc)
  ultimately show False by simp
qed

text \<open>One code point: a lead byte and continuation bytes.\<close>

lemma utf8_bytes_shape:
  "\<exists>b bs. utf8_bytes cp = b # bs \<and> \<not> is_continuation b \<and> list_all is_continuation bs"
  unfolding utf8_bytes_def Let_def
  by (auto simp: continuation_byte lead_byte ascii_byte)

lemma utf8_bytes_not_empty [simp]: "utf8_bytes cp \<noteq> []"
  using utf8_bytes_shape [of cp] by auto

lemma utf8_encode_simps [simp]:
  "utf8_encode [] = []"
  "utf8_encode (cp # cps) = utf8_bytes cp @ utf8_encode cps"
  "utf8_encode (xs @ ys) = utf8_encode xs @ utf8_encode ys"
  by (simp_all add: utf8_encode_def)

section \<open>Decoding\<close>

text \<open>
  \<open>buffer.toString('utf8')\<close>. A lead byte with its continuation bytes is a code point; a byte
  that starts no complete sequence is read as the replacement character.
\<close>

fun utf8_decode :: "byte list \<Rightarrow> nat list" where
  "utf8_decode [] = []"
| "utf8_decode (b # bs) =
     (let payload = \<lambda>c. unat (c AND 0x3F) in
      if b AND 0x80 = 0 then unat b # utf8_decode bs
      else
        (case bs of
           b1 # bs1 \<Rightarrow>
             if b AND 0xE0 = 0xC0 \<and> is_continuation b1
             then (unat (b AND 0x1F) * 64 + payload b1) # utf8_decode bs1
             else
               (case bs1 of
                  b2 # bs2 \<Rightarrow>
                    if b AND 0xF0 = 0xE0 \<and> is_continuation b1 \<and> is_continuation b2
                    then (unat (b AND 0x0F) * 4096 + payload b1 * 64 + payload b2) # utf8_decode bs2
                    else
                      (case bs2 of
                         b3 # bs3 \<Rightarrow>
                           if b AND 0xF8 = 0xF0 \<and> is_continuation b1 \<and> is_continuation b2 \<and> is_continuation b3
                           then (unat (b AND 0x07) * 262144 + payload b1 * 4096 + payload b2 * 64 + payload b3)
                                # utf8_decode bs3
                           else 0xFFFD # utf8_decode bs
                       | [] \<Rightarrow> 0xFFFD # utf8_decode bs)
                | [] \<Rightarrow> 0xFFFD # utf8_decode bs)
         | [] \<Rightarrow> 0xFFFD # utf8_decode bs))"

lemma masked_or:
  assumes "l AND m = c" "k AND m = (0 :: byte)"
  shows "(l OR (x AND k)) AND m = c"
proof -
  have "(l OR (x AND k)) AND m = (l AND m) OR (x AND (k AND m))"
    by (simp only: bit.conj_disj_distrib2 and.assoc)
  then show ?thesis by (simp add: assms)
qed

lemma masked_or_payload:
  assumes "l AND k = (0 :: byte)"
  shows "(l OR (x AND k)) AND k = x AND k"
proof -
  have "(l OR (x AND k)) AND k = (l AND k) OR (x AND (k AND k))"
    by (simp only: bit.conj_disj_distrib2 and.assoc)
  then show ?thesis by (simp add: assms)
qed

lemma low_bits_mask: "k \<le> 8 \<Longrightarrow> unat ((word_of_nat n :: byte) AND mask k) = n mod 2 ^ k"
proof -
  assume k: "k \<le> 8"
  then have d: "(2::nat) ^ k dvd 2 ^ 8" by (rule le_imp_power_dvd)
  have "unat ((word_of_nat n :: byte) AND mask k) = take_bit k (unat (word_of_nat n :: byte))"
    by (simp flip: take_bit_eq_mask add: unsigned_take_bit_eq)
  also have "\<dots> = (n mod 2 ^ 8) mod 2 ^ k"
    by (simp add: take_bit_eq_mod unat_of_nat)
  also have "\<dots> = n mod 2 ^ k" using d by (rule mod_mod_cancel)
  finally show ?thesis .
qed

lemma low_bits:
  "unat ((word_of_nat n :: byte) AND 0x3F) = n mod 64"
  "unat ((word_of_nat n :: byte) AND 0x1F) = n mod 32"
  "unat ((word_of_nat n :: byte) AND 0x0F) = n mod 16"
  "unat ((word_of_nat n :: byte) AND 0x07) = n mod 8"
  "unat ((word_of_nat n :: byte) AND 0x7F) = n mod 128"
  using low_bits_mask [of 6 n] low_bits_mask [of 5 n] low_bits_mask [of 4 n] low_bits_mask [of 3 n]
    low_bits_mask [of 7 n]
  by (simp_all add: mask_eq_exp_minus_1)

lemma join_bits:
  "cp < 0x800 \<Longrightarrow> (cp div 64 mod 32) * 64 + cp mod 64 = (cp :: nat)"
  "cp < 0x10000 \<Longrightarrow> (cp div 4096 mod 16) * 4096 + (cp div 64 mod 64) * 64 + cp mod 64 = (cp :: nat)"
  "cp < 0x200000 \<Longrightarrow> (cp div 262144 mod 8) * 262144 + (cp div 4096 mod 64) * 4096
      + (cp div 64 mod 64) * 64 + cp mod 64 = (cp :: nat)"
proof -
  show "cp < 0x800 \<Longrightarrow> (cp div 64 mod 32) * 64 + cp mod 64 = cp"
    by (simp add: less_mult_imp_div_less)
  have a: "(cp div 64 div 64) * 64 + cp div 64 mod 64 = cp div 64" by (rule div_mult_mod_eq)
  have b: "(cp div 64) * 64 + cp mod 64 = cp" by (rule div_mult_mod_eq)
  have c: "(cp div 4096 div 64) * 64 + cp div 4096 mod 64 = cp div 4096" by (rule div_mult_mod_eq)
  have d: "cp div 64 div 64 = cp div 4096" "cp div 4096 div 64 = cp div 262144"
    by (simp_all add: div_mult2_eq [symmetric])
  show "cp < 0x10000 \<Longrightarrow> (cp div 4096 mod 16) * 4096 + (cp div 64 mod 64) * 64 + cp mod 64 = cp"
  proof -
    assume "cp < 0x10000"
    then have "cp div 4096 mod 16 = cp div 4096" by (simp add: less_mult_imp_div_less)
    with a b d show ?thesis by linarith
  qed
  show "cp < 0x200000 \<Longrightarrow> (cp div 262144 mod 8) * 262144 + (cp div 4096 mod 64) * 4096
      + (cp div 64 mod 64) * 64 + cp mod 64 = cp"
  proof -
    assume "cp < 0x200000"
    then have "cp div 262144 mod 8 = cp div 262144" by (simp add: less_mult_imp_div_less)
    with a b c d show ?thesis by linarith
  qed
qed

lemma utf8_decode_step:
  "cp < 0x200000 \<Longrightarrow> utf8_decode (utf8_bytes cp @ bs) = cp # utf8_decode bs"
proof -
  assume cp: "cp < 0x200000"
  note bits = masked_or masked_or_payload continuation_byte low_bits
  have ascii: "(x AND 0x7F) AND 0x80 = 0" for x :: byte
    by (simp add: and.assoc)
  show ?thesis
    using cp join_bits [of cp]
    unfolding utf8_bytes_def Let_def
    by (simp add: bits ascii)
qed

lemma utf8_decode_encode: "list_all (\<lambda>cp. cp < 0x200000) cps \<Longrightarrow> utf8_decode (utf8_encode cps) = cps"
  by (induction cps) (auto simp: utf8_decode_step simp del: utf8_decode.simps(2))

section \<open>Truncation\<close>

text \<open>The backward loop: from an index down to a byte that is no continuation, or to 0.\<close>

fun back_up :: "byte list \<Rightarrow> nat \<Rightarrow> nat" where
  "back_up buf 0 = 0"
| "back_up buf (Suc e) = (if is_continuation (buf ! Suc e) then back_up buf e else Suc e)"

definition truncate_utf8 :: "byte list \<Rightarrow> nat \<Rightarrow> byte list" where
  "truncate_utf8 buf max_bytes =
     (if length buf \<le> max_bytes then buf else take (back_up buf max_bytes) buf)"

text \<open>The marker, a line break, an ellipsis, the word in brackets, an ellipsis and a line break.\<close>

definition truncation_marker :: "byte list" where
  "truncation_marker = utf8_encode ([10, 0x2026] @ map of_char ''[truncated]'' @ [0x2026, 10])"

definition truncate_head_tail_utf8 :: "byte list \<Rightarrow> nat \<Rightarrow> byte list" where
  "truncate_head_tail_utf8 buf max_bytes =
     (if length buf \<le> max_bytes then buf
      else
        (let budget = max_bytes - length truncation_marker;
             head_bytes = (budget + 1) div 2;
             tail_bytes = budget - head_bytes;
             head_end = back_up buf head_bytes;
             tail_start = length buf - tail_bytes
         in take head_end buf @ truncation_marker @ dropWhile is_continuation (drop tail_start buf)))"

text \<open>What the session puts into the event: the bytes kept, decoded again.\<close>

definition truncate_text :: "bool \<Rightarrow> nat list \<Rightarrow> nat \<Rightarrow> nat list" where
  "truncate_text head_and_tail cps max_bytes =
     utf8_decode (if head_and_tail then truncate_head_tail_utf8 (utf8_encode cps) max_bytes
                  else truncate_utf8 (utf8_encode cps) max_bytes)"

section \<open>Boundaries\<close>

text \<open>An index is a boundary when the code points before it are encoded in exactly that many bytes.\<close>

definition boundary :: "nat list \<Rightarrow> nat \<Rightarrow> bool" where
  "boundary cps k = (\<exists>i \<le> length cps. k = length (utf8_encode (take i cps)))"

lemma boundary_take: "boundary cps k \<Longrightarrow> \<exists>i. take k (utf8_encode cps) = utf8_encode (take i cps)
    \<and> drop k (utf8_encode cps) = utf8_encode (drop i cps)"
proof -
  assume "boundary cps k"
  then obtain i where k: "k = length (utf8_encode (take i cps))" by (auto simp: boundary_def)
  have "utf8_encode cps = utf8_encode (take i cps) @ utf8_encode (drop i cps)"
    by (simp flip: utf8_encode_simps(3))
  with k show ?thesis by (metis append_eq_conv_conj)
qed

lemma boundary_0 [simp]: "boundary cps 0"
  unfolding boundary_def by (intro exI [of _ 0]) simp

lemma boundary_Cons:
  "boundary (cp # cps) k \<longleftrightarrow> k = 0 \<or> (length (utf8_bytes cp) \<le> k \<and> boundary cps (k - length (utf8_bytes cp)))"
proof
  assume "boundary (cp # cps) k"
  then obtain i where "i \<le> Suc (length cps)" "k = length (utf8_encode (take i (cp # cps)))"
    by (auto simp: boundary_def)
  then show "k = 0 \<or> (length (utf8_bytes cp) \<le> k \<and> boundary cps (k - length (utf8_bytes cp)))"
    by (cases i) (auto simp: boundary_def)
next
  assume "k = 0 \<or> (length (utf8_bytes cp) \<le> k \<and> boundary cps (k - length (utf8_bytes cp)))"
  then show "boundary (cp # cps) k"
  proof
    assume a: "length (utf8_bytes cp) \<le> k \<and> boundary cps (k - length (utf8_bytes cp))"
    then obtain i where "i \<le> length cps" "k - length (utf8_bytes cp) = length (utf8_encode (take i cps))"
      by (auto simp: boundary_def)
    with a show ?thesis
      unfolding boundary_def by (intro exI [of _ "Suc i"]) auto
  qed simp
qed

lemma boundary_byte:
  "k < length (utf8_encode cps) \<Longrightarrow> boundary cps k \<longleftrightarrow> \<not> is_continuation (utf8_encode cps ! k)"
proof (induction cps arbitrary: k)
  case Nil
  then show ?case by simp
next
  case (Cons cp cps)
  from utf8_bytes_shape [of cp] obtain b bs where
    b: "utf8_bytes cp = b # bs" "\<not> is_continuation b" "list_all is_continuation bs" by blast
  show ?case
  proof (cases "k < length (utf8_bytes cp)")
    case True
    with b show ?thesis
      by (cases k) (auto simp: boundary_Cons nth_append list_all_length)
  next
    case False
    with Cons b show ?thesis by (cases k) (auto simp: boundary_Cons nth_append)
  qed
qed

lemma back_up_boundary:
  "m < length (utf8_encode cps) \<Longrightarrow>
   boundary cps (back_up (utf8_encode cps) m) \<and> back_up (utf8_encode cps) m \<le> m
   \<and> (\<forall>k. boundary cps k \<longrightarrow> k \<le> m \<longrightarrow> k \<le> back_up (utf8_encode cps) m)"
proof (induction m)
  case 0
  then show ?case by simp
next
  case (Suc m)
  show ?case
  proof (cases "is_continuation (utf8_encode cps ! Suc m)")
    case True
    with Suc boundary_byte [of "Suc m" cps] show ?thesis
      by (auto simp: le_Suc_eq)
  next
    case False
    with Suc.prems boundary_byte [of "Suc m" cps] show ?thesis by simp
  qed
qed

lemma drop_continuation:
  "\<exists>j. dropWhile is_continuation (drop k (utf8_encode cps)) = utf8_encode (drop j cps)"
proof (induction cps arbitrary: k)
  case Nil
  show ?case by (intro exI [of _ 0]) simp
next
  case (Cons cp cps)
  from utf8_bytes_shape [of cp] obtain b bs where
    b: "utf8_bytes cp = b # bs" "\<not> is_continuation b" "list_all is_continuation bs" by blast
  show ?case
  proof (cases "k < length (utf8_bytes cp)")
    case False
    from Cons [of "k - length (utf8_bytes cp)"] obtain j where
      "dropWhile is_continuation (drop (k - length (utf8_bytes cp)) (utf8_encode cps)) = utf8_encode (drop j cps)"
      by blast
    with False show ?thesis by (intro exI [of _ "Suc j"]) simp
  next
    case True
    show ?thesis
    proof (cases k)
      case 0
      with b show ?thesis by (intro exI [of _ 0]) simp
    next
      case (Suc k')
      have "dropWhile is_continuation (drop k' bs @ utf8_encode cps) = dropWhile is_continuation (utf8_encode cps)"
        using b(3) by (intro dropWhile_append2) (auto simp: list_all_iff dest: in_set_dropD)
      moreover have "dropWhile is_continuation (utf8_encode cps) = utf8_encode cps"
        using utf8_bytes_shape by (cases cps) (auto, metis append_Cons dropWhile.simps(2))
      ultimately show ?thesis using True Suc b
        by (intro exI [of _ 1]) simp
    qed
  qed
qed

section \<open>What is kept\<close>

lemma truncate_utf8_take:
  "\<exists>i \<le> length cps. truncate_utf8 (utf8_encode cps) m = utf8_encode (take i cps)
     \<and> length (utf8_encode (take i cps)) \<le> m
     \<and> (\<forall>k \<le> length cps. length (utf8_encode (take k cps)) \<le> m \<longrightarrow>
          length (utf8_encode (take k cps)) \<le> length (utf8_encode (take i cps)))"
proof (cases "length (utf8_encode cps) \<le> m")
  case True
  have le: "length (utf8_encode (take k cps)) \<le> length (utf8_encode cps)" for k
    by (metis append_take_drop_id le_add1 length_append utf8_encode_simps(3))
  from True le show ?thesis
    by (intro exI [of _ "length cps"]) (auto simp: truncate_utf8_def)
next
  case False
  let ?e = "back_up (utf8_encode cps) m"
  from False back_up_boundary [of m cps] have e: "boundary cps ?e" "?e \<le> m"
    "\<And>k. boundary cps k \<Longrightarrow> k \<le> m \<Longrightarrow> k \<le> ?e" by auto
  from e(1) obtain i where i: "i \<le> length cps" "?e = length (utf8_encode (take i cps))"
    by (auto simp: boundary_def)
  have "utf8_encode cps = utf8_encode (take i cps) @ utf8_encode (drop i cps)"
    by (simp flip: utf8_encode_simps(3))
  then have "take ?e (utf8_encode cps) = utf8_encode (take i cps)"
    using i by (metis append_eq_conv_conj)
  with False i e show ?thesis
    by (intro exI [of _ i]) (auto simp: truncate_utf8_def boundary_def)
qed

lemma truncate_head_tail_take:
  "(length (utf8_encode cps) \<le> m \<and> truncate_head_tail_utf8 (utf8_encode cps) m = utf8_encode cps)
   \<or> (m < length (utf8_encode cps)
      \<and> (\<exists>i j. truncate_head_tail_utf8 (utf8_encode cps) m
            = utf8_encode (take i cps) @ truncation_marker @ utf8_encode (drop j cps))
      \<and> length truncation_marker = 19
      \<and> length (truncate_head_tail_utf8 (utf8_encode cps) m) \<le> max m 19)"
proof (cases "length (utf8_encode cps) \<le> m")
  case True
  then show ?thesis by (simp add: truncate_head_tail_utf8_def)
next
  case False
  have mark: "length truncation_marker = 19"
    by (simp add: truncation_marker_def utf8_bytes_def Let_def)
  let ?h = "(m - 19 + 1) div 2" and ?buf = "utf8_encode cps"
  let ?t = "length ?buf - (m - 19 - ?h)"
  have eq: "truncate_head_tail_utf8 ?buf m
      = take (back_up ?buf ?h) ?buf @ truncation_marker @ dropWhile is_continuation (drop ?t ?buf)"
    using False unfolding truncate_head_tail_utf8_def Let_def mark by simp
  have h: "?h \<le> m - 19" by linarith
  with False have "?h < length ?buf" by linarith
  from back_up_boundary [OF this] boundary_take [of cps "back_up ?buf ?h"] drop_continuation [of ?t cps]
  obtain i j where ij: "take (back_up ?buf ?h) ?buf = utf8_encode (take i cps)"
      "dropWhile is_continuation (drop ?t ?buf) = utf8_encode (drop j cps)" "back_up ?buf ?h \<le> ?h"
    by auto
  have "length (dropWhile is_continuation (drop ?t ?buf)) \<le> m - 19 - ?h"
  proof -
    have "length (dropWhile is_continuation (drop ?t ?buf)) \<le> length (drop ?t ?buf)"
      by (rule length_dropWhile_le)
    also have "\<dots> \<le> m - 19 - ?h" unfolding length_drop by arith
    finally show ?thesis .
  qed
  with ij(3) h mark have "length (truncate_head_tail_utf8 ?buf m) \<le> max m 19"
    unfolding eq by (simp add: min_def) linarith
  with False eq ij mark show ?thesis by (auto simp del: utf8_encode_simps)
qed

section \<open>Properties\<close>

text \<open>
  Truncating an encoded text to a number of bytes keeps the longest run of whole leading
  code points that fits: never a partial character, never more than the bytes allowed, and the
  whole text when it fits.
\<close>

theorem truncate_utf8_whole_characters:
  "\<exists>i \<le> length cps. truncate_utf8 (utf8_encode cps) m = utf8_encode (take i cps)
     \<and> length (utf8_encode (take i cps)) \<le> m
     \<and> (\<forall>k \<le> length cps. length (utf8_encode (take k cps)) \<le> m \<longrightarrow>
          length (utf8_encode (take k cps)) \<le> length (utf8_encode (take i cps)))"
  by (rule truncate_utf8_take)

theorem truncate_utf8_whole_characters_witness:
  "truncate_utf8 (utf8_encode [104, 0xE9, 0x1F600]) 5 = utf8_encode [104, 0xE9]"
proof -
  let ?cps = "[104, 0xE9, 0x1F600 :: nat]"
  obtain i where c: "i \<le> length ?cps \<and> truncate_utf8 (utf8_encode ?cps) 5 = utf8_encode (take i ?cps)
      \<and> length (utf8_encode (take i ?cps)) \<le> 5
      \<and> (\<forall>k \<le> length ?cps. length (utf8_encode (take k ?cps)) \<le> 5 \<longrightarrow>
        length (utf8_encode (take k ?cps)) \<le> length (utf8_encode (take i ?cps)))"
    using truncate_utf8_whole_characters [of ?cps 5] ..
  note i = c [THEN conjunct1] c [THEN conjunct2, THEN conjunct1]
      c [THEN conjunct2, THEN conjunct2, THEN conjunct1]
    and m = c [THEN conjunct2, THEN conjunct2, THEN conjunct2]
  from m [rule_format, of 2] have two: "3 \<le> length (utf8_encode (take i ?cps))"
    by (simp add: utf8_bytes_def)
  from i(1) have "i = 0 \<or> i = 1 \<or> i = 2 \<or> i = 3" by auto
  with two i(3) have "i = 2" by (auto simp: utf8_bytes_def)
  with i(2) show ?thesis by simp
qed

text \<open>
  The head-and-tail truncation of a failed tool result keeps whole code points on both
  sides of the marker, and its length is at most the limit, or the marker's own nineteen bytes
  when the limit is smaller.
\<close>

theorem truncate_head_tail_whole_characters:
  "(length (utf8_encode cps) \<le> m \<and> truncate_head_tail_utf8 (utf8_encode cps) m = utf8_encode cps)
   \<or> (m < length (utf8_encode cps)
      \<and> (\<exists>i j. truncate_head_tail_utf8 (utf8_encode cps) m
            = utf8_encode (take i cps) @ truncation_marker @ utf8_encode (drop j cps))
      \<and> length truncation_marker = 19
      \<and> length (truncate_head_tail_utf8 (utf8_encode cps) m) \<le> max m 19)"
  by (rule truncate_head_tail_take)

end
