(* ===== verification/Workspaces.thy ===== *)
theory Workspaces
  imports Vocabulary "HOL-Library.Sublist"
begin

text \<open>
  \<open>src/agent-console/core/workspaces/jail.ts\<close> (path containment and the resolution of a
  candidate inside the configured roots) and \<open>allocator.ts\<close> (the in-memory reservations of
  workspaces). The allocator's guard only keeps a decision and its mutation in one tick, which
  a function of the model is. The platform test \<open>isWindows\<close> and the
  operating system's \<open>realpath\<close> are parameters.
\<close>

section \<open>Paths\<close>

abbreviation backslash :: char where
  "backslash \<equiv> CHR 0x5C"

definition extended_prefix :: string where
  "extended_prefix = [backslash, backslash, CHR ''?'', backslash]"

definition unc_prefix :: string where
  "unc_prefix = extended_prefix @ ''UNC'' @ [backslash]"

definition strip_extended_prefix :: "string \<Rightarrow> string" where
  "strip_extended_prefix p =
     (if prefix unc_prefix p then [backslash, backslash] @ drop 8 p
      else if prefix extended_prefix p then drop 4 p
      else p)"

text \<open>\<open>toLowerCase\<close> on code units up to U+00FF.\<close>

definition lower_char :: "char \<Rightarrow> char" where
  "lower_char c =
     (let n = (of_char c :: nat) in
      if (65 \<le> n \<and> n \<le> 90) \<or> (192 \<le> n \<and> n \<le> 222 \<and> n \<noteq> 215) then char_of (n + 32) else c)"

definition normalise_for_compare :: "bool \<Rightarrow> string \<Rightarrow> string" where
  "normalise_for_compare windows p =
     (let stripped = strip_extended_prefix p;
          with_separators = (if windows then map (\<lambda>c. if c = CHR ''/'' then backslash else c) stripped
                             else stripped)
      in if windows then map lower_char with_separators else with_separators)"

definition path_sep :: "bool \<Rightarrow> char" where
  "path_sep windows = (if windows then backslash else CHR ''/'')"

definition is_inside_root :: "bool \<Rightarrow> string \<Rightarrow> string \<Rightarrow> bool" where
  "is_inside_root windows resolved root =
     (let a = normalise_for_compare windows resolved;
          b = normalise_for_compare windows root;
          root_with_sep = (if suffix [path_sep windows] b then b else b @ [path_sep windows])
      in a = b \<or> prefix root_with_sep a)"

definition paths_overlap :: "bool \<Rightarrow> resolved_path \<Rightarrow> resolved_path \<Rightarrow> bool" where
  "paths_overlap windows a b = (is_inside_root windows a b \<or> is_inside_root windows b a)"

text \<open>\<open>realpath\<close> answers the resolved path or the message it failed with.\<close>

definition resolve_inside_root ::
  "bool \<Rightarrow> (string \<Rightarrow> (string, string) result) \<Rightarrow> string \<Rightarrow> resolved_path list
   \<Rightarrow> (jail_error, resolved_path) result" where
  "resolve_inside_root windows realpath candidate roots =
     (case realpath candidate of
        Inl detail \<Rightarrow> Inl (Unresolvable candidate detail)
      | Inr raw \<Rightarrow>
          (let resolved = strip_extended_prefix raw in
           if list_ex (is_inside_root windows resolved) roots then Inr resolved
           else Inl (OutsideWorkspaceRoot candidate roots)))"

lemma is_inside_root_refl [simp]: "is_inside_root w p p"
  by (simp add: is_inside_root_def Let_def)

lemma paths_overlap_refl [simp]: "paths_overlap w p p"
  by (simp add: paths_overlap_def)

lemma paths_overlap_sym: "paths_overlap w a b \<longleftrightarrow> paths_overlap w b a"
  by (auto simp: paths_overlap_def)

lemma is_inside_root_trans:
  assumes "is_inside_root w a b" "is_inside_root w b c"
  shows "is_inside_root w a c"
proof -
  let ?n = "normalise_for_compare w" and ?s = "[path_sep w]"
  let ?r = "\<lambda>x. if suffix ?s x then x else x @ ?s"
  have "?n b = ?n c \<or> prefix (?r (?n c)) (?n b)" "?n a = ?n b \<or> prefix (?r (?n b)) (?n a)"
    using assms by (auto simp: is_inside_root_def Let_def)
  moreover have "prefix (?n b) (?r (?n b))" by simp
  then have "prefix x (?n b) \<Longrightarrow> prefix (?r (?n b)) y \<Longrightarrow> prefix x y" for x y
    by (blast intro: prefix_order.trans)
  ultimately have "?n a = ?n c \<or> prefix (?r (?n c)) (?n a)"
    by auto
  then show ?thesis by (simp add: is_inside_root_def Let_def)
qed

text \<open>
  On a POSIX system, a path inside a root that does not end in a separator is the root or
  goes on with a separator: a sibling whose name begins with the root's name is outside.
\<close>

lemma is_inside_root_posix:
  assumes "\<not> prefix extended_prefix a" "\<not> prefix extended_prefix b"
    and "\<not> suffix ''/'' b"
  shows "is_inside_root False a b \<longleftrightarrow> a = b \<or> (\<exists>rest. a = b @ CHR ''/'' # rest)"
proof -
  have "\<not> prefix unc_prefix p" if "\<not> prefix extended_prefix p" for p
    using that append_prefixD unfolding unc_prefix_def by blast
  then have "normalise_for_compare False p = p" if "\<not> prefix extended_prefix p" for p
    using that by (simp add: normalise_for_compare_def strip_extended_prefix_def)
  with assms show ?thesis
    by (auto simp: is_inside_root_def path_sep_def prefix_def)
qed

section \<open>Reservations\<close>

datatype reservation_state = Pending | ReservationLive

record reservation =
  rs_id :: string
  rs_cwd :: resolved_path
  rs_principal :: principal_id
  rs_state :: reservation_state
  rs_exclusive :: bool

type_synonym reservations = "(string, reservation) jmap"

definition new_reservation :: "string \<Rightarrow> resolved_path \<Rightarrow> principal_id \<Rightarrow> reservation" where
  "new_reservation i cwd owner =
     \<lparr>rs_id = i, rs_cwd = cwd, rs_principal = owner, rs_state = Pending, rs_exclusive = False\<rparr>"

definition recover_pending ::
  "string \<Rightarrow> resolved_path \<Rightarrow> principal_id \<Rightarrow> reservations \<Rightarrow> reservations" where
  "recover_pending i cwd owner rs = jset rs i (new_reservation i cwd owner)"

definition reserve ::
  "bool \<Rightarrow> nat \<Rightarrow> string \<Rightarrow> resolved_path \<Rightarrow> principal_id \<Rightarrow> reservations
   \<Rightarrow> reservations \<times> reservation option" where
  "reserve windows max_live i cwd owner rs =
     (let overlaps = filter (\<lambda>r. paths_overlap windows cwd (rs_cwd r)) (jvals rs) in
      case find rs_exclusive overlaps of
        Some r \<Rightarrow> (rs, Some r)
      | None \<Rightarrow>
          (if max_live \<le> length overlaps then (rs, Some (hd overlaps))
           else (jset rs i (new_reservation i cwd owner), None)))"

definition update_reservation ::
  "string \<Rightarrow> (reservation \<Rightarrow> reservation) \<Rightarrow> reservations \<Rightarrow> reservations" where
  "update_reservation i f rs = (case jget rs i of None \<Rightarrow> rs | Some r \<Rightarrow> jset rs i (f r))"

definition activate :: "string \<Rightarrow> reservations \<Rightarrow> reservations" where
  "activate i = update_reservation i (\<lambda>r. r\<lparr>rs_state := ReservationLive\<rparr>)"

definition reassign :: "string \<Rightarrow> principal_id \<Rightarrow> reservations \<Rightarrow> reservations" where
  "reassign i owner = update_reservation i (\<lambda>r. r\<lparr>rs_principal := owner\<rparr>)"

text \<open>\<open>Inl\<close> is the exception thrown for a workspace that is not allocated.\<close>

definition exclusive ::
  "bool \<Rightarrow> string \<Rightarrow> reservations \<Rightarrow> (string, reservations \<times> reservation option) result" where
  "exclusive windows i rs =
     (case jget rs i of
        None \<Rightarrow> Inl ''Cannot reserve an unallocated workspace''
      | Some self \<Rightarrow>
          (case find (\<lambda>r. rs_id r \<noteq> i \<and> paths_overlap windows (rs_cwd self) (rs_cwd r)) (jvals rs) of
             Some other \<Rightarrow> Inr (rs, Some other)
           | None \<Rightarrow>
               (if rs_exclusive self then Inr (rs, Some self)
                else Inr (jset rs i (self\<lparr>rs_exclusive := True\<rparr>), None))))"

definition release_exclusive :: "string \<Rightarrow> reservations \<Rightarrow> reservations" where
  "release_exclusive i = update_reservation i (\<lambda>r. r\<lparr>rs_exclusive := False\<rparr>)"

definition release :: "string \<Rightarrow> reservations \<Rightarrow> reservations" where
  "release i rs = jdel rs i"

section \<open>Invariants of the allocator\<close>

text \<open>
  What every operation keeps: a reservation is stored under its own id; an exclusive
  reservation has no other reservation on an overlapping path; and of the reservations that
  overlap each other pairwise there are never more than the limit.
\<close>

definition res_keyed :: "reservations \<Rightarrow> bool" where
  "res_keyed rs = (jmap_ok rs \<and> (\<forall>i r. jget rs i = Some r \<longrightarrow> rs_id r = i))"

definition exclusive_alone :: "bool \<Rightarrow> reservations \<Rightarrow> bool" where
  "exclusive_alone w rs =
     (\<forall>i r j q. jget rs i = Some r \<longrightarrow> rs_exclusive r \<longrightarrow> jget rs j = Some q \<longrightarrow> i \<noteq> j \<longrightarrow>
        \<not> paths_overlap w (rs_cwd r) (rs_cwd q))"

definition overlap_clique :: "bool \<Rightarrow> reservations \<Rightarrow> string set \<Rightarrow> bool" where
  "overlap_clique w rs C =
     (finite C \<and> (\<forall>i\<in>C. \<exists>r. jget rs i = Some r) \<and>
      (\<forall>i\<in>C. \<forall>j\<in>C. \<forall>r q. jget rs i = Some r \<longrightarrow> jget rs j = Some q \<longrightarrow>
         paths_overlap w (rs_cwd r) (rs_cwd q)))"

definition within_limit :: "bool \<Rightarrow> nat \<Rightarrow> reservations \<Rightarrow> bool" where
  "within_limit w m rs = (\<forall>C. overlap_clique w rs C \<longrightarrow> card C \<le> m)"

definition alloc_inv :: "bool \<Rightarrow> nat \<Rightarrow> reservations \<Rightarrow> bool" where
  "alloc_inv w m rs = (res_keyed rs \<and> exclusive_alone w rs \<and> within_limit w m rs)"

lemma overlap_cliqueD:
  "overlap_clique w rs C \<Longrightarrow> i \<in> C \<Longrightarrow> j \<in> C \<Longrightarrow> jget rs i = Some r \<Longrightarrow> jget rs j = Some q \<Longrightarrow>
   paths_overlap w (rs_cwd r) (rs_cwd q)"
  by (auto simp: overlap_clique_def)

text \<open>A map whose reservations are all present in another one, in place, has no more cliques.\<close>

lemma overlap_clique_mono:
  assumes sub: "\<And>j q. jget rs' j = Some q \<Longrightarrow> \<exists>q'. jget rs j = Some q' \<and> rs_cwd q' = rs_cwd q"
    and C: "overlap_clique w rs' C"
  shows "overlap_clique w rs C"
  unfolding overlap_clique_def
proof (intro conjI ballI allI impI)
  show "finite C" using C by (simp add: overlap_clique_def)
  fix j assume j: "j \<in> C"
  with C obtain r' where r': "jget rs' j = Some r'" by (auto simp: overlap_clique_def)
  with sub show "\<exists>r. jget rs j = Some r" by blast
  fix k r q assume k: "k \<in> C" and r: "jget rs j = Some r" "jget rs k = Some q"
  from k C obtain q' where q': "jget rs' k = Some q'" by (auto simp: overlap_clique_def)
  from overlap_cliqueD [OF C j k r' q'] sub [OF r'] sub [OF q'] r
  show "paths_overlap w (rs_cwd r) (rs_cwd q)" by auto
qed

lemma within_limit_mono:
  assumes "\<And>j q. jget rs' j = Some q \<Longrightarrow> \<exists>q'. jget rs j = Some q' \<and> rs_cwd q' = rs_cwd q"
    and "within_limit w m rs"
  shows "within_limit w m rs'"
  using assms overlap_clique_mono [of rs' rs w] unfolding within_limit_def by blast

lemma exclusive_alone_mono:
  assumes sub: "\<And>j q. jget rs' j = Some q \<Longrightarrow>
      \<exists>q'. jget rs j = Some q' \<and> rs_cwd q' = rs_cwd q \<and> (rs_exclusive q \<longrightarrow> rs_exclusive q')"
    and alone: "exclusive_alone w rs"
  shows "exclusive_alone w rs'"
  unfolding exclusive_alone_def
proof (intro allI impI)
  fix i r j q
  assume a: "jget rs' i = Some r" "rs_exclusive r" "jget rs' j = Some q" "i \<noteq> j"
  from sub [OF a(1)] a(2) sub [OF a(3)] a(4) alone
  show "\<not> paths_overlap w (rs_cwd r) (rs_cwd q)"
    unfolding exclusive_alone_def by metis
qed

lemma alloc_inv_empty: "alloc_inv w m []"
  by (auto simp: alloc_inv_def res_keyed_def exclusive_alone_def within_limit_def overlap_clique_def)

lemma jvals_jget: "jmap_ok rs \<Longrightarrow> r \<in> set (jvals rs) \<longleftrightarrow> (\<exists>i. jget rs i = Some r)"
  unfolding jvals_def by (force simp: in_set_jget [symmetric])

text \<open>Changing a reservation without moving it or making it exclusive keeps the invariant.\<close>

lemma alloc_inv_update:
  assumes inv: "alloc_inv w m rs"
    and f: "\<And>r. rs_id (f r) = rs_id r \<and> rs_cwd (f r) = rs_cwd r \<and> (rs_exclusive (f r) \<longrightarrow> rs_exclusive r)"
  shows "alloc_inv w m (update_reservation i f rs)"
proof (cases "jget rs i")
  case None
  with inv show ?thesis by (simp add: update_reservation_def)
next
  case (Some r)
  let ?rs = "jset rs i (f r)"
  have g: "jget ?rs j = Some q \<Longrightarrow> \<exists>q'. jget rs j = Some q' \<and> rs_cwd q' = rs_cwd q
      \<and> (rs_exclusive q \<longrightarrow> rs_exclusive q')" for j q
    using Some f [of r] by (auto simp: jget_jset split: if_splits)
  have "res_keyed ?rs"
    using inv Some f [of r] by (auto simp: alloc_inv_def res_keyed_def jget_jset)
  moreover have "exclusive_alone w ?rs"
    using inv g by (intro exclusive_alone_mono [of ?rs rs]) (auto simp: alloc_inv_def)
  moreover have "within_limit w m ?rs"
    using inv g by (intro within_limit_mono [of ?rs rs]) (auto simp: alloc_inv_def)
  ultimately show ?thesis using Some by (simp add: alloc_inv_def update_reservation_def)
qed

lemma alloc_inv_release:
  assumes inv: "alloc_inv w m rs"
  shows "alloc_inv w m (release i rs)"
proof -
  have g: "jget (jdel rs i) j = Some q \<Longrightarrow> jget rs j = Some q" for j q
    by (simp add: jget_jdel split: if_splits)
  have "res_keyed (jdel rs i)"
    using inv g by (auto simp: alloc_inv_def res_keyed_def)
  moreover have "exclusive_alone w (jdel rs i)"
    using inv g by (intro exclusive_alone_mono [of "jdel rs i" rs]) (auto simp: alloc_inv_def)
  moreover have "within_limit w m (jdel rs i)"
    using inv g by (intro within_limit_mono [of "jdel rs i" rs]) (auto simp: alloc_inv_def)
  ultimately show ?thesis by (simp add: alloc_inv_def release_def)
qed

lemma card_clique_overlaps:
  assumes keyed: "res_keyed rs" and C: "finite C" "C \<subseteq> {i. \<exists>r. jget rs i = Some r \<and> P r}"
  shows "card C \<le> length (filter P (jvals rs))"
proof -
  from keyed have ok: "jmap_ok rs" by (simp add: res_keyed_def)
  have "C \<subseteq> fst ` set (filter (\<lambda>(i, r). P r) rs)"
    using C by (force simp: in_set_jget [OF ok, symmetric])
  then have "card C \<le> card (fst ` set (filter (\<lambda>(i, r). P r) rs))"
    by (intro card_mono) auto
  also have "\<dots> \<le> length (filter (\<lambda>(i, r). P r) rs)"
    by (metis card_length list.set_map length_map)
  also have "\<dots> = length (filter P (jvals rs))"
    by (induction rs) (auto simp: jvals_def)
  finally show ?thesis .
qed

lemma alloc_inv_reserve:
  assumes inv: "alloc_inv w m rs"
  shows "alloc_inv w m (fst (reserve w m i cwd owner rs))"
proof -
  let ?ov = "filter (\<lambda>r. paths_overlap w cwd (rs_cwd r)) (jvals rs)"
  let ?new = "new_reservation i cwd owner" and ?rs = "jset rs i (new_reservation i cwd owner)"
  from inv have keyed: "res_keyed rs" and ok: "jmap_ok rs" by (auto simp: alloc_inv_def res_keyed_def)
  show ?thesis
  proof (cases "find rs_exclusive ?ov = None \<and> length ?ov < m")
    case False
    with inv show ?thesis by (auto simp: reserve_def Let_def split: option.splits)
  next
    case True
    then have r: "fst (reserve w m i cwd owner rs) = ?rs" by (simp add: reserve_def Let_def)
    from True have free: "jget rs j = Some q \<Longrightarrow> rs_exclusive q \<Longrightarrow> \<not> paths_overlap w cwd (rs_cwd q)" for j q
      using jvals_jget [OF ok, of q] by (auto simp: find_None_iff)
    have "res_keyed ?rs"
      using keyed by (auto simp: res_keyed_def jget_jset new_reservation_def)
    moreover have "exclusive_alone w ?rs"
      unfolding exclusive_alone_def
      using inv free paths_overlap_sym [of w]
      by (auto simp: alloc_inv_def exclusive_alone_def jget_jset new_reservation_def split: if_splits)
    moreover have "card C \<le> m" if C: "overlap_clique w ?rs C" for C
    proof (cases "i \<in> C")
      case False
      have "overlap_clique w rs C"
        unfolding overlap_clique_def
      proof (intro conjI ballI allI impI)
        show "finite C" using C by (simp add: overlap_clique_def)
        fix j assume j: "j \<in> C"
        with C False show "\<exists>r. jget rs j = Some r" by (auto simp: overlap_clique_def jget_jset split: if_splits)
        fix k r q assume "k \<in> C" "jget rs j = Some r" "jget rs k = Some q"
        with overlap_cliqueD [OF C, of j k r q] False j show "paths_overlap w (rs_cwd r) (rs_cwd q)"
          by (cases "j = i"; cases "k = i") auto
      qed
      with inv show ?thesis by (auto simp: alloc_inv_def within_limit_def)
    next
      case True
      have "C - {i} \<subseteq> {j. \<exists>r. jget rs j = Some r \<and> paths_overlap w cwd (rs_cwd r)}"
      proof
        fix j assume j: "j \<in> C - {i}"
        with C obtain q where q: "jget ?rs j = Some q" by (auto simp: overlap_clique_def)
        with overlap_cliqueD [OF C, of i j ?new q] j True
        show "j \<in> {j. \<exists>r. jget rs j = Some r \<and> paths_overlap w cwd (rs_cwd r)}"
          by (auto simp: new_reservation_def)
      qed
      with C have "card (C - {i}) \<le> length ?ov"
        by (intro card_clique_overlaps keyed) (auto simp: overlap_clique_def)
      with True C \<open>find rs_exclusive ?ov = None \<and> length ?ov < m\<close> show ?thesis
        by (auto simp: overlap_clique_def)
    qed
    ultimately show ?thesis by (simp add: r alloc_inv_def within_limit_def)
  qed
qed

lemma alloc_inv_exclusive:
  assumes inv: "alloc_inv w m rs" and ex: "exclusive w i rs = Inr (rs', res)"
  shows "alloc_inv w m rs'"
proof -
  from inv have ok: "jmap_ok rs" and keyed: "jget rs j = Some r \<Longrightarrow> rs_id r = j" for j r
    by (auto simp: alloc_inv_def res_keyed_def)
  from ex obtain self where self: "jget rs i = Some self"
    by (auto simp: exclusive_def split: option.splits)
  show ?thesis
  proof (cases "rs' = rs")
    case True
    with inv show ?thesis by simp
  next
    case False
    with ex self have rs': "rs' = jset rs i (self\<lparr>rs_exclusive := True\<rparr>)"
      and none: "find (\<lambda>r. rs_id r \<noteq> i \<and> paths_overlap w (rs_cwd self) (rs_cwd r)) (jvals rs) = None"
      by (auto simp: exclusive_def split: option.splits if_splits)
    from none have alone: "jget rs j = Some q \<Longrightarrow> j \<noteq> i \<Longrightarrow> \<not> paths_overlap w (rs_cwd self) (rs_cwd q)" for j q
      using jvals_jget [OF ok, of q] keyed [of j q] by (auto simp: find_None_iff)
    have "res_keyed rs'"
      using inv self by (auto simp: alloc_inv_def res_keyed_def rs' jget_jset split: if_splits)
    moreover have "exclusive_alone w rs'"
      unfolding exclusive_alone_def rs'
      using inv self alone paths_overlap_sym [of w]
      by (auto simp: alloc_inv_def exclusive_alone_def jget_jset split: if_splits)
    moreover have "within_limit w m rs'"
      using inv self
      by (intro within_limit_mono [of rs' rs])
        (auto simp: alloc_inv_def rs' jget_jset split: if_splits)
    ultimately show ?thesis by (simp add: alloc_inv_def)
  qed
qed

section \<open>Runs of the allocator\<close>

datatype alloc_op =
    OpReserve string resolved_path principal_id
  | OpActivate string
  | OpReassign string principal_id
  | OpExclusive string
  | OpReleaseExclusive string
  | OpRelease string

text \<open>One call; a call that throws leaves the reservations as they were.\<close>

fun alloc_step :: "bool \<Rightarrow> nat \<Rightarrow> reservations \<Rightarrow> alloc_op \<Rightarrow> reservations" where
  "alloc_step w m rs (OpReserve i cwd owner) = fst (reserve w m i cwd owner rs)"
| "alloc_step w m rs (OpActivate i) = activate i rs"
| "alloc_step w m rs (OpReassign i owner) = reassign i owner rs"
| "alloc_step w m rs (OpExclusive i) = (case exclusive w i rs of Inl _ \<Rightarrow> rs | Inr (rs', _) \<Rightarrow> rs')"
| "alloc_step w m rs (OpReleaseExclusive i) = release_exclusive i rs"
| "alloc_step w m rs (OpRelease i) = release i rs"

definition alloc_run :: "bool \<Rightarrow> nat \<Rightarrow> alloc_op list \<Rightarrow> reservations" where
  "alloc_run w m ops = foldl (alloc_step w m) [] ops"

lemma alloc_inv_step: "alloc_inv w m rs \<Longrightarrow> alloc_inv w m (alloc_step w m rs op)"
  by (cases op)
    (auto simp: activate_def reassign_def release_exclusive_def alloc_inv_release
       intro!: alloc_inv_update alloc_inv_reserve split: sum.splits dest: alloc_inv_exclusive)

lemma alloc_inv_run: "alloc_inv w m (alloc_run w m ops)"
proof -
  have "alloc_inv w m rs \<Longrightarrow> alloc_inv w m (foldl (alloc_step w m) rs ops)" for rs
    by (induction ops arbitrary: rs) (simp_all add: alloc_inv_step)
  then show ?thesis by (simp add: alloc_run_def alloc_inv_empty)
qed

lemma reserve_refused_holder:
  assumes "reserve w m i cwd owner rs = (rs', Some r)" and "0 < m"
  shows "rs' = rs \<and> r \<in> set (jvals rs) \<and> paths_overlap w cwd (rs_cwd r)"
proof -
  let ?ov = "filter (\<lambda>r. paths_overlap w cwd (rs_cwd r)) (jvals rs)"
  from assms have "rs' = rs" and "find rs_exclusive ?ov = Some r \<or> m \<le> length ?ov \<and> r = hd ?ov"
    by (auto simp: reserve_def Let_def split: option.splits if_splits)
  moreover have "hd ?ov \<in> set ?ov" if "m \<le> length ?ov"
    using that \<open>0 < m\<close> by (intro hd_in_set) auto
  ultimately have "r \<in> set ?ov"
    using find_Some_in [of rs_exclusive ?ov r] by auto
  with \<open>rs' = rs\<close> show ?thesis by simp
qed

section \<open>Properties\<close>



text \<open>
  \<open>reserve\<close> admits a session exactly when no overlapping reservation is exclusive and
  fewer than the limit overlap; it then adds one pending, shared reservation under the new id.
  Otherwise it changes nothing and names a reservation of the map that overlaps the path.
\<close>

theorem reserve_decides:
  assumes "0 < m" and "reserve w m i cwd owner rs = (rs', busy)"
  shows "(busy = None \<longleftrightarrow>
      (\<forall>r \<in> set (jvals rs). paths_overlap w cwd (rs_cwd r) \<longrightarrow> \<not> rs_exclusive r)
      \<and> length (filter (\<lambda>r. paths_overlap w cwd (rs_cwd r)) (jvals rs)) < m)
    \<and> (busy = None \<longrightarrow> rs' = jset rs i (new_reservation i cwd owner))
    \<and> (\<forall>r. busy = Some r \<longrightarrow> rs' = rs \<and> r \<in> set (jvals rs) \<and> paths_overlap w cwd (rs_cwd r))"
proof (intro conjI)
  show "busy = None \<longleftrightarrow>
      (\<forall>r \<in> set (jvals rs). paths_overlap w cwd (rs_cwd r) \<longrightarrow> \<not> rs_exclusive r)
      \<and> length (filter (\<lambda>r. paths_overlap w cwd (rs_cwd r)) (jvals rs)) < m"
    using assms by (auto simp: reserve_def Let_def find_None_iff split: option.splits if_splits
        dest!: find_Some_in)
  show "busy = None \<longrightarrow> rs' = jset rs i (new_reservation i cwd owner)"
    using assms by (auto simp: reserve_def Let_def split: option.splits if_splits)
  show "\<forall>r. busy = Some r \<longrightarrow> rs' = rs \<and> r \<in> set (jvals rs) \<and> paths_overlap w cwd (rs_cwd r)"
    using assms reserve_refused_holder by blast
qed

theorem reserve_decides_witness:
  "snd (reserve False 1 ''b'' ''/w/pq'' ''bob'' (alloc_run False 1 [OpReserve ''a'' ''/w/p'' ''ann''])) = None"
proof -
  let ?rs = "alloc_run False 1 [OpReserve ''a'' ''/w/p'' ''ann'']"
  have rs: "jvals ?rs = [new_reservation ''a'' ''/w/p'' ''ann'']"
    and ov: "\<not> paths_overlap False ''/w/pq'' ''/w/p''"
    by code_simp+
  have r: "reserve False 1 ''b'' ''/w/pq'' ''bob'' ?rs
      = (fst (reserve False 1 ''b'' ''/w/pq'' ''bob'' ?rs), snd (reserve False 1 ''b'' ''/w/pq'' ''bob'' ?rs))"
    by simp
  from reserve_decides [OF _ r, unfolded rs] ov show ?thesis
    by (simp add: new_reservation_def)
qed

text \<open>
  A path the jail lets through is the resolved form of the candidate and lies inside one
  of the configured roots; everything else is refused as unresolvable or outside. Inside is
  transitive, so a path inside an admitted workspace is inside that root too.
\<close>

theorem jail_admits_inside:
  assumes "resolve_inside_root w realpath candidate roots = Inr path"
  shows "(\<exists>raw. realpath candidate = Inr raw \<and> path = strip_extended_prefix raw)
    \<and> (\<exists>root \<in> set roots. is_inside_root w path root
         \<and> (\<forall>sub. is_inside_root w sub path \<longrightarrow> is_inside_root w sub root))"
proof -
  from assms obtain raw where raw: "realpath candidate = Inr raw" "path = strip_extended_prefix raw"
    and "list_ex (is_inside_root w path) roots"
    by (auto simp: resolve_inside_root_def Let_def split: sum.splits if_splits)
  then obtain root where "root \<in> set roots" "is_inside_root w path root"
    by (auto simp: list_ex_iff)
  with raw show ?thesis using is_inside_root_trans by blast
qed

theorem jail_admits_inside_witness:
  "is_inside_root True (''C:'' @ [backslash] @ ''Work'' @ [backslash] @ ''app'') (''c:/WORK'')
   \<and> resolve_inside_root False (\<lambda>p. Inr p) ''/srv/work-old'' [''/srv/work'']
       = Inl (OutsideWorkspaceRoot ''/srv/work-old'' [''/srv/work''])"
proof
  have "resolve_inside_root True (\<lambda>p. Inr (''C:'' @ [backslash] @ ''Work'' @ [backslash] @ ''app''))
      ''x'' [''c:/WORK''] = Inr (''C:'' @ [backslash] @ ''Work'' @ [backslash] @ ''app'')"
    by code_simp
  from jail_admits_inside [OF this]
  show "is_inside_root True (''C:'' @ [backslash] @ ''Work'' @ [backslash] @ ''app'') (''c:/WORK'')"
    by simp
  show "resolve_inside_root False (\<lambda>p. Inr p) ''/srv/work-old'' [''/srv/work'']
       = Inl (OutsideWorkspaceRoot ''/srv/work-old'' [''/srv/work''])"
    by code_simp
qed

end
