(* ===== verification/Create_Attempts.thy ===== *)
theory Create_Attempts
  imports Vocabulary
begin

text \<open>
  \<open>src/agent-console/core/create-attempts.ts\<close>: the idempotent two-phase attempts of an
  in-process host (\<open>createHostAttempts\<close>), and the coordinator that bounds every host call in
  time (\<open>coordinateHostAttempts\<close>, \<open>recoverHostAttempt\<close>).

  An asynchronous method is split where it waits: one event is the call, another is the moment
  the promise it waits for settles. The host's own effects are not under \<open>src/\<close>: the calls to
  them are logged and what they answer comes with the settling event.
\<close>

section \<open>Attempts\<close>

datatype attempt_state = New | Prepared | Committing | Committed | Aborted

datatype 'e attempt_error =
    HostError 'e
  | CreateAborted
  | CreatePrepareTimeout
  | OutcomeUnknown

type_synonym 'e attempt_result = "('e attempt_error, unit) result"

text \<open>
  A promise the attempt keeps: \<open>None\<close> before it is made, \<open>Some None\<close> while it is pending and
  \<open>Some (Some r)\<close> once it has settled with \<open>r\<close>.
\<close>

type_synonym 'a promise = "'a option option"

record 'e attempt =
  at_state :: attempt_state
  at_signalled :: bool
  at_preparation :: "'e attempt_result promise"
  at_committing :: "'e attempt_result promise"
  at_aborting :: bool
  at_waiting :: nat

datatype effect = EffPrepare | EffCommit | EffAbort

definition fresh_attempt :: "'e attempt" where
  "fresh_attempt = \<lparr>at_state = New, at_signalled = False, at_preparation = None,
     at_committing = None, at_aborting = False, at_waiting = 0\<rparr>"

text \<open>What a caller gets at once: a settled result, or the attempt's own promise to wait on.\<close>

datatype 'e reply = Settled "'e attempt_result" | SharesPreparation | SharesCommit | SharesAbort | Done

text \<open>Each operation returns the attempt it leaves, the effects it starts, and the reply.\<close>

definition call_prepare :: "'e attempt \<Rightarrow> 'e attempt \<times> effect list \<times> 'e reply" where
  "call_prepare a =
     (if at_state a = Aborted then (a, [], Settled (Inl CreateAborted))
      else if at_preparation a \<noteq> None then (a, [], SharesPreparation)
      else (a\<lparr>at_preparation := Some None\<rparr>, [EffPrepare], SharesPreparation))"

definition settle_prepare :: "'e attempt_result \<Rightarrow> 'e attempt \<Rightarrow> 'e attempt \<times> effect list" where
  "settle_prepare r a =
     (if at_preparation a \<noteq> Some None then (a, [])
      else if at_state a = Aborted
      then (a\<lparr>at_preparation := Some (Some (Inl CreateAborted))\<rparr>, [EffAbort])
      else if is_ok r then (a\<lparr>at_state := Prepared, at_preparation := Some (Some r)\<rparr>, [])
      else (a\<lparr>at_state := Aborted, at_preparation := Some (Some r)\<rparr>, [EffAbort]))"

definition call_commit :: "'e attempt \<Rightarrow> 'e attempt \<times> effect list \<times> 'e reply" where
  "call_commit a =
     (if at_committing a \<noteq> None then (a, [], SharesCommit)
      else if at_state a \<noteq> Prepared then (a, [], Settled (Inl CreateAborted))
      else (a\<lparr>at_state := Committing, at_committing := Some None\<rparr>, [EffCommit], SharesCommit))"

definition settle_commit :: "'e attempt_result \<Rightarrow> 'e attempt \<Rightarrow> 'e attempt \<times> effect list" where
  "settle_commit r a =
     (if at_committing a \<noteq> Some None then (a, [])
      else if is_ok r then (a\<lparr>at_state := Committed, at_committing := Some (Some r)\<rparr>, [])
      else (a\<lparr>at_state := Aborted, at_committing := Some (Some r)\<rparr>, [EffAbort]))"

text \<open>The part of \<open>abort\<close> after the wait for a commit in flight.\<close>

definition abort_rest :: "'e attempt \<Rightarrow> 'e attempt \<times> effect list \<times> 'e reply" where
  "abort_rest a =
     (if at_state a = Committed then (a, [], Done)
      else if at_aborting a then (a, [], SharesAbort)
      else (a\<lparr>at_state := Aborted, at_signalled := True, at_aborting := True\<rparr>, [EffAbort], SharesAbort))"

definition call_abort :: "'e attempt \<Rightarrow> 'e attempt \<times> effect list \<times> 'e reply" where
  "call_abort a =
     (if at_state a = Committing then (a\<lparr>at_waiting := Suc (at_waiting a)\<rparr>, [], SharesCommit)
      else abort_rest a)"

text \<open>An \<open>abort\<close> that waited goes on, once the commit has settled.\<close>

definition resume_abort :: "'e attempt \<Rightarrow> 'e attempt \<times> effect list" where
  "resume_abort a =
     (if at_waiting a = 0 \<or> at_committing a = Some None then (a, [])
      else (let (a', effs, _) = abort_rest (a\<lparr>at_waiting := at_waiting a - 1\<rparr>) in (a', effs)))"

definition attempt_status :: "'e attempt \<Rightarrow> attempt_state" where
  "attempt_status a = at_state a"

definition call_cancel :: "'e attempt \<Rightarrow> 'e attempt" where
  "call_cancel a = a\<lparr>at_signalled := True\<rparr>"

section \<open>The event loop of the attempts\<close>

datatype 'e attempt_event =
    CallPrepare
  | PrepareSettles "'e attempt_result"
  | CallCommit
  | CommitSettles "'e attempt_result"
  | CallAbort
  | AbortResumes
  | CallStatus
  | CallCancel

fun attempt_step :: "'e attempt \<Rightarrow> 'e attempt_event \<Rightarrow> 'e attempt \<times> effect list" where
  "attempt_step a CallPrepare = (let (a', effs, _) = call_prepare a in (a', effs))"
| "attempt_step a (PrepareSettles r) = settle_prepare r a"
| "attempt_step a CallCommit = (let (a', effs, _) = call_commit a in (a', effs))"
| "attempt_step a (CommitSettles r) = settle_commit r a"
| "attempt_step a CallAbort = (let (a', effs, _) = call_abort a in (a', effs))"
| "attempt_step a AbortResumes = resume_abort a"
| "attempt_step a CallStatus = (a, [])"
| "attempt_step a CallCancel = (call_cancel a, [])"

text \<open>The map of the attempts, with \<open>get\<close> making a new one, and the log of effects.\<close>

type_synonym 'e attempts = "(session_id, 'e attempt) jmap"

definition get_attempt :: "session_id \<Rightarrow> 'e attempts \<Rightarrow> 'e attempt" where
  "get_attempt i m = (case jget m i of Some a \<Rightarrow> a | None \<Rightarrow> fresh_attempt)"

definition attempts_step ::
  "'e attempts \<times> (session_id \<times> effect) list \<Rightarrow> session_id \<times> 'e attempt_event
   \<Rightarrow> 'e attempts \<times> (session_id \<times> effect) list" where
  "attempts_step s e =
     (let (m, log) = s; (i, ev) = e; (a', effs) = attempt_step (get_attempt i m) ev
      in (jset m i a', log @ map (Pair i) effs))"

definition attempts_run ::
  "(session_id \<times> 'e attempt_event) list \<Rightarrow> 'e attempts \<times> (session_id \<times> effect) list" where
  "attempts_run evs = foldl attempts_step ([], []) evs"

section \<open>Invariant\<close>

text \<open>The effects started for one session, in order.\<close>

definition effects_of :: "session_id \<Rightarrow> (session_id \<times> effect) list \<Rightarrow> effect list" where
  "effects_of i log = map snd (filter (\<lambda>(j, _). j = i) log)"

text \<open>No commit is started after an abort.\<close>

fun no_commit_after_abort :: "effect list \<Rightarrow> bool" where
  "no_commit_after_abort [] = True"
| "no_commit_after_abort (x # xs) =
     (if x = EffAbort then EffCommit \<notin> set xs else no_commit_after_abort xs)"

lemma no_commit_after_abort_append:
  "no_commit_after_abort xs \<Longrightarrow> EffCommit \<notin> set ys \<Longrightarrow> no_commit_after_abort (xs @ ys)"
proof (induction xs)
  case Nil
  then show ?case by (induction ys) auto
qed auto

text \<open>
  A new attempt has started at most its preparation; a prepared one exactly that; a
  committing or committed one its preparation and its commit and nothing else; an aborted one
  has started an abort, and no commit after it.
\<close>

fun attempt_inv_state :: "attempt_state \<Rightarrow> 'e attempt \<Rightarrow> effect list \<Rightarrow> bool" where
  "attempt_inv_state New a effs =
     (at_committing a = None \<and> effs = (if at_preparation a = None then [] else [EffPrepare]))"
| "attempt_inv_state Prepared a effs =
     (at_committing a = None \<and> effs = [EffPrepare] \<and> at_preparation a \<noteq> None \<and> at_preparation a \<noteq> Some None)"
| "attempt_inv_state Committing a effs =
     (at_committing a = Some None \<and> effs = [EffPrepare, EffCommit]
      \<and> at_preparation a \<noteq> None \<and> at_preparation a \<noteq> Some None)"
| "attempt_inv_state Committed a effs =
     (at_committing a = Some (Some (Inr ())) \<and> effs = [EffPrepare, EffCommit]
      \<and> at_preparation a \<noteq> None \<and> at_preparation a \<noteq> Some None)"
| "attempt_inv_state Aborted a effs =
     (at_committing a \<noteq> Some None \<and> EffAbort \<in> set effs \<and> no_commit_after_abort effs
      \<and> count_list effs EffPrepare \<le> 1 \<and> count_list effs EffCommit \<le> 1)"

definition attempt_inv :: "'e attempt \<Rightarrow> effect list \<Rightarrow> bool" where
  "attempt_inv a effs = attempt_inv_state (at_state a) a effs"

lemma attempt_inv_fresh: "attempt_inv fresh_attempt []"
  by (simp add: attempt_inv_def fresh_attempt_def)

lemma attempt_inv_waiting [simp]: "attempt_inv (a\<lparr>at_waiting := n\<rparr>) effs = attempt_inv a effs"
  by (cases "at_state a") (simp_all add: attempt_inv_def)

lemma attempt_inv_signalled [simp]: "attempt_inv (a\<lparr>at_signalled := b\<rparr>) effs = attempt_inv a effs"
  by (cases "at_state a") (simp_all add: attempt_inv_def)

lemmas attempt_ops = call_prepare_def settle_prepare_def call_commit_def settle_commit_def
  abort_rest_def call_abort_def resume_abort_def call_cancel_def

lemma attempt_inv_prepare: "attempt_inv a effs \<Longrightarrow> call_prepare a = (a', new, r) \<Longrightarrow> attempt_inv a' (effs @ new)"
  by (cases "at_state a") (auto simp: attempt_inv_def call_prepare_def split: if_splits)

lemma attempt_inv_settle_prepare:
  "attempt_inv a effs \<Longrightarrow> settle_prepare r a = (a', new) \<Longrightarrow> attempt_inv a' (effs @ new)"
  by (cases "at_state a")
    (auto simp: attempt_inv_def settle_prepare_def no_commit_after_abort_append split: if_splits)

lemma attempt_inv_commit: "attempt_inv a effs \<Longrightarrow> call_commit a = (a', new, r) \<Longrightarrow> attempt_inv a' (effs @ new)"
  by (cases "at_state a") (auto simp: attempt_inv_def call_commit_def split: if_splits)

lemma attempt_inv_settle_commit:
  "attempt_inv a effs \<Longrightarrow> settle_commit r a = (a', new) \<Longrightarrow> attempt_inv a' (effs @ new)"
  by (cases "at_state a")
    (auto simp: attempt_inv_def settle_commit_def is_ok_cases no_commit_after_abort_append split: if_splits)

lemma attempt_inv_abort_rest:
  "attempt_inv a effs \<Longrightarrow> at_state a \<noteq> Committing \<Longrightarrow> abort_rest a = (a', new, r) \<Longrightarrow>
   attempt_inv a' (effs @ new)"
  by (cases "at_state a")
    (auto simp: attempt_inv_def abort_rest_def no_commit_after_abort_append split: if_splits)

lemma attempt_inv_step:
  assumes inv: "attempt_inv a effs" and st: "attempt_step a ev = (a', new)"
  shows "attempt_inv a' (effs @ new)"
proof (cases ev)
  case CallAbort
  with inv st show ?thesis
    using attempt_inv_abort_rest [OF inv]
    by (auto simp: call_abort_def Let_def split: prod.splits if_splits)
next
  case AbortResumes
  have "at_state a = Committing \<Longrightarrow> at_committing a = Some None"
    using inv by (simp add: attempt_inv_def)
  with AbortResumes inv st show ?thesis
    using attempt_inv_abort_rest [of "a\<lparr>at_waiting := at_waiting a - 1\<rparr>" effs]
    by (auto simp: resume_abort_def Let_def split: prod.splits if_splits)
qed (use inv st attempt_inv_prepare attempt_inv_settle_prepare attempt_inv_commit attempt_inv_settle_commit
  in \<open>auto simp: call_cancel_def Let_def split: prod.splits\<close>)

text \<open>A committed attempt and an aborted one stay so.\<close>

lemma attempt_final:
  assumes "attempt_inv a effs" "attempt_step a ev = (a', new)"
  shows "(at_state a = Committed \<longrightarrow> at_state a' = Committed \<and> new = [])
    \<and> (at_state a = Aborted \<longrightarrow> at_state a' = Aborted \<and> EffCommit \<notin> set new)"
  using assms
  by (cases ev; cases "at_state a")
    (auto simp: attempt_inv_def attempt_ops Let_def split: if_splits prod.splits)

section \<open>Runs\<close>

definition attempts_inv :: "'e attempts \<times> (session_id \<times> effect) list \<Rightarrow> bool" where
  "attempts_inv s = (\<forall>i. attempt_inv (get_attempt i (fst s)) (effects_of i (snd s)))"

lemma effects_of_append: "effects_of i (xs @ ys) = effects_of i xs @ effects_of i ys"
  by (simp add: effects_of_def)

lemma effects_of_pairs: "effects_of i (map (Pair j) effs) = (if i = j then effs else [])"
  unfolding effects_of_def by (induction effs) auto

lemma get_attempt_jset: "get_attempt i (jset m j a) = (if i = j then a else get_attempt i m)"
  by (simp add: get_attempt_def jget_jset)

lemma attempts_inv_step: "attempts_inv s \<Longrightarrow> attempts_inv (attempts_step s e)"
  using attempt_inv_step [of "get_attempt (fst e) (fst s)" "effects_of (fst e) (snd s)" "snd e"]
  by (cases s; cases e)
    (auto simp: attempts_inv_def attempts_step_def get_attempt_jset effects_of_append effects_of_pairs
      split: prod.splits)

lemma attempts_inv_run: "attempts_inv (attempts_run evs)"
proof -
  have "attempts_inv s \<Longrightarrow> attempts_inv (foldl attempts_step s evs)" for s :: "'a attempts \<times> (session_id \<times> effect) list"
    by (induction evs arbitrary: s) (simp_all add: attempts_inv_step)
  moreover have "attempts_inv ([], [])"
    by (simp add: attempts_inv_def get_attempt_def effects_of_def attempt_inv_fresh)
  ultimately show ?thesis by (simp add: attempts_run_def)
qed

lemma attempts_step_committed:
  assumes "attempts_inv s" "at_state (get_attempt i (fst s)) = Committed"
  shows "at_state (get_attempt i (fst (attempts_step s e))) = Committed
    \<and> effects_of i (snd (attempts_step s e)) = effects_of i (snd s)"
proof -
  obtain m log where s: "s = (m, log)" by (cases s)
  obtain j ev where e: "e = (j, ev)" by (cases e)
  obtain a' new where st: "attempt_step (get_attempt j m) ev = (a', new)" by fastforce
  have step: "attempts_step s e = (jset m j a', log @ map (Pair j) new)"
    by (simp add: s e attempts_step_def st)
  have "attempt_inv (get_attempt j m) (effects_of j log)"
    using assms by (simp add: attempts_inv_def s)
  from attempt_final [OF this st] assms show ?thesis
    by (auto simp: step [unfolded s] s get_attempt_jset effects_of_append effects_of_pairs)
qed

section \<open>The coordinator\<close>

text \<open>
  \<open>within\<close> answers the work's result, or \<open>None\<close> when the bound fires first; the coordinator
  treats a call that throws as one that does not answer. The replies of the host are the
  arguments, in the order the calls are made.
\<close>

type_synonym 'a observed = "'a option"

definition recover_host_attempt :: "attempt_state observed \<Rightarrow> attempt_state option" where
  "recover_host_attempt status = status"

datatype 'e prepare_reply = PrepareAnswers "'e attempt_result" | PrepareThrows 'e | PrepareTimesOut

datatype host_call = HcPrepare | HcCommit | HcAbort | HcStatus | HcCancel

definition coordinated_prepare :: "'e prepare_reply \<Rightarrow> host_call list \<times> 'e attempt_result" where
  "coordinated_prepare reply =
     (case reply of
        PrepareThrows e \<Rightarrow> ([HcPrepare, HcAbort], Inl (HostError e))
      | PrepareAnswers r \<Rightarrow> ([HcPrepare], r)
      | PrepareTimesOut \<Rightarrow> ([HcPrepare, HcCancel, HcAbort], Inl CreatePrepareTimeout))"

text \<open>The loop of at most two rounds of reconciliation: a status, then another commit.\<close>

fun reconcile ::
  "(attempt_state observed \<times> 'e attempt_result observed) list \<Rightarrow> host_call list \<times> 'e attempt_result" where
  "reconcile [] = ([], Inl OutcomeUnknown)"
| "reconcile ((status, retried) # rest) =
     (if status = Some Committed then ([HcStatus], Inr ())
      else if status = Some Aborted then ([HcStatus], Inl CreateAborted)
      else (case retried of
              Some r \<Rightarrow> ([HcStatus, HcCommit], r)
            | None \<Rightarrow> (let (calls, r) = reconcile rest in (HcStatus # HcCommit # calls, r))))"

definition coordinated_commit ::
  "'e attempt_result observed
   \<Rightarrow> (attempt_state observed \<times> 'e attempt_result observed)
   \<Rightarrow> (attempt_state observed \<times> 'e attempt_result observed)
   \<Rightarrow> host_call list \<times> 'e attempt_result" where
  "coordinated_commit first round1 round2 =
     (case first of
        Some r \<Rightarrow> ([HcCommit], r)
      | None \<Rightarrow> (let (calls, r) = reconcile [round1, round2] in (HcCommit # calls, r)))"

section \<open>Properties\<close>

text \<open>
  in every run of any number of attempts, with calls and settlements in any order, a
  session's host commit is started at most once and never after an abort; a committed attempt
  has started exactly its preparation and its commit, never an abort; an aborted attempt has
  started an abort.
\<close>

theorem attempts_effects:
  fixes evs :: "(session_id \<times> 'e attempt_event) list"
  shows "let effs = effects_of i (snd (attempts_run evs));
             state = at_state (get_attempt i (fst (attempts_run evs)))
    in count_list effs EffCommit \<le> 1 \<and> no_commit_after_abort effs
       \<and> (state = Committed \<longrightarrow> effs = [EffPrepare, EffCommit])
       \<and> (EffAbort \<in> set effs \<longleftrightarrow> state = Aborted)"
proof -
  have "attempt_inv (get_attempt i (fst (attempts_run evs))) (effects_of i (snd (attempts_run evs)))"
    using attempts_inv_run [of evs] by (simp add: attempts_inv_def)
  then show ?thesis
    by (cases "at_state (get_attempt i (fst (attempts_run evs)))") (auto simp: attempt_inv_def Let_def)
qed

theorem attempts_effects_witness:
  "effects_of ''s'' (snd (attempts_run
      [(''s'', CallPrepare), (''s'', PrepareSettles (Inr ())), (''s'', CallCommit), (''s'', CallAbort),
       (''s'', CommitSettles (Inr ())), (''s'', AbortResumes :: unit attempt_event)])) = [EffPrepare, EffCommit]"
proof -
  let ?evs = "[(''s'', CallPrepare), (''s'', PrepareSettles (Inr ())), (''s'', CallCommit), (''s'', CallAbort),
       (''s'', CommitSettles (Inr ())), (''s'', AbortResumes :: unit attempt_event)]"
  have "at_state (get_attempt ''s'' (fst (attempts_run ?evs))) = Committed"
    by code_simp
  with attempts_effects [of "''s''" ?evs] show ?thesis by (simp add: Let_def)
qed

text \<open>
  A committed attempt is final: no further call or settlement changes its state or starts
  another effect for it, an abort included.
\<close>

theorem committed_is_final:
  assumes "at_state (get_attempt i (fst (attempts_run evs))) = Committed"
  shows "at_state (get_attempt i (fst (attempts_run (evs @ later)))) = Committed
    \<and> effects_of i (snd (attempts_run (evs @ later))) = [EffPrepare, EffCommit]"
proof -
  have "attempts_inv s \<Longrightarrow> at_state (get_attempt i (fst s)) = Committed \<Longrightarrow>
      at_state (get_attempt i (fst (foldl attempts_step s later))) = Committed
      \<and> effects_of i (snd (foldl attempts_step s later)) = effects_of i (snd s)"
    for s :: "'a attempts \<times> (session_id \<times> effect) list"
    by (induction later arbitrary: s) (simp_all add: attempts_inv_step attempts_step_committed)
  from this [OF attempts_inv_run assms]
  have "at_state (get_attempt i (fst (attempts_run (evs @ later)))) = Committed
      \<and> effects_of i (snd (attempts_run (evs @ later))) = effects_of i (snd (attempts_run evs))"
    by (simp add: attempts_run_def)
  moreover have "attempt_inv (get_attempt i (fst (attempts_run evs))) (effects_of i (snd (attempts_run evs)))"
    using attempts_inv_run [of evs] by (simp add: attempts_inv_def)
  ultimately show ?thesis using assms by (simp add: attempt_inv_def)
qed

theorem committed_is_final_witness:
  "at_state (get_attempt ''s'' (fst (attempts_run
     ([(''s'', CallPrepare), (''s'', PrepareSettles (Inr ())), (''s'', CallCommit),
       (''s'', CommitSettles (Inr () :: unit attempt_result))] @ [(''s'', CallAbort), (''s'', CallCommit)])))) = Committed"
proof -
  have "at_state (get_attempt ''s'' (fst (attempts_run
     [(''s'', CallPrepare), (''s'', PrepareSettles (Inr ())), (''s'', CallCommit),
       (''s'', CommitSettles (Inr () :: unit attempt_result))]))) = Committed"
    by code_simp
  from committed_is_final [OF this] show ?thesis by blast
qed

text \<open>
  C37: the coordinator never aborts a commit whose outcome it does not know, calls the host's
  commit at most three times, reports success only on a host reply of success or a status of
  committed, and reports an unknown outcome exactly when the host gave no usable answer.
\<close>

theorem coordinated_commit_outcome:
  assumes "coordinated_commit first (s1, c1) (s2, c2) = (calls, result)"
    and host: "\<forall>r. Some r \<in> {first, c1, c2} \<longrightarrow> r \<noteq> Inl OutcomeUnknown"
  shows "HcAbort \<notin> set calls \<and> count_list calls HcCommit \<le> 3
    \<and> (result = Inr () \<longrightarrow> Some (Inr ()) \<in> {first, c1, c2} \<or> Some Committed \<in> {s1, s2})
    \<and> (result = Inl OutcomeUnknown \<longleftrightarrow>
         first = None \<and> c1 = None \<and> c2 = None \<and> {s1, s2} \<inter> {Some Committed, Some Aborted} = {})"
  using assms
  by (auto simp: coordinated_commit_def Let_def split: option.splits if_splits prod.splits)

theorem coordinated_commit_outcome_witness:
  "snd (coordinated_commit None (Some Committing, None) (Some Committed, None :: unit attempt_result observed))
     = Inr () \<and>
   snd (coordinated_commit None (Some Committing, None) (None, None :: unit attempt_result observed))
     = Inl OutcomeUnknown"
  using coordinated_commit_outcome [of None "Some Committing" None None "None :: unit attempt_result observed"
      "[HcCommit, HcStatus, HcCommit, HcStatus, HcCommit]" "Inl OutcomeUnknown"]
  by (simp add: coordinated_commit_def Let_def)

end
