(* ===== verification/Event_Stream.thy ===== *)
theory Event_Stream
  imports Vocabulary "HOL-Library.Sublist"
begin

text \<open>
  The event stream of one session. The ring of recent envelopes is the one of
  \<open>src/agent-console/store/memory.ts\<close> and \<open>src/agent-console/store/fs.ts\<close> (\<open>pushRing\<close>,
  \<open>readRingAfter\<close>, \<open>dropRing\<close>); the synchronous parts of \<open>emit\<close>, \<open>emitFrame\<close> and
  \<open>deliverDirect\<close> are those of \<open>src/agent-console/core/index.ts\<close>. The durable append that
  \<open>emit\<close> chains on the session's write queue is a later event: the queue holds the envelopes
  whose append has not finished.
\<close>

section \<open>The ring\<close>

definition mem_push_ring :: "nat \<Rightarrow> envelope list \<Rightarrow> envelope \<Rightarrow> envelope list" where
  "mem_push_ring capacity r e =
     (let r' = r @ [e] in if capacity < length r' then tl r' else r')"

definition fs_push_ring :: "nat \<Rightarrow> envelope list \<Rightarrow> envelope \<Rightarrow> envelope list" where
  "fs_push_ring capacity buf e =
     (if capacity = 0 then buf
      else (let buf' = buf @ [e] in
            if capacity < length buf' then drop (length buf' - capacity) buf' else buf'))"

definition read_ring_after :: "envelope list \<Rightarrow> nat \<Rightarrow> envelope list option" where
  "read_ring_after r after =
     (case r of
        [] \<Rightarrow> None
      | oldest # _ \<Rightarrow>
          if int after < int (env_seq oldest) - 1 then None
          else Some (filter (\<lambda>e. after < env_seq e) r))"

definition drop_ring :: "envelope list \<Rightarrow> envelope list" where
  "drop_ring r = []"

text \<open>A history without a gap: its sequence numbers count up by one from the first.\<close>

definition seqs :: "envelope list \<Rightarrow> nat list" where
  "seqs es = map env_seq es"

definition contiguous_from :: "nat \<Rightarrow> envelope list \<Rightarrow> bool" where
  "contiguous_from n es = (\<forall>i < length es. env_seq (es ! i) = Suc (n + i))"

lemma seqs_append [simp]: "seqs (xs @ ys) = seqs xs @ seqs ys"
  by (simp add: seqs_def)

lemma seqs_simps [simp]: "seqs [] = []" "seqs (e # es) = env_seq e # seqs es"
  by (simp_all add: seqs_def)

lemma length_seqs [simp]: "length (seqs es) = length es"
  by (simp add: seqs_def)

lemma contiguous_from_Nil [simp]: "contiguous_from n []"
  by (simp add: contiguous_from_def)

lemma contiguous_from_snoc [simp]:
  "contiguous_from n (es @ [e]) \<longleftrightarrow> contiguous_from n es \<and> env_seq e = Suc (n + length es)"
  by (auto simp: contiguous_from_def nth_append less_Suc_eq)

lemma contiguous_from_nth:
  "contiguous_from n es \<Longrightarrow> i < length es \<Longrightarrow> env_seq (es ! i) = Suc (n + i)"
  by (simp add: contiguous_from_def)

lemma contiguous_from_drop:
  "contiguous_from n es \<Longrightarrow> k \<le> length es \<Longrightarrow> contiguous_from (n + k) (drop k es)"
  by (simp add: contiguous_from_def)

lemma contiguous_from_tl: "contiguous_from n (e # es) \<longleftrightarrow> env_seq e = Suc n \<and> contiguous_from (Suc n) es"
  by (auto simp: contiguous_from_def nth_Cons split: nat.splits)

lemma filter_after_contiguous:
  assumes "contiguous_from n es"
  shows "filter (\<lambda>e. after < env_seq e) es = drop (after - n) es"
  using assms
proof (induction es rule: rev_induct)
  case Nil
  then show ?case by simp
next
  case (snoc e es)
  then show ?case by (cases "after - n \<le> length es") auto
qed

text \<open>
  The interface of a ring, as its clients use it: a push keeps a suffix of what was there and
  the new envelope, or nothing at all; a capacity bounds it.
\<close>

locale event_ring =
  fixes push :: "envelope list \<Rightarrow> envelope \<Rightarrow> envelope list"
    and capacity :: nat
  assumes push_suffix: "\<exists>k \<le> Suc (length r). length r \<le> capacity \<longrightarrow> push r e = drop k (r @ [e])"
    and push_bound: "length r \<le> capacity \<Longrightarrow> length (push r e) \<le> capacity"
begin

lemma ring_of_history:
  "length (foldl push [] es) \<le> capacity \<and> (\<exists>k \<le> length es. foldl push [] es = drop k es)"
proof (induction es rule: rev_induct)
  case Nil
  then show ?case by simp
next
  case (snoc e es)
  then obtain k where k: "k \<le> length es" "foldl push [] es = drop k es"
    and len: "length (foldl push [] es) \<le> capacity" by blast
  have "length (drop k es) \<le> capacity" using len k by simp
  with push_suffix [of "drop k es" e] obtain j where
    j: "push (drop k es) e = drop j (drop k es @ [e])" "j \<le> Suc (length (drop k es))" by blast
  have eq: "drop k es @ [e] = drop k (es @ [e])" using k by simp
  have "foldl push [] (es @ [e]) = push (drop k es) e" by (simp add: k)
  also have "\<dots> = drop j (drop k (es @ [e]))" by (simp only: j eq)
  also have "\<dots> = drop (j + k) (es @ [e])" by (simp only: drop_drop)
  finally have "foldl push [] (es @ [e]) = drop (j + k) (es @ [e])" .
  moreover have "j + k \<le> length (es @ [e])" using j k by simp
  moreover have "length (foldl push [] (es @ [e])) \<le> capacity"
    using push_bound [OF len, of e] by simp
  ultimately show ?case by blast
qed

text \<open>What the ring serves is what the whole history would.\<close>

lemma ring_serves_history:
  assumes c: "contiguous_from n es" and r: "read_ring_after (foldl push [] es) after = Some out"
    and after: "n \<le> after"
  shows "out = filter (\<lambda>e. after < env_seq e) es"
proof -
  from ring_of_history [of es] obtain k where k: "k \<le> length es" "foldl push [] es = drop k es" by blast
  with r have lt: "k < length es"
    by (cases "k = length es") (auto simp: read_ring_after_def)
  then have hd: "drop k es = es ! k # drop (Suc k) es" by (simp add: Cons_nth_drop_Suc)
  from r k hd have "\<not> int after < int (env_seq (es ! k)) - 1" "out = filter (\<lambda>e. after < env_seq e) (drop k es)"
    by (auto simp: read_ring_after_def split: if_splits)
  moreover from this contiguous_from_nth [OF c lt] have "n + k \<le> after" by linarith
  ultimately show ?thesis
    using filter_after_contiguous [OF contiguous_from_drop [OF c k(1)]] filter_after_contiguous [OF c]
    by (simp add: add.commute)
qed

text \<open>A refusal by a ring that holds something means an envelope asked for is not in it.\<close>

lemma ring_refuses_gap:
  assumes c: "contiguous_from n es" and r: "read_ring_after (foldl push [] es) after = None"
    and after: "n \<le> after" and ne: "foldl push [] es \<noteq> []"
  shows "\<exists>e \<in> set es. env_seq e = Suc after \<and> e \<notin> set (foldl push [] es)"
proof -
  from ring_of_history [of es] obtain k where k: "k \<le> length es" "foldl push [] es = drop k es" by blast
  with ne have lt: "k < length es" by simp
  then have hd: "drop k es = es ! k # drop (Suc k) es" by (simp add: Cons_nth_drop_Suc)
  from r k hd have "int after < int (env_seq (es ! k)) - 1"
    by (auto simp: read_ring_after_def split: if_splits)
  with contiguous_from_nth [OF c lt] have ak: "after < n + k" by linarith
  let ?e = "es ! (after - n)"
  from ak after lt have i: "after - n < length es" by linarith
  from contiguous_from_nth [OF c i] after have "env_seq ?e = Suc after" by simp
  moreover have "?e \<notin> set (drop k es)"
  proof
    assume "?e \<in> set (drop k es)"
    then obtain j where j: "j < length (drop k es)" "drop k es ! j = ?e" by (auto simp: in_set_conv_nth)
    with contiguous_from_nth [OF contiguous_from_drop [OF c k(1)] j(1)] \<open>env_seq ?e = Suc after\<close> ak
    show False by simp
  qed
  ultimately show ?thesis using i k by auto
qed

end

interpretation mem_ring: event_ring "mem_push_ring capacity" capacity for capacity
  by unfold_locales
    (auto simp: mem_push_ring_def Let_def tl_append drop_Suc intro: exI [of _ 0] exI [of _ 1]
       split: list.splits)

interpretation fs_ring: event_ring "fs_push_ring capacity" capacity for capacity
proof unfold_locales
  fix r :: "envelope list" and e
  show "\<exists>k \<le> Suc (length r). length r \<le> capacity \<longrightarrow> fs_push_ring capacity r e = drop k (r @ [e])"
  proof (cases "capacity = 0")
    case True
    then show ?thesis by (intro exI [of _ "Suc (length r)"]) (auto simp: fs_push_ring_def)
  next
    case False
    then show ?thesis
      by (intro exI [of _ "Suc (length r) - capacity"]) (auto simp: fs_push_ring_def Let_def)
  qed
  show "length r \<le> capacity \<Longrightarrow> length (fs_push_ring capacity r e) \<le> capacity"
    by (auto simp: fs_push_ring_def Let_def)
qed

text \<open>The two backends' rings agree on what either can hold.\<close>

lemma rings_agree: "length r \<le> capacity \<Longrightarrow> fs_push_ring capacity r e = mem_push_ring capacity r e"
  by (cases "length r = capacity"; cases r) (auto simp: fs_push_ring_def mem_push_ring_def Let_def)

section \<open>Emission\<close>

text \<open>
  \<open>st_queue\<close> is the session's write queue, oldest first; its head is the append in progress.
  \<open>st_delivered\<close> is what the registered subscribers were handed, in order. \<open>st_failed\<close> is the
  entry's \<open>storageFailed\<close>.
\<close>

record stream =
  st_seq :: nat
  st_ring :: "envelope list"
  st_spill :: "envelope list"
  st_queue :: "envelope list"
  st_delivered :: "delivery list"
  st_failed :: bool

definition new_stream :: "nat \<Rightarrow> stream" where
  "new_stream n = \<lparr>st_seq = n, st_ring = [], st_spill = [], st_queue = [], st_delivered = [], st_failed = False\<rparr>"

definition optional_raw :: "bool \<Rightarrow> raw_value option \<Rightarrow> raw_value option" where
  "optional_raw include_raw raw = (if include_raw then raw else None)"

text \<open>
  The synchronous part of \<open>emit\<close>: the sequence number, the ring, the write queue and the
  subscribers. The second component is the sequence number the caller waits for, \<open>None\<close> when
  the spill has failed already and nothing is emitted.
\<close>

definition emit_stream ::
  "nat \<Rightarrow> session_id \<Rightarrow> iso_timestamp \<Rightarrow> turn_id option \<Rightarrow> payload \<Rightarrow> raw_value option \<Rightarrow> stream
   \<Rightarrow> stream \<times> nat option" where
  "emit_stream capacity sid now turn data raw st =
     (if st_failed st then (st, None)
      else
        (let e = \<lparr>env_seq = Suc (st_seq st), env_session = sid, env_ts = now, env_turn = turn,
                  env_data = data, env_raw = raw\<rparr>
         in (st\<lparr>st_seq := Suc (st_seq st),
                st_ring := mem_push_ring capacity (st_ring st) e,
                st_queue := st_queue st @ [e],
                st_delivered := st_delivered st @ [EnvelopeD e]\<rparr>,
             Some (Suc (st_seq st)))))"

definition emit_frame ::
  "session_id \<Rightarrow> iso_timestamp \<Rightarrow> turn_id option \<Rightarrow> payload \<Rightarrow> raw_value option \<Rightarrow> stream \<Rightarrow> stream" where
  "emit_frame sid now turn data raw st =
     st\<lparr>st_delivered := st_delivered st @
         [FrameD \<lparr>fr_session = sid, fr_ts = now, fr_turn = turn, fr_data = data, fr_raw = raw\<rparr>]\<rparr>"

definition deliver_direct ::
  "session_id \<Rightarrow> iso_timestamp \<Rightarrow> turn_id option \<Rightarrow> payload \<Rightarrow> stream \<Rightarrow> stream" where
  "deliver_direct sid now turn data st =
     st\<lparr>st_seq := Suc (st_seq st),
        st_delivered := st_delivered st @
         [EnvelopeD \<lparr>env_seq = Suc (st_seq st), env_session = sid, env_ts = now, env_turn = turn,
                     env_data = data, env_raw = None\<rparr>]\<rparr>"

text \<open>
  The end of the append at the head of the write queue: it is in the spill, or it is not. On a
  failure the first time, the session's storage has failed and the ring is dropped; the
  session's own part of that is the machine's.
\<close>

definition append_ok :: "stream \<Rightarrow> stream" where
  "append_ok st =
     (case st_queue st of
        [] \<Rightarrow> st
      | e # q \<Rightarrow> st\<lparr>st_spill := st_spill st @ [e], st_queue := q\<rparr>)"

definition append_failed :: "stream \<Rightarrow> stream" where
  "append_failed st = st\<lparr>st_failed := True, st_ring := drop_ring (st_ring st)\<rparr>"

definition append_done :: "stream \<Rightarrow> stream" where
  "append_done st = st\<lparr>st_queue := tl (st_queue st)\<rparr>"

section \<open>Invariant of the stream\<close>

fun envelopes :: "delivery list \<Rightarrow> envelope list" where
  "envelopes [] = []"
| "envelopes (EnvelopeD e # ds) = e # envelopes ds"
| "envelopes (FrameD f # ds) = envelopes ds"

lemma envelopes_append [simp]: "envelopes (xs @ ys) = envelopes xs @ envelopes ys"
  by (induction xs rule: envelopes.induct) auto

text \<open>
  From a start at \<open>n\<close>: the envelopes delivered count up from \<open>n\<close> to the current number without
  a gap; while the storage holds, the spill followed by the queue is exactly what was
  delivered, and the ring is its newest part; afterwards the ring is empty and spill and queue
  still only hold delivered envelopes in order.
\<close>

definition stream_inv :: "nat \<Rightarrow> nat \<Rightarrow> stream \<Rightarrow> bool" where
  "stream_inv capacity n st =
     (contiguous_from n (envelopes (st_delivered st))
      \<and> st_seq st = n + length (envelopes (st_delivered st))
      \<and> (\<not> st_failed st \<longrightarrow>
           st_spill st @ st_queue st = envelopes (st_delivered st)
           \<and> st_ring st = foldl (mem_push_ring capacity) [] (envelopes (st_delivered st)))
      \<and> (st_failed st \<longrightarrow> st_ring st = [])
      \<and> subseq (st_spill st @ st_queue st) (envelopes (st_delivered st)))"

lemma stream_inv_new: "stream_inv capacity n (new_stream n)"
  by (simp add: stream_inv_def new_stream_def)

lemma subseq_snoc_same: "subseq (xs @ ys) zs \<Longrightarrow> subseq (xs @ ys @ [z]) (zs @ [z])"
  using list_emb_append_mono [of "(=)" "xs @ ys" zs "[z]" "[z]"] by simp

lemma subseq_snoc: "subseq xs zs \<Longrightarrow> subseq xs (zs @ [z])"
  using list_emb_append2 by blast

lemma stream_inv_emit:
  "stream_inv capacity n st \<Longrightarrow> stream_inv capacity n (fst (emit_stream capacity sid now turn data raw st))"
  by (auto simp: stream_inv_def emit_stream_def Let_def subseq_snoc_same)

lemma stream_inv_frame:
  "stream_inv capacity n st \<Longrightarrow> stream_inv capacity n (emit_frame sid now turn data raw st)"
  by (simp add: stream_inv_def emit_frame_def)

lemma stream_inv_deliver_direct:
  "stream_inv capacity n st \<Longrightarrow> st_failed st \<Longrightarrow> stream_inv capacity n (deliver_direct sid now turn data st)"
  by (auto simp: stream_inv_def deliver_direct_def subseq_snoc)

lemma stream_inv_append_ok: "stream_inv capacity n st \<Longrightarrow> stream_inv capacity n (append_ok st)"
  by (auto simp: stream_inv_def append_ok_def split: list.splits)

lemma stream_inv_append_failed: "stream_inv capacity n st \<Longrightarrow> stream_inv capacity n (append_failed st)"
  by (auto simp: stream_inv_def append_failed_def drop_ring_def)

lemma subseq_tl_mid: "subseq (xs @ ys) zs \<Longrightarrow> subseq (xs @ tl ys) zs"
  by (metis append_Nil list.exhaust_sel subseq_append' subseq_order.trans subseq_Cons' tl_Nil
      list_emb_append_mono subseq_order.order_refl list_emb_Cons)

lemma stream_inv_append_done:
  "stream_inv capacity n st \<Longrightarrow> st_failed st \<Longrightarrow> stream_inv capacity n (append_done st)"
  by (auto simp: stream_inv_def append_done_def subseq_tl_mid)

lemma stream_inv_failed_mono:
  "st_failed (fst (emit_stream capacity sid now turn data raw st)) = st_failed st"
  "st_failed (emit_frame sid now turn data raw st) = st_failed st"
  "st_failed (deliver_direct sid now turn data st) = st_failed st"
  "st_failed (append_ok st) = st_failed st"
  "st_failed (append_done st) = st_failed st"
  by (simp_all add: emit_stream_def emit_frame_def deliver_direct_def append_ok_def append_done_def Let_def
      split: list.splits)

section \<open>Properties\<close>

text \<open>
  While nothing is missing from the ring's range, a subscriber that resumes from the ring
  receives exactly the envelopes of the whole history that follow its resume point, and when a
  non-empty ring refuses, the very next envelope the subscriber needs is indeed not in it.
  This holds of the ring of both storage backends, which agree.
\<close>

theorem ring_replay_exact:
  assumes "contiguous_from n es" and "n \<le> after"
  shows "(case read_ring_after (foldl (mem_push_ring capacity) [] es) after of
      Some out \<Rightarrow> out = filter (\<lambda>e. after < env_seq e) es
    | None \<Rightarrow> foldl (mem_push_ring capacity) [] es = []
        \<or> (\<exists>e \<in> set es. env_seq e = Suc after \<and> e \<notin> set (foldl (mem_push_ring capacity) [] es)))
    \<and> foldl (fs_push_ring capacity) [] es = foldl (mem_push_ring capacity) [] es"
proof
  show "case read_ring_after (foldl (mem_push_ring capacity) [] es) after of
      Some out \<Rightarrow> out = filter (\<lambda>e. after < env_seq e) es
    | None \<Rightarrow> foldl (mem_push_ring capacity) [] es = []
        \<or> (\<exists>e \<in> set es. env_seq e = Suc after \<and> e \<notin> set (foldl (mem_push_ring capacity) [] es))"
  proof (cases "read_ring_after (foldl (mem_push_ring capacity) [] es) after")
    case None
    then show ?thesis
      using mem_ring.ring_refuses_gap [OF assms(1) None assms(2)]
      by (simp only: option.case) blast
  next
    case (Some out)
    then show ?thesis
      using mem_ring.ring_serves_history [OF assms(1) Some assms(2)] by simp
  qed
  show "foldl (fs_push_ring capacity) [] es = foldl (mem_push_ring capacity) [] es"
  proof (induction es rule: rev_induct)
    case Nil
    then show ?case by simp
  next
    case (snoc e es)
    then show ?case
      using mem_ring.ring_of_history [of capacity es] rings_agree by simp
  qed
qed

definition example_envelope :: "nat \<Rightarrow> envelope" where
  "example_envelope k = \<lparr>env_seq = k, env_session = ''s'', env_ts = 0, env_turn = None,
     env_data = SessionNotice Info Compaction ''c'', env_raw = None\<rparr>"

theorem ring_replay_exact_witness:
  "read_ring_after (foldl (mem_push_ring 2) [] (map example_envelope [1, 2, 3])) 1
     = Some (map example_envelope [2, 3])
   \<and> filter (\<lambda>e. 1 < env_seq e) (map example_envelope [1, 2, 3]) = map example_envelope [2, 3]"
proof -
  have c: "contiguous_from 0 (map example_envelope [1, 2, 3])"
    by (auto simp: contiguous_from_tl example_envelope_def)
  have "\<exists>out. read_ring_after (foldl (mem_push_ring 2) [] (map example_envelope [1, 2, 3])) 1 = Some out"
    by (simp add: read_ring_after_def mem_push_ring_def example_envelope_def)
  with ring_replay_exact [OF c, of 1 2] show ?thesis
    by (auto simp: example_envelope_def)
qed

end
