(* ===== verification/Append_Log.thy ===== *)
theory Append_Log
  imports Vocabulary
begin

text \<open>
  \<open>src/agent-console/process/append-log.ts\<close> and \<open>fs-ledger.ts\<close>: the append-only logs of one
  JSON value a line, the fold that keeps the latest line of each identifier, and the process
  ledger that is read with it at boot.

  A file is its text. \<open>JSON.parse\<close> and \<open>JSON.stringify\<close> are the parameters \<open>parse\<close> and
  \<open>render\<close>: \<open>parse line\<close> is \<open>None\<close> where \<open>JSON.parse\<close> throws. What the code relies on is that a
  rendered value is one line and parses back.
\<close>

section \<open>Lines of a text\<close>

definition newline :: char where
  "newline = CHR 0x0A"

datatype file_read = FileText string | FileMissing | FileFailed string

definition read_all_lines :: "string \<Rightarrow> file_read \<Rightarrow> (store_error, string list) result" where
  "read_all_lines path r =
     (case r of
        FileText raw \<Rightarrow> Inr (filter (\<lambda>l. l \<noteq> []) (split_on newline raw))
      | FileMissing \<Rightarrow> Inr []
      | FileFailed detail \<Rightarrow> Inl (Io path detail))"

definition append_line :: "string \<Rightarrow> string \<Rightarrow> string" where
  "append_line line raw = raw @ line @ [newline]"

text \<open>The lines of a log: what \<open>readAllLines\<close> finds after appending to a text that ends a line.\<close>

definition log_text :: "string list \<Rightarrow> string" where
  "log_text ls = fold append_line ls []"

lemma log_text_snoc: "log_text (ls @ [l]) = log_text ls @ l @ [newline]"
  by (simp add: log_text_def append_line_def)

lemma log_text_concat: "log_text ls = concat (map (\<lambda>l. l @ [newline]) ls)"
  by (induction ls rule: rev_induct) (simp_all add: log_text_snoc, simp add: log_text_def)

lemma split_log_text:
  "list_all (\<lambda>l. newline \<notin> set l) ls \<Longrightarrow> split_on newline (log_text ls @ rest) = ls @ split_on newline rest"
  unfolding log_text_concat by (induction ls) (simp_all add: split_on_line)

lemma read_log_text:
  assumes "list_all (\<lambda>l. newline \<notin> set l \<and> l \<noteq> []) ls"
  shows "read_all_lines path (FileText (log_text ls)) = Inr ls"
proof -
  from assms have "list_all (\<lambda>l. newline \<notin> set l) ls" "filter (\<lambda>l. l \<noteq> []) ls = ls"
    by (auto simp: list_all_iff filter_id_conv)
  then show ?thesis
    using split_log_text [of ls "[]"] by (simp add: read_all_lines_def)
qed

section \<open>The fold\<close>

text \<open>
  \<open>foldLatestById\<close>. \<open>key\<close> reads the identifier of a parsed line as \<open>String(id)\<close>; it is \<open>None\<close>
  when the field is missing or null. The second component counts the dropped lines and the
  third is the number of the first of them, as the warning says.
\<close>

type_synonym 'v folded = "(string, 'v) jmap \<times> nat \<times> nat"

definition line_entry :: "(string \<Rightarrow> 'v option) \<Rightarrow> ('v \<Rightarrow> string option) \<Rightarrow> string \<Rightarrow> (string \<times> 'v) option" where
  "line_entry parse key line =
     (case parse line of
        None \<Rightarrow> None
      | Some v \<Rightarrow> (case key v of None \<Rightarrow> None | Some k \<Rightarrow> Some (k, v)))"

definition fold_line ::
  "(string \<Rightarrow> 'v option) \<Rightarrow> ('v \<Rightarrow> string option) \<Rightarrow> bool \<Rightarrow> nat \<times> string \<Rightarrow> 'v folded \<Rightarrow> 'v folded" where
  "fold_line parse key reorder nl acc =
     (case (nl, acc) of
        ((index, line), (byId, dropped, firstDropped)) \<Rightarrow>
          (case line_entry parse key line of
             None \<Rightarrow> (byId, Suc dropped, if dropped = 0 then Suc index else firstDropped)
           | Some (k, v) \<Rightarrow>
               (jset (if reorder then jdel byId k else byId) k v, dropped, firstDropped)))"

definition fold_lines ::
  "(string \<Rightarrow> 'v option) \<Rightarrow> ('v \<Rightarrow> string option) \<Rightarrow> bool \<Rightarrow> string list \<Rightarrow> 'v folded" where
  "fold_lines parse key reorder ls = fold (fold_line parse key reorder) (enumerate 0 ls) ([], 0, 0)"

definition fold_latest_by_id ::
  "(string \<Rightarrow> 'v option) \<Rightarrow> ('v \<Rightarrow> string option) \<Rightarrow> bool \<Rightarrow> string \<Rightarrow> file_read \<Rightarrow> 'v list" where
  "fold_latest_by_id parse key reorder path r =
     (case read_all_lines path r of
        Inl _ \<Rightarrow> []
      | Inr ls \<Rightarrow> jvals (fst (fold_lines parse key reorder ls)))"

text \<open>The lines that count, and the numbers of those that do not.\<close>

definition entries :: "(string \<Rightarrow> 'v option) \<Rightarrow> ('v \<Rightarrow> string option) \<Rightarrow> string list \<Rightarrow> (string \<times> 'v) list" where
  "entries parse key ls = List.map_filter (line_entry parse key) ls"

definition bad_lines :: "(string \<Rightarrow> 'v option) \<Rightarrow> ('v \<Rightarrow> string option) \<Rightarrow> string list \<Rightarrow> nat list" where
  "bad_lines parse key ls =
     filter (\<lambda>i. line_entry parse key (ls ! (i - 1)) = None) [1 ..< Suc (length ls)]"

text \<open>
  The abstract log: keys in the order of their first line, or, reordered, of their last; under
  each the value of its last line.
\<close>

definition log_keys :: "bool \<Rightarrow> string list \<Rightarrow> string list" where
  "log_keys reorder ks = (if reorder then remdups ks else rev (remdups (rev ks)))"

lemma fold_lines_snoc:
  "fold_lines parse key reorder (ls @ [l]) =
   fold_line parse key reorder (length ls, l) (fold_lines parse key reorder ls)"
  by (simp add: fold_lines_def enumerate_append_eq)

lemma entries_snoc:
  "entries parse key (ls @ [l]) =
   entries parse key ls @ (case line_entry parse key l of None \<Rightarrow> [] | Some e \<Rightarrow> [e])"
  by (simp add: entries_def List.map_filter_def split: option.splits)

lemma bad_lines_snoc:
  "bad_lines parse key (ls @ [l]) =
   bad_lines parse key ls @ (if line_entry parse key l = None then [Suc (length ls)] else [])"
  by (auto simp: bad_lines_def nth_append intro!: filter_cong)

lemma jset_keys:
  "map fst (jset m k v) = (if k \<in> set (map fst m) then map fst m else map fst m @ [k])"
  unfolding jset_def by (induction m) auto

lemma jdel_keys: "map fst (jdel m k) = filter (\<lambda>x. x \<noteq> k) (map fst m)"
  by (induction m) (auto simp: jdel_def)

lemma remdups_snoc_last: "remdups (ks @ [k]) = filter (\<lambda>x. x \<noteq> k) (remdups ks) @ [k]"
  by (induction ks) auto

lemma fold_lines_exact:
  "fold_lines parse key reorder ls = (m, dropped, first) \<Longrightarrow>
   (\<forall>k. jget m k = map_of (rev (entries parse key ls)) k)
   \<and> map fst m = log_keys reorder (map fst (entries parse key ls))
   \<and> dropped = length (bad_lines parse key ls)
   \<and> first = (case bad_lines parse key ls of [] \<Rightarrow> 0 | i # _ \<Rightarrow> i)"
proof (induction ls arbitrary: m dropped first rule: rev_induct)
  case Nil
  then show ?case
    by (simp add: fold_lines_def entries_def bad_lines_def log_keys_def List.map_filter_def)
next
  case (snoc l ls)
  obtain m' d' f' where prev: "fold_lines parse key reorder ls = (m', d', f')"
    by (cases "fold_lines parse key reorder ls") auto
  note IH = snoc.IH [OF prev]
  from snoc.prems prev have step: "fold_line parse key reorder (length ls, l) (m', d', f') = (m, dropped, first)"
    by (simp add: fold_lines_snoc)
  show ?case
  proof (cases "line_entry parse key l")
    case None
    with step IH show ?thesis
      by (auto simp: fold_line_def entries_snoc bad_lines_snoc split: list.splits)
  next
    case (Some e)
    then obtain k v where e: "line_entry parse key l = Some (k, v)" by (cases e) auto
    with step have m: "m = jset (if reorder then jdel m' k else m') k v" "dropped = d'" "first = f'"
      by (auto simp: fold_line_def)
    let ?ks = "map fst (entries parse key ls)"
    from IH have keys: "map fst m' = log_keys reorder ?ks" by blast
    have "map fst m = log_keys reorder (?ks @ [k])"
      using keys by (cases reorder) (auto simp: m jset_keys jdel_keys log_keys_def remdups_snoc_last)
    moreover have "jget m x = map_of (rev (entries parse key ls @ [(k, v)])) x" for x
      using IH by (cases reorder) (auto simp: m jget_jset jget_jdel)
    ultimately show ?thesis
      using IH m e by (simp add: entries_snoc bad_lines_snoc)
  qed
qed

text \<open>
  The fold of an append-only log keeps, for every identifier, the value of its latest
  line and no other; the identifiers come in the order of their first line, or in the order of
  their latest line where the caller asks to reorder; a line that does not parse or has no
  identifier changes nothing, and the warning counts exactly those lines and names the first.
\<close>

theorem fold_keeps_latest:
  "case fold_lines parse key reorder ls of (m, dropped, first) \<Rightarrow>
     (\<forall>k. jget m k = map_of (rev (entries parse key ls)) k)
     \<and> map fst m = log_keys reorder (map fst (entries parse key ls))
     \<and> dropped = length (bad_lines parse key ls)
     \<and> first = (case bad_lines parse key ls of [] \<Rightarrow> 0 | i # _ \<Rightarrow> i)"
  by (cases "fold_lines parse key reorder ls") (simp add: fold_lines_exact)

section \<open>The process ledger\<close>

text \<open>
  \<open>createFsProcessLedger\<close>: a spawn writes the whole record, an exit only the pid and the time
  (D95). Reading folds the file by pid; what has a null \<open>exitedAt\<close> is open, and only a spawn
  line has one.
\<close>

datatype pid_line = SpawnLine process_record | ExitLine int iso_timestamp

fun pid_of :: "pid_line \<Rightarrow> int" where
  "pid_of (SpawnLine r) = pc_pid r"
| "pid_of (ExitLine pid _) = pid"

definition pid_key :: "pid_line \<Rightarrow> string option" where
  "pid_key l = Some (decimal (pid_of l))"

fun open_record :: "pid_line \<Rightarrow> process_record option" where
  "open_record (SpawnLine r) = (if pc_exited_at r = None then Some r else None)"
| "open_record (ExitLine _ _) = None"

definition append_pid :: "(pid_line \<Rightarrow> string) \<Rightarrow> process_record \<Rightarrow> string \<Rightarrow> string" where
  "append_pid render r raw = append_line (render (SpawnLine r)) raw"

definition tombstone_pid :: "(pid_line \<Rightarrow> string) \<Rightarrow> int \<Rightarrow> iso_timestamp \<Rightarrow> string \<Rightarrow> string" where
  "tombstone_pid render pid exited_at raw = append_line (render (ExitLine pid exited_at)) raw"

definition read_open_pids :: "(string \<Rightarrow> pid_line option) \<Rightarrow> string \<Rightarrow> file_read \<Rightarrow> process_record list" where
  "read_open_pids parse path r = List.map_filter open_record (fold_latest_by_id parse pid_key False path r)"

text \<open>The ledger as its callers drive it.\<close>

fun ledger_op :: "(pid_line \<Rightarrow> string) \<Rightarrow> pid_line \<Rightarrow> string \<Rightarrow> string" where
  "ledger_op render (SpawnLine r) raw = append_pid render r raw"
| "ledger_op render (ExitLine pid t) raw = tombstone_pid render pid t raw"

definition ledger_text :: "(pid_line \<Rightarrow> string) \<Rightarrow> pid_line list \<Rightarrow> string" where
  "ledger_text render ls = fold (ledger_op render) ls []"

lemma ledger_text_log: "ledger_text render ls = log_text (map render ls)"
proof -
  have "ledger_op render = append_line \<circ> render"
  proof (intro ext)
    fix l raw
    show "ledger_op render l raw = (append_line \<circ> render) l raw"
      by (cases l) (simp_all add: append_pid_def tombstone_pid_def)
  qed
  then show ?thesis
    by (simp add: ledger_text_def log_text_def fold_map)
qed

text \<open>What the ledger relies on in \<open>JSON\<close>.\<close>

definition renders :: "(string \<Rightarrow> 'v option) \<Rightarrow> ('v \<Rightarrow> string) \<Rightarrow> 'v list \<Rightarrow> bool" where
  "renders parse render vs =
     list_all (\<lambda>v. parse (render v) = Some v \<and> newline \<notin> set (render v) \<and> render v \<noteq> []) vs"

lemma entries_rendered:
  "renders parse render vs \<Longrightarrow>
   entries parse key (map render vs) = List.map_filter (\<lambda>v. map_option (\<lambda>k. (k, v)) (key v)) vs"
  by (induction vs)
    (auto simp: renders_def entries_def line_entry_def List.map_filter_def split: option.splits)

lemma find_rev_Some:
  "find P (rev xs) = Some x \<longleftrightarrow> (\<exists>ys zs. xs = ys @ x # zs \<and> P x \<and> (\<forall>z \<in> set zs. \<not> P z))"
proof (induction xs rule: rev_induct)
  case Nil
  then show ?case by simp
next
  case (snoc y xs)
  show ?case
  proof (cases "P y")
    case True
    show ?thesis
    proof
      assume "find P (rev (xs @ [y])) = Some x"
      with True show "\<exists>ys zs. xs @ [y] = ys @ x # zs \<and> P x \<and> (\<forall>z \<in> set zs. \<not> P z)"
        by (intro exI [of _ xs] exI [of _ "[]"]) simp
    next
      assume "\<exists>ys zs. xs @ [y] = ys @ x # zs \<and> P x \<and> (\<forall>z \<in> set zs. \<not> P z)"
      then obtain ys zs where h: "xs @ [y] = ys @ x # zs" "\<forall>z \<in> set zs. \<not> P z" by blast
      with True have "x = y" by (cases zs rule: rev_cases) auto
      with True show "find P (rev (xs @ [y])) = Some x" by simp
    qed
  next
    case False
    have "(\<exists>ys zs. xs @ [y] = ys @ x # zs \<and> P x \<and> (\<forall>z \<in> set zs. \<not> P z))
          \<longleftrightarrow> (\<exists>ys zs. xs = ys @ x # zs \<and> P x \<and> (\<forall>z \<in> set zs. \<not> P z))" (is "?l = ?r")
    proof
      assume ?l
      then obtain ys zs where h: "xs @ [y] = ys @ x # zs" "P x" "\<forall>z \<in> set zs. \<not> P z" by blast
      with False show ?r by (cases zs rule: rev_cases) auto
    next
      assume ?r
      then obtain ys zs where "xs = ys @ x # zs" "P x" "\<forall>z \<in> set zs. \<not> P z" by blast
      with False show ?l by (intro exI [of _ ys] exI [of _ "zs @ [y]"]) auto
    qed
    with False snoc show ?thesis by simp
  qed
qed

lemma map_of_keyed: "map_of (rev (map (\<lambda>v. (f v, v)) vs)) k = find (\<lambda>v. f v = k) (rev vs)"
proof -
  have "map_of (map (\<lambda>v. (f v, v)) ws) k = find (\<lambda>v. f v = k) ws" for ws
    by (induction ws) auto
  then show ?thesis by (simp add: rev_map)
qed

lemma fold_latest_rendered:
  assumes "renders parse render vs"
  shows "set (fold_latest_by_id parse (\<lambda>v. Some (f v)) reorder path (FileText (log_text (map render vs))))
         = {v. \<exists>k. find (\<lambda>v. f v = k) (rev vs) = Some v}"
proof -
  let ?ls = "map render vs"
  obtain m d n where m: "fold_lines parse (\<lambda>v. Some (f v)) reorder ?ls = (m, d, n)"
    by (cases "fold_lines parse (\<lambda>v. Some (f v)) reorder ?ls") auto
  have e: "entries parse (\<lambda>v. Some (f v)) ?ls = map (\<lambda>v. (f v, v)) vs"
    using entries_rendered [OF assms, of "\<lambda>v. Some (f v)"] by (simp add: List.map_filter_def)
  note fold = fold_lines_exact [OF m, unfolded e]
  have "jmap_ok m"
    using fold by (cases reorder) (auto simp: jmap_ok_def log_keys_def)
  then have "v \<in> set (jvals m) \<longleftrightarrow> (\<exists>k. jget m k = Some v)" for v
    using in_set_jget [of m] by (force simp: jvals_def)
  moreover from assms have "list_all (\<lambda>l. newline \<notin> set l \<and> l \<noteq> []) ?ls"
    by (auto simp: renders_def list_all_iff)
  ultimately show ?thesis
    using fold by (auto simp: fold_latest_by_id_def read_log_text m map_of_keyed)
qed

text \<open>A record is open in a list of ledger lines when no later line names its pid.\<close>

definition open_in :: "pid_line list \<Rightarrow> process_record \<Rightarrow> bool" where
  "open_in ls r =
     (pc_exited_at r = None
      \<and> (\<exists>before after. ls = before @ SpawnLine r # after \<and> (\<forall>l \<in> set after. pid_of l \<noteq> pc_pid r)))"

lemma open_pids_set:
  assumes "renders parse render ls"
  shows "set (read_open_pids parse path (FileText (ledger_text render ls))) =
         {r. open_in ls r}"
proof -
  have key: "pid_key = (\<lambda>l. Some (decimal (pid_of l)))"
    by (simp add: fun_eq_iff pid_key_def)
  have opn: "open_record l = Some r \<longleftrightarrow> l = SpawnLine r \<and> pc_exited_at r = None" for l r
    by (cases l) auto
  have mf: "set (List.map_filter f xs) = {y. \<exists>x \<in> set xs. f x = Some y}" for f :: "pid_line \<Rightarrow> process_record option" and xs
    by (force simp: List.map_filter_def)
  show ?thesis
    unfolding read_open_pids_def ledger_text_log key mf fold_latest_rendered [OF assms]
    by (auto simp: open_in_def opn find_rev_Some)
qed

text \<open>
  A process ledger whose lines all parse, read back at boot, lists exactly the open spawn
  records that no later line of the same pid follows: a child whose exit was written is never
  listed, one whose exit was not always is, and a pid used again is listed with its latest
  spawn.
\<close>

theorem ledger_lists_open_children:
  assumes "renders parse render ls"
  shows "set (read_open_pids parse path (FileText (ledger_text render ls))) =
         {r. pc_exited_at r = None
             \<and> (\<exists>before after. ls = before @ SpawnLine r # after
                  \<and> (\<forall>l \<in> set after. pid_of l \<noteq> pc_pid r))}"
  using open_pids_set [OF assms, of path] by (simp add: open_in_def)

text \<open>A record spawned, one ended and one whose pid is used again.\<close>

definition example_process :: "int \<Rightarrow> string \<Rightarrow> process_record" where
  "example_process pid turn =
     \<lparr>pc_pid = pid, pc_pgid = Some pid, pc_session = ''s'', pc_turn = turn, pc_hostname = Some ''h'',
      pc_started_at = 1, pc_image = ''claude'', pc_os_created_at = Some 1, pc_exited_at = None\<rparr>"

definition example_ledger :: "pid_line list" where
  "example_ledger =
     [SpawnLine (example_process 7 ''t1''), SpawnLine (example_process 8 ''t2''), ExitLine 7 5,
      SpawnLine (example_process 7 ''t3''), ExitLine 8 6]"

definition table_render :: "'v list \<Rightarrow> 'v \<Rightarrow> string" where
  "table_render vs v = decimal_nat (length (takeWhile (\<lambda>w. w \<noteq> v) vs))"

definition table_parse :: "'v list \<Rightarrow> string \<Rightarrow> 'v option" where
  "table_parse vs line = find (\<lambda>v. table_render vs v = line) vs"

theorem ledger_lists_open_children_witness:
  "set (read_open_pids (table_parse example_ledger) ''pids.ndjson''
     (FileText (ledger_text (table_render example_ledger) example_ledger)))
   = {example_process 7 ''t3''}"
proof -
  have "renders (table_parse example_ledger) (table_render example_ledger) example_ledger"
    by code_simp
  note ledger_lists_open_children [OF this, of "''pids.ndjson''"]
  also have "{r. pc_exited_at r = None
             \<and> (\<exists>before after. example_ledger = before @ SpawnLine r # after
                  \<and> (\<forall>l \<in> set after. pid_of l \<noteq> pc_pid r))} = {example_process 7 ''t3''}"
    by (auto simp: example_ledger_def example_process_def Cons_eq_append_conv)
  finally show ?thesis .
qed

text \<open>
  A crash in the middle of an append leaves a line without its end. The next record is
  written right behind it, on the same line, so that line no longer parses and the fold drops
  it: a child spawned after the crash is not listed however well its own append went.
\<close>

theorem torn_line_swallows_next:
  assumes "newline \<notin> set torn" and "render (SpawnLine r) \<noteq> []" and "newline \<notin> set (render (SpawnLine r))"
    and "parse (torn @ render (SpawnLine r)) = None"
  shows "read_open_pids parse path (FileText (append_pid render r torn)) = []"
proof -
  have "split_on newline (append_pid render r torn) = [torn @ render (SpawnLine r), []]"
    using split_on_line [of newline "torn @ render (SpawnLine r)" "[]"] assms
    by (simp add: append_pid_def append_line_def)
  with assms show ?thesis
    by (simp add: read_open_pids_def fold_latest_by_id_def read_all_lines_def fold_lines_def
        fold_line_def line_entry_def jvals_def List.map_filter_def)
qed

theorem torn_line_swallows_next_witness:
  "read_open_pids (table_parse example_ledger) ''pids.ndjson''
     (FileText (append_pid (table_render example_ledger) (example_process 7 ''t1'') ''{'')) = []"
  by (rule torn_line_swallows_next) code_simp+

end
