(* ===== verification/Session_Machine.thy ===== *)
theory Session_Machine
  imports Event_Stream Standing_Rules Truncation Workspaces
begin

text \<open>
  One session of \<open>createSessionCore\<close> (\<open>src/agent-console/core/index.ts\<close>) on the event loop. The
  state is the code's \<open>SessionEntry\<close>, with the parts of the runtime's shared state the session
  touches. A method or handler is cut at its \<open>await\<close>s: what runs in one tick is one definition
  here, and what is left to do is a \<open>task\<close> that a later tick resumes with the outcome it waited
  for. \<open>step\<close> takes one tick; every interleaving of ticks is a list of events.

  A tick happens at one instant \<open>now\<close>. Identifiers the code draws at random are arguments of
  the event, and a turn identifier must be new. The answers of the store, the adapter, the
  checkpoint port and git are outcomes carried by the event that resumes the task.
\<close>

section \<open>State\<close>

record config =
  cf_caps :: caps
  cf_include_raw :: bool
  cf_output :: output_policy
  cf_hostname :: string
  cf_windows :: bool

text \<open>What is remembered of an answer between its claim and its resolution (D218).\<close>

record flying_answer =
  fa_tool :: string
  fa_input :: json

text \<open>
  A turn object outlives the slot it was claimed for: a continuation may hold it. The in-flight
  answers are the \<open>inFlightAnswers\<close> entry of that object.
\<close>

record turn_object =
  to_turn :: turn
  to_flying :: "(request_id, flying_answer) jmap"

type_synonym failure = "string session_error"

datatype reply =
    SendReply "(failure, turn_id) result"
  | AnswerReply "(failure, permission_resolved option) result"
  | UnitReply "(failure, unit) result"
  | AppendReply "(failure, envelope) result"
  | RestoreReply "(failure, checkpoint) result"
  | Thrown string

text \<open>
  The calls the session made on the outside, in order. An audit append is logged when its
  outcome arrives, with the turn and the request it was for.
\<close>

datatype call =
    CallAudit turn_id request_id audit_record bool
  | CallRespond turn_id request_id permission_decision "string option" bool
  | CallSend turn_id string "attachment_ref list" "cli_session_id option" "string option"
  | CallKill
  | CallKillTree int "int option"
  | CallWriteMeta session_record
  | CallAppendPid process_record
  | CallTombstone int
  | CallWriteAttachment turn_id attachment_ref "byte list"
  | CallRemoveAttachments turn_id
  | CallWriteToolOutput turn_id call_id "byte list"
  | CallRestore git_sha
  | CallDestroyStorage
  | CallCloseSubscribers

record send_call =
  sd_turn :: turn_id
  sd_text :: string
  sd_payloads :: "(attachment_ref \<times> byte list) list"
  sd_model :: "string option"

text \<open>
  One resolution on its way through \<open>finalizeResolution\<close>: an operator's answer, which is owed a
  reply, or an automatic approval.
\<close>

record finalization =
  fz_turn :: turn_id
  fz_request :: request_id
  fz_record :: audit_record
  fz_success :: permission_resolved
  fz_rule :: "string option"
  fz_reason :: "string option"
  fz_answer :: bool

datatype task =
    SendWrites send_call
  | SendUnwritten send_call store_error
  | SendCheckpoint send_call
  | SendCheckpointed send_call
  | SendStarted send_call
  | SendMessaged send_call
  | SendNoticed send_call
  | SendGone send_call
  | SendSent send_call
  | SendFailReported send_call adapter_error
  | SendFailKilled send_call adapter_error
  | SendFailEnded send_call adapter_error
  | Finalize finalization
  | FinalCancel finalization bool "nat option"
  | FinalCancelled finalization bool bool
  | FinalCancelNoticed finalization bool
  | FinalResolved finalization permission_resolved bool
  | FinalNoticed finalization permission_resolved
  | SweepAudits turn_id "(request_id \<times> audit_record) list"
  | Preapprove turn_id permission_request string
  | CliAnnounced
  | SpawnRead turn_id int "int option" string
  | Interrupted
  | EndMeta
  | EndEmitted
  | RemoveDrain
  | RemoveFlushed
  | RemoveStorage
  | Renamed
  | ReassignMeta session_record
  | RestoreRun git_sha
  | RestoreReported git_sha checkpoint_error
  | RestoreList git_sha checkpoint_error
  | RestoreFailed checkpoint_error
  | RestoreOk checkpoint
  | Appended "envelope option"
  | ShutdownKill "int option"
  | FailMeta "turn_id option"
  | FailAudits turn_id "(request_id \<times> audit_record) list"
  | FailKilled

datatype outcome =
    Woken
  | StoreDone "(store_error, unit) result"
  | WritesDone "(store_error, unit) result list"
  | CheckpointDone "(checkpoint_error, git_sha \<times> string) result"
  | SendDone "(adapter_error, unit) result"
  | AuditDone "(store_error, unit) result" "(adapter_error, unit) result"
  | AuditsDone "(store_error, unit) result list"
  | CreatedAtDone "iso_timestamp option"
  | DestroyDone "(checkpoint_error, unit) result" "(store_error, unit) result"
  | RestoreDone "(checkpoint_error, checkpoint) result"
  | ListDone "(checkpoint_error, checkpoint list) result"

text \<open>
  The entry. A task's first component is the sequence number whose append it awaits; the task
  is ready once that append has left the write queue.
\<close>

record sess =
  se_registered :: bool
  se_record :: session_record
  se_creating :: bool
  se_operation :: "turn_id option"
  se_accepts :: bool
  se_turn :: "turn_id option"
  se_turns :: "(turn_id, turn_object) jmap"
  se_stream :: stream
  se_first_turn_announced :: bool
  se_has_run_a_turn :: bool
  se_checkpoints_available :: bool
  se_rules :: "string list"
  se_live_pid :: "int option"
  se_tool_writes :: nat
  se_muted :: bool
  se_alloc :: reservations
  se_uploads :: uploads
  se_tasks :: "(nat option \<times> task) list"
  se_calls :: "call list"
  se_replies :: "reply list"

section \<open>Elementary updates\<close>

definition sid :: "sess \<Rightarrow> session_id" where
  "sid s = sr_id (se_record s)"

definition failed :: "sess \<Rightarrow> bool" where
  "failed s = st_failed (se_stream s)"

definition call :: "call \<Rightarrow> sess \<Rightarrow> sess" where
  "call c s = s\<lparr>se_calls := se_calls s @ [c]\<rparr>"

definition reply :: "reply \<Rightarrow> sess \<Rightarrow> sess" where
  "reply r s = s\<lparr>se_replies := se_replies s @ [r]\<rparr>"

definition post :: "nat option \<Rightarrow> task \<Rightarrow> sess \<Rightarrow> sess" where
  "post w t s = s\<lparr>se_tasks := se_tasks s @ [(w, t)]\<rparr>"

definition turn_object_of :: "sess \<Rightarrow> turn_id \<Rightarrow> turn_object" where
  "turn_object_of s t =
     (case jget (se_turns s) t of
        Some x \<Rightarrow> x
      | None \<Rightarrow> \<lparr>to_turn = \<lparr>tn_id = t, tn_phase = Starting, tn_started_at = 0, tn_pending = []\<rparr>, to_flying = []\<rparr>)"

definition pending_of :: "sess \<Rightarrow> turn_id \<Rightarrow> (request_id, pending_permission) jmap" where
  "pending_of s t = tn_pending (to_turn (turn_object_of s t))"

definition flying_of :: "sess \<Rightarrow> turn_id \<Rightarrow> (request_id, flying_answer) jmap" where
  "flying_of s t = to_flying (turn_object_of s t)"

definition phase_of :: "sess \<Rightarrow> turn_id \<Rightarrow> turn_phase" where
  "phase_of s t = tn_phase (to_turn (turn_object_of s t))"

definition set_object :: "turn_id \<Rightarrow> turn_object \<Rightarrow> sess \<Rightarrow> sess" where
  "set_object t x s = s\<lparr>se_turns := jset (se_turns s) t x\<rparr>"

definition set_pending :: "turn_id \<Rightarrow> (request_id, pending_permission) jmap \<Rightarrow> sess \<Rightarrow> sess" where
  "set_pending t p s =
     (let x = turn_object_of s t in set_object t (x\<lparr>to_turn := (to_turn x)\<lparr>tn_pending := p\<rparr>\<rparr>) s)"

definition set_flying :: "turn_id \<Rightarrow> (request_id, flying_answer) jmap \<Rightarrow> sess \<Rightarrow> sess" where
  "set_flying t p s = set_object t ((turn_object_of s t)\<lparr>to_flying := p\<rparr>) s"

definition set_phase :: "turn_id \<Rightarrow> turn_phase \<Rightarrow> sess \<Rightarrow> sess" where
  "set_phase t p s =
     (let x = turn_object_of s t in set_object t (x\<lparr>to_turn := (to_turn x)\<lparr>tn_phase := p\<rparr>\<rparr>) s)"

definition clear_turn :: "sess \<Rightarrow> sess" where
  "clear_turn s = s\<lparr>se_turn := None, se_live_pid := None\<rparr>"

definition set_operation :: "turn_id option \<Rightarrow> sess \<Rightarrow> sess" where
  "set_operation claim s = s\<lparr>se_operation := claim\<rparr>"

text \<open>
  \<open>emit\<close>, \<open>emitFrame\<close> and \<open>deliverDirect\<close> on the entry: the stream's own operations, and the
  record's \<open>lastSeq\<close>. \<open>emit_then\<close> leaves a task that awaits the append.
\<close>

definition with_stream :: "stream \<Rightarrow> sess \<Rightarrow> sess" where
  "with_stream st s = s\<lparr>se_stream := st, se_record := (se_record s)\<lparr>sr_last_seq := st_seq st\<rparr>\<rparr>"

definition emit :: "config \<Rightarrow> iso_timestamp \<Rightarrow> turn_id option \<Rightarrow> payload \<Rightarrow> raw_value option \<Rightarrow> sess \<Rightarrow> sess" where
  "emit cf now t d raw s =
     (if failed s then s
      else with_stream (fst (emit_stream (ring_capacity (cf_caps cf)) (sid s) now t d
             (if cf_include_raw cf then raw else None) (se_stream s))) s)"

definition emit_wait :: "sess \<Rightarrow> nat option" where
  "emit_wait s = (if failed s then None else Some (Suc (st_seq (se_stream s))))"

definition emit_then ::
  "config \<Rightarrow> iso_timestamp \<Rightarrow> turn_id option \<Rightarrow> payload \<Rightarrow> task \<Rightarrow> sess \<Rightarrow> sess" where
  "emit_then cf now t d k s = post (emit_wait s) k (emit cf now t d None s)"

definition emit_frame_to ::
  "config \<Rightarrow> iso_timestamp \<Rightarrow> turn_id option \<Rightarrow> payload \<Rightarrow> raw_value option \<Rightarrow> sess \<Rightarrow> sess" where
  "emit_frame_to cf now t d raw s =
     s\<lparr>se_stream := emit_frame (sid s) now t d (if cf_include_raw cf then raw else None) (se_stream s)\<rparr>"

definition deliver :: "iso_timestamp \<Rightarrow> turn_id option \<Rightarrow> payload \<Rightarrow> sess \<Rightarrow> sess" where
  "deliver now t d s = with_stream (deliver_direct (sid s) now t d (se_stream s)) s"

definition store_error_detail :: "store_error \<Rightarrow> string" where
  "store_error_detail e =
     (case e of Io _ d \<Rightarrow> d | StoreNotFound _ \<Rightarrow> ''not_found'' | Corrupt _ d \<Rightarrow> d
      | UnsupportedSchemaVersion _ _ \<Rightarrow> ''unsupported_schema_version'')"

text \<open>\<open>checkpointErrorDetail\<close>.\<close>

fun join :: "string \<Rightarrow> string list \<Rightarrow> string" where
  "join sep [] = []"
| "join sep [x] = x"
| "join sep (x # y # ys) = x @ sep @ join sep (y # ys)"

definition checkpoint_error_detail :: "checkpoint_error \<Rightarrow> string" where
  "checkpoint_error_detail e =
     (case e of
        NoSuchCheckpoint sha \<Rightarrow> ''no such checkpoint: '' @ sha
      | IgnoredPathCollision paths \<Rightarrow> ''ignored paths in the way: '' @ join '', '' paths
      | GitUnavailable d \<Rightarrow> d | InitFailed d \<Rightarrow> d | CheckpointLocked d \<Rightarrow> d
      | CommitFailed d \<Rightarrow> d | RestoreIncomplete d \<Rightarrow> d | IgnoredSetUnreadable d \<Rightarrow> d)"

section \<open>Ownership, business and the staging area\<close>

text \<open>\<open>sessions.get(id)\<close> with the owner check every method starts with.\<close>

definition owned :: "principal_id \<Rightarrow> sess \<Rightarrow> bool" where
  "owned owner s = (se_registered s \<and> sr_owner (se_record s) = owner)"

definition ended :: "sess \<Rightarrow> bool" where
  "ended s = (sr_state (se_record s) = Ended)"

text \<open>The \<open>turn_in_flight\<close> errors: under an operation or a creation, and under a turn.\<close>

definition busy_operation :: "sess \<Rightarrow> failure option" where
  "busy_operation s =
     (if se_creating s \<or> se_operation s \<noteq> None
      then Some (TurnInFlight (sid s) (case se_operation s of Some x \<Rightarrow> x | None \<Rightarrow> sid s))
      else None)"

definition busy_turn :: "sess \<Rightarrow> failure option" where
  "busy_turn s = map_option (TurnInFlight (sid s)) (se_turn s)"

definition authorize :: "sess \<Rightarrow> string authorize" where
  "authorize s session owner =
     (if session \<noteq> sid s \<or> \<not> owned owner s then Inl (NotFound session)
      else if ended s then Inl (SessionHasEnded session)
      else if se_creating s \<or> se_operation s \<noteq> None \<or> se_turn s \<noteq> None
      then Inl (TurnInFlight session
             (case se_turn s of Some t \<Rightarrow> t
              | None \<Rightarrow> (case se_operation s of Some x \<Rightarrow> x | None \<Rightarrow> session)))
      else Inr ())"

section \<open>Sending a message\<close>

text \<open>
  \<open>send\<close> up to its first \<open>await\<close>: every refusal, the staged uploads, the claim of the turn
  slot, and the attachment writes it starts. \<open>tid\<close> and \<open>aids\<close> are the fresh identifiers.
\<close>

definition send_refusal :: "config \<Rightarrow> principal_id \<Rightarrow> string list \<Rightarrow> sess \<Rightarrow> failure option" where
  "send_refusal cf owner atts s =
     (if \<not> owned owner s then Some (NotFound (sid s))
      else if ended s then Some (SessionHasEnded (sid s))
      else
        (case busy_operation s of
           Some e \<Rightarrow> Some e
         | None \<Rightarrow>
             (case busy_turn s of
                Some e \<Rightarrow> Some e
              | None \<Rightarrow>
                  if atts \<noteq> [] \<and> \<not> se_accepts s
                  then Some (BadRequest ''attachments'' ''this session's vendor does not accept attachments'')
                  else if attachment_count (cf_caps cf) < length atts
                  then Some (BadRequest ''attachments''
                         (''at most '' @ decimal_nat (attachment_count (cf_caps cf))
                          @ '' attachments are allowed per message''))
                  else None)))"

definition claim_turn :: "iso_timestamp \<Rightarrow> turn_id \<Rightarrow> sess \<Rightarrow> sess" where
  "claim_turn now tid s =
     (set_object tid \<lparr>to_turn = \<lparr>tn_id = tid, tn_phase = Starting, tn_started_at = now, tn_pending = []\<rparr>,
                      to_flying = []\<rparr> s)\<lparr>se_turn := Some tid\<rparr>"

definition payload_of :: "attachment_id \<Rightarrow> upload_metadata \<times> byte list \<Rightarrow> attachment_ref \<times> byte list" where
  "payload_of i m =
     (\<lparr>ar_id = i, ar_filename = um_filename (fst m), ar_media_type = um_media_type (fst m),
       ar_bytes = length (snd m)\<rparr>, snd m)"

definition send_message ::
  "config \<Rightarrow> iso_timestamp \<Rightarrow> principal_id \<Rightarrow> string \<Rightarrow> string list \<Rightarrow> string option
   \<Rightarrow> turn_id \<Rightarrow> attachment_id list \<Rightarrow> sess \<Rightarrow> sess" where
  "send_message cf now owner msg atts model tid aids s =
     (case send_refusal cf owner atts s of
        Some e \<Rightarrow> reply (SendReply (Inl e)) s
      | None \<Rightarrow>
          (case take_uploads (cf_caps cf) (authorize s) now (sid s) owner atts (se_uploads s) of
             (us, Inl e) \<Rightarrow> reply (SendReply (Inl e)) (s\<lparr>se_uploads := us\<rparr>)
           | (us, Inr staged) \<Rightarrow>
               (let c = \<lparr>sd_turn = tid, sd_text = msg, sd_payloads = map2 payload_of aids staged,
                         sd_model = model\<rparr>
                in post None (SendWrites c)
                     (fold (\<lambda>(r, d). call (CallWriteAttachment tid r d)) (sd_payloads c)
                        (claim_turn now tid (s\<lparr>se_uploads := us\<rparr>))))))"

text \<open>\<open>rollbackAttachments\<close>: nothing to do without attachments, and then no tick in between.\<close>

definition rollback_then :: "send_call \<Rightarrow> task \<Rightarrow> (sess \<Rightarrow> sess) \<Rightarrow> sess \<Rightarrow> sess" where
  "rollback_then c k rest s =
     (if sd_payloads c = [] then rest s
      else post None k (call (CallRemoveAttachments (sd_turn c)) s))"

definition send_gone_reply :: "sess \<Rightarrow> sess" where
  "send_gone_reply s = reply (SendReply (Inl (SessionHasEnded (sid s)))) s"

definition send_gone :: "send_call \<Rightarrow> sess \<Rightarrow> sess" where
  "send_gone c = rollback_then c (SendGone c) send_gone_reply"

definition send_unwritten :: "store_error \<Rightarrow> sess \<Rightarrow> sess" where
  "send_unwritten e s = reply (SendReply (Inl (StorageE e))) (clear_turn s)"

definition send_open :: "config \<Rightarrow> iso_timestamp \<Rightarrow> send_call \<Rightarrow> sess \<Rightarrow> sess" where
  "send_open cf now c s =
     (if se_turn s = None then send_gone c s
      else emit_then cf now (Some (sd_turn c)) TurnStarted (SendStarted c) s)"

definition send_written ::
  "config \<Rightarrow> iso_timestamp \<Rightarrow> send_call \<Rightarrow> (store_error, unit) result list \<Rightarrow> sess \<Rightarrow> sess" where
  "send_written cf now c results s =
     (case find isl results of
        Some (Inl e) \<Rightarrow> rollback_then c (SendUnwritten c e) (send_unwritten e) s
      | _ \<Rightarrow>
          if se_checkpoints_available s then post None (SendCheckpoint c) s
          else send_open cf now c s)"

definition send_checkpointed ::
  "config \<Rightarrow> iso_timestamp \<Rightarrow> send_call \<Rightarrow> (checkpoint_error, git_sha \<times> string) result \<Rightarrow> sess \<Rightarrow> sess" where
  "send_checkpointed cf now c r s =
     (case r of
        Inr (sha, label) \<Rightarrow>
          emit_then cf now (Some (sd_turn c)) (CheckpointCreated sha label) (SendCheckpointed c) s
      | Inl e \<Rightarrow>
          emit_then cf now None
            (SessionNotice Warn CheckpointSkipped
               (''the pre-turn checkpoint failed; this turn has no restore point: ''
                @ checkpoint_error_detail e))
            (SendCheckpointed c) s)"

text \<open>After \<open>turn.started\<close> is durable: the phase of the turn in the slot, and the message.\<close>

definition send_started :: "config \<Rightarrow> iso_timestamp \<Rightarrow> send_call \<Rightarrow> sess \<Rightarrow> sess" where
  "send_started cf now c s =
     (case se_turn s of
        None \<Rightarrow> send_gone c s
      | Some t \<Rightarrow>
          emit_then cf now (Some (sd_turn c)) (Message User (sd_text c) (map fst (sd_payloads c)))
            (SendMessaged c) (set_phase t Running s))"

definition send_spawn :: "send_call \<Rightarrow> sess \<Rightarrow> sess" where
  "send_spawn c s =
     post None (SendSent c)
       (call (CallSend (sd_turn c) (sd_text c) (map fst (sd_payloads c))
                (sr_cli_session_id (se_record s)) (sd_model c)) s)"

definition send_messaged :: "config \<Rightarrow> iso_timestamp \<Rightarrow> send_call \<Rightarrow> sess \<Rightarrow> sess" where
  "send_messaged cf now c s =
     (if se_turn s = None then send_gone c s
      else if se_has_run_a_turn s \<and> sr_cli_session_id (se_record s) = None
      then emit_then cf now None
             (SessionNotice Warn ResumeUnavailable
                (''The previous turn ended before its session id was reported; ''
                 @ ''conversation context was not carried forward.''))
             (SendNoticed c) s
      else send_spawn c s)"

definition send_fail_kill :: "send_call \<Rightarrow> adapter_error \<Rightarrow> sess \<Rightarrow> sess" where
  "send_fail_kill c e s = post None (SendFailKilled c e) (call CallKill s)"

definition send_sent ::
  "config \<Rightarrow> iso_timestamp \<Rightarrow> send_call \<Rightarrow> (adapter_error, unit) result \<Rightarrow> sess \<Rightarrow> sess" where
  "send_sent cf now c r s =
     (case r of
        Inr _ \<Rightarrow> reply (SendReply (Inr (sd_turn c))) (s\<lparr>se_has_run_a_turn := True\<rparr>)
      | Inl (AgentUnavailable img detail) \<Rightarrow>
          emit_then cf now None (ErrorEvent AgentUnavailableError detail True)
            (SendFailReported c (AgentUnavailable img detail)) s
      | Inl e \<Rightarrow> send_fail_kill c e s)"

definition send_fail_killed :: "config \<Rightarrow> iso_timestamp \<Rightarrow> send_call \<Rightarrow> adapter_error \<Rightarrow> sess \<Rightarrow> sess" where
  "send_fail_killed cf now c e s =
     emit_then cf now (Some (sd_turn c)) (TurnEnded StopError None) (SendFailEnded c e) s"

definition send_fail_ended :: "adapter_error \<Rightarrow> sess \<Rightarrow> sess" where
  "send_fail_ended e s = reply (SendReply (Inl (AdapterE e))) (clear_turn s)"

section \<open>Permissions\<close>

definition audit_of ::
  "iso_timestamp \<Rightarrow> sess \<Rightarrow> principal_id option \<Rightarrow> string \<Rightarrow> json \<Rightarrow> permission_decision
   \<Rightarrow> resolved_scope \<Rightarrow> string option \<Rightarrow> audit_record" where
  "audit_of now s operator tool input d scope reason =
     \<lparr>au_ts = now, au_operator = operator, au_session = sid s, au_vendor = sr_vendor (se_record s),
      au_sandbox = sr_sandbox (se_record s), au_tool = tool, au_input = input, au_decision = d,
      au_scope = scope, au_reason = reason\<rparr>"

definition cancelled_reason :: string where
  "cancelled_reason = ''cancelled_process_exit''"

text \<open>\<open>swept\<close>: the resolution of a request whose child is gone.\<close>

definition swept :: "request_id \<Rightarrow> permission_resolved" where
  "swept r =
     \<lparr>pv_request_id = r, pv_decision = Deny, pv_scope = Once, pv_operator = None,
      pv_reason = CancelledProcessExit\<rparr>"

definition cancelled_audit :: "iso_timestamp \<Rightarrow> sess \<Rightarrow> string \<Rightarrow> json \<Rightarrow> audit_record" where
  "cancelled_audit now s tool input =
     audit_of now s None tool input Deny Once (Some cancelled_reason)"

definition audit_notice :: "string \<Rightarrow> payload" where
  "audit_notice txt = SessionNotice Error AuditUnavailable txt"

text \<open>
  The checks of \<open>answerPermission\<close> that need no turn: the reason, then the rule of an answer
  with scope \<open>always\<close>.
\<close>

definition quoted :: "string \<Rightarrow> string" where
  "quoted w = CHR 0x27 # w @ [CHR 0x27]"

definition answer_refusal :: "config \<Rightarrow> permission_answer \<Rightarrow> failure option" where
  "answer_refusal cf a =
     (if pa_reason a = Some []
      then Some (BadRequest ''reason'' ''reason must be non-empty; send null for none'')
      else if (case pa_reason a of None \<Rightarrow> False
               | Some r \<Rightarrow> permission_reason_bytes (cf_caps cf) < utf8_byte_length r)
      then Some (BadRequest ''reason''
             (''reason exceeds '' @ decimal_nat (permission_reason_bytes (cf_caps cf)) @ '' bytes''))
      else if pa_scope a = AnswerAlways
      then
        (case pa_rule a of
           None \<Rightarrow> Some (BadRequest ''rule'' (''scope '' @ quoted ''always'' @ '' requires a rule''))
         | Some r \<Rightarrow>
             (case parse_standing_rule r (standing_rule_bytes (cf_caps cf)) of
                None \<Rightarrow> Some (BadRequest ''rule'' ''rule does not parse as a standing-rule expression'')
              | Some _ \<Rightarrow>
                  if pa_decision a = Deny
                  then Some (BadRequest ''decision''
                         (''scope '' @ quoted ''always'' @ '' requires decision '' @ quoted ''allow''))
                  else None))
      else None)"

definition answer_rule :: "config \<Rightarrow> permission_answer \<Rightarrow> string option" where
  "answer_rule cf a =
     (if pa_scope a = AnswerAlways
      then (case pa_rule a of None \<Rightarrow> None
            | Some r \<Rightarrow> parse_standing_rule r (standing_rule_bytes (cf_caps cf)))
      else None)"

text \<open>The claim of a pending request: out of \<open>pending\<close> and among the in-flight answers.\<close>

definition claim_request :: "turn_id \<Rightarrow> request_id \<Rightarrow> string \<Rightarrow> json \<Rightarrow> sess \<Rightarrow> sess" where
  "claim_request t r tool input s =
     (let s1 = set_pending t (jdel (pending_of s t) r) s
      in set_flying t (jset (flying_of s1 t) r \<lparr>fa_tool = tool, fa_input = input\<rparr>) s1)"

text \<open>The resolution an accepted answer asks for.\<close>

definition answer_finalization ::
  "config \<Rightarrow> iso_timestamp \<Rightarrow> principal_id \<Rightarrow> permission_answer \<Rightarrow> turn_id \<Rightarrow> pending_permission
   \<Rightarrow> sess \<Rightarrow> finalization" where
  "answer_finalization cf now owner a t p s =
     (let rule = answer_rule cf a; scope = (if rule \<noteq> None then Always else Once) in
      \<lparr>fz_turn = t, fz_request = pa_request_id a,
       fz_record = audit_of now s (Some owner) (pn_tool p) (pn_input p) (pa_decision a) scope (pa_reason a),
       fz_success = \<lparr>pv_request_id = pa_request_id a, pv_decision = pa_decision a, pv_scope = scope,
                     pv_operator = Some owner, pv_reason = Answered\<rparr>,
       fz_rule = rule,
       fz_reason = (if pa_decision a = Deny then pa_reason a else None),
       fz_answer = True\<rparr>)"

definition answer_permission ::
  "config \<Rightarrow> iso_timestamp \<Rightarrow> principal_id \<Rightarrow> permission_answer \<Rightarrow> sess \<Rightarrow> sess" where
  "answer_permission cf now owner a s =
     (if \<not> owned owner s then reply (AnswerReply (Inl (NotFound (sid s)))) s
      else
        (case answer_refusal cf a of
           Some e \<Rightarrow> reply (AnswerReply (Inl e)) s
         | None \<Rightarrow>
             (case se_turn s of
                None \<Rightarrow> reply (AnswerReply (Inr None)) s
              | Some t \<Rightarrow>
                  (case jget (pending_of s t) (pa_request_id a) of
                     None \<Rightarrow> reply (AnswerReply (Inr None)) s
                   | Some p \<Rightarrow>
                       if answer_rule cf a \<noteq> None \<and> pn_match_target p = None
                       then reply (AnswerReply (Inl (BadRequest ''scope''
                              ''no standing rule may be created against a request with no matchTarget''))) s
                       else
                         post None (Finalize (answer_finalization cf now owner a t p s))
                           (claim_request t (pa_request_id a) (pn_tool p) (pn_input p) s)))))"

definition preapproved_finalization :: "iso_timestamp \<Rightarrow> turn_id \<Rightarrow> permission_request \<Rightarrow> string \<Rightarrow> sess \<Rightarrow> finalization" where
  "preapproved_finalization now t q rule s =
     \<lparr>fz_turn = t, fz_request = pr_request_id q,
      fz_record = audit_of now s None (pr_tool q) (pr_input q) Allow Standing (Some rule),
      fz_success = \<lparr>pv_request_id = pr_request_id q, pv_decision = Allow, pv_scope = Standing,
                    pv_operator = None, pv_reason = Preapproved\<rparr>,
      fz_rule = None, fz_reason = None, fz_answer = False\<rparr>"

definition resolve_preapproved :: "iso_timestamp \<Rightarrow> turn_id \<Rightarrow> permission_request \<Rightarrow> string \<Rightarrow> sess \<Rightarrow> sess" where
  "resolve_preapproved now t q rule s =
     (if \<not> jhas (pending_of s t) (pr_request_id q) then s
      else
        post None (Finalize (preapproved_finalization now t q rule s))
          (claim_request t (pr_request_id q) (pr_tool q) (pr_input q) s))"

text \<open>
  \<open>finalizeResolution\<close> and \<open>respondOrCancel\<close>. \<open>noticed\<close> says that the audit append failed, so that
  a notice is owed once the resolution is out.
\<close>

definition final_done :: "finalization \<Rightarrow> permission_resolved \<Rightarrow> sess \<Rightarrow> sess" where
  "final_done f v s = (if fz_answer f then reply (AnswerReply (Inr (Some v))) s else s)"

definition final_resolved ::
  "config \<Rightarrow> iso_timestamp \<Rightarrow> finalization \<Rightarrow> permission_resolved \<Rightarrow> bool \<Rightarrow> sess \<Rightarrow> sess" where
  "final_resolved cf now f v noticed s =
     (if noticed
      then emit_then cf now None
             (audit_notice ''The audit record could not be written; the tool call was denied.'')
             (FinalNoticed f v) s
      else final_done f v s)"

definition respond_or_cancel ::
  "config \<Rightarrow> iso_timestamp \<Rightarrow> finalization \<Rightarrow> permission_decision \<Rightarrow> string option \<Rightarrow> permission_resolved
   \<Rightarrow> bool \<Rightarrow> (adapter_error, unit) result \<Rightarrow> sess \<Rightarrow> sess" where
  "respond_or_cancel cf now f d reason intended noticed responded s =
     (let t = fz_turn f; r = fz_request f;
          s1 = set_flying t (jdel (flying_of s t) r) (call (CallRespond t r d reason (is_ok responded)) s)
      in case responded of
           Inr _ \<Rightarrow> emit_then cf now (Some t) (PermissionResolved intended) (FinalResolved f intended noticed) s1
         | Inl (WriteFailed _) \<Rightarrow>
             post None (FinalCancel f noticed (emit_wait s1))
               (emit cf now (Some t) (PermissionResolved (swept r)) None s1)
         | Inl _ \<Rightarrow> final_resolved cf now f (swept r) noticed s1)"

definition audit_failure_resolution :: "request_id \<Rightarrow> permission_resolved" where
  "audit_failure_resolution r =
     \<lparr>pv_request_id = r, pv_decision = Deny, pv_scope = Once, pv_operator = None,
      pv_reason = AuditWasUnavailable\<rparr>"

definition hold_rule :: "string option \<Rightarrow> sess \<Rightarrow> sess" where
  "hold_rule rule s = (case rule of None \<Rightarrow> s | Some r \<Rightarrow> s\<lparr>se_rules := se_rules s @ [r]\<rparr>)"

definition finalize_audited ::
  "config \<Rightarrow> iso_timestamp \<Rightarrow> finalization \<Rightarrow> (store_error, unit) result \<Rightarrow> (adapter_error, unit) result
   \<Rightarrow> sess \<Rightarrow> sess" where
  "finalize_audited cf now f appended responded s0 =
     (let t = fz_turn f; r = fz_request f;
          s = call (CallAudit t r (fz_record f) (is_ok appended)) s0
      in if \<not> jhas (flying_of s t) r then final_done f (swept r) s
         else
           (case appended of
              Inl e \<Rightarrow>
                respond_or_cancel cf now f Deny
                  (Some (''The audit record could not be written, so the tool call was denied: ''
                         @ store_error_detail e))
                  (audit_failure_resolution r) True responded s
            | Inr _ \<Rightarrow>
                respond_or_cancel cf now f (pv_decision (fz_success f)) (fz_reason f) (fz_success f) False responded
                  (hold_rule (fz_rule f) s)))"

text \<open>
  After a \<open>write_failed\<close>: the audit append of the cancellation, the wait for the emitted
  resolution, and the notice when that append failed.
\<close>

definition final_cancel_audited ::
  "iso_timestamp \<Rightarrow> finalization \<Rightarrow> bool \<Rightarrow> nat option \<Rightarrow> (store_error, unit) result \<Rightarrow> sess \<Rightarrow> sess" where
  "final_cancel_audited now f noticed w appended s =
     post w (FinalCancelled f noticed (is_ok appended))
       (call (CallAudit (fz_turn f) (fz_request f)
          ((fz_record f)\<lparr>au_ts := now, au_operator := None, au_decision := Deny, au_scope := Once,
                         au_reason := Some cancelled_reason\<rparr>) (is_ok appended)) s)"

definition final_cancelled ::
  "config \<Rightarrow> iso_timestamp \<Rightarrow> finalization \<Rightarrow> bool \<Rightarrow> bool \<Rightarrow> sess \<Rightarrow> sess" where
  "final_cancelled cf now f noticed audited s =
     (if audited then final_resolved cf now f (swept (fz_request f)) noticed s
      else emit_then cf now None
             (audit_notice ''The audit record for a permission cancelled by process exit could not be written.'')
             (FinalCancelNoticed f noticed) s)"

section \<open>Notifications of the adapter\<close>

definition cli_session :: "config \<Rightarrow> iso_timestamp \<Rightarrow> cli_session_id \<Rightarrow> sess \<Rightarrow> sess" where
  "cli_session cf now c s0 =
     (let s = s0\<lparr>se_record := (se_record s0)\<lparr>sr_cli_session_id := Some c\<rparr>\<rparr>; r = se_record s in
      if se_first_turn_announced s then call (CallWriteMeta r) s
      else emit_then cf now None
             (SessionStarted \<lparr>ss_vendor = sr_vendor r, ss_cwd = sr_cwd r, ss_model = sr_model r,
                              ss_policy = sr_policy r, ss_state = Live, ss_created_at = sr_created_at r\<rparr>)
             CliAnnounced (s\<lparr>se_first_turn_announced := True\<rparr>))"

definition cli_announced :: "sess \<Rightarrow> sess" where
  "cli_announced s = call (CallWriteMeta (se_record s)) s"

definition spawned :: "config \<Rightarrow> iso_timestamp \<Rightarrow> int \<Rightarrow> int option \<Rightarrow> string \<Rightarrow> sess \<Rightarrow> sess" where
  "spawned cf now pid pgid img s =
     (case se_turn s of
        None \<Rightarrow>
          emit cf now None
            (ErrorEvent AdapterUnknownRecord
               (''a child (pid '' @ decimal pid @ '', '' @ img @ '') was reported spawned with no live turn; ''
                @ ''it is not recorded in pids.ndjson and boot will not reap it'') False) None s
      | Some t \<Rightarrow> post None (SpawnRead t pid pgid img) (s\<lparr>se_live_pid := Some pid\<rparr>))"

definition spawn_recorded ::
  "config \<Rightarrow> iso_timestamp \<Rightarrow> turn_id \<Rightarrow> int \<Rightarrow> int option \<Rightarrow> string \<Rightarrow> iso_timestamp option \<Rightarrow> sess \<Rightarrow> sess" where
  "spawn_recorded cf now t pid pgid img created s =
     call (CallAppendPid
       \<lparr>pc_pid = pid, pc_pgid = pgid, pc_session = sid s, pc_turn = t,
        pc_hostname = Some (cf_hostname cf), pc_started_at = now, pc_image = img,
        pc_os_created_at = created, pc_exited_at = None\<rparr>) s"

text \<open>
  The sweep at a child's exit: every pending request and every in-flight answer is resolved in
  this very tick, and each is owed an audit record.
\<close>

definition cancellations :: "sess \<Rightarrow> turn_id \<Rightarrow> (request_id \<times> string \<times> json) list" where
  "cancellations s t =
     map (\<lambda>(r, p). (r, pn_tool p, pn_input p)) (pending_of s t)
     @ map (\<lambda>(r, p). (r, fa_tool p, fa_input p)) (flying_of s t)"

definition emit_swept ::
  "config \<Rightarrow> iso_timestamp \<Rightarrow> turn_id \<Rightarrow> (request_id \<times> string \<times> json) list \<Rightarrow> sess \<Rightarrow> sess" where
  "emit_swept cf now t cs = fold (\<lambda>(r, _). emit cf now (Some t) (PermissionResolved (swept r)) None) cs"

definition cancelled_audits ::
  "iso_timestamp \<Rightarrow> (request_id \<times> string \<times> json) list \<Rightarrow> sess \<Rightarrow> (request_id \<times> audit_record) list" where
  "cancelled_audits now cs s = map (\<lambda>(r, tool, input). (r, cancelled_audit now s tool input)) cs"

definition exited :: "config \<Rightarrow> iso_timestamp \<Rightarrow> sess \<Rightarrow> sess" where
  "exited cf now s =
     (case se_turn s of
        None \<Rightarrow> s
      | Some t \<Rightarrow>
          (let cs = cancellations s t in
           if cs = [] then s
           else
             (let s1 = emit_swept cf now t cs (set_flying t [] (set_pending t [] s))
              in post (if failed s1 then None else Some (st_seq (se_stream s1)))
                   (SweepAudits t (cancelled_audits now cs s)) s1)))"

definition log_audits ::
  "turn_id \<Rightarrow> (request_id \<times> audit_record) list \<Rightarrow> (store_error, unit) result list \<Rightarrow> sess \<Rightarrow> sess" where
  "log_audits t records results =
     fold (\<lambda>((r, a), x). call (CallAudit t r a (is_ok x))) (zip records results)"

definition sweep_audited ::
  "config \<Rightarrow> iso_timestamp \<Rightarrow> turn_id \<Rightarrow> (request_id \<times> audit_record) list
   \<Rightarrow> (store_error, unit) result list \<Rightarrow> sess \<Rightarrow> sess" where
  "sweep_audited cf now t records results s0 =
     (let s = log_audits t records results s0 in
      if list_ex isl results
      then emit cf now None
             (audit_notice (''The audit record for one or more cancelled permissions ''
                            @ ''could not be written.'')) None s
      else s)"

text \<open>
  The \<open>event\<close> case, in the order of the code: a permission request enters \<open>pending\<close> and is
  matched with the standing rules; a long tool result is truncated and its whole output is
  written beside; an event that needs a turn is reported when there is none; a delta is only a
  frame; the end of a turn kills the child and frees the slot before it is emitted; a matched
  request is answered once its own event is durable.
\<close>

definition note_request :: "permission_request \<Rightarrow> turn_id \<Rightarrow> sess \<Rightarrow> sess" where
  "note_request q t s =
     set_pending t
       (jset (pending_of s t) (pr_request_id q)
          \<lparr>pn_call_id = pr_call_id q, pn_tool = pr_tool q, pn_input = pr_input q,
           pn_match_target = pr_match_target q\<rparr>) s"

definition matched_rule :: "permission_request \<Rightarrow> sess \<Rightarrow> string option" where
  "matched_rule q s = find (\<lambda>rule. match_rule rule (pr_tool q) (pr_match_target q)) (se_rules s)"

definition tool_output_limit :: "config \<Rightarrow> nat" where
  "tool_output_limit cf =
     (case op_tool_output_bytes (cf_output cf) of
        None \<Rightarrow> tool_result_bytes (cf_caps cf)
      | Some b \<Rightarrow> min (tool_result_bytes (cf_caps cf)) b)"

definition truncate_result :: "config \<Rightarrow> tool_result \<Rightarrow> tool_result" where
  "truncate_result cf r =
     (if tool_output_limit cf < tr_bytes r
      then r\<lparr>tr_output := truncate_text (\<not> tr_ok r \<and> op_preserve_failure_tail (cf_output cf))
                            (tr_output r) (tool_output_limit cf),
             tr_truncated := True\<rparr>
      else r)"

definition start_tool_write :: "config \<Rightarrow> tool_result \<Rightarrow> turn_id \<Rightarrow> sess \<Rightarrow> sess" where
  "start_tool_write cf r t s =
     (if tool_output_limit cf < tr_bytes r
      then call (CallWriteToolOutput t (tr_call_id r) (utf8_encode (tr_output r)))
             (s\<lparr>se_tool_writes := Suc (se_tool_writes s)\<rparr>)
      else s)"

definition event_without_turn :: "config \<Rightarrow> iso_timestamp \<Rightarrow> payload \<Rightarrow> raw_value option \<Rightarrow> sess \<Rightarrow> sess" where
  "event_without_turn cf now d raw s =
     (if carries_turn_id d
      then emit cf now None
             (ErrorEvent AdapterUnknownRecord
                (''a '' @ kind_name d @ '' arrived with no live turn and was dropped; ''
                 @ ''it carries no turnId to attribute it by'') False)
             (Some (case raw of Some x \<Rightarrow> x | None \<Rightarrow> RawData d)) s
      else emit cf now None d raw s)"

definition event_in_turn ::
  "config \<Rightarrow> iso_timestamp \<Rightarrow> payload \<Rightarrow> raw_value option \<Rightarrow> turn_id \<Rightarrow> sess \<Rightarrow> sess" where
  "event_in_turn cf now d raw t s =
     (case d of
        PermissionRequest q \<Rightarrow>
          (let s1 = emit cf now (Some t) d raw (note_request q t s) in
           case matched_rule q s of
             None \<Rightarrow> s1
           | Some rule \<Rightarrow> post (emit_wait s) (Preapprove t q rule) s1)
      | ToolResult r \<Rightarrow>
          emit cf now (Some t) (ToolResult (truncate_result cf r)) raw (start_tool_write cf r t s)
      | MessageDelta _ \<Rightarrow> emit_frame_to cf now (Some t) d raw s
      | TurnEnded _ _ \<Rightarrow> emit cf now (Some t) d raw (clear_turn (call CallKill s))
      | _ \<Rightarrow> emit cf now (if carries_turn_id d then Some t else None) d raw s)"

definition handle_event :: "config \<Rightarrow> iso_timestamp \<Rightarrow> adapter_event \<Rightarrow> sess \<Rightarrow> sess" where
  "handle_event cf now e s =
     (case se_turn s of
        None \<Rightarrow> event_without_turn cf now (ae_data e) (map_option RawVendor (ae_raw e)) s
      | Some t \<Rightarrow> event_in_turn cf now (ae_data e) (map_option RawVendor (ae_raw e)) t s)"

text \<open>
  \<open>handleNotification\<close>: behind the mute only a child that has just been spawned is acted on;
  a removed session ignores its adapter.
\<close>

definition handle_notification :: "config \<Rightarrow> iso_timestamp \<Rightarrow> adapter_notification \<Rightarrow> sess \<Rightarrow> sess" where
  "handle_notification cf now n s =
     (if se_muted s
      then
        (case n of
           Spawned pid pgid _ \<Rightarrow>
             if 0 < pid
             then call (CallKillTree pid
                     (case pgid of Some g \<Rightarrow> if 0 < g then Some g else None | None \<Rightarrow> None)) s
             else s
         | _ \<Rightarrow> s)
      else if \<not> se_registered s then s
      else
        (case n of
           AdapterEvent e \<Rightarrow> handle_event cf now e s
         | CliSession c \<Rightarrow> cli_session cf now c s
         | Spawned pid pgid img \<Rightarrow> spawned cf now pid pgid img s
         | Exited _ _ \<Rightarrow> exited cf now s))"

section \<open>The other methods\<close>

definition interrupt :: "principal_id \<Rightarrow> turn_id \<Rightarrow> sess \<Rightarrow> sess" where
  "interrupt owner t s =
     (if \<not> owned owner s then reply (UnitReply (Inl (NotFound (sid s)))) s
      else if se_turn s \<noteq> Some t then reply (UnitReply (Inr ())) s
      else post None Interrupted (call CallKill s))"

definition mark_ended :: "session_end_reason \<Rightarrow> iso_timestamp \<Rightarrow> sess \<Rightarrow> sess" where
  "mark_ended reason now s =
     s\<lparr>se_record := (se_record s)\<lparr>sr_state := Ended, sr_ended_at := Some now, sr_end_reason := Some reason\<rparr>\<rparr>"

definition release_workspace :: "sess \<Rightarrow> sess" where
  "release_workspace s = s\<lparr>se_alloc := release (sid s) (se_alloc s)\<rparr>"

definition discard_staged :: "sess \<Rightarrow> sess" where
  "discard_staged s = s\<lparr>se_uploads := discard_uploads (sid s) (se_uploads s)\<rparr>"

definition end_session :: "iso_timestamp \<Rightarrow> principal_id \<Rightarrow> sess \<Rightarrow> sess" where
  "end_session now owner s =
     (if \<not> owned owner s then reply (UnitReply (Inl (NotFound (sid s)))) s
      else
        (case busy_operation s of
           Some e \<Rightarrow> reply (UnitReply (Inl e)) s
         | None \<Rightarrow>
             (case busy_turn s of
                Some e \<Rightarrow> reply (UnitReply (Inl e)) s
              | None \<Rightarrow>
                  if ended s then reply (UnitReply (Inr ())) s
                  else
                    (let s1 = release_workspace (discard_staged (mark_ended ByOperator now s))
                     in post None EndMeta (call (CallWriteMeta (se_record s1)) s1)))))"

text \<open>\<open>endedAt\<close> is set whenever this runs; the code asserts it with an exclamation mark.\<close>

definition end_announce :: "config \<Rightarrow> iso_timestamp \<Rightarrow> sess \<Rightarrow> sess" where
  "end_announce cf now s =
     emit_then cf now None
       (SessionEnded ByOperator (case sr_ended_at (se_record s) of Some x \<Rightarrow> x | None \<Rightarrow> now)) EndEmitted s"

definition remove_session :: "principal_id \<Rightarrow> turn_id \<Rightarrow> sess \<Rightarrow> sess" where
  "remove_session owner claim s =
     (if \<not> owned owner s then reply (UnitReply (Inl (NotFound (sid s)))) s
      else
        (case busy_operation s of
           Some e \<Rightarrow> reply (UnitReply (Inl e)) s
         | None \<Rightarrow>
             (case busy_turn s of
                Some e \<Rightarrow> reply (UnitReply (Inl e)) s
              | None \<Rightarrow> post None RemoveDrain (set_operation (Some claim) s))))"

definition last_queued :: "sess \<Rightarrow> nat option" where
  "last_queued s = (case st_queue (se_stream s) of [] \<Rightarrow> None | q \<Rightarrow> Some (env_seq (last q)))"

definition remove_drained :: "sess \<Rightarrow> sess" where
  "remove_drained s = post (last_queued s) RemoveFlushed s"

definition remove_flushed :: "sess \<Rightarrow> sess" where
  "remove_flushed s = post None RemoveStorage (call CallDestroyStorage s)"

definition removal_failures ::
  "(checkpoint_error, unit) result \<Rightarrow> (store_error, unit) result \<Rightarrow> string list" where
  "removal_failures destroyed deleted =
     (case deleted of
        Inl (Io p d) \<Rightarrow> [p @ '': '' @ d]
      | Inl (StoreNotFound _) \<Rightarrow> [''not_found'']
      | Inl (Corrupt _ _) \<Rightarrow> [''corrupt'']
      | Inl (UnsupportedSchemaVersion _ _) \<Rightarrow> [''unsupported_schema_version'']
      | Inr _ \<Rightarrow> [])
     @ (case destroyed of Inl e \<Rightarrow> [''ckpt.git: '' @ checkpoint_error_detail e] | Inr _ \<Rightarrow> [])"

definition drop_ring_of :: "sess \<Rightarrow> sess" where
  "drop_ring_of s = s\<lparr>se_stream := (se_stream s)\<lparr>st_ring := drop_ring (st_ring (se_stream s))\<rparr>\<rparr>"

definition remove_destroyed ::
  "iso_timestamp \<Rightarrow> (checkpoint_error, unit) result \<Rightarrow> (store_error, unit) result \<Rightarrow> sess \<Rightarrow> sess" where
  "remove_destroyed now destroyed deleted s =
     (let s1 = drop_ring_of (release_workspace (discard_staged (s\<lparr>se_registered := False\<rparr>)));
          failures = removal_failures destroyed deleted;
          s2 = (if failures = [] then s1
                else s1\<lparr>se_stream := deliver_direct (sid s1) now None
                      (ErrorEvent SessionDeleteIncomplete
                         (''session storage could not be fully removed: '' @ join ''; '' failures) False)
                      (se_stream s1)\<rparr>)
      in reply (UnitReply (Inr ())) s2)"

definition rename_session :: "principal_id \<Rightarrow> string option \<Rightarrow> sess \<Rightarrow> sess" where
  "rename_session owner name s =
     (if \<not> owned owner s \<or> se_creating s then reply (UnitReply (Inl (NotFound (sid s)))) s
      else
        (let s1 = s\<lparr>se_record := (se_record s)\<lparr>sr_name := name\<rparr>\<rparr>
         in post None Renamed (call (CallWriteMeta (se_record s1)) s1)))"

text \<open>
  \<open>admin.reassignPrincipal\<close>: the record with its new owner is built before the write and put in
  place after it.
\<close>

definition reassign_principal :: "principal_id \<Rightarrow> turn_id \<Rightarrow> sess \<Rightarrow> sess" where
  "reassign_principal owner claim s =
     (if \<not> se_registered s then reply (UnitReply (Inl (NotFound (sid s)))) s
      else if se_turn s \<noteq> None \<or> se_operation s \<noteq> None \<or> se_creating s
      then reply (UnitReply (Inl (TurnInFlight (sid s)
             (case se_turn s of Some t \<Rightarrow> t
              | None \<Rightarrow> (case se_operation s of Some x \<Rightarrow> x | None \<Rightarrow> sid s))))) s
      else
        (let r = (se_record s)\<lparr>sr_owner := owner\<rparr>
         in post None (ReassignMeta r) (call (CallWriteMeta r) (set_operation (Some claim) s))))"

definition reassigned :: "session_record \<Rightarrow> (store_error, unit) result \<Rightarrow> sess \<Rightarrow> sess" where
  "reassigned r written s =
     (case written of
        Inl e \<Rightarrow> reply (UnitReply (Inl (StorageE e))) (set_operation None s)
      | Inr _ \<Rightarrow>
          (let s1 = s\<lparr>se_record := r\<rparr>;
               s2 = s1\<lparr>se_alloc := reassign (sid s1) (sr_owner r) (se_alloc s1)\<rparr>
           in reply (UnitReply (Inr ()))
                (set_operation None (call CallCloseSubscribers (discard_staged s2)))))"

definition restore_checkpoint :: "config \<Rightarrow> principal_id \<Rightarrow> git_sha \<Rightarrow> turn_id \<Rightarrow> sess \<Rightarrow> sess" where
  "restore_checkpoint cf owner sha claim s =
     (if \<not> owned owner s then reply (RestoreReply (Inl (NotFound (sid s)))) s
      else if ended s then reply (RestoreReply (Inl (SessionHasEnded (sid s)))) s
      else
        (case busy_operation s of
           Some e \<Rightarrow> reply (RestoreReply (Inl e)) s
         | None \<Rightarrow>
             (case busy_turn s of
                Some e \<Rightarrow> reply (RestoreReply (Inl e)) s
              | None \<Rightarrow>
                  (case exclusive (cf_windows cf) (sid s) (se_alloc s) of
                     Inl x \<Rightarrow> reply (Thrown x) s
                   | Inr (al, Some conflict) \<Rightarrow>
                       reply (RestoreReply (Inl (WorkspaceBusy (rs_cwd conflict) (rs_principal conflict))))
                         (s\<lparr>se_alloc := al\<rparr>)
                   | Inr (al, None) \<Rightarrow>
                       post None (RestoreRun sha)
                         (call (CallRestore sha) (set_operation (Some claim) (s\<lparr>se_alloc := al\<rparr>)))))))"

definition restore_finally :: "reply \<Rightarrow> sess \<Rightarrow> sess" where
  "restore_finally r s =
     reply r (set_operation None (s\<lparr>se_alloc := release_exclusive (sid s) (se_alloc s)\<rparr>))"

definition restore_ran ::
  "config \<Rightarrow> iso_timestamp \<Rightarrow> git_sha \<Rightarrow> (checkpoint_error, checkpoint) result \<Rightarrow> sess \<Rightarrow> sess" where
  "restore_ran cf now sha r s =
     (case r of
        Inr safety \<Rightarrow>
          emit_then cf now None (CheckpointCreated (ck_sha safety) (ck_label safety)) (RestoreOk safety) s
      | Inl (RestoreIncomplete d) \<Rightarrow>
          emit_then cf now None
            (ErrorEvent CheckpointRestoreFailed (''restore to '' @ sha @ '' failed part-way: '' @ d) False)
            (RestoreReported sha (RestoreIncomplete d)) s
      | Inl (IgnoredSetUnreadable d) \<Rightarrow>
          emit_then cf now None
            (ErrorEvent CheckpointRestoreFailed
               (''restore to '' @ sha @ '' was refused before anything changed: '' @ d) False)
            (RestoreFailed (IgnoredSetUnreadable d)) s
      | Inl e \<Rightarrow> restore_finally (RestoreReply (Inl (CheckpointE e))) s)"

definition restore_listed ::
  "config \<Rightarrow> iso_timestamp \<Rightarrow> checkpoint_error \<Rightarrow> (checkpoint_error, checkpoint list) result \<Rightarrow> sess \<Rightarrow> sess" where
  "restore_listed cf now e listed s =
     (case listed of
        Inr (safety # _) \<Rightarrow>
          emit_then cf now None (CheckpointCreated (ck_sha safety) (ck_label safety)) (RestoreFailed e) s
      | _ \<Rightarrow> restore_finally (RestoreReply (Inl (CheckpointE e))) s)"

definition append_event :: "config \<Rightarrow> iso_timestamp \<Rightarrow> principal_id \<Rightarrow> payload \<Rightarrow> sess \<Rightarrow> sess" where
  "append_event cf now owner d s =
     (if \<not> owned owner s then reply (AppendReply (Inl (NotFound (sid s)))) s
      else if ended s then reply (AppendReply (Inl (SessionHasEnded (sid s)))) s
      else
        (case busy_operation s of
           Some e \<Rightarrow> reply (AppendReply (Inl e)) s
         | None \<Rightarrow>
             (let s1 = emit cf now None d None s
              in post (emit_wait s)
                   (Appended (if failed s then None
                      else Some \<lparr>env_seq = Suc (st_seq (se_stream s)), env_session = sid s, env_ts = now,
                                 env_turn = None, env_data = d, env_raw = None\<rparr>)) s1)))"

definition append_answered :: "envelope option \<Rightarrow> sess \<Rightarrow> sess" where
  "append_answered e s =
     reply (AppendReply
       (case e of
          Some x \<Rightarrow> if failed s then Inl (StorageE (Io (sid s) ''event append failed'')) else Inr x
        | None \<Rightarrow> Inl (StorageE (Io (sid s) ''event append failed'')))) s"

definition shutdown :: "sess \<Rightarrow> sess" where
  "shutdown s =
     (let s1 = s\<lparr>se_muted := True\<rparr> in
      if se_turn s = None then s1 else post None (ShutdownKill (se_live_pid s)) (call CallKill s1))"

definition shutdown_killed :: "int option \<Rightarrow> sess \<Rightarrow> sess" where
  "shutdown_killed pid s = (case pid of None \<Rightarrow> s | Some p \<Rightarrow> call (CallTombstone p) s)"

section \<open>The spill fails\<close>

text \<open>
  The continuation \<open>emit\<close> chains on the write queue, when the append of the oldest queued
  envelope ends. The first failure ends the session; the rest of the handling runs before the
  queue moves on.
\<close>

definition storage_failed :: "iso_timestamp \<Rightarrow> sess \<Rightarrow> sess" where
  "storage_failed now s =
     (let s1 = release_workspace (mark_ended StorageFailureEnd now
                 (clear_turn (s\<lparr>se_stream := append_failed (se_stream s)\<rparr>)))
      in post None (FailMeta (se_turn s)) (call (CallWriteMeta (se_record s1)) s1))"

definition queue_moves :: "sess \<Rightarrow> sess" where
  "queue_moves s = s\<lparr>se_stream := append_done (se_stream s)\<rparr>"

definition append_settled :: "iso_timestamp \<Rightarrow> (store_error, unit) result \<Rightarrow> sess \<Rightarrow> sess" where
  "append_settled now r s =
     (case r of
        Inr _ \<Rightarrow> s\<lparr>se_stream := append_ok (se_stream s)\<rparr>
      | Inl _ \<Rightarrow> if failed s then queue_moves s else storage_failed now s)"

definition fail_closed :: "iso_timestamp \<Rightarrow> sess \<Rightarrow> sess" where
  "fail_closed now s =
     queue_moves
       (deliver now None
          (SessionNotice Error StorageFailure ''The event log could not be written; this session has ended.'')
          (deliver now None
             (SessionEnded StorageFailureEnd (case sr_ended_at (se_record s) of Some x \<Rightarrow> x | None \<Rightarrow> now)) s))"

definition deliver_cancelled ::
  "iso_timestamp \<Rightarrow> turn_id \<Rightarrow> (request_id \<times> string \<times> json) list \<Rightarrow> sess \<Rightarrow> sess" where
  "deliver_cancelled now t cs = fold (\<lambda>(r, _). deliver now (Some t) (PermissionResolved (swept r))) cs"

definition fail_meta_written :: "iso_timestamp \<Rightarrow> turn_id option \<Rightarrow> sess \<Rightarrow> sess" where
  "fail_meta_written now topt s =
     (case topt of
        None \<Rightarrow> fail_closed now s
      | Some t \<Rightarrow>
          (let s1 = call CallKill s in
           if phase_of s t = Starting then post None FailKilled s1
           else
             (let cs = map (\<lambda>(r, p). (r, pn_tool p, pn_input p)) (pending_of s t)
              in post None (FailAudits t (cancelled_audits now cs s)) (deliver_cancelled now t cs s1))))"

definition fail_audited ::
  "iso_timestamp \<Rightarrow> turn_id \<Rightarrow> (request_id \<times> audit_record) list \<Rightarrow> (store_error, unit) result list
   \<Rightarrow> sess \<Rightarrow> sess" where
  "fail_audited now t records results s =
     post None FailKilled
       (deliver now (Some t) (TurnEnded StopStorageFailure None) (log_audits t records results s))"

fun spill_task :: "task \<Rightarrow> bool" where
  "spill_task (FailMeta _) = True"
| "spill_task (FailAudits _ _) = True"
| "spill_task FailKilled = True"
| "spill_task _ = False"

definition spill_busy :: "sess \<Rightarrow> bool" where
  "spill_busy s = list_ex (\<lambda>(_, k). spill_task k) (se_tasks s)"

section \<open>One tick\<close>

text \<open>
  A task resumes with the outcome it waits for; \<open>None\<close> is an outcome of another kind, or one
  that does not answer every call the task made.
\<close>

definition resume_send :: "config \<Rightarrow> iso_timestamp \<Rightarrow> task \<Rightarrow> outcome \<Rightarrow> sess \<Rightarrow> sess option" where
  "resume_send cf now k r s =
     (case k of
        SendWrites c \<Rightarrow>
          (case r of WritesDone rs \<Rightarrow>
             if length rs = length (sd_payloads c) then Some (send_written cf now c rs s) else None
           | _ \<Rightarrow> None)
      | SendUnwritten c e \<Rightarrow> (case r of StoreDone _ \<Rightarrow> Some (send_unwritten e s) | _ \<Rightarrow> None)
      | SendCheckpoint c \<Rightarrow> (case r of CheckpointDone x \<Rightarrow> Some (send_checkpointed cf now c x s) | _ \<Rightarrow> None)
      | SendCheckpointed c \<Rightarrow> (case r of Woken \<Rightarrow> Some (send_open cf now c s) | _ \<Rightarrow> None)
      | SendStarted c \<Rightarrow> (case r of Woken \<Rightarrow> Some (send_started cf now c s) | _ \<Rightarrow> None)
      | SendMessaged c \<Rightarrow> (case r of Woken \<Rightarrow> Some (send_messaged cf now c s) | _ \<Rightarrow> None)
      | SendNoticed c \<Rightarrow> (case r of Woken \<Rightarrow> Some (send_spawn c s) | _ \<Rightarrow> None)
      | SendGone c \<Rightarrow> (case r of StoreDone _ \<Rightarrow> Some (send_gone_reply s) | _ \<Rightarrow> None)
      | SendSent c \<Rightarrow> (case r of SendDone x \<Rightarrow> Some (send_sent cf now c x s) | _ \<Rightarrow> None)
      | SendFailReported c e \<Rightarrow> (case r of Woken \<Rightarrow> Some (send_fail_kill c e s) | _ \<Rightarrow> None)
      | SendFailKilled c e \<Rightarrow> (case r of Woken \<Rightarrow> Some (send_fail_killed cf now c e s) | _ \<Rightarrow> None)
      | SendFailEnded c e \<Rightarrow> (case r of Woken \<Rightarrow> Some (send_fail_ended e s) | _ \<Rightarrow> None)
      | _ \<Rightarrow> None)"

definition resume_permission :: "config \<Rightarrow> iso_timestamp \<Rightarrow> task \<Rightarrow> outcome \<Rightarrow> sess \<Rightarrow> sess option" where
  "resume_permission cf now k r s =
     (case k of
        Finalize f \<Rightarrow> (case r of AuditDone a x \<Rightarrow> Some (finalize_audited cf now f a x s) | _ \<Rightarrow> None)
      | FinalCancel f n w \<Rightarrow> (case r of StoreDone a \<Rightarrow> Some (final_cancel_audited now f n w a s) | _ \<Rightarrow> None)
      | FinalCancelled f n a \<Rightarrow> (case r of Woken \<Rightarrow> Some (final_cancelled cf now f n a s) | _ \<Rightarrow> None)
      | FinalCancelNoticed f n \<Rightarrow>
          (case r of Woken \<Rightarrow> Some (final_resolved cf now f (swept (fz_request f)) n s) | _ \<Rightarrow> None)
      | FinalResolved f v n \<Rightarrow> (case r of Woken \<Rightarrow> Some (final_resolved cf now f v n s) | _ \<Rightarrow> None)
      | FinalNoticed f v \<Rightarrow> (case r of Woken \<Rightarrow> Some (final_done f v s) | _ \<Rightarrow> None)
      | SweepAudits t rs \<Rightarrow>
          (case r of AuditsDone xs \<Rightarrow>
             if length xs = length rs then Some (sweep_audited cf now t rs xs s) else None
           | _ \<Rightarrow> None)
      | Preapprove t q rule \<Rightarrow> (case r of Woken \<Rightarrow> Some (resolve_preapproved now t q rule s) | _ \<Rightarrow> None)
      | CliAnnounced \<Rightarrow> (case r of Woken \<Rightarrow> Some (cli_announced s) | _ \<Rightarrow> None)
      | SpawnRead t pid pgid img \<Rightarrow>
          (case r of CreatedAtDone x \<Rightarrow> Some (spawn_recorded cf now t pid pgid img x s) | _ \<Rightarrow> None)
      | _ \<Rightarrow> None)"

definition resume_method :: "config \<Rightarrow> iso_timestamp \<Rightarrow> task \<Rightarrow> outcome \<Rightarrow> sess \<Rightarrow> sess option" where
  "resume_method cf now k r s =
     (case k of
        Interrupted \<Rightarrow> (case r of Woken \<Rightarrow> Some (reply (UnitReply (Inr ())) s) | _ \<Rightarrow> None)
      | EndMeta \<Rightarrow> (case r of StoreDone _ \<Rightarrow> Some (end_announce cf now s) | _ \<Rightarrow> None)
      | EndEmitted \<Rightarrow> (case r of Woken \<Rightarrow> Some (reply (UnitReply (Inr ())) s) | _ \<Rightarrow> None)
      | RemoveDrain \<Rightarrow>
          (case r of Woken \<Rightarrow> if se_tool_writes s = 0 then Some (remove_drained s) else None | _ \<Rightarrow> None)
      | RemoveFlushed \<Rightarrow> (case r of Woken \<Rightarrow> Some (remove_flushed s) | _ \<Rightarrow> None)
      | RemoveStorage \<Rightarrow> (case r of DestroyDone d e \<Rightarrow> Some (remove_destroyed now d e s) | _ \<Rightarrow> None)
      | Renamed \<Rightarrow> (case r of StoreDone _ \<Rightarrow> Some (reply (UnitReply (Inr ())) s) | _ \<Rightarrow> None)
      | ReassignMeta x \<Rightarrow> (case r of StoreDone w \<Rightarrow> Some (reassigned x w s) | _ \<Rightarrow> None)
      | RestoreRun sha \<Rightarrow> (case r of RestoreDone x \<Rightarrow> Some (restore_ran cf now sha x s) | _ \<Rightarrow> None)
      | RestoreReported sha e \<Rightarrow> (case r of Woken \<Rightarrow> Some (post None (RestoreList sha e) s) | _ \<Rightarrow> None)
      | RestoreList sha e \<Rightarrow> (case r of ListDone x \<Rightarrow> Some (restore_listed cf now e x s) | _ \<Rightarrow> None)
      | RestoreFailed e \<Rightarrow>
          (case r of Woken \<Rightarrow> Some (restore_finally (RestoreReply (Inl (CheckpointE e))) s) | _ \<Rightarrow> None)
      | RestoreOk x \<Rightarrow> (case r of Woken \<Rightarrow> Some (restore_finally (RestoreReply (Inr x)) s) | _ \<Rightarrow> None)
      | Appended x \<Rightarrow> (case r of Woken \<Rightarrow> Some (append_answered x s) | _ \<Rightarrow> None)
      | ShutdownKill pid \<Rightarrow> (case r of Woken \<Rightarrow> Some (shutdown_killed pid s) | _ \<Rightarrow> None)
      | FailMeta t \<Rightarrow> (case r of StoreDone _ \<Rightarrow> Some (fail_meta_written now t s) | _ \<Rightarrow> None)
      | FailAudits t rs \<Rightarrow>
          (case r of AuditsDone xs \<Rightarrow>
             if length xs = length rs then Some (fail_audited now t rs xs s) else None
           | _ \<Rightarrow> None)
      | FailKilled \<Rightarrow> (case r of Woken \<Rightarrow> Some (fail_closed now s) | _ \<Rightarrow> None)
      | _ \<Rightarrow> None)"

definition resume :: "config \<Rightarrow> iso_timestamp \<Rightarrow> task \<Rightarrow> outcome \<Rightarrow> sess \<Rightarrow> sess option" where
  "resume cf now k r s =
     (case resume_send cf now k r s of
        Some s' \<Rightarrow> Some s'
      | None \<Rightarrow>
          (case resume_permission cf now k r s of
             Some s' \<Rightarrow> Some s'
           | None \<Rightarrow> resume_method cf now k r s))"

definition ready :: "nat option \<Rightarrow> sess \<Rightarrow> bool" where
  "ready w s = (case w of None \<Rightarrow> True | Some q \<Rightarrow> q \<notin> set (seqs (st_queue (se_stream s))))"

datatype event =
    Send principal_id string "string list" "string option" turn_id "attachment_id list"
  | Answer principal_id permission_answer
  | Interrupt principal_id turn_id
  | EndSession principal_id
  | Remove principal_id turn_id
  | Rename principal_id "string option"
  | Reassign principal_id turn_id
  | Restore principal_id git_sha turn_id
  | Append principal_id payload
  | Notification adapter_notification
  | Shutdown
  | Published
  | CheckpointsInit checkpoint_error
  | ToolWritten
  | AppendSettled "(store_error, unit) result"
  | OtherWorkspace alloc_op
  | Staging upload_op
  | Resume nat outcome

definition remove_nth :: "nat \<Rightarrow> 'a list \<Rightarrow> 'a list" where
  "remove_nth i xs = take i xs @ drop (Suc i) xs"

fun op_of_other :: "session_id \<Rightarrow> alloc_op \<Rightarrow> bool" where
  "op_of_other i (OpReserve j _ _) = (j \<noteq> i)"
| "op_of_other i (OpActivate j) = (j \<noteq> i)"
| "op_of_other i (OpReassign j _) = (j \<noteq> i)"
| "op_of_other i (OpExclusive j) = (j \<noteq> i)"
| "op_of_other i (OpReleaseExclusive j) = (j \<noteq> i)"
| "op_of_other i (OpRelease j) = (j \<noteq> i)"

text \<open>
  \<open>Published\<close> and \<open>CheckpointsInit\<close> are the tail of \<open>create\<close>: the session is published and its
  workspace is active, or its checkpoints could not be initialised before that. The workspaces
  of the other sessions and the staging area move on their own.
\<close>

fun step :: "config \<Rightarrow> nat \<Rightarrow> int \<Rightarrow> iso_timestamp \<Rightarrow> event \<Rightarrow> sess \<Rightarrow> sess" where
  "step cf m ttl now (Send owner msg atts model tid aids) s =
     (if jhas (se_turns s) tid \<or> length aids \<noteq> length atts then s
      else send_message cf now owner msg atts model tid aids s)"
| "step cf m ttl now (Answer owner a) s = answer_permission cf now owner a s"
| "step cf m ttl now (Interrupt owner t) s = interrupt owner t s"
| "step cf m ttl now (EndSession owner) s = end_session now owner s"
| "step cf m ttl now (Remove owner claim) s = remove_session owner claim s"
| "step cf m ttl now (Rename owner name) s = rename_session owner name s"
| "step cf m ttl now (Reassign owner claim) s = reassign_principal owner claim s"
| "step cf m ttl now (Restore owner sha claim) s = restore_checkpoint cf owner sha claim s"
| "step cf m ttl now (Append owner d) s = append_event cf now owner d s"
| "step cf m ttl now (Notification n) s = handle_notification cf now n s"
| "step cf m ttl now Shutdown s = shutdown s"
| "step cf m ttl now Published s =
     (if se_creating s then s\<lparr>se_creating := False, se_alloc := activate (sid s) (se_alloc s)\<rparr> else s)"
| "step cf m ttl now (CheckpointsInit e) s =
     (if se_creating s
      then emit cf now None
             (SessionNotice Warn CheckpointsUnavailable
                (''checkpoints could not be initialised for this session: '' @ checkpoint_error_detail e))
             None (s\<lparr>se_checkpoints_available := False\<rparr>)
      else s)"
| "step cf m ttl now ToolWritten s = s\<lparr>se_tool_writes := se_tool_writes s - 1\<rparr>"
| "step cf m ttl now (AppendSettled r) s =
     (if st_queue (se_stream s) = [] \<or> spill_busy s then s else append_settled now r s)"
| "step cf m ttl now (OtherWorkspace a) s =
     (if op_of_other (sid s) a then s\<lparr>se_alloc := alloc_step (cf_windows cf) m (se_alloc s) a\<rparr> else s)"
| "step cf m ttl now (Staging u) s =
     s\<lparr>se_uploads := upload_step (cf_caps cf) ttl (authorize s) (se_uploads s) u\<rparr>"
| "step cf m ttl now (Resume i r) s =
     (if length (se_tasks s) \<le> i then s
      else
        (case se_tasks s ! i of
           (w, k) \<Rightarrow>
             if \<not> ready w s then s
             else
               (case resume cf now k r (s\<lparr>se_tasks := remove_nth i (se_tasks s)\<rparr>) of
                  Some s' \<Rightarrow> s'
                | None \<Rightarrow> s)))"

text \<open>A run: events, each with its instant.\<close>

definition run :: "config \<Rightarrow> nat \<Rightarrow> int \<Rightarrow> (iso_timestamp \<times> event) list \<Rightarrow> sess \<Rightarrow> sess" where
  "run cf m ttl es s = fold (\<lambda>(now, e). step cf m ttl now e) es s"

text \<open>The entry \<open>create\<close> registers, and the one \<open>boot\<close> rehydrates.\<close>

definition created_entry :: "session_record \<Rightarrow> bool \<Rightarrow> reservations \<Rightarrow> uploads \<Rightarrow> sess" where
  "created_entry r accepts al us =
     \<lparr>se_registered = True, se_record = r, se_creating = True, se_operation = None, se_accepts = accepts,
      se_turn = None, se_turns = [], se_stream = new_stream 0, se_first_turn_announced = False,
      se_has_run_a_turn = False, se_checkpoints_available = True, se_rules = [], se_live_pid = None,
      se_tool_writes = 0, se_muted = False, se_alloc = al, se_uploads = us, se_tasks = [],
      se_calls = [], se_replies = []\<rparr>"

definition rehydrated_entry :: "session_record \<Rightarrow> bool \<Rightarrow> reservations \<Rightarrow> uploads \<Rightarrow> sess" where
  "rehydrated_entry r creating al us =
     (created_entry r False al us)\<lparr>se_creating := creating, se_stream := new_stream (sr_last_seq r),
        se_first_turn_announced := True, se_has_run_a_turn := True, se_checkpoints_available := False\<rparr>"

end
