(* ===== verification/Session_Frames.thy ===== *)
theory Session_Frames
  imports Session_Machine
begin

text \<open>
  What the elementary updates of an entry leave alone, and the parts of an entry that no
  handler changes. The invariants of the session rest on these facts only.
\<close>

section \<open>Frames of the elementary updates\<close>

lemma emit_fields [simp]:
  "se_registered (emit cf now t d raw s) = se_registered s"
  "se_creating (emit cf now t d raw s) = se_creating s"
  "se_operation (emit cf now t d raw s) = se_operation s"
  "se_turn (emit cf now t d raw s) = se_turn s"
  "se_turns (emit cf now t d raw s) = se_turns s"
  "se_rules (emit cf now t d raw s) = se_rules s"
  "se_alloc (emit cf now t d raw s) = se_alloc s"
  "se_tasks (emit cf now t d raw s) = se_tasks s"
  "se_calls (emit cf now t d raw s) = se_calls s"
  "se_replies (emit cf now t d raw s) = se_replies s"
  "sr_id (se_record (emit cf now t d raw s)) = sr_id (se_record s)"
  "sr_owner (se_record (emit cf now t d raw s)) = sr_owner (se_record s)"
  "sr_state (se_record (emit cf now t d raw s)) = sr_state (se_record s)"
  "st_failed (se_stream (emit cf now t d raw s)) = st_failed (se_stream s)"
  by (simp_all add: emit_def with_stream_def stream_inv_failed_mono)

lemma deliver_fields [simp]:
  "se_registered (deliver now t d s) = se_registered s"
  "se_creating (deliver now t d s) = se_creating s"
  "se_operation (deliver now t d s) = se_operation s"
  "se_turn (deliver now t d s) = se_turn s"
  "se_turns (deliver now t d s) = se_turns s"
  "se_rules (deliver now t d s) = se_rules s"
  "se_alloc (deliver now t d s) = se_alloc s"
  "se_tasks (deliver now t d s) = se_tasks s"
  "se_calls (deliver now t d s) = se_calls s"
  "se_replies (deliver now t d s) = se_replies s"
  "sr_id (se_record (deliver now t d s)) = sr_id (se_record s)"
  "sr_owner (se_record (deliver now t d s)) = sr_owner (se_record s)"
  "sr_state (se_record (deliver now t d s)) = sr_state (se_record s)"
  "st_failed (se_stream (deliver now t d s)) = st_failed (se_stream s)"
  by (simp_all add: deliver_def with_stream_def stream_inv_failed_mono)

lemma call_fields [simp]:
  "se_registered (call c s) = se_registered s"
  "se_record (call c s) = se_record s"
  "se_creating (call c s) = se_creating s"
  "se_operation (call c s) = se_operation s"
  "se_turn (call c s) = se_turn s"
  "se_turns (call c s) = se_turns s"
  "se_stream (call c s) = se_stream s"
  "se_rules (call c s) = se_rules s"
  "se_alloc (call c s) = se_alloc s"
  "se_tasks (call c s) = se_tasks s"
  "se_replies (call c s) = se_replies s"
  "se_calls (call c s) = se_calls s @ [c]"
  by (simp_all add: call_def Let_def set_object_def append_done_def emit_frame_def split: option.splits)

lemma reply_fields [simp]:
  "se_registered (reply r s) = se_registered s"
  "se_record (reply r s) = se_record s"
  "se_creating (reply r s) = se_creating s"
  "se_operation (reply r s) = se_operation s"
  "se_turn (reply r s) = se_turn s"
  "se_turns (reply r s) = se_turns s"
  "se_stream (reply r s) = se_stream s"
  "se_rules (reply r s) = se_rules s"
  "se_alloc (reply r s) = se_alloc s"
  "se_tasks (reply r s) = se_tasks s"
  "se_calls (reply r s) = se_calls s"
  "se_replies (reply r s) = se_replies s @ [r]"
  by (simp_all add: reply_def Let_def set_object_def append_done_def emit_frame_def split: option.splits)

lemma post_fields [simp]:
  "se_registered (post w k s) = se_registered s"
  "se_record (post w k s) = se_record s"
  "se_creating (post w k s) = se_creating s"
  "se_operation (post w k s) = se_operation s"
  "se_turn (post w k s) = se_turn s"
  "se_turns (post w k s) = se_turns s"
  "se_stream (post w k s) = se_stream s"
  "se_rules (post w k s) = se_rules s"
  "se_alloc (post w k s) = se_alloc s"
  "se_calls (post w k s) = se_calls s"
  "se_replies (post w k s) = se_replies s"
  "se_tasks (post w k s) = se_tasks s @ [(w, k)]"
  by (simp_all add: post_def Let_def set_object_def append_done_def emit_frame_def split: option.splits)

lemma set_object_fields [simp]:
  "se_registered (set_object t x s) = se_registered s"
  "se_record (set_object t x s) = se_record s"
  "se_creating (set_object t x s) = se_creating s"
  "se_operation (set_object t x s) = se_operation s"
  "se_turn (set_object t x s) = se_turn s"
  "se_stream (set_object t x s) = se_stream s"
  "se_rules (set_object t x s) = se_rules s"
  "se_alloc (set_object t x s) = se_alloc s"
  "se_tasks (set_object t x s) = se_tasks s"
  "se_calls (set_object t x s) = se_calls s"
  "se_replies (set_object t x s) = se_replies s"
  by (simp_all add: set_object_def Let_def set_object_def append_done_def emit_frame_def split: option.splits)

lemma set_pending_fields [simp]:
  "se_registered (set_pending t p s) = se_registered s"
  "se_record (set_pending t p s) = se_record s"
  "se_creating (set_pending t p s) = se_creating s"
  "se_operation (set_pending t p s) = se_operation s"
  "se_turn (set_pending t p s) = se_turn s"
  "se_stream (set_pending t p s) = se_stream s"
  "se_rules (set_pending t p s) = se_rules s"
  "se_alloc (set_pending t p s) = se_alloc s"
  "se_tasks (set_pending t p s) = se_tasks s"
  "se_calls (set_pending t p s) = se_calls s"
  "se_replies (set_pending t p s) = se_replies s"
  by (simp_all add: set_pending_def Let_def set_object_def append_done_def emit_frame_def split: option.splits)

lemma set_flying_fields [simp]:
  "se_registered (set_flying t f s) = se_registered s"
  "se_record (set_flying t f s) = se_record s"
  "se_creating (set_flying t f s) = se_creating s"
  "se_operation (set_flying t f s) = se_operation s"
  "se_turn (set_flying t f s) = se_turn s"
  "se_stream (set_flying t f s) = se_stream s"
  "se_rules (set_flying t f s) = se_rules s"
  "se_alloc (set_flying t f s) = se_alloc s"
  "se_tasks (set_flying t f s) = se_tasks s"
  "se_calls (set_flying t f s) = se_calls s"
  "se_replies (set_flying t f s) = se_replies s"
  by (simp_all add: set_flying_def Let_def set_object_def append_done_def emit_frame_def split: option.splits)

lemma set_phase_fields [simp]:
  "se_registered (set_phase t p s) = se_registered s"
  "se_record (set_phase t p s) = se_record s"
  "se_creating (set_phase t p s) = se_creating s"
  "se_operation (set_phase t p s) = se_operation s"
  "se_turn (set_phase t p s) = se_turn s"
  "se_stream (set_phase t p s) = se_stream s"
  "se_rules (set_phase t p s) = se_rules s"
  "se_alloc (set_phase t p s) = se_alloc s"
  "se_tasks (set_phase t p s) = se_tasks s"
  "se_calls (set_phase t p s) = se_calls s"
  "se_replies (set_phase t p s) = se_replies s"
  by (simp_all add: set_phase_def Let_def set_object_def append_done_def emit_frame_def split: option.splits)

lemma clear_turn_fields [simp]:
  "se_registered (clear_turn s) = se_registered s"
  "se_record (clear_turn s) = se_record s"
  "se_creating (clear_turn s) = se_creating s"
  "se_operation (clear_turn s) = se_operation s"
  "se_turns (clear_turn s) = se_turns s"
  "se_stream (clear_turn s) = se_stream s"
  "se_rules (clear_turn s) = se_rules s"
  "se_alloc (clear_turn s) = se_alloc s"
  "se_tasks (clear_turn s) = se_tasks s"
  "se_calls (clear_turn s) = se_calls s"
  "se_replies (clear_turn s) = se_replies s"
  "se_turn (clear_turn s) = None"
  by (simp_all add: clear_turn_def Let_def set_object_def append_done_def emit_frame_def split: option.splits)

lemma set_operation_fields [simp]:
  "se_registered (set_operation q s) = se_registered s"
  "se_record (set_operation q s) = se_record s"
  "se_creating (set_operation q s) = se_creating s"
  "se_turn (set_operation q s) = se_turn s"
  "se_turns (set_operation q s) = se_turns s"
  "se_stream (set_operation q s) = se_stream s"
  "se_rules (set_operation q s) = se_rules s"
  "se_alloc (set_operation q s) = se_alloc s"
  "se_tasks (set_operation q s) = se_tasks s"
  "se_calls (set_operation q s) = se_calls s"
  "se_replies (set_operation q s) = se_replies s"
  "se_operation (set_operation q s) = q"
  by (simp_all add: set_operation_def Let_def set_object_def append_done_def emit_frame_def split: option.splits)

lemma emit_frame_to_fields [simp]:
  "se_registered (emit_frame_to cf now t d raw s) = se_registered s"
  "se_record (emit_frame_to cf now t d raw s) = se_record s"
  "se_creating (emit_frame_to cf now t d raw s) = se_creating s"
  "se_operation (emit_frame_to cf now t d raw s) = se_operation s"
  "se_turn (emit_frame_to cf now t d raw s) = se_turn s"
  "se_turns (emit_frame_to cf now t d raw s) = se_turns s"
  "se_rules (emit_frame_to cf now t d raw s) = se_rules s"
  "se_alloc (emit_frame_to cf now t d raw s) = se_alloc s"
  "se_tasks (emit_frame_to cf now t d raw s) = se_tasks s"
  "se_calls (emit_frame_to cf now t d raw s) = se_calls s"
  "se_replies (emit_frame_to cf now t d raw s) = se_replies s"
  "st_failed (se_stream (emit_frame_to cf now t d raw s)) = st_failed (se_stream s)"
  by (simp_all add: emit_frame_to_def Let_def set_object_def append_done_def emit_frame_def split: option.splits)

lemma release_workspace_fields [simp]:
  "se_registered (release_workspace s) = se_registered s"
  "se_record (release_workspace s) = se_record s"
  "se_creating (release_workspace s) = se_creating s"
  "se_operation (release_workspace s) = se_operation s"
  "se_turn (release_workspace s) = se_turn s"
  "se_turns (release_workspace s) = se_turns s"
  "se_stream (release_workspace s) = se_stream s"
  "se_rules (release_workspace s) = se_rules s"
  "se_tasks (release_workspace s) = se_tasks s"
  "se_calls (release_workspace s) = se_calls s"
  "se_replies (release_workspace s) = se_replies s"
  "se_alloc (release_workspace s) = release (sid s) (se_alloc s)"
  by (simp_all add: release_workspace_def Let_def set_object_def append_done_def emit_frame_def split: option.splits)

lemma discard_staged_fields [simp]:
  "se_registered (discard_staged s) = se_registered s"
  "se_record (discard_staged s) = se_record s"
  "se_creating (discard_staged s) = se_creating s"
  "se_operation (discard_staged s) = se_operation s"
  "se_turn (discard_staged s) = se_turn s"
  "se_turns (discard_staged s) = se_turns s"
  "se_stream (discard_staged s) = se_stream s"
  "se_rules (discard_staged s) = se_rules s"
  "se_alloc (discard_staged s) = se_alloc s"
  "se_tasks (discard_staged s) = se_tasks s"
  "se_calls (discard_staged s) = se_calls s"
  "se_replies (discard_staged s) = se_replies s"
  by (simp_all add: discard_staged_def Let_def set_object_def append_done_def emit_frame_def split: option.splits)

lemma drop_ring_of_fields [simp]:
  "se_registered (drop_ring_of s) = se_registered s"
  "se_record (drop_ring_of s) = se_record s"
  "se_creating (drop_ring_of s) = se_creating s"
  "se_operation (drop_ring_of s) = se_operation s"
  "se_turn (drop_ring_of s) = se_turn s"
  "se_turns (drop_ring_of s) = se_turns s"
  "se_rules (drop_ring_of s) = se_rules s"
  "se_alloc (drop_ring_of s) = se_alloc s"
  "se_tasks (drop_ring_of s) = se_tasks s"
  "se_calls (drop_ring_of s) = se_calls s"
  "se_replies (drop_ring_of s) = se_replies s"
  "st_failed (se_stream (drop_ring_of s)) = st_failed (se_stream s)"
  by (simp_all add: drop_ring_of_def Let_def set_object_def append_done_def emit_frame_def split: option.splits)

lemma queue_moves_fields [simp]:
  "se_registered (queue_moves s) = se_registered s"
  "se_record (queue_moves s) = se_record s"
  "se_creating (queue_moves s) = se_creating s"
  "se_operation (queue_moves s) = se_operation s"
  "se_turn (queue_moves s) = se_turn s"
  "se_turns (queue_moves s) = se_turns s"
  "se_rules (queue_moves s) = se_rules s"
  "se_alloc (queue_moves s) = se_alloc s"
  "se_tasks (queue_moves s) = se_tasks s"
  "se_calls (queue_moves s) = se_calls s"
  "se_replies (queue_moves s) = se_replies s"
  "st_failed (se_stream (queue_moves s)) = st_failed (se_stream s)"
  by (simp_all add: queue_moves_def Let_def set_object_def append_done_def emit_frame_def split: option.splits)

lemma hold_rule_fields [simp]:
  "se_registered (hold_rule rule s) = se_registered s"
  "se_record (hold_rule rule s) = se_record s"
  "se_creating (hold_rule rule s) = se_creating s"
  "se_operation (hold_rule rule s) = se_operation s"
  "se_turn (hold_rule rule s) = se_turn s"
  "se_turns (hold_rule rule s) = se_turns s"
  "se_stream (hold_rule rule s) = se_stream s"
  "se_alloc (hold_rule rule s) = se_alloc s"
  "se_tasks (hold_rule rule s) = se_tasks s"
  "se_calls (hold_rule rule s) = se_calls s"
  "se_replies (hold_rule rule s) = se_replies s"
  by (simp_all add: hold_rule_def Let_def set_object_def append_done_def emit_frame_def split: option.splits)

lemma mark_ended_fields [simp]:
  "se_registered (mark_ended reason now s) = se_registered s"
  "se_creating (mark_ended reason now s) = se_creating s"
  "se_operation (mark_ended reason now s) = se_operation s"
  "se_turn (mark_ended reason now s) = se_turn s"
  "se_turns (mark_ended reason now s) = se_turns s"
  "se_stream (mark_ended reason now s) = se_stream s"
  "se_rules (mark_ended reason now s) = se_rules s"
  "se_alloc (mark_ended reason now s) = se_alloc s"
  "se_tasks (mark_ended reason now s) = se_tasks s"
  "se_calls (mark_ended reason now s) = se_calls s"
  "se_replies (mark_ended reason now s) = se_replies s"
  "sr_id (se_record (mark_ended reason now s)) = sr_id (se_record s)"
  "sr_owner (se_record (mark_ended reason now s)) = sr_owner (se_record s)"
  "sr_state (se_record (mark_ended reason now s)) = Ended"
  by (simp_all add: mark_ended_def Let_def set_object_def append_done_def emit_frame_def split: option.splits)


lemma fold_frame:
  "(\<And>x s. g (f x s) = g s) \<Longrightarrow> g (fold f xs s) = g s"
  by (induction xs arbitrary: s) simp_all

lemma log_audits_fields [simp]:
  "se_registered (log_audits t rs xs s) = se_registered s"
  "se_record (log_audits t rs xs s) = se_record s"
  "se_turn (log_audits t rs xs s) = se_turn s"
  "se_turns (log_audits t rs xs s) = se_turns s"
  "se_stream (log_audits t rs xs s) = se_stream s"
  "se_rules (log_audits t rs xs s) = se_rules s"
  "se_tasks (log_audits t rs xs s) = se_tasks s"
  unfolding log_audits_def by (rule fold_frame; simp split: prod.splits)+

end
