(* ===== verification/Session_Slot.thy ===== *)
theory Session_Slot
  imports Session_Frames
begin

text \<open>
  The single-writer slot of a session (I5, I8): a turn and an operation exclude each other, one
  operation runs at a time, and a session that has ended holds neither a turn nor its
  workspace.
\<close>

section \<open>The invariant\<close>

fun op_task :: "task \<Rightarrow> bool" where
  "op_task RemoveDrain = True"
| "op_task RemoveFlushed = True"
| "op_task RemoveStorage = True"
| "op_task (ReassignMeta _) = True"
| "op_task (RestoreRun _) = True"
| "op_task (RestoreReported _ _) = True"
| "op_task (RestoreList _ _) = True"
| "op_task (RestoreFailed _) = True"
| "op_task (RestoreOk _) = True"
| "op_task _ = False"

definition op_count :: "(nat option \<times> task) list \<Rightarrow> nat" where
  "op_count ts = length (filter (\<lambda>(_, k). op_task k) ts)"

definition unallocated :: "sess \<Rightarrow> bool" where
  "unallocated s = (jget (se_alloc s) (sid s) = None)"

definition snapshots_ok :: "sess \<Rightarrow> bool" where
  "snapshots_ok s =
     (\<forall>w r. (w, ReassignMeta r) \<in> set (se_tasks s) \<longrightarrow>
        sr_id r = sid s \<and> (sr_state r = Ended \<longrightarrow> unallocated s))"

definition slot_inv :: "sess \<Rightarrow> bool" where
  "slot_inv s =
     ((ended s \<longrightarrow> se_turn s = None \<and> unallocated s)
      \<and> (se_operation s \<noteq> None \<longrightarrow> se_turn s = None)
      \<and> op_count (se_tasks s) \<le> (if se_operation s = None then 0 else 1)
      \<and> snapshots_ok s)"

lemma op_count_simps [simp]:
  "op_count [] = 0"
  "op_count ((w, k) # ts) = (if op_task k then Suc (op_count ts) else op_count ts)"
  "op_count (xs @ ys) = op_count xs + op_count ys"
  by (simp_all add: op_count_def)

lemma remove_nth_split:
  "i < length xs \<Longrightarrow> xs = take i xs @ xs ! i # drop (Suc i) xs"
  by (rule id_take_nth_drop)

lemma set_remove_nth: "set (remove_nth i xs) \<subseteq> set xs"
  unfolding remove_nth_def by (auto dest: in_set_takeD in_set_dropD)

lemma op_count_remove_nth:
  "i < length ts \<Longrightarrow> ts ! i = (w, k) \<Longrightarrow>
   op_count ts = (if op_task k then Suc (op_count (remove_nth i ts)) else op_count (remove_nth i ts))"
proof -
  assume i: "i < length ts" and k: "ts ! i = (w, k)"
  have "op_count ts = op_count (take i ts @ ts ! i # drop (Suc i) ts)"
    using remove_nth_split [OF i] by simp
  then show ?thesis by (simp add: k remove_nth_def)
qed

text \<open>What stays of the reservations of a session that has none.\<close>

lemma none_after_update: "jget rs i = None \<Longrightarrow> jget (update_reservation j f rs) i = None"
  by (auto simp: update_reservation_def jget_jset split: option.splits)

lemma none_after_exclusive:
  "jget rs i = None \<Longrightarrow> exclusive w j rs = Inr (al, x) \<Longrightarrow> jget al i = None"
  by (auto simp: exclusive_def Let_def jget_jset split: option.splits if_splits)

lemma none_after_other: "op_of_other i a \<Longrightarrow> jget rs i = None \<Longrightarrow> jget (alloc_step w m rs a) i = None"
  by (cases a)
    (auto simp: activate_def reassign_def release_exclusive_def release_def none_after_update reserve_def
      Let_def jget_jset jget_jdel dest: none_after_exclusive split: sum.splits if_splits option.splits prod.splits)

lemmas slot_defs = slot_inv_def snapshots_ok_def unallocated_def ended_def sid_def failed_def

section \<open>Ticks that hold no operation\<close>

lemma slot_updates [simp]:
  "slot_inv (call c s) = slot_inv s"
  "slot_inv (reply r s) = slot_inv s"
  "slot_inv (set_object t x s) = slot_inv s"
  "slot_inv (set_pending t p s) = slot_inv s"
  "slot_inv (set_flying t f s) = slot_inv s"
  "slot_inv (set_phase t q s) = slot_inv s"
  "slot_inv (emit cf now tt d raw s) = slot_inv s"
  "slot_inv (emit_frame_to cf now tt d raw s) = slot_inv s"
  "slot_inv (deliver now tt d s) = slot_inv s"
  "slot_inv (queue_moves s) = slot_inv s"
  "slot_inv (hold_rule rule s) = slot_inv s"
  "slot_inv (drop_ring_of s) = slot_inv s"
  "slot_inv (discard_staged s) = slot_inv s"
  by (simp_all add: slot_defs)

lemma slot_post [simp]:
  "\<not> op_task k \<Longrightarrow> slot_inv (post w k s) = slot_inv s"
  by (auto simp: slot_defs)

lemma slot_emit_then [simp]:
  "\<not> op_task k \<Longrightarrow> slot_inv (emit_then cf now t d k s) = slot_inv s"
  by (simp add: emit_then_def)

lemma slot_clear_turn [simp]: "slot_inv s \<Longrightarrow> slot_inv (clear_turn s)"
  by (auto simp: slot_defs)

lemma slot_fold [simp]: "(\<And>x s. slot_inv (f x s) = slot_inv s) \<Longrightarrow> slot_inv (fold f xs s) = slot_inv s"
  by (induction xs arbitrary: s) simp_all

lemma slot_other_fields [simp]:
  "slot_inv (s\<lparr>se_uploads := us\<rparr>) = slot_inv s"
  "slot_inv (s\<lparr>se_has_run_a_turn := b\<rparr>) = slot_inv s"
  "slot_inv (s\<lparr>se_live_pid := q\<rparr>) = slot_inv s"
  "slot_inv (s\<lparr>se_tool_writes := n\<rparr>) = slot_inv s"
  "slot_inv (s\<lparr>se_muted := b\<rparr>) = slot_inv s"
  "slot_inv (s\<lparr>se_checkpoints_available := b\<rparr>) = slot_inv s"
  "slot_inv (s\<lparr>se_first_turn_announced := b\<rparr>) = slot_inv s"
  "slot_inv (s\<lparr>se_stream := st\<rparr>) = slot_inv s"
  "slot_inv (s\<lparr>se_registered := b\<rparr>) = slot_inv s"
  "slot_inv (s\<lparr>se_record := (se_record s)\<lparr>sr_name := nm\<rparr>\<rparr>) = slot_inv s"
  "slot_inv (s\<lparr>se_record := (se_record s)\<lparr>sr_cli_session_id := c\<rparr>\<rparr>) = slot_inv s"
  by (simp_all add: slot_defs)

lemma slot_claim_turn:
  "slot_inv s \<Longrightarrow> \<not> ended s \<Longrightarrow> se_operation s = None \<Longrightarrow> slot_inv (claim_turn now t s)"
  by (auto simp: slot_defs claim_turn_def)

lemma send_refusal_NoneD:
  "send_refusal cf owner atts s = None \<Longrightarrow>
   owned owner s \<and> \<not> ended s \<and> \<not> se_creating s \<and> se_operation s = None \<and> se_turn s = None
   \<and> (atts = [] \<or> se_accepts s) \<and> length atts \<le> attachment_count (cf_caps cf)"
  by (auto simp: send_refusal_def busy_operation_def busy_turn_def split: if_splits option.splits)

lemma slot_send_message: "slot_inv s \<Longrightarrow> slot_inv (send_message cf now owner msg atts model tid aids s)"
  by (auto simp: send_message_def Let_def case_prod_beta ended_def
      split: option.splits sum.splits prod.splits
      intro!: slot_claim_turn dest!: send_refusal_NoneD)

lemma slot_send_rest:
  assumes "slot_inv s"
  shows "slot_inv (send_gone c s)" "slot_inv (send_gone_reply s)" "slot_inv (send_unwritten e s)"
    "slot_inv (send_open cf now c s)" "slot_inv (send_written cf now c rs s)"
    "slot_inv (send_checkpointed cf now c r s)" "slot_inv (send_started cf now c s)"
    "slot_inv (send_spawn c s)" "slot_inv (send_messaged cf now c s)" "slot_inv (send_fail_kill c ae s)"
    "slot_inv (send_sent cf now c r' s)" "slot_inv (send_fail_killed cf now c ae s)"
    "slot_inv (send_fail_ended ae s)"
  using assms
  by (simp_all add: send_gone_def send_gone_reply_def send_unwritten_def send_open_def send_written_def
      send_checkpointed_def send_started_def send_spawn_def send_messaged_def send_fail_kill_def send_sent_def
      send_fail_killed_def send_fail_ended_def rollback_then_def
      split: option.splits sum.splits prod.splits adapter_error.splits)

lemma slot_permissions:
  assumes "slot_inv s"
  shows "slot_inv (answer_permission cf now owner a s)" "slot_inv (resolve_preapproved now t q rule s)"
    "slot_inv (final_done f v s)" "slot_inv (final_resolved cf now f v n s)"
    "slot_inv (finalize_audited cf now f ap re s)"
    "slot_inv (final_cancel_audited now f n w ap s)" "slot_inv (final_cancelled cf now f n b s)"
proof -
  have d: "slot_inv (final_done f v s) = slot_inv s" for f v s
    by (simp add: final_done_def)
  have r: "slot_inv (final_resolved cf now f v n s) = slot_inv s" for cf now f v n s
    by (simp add: final_resolved_def d)
  have roc: "slot_inv (respond_or_cancel cf now f dn re i n rs s) = slot_inv s" for cf now f dn re i n rs s
    by (simp add: respond_or_cancel_def Let_def r split: sum.splits adapter_error.splits)
  show "slot_inv (answer_permission cf now owner a s)" "slot_inv (resolve_preapproved now t q rule s)"
    "slot_inv (final_done f v s)" "slot_inv (final_resolved cf now f v n s)"
    "slot_inv (finalize_audited cf now f ap re s)"
    "slot_inv (final_cancel_audited now f n w ap s)" "slot_inv (final_cancelled cf now f n b s)"
    using assms
    by (simp_all add: answer_permission_def resolve_preapproved_def claim_request_def d r
        finalize_audited_def roc final_cancel_audited_def final_cancelled_def Let_def
        split: option.splits sum.splits)
qed

lemma slot_log_audits [simp]: "slot_inv (log_audits t rs xs s) = slot_inv s"
  unfolding log_audits_def by (rule slot_fold) (simp split: prod.splits)

lemma slot_notifications:
  assumes "slot_inv s"
  shows "slot_inv (handle_notification cf now n s)" "slot_inv (cli_announced s)"
    "slot_inv (spawn_recorded cf now t pid pgid img x s)" "slot_inv (sweep_audited cf now t rs xs s)"
proof -
  have sw: "slot_inv (emit_swept cf now t cs s) = slot_inv s" for t cs s
    unfolding emit_swept_def by (rule slot_fold) (simp split: prod.splits)
  have ex: "slot_inv (exited cf now s)"
    using assms by (simp add: exited_def Let_def sw split: option.splits)
  have ev: "slot_inv (handle_event cf now e s)" for e
    using assms
    by (simp add: handle_event_def event_without_turn_def event_in_turn_def note_request_def start_tool_write_def
        Let_def split: option.splits payload.splits)
  show "slot_inv (handle_notification cf now n s)" "slot_inv (cli_announced s)"
    "slot_inv (spawn_recorded cf now t pid pgid img x s)" "slot_inv (sweep_audited cf now t rs xs s)"
    using assms
    by (simp_all add: handle_notification_def ex ev cli_session_def spawned_def cli_announced_def spawn_recorded_def
        sweep_audited_def Let_def split: adapter_notification.splits option.splits)
qed

lemma slot_simple_methods:
  assumes "slot_inv s"
  shows "slot_inv (interrupt owner t s)" "slot_inv (rename_session owner nm s)"
    "slot_inv (end_announce cf now s)" "slot_inv (append_event cf now owner d s)"
    "slot_inv (append_answered e s)" "slot_inv (shutdown s)" "slot_inv (shutdown_killed pid s)"
    "slot_inv (fail_closed now s)" "slot_inv (fail_meta_written now topt s)"
    "slot_inv (fail_audited now t rs xs s)"
proof -
  have fc: "slot_inv (fail_closed now s) = slot_inv s" for s
    by (simp add: fail_closed_def)
  have dc: "slot_inv (deliver_cancelled now t cs s) = slot_inv s" for t cs s
    unfolding deliver_cancelled_def by (rule slot_fold) (simp split: prod.splits)
  show "slot_inv (interrupt owner t s)" "slot_inv (rename_session owner nm s)"
    "slot_inv (end_announce cf now s)" "slot_inv (append_event cf now owner d s)"
    "slot_inv (append_answered e s)" "slot_inv (shutdown s)" "slot_inv (shutdown_killed pid s)"
    "slot_inv (fail_closed now s)" "slot_inv (fail_meta_written now topt s)"
    "slot_inv (fail_audited now t rs xs s)"
    using assms
    by (simp_all add: interrupt_def rename_session_def end_announce_def append_event_def append_answered_def
        shutdown_def shutdown_killed_def fc dc fail_meta_written_def fail_audited_def Let_def
        split: option.splits)
qed

section \<open>Ticks that end a session or hold an operation\<close>

lemma slot_mark_ended:
  "slot_inv s \<Longrightarrow> se_turn s = None \<Longrightarrow> slot_inv (release_workspace (mark_ended reason now s))"
  by (auto simp: slot_defs release_def)

lemma slot_end_session: "slot_inv s \<Longrightarrow> slot_inv (end_session now owner s)"
proof -
  assume inv: "slot_inv s"
  have "release_workspace (discard_staged (mark_ended ByOperator now s))
      = discard_staged (release_workspace (mark_ended ByOperator now s))"
    by (simp add: release_workspace_def discard_staged_def sid_def)
  with inv show ?thesis
    by (simp add: end_session_def Let_def busy_turn_def slot_mark_ended split: option.splits)
qed

lemma slot_storage_failed: "slot_inv s \<Longrightarrow> slot_inv (storage_failed now s)"
  by (simp add: storage_failed_def Let_def slot_mark_ended)

lemma slot_append_settled: "slot_inv s \<Longrightarrow> slot_inv (append_settled now r s)"
  by (simp add: append_settled_def slot_storage_failed split: sum.splits)

text \<open>While an operation's task is being resumed it is the only one, and there is no turn.\<close>

definition operating :: "sess \<Rightarrow> bool" where
  "operating s = (slot_inv s \<and> se_operation s \<noteq> None \<and> op_count (se_tasks s) = 0)"

lemma operating_slot: "operating s \<Longrightarrow> slot_inv s"
  by (simp add: operating_def)

lemma operating_updates [simp]:
  "operating (call c s) = operating s"
  "operating (reply r s) = operating s"
  "operating (emit cf now tt d raw s) = operating s"
  "operating (discard_staged s) = operating s"
  "operating (drop_ring_of s) = operating s"
  "operating (s\<lparr>se_registered := b\<rparr>) = operating s"
  "operating (s\<lparr>se_stream := st\<rparr>) = operating s"
  by (simp_all add: operating_def)

lemma slot_post_op:
  "operating s \<Longrightarrow> (\<And>r. k \<noteq> ReassignMeta r) \<Longrightarrow> slot_inv (post w k s)"
  by (cases "op_task k") (auto simp: operating_def slot_defs)

lemma slot_release: "operating s \<Longrightarrow> slot_inv (set_operation None s)"
  by (auto simp: operating_def slot_defs)

lemma no_op_tasks: "op_count ts = 0 \<Longrightarrow> (w, k) \<in> set ts \<Longrightarrow> \<not> op_task k"
  by (auto simp: op_count_def filter_empty_conv)

lemma operating_start:
  "slot_inv s \<Longrightarrow> se_operation s = None \<Longrightarrow> se_turn s = None \<Longrightarrow> operating (set_operation (Some x) s)"
  by (auto simp: operating_def slot_defs)

lemma operating_realloc:
  "operating s \<Longrightarrow> (unallocated s \<Longrightarrow> jget al (sid s) = None) \<Longrightarrow> operating (s\<lparr>se_alloc := al\<rparr>)"
  by (auto simp: operating_def slot_defs)

lemma slot_realloc:
  "slot_inv s \<Longrightarrow> (unallocated s \<Longrightarrow> jget al (sid s) = None) \<Longrightarrow> slot_inv (s\<lparr>se_alloc := al\<rparr>)"
  by (auto simp: slot_defs)

lemma operating_release_workspace [simp]: "operating s \<Longrightarrow> operating (release_workspace s)"
  by (auto simp: release_workspace_def release_def intro!: operating_realloc)

lemma slot_remove:
  "slot_inv s \<Longrightarrow> slot_inv (remove_session owner claim s)"
  "operating s \<Longrightarrow> slot_inv (remove_drained s)"
  "operating s \<Longrightarrow> slot_inv (remove_flushed s)"
  by (auto simp: remove_session_def remove_drained_def remove_flushed_def
      busy_operation_def busy_turn_def split: option.splits if_splits
      intro!: slot_post_op operating_start)

lemma slot_remove_destroyed: "operating s \<Longrightarrow> slot_inv (remove_destroyed now d e s)"
  by (auto simp: remove_destroyed_def Let_def intro!: operating_slot)

lemma slot_restore_finally: "operating s \<Longrightarrow> slot_inv (restore_finally r s)"
  by (auto simp: restore_finally_def release_exclusive_def none_after_update unallocated_def
      intro!: slot_release operating_realloc)

lemma slot_restore:
  "slot_inv s \<Longrightarrow> slot_inv (restore_checkpoint cf owner sha claim s)"
  "operating s \<Longrightarrow> slot_inv (restore_ran cf now sha r s)"
  "operating s \<Longrightarrow> slot_inv (restore_listed cf now e l s)"
proof -
  assume inv: "slot_inv s"
  then show "slot_inv (restore_checkpoint cf owner sha claim s)"
    by (auto simp: restore_checkpoint_def busy_operation_def busy_turn_def unallocated_def sid_def
        split: option.splits if_splits sum.splits prod.splits
        intro!: slot_post_op operating_start slot_realloc)
      (blast intro: none_after_exclusive)+
next
  assume "operating s"
  then show "slot_inv (restore_ran cf now sha r s)" "slot_inv (restore_listed cf now e l s)"
    by (auto simp: restore_ran_def restore_listed_def emit_then_def slot_restore_finally
        split: sum.splits checkpoint_error.splits list.splits intro!: slot_post_op)
qed

lemma slot_reassign_principal: "slot_inv s \<Longrightarrow> slot_inv (reassign_principal owner claim s)"
  by (auto simp: reassign_principal_def Let_def slot_defs)

lemma slot_reassigned:
  assumes "operating s" "sr_id r = sid s" "sr_state r = Ended \<Longrightarrow> unallocated s"
  shows "slot_inv (reassigned r w s)"
proof (cases w)
  case (Inl e)
  then show ?thesis using assms by (simp add: reassigned_def slot_release)
next
  case (Inr u)
  let ?s = "s\<lparr>se_record := r, se_alloc := reassign (sr_id r) (sr_owner r) (se_alloc s)\<rparr>"
  have "operating ?s"
    using assms no_op_tasks [of "se_tasks s"]
    by (auto simp: operating_def slot_defs reassign_def none_after_update)
  with Inr show ?thesis
    by (simp add: reassigned_def Let_def slot_release sid_def)
qed

section \<open>Every tick\<close>

lemma slot_resumed:
  assumes "slot_inv s" "i < length (se_tasks s)" "se_tasks s ! i = (w, k)"
  shows "slot_inv (s\<lparr>se_tasks := remove_nth i (se_tasks s)\<rparr>)"
    and "op_task k \<Longrightarrow> operating (s\<lparr>se_tasks := remove_nth i (se_tasks s)\<rparr>)"
    and "k = ReassignMeta r \<Longrightarrow> sr_id r = sid s \<and> (sr_state r = Ended \<longrightarrow> unallocated s)"
proof -
  have sub: "set (remove_nth i (se_tasks s)) \<subseteq> set (se_tasks s)" by (rule set_remove_nth)
  have cnt: "op_count (se_tasks s) = (if op_task k then Suc (op_count (remove_nth i (se_tasks s)))
      else op_count (remove_nth i (se_tasks s)))"
    using assms op_count_remove_nth by blast
  have mem: "(w, k) \<in> set (se_tasks s)" using assms by (metis nth_mem)
  show "slot_inv (s\<lparr>se_tasks := remove_nth i (se_tasks s)\<rparr>)"
    using assms(1) sub cnt by (auto simp: slot_defs split: if_splits)
  moreover show "k = ReassignMeta r \<Longrightarrow> sr_id r = sid s \<and> (sr_state r = Ended \<longrightarrow> unallocated s)"
    using assms(1) mem by (auto simp: slot_inv_def snapshots_ok_def)
  ultimately show "op_task k \<Longrightarrow> operating (s\<lparr>se_tasks := remove_nth i (se_tasks s)\<rparr>)"
    using assms(1) cnt by (auto simp: operating_def slot_inv_def split: if_splits)
qed

lemma slot_resume:
  assumes "slot_inv s" "op_task k \<Longrightarrow> operating s"
    "\<And>r. k = ReassignMeta r \<Longrightarrow> sr_id r = sid s \<and> (sr_state r = Ended \<longrightarrow> unallocated s)"
    "resume cf now k r s = Some s'"
  shows "slot_inv s'"
proof -
  from assms(4) consider "resume_send cf now k r s = Some s'" | "resume_permission cf now k r s = Some s'"
    | "resume_method cf now k r s = Some s'"
    by (auto simp: resume_def split: option.splits)
  then show ?thesis
  proof cases
    case 1
    then show ?thesis using assms(1)
      by (auto simp: resume_send_def slot_send_rest split: task.splits outcome.splits if_splits)
  next
    case 2
    then show ?thesis using assms(1)
      by (auto simp: resume_permission_def slot_permissions slot_notifications
          split: task.splits outcome.splits if_splits)
  next
    case 3
    then show ?thesis using assms(1-3)
      by (auto simp: resume_method_def slot_simple_methods slot_remove slot_remove_destroyed slot_restore
          slot_restore_finally split: task.splits outcome.splits if_splits
          intro!: slot_reassigned slot_post_op)
  qed
qed

lemma slot_step: "slot_inv s \<Longrightarrow> slot_inv (step cf m ttl now e s)"
proof (cases e)
  case (Resume i r)
  assume inv: "slot_inv s"
  let ?s = "s\<lparr>se_tasks := remove_nth i (se_tasks s)\<rparr>"
  have "slot_inv s'" if "i < length (se_tasks s)" "se_tasks s ! i = (w, k)" "resume cf now k r ?s = Some s'" for w k s'
  proof (rule slot_resume [OF _ _ _ that(3)])
    show "slot_inv ?s" using inv that(1,2) by (rule slot_resumed)
    show "op_task k \<Longrightarrow> operating ?s" using inv that(1,2) by (blast intro: slot_resumed(2))
    show "k = ReassignMeta x \<Longrightarrow> sr_id x = sid ?s \<and> (sr_state x = Ended \<longrightarrow> unallocated ?s)" for x
      using slot_resumed(3) [OF inv that(1,2)] by (simp add: sid_def unallocated_def)
  qed
  with inv Resume show ?thesis
    by (simp split: prod.splits option.splits)
next
  case (OtherWorkspace a)
  assume "slot_inv s"
  with OtherWorkspace show ?thesis
    by (auto simp: unallocated_def intro!: slot_realloc none_after_other)
next
  case Published
  assume "slot_inv s"
  with Published show ?thesis
    by (auto simp: slot_defs activate_def none_after_update)
qed (simp_all add: slot_send_message slot_permissions slot_simple_methods slot_end_session slot_remove
    slot_restore slot_reassign_principal slot_notifications slot_append_settled)

lemma slot_run: "slot_inv s \<Longrightarrow> slot_inv (run cf m ttl es s)"
  unfolding run_def by (induction es arbitrary: s) (auto simp: slot_step split: prod.splits)

lemma slot_created: "sr_state r = Live \<Longrightarrow> slot_inv (created_entry r accepts al us)"
  by (simp add: slot_defs created_entry_def)

lemma slot_rehydrated:
  "jget al (sr_id r) = None \<Longrightarrow> slot_inv (rehydrated_entry r creating al us)"
  by (simp add: slot_defs rehydrated_entry_def created_entry_def)

end
