(* ===== verification/Session_Transcript.thy ===== *)
theory Session_Transcript
  imports Session_Frames
begin

text \<open>
  The transcript of a session (I1, I2, I27): whatever the interleaving of calls, notifications,
  appends and failures, the envelopes the subscribers receive carry consecutive sequence
  numbers, the ring and the spill hold what was delivered, and the record's \<open>lastSeq\<close> never
  runs ahead.
\<close>

section \<open>The invariant\<close>

definition spill_tasks_ok :: "sess \<Rightarrow> bool" where
  "spill_tasks_ok s = (\<forall>w k. (w, k) \<in> set (se_tasks s) \<longrightarrow> spill_task k \<longrightarrow> failed s)"

definition last_seq_ok :: "sess \<Rightarrow> bool" where
  "last_seq_ok s =
     (sr_last_seq (se_record s) \<le> st_seq (se_stream s)
      \<and> (\<forall>w r. (w, ReassignMeta r) \<in> set (se_tasks s) \<longrightarrow> sr_last_seq r \<le> st_seq (se_stream s)))"

definition transcript_inv :: "config \<Rightarrow> nat \<Rightarrow> sess \<Rightarrow> bool" where
  "transcript_inv cf n s =
     ((se_registered s \<longrightarrow> stream_inv (ring_capacity (cf_caps cf)) n (se_stream s))
      \<and> spill_tasks_ok s \<and> last_seq_ok s)"

fun plain_task :: "task \<Rightarrow> bool" where
  "plain_task (ReassignMeta _) = False"
| "plain_task (FailMeta _) = False"
| "plain_task (FailAudits _ _) = False"
| "plain_task FailKilled = False"
| "plain_task _ = True"

lemmas transcript_defs = transcript_inv_def spill_tasks_ok_def last_seq_ok_def failed_def

lemma st_seq_mono:
  "st_seq (se_stream s) \<le> st_seq (se_stream (emit cf now t d raw s))"
  "st_seq (se_stream s) \<le> st_seq (se_stream (deliver now t d s))"
  by (simp_all add: emit_def with_stream_def emit_stream_def deliver_def deliver_direct_def Let_def)

section \<open>Elementary updates\<close>

lemma transcript_updates [simp]:
  "transcript_inv cf n (call c s) = transcript_inv cf n s"
  "transcript_inv cf n (reply r s) = transcript_inv cf n s"
  "transcript_inv cf n (set_object t x s) = transcript_inv cf n s"
  "transcript_inv cf n (set_pending t p s) = transcript_inv cf n s"
  "transcript_inv cf n (set_flying t f s) = transcript_inv cf n s"
  "transcript_inv cf n (set_phase t q s) = transcript_inv cf n s"
  "transcript_inv cf n (clear_turn s) = transcript_inv cf n s"
  "transcript_inv cf n (set_operation z s) = transcript_inv cf n s"
  "transcript_inv cf n (release_workspace s) = transcript_inv cf n s"
  "transcript_inv cf n (discard_staged s) = transcript_inv cf n s"
  "transcript_inv cf n (hold_rule rule s) = transcript_inv cf n s"
  by (simp_all add: transcript_defs)

lemma transcript_other_fields [simp]:
  "transcript_inv cf n (s\<lparr>se_uploads := us\<rparr>) = transcript_inv cf n s"
  "transcript_inv cf n (s\<lparr>se_alloc := al\<rparr>) = transcript_inv cf n s"
  "transcript_inv cf n (s\<lparr>se_has_run_a_turn := b\<rparr>) = transcript_inv cf n s"
  "transcript_inv cf n (s\<lparr>se_live_pid := q\<rparr>) = transcript_inv cf n s"
  "transcript_inv cf n (s\<lparr>se_tool_writes := k\<rparr>) = transcript_inv cf n s"
  "transcript_inv cf n (s\<lparr>se_muted := b\<rparr>) = transcript_inv cf n s"
  "transcript_inv cf n (s\<lparr>se_creating := b\<rparr>) = transcript_inv cf n s"
  "transcript_inv cf n (s\<lparr>se_checkpoints_available := b\<rparr>) = transcript_inv cf n s"
  "transcript_inv cf n (s\<lparr>se_first_turn_announced := b\<rparr>) = transcript_inv cf n s"
  "transcript_inv cf n (s\<lparr>se_turn := x\<rparr>) = transcript_inv cf n s"
  "transcript_inv cf n (s\<lparr>se_record := (se_record s)\<lparr>sr_name := nm\<rparr>\<rparr>) = transcript_inv cf n s"
  "transcript_inv cf n (s\<lparr>se_record := (se_record s)\<lparr>sr_cli_session_id := c\<rparr>\<rparr>) = transcript_inv cf n s"
  "transcript_inv cf n (mark_ended reason now s) = transcript_inv cf n s"
  by (simp_all add: transcript_defs mark_ended_def)

lemma transcript_stream:
  assumes "transcript_inv cf n s" "st_seq (se_stream s) \<le> st_seq st" "failed s \<longrightarrow> st_failed st"
    "stream_inv (ring_capacity (cf_caps cf)) n (se_stream s) \<Longrightarrow> stream_inv (ring_capacity (cf_caps cf)) n st"
  shows "transcript_inv cf n (s\<lparr>se_stream := st\<rparr>)" "transcript_inv cf n (with_stream st s)"
  using assms by (auto simp: transcript_defs with_stream_def) (meson le_trans)+

lemma transcript_emit [intro!]:
  "transcript_inv cf n s \<Longrightarrow> transcript_inv cf n (emit cf now t d raw s)"
  unfolding emit_def
  by (auto intro!: transcript_stream stream_inv_emit)
    (auto simp: failed_def emit_stream_def Let_def)

lemma transcript_frame [intro!]:
  "transcript_inv cf n s \<Longrightarrow> transcript_inv cf n (emit_frame_to cf now t d raw s)"
  unfolding emit_frame_to_def
  by (auto intro!: transcript_stream stream_inv_frame) (auto simp: failed_def emit_frame_def)

lemma transcript_deliver:
  "transcript_inv cf n s \<Longrightarrow> failed s \<Longrightarrow> transcript_inv cf n (deliver now t d s) \<and> failed (deliver now t d s)"
  unfolding deliver_def
  by (auto intro!: transcript_stream stream_inv_deliver_direct)
    (auto simp: failed_def deliver_direct_def with_stream_def)

lemma transcript_queue_moves:
  "transcript_inv cf n s \<Longrightarrow> failed s \<Longrightarrow> transcript_inv cf n (queue_moves s)"
  unfolding queue_moves_def
  by (auto intro!: transcript_stream stream_inv_append_done) (auto simp: failed_def append_done_def)

lemma plain_taskD: "plain_task k \<Longrightarrow> \<not> spill_task k \<and> k \<noteq> ReassignMeta r"
  by (cases k) auto

lemma transcript_post [intro!]:
  "transcript_inv cf n s \<Longrightarrow> plain_task k \<Longrightarrow> transcript_inv cf n (post w k s)"
  by (auto simp: transcript_defs dest: plain_taskD)

lemma transcript_post_spill:
  "transcript_inv cf n s \<Longrightarrow> failed s \<Longrightarrow> spill_task k \<Longrightarrow> transcript_inv cf n (post w k s)"
  by (auto simp: transcript_defs)

lemma transcript_emit_then [intro!]:
  "transcript_inv cf n s \<Longrightarrow> plain_task k \<Longrightarrow> transcript_inv cf n (emit_then cf now t d k s)"
  unfolding emit_then_def by blast

lemma transcript_fold:
  "(\<And>x s. transcript_inv cf n s \<Longrightarrow> transcript_inv cf n (f x s)) \<Longrightarrow> transcript_inv cf n s
   \<Longrightarrow> transcript_inv cf n (fold f xs s)"
  by (induction xs arbitrary: s) simp_all

lemma transcript_fold_eq [simp]:
  "(\<And>x s. transcript_inv cf n (f x s) = transcript_inv cf n s) \<Longrightarrow>
   transcript_inv cf n (fold f xs s) = transcript_inv cf n s"
  by (induction xs arbitrary: s) simp_all

section \<open>Handlers\<close>

lemma transcript_send:
  assumes "transcript_inv cf n s"
  shows "transcript_inv cf n (send_message cf now owner msg atts model tid aids s)"
    "transcript_inv cf n (send_gone c s)" "transcript_inv cf n (send_gone_reply s)"
    "transcript_inv cf n (send_unwritten e s)"
    "transcript_inv cf n (send_open cf now c s)" "transcript_inv cf n (send_written cf now c rs s)"
    "transcript_inv cf n (send_checkpointed cf now c r s)" "transcript_inv cf n (send_started cf now c s)"
    "transcript_inv cf n (send_spawn c s)" "transcript_inv cf n (send_messaged cf now c s)"
    "transcript_inv cf n (send_fail_kill c ae s)"
    "transcript_inv cf n (send_sent cf now c r' s)" "transcript_inv cf n (send_fail_killed cf now c ae s)"
    "transcript_inv cf n (send_fail_ended ae s)"
proof -
  have w: "transcript_inv cf n (fold (\<lambda>(r, d). call (CallWriteAttachment tid r d)) ps s) = transcript_inv cf n s"
    for ps s by (rule transcript_fold_eq) (simp split: prod.splits)
  show "transcript_inv cf n (send_message cf now owner msg atts model tid aids s)"
    using assms by (auto simp: send_message_def Let_def w claim_turn_def split: option.splits sum.splits prod.splits)
  show "transcript_inv cf n (send_gone c s)" "transcript_inv cf n (send_gone_reply s)"
    "transcript_inv cf n (send_unwritten e s)"
    "transcript_inv cf n (send_open cf now c s)" "transcript_inv cf n (send_written cf now c rs s)"
    "transcript_inv cf n (send_checkpointed cf now c r s)" "transcript_inv cf n (send_started cf now c s)"
    "transcript_inv cf n (send_spawn c s)" "transcript_inv cf n (send_messaged cf now c s)"
    "transcript_inv cf n (send_fail_kill c ae s)"
    "transcript_inv cf n (send_sent cf now c r' s)" "transcript_inv cf n (send_fail_killed cf now c ae s)"
    "transcript_inv cf n (send_fail_ended ae s)"
    using assms
    by (auto simp: send_gone_def send_gone_reply_def send_unwritten_def send_open_def send_written_def
        send_checkpointed_def send_started_def send_spawn_def send_messaged_def send_fail_kill_def send_sent_def
        send_fail_killed_def send_fail_ended_def rollback_then_def
        split: option.splits sum.splits prod.splits adapter_error.splits)
qed

lemma transcript_permissions:
  assumes "transcript_inv cf n s"
  shows "transcript_inv cf n (answer_permission cf now owner a s)"
    "transcript_inv cf n (resolve_preapproved now t q rule s)"
    "transcript_inv cf n (final_done f v s)" "transcript_inv cf n (final_resolved cf now f v b s)"
    "transcript_inv cf n (finalize_audited cf now f ap re s)"
    "transcript_inv cf n (final_cancel_audited now f b w ap s)"
    "transcript_inv cf n (final_cancelled cf now f b b' s)"
proof -
  have d: "transcript_inv cf n (final_done f v s) = transcript_inv cf n s" for f v s
    by (simp add: final_done_def)
  have r: "transcript_inv cf n s \<Longrightarrow> transcript_inv cf n (final_resolved cf now f v b s)" for now f v b s
    by (auto simp: final_resolved_def d)
  have roc: "transcript_inv cf n s \<Longrightarrow> transcript_inv cf n (respond_or_cancel cf now f dn re i b rs s)"
    for now f dn re i b rs s
    by (auto simp: respond_or_cancel_def Let_def intro!: r split: sum.splits adapter_error.splits)
  show "transcript_inv cf n (answer_permission cf now owner a s)"
    "transcript_inv cf n (resolve_preapproved now t q rule s)"
    "transcript_inv cf n (final_done f v s)" "transcript_inv cf n (final_resolved cf now f v b s)"
    "transcript_inv cf n (finalize_audited cf now f ap re s)"
    "transcript_inv cf n (final_cancel_audited now f b w ap s)"
    "transcript_inv cf n (final_cancelled cf now f b b' s)"
    using assms
    by (auto simp: answer_permission_def resolve_preapproved_def claim_request_def d r
        finalize_audited_def roc final_cancel_audited_def final_cancelled_def Let_def
        split: option.splits sum.splits)
qed

lemma transcript_log_audits [simp]: "transcript_inv cf n (log_audits t rs xs s) = transcript_inv cf n s"
  unfolding log_audits_def by (rule transcript_fold_eq) (simp split: prod.splits)

lemma transcript_notifications:
  assumes "transcript_inv cf n s"
  shows "transcript_inv cf n (handle_notification cf now nt s)" "transcript_inv cf n (cli_announced s)"
    "transcript_inv cf n (spawn_recorded cf now t pid pgid img x s)"
    "transcript_inv cf n (sweep_audited cf now t rs xs s)"
proof -
  have sw: "transcript_inv cf n s \<Longrightarrow> transcript_inv cf n (emit_swept cf now t cs s)" for t cs s
    unfolding emit_swept_def by (rule transcript_fold) (auto split: prod.splits)
  have ex: "transcript_inv cf n (exited cf now s)"
    using assms by (auto simp: exited_def Let_def intro!: sw split: option.splits)
  have ev: "transcript_inv cf n (handle_event cf now e s)" for e
    using assms
    by (auto simp: handle_event_def event_without_turn_def event_in_turn_def note_request_def start_tool_write_def
        Let_def split: option.splits payload.splits)
  show "transcript_inv cf n (handle_notification cf now nt s)" "transcript_inv cf n (cli_announced s)"
    "transcript_inv cf n (spawn_recorded cf now t pid pgid img x s)"
    "transcript_inv cf n (sweep_audited cf now t rs xs s)"
    using assms
    by (auto simp: handle_notification_def ex ev cli_session_def spawned_def cli_announced_def spawn_recorded_def
        sweep_audited_def Let_def split: adapter_notification.splits option.splits)
qed

lemma transcript_methods:
  assumes "transcript_inv cf n s"
  shows "transcript_inv cf n (interrupt owner t s)" "transcript_inv cf n (rename_session owner nm s)"
    "transcript_inv cf n (end_session now owner s)" "transcript_inv cf n (end_announce cf now s)"
    "transcript_inv cf n (append_event cf now owner d s)" "transcript_inv cf n (append_answered e s)"
    "transcript_inv cf n (shutdown s)" "transcript_inv cf n (shutdown_killed pid s)"
    "transcript_inv cf n (remove_session owner claim s)" "transcript_inv cf n (remove_drained s)"
    "transcript_inv cf n (remove_flushed s)" "transcript_inv cf n (restore_checkpoint cf owner sha claim s)"
    "transcript_inv cf n (restore_finally rp s)" "transcript_inv cf n (restore_ran cf now sha rr s)"
    "transcript_inv cf n (restore_listed cf now ce l s)"
  using assms
  by (auto simp: interrupt_def rename_session_def end_session_def end_announce_def append_event_def
      append_answered_def shutdown_def shutdown_killed_def remove_session_def remove_drained_def
      remove_flushed_def restore_checkpoint_def restore_finally_def restore_ran_def restore_listed_def Let_def
      split: option.splits sum.splits prod.splits checkpoint_error.splits list.splits)

lemma transcript_remove_destroyed:
  "transcript_inv cf n s \<Longrightarrow> transcript_inv cf n (remove_destroyed now d e s)"
  by (auto simp: remove_destroyed_def Let_def transcript_defs drop_ring_of_def deliver_direct_def
      release_workspace_def discard_staged_def intro: le_SucI)

lemma transcript_reassign:
  "transcript_inv cf n s \<Longrightarrow> transcript_inv cf n (reassign_principal owner claim s)"
  "transcript_inv cf n s \<Longrightarrow> sr_last_seq r \<le> st_seq (se_stream s) \<Longrightarrow> transcript_inv cf n (reassigned r w s)"
proof -
  assume inv: "transcript_inv cf n s"
  have p: "transcript_inv cf n (post None (ReassignMeta r) s)"
    if "transcript_inv cf n s" "sr_last_seq r \<le> st_seq (se_stream s)" for r s
    using that by (auto simp: transcript_defs)
  from inv show "transcript_inv cf n (reassign_principal owner claim s)"
    by (auto simp: reassign_principal_def Let_def intro!: p) (simp add: transcript_defs)
  assume "sr_last_seq r \<le> st_seq (se_stream s)"
  with inv have "transcript_inv cf n (s\<lparr>se_record := r\<rparr>)" by (auto simp: transcript_defs)
  with inv show "transcript_inv cf n (reassigned r w s)"
    by (simp add: reassigned_def Let_def split: sum.splits)
qed

lemma transcript_fail:
  assumes "transcript_inv cf n s" "failed s"
  shows "transcript_inv cf n (fail_closed now s)" "transcript_inv cf n (fail_meta_written now topt s)"
    "transcript_inv cf n (fail_audited now t rs xs s)"
proof -
  have dc: "transcript_inv cf n (deliver_cancelled now t cs s) \<and> failed (deliver_cancelled now t cs s)"
    if "transcript_inv cf n s" "failed s" for t cs s
    unfolding deliver_cancelled_def using that
    by (induction cs arbitrary: s) (auto simp: transcript_deliver)
  have la: "failed (log_audits t rs xs s)" using assms(2) by (simp add: failed_def)
  show fc: "transcript_inv cf n (fail_closed now s)"
    unfolding fail_closed_def by (intro transcript_queue_moves) (use assms transcript_deliver in blast)+
  show "transcript_inv cf n (fail_meta_written now topt s)"
    using assms fc dc [of "call CallKill s"]
    by (auto simp: fail_meta_written_def Let_def failed_def split: option.splits
        intro!: transcript_post_spill del: transcript_post)
  show "transcript_inv cf n (fail_audited now t rs xs s)"
    using assms la transcript_deliver [of cf n "log_audits t rs xs s"]
    by (auto simp: fail_audited_def intro!: transcript_post_spill del: transcript_post)
qed

lemma transcript_append_settled:
  "transcript_inv cf n s \<Longrightarrow> transcript_inv cf n (append_settled now r s)"
proof -
  assume inv: "transcript_inv cf n s"
  have ok: "transcript_inv cf n (s\<lparr>se_stream := append_ok (se_stream s)\<rparr>)"
    using inv by (auto simp: transcript_defs stream_inv_append_ok stream_inv_failed_mono)
      (auto simp: append_ok_def split: list.splits)
  let ?s = "s\<lparr>se_stream := append_failed (se_stream s)\<rparr>"
  have st: "transcript_inv cf n ?s" "failed ?s"
    using inv by (auto simp: failed_def append_failed_def intro!: transcript_stream)
      (simp flip: append_failed_def add: stream_inv_append_failed)
  have "transcript_inv cf n (storage_failed now s)"
    unfolding storage_failed_def Let_def
    by (rule transcript_post_spill) (use st in \<open>simp_all add: failed_def\<close>)
  with inv ok show ?thesis
    by (auto simp: append_settled_def transcript_queue_moves split: sum.splits)
qed

section \<open>Every tick\<close>

lemma transcript_resumed:
  assumes "transcript_inv cf n s" "i < length (se_tasks s)" "se_tasks s ! i = (w, k)"
  shows "transcript_inv cf n (s\<lparr>se_tasks := remove_nth i (se_tasks s)\<rparr>)"
    and "spill_task k \<Longrightarrow> failed s" and "k = ReassignMeta r \<Longrightarrow> sr_last_seq r \<le> st_seq (se_stream s)"
proof -
  have sub: "set (remove_nth i (se_tasks s)) \<subseteq> set (se_tasks s)"
    unfolding remove_nth_def by (auto dest: in_set_takeD in_set_dropD)
  have mem: "(w, k) \<in> set (se_tasks s)" using assms by (metis nth_mem)
  show "transcript_inv cf n (s\<lparr>se_tasks := remove_nth i (se_tasks s)\<rparr>)"
    using assms(1) sub by (fastforce simp: transcript_defs)
  show "spill_task k \<Longrightarrow> failed s" "k = ReassignMeta r \<Longrightarrow> sr_last_seq r \<le> st_seq (se_stream s)"
    using assms(1) mem by (auto simp: transcript_defs)
qed

lemma transcript_resume:
  assumes "transcript_inv cf n s" "spill_task k \<Longrightarrow> failed s"
    "\<And>r. k = ReassignMeta r \<Longrightarrow> sr_last_seq r \<le> st_seq (se_stream s)"
    "resume cf now k r s = Some s'"
  shows "transcript_inv cf n s'"
proof -
  from assms(4) consider "resume_send cf now k r s = Some s'" | "resume_permission cf now k r s = Some s'"
    | "resume_method cf now k r s = Some s'"
    by (auto simp: resume_def split: option.splits)
  then show ?thesis
  proof cases
    case 1
    then show ?thesis using assms(1)
      by (auto simp: resume_send_def transcript_send split: task.splits outcome.splits if_splits)
  next
    case 2
    then show ?thesis using assms(1)
      by (auto simp: resume_permission_def transcript_permissions transcript_notifications
          split: task.splits outcome.splits if_splits)
  next
    case 3
    then show ?thesis using assms(1-3)
      by (auto simp: resume_method_def transcript_methods transcript_remove_destroyed transcript_reassign
          transcript_fail split: task.splits outcome.splits if_splits)
  qed
qed

lemma transcript_step: "transcript_inv cf n s \<Longrightarrow> transcript_inv cf n (step cf m ttl now e s)"
proof (cases e)
  case (Resume i r)
  assume inv: "transcript_inv cf n s"
  let ?s = "s\<lparr>se_tasks := remove_nth i (se_tasks s)\<rparr>"
  have "transcript_inv cf n s'"
    if "i < length (se_tasks s)" "se_tasks s ! i = (w, k)" "resume cf now k r ?s = Some s'" for w k s'
  proof (rule transcript_resume [OF _ _ _ that(3)])
    show "transcript_inv cf n ?s" using inv that(1,2) by (rule transcript_resumed)
    show "spill_task k \<Longrightarrow> failed ?s" using transcript_resumed(2) [OF inv that(1,2)] by (simp add: failed_def)
    show "k = ReassignMeta x \<Longrightarrow> sr_last_seq x \<le> st_seq (se_stream ?s)" for x
      using transcript_resumed(3) [OF inv that(1,2)] by simp
  qed
  with inv Resume show ?thesis
    by (simp split: prod.splits option.splits)
qed (auto simp: transcript_send transcript_permissions transcript_methods transcript_reassign
    transcript_notifications transcript_append_settled)

lemma transcript_run: "transcript_inv cf n s \<Longrightarrow> transcript_inv cf n (run cf m ttl es s)"
  unfolding run_def by (induction es arbitrary: s) (auto simp: transcript_step split: prod.splits)

lemma transcript_created:
  "sr_last_seq r = 0 \<Longrightarrow> transcript_inv cf 0 (created_entry r accepts al us)"
  by (simp add: transcript_defs created_entry_def stream_inv_new)

lemma transcript_rehydrated:
  "transcript_inv cf (sr_last_seq r) (rehydrated_entry r creating al us)"
  by (simp add: transcript_defs rehydrated_entry_def created_entry_def stream_inv_new) (simp add: new_stream_def)

end
