(* ===== verification/Session_Audit.thy ===== *)
theory Session_Audit
  imports Session_Frames
begin

text \<open>
  The audit trail of a session (I10, I11, I43, S10.4): an answer reaches the agent right after
  the attempt to record it, and never as an approval unless the record is durable; a standing
  rule is held only after a durable approval with scope \<open>always\<close>; an automatic approval names a
  rule that is held and that matches.
\<close>

section \<open>The invariant\<close>

fun respond_ok :: "call list \<Rightarrow> call \<Rightarrow> bool" where
  "respond_ok cs (CallRespond t r d reason ok) =
     (\<exists>cs' rec durable. cs = cs' @ [CallAudit t r rec durable]
        \<and> (if durable then d = au_decision rec else d = Deny))"
| "respond_ok cs _ = True"

definition justified :: "call list \<Rightarrow> bool" where
  "justified cs = (\<forall>i < length cs. respond_ok (take i cs) (cs ! i))"

definition by_rule :: "string list \<Rightarrow> audit_record \<Rightarrow> bool" where
  "by_rule rules a =
     (au_scope a = Standing \<longrightarrow>
        (\<exists>rule target. au_reason a = Some rule \<and> rule \<in> set rules \<and> match_rule rule (au_tool a) target))"

fun audit_by_rule :: "string list \<Rightarrow> call \<Rightarrow> bool" where
  "audit_by_rule rules (CallAudit t r a ok) = by_rule rules a"
| "audit_by_rule rules _ = True"

fun grants :: "call \<Rightarrow> bool" where
  "grants (CallAudit t r a ok) = (ok \<and> au_decision a = Allow \<and> au_scope a = Always)"
| "grants _ = False"

definition fz_ok :: "config \<Rightarrow> string list \<Rightarrow> finalization \<Rightarrow> bool" where
  "fz_ok cf rules f =
     (pv_request_id (fz_success f) = fz_request f
      \<and> pv_decision (fz_success f) = au_decision (fz_record f)
      \<and> by_rule rules (fz_record f)
      \<and> (\<forall>rule. fz_rule f = Some rule \<longrightarrow>
           au_decision (fz_record f) = Allow \<and> au_scope (fz_record f) = Always
           \<and> parse_standing_rule rule (standing_rule_bytes (cf_caps cf)) = Some rule))"

fun task_ok :: "config \<Rightarrow> string list \<Rightarrow> task \<Rightarrow> bool" where
  "task_ok cf rules (Finalize f) = fz_ok cf rules f"
| "task_ok cf rules (Preapprove t q rule) =
     (rule \<in> set rules \<and> match_rule rule (pr_tool q) (pr_match_target q))"
| "task_ok cf rules (SweepAudits t rs) = (\<forall>(r, a) \<in> set rs. au_scope a = Once)"
| "task_ok cf rules (FailAudits t rs) = (\<forall>(r, a) \<in> set rs. au_scope a = Once)"
| "task_ok cf rules _ = True"

definition audit_inv :: "config \<Rightarrow> sess \<Rightarrow> bool" where
  "audit_inv cf s =
     (justified (se_calls s)
      \<and> (\<forall>c \<in> set (se_calls s). audit_by_rule (se_rules s) c)
      \<and> (\<forall>rule \<in> set (se_rules s).
           parse_standing_rule rule (standing_rule_bytes (cf_caps cf)) = Some rule)
      \<and> length (se_rules s) \<le> length (filter grants (se_calls s))
      \<and> (\<forall>(w, k) \<in> set (se_tasks s). task_ok cf (se_rules s) k))"

lemma justified_snoc: "justified (cs @ [c]) \<longleftrightarrow> justified cs \<and> respond_ok cs c"
  unfolding justified_def
  by (auto simp: nth_append less_Suc_eq)

lemma justified_Nil [simp]: "justified []"
  by (simp add: justified_def)

text \<open>Rules are only ever added.\<close>

lemma by_rule_mono: "by_rule rules a \<Longrightarrow> set rules \<subseteq> set rules' \<Longrightarrow> by_rule rules' a"
  unfolding by_rule_def by blast

lemma audit_by_rule_mono: "audit_by_rule rules c \<Longrightarrow> set rules \<subseteq> set rules' \<Longrightarrow> audit_by_rule rules' c"
  by (cases c) (auto intro: by_rule_mono)

lemma task_ok_mono: "task_ok cf rules k \<Longrightarrow> set rules \<subseteq> set rules' \<Longrightarrow> task_ok cf rules' k"
  by (cases k) (auto simp: fz_ok_def intro: by_rule_mono)

section \<open>Elementary updates\<close>

fun plain_call :: "call \<Rightarrow> bool" where
  "plain_call (CallAudit _ _ _ _) = False"
| "plain_call (CallRespond _ _ _ _ _) = False"
| "plain_call _ = True"

lemma audit_frame:
  assumes "se_calls s' = se_calls s" "se_rules s' = se_rules s" "se_tasks s' = se_tasks s"
  shows "audit_inv cf s' = audit_inv cf s"
  using assms by (simp add: audit_inv_def)

lemma audit_updates [simp]:
  "audit_inv cf (reply r s) = audit_inv cf s"
  "audit_inv cf (set_object t x s) = audit_inv cf s"
  "audit_inv cf (set_pending t p s) = audit_inv cf s"
  "audit_inv cf (set_flying t f s) = audit_inv cf s"
  "audit_inv cf (set_phase t q s) = audit_inv cf s"
  "audit_inv cf (clear_turn s) = audit_inv cf s"
  "audit_inv cf (set_operation z s) = audit_inv cf s"
  "audit_inv cf (emit cg now tt d raw s) = audit_inv cf s"
  "audit_inv cf (emit_frame_to cg now tt d raw s) = audit_inv cf s"
  "audit_inv cf (deliver now tt d s) = audit_inv cf s"
  "audit_inv cf (release_workspace s) = audit_inv cf s"
  "audit_inv cf (discard_staged s) = audit_inv cf s"
  "audit_inv cf (mark_ended reason now s) = audit_inv cf s"
  "audit_inv cf (drop_ring_of s) = audit_inv cf s"
  "audit_inv cf (queue_moves s) = audit_inv cf s"
  "audit_inv cf (s\<lparr>se_uploads := us\<rparr>) = audit_inv cf s"
  "audit_inv cf (s\<lparr>se_alloc := al\<rparr>) = audit_inv cf s"
  "audit_inv cf (s\<lparr>se_registered := b\<rparr>) = audit_inv cf s"
  "audit_inv cf (s\<lparr>se_turn := y\<rparr>) = audit_inv cf s"
  "audit_inv cf (s\<lparr>se_has_run_a_turn := b\<rparr>) = audit_inv cf s"
  "audit_inv cf (s\<lparr>se_live_pid := q'\<rparr>) = audit_inv cf s"
  "audit_inv cf (s\<lparr>se_tool_writes := n\<rparr>) = audit_inv cf s"
  "audit_inv cf (s\<lparr>se_muted := b\<rparr>) = audit_inv cf s"
  "audit_inv cf (s\<lparr>se_creating := b\<rparr>) = audit_inv cf s"
  "audit_inv cf (s\<lparr>se_checkpoints_available := b\<rparr>) = audit_inv cf s"
  "audit_inv cf (s\<lparr>se_first_turn_announced := b\<rparr>) = audit_inv cf s"
  "audit_inv cf (s\<lparr>se_record := y'\<rparr>) = audit_inv cf s"
  "audit_inv cf (s\<lparr>se_stream := st\<rparr>) = audit_inv cf s"
  by (rule audit_frame; simp)+

lemma plain_call_ok: "plain_call c \<Longrightarrow> respond_ok cs c \<and> audit_by_rule rules c"
  by (cases c) auto

lemma audit_call [simp]: "plain_call c \<Longrightarrow> audit_inv cf (call c s) = audit_inv cf s"
proof
  assume p: "plain_call c"
  have g: "\<not> grants c" using p by (cases c) auto
  show "audit_inv cf (call c s) \<Longrightarrow> audit_inv cf s"
    using g by (auto simp: audit_inv_def justified_snoc)
  show "audit_inv cf s \<Longrightarrow> audit_inv cf (call c s)"
    using plain_call_ok [OF p] by (auto simp: audit_inv_def justified_snoc)
qed

lemma audit_post [simp]: "audit_inv cf (post w k s) \<longleftrightarrow> audit_inv cf s \<and> task_ok cf (se_rules s) k"
  by (auto simp: audit_inv_def)

lemma audit_emit_then [simp]:
  "audit_inv cf (emit_then cg now tt d k s) \<longleftrightarrow> audit_inv cf s \<and> task_ok cf (se_rules s) k"
  by (simp add: emit_then_def)

lemma audit_fold:
  "(\<And>x s. audit_inv cf (f x s) = audit_inv cf s) \<Longrightarrow> audit_inv cf (fold f xs s) = audit_inv cf s"
  by (rule fold_frame)

lemma audit_called: "audit_inv cf s \<Longrightarrow> by_rule (se_rules s) a \<Longrightarrow> audit_inv cf (call (CallAudit t r a ok) s)"
  by (auto simp: audit_inv_def justified_snoc)

lemma audit_log_audits:
  "audit_inv cf s \<Longrightarrow> \<forall>(r, a) \<in> set rs. au_scope a = Once \<Longrightarrow> audit_inv cf (log_audits t rs xs s)"
proof -
  have "audit_inv cf s \<Longrightarrow> \<forall>((r, a), x) \<in> set zs. au_scope a = Once \<Longrightarrow>
      audit_inv cf (fold (\<lambda>((r, a), x). call (CallAudit t r a (is_ok x))) zs s)" for zs s
  proof (induction zs arbitrary: s)
    case (Cons z zs)
    obtain r a x where z: "z = ((r, a), x)" by (metis surj_pair)
    with Cons.prems have "audit_inv cf (call (CallAudit t r a (is_ok x)) s)"
      by (intro audit_called) (simp_all add: by_rule_def)
    with Cons z show ?case by simp
  qed simp
  moreover assume inv: "audit_inv cf s" and once: "\<forall>(r, a) \<in> set rs. au_scope a = Once"
  moreover from once have "\<forall>((r, a), x) \<in> set (zip rs xs). au_scope a = Once"
    by (auto dest: set_zip_leftD)
  ultimately show ?thesis unfolding log_audits_def by blast
qed

section \<open>Answers\<close>

text \<open>
  The tick that resolves a request: the audit attempt, the rule when it is durable, and the
  answer to the agent.
\<close>

lemma audit_respond:
  assumes inv: "audit_inv cf s" and rule: "by_rule (se_rules s) a"
    and d: "if ok then d = au_decision a else d = Deny"
    and grant: "\<forall>x. rule = Some x \<longrightarrow> grants (CallAudit t r a ok)
        \<and> parse_standing_rule x (standing_rule_bytes (cf_caps cf)) = Some x"
  shows "audit_inv cf (call (CallRespond t r d reason b) (hold_rule rule (call (CallAudit t r a ok) s)))"
proof -
  let ?a = "call (CallAudit t r a ok) s" and ?c = "CallRespond t r d reason b"
  have a: "audit_inv cf ?a" using inv rule by (rule audit_called)
  have "respond_ok (se_calls ?a) ?c" using d by simp
  then have j: "justified (se_calls ?a @ [?c])"
    using a by (simp only: justified_snoc audit_inv_def)
  show ?thesis
  proof (cases rule)
    case None
    with a j show ?thesis by (auto simp: audit_inv_def hold_rule_def split: if_splits)
  next
    case (Some x)
    have sub: "set (se_rules s) \<subseteq> set (se_rules s @ [x])" by auto
    have "\<forall>c \<in> set (se_calls ?a @ [?c]). audit_by_rule (se_rules s @ [x]) c"
      using a audit_by_rule_mono [OF _ sub] by_rule_mono [OF _ sub] by (auto simp: audit_inv_def)
    moreover have "\<forall>(w, k) \<in> set (se_tasks s). task_ok cf (se_rules s @ [x]) k"
      using a task_ok_mono [OF _ sub] by (fastforce simp: audit_inv_def)
    moreover have "length (se_rules s @ [x]) \<le> length (filter grants (se_calls ?a @ [?c]))"
      using inv grant Some by (simp add: audit_inv_def)
    ultimately show ?thesis using a j grant Some
      by (auto simp: audit_inv_def hold_rule_def call_def)
  qed
qed

lemma audit_final_resolved: "audit_inv cf s \<Longrightarrow> audit_inv cf (final_resolved cg now f v n s)"
  by (simp add: final_resolved_def final_done_def)

lemma audit_respond_or_cancel:
  "audit_inv cf (call (CallRespond (fz_turn f) (fz_request f) d reason (is_ok responded)) s) \<Longrightarrow>
   audit_inv cf (respond_or_cancel cg now f d reason intended n responded s)"
  by (auto simp: respond_or_cancel_def Let_def audit_final_resolved split: sum.splits adapter_error.splits)

lemma audit_finalize_audited:
  assumes inv: "audit_inv cf s" and f: "fz_ok cf (se_rules s) f"
  shows "audit_inv cf (finalize_audited cf now f appended responded s)"
proof -
  let ?a = "call (CallAudit (fz_turn f) (fz_request f) (fz_record f) (is_ok appended)) s"
  from f have rule: "by_rule (se_rules s) (fz_record f)"
    and d: "pv_decision (fz_success f) = au_decision (fz_record f)"
    and g: "\<forall>x. fz_rule f = Some x \<longrightarrow> au_decision (fz_record f) = Allow \<and> au_scope (fz_record f) = Always
           \<and> parse_standing_rule x (standing_rule_bytes (cf_caps cf)) = Some x"
    by (auto simp: fz_ok_def)
  from inv rule have a: "audit_inv cf ?a" by (rule audit_called)
  have "audit_inv cf (call (CallRespond (fz_turn f) (fz_request f) Deny reason b) ?a)"
    if "appended = Inl e" for reason b e
    using audit_respond [OF inv rule, of False Deny None] that by (simp add: hold_rule_def)
  moreover have "audit_inv cf (call (CallRespond (fz_turn f) (fz_request f) (pv_decision (fz_success f)) reason b)
      (hold_rule (fz_rule f) ?a))" if "appended = Inr u" for reason b u
    using audit_respond [OF inv rule, of True "pv_decision (fz_success f)" "fz_rule f"] that d g by simp
  ultimately show ?thesis using a
    by (auto simp: finalize_audited_def Let_def final_done_def intro!: audit_respond_or_cancel split: sum.splits)
qed

section \<open>Every handler\<close>

lemma audit_send_message: "audit_inv cf s \<Longrightarrow> audit_inv cf (send_message cg now owner msg atts model tid aids s)"
proof -
  assume "audit_inv cf s"
  moreover have "audit_inv cf (fold (\<lambda>(r, d). call (CallWriteAttachment tid r d)) ps s) = audit_inv cf s" for ps s
    by (rule audit_fold) (simp split: prod.splits)
  moreover have "se_rules (fold (\<lambda>(r, d). call (CallWriteAttachment tid r d)) ps s) = se_rules s" for ps s
    by (rule fold_frame) (simp split: prod.splits)
  ultimately show ?thesis
    by (simp add: send_message_def claim_turn_def Let_def split: option.splits sum.splits prod.splits)
qed

lemma audit_send:
  assumes "audit_inv cf s"
  shows "audit_inv cf (send_gone c s)" "audit_inv cf (send_gone_reply s)" "audit_inv cf (send_unwritten e s)"
    "audit_inv cf (send_open cg now c s)" "audit_inv cf (send_written cg now c rs s)"
    "audit_inv cf (send_checkpointed cg now c r s)" "audit_inv cf (send_started cg now c s)"
    "audit_inv cf (send_spawn c s)" "audit_inv cf (send_messaged cg now c s)" "audit_inv cf (send_fail_kill c ae s)"
    "audit_inv cf (send_sent cg now c r' s)" "audit_inv cf (send_fail_killed cg now c ae s)"
    "audit_inv cf (send_fail_ended ae s)"
  using assms
  by (simp_all add: send_gone_def send_gone_reply_def send_unwritten_def send_open_def send_written_def
      send_checkpointed_def send_started_def send_spawn_def send_messaged_def send_fail_kill_def send_sent_def
      send_fail_killed_def send_fail_ended_def rollback_then_def
      split: option.splits sum.splits prod.splits adapter_error.splits)

lemma answer_refusal_NoneD:
  "answer_refusal cf a = None \<Longrightarrow> answer_rule cf a = Some rule \<Longrightarrow>
   pa_decision a = Allow \<and> parse_standing_rule rule (standing_rule_bytes (cf_caps cf)) = Some rule"
  by (cases "pa_decision a")
    (auto simp: answer_refusal_def answer_rule_def parse_standing_rule_def split: if_splits option.splits)

lemma fz_ok_answer:
  "answer_refusal cf a = None \<Longrightarrow> fz_ok cf rules (answer_finalization cf now owner a t p s)"
  using answer_refusal_NoneD [of cf a]
  by (auto simp: answer_finalization_def fz_ok_def by_rule_def audit_of_def Let_def)

lemma fz_ok_preapproved:
  "rule \<in> set rules \<Longrightarrow> match_rule rule (pr_tool q) (pr_match_target q) \<Longrightarrow>
   fz_ok cf rules (preapproved_finalization now t q rule s)"
  by (auto simp: preapproved_finalization_def fz_ok_def by_rule_def audit_of_def)

lemma claim_request_rules [simp]: "se_rules (claim_request t r tool input s) = se_rules s"
  by (simp add: claim_request_def Let_def)

lemma audit_claim_request [simp]: "audit_inv cf (claim_request t r tool input s) = audit_inv cf s"
  by (simp add: claim_request_def Let_def)

lemma audit_permissions:
  assumes "audit_inv cf s"
  shows "audit_inv cf (answer_permission cf now owner a s)"
    "task_ok cf (se_rules s) (Preapprove t q rule) \<Longrightarrow> audit_inv cf (resolve_preapproved now t q rule s)"
    "audit_inv cf (final_done f v s)"
    "audit_inv cf (final_cancelled cf now f n b s)" "audit_inv cf (cli_announced s)"
    "audit_inv cf (spawn_recorded cf now t pid pgid img x s)"
  using assms
  by (simp_all add: answer_permission_def fz_ok_answer resolve_preapproved_def fz_ok_preapproved
      final_done_def final_cancelled_def audit_final_resolved cli_announced_def spawn_recorded_def
      split: option.splits)

lemma audit_final_cancel_audited:
  "audit_inv cf s \<Longrightarrow> audit_inv cf (final_cancel_audited now f n w ap s)"
  by (auto simp: final_cancel_audited_def by_rule_def intro!: audit_called)

lemma once_audits: "(r, a) \<in> set (cancelled_audits now cs s) \<Longrightarrow> au_scope a = Once"
  by (auto simp: cancelled_audits_def cancelled_audit_def audit_of_def)

lemma audit_exited: "audit_inv cf s \<Longrightarrow> audit_inv cf (exited cg now s)"
proof -
  assume inv: "audit_inv cf s"
  have "audit_inv cf (emit_swept cg now t cs s) = audit_inv cf s"
    "se_rules (emit_swept cg now t cs s) = se_rules s" for t cs s
    unfolding emit_swept_def by (rule audit_fold fold_frame; simp split: prod.splits)+
  with inv show ?thesis
    by (auto simp: exited_def Let_def dest: once_audits split: option.splits)
qed

lemma matched_ruleD:
  "matched_rule q s = Some rule \<Longrightarrow> rule \<in> set (se_rules s) \<and> match_rule rule (pr_tool q) (pr_match_target q)"
  unfolding matched_rule_def by (drule find_Some_in) simp

lemma audit_handle_event: "audit_inv cf s \<Longrightarrow> audit_inv cf (handle_event cg now e s)"
proof -
  assume inv: "audit_inv cf s"
  have n: "audit_inv cf (note_request q t s)" "se_rules (note_request q t s) = se_rules s" for q t
    using inv by (simp_all add: note_request_def)
  have "audit_inv cf (event_in_turn cg now d raw t s)" for d raw t
    using inv matched_ruleD [of _ s]
    by (auto simp: event_in_turn_def n start_tool_write_def Let_def split: payload.splits option.splits)
  moreover have "audit_inv cf (event_without_turn cg now d raw s)" for d raw
    using inv by (simp add: event_without_turn_def)
  ultimately show ?thesis by (simp add: handle_event_def split: option.splits)
qed

lemma audit_handle_notification: "audit_inv cf s \<Longrightarrow> audit_inv cf (handle_notification cg now nt s)"
  by (cases nt)
    (simp_all add: handle_notification_def audit_handle_event audit_exited cli_session_def spawned_def Let_def
      split: option.splits)

lemma audit_methods:
  assumes "audit_inv cf s"
  shows "audit_inv cf (interrupt owner t s)" "audit_inv cf (rename_session owner nm s)"
    "audit_inv cf (end_session now owner s)" "audit_inv cf (end_announce cg now s)"
    "audit_inv cf (append_event cg now owner d s)" "audit_inv cf (append_answered e s)"
    "audit_inv cf (shutdown s)" "audit_inv cf (shutdown_killed pid s)"
    "audit_inv cf (remove_session owner claim s)" "audit_inv cf (remove_drained s)"
    "audit_inv cf (remove_flushed s)" "audit_inv cf (restore_checkpoint cg owner sha claim s)"
    "audit_inv cf (restore_finally rp s)" "audit_inv cf (restore_ran cg now sha rr s)"
    "audit_inv cf (restore_listed cg now ce l s)" "audit_inv cf (reassign_principal owner claim s)"
    "audit_inv cf (reassigned x w s)" "audit_inv cf (remove_destroyed now dd de s)"
    "audit_inv cf (append_settled now st s)" "audit_inv cf (fail_closed now s)"
  using assms
  by (simp_all add: interrupt_def rename_session_def end_session_def end_announce_def append_event_def
      append_answered_def shutdown_def shutdown_killed_def remove_session_def remove_drained_def
      remove_flushed_def restore_checkpoint_def restore_finally_def restore_ran_def restore_listed_def
      reassign_principal_def reassigned_def remove_destroyed_def append_settled_def storage_failed_def
      fail_closed_def Let_def
      split: option.splits sum.splits prod.splits checkpoint_error.splits list.splits)

lemma audit_fail:
  assumes "audit_inv cf s"
  shows "audit_inv cf (fail_meta_written now topt s)"
    "task_ok cf (se_rules s) (FailAudits t rs) \<Longrightarrow> audit_inv cf (fail_audited now t rs xs s)"
    "task_ok cf (se_rules s) (SweepAudits t rs) \<Longrightarrow> audit_inv cf (sweep_audited cg now t rs xs s)"
proof -
  have "audit_inv cf (deliver_cancelled now t cs s) = audit_inv cf s"
    "se_rules (deliver_cancelled now t cs s) = se_rules s" for t cs s
    unfolding deliver_cancelled_def by (rule audit_fold fold_frame; simp split: prod.splits)+
  with assms show "audit_inv cf (fail_meta_written now topt s)"
    by (auto simp: fail_meta_written_def audit_methods Let_def dest: once_audits split: option.splits)
  show "task_ok cf (se_rules s) (FailAudits t rs) \<Longrightarrow> audit_inv cf (fail_audited now t rs xs s)"
    "task_ok cf (se_rules s) (SweepAudits t rs) \<Longrightarrow> audit_inv cf (sweep_audited cg now t rs xs s)"
    using audit_log_audits [OF assms] by (simp_all add: fail_audited_def sweep_audited_def Let_def)
qed

section \<open>Every tick\<close>

lemma audit_resume:
  assumes inv: "audit_inv cf s" and k: "task_ok cf (se_rules s) k"
    and r: "resume cf now k r s = Some s'"
  shows "audit_inv cf s'"
proof -
  from r consider "resume_send cf now k r s = Some s'" | "resume_permission cf now k r s = Some s'"
    | "resume_method cf now k r s = Some s'"
    by (auto simp: resume_def split: option.splits)
  then show ?thesis
  proof cases
    case 1
    then show ?thesis using inv
      by (auto simp: resume_send_def audit_send split: task.splits outcome.splits if_splits)
  next
    case 2
    then show ?thesis using inv k
      by (auto simp: resume_permission_def audit_permissions audit_finalize_audited audit_final_cancel_audited
          audit_final_resolved audit_fail split: task.splits outcome.splits if_splits)
  next
    case 3
    then show ?thesis using inv k
      by (auto simp: resume_method_def audit_methods audit_fail split: task.splits outcome.splits if_splits)
  qed
qed

lemma task_ok_resumed:
  assumes "audit_inv cf s" "i < length (se_tasks s)" "se_tasks s ! i = (w, k)"
  shows "task_ok cf (se_rules s) k" "audit_inv cf (s\<lparr>se_tasks := remove_nth i (se_tasks s)\<rparr>)"
proof -
  have "(w, k) \<in> set (se_tasks s)" using assms by (metis nth_mem)
  then show "task_ok cf (se_rules s) k" using assms(1) by (auto simp: audit_inv_def)
  have "set (remove_nth i (se_tasks s)) \<subseteq> set (se_tasks s)"
    unfolding remove_nth_def by (auto dest: in_set_takeD in_set_dropD)
  with assms(1) show "audit_inv cf (s\<lparr>se_tasks := remove_nth i (se_tasks s)\<rparr>)"
    by (auto simp: audit_inv_def)
qed

lemma audit_step: "audit_inv cf s \<Longrightarrow> audit_inv cf (step cf m ttl now e s)"
proof (cases e)
  case (Resume i r)
  assume inv: "audit_inv cf s"
  let ?s = "s\<lparr>se_tasks := remove_nth i (se_tasks s)\<rparr>"
  have "audit_inv cf s'"
    if "i < length (se_tasks s)" "se_tasks s ! i = (w, k)" "resume cf now k r ?s = Some s'" for w k s'
    using audit_resume [of cf ?s k now r s'] task_ok_resumed [OF inv that(1,2)] that(3) by simp
  with inv Resume show ?thesis
    by (simp split: prod.splits option.splits)
qed (simp_all add: audit_send_message audit_permissions audit_methods audit_handle_notification)

lemma audit_run: "audit_inv cf s \<Longrightarrow> audit_inv cf (run cf m ttl es s)"
  unfolding run_def by (induction es arbitrary: s) (auto simp: audit_step split: prod.splits)

lemma audit_created: "audit_inv cf (created_entry r accepts al us)"
  "audit_inv cf (rehydrated_entry r creating al us)"
  by (simp_all add: audit_inv_def created_entry_def rehydrated_entry_def)

end
