(* ===== verification/Session_Permissions.thy ===== *)
theory Session_Permissions
  imports Session_Audit
begin

text \<open>
  Permission requests and their resolutions (I9, D33, D218): over any interleaving, the
  subscribers never see more resolutions of a request than they saw requests. The invariant
  counts deliveries and open requests: a request is open while it is pending, and again while
  an answer to it is in flight.
\<close>

section \<open>Counting\<close>

fun is_request :: "turn_id \<Rightarrow> request_id \<Rightarrow> delivery \<Rightarrow> bool" where
  "is_request t r (FrameD f) = False"
| "is_request t r (EnvelopeD e) =
     (env_turn e = Some t \<and> (case env_data e of PermissionRequest q \<Rightarrow> pr_request_id q = r | _ \<Rightarrow> False))"

fun is_resolution :: "turn_id \<Rightarrow> request_id \<Rightarrow> delivery \<Rightarrow> bool" where
  "is_resolution t r (FrameD f) = False"
| "is_resolution t r (EnvelopeD e) =
     (env_turn e = Some t \<and> (case env_data e of PermissionResolved v \<Rightarrow> pv_request_id v = r | _ \<Rightarrow> False))"

definition requests :: "sess \<Rightarrow> turn_id \<Rightarrow> request_id \<Rightarrow> nat" where
  "requests s t r = length (filter (is_request t r) (st_delivered (se_stream s)))"

definition resolutions :: "sess \<Rightarrow> turn_id \<Rightarrow> request_id \<Rightarrow> nat" where
  "resolutions s t r = length (filter (is_resolution t r) (st_delivered (se_stream s)))"

definition open_requests :: "sess \<Rightarrow> turn_id \<Rightarrow> request_id \<Rightarrow> nat" where
  "open_requests s t r =
     (if jhas (pending_of s t) r then 1 else 0) + (if jhas (flying_of s t) r then 1 else 0)"

fun neutral :: "payload \<Rightarrow> bool" where
  "neutral (PermissionRequest _) = False"
| "neutral (PermissionResolved _) = False"
| "neutral _ = True"

fun fail_meta :: "task \<Rightarrow> bool" where
  "fail_meta (FailMeta _) = True"
| "fail_meta _ = False"

definition fail_metas :: "(nat option \<times> task) list \<Rightarrow> nat" where
  "fail_metas ts = length (filter (\<lambda>(_, k). fail_meta k) ts)"

definition covered :: "sess \<Rightarrow> turn_id \<Rightarrow> bool" where
  "covered s t = (\<forall>r. resolutions s t r + open_requests s t r \<le> requests s t r)"

definition turns_ok :: "sess \<Rightarrow> bool" where
  "turns_ok s =
     ((\<forall>t. jmap_ok (pending_of s t) \<and> jmap_ok (flying_of s t))
      \<and> (\<forall>t. se_turn s = Some t \<longrightarrow> jhas (se_turns s) t))"

definition fail_metas_ok :: "sess \<Rightarrow> bool" where
  "fail_metas_ok s =
     (fail_metas (se_tasks s) \<le> (if failed s then 1 else 0)
      \<and> (\<forall>w t. (w, FailMeta (Some t)) \<in> set (se_tasks s) \<longrightarrow>
            covered s t \<and> jhas (se_turns s) t \<and> se_turn s \<noteq> Some t))"

definition perm_inv :: "sess \<Rightarrow> bool" where
  "perm_inv s =
     ((\<forall>t r. resolutions s t r \<le> requests s t r)
      \<and> (\<not> failed s \<longrightarrow> (\<forall>t. covered s t))
      \<and> turns_ok s \<and> fail_metas_ok s)"

lemmas perm_defs = perm_inv_def turns_ok_def fail_metas_ok_def covered_def open_requests_def failed_def
lemmas count_defs = requests_def resolutions_def

section \<open>Turn objects\<close>

lemma turn_object_set [simp]:
  "turn_object_of (set_object t x s) t' = (if t' = t then x else turn_object_of s t')"
  by (simp add: turn_object_of_def set_object_def jget_jset)

lemma pending_of_set [simp]:
  "pending_of (set_pending t p s) t' = (if t' = t then p else pending_of s t')"
  "flying_of (set_pending t p s) t' = flying_of s t'"
  "pending_of (set_flying t f s) t' = pending_of s t'"
  "flying_of (set_flying t f s) t' = (if t' = t then f else flying_of s t')"
  "pending_of (set_phase t q s) t' = pending_of s t'"
  "flying_of (set_phase t q s) t' = flying_of s t'"
  by (simp_all add: pending_of_def flying_of_def set_pending_def set_flying_def set_phase_def Let_def)

lemma jhas_turns_set [simp]:
  "jhas (se_turns (set_pending t p s)) t' = (t' = t \<or> jhas (se_turns s) t')"
  "jhas (se_turns (set_flying t f s)) t' = (t' = t \<or> jhas (se_turns s) t')"
  "jhas (se_turns (set_phase t q s)) t' = (t' = t \<or> jhas (se_turns s) t')"
  by (simp_all add: set_pending_def set_flying_def set_phase_def set_object_def Let_def)

lemma of_turns:
  "se_turns s' = se_turns s \<Longrightarrow> pending_of s' t = pending_of s t"
  "se_turns s' = se_turns s \<Longrightarrow> flying_of s' t = flying_of s t"
  by (simp_all add: pending_of_def flying_of_def turn_object_of_def)

lemma count_keys: "jmap_ok m \<Longrightarrow> count_list (map fst m) k = (if jhas m k then 1 else 0)"
proof -
  assume ok: "jmap_ok m"
  have "jhas m k \<longleftrightarrow> k \<in> set (map fst m)"
    by (auto simp: jhas_def jget_def map_of_eq_None_iff)
  moreover have "count_list xs k = (if k \<in> set xs then 1 else 0)" if "distinct xs" for xs :: "'a list"
    using that by (induction xs) auto
  ultimately show ?thesis using ok by (simp add: jmap_ok_def)
qed

section \<open>Counts under the updates\<close>

lemma counts_by_delivered:
  "st_delivered (se_stream s') = st_delivered (se_stream s) \<Longrightarrow> requests s' t r = requests s t r"
  "st_delivered (se_stream s') = st_delivered (se_stream s) \<Longrightarrow> resolutions s' t r = resolutions s t r"
  by (simp_all add: count_defs)

lemma counts_emit:
  "requests (emit cf now tt d raw s) t r = requests s t r
     + (if \<not> failed s \<and> tt = Some t \<and> (case d of PermissionRequest q \<Rightarrow> pr_request_id q = r | _ \<Rightarrow> False)
        then 1 else 0)"
  "resolutions (emit cf now tt d raw s) t r = resolutions s t r
     + (if \<not> failed s \<and> tt = Some t \<and> (case d of PermissionResolved v \<Rightarrow> pv_request_id v = r | _ \<Rightarrow> False)
        then 1 else 0)"
  by (auto simp: count_defs emit_def with_stream_def emit_stream_def Let_def failed_def)

lemma counts_deliver:
  "requests (deliver now tt d s) t r = requests s t r
     + (if tt = Some t \<and> (case d of PermissionRequest q \<Rightarrow> pr_request_id q = r | _ \<Rightarrow> False) then 1 else 0)"
  "resolutions (deliver now tt d s) t r = resolutions s t r
     + (if tt = Some t \<and> (case d of PermissionResolved v \<Rightarrow> pv_request_id v = r | _ \<Rightarrow> False) then 1 else 0)"
  by (auto simp: count_defs deliver_def with_stream_def deliver_direct_def)

lemma counts_frame [simp]:
  "requests (emit_frame_to cf now tt d raw s) t r = requests s t r"
  "resolutions (emit_frame_to cf now tt d raw s) t r = resolutions s t r"
  by (auto simp: count_defs emit_frame_to_def emit_frame_def)

lemma neutral_cases:
  "neutral d \<Longrightarrow> \<not> (case d of PermissionRequest q \<Rightarrow> pr_request_id q = r | _ \<Rightarrow> False)"
  "neutral d \<Longrightarrow> \<not> (case d of PermissionResolved v \<Rightarrow> pv_request_id v = r | _ \<Rightarrow> False)"
  by (cases d; simp)+

text \<open>Anything that leaves the stream's deliveries, the turn objects and the slot alone.\<close>

lemma perm_frame:
  assumes "st_delivered (se_stream s') = st_delivered (se_stream s)"
    "st_failed (se_stream s') = st_failed (se_stream s)"
    "se_turns s' = se_turns s" "se_turn s' = se_turn s" "se_tasks s' = se_tasks s"
  shows "perm_inv s' = perm_inv s"
  using assms counts_by_delivered [of s' s] of_turns [of s' s]
  by (simp add: perm_defs)

lemma perm_updates [simp]:
  "perm_inv (call c s) = perm_inv s"
  "perm_inv (reply r s) = perm_inv s"
  "perm_inv (set_operation z s) = perm_inv s"
  "perm_inv (release_workspace s) = perm_inv s"
  "perm_inv (discard_staged s) = perm_inv s"
  "perm_inv (hold_rule rule s) = perm_inv s"
  "perm_inv (mark_ended reason now s) = perm_inv s"
  "perm_inv (drop_ring_of s) = perm_inv s"
  "perm_inv (queue_moves s) = perm_inv s"
  by (rule perm_frame; simp add: drop_ring_of_def queue_moves_def append_done_def)+

lemma perm_other_fields [simp]:
  "perm_inv (s\<lparr>se_uploads := us\<rparr>) = perm_inv s"
  "perm_inv (s\<lparr>se_alloc := al\<rparr>) = perm_inv s"
  "perm_inv (s\<lparr>se_registered := b\<rparr>) = perm_inv s"
  "perm_inv (s\<lparr>se_has_run_a_turn := b\<rparr>) = perm_inv s"
  "perm_inv (s\<lparr>se_live_pid := q\<rparr>) = perm_inv s"
  "perm_inv (s\<lparr>se_tool_writes := k\<rparr>) = perm_inv s"
  "perm_inv (s\<lparr>se_muted := b\<rparr>) = perm_inv s"
  "perm_inv (s\<lparr>se_creating := b\<rparr>) = perm_inv s"
  "perm_inv (s\<lparr>se_checkpoints_available := b\<rparr>) = perm_inv s"
  "perm_inv (s\<lparr>se_first_turn_announced := b\<rparr>) = perm_inv s"
  "perm_inv (s\<lparr>se_record := x\<rparr>) = perm_inv s"
  by (rule perm_frame; simp)+

lemma perm_log_audits [simp]: "perm_inv (log_audits t rs xs s) = perm_inv s"
  unfolding log_audits_def by (rule fold_frame) (simp split: prod.splits)

lemma fail_metas_simps [simp]:
  "fail_metas [] = 0"
  "fail_metas ((w, k) # ts) = (if fail_meta k then Suc (fail_metas ts) else fail_metas ts)"
  "fail_metas (xs @ ys) = fail_metas xs + fail_metas ys"
  by (simp_all add: fail_metas_def)

lemma perm_post [simp]: "\<not> fail_meta k \<Longrightarrow> perm_inv (post w k s) = perm_inv s"
  using counts_by_delivered [of "post w k s" s] of_turns [of "post w k s" s]
  by (auto simp: perm_defs)

lemma perm_clear_turn [intro!]: "perm_inv s \<Longrightarrow> perm_inv (clear_turn s)"
  using counts_by_delivered [of "clear_turn s" s] of_turns [of "clear_turn s" s]
  by (simp add: perm_defs)

lemma perm_set_phase [intro!]: "perm_inv s \<Longrightarrow> perm_inv (set_phase t q s)"
  using counts_by_delivered [of "set_phase t q s" s]
  by (auto simp: perm_defs)

lemma perm_emit [intro!]: "perm_inv s \<Longrightarrow> neutral d \<Longrightarrow> perm_inv (emit cf now tt d raw s)"
  using of_turns [of "emit cf now tt d raw s" s]
  by (simp add: perm_defs counts_emit neutral_cases)

lemma perm_deliver [intro!]: "perm_inv s \<Longrightarrow> neutral d \<Longrightarrow> perm_inv (deliver now tt d s)"
  using of_turns [of "deliver now tt d s" s]
  by (simp add: perm_defs counts_deliver neutral_cases)

lemma perm_frame_to [intro!]: "perm_inv s \<Longrightarrow> perm_inv (emit_frame_to cf now tt d raw s)"
  using of_turns [of "emit_frame_to cf now tt d raw s" s]
  by (simp add: perm_defs)

lemma perm_emit_then [intro!]:
  "perm_inv s \<Longrightarrow> neutral d \<Longrightarrow> \<not> fail_meta k \<Longrightarrow> perm_inv (emit_then cf now tt d k s)"
  by (auto simp: emit_then_def)

text \<open>
  The way every other update is justified: no request loses slack, and once the storage has
  failed nothing is delivered.
\<close>

lemma perm_transfer:
  assumes inv: "perm_inv s"
    and slack: "\<And>t r. \<not> failed s \<or> se_turn s \<noteq> Some t \<Longrightarrow> resolutions s' t r + open_requests s' t r + requests s t r
        \<le> resolutions s t r + open_requests s t r + requests s' t r"
    and closed: "\<And>t r. failed s \<Longrightarrow> resolutions s' t r + requests s t r \<le> resolutions s t r + requests s' t r"
    and maps: "\<And>t. jmap_ok (pending_of s' t) \<and> jmap_ok (flying_of s' t)"
    and objs: "\<And>t. jhas (se_turns s) t \<Longrightarrow> jhas (se_turns s') t" "\<And>t. se_turn s' = Some t \<Longrightarrow> jhas (se_turns s') t"
    and slot: "\<And>t. se_turn s' = Some t \<Longrightarrow> jhas (se_turns s) t \<Longrightarrow> se_turn s = Some t"
    and rest: "se_tasks s' = se_tasks s" "failed s' = failed s"
  shows "perm_inv s'"
proof -
  have cov: "covered s' t" if "covered s t" "\<not> failed s \<or> se_turn s \<noteq> Some t" for t
    unfolding covered_def
  proof
    fix r
    from that(1) have "resolutions s t r + open_requests s t r \<le> requests s t r" by (simp add: covered_def)
    with slack [OF that(2), of r] show "resolutions s' t r + open_requests s' t r \<le> requests s' t r" by linarith
  qed
  have weak: "resolutions s' t r \<le> requests s' t r" for t r
  proof (cases "failed s")
    case True
    from inv have "resolutions s t r \<le> requests s t r" by (simp add: perm_inv_def)
    with closed [OF True, of t r] show ?thesis by linarith
  next
    case False
    with inv have "covered s t" by (simp add: perm_inv_def)
    with False have "covered s' t" by (blast intro: cov)
    then show ?thesis by (meson add_leD1 covered_def)
  qed
  have "fail_metas_ok s'"
    unfolding fail_metas_ok_def
  proof (intro conjI allI impI)
    show "fail_metas (se_tasks s') \<le> (if failed s' then 1 else 0)"
      using inv rest by (simp add: perm_inv_def fail_metas_ok_def)
    fix w t
    assume "(w, FailMeta (Some t)) \<in> set (se_tasks s')"
    with inv rest have m: "covered s t" "jhas (se_turns s) t" "se_turn s \<noteq> Some t"
      by (auto simp: perm_inv_def fail_metas_ok_def)
    then show "covered s' t" "jhas (se_turns s') t" by (blast intro: cov objs)+
    from m slot show "se_turn s' \<noteq> Some t" by blast
  qed
  moreover have "turns_ok s'"
    unfolding turns_ok_def using maps objs(2) by blast
  moreover have "\<not> failed s' \<longrightarrow> (\<forall>t. covered s' t)"
    using inv cov rest(2) by (simp add: perm_inv_def)
  ultimately show ?thesis using weak by (simp add: perm_inv_def)
qed

lemma perm_invD:
  "perm_inv s \<Longrightarrow> se_turn s = Some t \<Longrightarrow> jhas (se_turns s) t"
  "perm_inv s \<Longrightarrow> jmap_ok (pending_of s t)"
  "perm_inv s \<Longrightarrow> jmap_ok (flying_of s t)"
  by (simp_all add: perm_inv_def turns_ok_def)

lemma perm_claim_turn: "perm_inv s \<Longrightarrow> \<not> jhas (se_turns s) t \<Longrightarrow> perm_inv (claim_turn now t s)"
proof -
  assume inv: "perm_inv s" and fresh: "\<not> jhas (se_turns s) t"
  let ?s = "claim_turn now t s"
  have objs: "pending_of ?s t' = (if t' = t then [] else pending_of s t')"
    "flying_of ?s t' = (if t' = t then [] else flying_of s t')" for t'
    by (simp_all add: pending_of_def flying_of_def turn_object_of_def claim_turn_def set_object_def jget_jset)
  have eqs: "se_tasks ?s = se_tasks s" "se_turn ?s = Some t"
    "jhas (se_turns ?s) t' = (t' = t \<or> jhas (se_turns s) t')" "se_stream ?s = se_stream s" for t'
    by (simp_all add: claim_turn_def set_object_def)
  have counts: "requests ?s t' r = requests s t' r" "resolutions ?s t' r = resolutions s t' r" for t' r
    by (rule counts_by_delivered; simp add: eqs)+
  show ?thesis
  proof (rule perm_transfer [OF inv])
    show "resolutions ?s t' r + open_requests ?s t' r + requests s t' r
        \<le> resolutions s t' r + open_requests s t' r + requests ?s t' r" for t' r
      by (simp add: counts open_requests_def objs jhas_def)
    show "jmap_ok (pending_of ?s t') \<and> jmap_ok (flying_of ?s t')" for t'
      using perm_invD [OF inv] by (simp add: objs)
  qed (use fresh in \<open>simp_all add: eqs counts failed_def\<close>)
qed

section \<open>Claims and resolutions\<close>

lemma perm_claim_request:
  assumes inv: "perm_inv s" and p: "jhas (pending_of s t) r" and t: "jhas (se_turns s) t"
  shows "perm_inv (claim_request t r tool input s)"
proof -
  let ?s = "claim_request t r tool input s"
  have objs: "pending_of ?s t' = (if t' = t then jdel (pending_of s t) r else pending_of s t')"
    "flying_of ?s t' = (if t' = t then jset (flying_of s t) r \<lparr>fa_tool = tool, fa_input = input\<rparr> else flying_of s t')"
    "se_stream ?s = se_stream s" "se_turn ?s = se_turn s" "se_tasks ?s = se_tasks s"
    "jhas (se_turns ?s) t' = jhas (se_turns s) t'" for t'
    using t by (auto simp: claim_request_def Let_def)
  have counts: "requests ?s t' q = requests s t' q" "resolutions ?s t' q = resolutions s t' q" for t' q
    by (rule counts_by_delivered; simp add: objs)+
  show ?thesis
  proof (rule perm_transfer [OF inv])
    show "resolutions ?s t' q + open_requests ?s t' q + requests s t' q
        \<le> resolutions s t' q + open_requests s t' q + requests ?s t' q" for t' q
      using p by (auto simp: counts open_requests_def objs)
    show "jmap_ok (pending_of ?s t') \<and> jmap_ok (flying_of ?s t')" for t'
      using perm_invD [OF inv] by (simp add: objs)
  qed (use perm_invD(1) [OF inv] in \<open>simp_all add: objs counts failed_def\<close>)
qed

text \<open>An answer leaves the in-flight answers, with or without a resolution.\<close>

lemma perm_settle_flying:
  assumes inv: "perm_inv s" and t: "jhas (se_turns s) t" and f: "jhas (flying_of s t) r"
    and s': "se_turns s' = se_turns (set_flying t (jdel (flying_of s t) r) s)" "se_turn s' = se_turn s"
      "se_tasks s' = se_tasks s" "failed s' = failed s"
    and counts: "\<And>t' q. requests s' t' q = requests s t' q"
      "\<And>t' q. resolutions s' t' q \<le> resolutions s t' q + (if \<not> failed s \<and> t' = t \<and> q = r then 1 else 0)"
  shows "perm_inv s'"
proof (rule perm_transfer [OF inv])
  have objs: "pending_of s' t' = pending_of s t'"
    "flying_of s' t' = (if t' = t then jdel (flying_of s t) r else flying_of s t')" for t'
    using of_turns [OF s'(1)] by simp_all
  show "resolutions s' t' q + open_requests s' t' q + requests s t' q
      \<le> resolutions s t' q + open_requests s t' q + requests s' t' q" for t' q
    using counts(2) [of t' q] f by (auto simp: open_requests_def objs counts(1) split: if_splits)
  show "failed s \<Longrightarrow> resolutions s' t' q + requests s t' q \<le> resolutions s t' q + requests s' t' q" for t' q
    using counts(2) [of t' q] by (simp add: counts(1))
  show "jmap_ok (pending_of s' t') \<and> jmap_ok (flying_of s' t')" for t'
    using perm_invD [OF inv] by (simp add: objs)
qed (use perm_invD(1) [OF inv] t s' in \<open>simp_all\<close>)

lemma perm_drop_flying:
  assumes "perm_inv s" "jhas (se_turns s) t" "jhas (flying_of s t) r"
  shows "perm_inv (set_flying t (jdel (flying_of s t) r) s)"
proof (rule perm_settle_flying [OF assms])
  let ?s = "set_flying t (jdel (flying_of s t) r) s"
  have c: "requests ?s t' q = requests s t' q" "resolutions ?s t' q = resolutions s t' q" for t' q
    by (rule counts_by_delivered; simp)+
  show "requests ?s t' q = requests s t' q" for t' q by (rule c)
  show "resolutions ?s t' q \<le> resolutions s t' q + (if \<not> failed s \<and> t' = t \<and> q = r then 1 else 0)" for t' q
    by (simp add: c)
qed (simp_all add: failed_def)

lemma perm_resolve:
  assumes "perm_inv s" "jhas (se_turns s) t" "jhas (flying_of s t) r" "pv_request_id v = r"
  shows "perm_inv (emit cf now (Some t) (PermissionResolved v) None (set_flying t (jdel (flying_of s t) r) s))"
  using assms(1-3)
  by (rule perm_settle_flying)
    (use assms(4) counts_by_delivered [of "set_flying t (jdel (flying_of s t) r) s" s] in
      \<open>auto simp: counts_emit failed_def\<close>)

text \<open>A request is delivered in the tick that makes it pending.\<close>

lemma perm_note_request:
  assumes inv: "perm_inv s" and t: "se_turn s = Some t"
  shows "perm_inv (emit cf now (Some t) (PermissionRequest q) raw (note_request q t s))"
proof (rule perm_transfer [OF inv])
  let ?s = "emit cf now (Some t) (PermissionRequest q) raw (note_request q t s)"
  have objs: "pending_of ?s t' = (if t' = t then jset (pending_of s t) (pr_request_id q)
        \<lparr>pn_call_id = pr_call_id q, pn_tool = pr_tool q, pn_input = pr_input q,
         pn_match_target = pr_match_target q\<rparr> else pending_of s t')"
    "flying_of ?s t' = flying_of s t'" for t'
    using of_turns [of ?s "note_request q t s"] by (auto simp: note_request_def)
  have counts: "requests ?s t' r = requests s t' r + (if \<not> failed s \<and> t' = t \<and> r = pr_request_id q then 1 else 0)"
    "resolutions ?s t' r = resolutions s t' r" for t' r
    using counts_by_delivered [of "note_request q t s" s]
    by (auto simp: counts_emit note_request_def failed_def)
  show "resolutions ?s t' r + open_requests ?s t' r + requests s t' r
      \<le> resolutions s t' r + open_requests s t' r + requests ?s t' r"
    if "\<not> failed s \<or> se_turn s \<noteq> Some t'" for t' r
    using that t by (auto simp: open_requests_def objs counts)
  show "failed s \<Longrightarrow> resolutions ?s t' r + requests s t' r \<le> resolutions s t' r + requests ?s t' r" for t' r
    by (simp add: counts)
  show "jmap_ok (pending_of ?s t') \<and> jmap_ok (flying_of ?s t')" for t'
    using perm_invD [OF inv] by (simp add: objs)
qed (use perm_invD(1) [OF inv] in \<open>simp_all add: note_request_def failed_def\<close>)

section \<open>The sweep and the storage failure\<close>

lemma counts_emit_swept:
  "requests (emit_swept cf now t cs s) t' r = requests s t' r"
  "resolutions (emit_swept cf now t cs s) t' r
     = resolutions s t' r + (if \<not> failed s \<and> t' = t then count_list (map fst cs) r else 0)"
proof (induction cs arbitrary: s)
  case (Cons c cs)
  case 1
  then show ?case using Cons.IH(1) by (simp add: emit_swept_def counts_emit split: prod.splits)
  case 2
  then show ?case using Cons.IH(2)
    by (auto simp: emit_swept_def counts_emit swept_def failed_def split: prod.splits)
qed (simp_all add: emit_swept_def)

lemma emit_swept_fields [simp]:
  "se_turns (emit_swept cf now t cs s) = se_turns s"
  "se_turn (emit_swept cf now t cs s) = se_turn s"
  "se_tasks (emit_swept cf now t cs s) = se_tasks s"
  "se_calls (emit_swept cf now t cs s) = se_calls s"
  "se_rules (emit_swept cf now t cs s) = se_rules s"
  "st_failed (se_stream (emit_swept cf now t cs s)) = st_failed (se_stream s)"
  unfolding emit_swept_def by (rule fold_frame; simp split: prod.splits)+

lemma counts_deliver_cancelled:
  "requests (deliver_cancelled now t cs s) t' r = requests s t' r"
  "resolutions (deliver_cancelled now t cs s) t' r
     = resolutions s t' r + (if t' = t then count_list (map fst cs) r else 0)"
proof (induction cs arbitrary: s)
  case (Cons c cs)
  case 1
  then show ?case using Cons.IH(1) by (simp add: deliver_cancelled_def counts_deliver split: prod.splits)
  case 2
  then show ?case using Cons.IH(2)
    by (auto simp: deliver_cancelled_def counts_deliver swept_def split: prod.splits)
qed (simp_all add: deliver_cancelled_def)

lemma deliver_cancelled_fields [simp]:
  "se_turns (deliver_cancelled now t cs s) = se_turns s"
  "se_turn (deliver_cancelled now t cs s) = se_turn s"
  "se_tasks (deliver_cancelled now t cs s) = se_tasks s"
  "se_calls (deliver_cancelled now t cs s) = se_calls s"
  "se_rules (deliver_cancelled now t cs s) = se_rules s"
  "st_failed (se_stream (deliver_cancelled now t cs s)) = st_failed (se_stream s)"
  unfolding deliver_cancelled_def by (rule fold_frame; simp split: prod.splits)+

lemma map_fst_cancellations:
  "map fst (cancellations s t) = map fst (pending_of s t) @ map fst (flying_of s t)"
  by (auto simp: cancellations_def)

lemma perm_exited: "perm_inv s \<Longrightarrow> perm_inv (exited cf now s)"
proof -
  assume inv: "perm_inv s"
  have "perm_inv (emit_swept cf now t (cancellations s t) (set_flying t [] (set_pending t [] s)))"
    if t: "se_turn s = Some t" for t
  proof (rule perm_transfer [OF inv])
    let ?c = "set_flying t [] (set_pending t [] s)"
    let ?s = "emit_swept cf now t (cancellations s t) ?c"
    have objs: "pending_of ?s t' = (if t' = t then [] else pending_of s t')"
      "flying_of ?s t' = (if t' = t then [] else flying_of s t')" for t'
      using of_turns [of ?s ?c] by simp_all
    have c: "requests ?c t' r = requests s t' r" "resolutions ?c t' r = resolutions s t' r" for t' r
      by (rule counts_by_delivered; simp)+
    have counts: "requests ?s t' r = requests s t' r"
      "resolutions ?s t' r = resolutions s t' r + (if \<not> failed s \<and> t' = t then open_requests s t r else 0)" for t' r
      using perm_invD [OF inv]
      by (auto simp: counts_emit_swept c failed_def map_fst_cancellations count_keys open_requests_def)
    show "resolutions ?s t' r + open_requests ?s t' r + requests s t' r
        \<le> resolutions s t' r + open_requests s t' r + requests ?s t' r" for t' r
      unfolding counts by (auto simp: open_requests_def objs jhas_def)
    show "failed s \<Longrightarrow> resolutions ?s t' r + requests s t' r \<le> resolutions s t' r + requests ?s t' r" for t' r
      by (simp add: counts)
    show "jmap_ok (pending_of ?s t') \<and> jmap_ok (flying_of ?s t')" for t'
      using perm_invD [OF inv] by (simp add: objs)
  qed (use perm_invD(1) [OF inv] in \<open>simp_all add: failed_def\<close>)
  with inv show ?thesis
    by (auto simp: exited_def Let_def split: option.splits)
qed

text \<open>
  The failure handler resolves what is pending of the turn it took from the slot. It runs once:
  its own task is gone when it does.
\<close>

lemma no_fail_metas: "fail_metas ts = 0 \<Longrightarrow> (w, FailMeta t) \<notin> set ts"
  by (auto simp: fail_metas_def filter_empty_conv)

lemma perm_deliver_cancelled:
  assumes inv: "perm_inv s" and no: "fail_metas (se_tasks s) = 0" and f: "failed s" and cov: "covered s t"
  shows "perm_inv (deliver_cancelled now t (map (\<lambda>(r, p). (r, pn_tool p, pn_input p)) (pending_of s t)) s)"
proof -
  let ?cs = "map (\<lambda>(r, p). (r, pn_tool p, pn_input p)) (pending_of s t)"
  let ?s = "deliver_cancelled now t ?cs s"
  have objs: "pending_of ?s t' = pending_of s t'" "flying_of ?s t' = flying_of s t'" for t'
    using of_turns [of ?s s] by simp_all
  have keys: "map fst ?cs = map fst (pending_of s t)" by auto
  have counts: "requests ?s t' r = requests s t' r"
      "resolutions ?s t' r = resolutions s t' r + (if t' = t \<and> jhas (pending_of s t) r then 1 else 0)" for t' r
    unfolding counts_deliver_cancelled keys using count_keys [OF perm_invD(2) [OF inv, of t]] by simp_all
  have "resolutions ?s t' r \<le> requests ?s t' r" for t' r
  proof (cases "t' = t")
    case True
    from cov have "resolutions s t r + open_requests s t r \<le> requests s t r" by (simp add: covered_def)
    with True show ?thesis by (auto simp: counts open_requests_def)
  next
    case False
    with inv show ?thesis by (simp add: counts perm_inv_def)
  qed
  moreover have "turns_ok ?s" using inv by (simp add: turns_ok_def objs perm_inv_def)
  moreover have "fail_metas_ok ?s" using no no_fail_metas by (simp add: fail_metas_ok_def)
  ultimately show ?thesis using f by (simp add: perm_inv_def failed_def)
qed

lemma perm_fail_meta_written:
  assumes inv: "perm_inv s" and no: "fail_metas (se_tasks s) = 0" and f: "failed s"
    and cov: "\<And>t. topt = Some t \<Longrightarrow> covered s t"
  shows "perm_inv (fail_meta_written now topt s)"
proof (cases topt)
  case None
  with inv show ?thesis by (auto simp: fail_meta_written_def fail_closed_def)
next
  case (Some t)
  let ?k = "call CallKill s"
  have p: "pending_of ?k t = pending_of s t" by (rule of_turns) simp
  have "covered ?k t"
    using cov [OF Some] counts_by_delivered [of ?k s] of_turns [of ?k s]
    by (simp add: covered_def open_requests_def)
  with inv no f perm_deliver_cancelled [of ?k t now] Some show ?thesis
    by (simp add: fail_meta_written_def Let_def failed_def p)
qed

lemma perm_fail_audited: "perm_inv s \<Longrightarrow> perm_inv (fail_audited now t rs xs s)"
  by (auto simp: fail_audited_def)

lemma perm_fail_closed: "perm_inv s \<Longrightarrow> perm_inv (fail_closed now s)"
  by (auto simp: fail_closed_def)

lemma perm_storage_failed:
  assumes inv: "perm_inv s" and ok: "\<not> failed s"
  shows "perm_inv (storage_failed now s)"
proof -
  let ?s = "storage_failed now s"
  have st: "st_delivered (se_stream ?s) = st_delivered (se_stream s)" "failed ?s"
    "se_turns ?s = se_turns s" "se_turn ?s = None" "se_tasks ?s = se_tasks s @ [(None, FailMeta (se_turn s))]"
    by (simp_all add: storage_failed_def Let_def append_failed_def failed_def mark_ended_def
        release_workspace_def clear_turn_def call_def post_def)
  have objs: "pending_of ?s t = pending_of s t" "flying_of ?s t = flying_of s t" for t
    by (rule of_turns, rule st)+
  have counts: "requests ?s t r = requests s t r" "resolutions ?s t r = resolutions s t r" for t r
    by (rule counts_by_delivered, rule st)+
  from inv ok have none: "fail_metas (se_tasks s) = 0" and cov: "covered s t" for t
    by (simp_all add: perm_inv_def fail_metas_ok_def)
  have cov': "covered ?s t" for t
    using cov by (simp add: covered_def counts open_requests_def objs)
  have "fail_metas_ok ?s"
    using none no_fail_metas [OF none] cov' perm_invD(1) [OF inv] st(2)
    by (auto simp: fail_metas_ok_def st)
  moreover have "turns_ok ?s"
    using perm_invD [OF inv] by (simp add: turns_ok_def objs st)
  ultimately show ?thesis
    using inv st(2) by (simp add: perm_inv_def counts)
qed

lemma perm_append_settled: "perm_inv s \<Longrightarrow> perm_inv (append_settled now r s)"
proof -
  assume inv: "perm_inv s"
  have "perm_inv (s\<lparr>se_stream := append_ok (se_stream s)\<rparr>) = perm_inv s"
    by (rule perm_frame) (simp_all add: append_ok_def split: list.splits)
  with inv show ?thesis
    by (auto simp: append_settled_def perm_storage_failed split: sum.splits)
qed

section \<open>Every handler\<close>

lemma in_turns:
  "jhas (flying_of s t) r \<Longrightarrow> jhas (se_turns s) t" "jhas (pending_of s t) r \<Longrightarrow> jhas (se_turns s) t"
  by (auto simp: flying_of_def pending_of_def turn_object_of_def jhas_def split: option.splits)

lemma perm_send_message:
  "perm_inv s \<Longrightarrow> \<not> jhas (se_turns s) tid \<Longrightarrow> perm_inv (send_message cf now owner msg atts model tid aids s)"
proof -
  assume "perm_inv s" "\<not> jhas (se_turns s) tid"
  moreover have "perm_inv (fold (\<lambda>(r, d). call (CallWriteAttachment tid r d)) ps s) = perm_inv s" for ps s
    by (rule fold_frame) (simp split: prod.splits)
  ultimately show ?thesis
    by (auto simp: send_message_def Let_def intro!: perm_claim_turn split: option.splits sum.splits prod.splits)
qed

lemma perm_send:
  assumes "perm_inv s"
  shows "perm_inv (send_gone c s)" "perm_inv (send_gone_reply s)" "perm_inv (send_unwritten e s)"
    "perm_inv (send_open cf now c s)" "perm_inv (send_written cf now c rs s)"
    "perm_inv (send_checkpointed cf now c r s)" "perm_inv (send_started cf now c s)"
    "perm_inv (send_spawn c s)" "perm_inv (send_messaged cf now c s)" "perm_inv (send_fail_kill c ae s)"
    "perm_inv (send_sent cf now c r' s)" "perm_inv (send_fail_killed cf now c ae s)"
    "perm_inv (send_fail_ended ae s)"
  using assms
  by (auto simp: send_gone_def send_gone_reply_def send_unwritten_def send_open_def send_written_def
      send_checkpointed_def send_started_def send_spawn_def send_messaged_def send_fail_kill_def send_sent_def
      send_fail_killed_def send_fail_ended_def rollback_then_def
      split: option.splits sum.splits prod.splits adapter_error.splits)

lemma perm_final_resolved [intro!]: "perm_inv s \<Longrightarrow> perm_inv (final_resolved cf now f v n s)"
  by (auto simp: final_resolved_def final_done_def audit_notice_def)

lemma perm_respond_or_cancel:
  assumes inv: "perm_inv s" and fl: "jhas (flying_of s (fz_turn f)) (fz_request f)"
    and v: "pv_request_id intended = fz_request f"
  shows "perm_inv (respond_or_cancel cf now f d reason intended n responded s)"
proof -
  let ?t = "fz_turn f" and ?r = "fz_request f"
  let ?k = "call (CallRespond ?t ?r d reason (is_ok responded)) s"
  have k: "perm_inv ?k" "flying_of ?k ?t = flying_of s ?t"
    using inv of_turns [of ?k s] by simp_all
  have fl': "jhas (flying_of ?k ?t) ?r" using fl k by simp
  note t = in_turns(1) [OF fl']
  have "perm_inv (set_flying ?t (jdel (flying_of s ?t) ?r) ?k)"
    using perm_drop_flying [OF k(1) t fl'] k(2) by simp
  moreover have "perm_inv (emit cf now (Some ?t) (PermissionResolved v) None (set_flying ?t (jdel (flying_of s ?t) ?r) ?k))"
    if "pv_request_id v = ?r" for v
    using perm_resolve [OF k(1) t fl' that] k(2) by simp
  moreover have "pv_request_id (swept ?r) = ?r" by (simp add: swept_def)
  ultimately show ?thesis
    using v by (auto simp: respond_or_cancel_def Let_def emit_then_def del: perm_emit
        split: sum.splits adapter_error.splits)
qed

lemma perm_finalize_audited:
  assumes inv: "perm_inv s" and f: "fz_ok cf rules f"
  shows "perm_inv (finalize_audited cf now f appended responded s)"
proof -
  let ?k = "call (CallAudit (fz_turn f) (fz_request f) (fz_record f) (is_ok appended)) s"
  have h: "flying_of (hold_rule rule ?k) t = flying_of ?k t" for rule t by (rule of_turns) simp
  have "perm_inv (hold_rule rule ?k)" for rule using inv by simp
  with inv f h show ?thesis
    by (auto simp: finalize_audited_def Let_def final_done_def audit_failure_resolution_def fz_ok_def
        intro!: perm_respond_or_cancel split: sum.splits)
qed

lemma perm_answer_permission: "perm_inv s \<Longrightarrow> perm_inv (answer_permission cf now owner a s)"
  using perm_invD(1) [of s]
  by (auto simp: answer_permission_def jhas_def intro!: perm_claim_request split: option.splits)

lemma perm_resolve_preapproved: "perm_inv s \<Longrightarrow> perm_inv (resolve_preapproved now t q rule s)"
  using in_turns(2) [of s t "pr_request_id q"]
  by (auto simp: resolve_preapproved_def intro!: perm_claim_request)

lemma perm_final_cancel:
  assumes "perm_inv s"
  shows "perm_inv (final_cancel_audited now f n w ap s)" "perm_inv (final_cancelled cf now f n b s)"
    "perm_inv (final_done f v s)" "perm_inv (sweep_audited cf now t rs xs s)" "perm_inv (cli_announced s)"
    "perm_inv (spawn_recorded cf now t pid pgid img x s)"
  using assms
  by (auto simp: final_cancel_audited_def final_cancelled_def final_done_def sweep_audited_def audit_notice_def
      cli_announced_def spawn_recorded_def Let_def)

lemma carried_or_neutral: "adapter_emitted d \<Longrightarrow> \<not> carries_turn_id d \<Longrightarrow> neutral d"
  by (cases d) auto

lemma perm_handle_event: "perm_inv s \<Longrightarrow> adapter_emitted (ae_data e) \<Longrightarrow> perm_inv (handle_event cf now e s)"
proof -
  assume inv: "perm_inv s" and ok: "adapter_emitted (ae_data e)"
  have w: "perm_inv (start_tool_write cf r t s)" for r t using inv by (simp add: start_tool_write_def)
  have "perm_inv (event_in_turn cf now (ae_data e) raw t s)" if "se_turn s = Some t" for raw t
    using inv ok w perm_note_request [OF inv that]
    by (auto simp: event_in_turn_def Let_def split: payload.splits option.splits)
  moreover have "perm_inv (event_without_turn cf now (ae_data e) raw s)" for raw
    using inv ok by (auto simp: event_without_turn_def intro: carried_or_neutral)
  ultimately show ?thesis by (simp add: handle_event_def split: option.splits)
qed

fun event_ok :: "event \<Rightarrow> bool" where
  "event_ok (Notification (AdapterEvent e)) = adapter_emitted (ae_data e)"
| "event_ok (Append owner d) = neutral d"
| "event_ok _ = True"

lemma perm_handle_notification:
  "perm_inv s \<Longrightarrow> event_ok (Notification nt) \<Longrightarrow> perm_inv (handle_notification cf now nt s)"
  by (cases nt)
    (auto simp: handle_notification_def perm_handle_event perm_exited cli_session_def spawned_def Let_def
      split: option.splits)

lemma perm_methods:
  assumes "perm_inv s"
  shows "perm_inv (interrupt owner t s)" "perm_inv (rename_session owner nm s)"
    "perm_inv (end_session now owner s)" "perm_inv (end_announce cf now s)"
    "neutral d \<Longrightarrow> perm_inv (append_event cf now owner d s)" "perm_inv (append_answered e s)"
    "perm_inv (shutdown s)" "perm_inv (shutdown_killed pid s)"
    "perm_inv (remove_session owner claim s)" "perm_inv (remove_drained s)"
    "perm_inv (remove_flushed s)" "perm_inv (restore_checkpoint cf owner sha claim s)"
    "perm_inv (restore_finally rp s)" "perm_inv (restore_ran cf now sha rr s)"
    "perm_inv (restore_listed cf now ce l s)" "perm_inv (reassign_principal owner claim s)"
    "perm_inv (reassigned x w s)"
  using assms
  by (auto simp: interrupt_def rename_session_def end_session_def end_announce_def append_event_def
      append_answered_def shutdown_def shutdown_killed_def remove_session_def remove_drained_def
      remove_flushed_def restore_checkpoint_def restore_finally_def restore_ran_def restore_listed_def
      reassign_principal_def reassigned_def Let_def
      split: option.splits sum.splits prod.splits checkpoint_error.splits list.splits)

lemma perm_remove_destroyed: "perm_inv s \<Longrightarrow> perm_inv (remove_destroyed now d e s)"
proof -
  assume inv: "perm_inv s"
  let ?s = "drop_ring_of (release_workspace (discard_staged (s\<lparr>se_registered := False\<rparr>)))"
  have "perm_inv (with_stream (deliver_direct i now None (ErrorEvent k m f) (se_stream ?s)) ?s)
      = perm_inv (?s\<lparr>se_stream := deliver_direct i now None (ErrorEvent k m f) (se_stream ?s)\<rparr>)" for i k m f
    by (rule perm_frame) (simp_all add: with_stream_def)
  moreover have "perm_inv (deliver now None (ErrorEvent k m f) ?s)" for k m f using inv by auto
  ultimately show ?thesis using inv
    by (auto simp: remove_destroyed_def Let_def deliver_def)
qed

section \<open>Every tick\<close>

lemma perm_resume:
  assumes inv: "perm_inv s" and f: "\<And>f. k = Finalize f \<Longrightarrow> fz_ok cf (se_rules s) f"
    and m: "\<And>t. k = FailMeta t \<Longrightarrow> fail_metas (se_tasks s) = 0 \<and> failed s \<and> (\<forall>x. t = Some x \<longrightarrow> covered s x)"
    and r: "resume cf now k r s = Some s'"
  shows "perm_inv s'"
proof -
  from r consider "resume_send cf now k r s = Some s'" | "resume_permission cf now k r s = Some s'"
    | "resume_method cf now k r s = Some s'"
    by (auto simp: resume_def split: option.splits)
  then show ?thesis
  proof cases
    case 1
    then show ?thesis using inv
      by (auto simp: resume_send_def perm_send split: task.splits outcome.splits if_splits)
  next
    case 2
    then show ?thesis using inv f
      by (auto simp: resume_permission_def perm_final_cancel perm_resolve_preapproved
          intro!: perm_finalize_audited split: task.splits outcome.splits if_splits)
  next
    case 3
    then show ?thesis using inv m
      by (auto simp: resume_method_def perm_methods perm_remove_destroyed perm_fail_closed perm_fail_audited
          intro!: perm_fail_meta_written split: task.splits outcome.splits if_splits)
  qed
qed

lemma fail_metas_remove_nth:
  "i < length ts \<Longrightarrow> ts ! i = (w, k) \<Longrightarrow>
   fail_metas ts = (if fail_meta k then Suc (fail_metas (remove_nth i ts)) else fail_metas (remove_nth i ts))"
proof -
  assume i: "i < length ts" and k: "ts ! i = (w, k)"
  have "fail_metas ts = fail_metas (take i ts @ ts ! i # drop (Suc i) ts)"
    using i by (simp add: id_take_nth_drop [symmetric])
  then show ?thesis by (simp add: k remove_nth_def)
qed

lemma perm_resumed:
  assumes inv: "perm_inv s" and i: "i < length (se_tasks s)" "se_tasks s ! i = (w, k)"
  defines "s0 \<equiv> s\<lparr>se_tasks := remove_nth i (se_tasks s)\<rparr>"
  shows "perm_inv s0"
    and "k = FailMeta t \<Longrightarrow> fail_metas (se_tasks s0) = 0 \<and> failed s0 \<and> (\<forall>x. t = Some x \<longrightarrow> covered s0 x)"
proof -
  have objs: "pending_of s0 t = pending_of s t" "flying_of s0 t = flying_of s t" for t
    by (rule of_turns; simp add: s0_def)+
  have counts: "requests s0 t r = requests s t r" "resolutions s0 t r = resolutions s t r" for t r
    by (rule counts_by_delivered; simp add: s0_def)+
  have fields: "se_turn s0 = se_turn s" "se_turns s0 = se_turns s" "failed s0 = failed s"
    "se_tasks s0 = remove_nth i (se_tasks s)"
    by (simp_all add: s0_def failed_def)
  have cov: "covered s0 t = covered s t" for t
    by (simp add: covered_def open_requests_def objs counts)
  have le: "fail_metas (remove_nth i (se_tasks s)) \<le> fail_metas (se_tasks s)"
    using fail_metas_remove_nth [OF i] by (simp split: if_splits)
  have sub: "set (remove_nth i (se_tasks s)) \<subseteq> set (se_tasks s)"
    unfolding remove_nth_def by (auto dest: in_set_takeD in_set_dropD)
  have fm: "fail_metas_ok s" using inv by (simp add: perm_inv_def)
  then have "fail_metas_ok s0"
    unfolding fail_metas_ok_def using le sub by (fastforce simp: cov fields)
  with inv show "perm_inv s0"
    by (simp add: perm_inv_def turns_ok_def cov counts objs fields)
  have mem: "(w, k) \<in> set (se_tasks s)" using i by (metis nth_mem)
  show "k = FailMeta t \<Longrightarrow> fail_metas (se_tasks s0) = 0 \<and> failed s0 \<and> (\<forall>x. t = Some x \<longrightarrow> covered s0 x)"
    using fm mem fail_metas_remove_nth [OF i]
    by (auto simp: fail_metas_ok_def cov fields split: if_splits)
qed

lemma perm_step:
  assumes inv: "perm_inv s" and audit: "audit_inv cf s" and ok: "event_ok e"
  shows "perm_inv (step cf m ttl now e s)"
proof (cases e)
  case (Resume i r)
  let ?s = "s\<lparr>se_tasks := remove_nth i (se_tasks s)\<rparr>"
  have "perm_inv s'"
    if "i < length (se_tasks s)" "se_tasks s ! i = (w, k)" "resume cf now k r ?s = Some s'" for w k s'
  proof (rule perm_resume [OF _ _ _ that(3)])
    show "perm_inv ?s" using inv that(1,2) by (rule perm_resumed)
    show "fz_ok cf (se_rules ?s) f" if "k = Finalize f" for f
      using task_ok_resumed(1) [OF audit \<open>i < length (se_tasks s)\<close> \<open>se_tasks s ! i = (w, k)\<close>] that by simp
    show "fail_metas (se_tasks ?s) = 0 \<and> failed ?s \<and> (\<forall>x. t = Some x \<longrightarrow> covered ?s x)" if "k = FailMeta t" for t
      using perm_resumed(2) [OF inv \<open>i < length (se_tasks s)\<close> \<open>se_tasks s ! i = (w, k)\<close> that] .
  qed
  with inv Resume show ?thesis
    by (simp split: prod.splits option.splits)
next
  case (Send owner msg atts model tid aids)
  with inv show ?thesis by (simp add: perm_send_message)
next
  case (CheckpointsInit x)
  with inv show ?thesis by auto
qed (use inv ok in \<open>simp_all add: perm_answer_permission perm_methods perm_handle_notification perm_append_settled\<close>)

lemma perm_run:
  "perm_inv s \<Longrightarrow> audit_inv cf s \<Longrightarrow> \<forall>(now, e) \<in> set es. event_ok e \<Longrightarrow> perm_inv (run cf m ttl es s)"
  unfolding run_def
  by (induction es arbitrary: s) (auto simp: perm_step audit_step split: prod.splits)

lemma perm_created:
  "perm_inv (created_entry r accepts al us)" "perm_inv (rehydrated_entry r creating al us)"
  by (simp_all add: perm_defs count_defs created_entry_def rehydrated_entry_def new_stream_def
      pending_of_def flying_of_def turn_object_of_def jhas_def)

end
