(* ===== verification/Session_Liveness.thy ===== *)
theory Session_Liveness
  imports Session_Frames
begin

text \<open>
  A session comes to rest. Once no new call or notification arrives, every completion of an
  append, an audit, a write or a wait brings the session strictly closer to having nothing left
  to do, and while anything is left some completion can happen. So every call is answered if
  the outside answers.
\<close>

section \<open>Work\<close>

text \<open>How many ticks a task can still cause, appends of what it emits included.\<close>

fun weight :: "task \<Rightarrow> nat" where
  "weight (SendWrites _) = 16"
| "weight (SendUnwritten _ _) = 1"
| "weight (SendCheckpoint _) = 15"
| "weight (SendCheckpointed _) = 13"
| "weight (SendStarted _) = 11"
| "weight (SendMessaged _) = 9"
| "weight (SendNoticed _) = 7"
| "weight (SendGone _) = 1"
| "weight (SendSent _) = 6"
| "weight (SendFailReported _ _) = 4"
| "weight (SendFailKilled _ _) = 3"
| "weight (SendFailEnded _ _) = 1"
| "weight (Finalize _) = 8"
| "weight (FinalCancel _ _ _) = 6"
| "weight (FinalCancelled _ _ _) = 5"
| "weight (FinalCancelNoticed _ _) = 3"
| "weight (FinalResolved _ _ _) = 3"
| "weight (FinalNoticed _ _) = 1"
| "weight (SweepAudits _ _) = 2"
| "weight (Preapprove _ _ _) = 9"
| "weight CliAnnounced = 1"
| "weight (SpawnRead _ _ _ _) = 1"
| "weight Interrupted = 1"
| "weight EndMeta = 3"
| "weight EndEmitted = 1"
| "weight RemoveDrain = 3"
| "weight RemoveFlushed = 2"
| "weight RemoveStorage = 1"
| "weight Renamed = 1"
| "weight (ReassignMeta _) = 1"
| "weight (RestoreRun _) = 6"
| "weight (RestoreReported _ _) = 4"
| "weight (RestoreList _ _) = 3"
| "weight (RestoreFailed _) = 1"
| "weight (RestoreOk _) = 1"
| "weight (Appended _) = 1"
| "weight (ShutdownKill _) = 1"
| "weight (FailMeta _) = 3"
| "weight (FailAudits _ _) = 2"
| "weight FailKilled = 1"

definition tasks_weight :: "(nat option \<times> task) list \<Rightarrow> nat" where
  "tasks_weight ts = sum_list (map (weight \<circ> snd) ts)"

definition work :: "sess \<Rightarrow> nat" where
  "work s = tasks_weight (se_tasks s) + length (st_queue (se_stream s)) + se_tool_writes s
     + (if failed s then 0 else 4)"

lemma tasks_weight_simps [simp]:
  "tasks_weight [] = 0"
  "tasks_weight ((w, k) # ts) = weight k + tasks_weight ts"
  "tasks_weight (xs @ ys) = tasks_weight xs + tasks_weight ys"
  by (simp_all add: tasks_weight_def)

lemma weight_pos: "0 < weight k"
  by (cases k) auto

lemma work_frame:
  "se_tasks s' = se_tasks s \<Longrightarrow> st_queue (se_stream s') = st_queue (se_stream s) \<Longrightarrow>
   st_failed (se_stream s') = st_failed (se_stream s) \<Longrightarrow> se_tool_writes s' = se_tool_writes s \<Longrightarrow>
   work s' = work s"
  by (simp add: work_def failed_def)

lemma work_updates [simp]:
  "work (call c s) = work s"
  "work (reply r s) = work s"
  "work (set_object t x s) = work s"
  "work (set_pending t p s) = work s"
  "work (set_flying t f s) = work s"
  "work (set_phase t q s) = work s"
  "work (clear_turn s) = work s"
  "work (set_operation z s) = work s"
  "work (release_workspace s) = work s"
  "work (discard_staged s) = work s"
  "work (hold_rule rule s) = work s"
  "work (mark_ended reason now s) = work s"
  "work (drop_ring_of s) = work s"
  "work (deliver now tt d s) = work s"
  "work (s\<lparr>se_alloc := al\<rparr>) = work s"
  "work (s\<lparr>se_registered := b\<rparr>) = work s"
  "work (s\<lparr>se_has_run_a_turn := b\<rparr>) = work s"
  "work (s\<lparr>se_record := y\<rparr>) = work s"
  by (rule work_frame;
      simp add: call_def reply_def set_object_def set_pending_def set_flying_def set_phase_def clear_turn_def
        set_operation_def release_workspace_def discard_staged_def hold_rule_def mark_ended_def drop_ring_of_def
        deliver_def deliver_direct_def with_stream_def Let_def split: option.splits)+

lemma work_post [simp]: "work (post w k s) = work s + weight k"
  by (simp add: work_def post_def failed_def)

lemma work_emit [simp]: "work (emit cf now tt d raw s) = work s + (if failed s then 0 else 1)"
  by (auto simp: work_def emit_def with_stream_def emit_stream_def Let_def failed_def)

lemma work_emit_then [simp]:
  "work (emit_then cf now tt d k s) = work s + weight k + (if failed s then 0 else 1)"
  by (simp add: emit_then_def)

lemma work_log_audits [simp]: "work (log_audits t rs xs s) = work s"
  unfolding log_audits_def by (rule fold_frame) (simp split: prod.splits)

lemma work_deliver_cancelled [simp]: "work (deliver_cancelled now t cs s) = work s"
  unfolding deliver_cancelled_def by (rule fold_frame) (simp split: prod.splits)

section \<open>Handlers\<close>

lemma work_send_gone: "work s \<le> w \<Longrightarrow> 1 < n \<Longrightarrow> work (send_gone c s) < w + n"
  by (simp add: send_gone_def rollback_then_def send_gone_reply_def)

lemma work_send_open: "work s \<le> w \<Longrightarrow> 12 < n \<Longrightarrow> work (send_open cf now c s) < w + n"
  using work_send_gone [of s w n c] by (auto simp: send_open_def)

lemma work_final_resolved: "work s \<le> w \<Longrightarrow> 2 < n \<Longrightarrow> work (final_resolved cf now f v b s) < w + n"
  by (simp add: final_resolved_def final_done_def)

lemma work_respond_or_cancel:
  "work s \<le> w \<Longrightarrow> 7 < n \<Longrightarrow> work (respond_or_cancel cf now f d re i b rs s) < w + n"
  by (auto simp: respond_or_cancel_def Let_def intro!: work_final_resolved split: sum.splits adapter_error.splits)

lemma work_resume_send:
  "resume_send cf now k r s = Some s' \<Longrightarrow> work s' < work s + weight k"
  by (auto simp: resume_send_def send_written_def rollback_then_def send_unwritten_def send_gone_reply_def
      send_checkpointed_def send_started_def send_messaged_def send_spawn_def send_sent_def send_fail_kill_def
      send_fail_killed_def send_fail_ended_def less_Suc_eq_le intro!: work_send_gone work_send_open
      split: task.splits outcome.splits option.splits sum.splits if_splits adapter_error.splits prod.splits)

lemma work_resume_permission:
  "resume_permission cf now k r s = Some s' \<Longrightarrow> work s' < work s + weight k"
  by (auto simp: resume_permission_def finalize_audited_def final_done_def final_cancel_audited_def
      final_cancelled_def sweep_audited_def resolve_preapproved_def claim_request_def cli_announced_def
      spawn_recorded_def Let_def less_Suc_eq_le intro!: work_respond_or_cancel work_final_resolved
      split: task.splits outcome.splits option.splits sum.splits if_splits)

lemma work_queue_moves: "work s \<le> w \<Longrightarrow> work (queue_moves s) \<le> w"
  by (simp add: work_def queue_moves_def append_done_def failed_def)

lemma work_fail_closed: "work s \<le> w \<Longrightarrow> work (fail_closed now s) \<le> w"
  unfolding fail_closed_def by (rule work_queue_moves) simp

lemma work_fail_closed_less: "0 < n \<Longrightarrow> work (fail_closed now s) < work s + n"
  using work_fail_closed [of s "work s" now] by simp

lemma work_removed: "work (s\<lparr>se_stream := deliver_direct i now tt d (se_stream s)\<rparr>) = work s"
  by (rule work_frame) (simp_all add: deliver_direct_def)

lemma work_resume_method:
  "resume_method cf now k r s = Some s' \<Longrightarrow> work s' < work s + weight k"
  by (auto simp: resume_method_def end_announce_def remove_drained_def remove_flushed_def remove_destroyed_def
      reassigned_def restore_ran_def restore_listed_def restore_finally_def append_answered_def shutdown_killed_def
      fail_meta_written_def fail_audited_def work_removed Let_def less_Suc_eq_le
      intro!: work_fail_closed work_fail_closed_less le_imp_less_Suc
      split: task.splits outcome.splits option.splits sum.splits if_splits checkpoint_error.splits list.splits)

lemma work_resume: "resume cf now k r s = Some s' \<Longrightarrow> work s' < work s + weight k"
  by (auto simp: resume_def work_resume_send work_resume_permission work_resume_method split: option.splits)

section \<open>Completions\<close>

text \<open>The ticks that are not new calls or notifications.\<close>

fun completion :: "event \<Rightarrow> bool" where
  "completion (Resume _ _) = True"
| "completion (AppendSettled _) = True"
| "completion ToolWritten = True"
| "completion _ = False"

lemma tasks_weight_remove_nth:
  "i < length ts \<Longrightarrow> ts ! i = (w, k) \<Longrightarrow> tasks_weight ts = weight k + tasks_weight (remove_nth i ts)"
proof -
  assume i: "i < length ts" and k: "ts ! i = (w, k)"
  have "tasks_weight ts = tasks_weight (take i ts @ ts ! i # drop (Suc i) ts)"
    using i by (simp add: id_take_nth_drop [symmetric])
  then show ?thesis by (simp add: k remove_nth_def)
qed

lemma work_append_settled:
  "st_queue (se_stream s) \<noteq> [] \<Longrightarrow> work (append_settled now r s) < work s"
proof (cases r)
  case (Inr u)
  assume "st_queue (se_stream s) \<noteq> []"
  with Inr show ?thesis
    by (cases "st_queue (se_stream s)") (simp_all add: append_settled_def work_def append_ok_def failed_def)
next
  case (Inl e)
  assume q: "st_queue (se_stream s) \<noteq> []"
  show ?thesis
  proof (cases "failed s")
    case True
    with Inl q show ?thesis
      by (cases "st_queue (se_stream s)")
        (simp_all add: append_settled_def work_def queue_moves_def append_done_def failed_def)
  next
    case False
    have "work (s\<lparr>se_stream := append_failed (se_stream s)\<rparr>) + 4 = work s"
      using False by (simp add: work_def append_failed_def failed_def)
    with False Inl show ?thesis
      by (simp add: append_settled_def storage_failed_def Let_def)
  qed
qed

lemma completion_works:
  assumes "completion e"
  shows "step cf m ttl now e s = s \<or> work (step cf m ttl now e s) < work s"
proof (cases e)
  case (Resume i r)
  show ?thesis
  proof (cases "i < length (se_tasks s)")
    case True
    obtain w k where k: "se_tasks s ! i = (w, k)" by fastforce
    let ?s = "s\<lparr>se_tasks := remove_nth i (se_tasks s)\<rparr>"
    have "work s = work ?s + weight k"
      using tasks_weight_remove_nth [OF True k] by (simp add: work_def failed_def)
    with work_resume [of cf now k r ?s] True k Resume show ?thesis
      by (auto split: option.splits)
  qed (simp add: Resume)
next
  case (AppendSettled r)
  then show ?thesis using work_append_settled by simp
next
  case ToolWritten
  then show ?thesis by (cases "se_tool_writes s") (simp_all add: work_def failed_def)
qed (use assms in simp_all)

section \<open>Progress\<close>

text \<open>The tasks of the failure handler wait for no append: they are what the queue waits for.\<close>

definition spill_free :: "sess \<Rightarrow> bool" where
  "spill_free s = (\<forall>(w, k) \<in> set (se_tasks s). spill_task k \<longrightarrow> w = None)"

lemma spill_free_post [simp]: "spill_free (post w k s) \<longleftrightarrow> spill_free s \<and> (spill_task k \<longrightarrow> w = None)"
  by (auto simp: spill_free_def)

lemma spill_free_tasks: "se_tasks s' = se_tasks s \<Longrightarrow> spill_free s' = spill_free s"
  by (simp add: spill_free_def)

lemma spill_free_updates [simp]:
  "spill_free (call c s) = spill_free s"
  "spill_free (reply r s) = spill_free s"
  "spill_free (set_object t x s) = spill_free s"
  "spill_free (set_pending t p s) = spill_free s"
  "spill_free (set_flying t f s) = spill_free s"
  "spill_free (set_phase t q s) = spill_free s"
  "spill_free (clear_turn s) = spill_free s"
  "spill_free (set_operation z s) = spill_free s"
  "spill_free (release_workspace s) = spill_free s"
  "spill_free (discard_staged s) = spill_free s"
  "spill_free (hold_rule rule s) = spill_free s"
  "spill_free (mark_ended reason now s) = spill_free s"
  "spill_free (drop_ring_of s) = spill_free s"
  "spill_free (queue_moves s) = spill_free s"
  "spill_free (emit cf now tt d raw s) = spill_free s"
  "spill_free (emit_frame_to cf now tt d raw s) = spill_free s"
  "spill_free (deliver now tt d s) = spill_free s"
  "spill_free (claim_turn now t s) = spill_free s"
  "spill_free (log_audits t rs xs s) = spill_free s"
  "spill_free (deliver_cancelled now t cs s) = spill_free s"
  "spill_free (emit_swept cf now t cs s) = spill_free s"
  "spill_free (s\<lparr>se_alloc := al\<rparr>) = spill_free s"
  "spill_free (s\<lparr>se_uploads := us\<rparr>) = spill_free s"
  "spill_free (s\<lparr>se_registered := b\<rparr>) = spill_free s"
  "spill_free (s\<lparr>se_creating := b\<rparr>) = spill_free s"
  "spill_free (s\<lparr>se_has_run_a_turn := b\<rparr>) = spill_free s"
  "spill_free (s\<lparr>se_first_turn_announced := b\<rparr>) = spill_free s"
  "spill_free (s\<lparr>se_checkpoints_available := b\<rparr>) = spill_free s"
  "spill_free (s\<lparr>se_live_pid := pid\<rparr>) = spill_free s"
  "spill_free (s\<lparr>se_tool_writes := n\<rparr>) = spill_free s"
  "spill_free (s\<lparr>se_muted := b\<rparr>) = spill_free s"
  "spill_free (s\<lparr>se_record := y\<rparr>) = spill_free s"
  "spill_free (s\<lparr>se_stream := st\<rparr>) = spill_free s"
  by (rule spill_free_tasks;
      simp add: claim_turn_def set_object_def deliver_cancelled_def emit_swept_def fold_frame split: prod.splits)+

lemma spill_free_emit_then [simp]:
  "spill_free (emit_then cf now tt d k s) \<longleftrightarrow> spill_free s \<and> (spill_task k \<longrightarrow> emit_wait s = None)"
  by (simp add: emit_then_def)

lemma spill_free_writes [simp]:
  "spill_free (fold (\<lambda>(r, d). call (CallWriteAttachment tid r d)) ps s) = spill_free s"
  by (rule fold_frame) (simp split: prod.splits)

lemma spill_free_resume:
  assumes "spill_free s" "resume cf now k r s = Some s'"
  shows "spill_free s'"
proof -
  from assms(2) consider "resume_send cf now k r s = Some s'" | "resume_permission cf now k r s = Some s'"
    | "resume_method cf now k r s = Some s'"
    by (auto simp: resume_def split: option.splits)
  then show ?thesis
  proof cases
    case 1
    then show ?thesis using assms(1)
      by (auto simp: resume_send_def send_written_def rollback_then_def send_unwritten_def send_gone_reply_def
          send_gone_def send_open_def send_checkpointed_def send_started_def send_messaged_def send_spawn_def
          send_sent_def send_fail_kill_def send_fail_killed_def send_fail_ended_def
          split: task.splits outcome.splits option.splits sum.splits if_splits adapter_error.splits prod.splits)
  next
    case 2
    then show ?thesis using assms(1)
      by (auto simp: resume_permission_def finalize_audited_def final_done_def final_cancel_audited_def
          final_cancelled_def final_resolved_def respond_or_cancel_def sweep_audited_def resolve_preapproved_def
          claim_request_def cli_announced_def spawn_recorded_def Let_def
          split: task.splits outcome.splits option.splits sum.splits if_splits adapter_error.splits)
  next
    case 3
    then show ?thesis using assms(1)
      by (auto simp: resume_method_def end_announce_def remove_drained_def remove_flushed_def remove_destroyed_def
          reassigned_def restore_ran_def restore_listed_def restore_finally_def append_answered_def
          shutdown_killed_def fail_meta_written_def fail_audited_def fail_closed_def Let_def
          split: task.splits outcome.splits option.splits sum.splits if_splits checkpoint_error.splits list.splits)
  qed
qed

lemma spill_free_step: "spill_free s \<Longrightarrow> spill_free (step cf m ttl now e s)"
proof (cases e)
  case (Resume i r)
  assume s: "spill_free s"
  have "set (remove_nth i (se_tasks s)) \<subseteq> set (se_tasks s)"
    unfolding remove_nth_def by (auto dest: in_set_takeD in_set_dropD)
  with s have "spill_free (s\<lparr>se_tasks := remove_nth i (se_tasks s)\<rparr>)" by (auto simp: spill_free_def)
  with s Resume show ?thesis
    by (auto dest: spill_free_resume split: prod.splits option.splits)
next
  case (Notification n)
  assume "spill_free s"
  then show ?thesis unfolding Notification
    by (auto simp: handle_notification_def handle_event_def event_in_turn_def event_without_turn_def
        note_request_def start_tool_write_def cli_session_def spawned_def exited_def Let_def
        split: adapter_notification.splits option.splits payload.splits)
qed (auto simp: send_message_def answer_permission_def claim_request_def interrupt_def end_session_def
    remove_session_def rename_session_def reassign_principal_def restore_checkpoint_def append_event_def
    shutdown_def append_settled_def storage_failed_def Let_def
    split: option.splits sum.splits prod.splits)

lemma spill_free_run: "spill_free s \<Longrightarrow> spill_free (run cf m ttl es s)"
  unfolding run_def by (induction es arbitrary: s) (auto simp: spill_free_step split: prod.splits)

text \<open>Every task has an outcome it resumes with.\<close>

fun answer_of :: "task \<Rightarrow> outcome" where
  "answer_of (SendWrites c) = WritesDone (replicate (length (sd_payloads c)) (Inr ()))"
| "answer_of (SendUnwritten _ _) = StoreDone (Inr ())"
| "answer_of (SendCheckpoint _) = CheckpointDone (Inl (GitUnavailable []))"
| "answer_of (SendGone _) = StoreDone (Inr ())"
| "answer_of (SendSent _) = SendDone (Inr ())"
| "answer_of (Finalize _) = AuditDone (Inr ()) (Inr ())"
| "answer_of (FinalCancel _ _ _) = StoreDone (Inr ())"
| "answer_of (SweepAudits _ rs) = AuditsDone (replicate (length rs) (Inr ()))"
| "answer_of (SpawnRead _ _ _ _) = CreatedAtDone None"
| "answer_of EndMeta = StoreDone (Inr ())"
| "answer_of RemoveStorage = DestroyDone (Inr ()) (Inr ())"
| "answer_of Renamed = StoreDone (Inr ())"
| "answer_of (ReassignMeta _) = StoreDone (Inr ())"
| "answer_of (RestoreRun _) = RestoreDone (Inl (GitUnavailable []))"
| "answer_of (RestoreList _ _) = ListDone (Inr [])"
| "answer_of (FailMeta _) = StoreDone (Inr ())"
| "answer_of (FailAudits _ rs) = AuditsDone (replicate (length rs) (Inr ()))"
| "answer_of _ = Woken"

lemma answered: "se_tool_writes s = 0 \<Longrightarrow> \<exists>s'. resume cf now k (answer_of k) s = Some s'"
  by (cases k) (simp_all add: resume_def resume_send_def resume_permission_def resume_method_def)

text \<open>While anything is left, a completion has an effect.\<close>

definition at_rest :: "sess \<Rightarrow> bool" where
  "at_rest s = (se_tasks s = [] \<and> st_queue (se_stream s) = [] \<and> se_tool_writes s = 0)"

lemma some_completion:
  assumes "\<not> at_rest s" "spill_free s"
  shows "\<exists>e. completion e \<and> work (step cf m ttl now e s) < work s"
proof -
  have resumes: "\<exists>e. completion e \<and> work (step cf m ttl now e s) < work s"
    if i: "i < length (se_tasks s)" "se_tasks s ! i = (w, k)" and w: "ready w s" and z: "se_tool_writes s = 0" for i w k
  proof -
    let ?s = "s\<lparr>se_tasks := remove_nth i (se_tasks s)\<rparr>"
    obtain s' where s': "resume cf now k (answer_of k) ?s = Some s'"
      using answered [of ?s cf now k] z by auto
    have "work s = work ?s + weight k"
      using tasks_weight_remove_nth [OF i] by (simp add: work_def failed_def)
    with work_resume [OF s'] s' i w have "work (step cf m ttl now (Resume i (answer_of k)) s) < work s" by simp
    then show ?thesis by (intro exI [of _ "Resume i (answer_of k)"]) simp
  qed
  show ?thesis
  proof (cases "se_tool_writes s")
    case (Suc n)
    then show ?thesis
      by (intro exI [of _ ToolWritten]) (simp add: work_def failed_def)
  next
    case 0
    show ?thesis
    proof (cases "st_queue (se_stream s) = []")
      case True
      with assms(1) 0 have "se_tasks s \<noteq> []" by (simp add: at_rest_def)
      moreover obtain w k where "se_tasks s ! 0 = (w, k)" by fastforce
      moreover have "ready w s" using True by (simp add: ready_def split: option.splits)
      ultimately show ?thesis using resumes [of 0] 0 by blast
    next
      case queue: False
      show ?thesis
      proof (cases "spill_busy s")
        case True
        then obtain w k where k: "(w, k) \<in> set (se_tasks s)" "spill_task k"
          by (auto simp: spill_busy_def list_ex_iff)
        with assms(2) have "w = None" by (auto simp: spill_free_def)
        with k obtain i where "i < length (se_tasks s)" "se_tasks s ! i = (None, k)"
          by (auto simp: in_set_conv_nth)
        with resumes 0 show ?thesis by (auto simp: ready_def)
      next
        case False
        with queue work_append_settled [OF queue] show ?thesis
          by (intro exI [of _ "AppendSettled (Inr ())"]) simp
      qed
    qed
  qed
qed

section \<open>Properties\<close>

text \<open>
  C5: from every state a session can reach, completions alone bring it to rest, with no task,
  no unfinished append and no unfinished write of tool output, in at most as many effective
  ticks as its work measures; and no completion ever adds to that measure.
\<close>

theorem session_comes_to_rest:
  fixes cf :: config and m :: nat and ttl :: int and es :: "(iso_timestamp \<times> event) list"
    and r :: session_record and accepts :: bool and al :: reservations and us :: uploads
  defines "s \<equiv> run cf m ttl es (created_entry r accepts al us)"
  shows "(\<exists>fs. list_all (\<lambda>(now, e). completion e) fs \<and> length fs \<le> work s \<and> at_rest (run cf m ttl fs s))
    \<and> list_all (\<lambda>e. step cf m ttl now e s = s \<or> work (step cf m ttl now e s) < work s) (filter completion evs)"
proof
  have "\<exists>fs. list_all (\<lambda>(now, e). completion e) fs \<and> length fs \<le> work s \<and> at_rest (run cf m ttl fs s)"
    if "spill_free s" for s
    using that
  proof (induction "work s" arbitrary: s rule: less_induct)
    case less
    show ?case
    proof (cases "at_rest s")
      case True
      then show ?thesis by (intro exI [of _ "[]"]) (simp add: run_def)
    next
      case False
      with some_completion [of s cf m ttl 0] less.prems obtain e where
        e: "completion e" "work (step cf m ttl 0 e s) < work s" by blast
      from less.hyps [OF e(2) spill_free_step [OF less.prems]] obtain fs where
        fs: "list_all (\<lambda>(now, e). completion e) fs" "length fs \<le> work (step cf m ttl 0 e s)"
          "at_rest (run cf m ttl fs (step cf m ttl 0 e s))" by blast
      with e show ?thesis
        by (intro exI [of _ "(0, e) # fs"]) (simp add: run_def)
    qed
  qed
  moreover have "spill_free s"
    unfolding s_def by (rule spill_free_run) (simp add: spill_free_def created_entry_def)
  ultimately show "\<exists>fs. list_all (\<lambda>(now, e). completion e) fs \<and> length fs \<le> work s \<and> at_rest (run cf m ttl fs s)"
    by blast
  show "list_all (\<lambda>e. step cf m ttl now e s = s \<or> work (step cf m ttl now e s) < work s) (filter completion evs)"
    using completion_works by (auto simp: list_all_iff)
qed

end
