(* ===== verification/Session_Properties.thy ===== *)
theory Session_Properties
  imports Session_Slot Session_Transcript Session_Permissions
begin

text \<open>
  What the invariants say of every run of a session, and runs that show what the code does in
  the races its comments speak of. The example session has a turn budget of small limits; its
  runs are evaluated.
\<close>

section \<open>An example session\<close>

definition example_config :: config where
  "example_config =
     \<lparr>cf_caps = \<lparr>ring_capacity = 4, tool_result_bytes = 64, subscriber_queue_high_water = 8,
        audit_page_max = 10, standing_rule_bytes = 40, attachment_bytes = 100, attachment_count = 2,
        session_tool_output_bytes = 1000, permission_reason_bytes = 20\<rparr>,
      cf_include_raw = False, cf_output = output_policy_for None, cf_hostname = ''h'', cf_windows = False\<rparr>"

definition example_record :: session_record where
  "example_record =
     \<lparr>sr_id = ''s'', sr_owner = ''o'', sr_vendor = ''v'', sr_cwd = ''/w'', sr_model = None,
      sr_policy = \<lparr>pp_mode = Interactive, pp_sandbox = None, pp_banner = None\<rparr>, sr_sandbox = None,
      sr_cli_session_id = None, sr_last_seq = 0, sr_state = Live, sr_created_at = 0,
      sr_ended_at = None, sr_end_reason = None, sr_name = None\<rparr>"

definition example_entry :: sess where
  "example_entry = created_entry example_record True [(''s'', new_reservation ''s'' ''/w'' ''o'')] []"

definition example_events :: "event list \<Rightarrow> (iso_timestamp \<times> event) list" where
  "example_events es =
     map (Pair 5) ([CheckpointsInit (GitUnavailable ''g''), Published, AppendSettled (Inr ())] @ es)"

definition example_run :: "event list \<Rightarrow> sess" where
  "example_run es = run example_config 1 1000 (example_events es) example_entry"

text \<open>A turn up to the spawn of its child, and its end.\<close>

definition turn_events :: "turn_id \<Rightarrow> event list" where
  "turn_events t =
     [Send ''o'' ''hi'' [] None t [], Resume 0 (WritesDone []), AppendSettled (Inr ()), Resume 0 Woken,
      AppendSettled (Inr ()), Resume 0 Woken]"

definition turn_end :: event where
  "turn_end = Notification (AdapterEvent \<lparr>ae_data = TurnEnded StopCompleted None, ae_raw = None\<rparr>)"

definition request_event :: "request_id \<Rightarrow> event" where
  "request_event r = Notification (AdapterEvent \<lparr>ae_data = PermissionRequest
     \<lparr>pr_request_id = r, pr_call_id = ''c'', pr_tool = ''Bash'', pr_input = JNull,
      pr_match_target = Some ''ls'', pr_suggestions = []\<rparr>, ae_raw = None\<rparr>)"

definition allow :: "request_id \<Rightarrow> string option \<Rightarrow> event" where
  "allow r rule = Answer ''o''
     \<lparr>pa_request_id = r, pa_decision = Allow,
      pa_scope = (if rule = None then AnswerOnce else AnswerAlways), pa_rule = rule, pa_reason = None\<rparr>"

definition disk_full :: store_error where
  "disk_full = Io ''events.ndjson'' ''no space''"

definition storage_failure_events :: "nat \<Rightarrow> event list" where
  "storage_failure_events i =
     [AppendSettled (Inl disk_full), Resume i (StoreDone (Inr ())), Resume i (AuditsDone []), Resume i Woken]"

lemmas example_defs = example_config_def example_record_def example_entry_def example_events_def example_run_def turn_events_def
  turn_end_def request_event_def allow_def disk_full_def storage_failure_events_def

section \<open>Properties\<close>



text \<open>
  C4: in every run of a session from its creation, a session that has ended has neither a turn
  nor a workspace reservation (I8); an operation excludes a turn; and at most one operation
  (removal, restore or reassignment) is in progress.
\<close>

theorem session_slot_exclusive:
  fixes cf :: config and m :: nat and ttl :: int and es :: "(iso_timestamp \<times> event) list"
    and r :: session_record and accepts :: bool and al :: reservations and us :: uploads
  assumes "sr_state r = Live"
  defines "s \<equiv> run cf m ttl es (created_entry r accepts al us)"
  shows "(ended s \<longrightarrow> se_turn s = None \<and> jget (se_alloc s) (sid s) = None)
    \<and> (se_operation s \<noteq> None \<longrightarrow> se_turn s = None)
    \<and> op_count (se_tasks s) \<le> 1
    \<and> (op_count (se_tasks s) = 1 \<longrightarrow> se_operation s \<noteq> None)"
proof -
  from assms(1) have "slot_inv s" unfolding s_def by (intro slot_run slot_created)
  then show ?thesis
    by (auto simp: slot_inv_def unallocated_def split: if_splits)
qed

theorem session_slot_exclusive_witness:
  "ended (example_run [EndSession ''o'']) \<and> jget (se_alloc (example_run [EndSession ''o''])) ''s'' = None"
proof -
  have r: "sr_state example_record = Live" by code_simp
  have s: "ended (example_run [EndSession ''o''])" "sid (example_run [EndSession ''o'']) = ''s''" by code_simp+
  with session_slot_exclusive [OF r, of example_config 1 1000 "example_events [EndSession ''o'']" True
      "[(''s'', new_reservation ''s'' ''/w'' ''o'')]" "[]"]
  show ?thesis by (simp add: example_run_def example_entry_def)
qed

text \<open>
  C3: in every run in which adapters report what their type allows and the host appends no
  permission events, the subscribers never see more resolutions of a permission request than
  requests: under races of answers, exits, crashes of the child and storage failures, no request
  is resolved twice (I9).
\<close>

theorem resolved_at_most_once:
  assumes "\<forall>(now, e) \<in> set es. event_ok e"
  shows "resolutions (run cf m ttl es (created_entry r accepts al us)) t q
     \<le> requests (run cf m ttl es (created_entry r accepts al us)) t q"
  using perm_run [OF perm_created(1) audit_created(1) assms] by (simp add: perm_inv_def)

definition answered_run :: "event list" where
  "answered_run =
     turn_events ''t1'' @ [Resume 0 (SendDone (Inr ())), request_event ''r'', allow ''r'' None,
       Resume 0 (AuditDone (Inr ()) (Inr ())), Notification (Exited (Some 0) None)]"

theorem resolved_at_most_once_witness:
  "requests (example_run answered_run) ''t1'' ''r'' = 1 \<and> resolutions (example_run answered_run) ''t1'' ''r'' \<le> 1"
proof -
  have "requests (example_run answered_run) ''t1'' ''r'' = 1" by code_simp
  moreover have "\<forall>(now, e) \<in> set (example_events answered_run). event_ok e" by code_simp
  ultimately show ?thesis
    using resolved_at_most_once [of "example_events answered_run" example_config 1 1000 example_record True
        "[(''s'', new_reservation ''s'' ''/w'' ''o'')]" "[]" "''t1''" "''r''"]
    by (simp add: example_run_def example_entry_def)
qed

text \<open>
  C2: every answer sent to an agent comes right after an audit append for the same request, and
  is an approval only when that append is durable and records an approval (I10, S4.7); an audit
  record of an automatic approval names a rule that the session holds and that matches its tool.
\<close>

theorem answered_after_audit:
  fixes cf :: config and m :: nat and ttl :: int and es :: "(iso_timestamp \<times> event) list"
    and r :: session_record and accepts :: bool and al :: reservations and us :: uploads
  defines "s \<equiv> run cf m ttl es (created_entry r accepts al us)"
  shows "(\<forall>i < length (se_calls s). \<forall>t q d reason ok. se_calls s ! i = CallRespond t q d reason ok \<longrightarrow>
       (\<exists>j a durable. i = Suc j \<and> se_calls s ! j = CallAudit t q a durable
          \<and> d = (if durable then au_decision a else Deny)))
   \<and> (\<forall>t q a ok. CallAudit t q a ok \<in> set (se_calls s) \<longrightarrow> au_scope a = Standing \<longrightarrow>
       (\<exists>rule target. au_reason a = Some rule \<and> rule \<in> set (se_rules s)
          \<and> match_rule rule (au_tool a) target))"
proof (intro conjI)
  have inv: "audit_inv cf s" unfolding s_def by (rule audit_run) (rule audit_created)
  show "\<forall>i < length (se_calls s). \<forall>t q d reason ok. se_calls s ! i = CallRespond t q d reason ok \<longrightarrow>
       (\<exists>j a durable. i = Suc j \<and> se_calls s ! j = CallAudit t q a durable
          \<and> d = (if durable then au_decision a else Deny))"
  proof (intro allI impI)
    fix i t q d reason ok
    assume i: "i < length (se_calls s)" and c: "se_calls s ! i = CallRespond t q d reason ok"
    from inv have "justified (se_calls s)" by (simp add: audit_inv_def)
    with i have "respond_ok (take i (se_calls s)) (se_calls s ! i)" unfolding justified_def by blast
    with c have "respond_ok (take i (se_calls s)) (CallRespond t q d reason ok)" by simp
    then obtain cs a durable where cs: "take i (se_calls s) = cs @ [CallAudit t q a durable]"
      and d: "if durable then d = au_decision a else d = Deny" by auto
    have len: "i = Suc (length cs)" using arg_cong [OF cs, of length] i by simp
    have "se_calls s ! length cs = take i (se_calls s) ! length cs" using len by simp
    then have "se_calls s ! length cs = CallAudit t q a durable" by (simp add: cs)
    with len d show "\<exists>j a durable. i = Suc j \<and> se_calls s ! j = CallAudit t q a durable
          \<and> d = (if durable then au_decision a else Deny)" by auto
  qed
  show "\<forall>t q a ok. CallAudit t q a ok \<in> set (se_calls s) \<longrightarrow> au_scope a = Standing \<longrightarrow>
       (\<exists>rule target. au_reason a = Some rule \<and> rule \<in> set (se_rules s)
          \<and> match_rule rule (au_tool a) target)"
    using inv by (force simp: audit_inv_def by_rule_def)
qed

definition standing_run :: "event list" where
  "standing_run =
     turn_events ''t1'' @ [Resume 0 (SendDone (Inr ())), request_event ''r'', allow ''r'' (Some ''Bash:ls''),
       Resume 0 (AuditDone (Inr ()) (Inr ())), AppendSettled (Inr ()), AppendSettled (Inr ()),
       Resume 0 Woken, request_event ''q'', AppendSettled (Inr ()), Resume 0 Woken,
       Resume 0 (AuditDone (Inr ()) (Inr ()))]"

definition standing_audit :: audit_record where
  "standing_audit =
     \<lparr>au_ts = 5, au_operator = None, au_session = ''s'', au_vendor = ''v'', au_sandbox = None,
      au_tool = ''Bash'', au_input = JNull, au_decision = Allow, au_scope = Standing,
      au_reason = Some ''Bash:ls''\<rparr>"

theorem answered_after_audit_witness:
  "CallAudit ''t1'' ''q'' standing_audit True \<in> set (se_calls (example_run standing_run))
   \<and> ''Bash:ls'' \<in> set (se_rules (example_run standing_run))"
proof -
  have c: "CallAudit ''t1'' ''q'' standing_audit True \<in> set (se_calls (example_run standing_run))"
    by code_simp
  have a: "au_scope standing_audit = Standing" "au_reason standing_audit = Some ''Bash:ls''"
    by code_simp+
  note all = answered_after_audit [of example_config 1 1000 "example_events standing_run" example_record True
      "[(''s'', new_reservation ''s'' ''/w'' ''o'')]" "[]", folded example_entry_def, folded example_run_def]
  from all [THEN conjunct2, rule_format, OF c a(1)] a(2) c show ?thesis by auto
qed

text \<open>
  C33: every standing rule a session holds parses within the size limit, and was granted: there
  are at least as many durable audit records of approvals with scope \<open>always\<close> as rules (I43).
\<close>

theorem rules_are_granted:
  fixes cf :: config and m :: nat and ttl :: int and es :: "(iso_timestamp \<times> event) list"
    and r :: session_record and accepts :: bool and al :: reservations and us :: uploads
  defines "s \<equiv> run cf m ttl es (created_entry r accepts al us)"
  shows "list_all (\<lambda>rule. parse_standing_rule rule (standing_rule_bytes (cf_caps cf)) = Some rule) (se_rules s)
    \<and> length (se_rules s) \<le> length (filter grants (se_calls s))"
proof -
  have "audit_inv cf s" unfolding s_def by (rule audit_run) (rule audit_created)
  then show ?thesis by (simp add: audit_inv_def list_all_iff)
qed

text \<open>
  The tool result of an event in a turn is delivered whole when it fits the limit of the
  output policy. Otherwise it is marked as truncated, it is the longest run of whole leading
  characters that fits, or for a failed result in terse mode a head, the marker and a tail, and
  the whole output is written beside.
\<close>

theorem tool_result_truncated:
  assumes valid: "list_all (\<lambda>cp. cp < 0x110000) (tr_output r)"
    and bytes: "tr_bytes r = length (utf8_encode (tr_output r))" and long: "tool_output_limit cf < tr_bytes r"
    and turn: "se_turn s = Some t" and storage: "\<not> failed s"
  shows "\<exists>r' e. st_delivered (se_stream (handle_event cf now \<lparr>ae_data = ToolResult r, ae_raw = raw\<rparr> s))
        = st_delivered (se_stream s) @ [EnvelopeD e]
      \<and> env_turn e = Some t \<and> env_data e = ToolResult r' \<and> tr_truncated r' \<and> tr_bytes r' = tr_bytes r
      \<and> (if tr_ok r \<or> \<not> op_preserve_failure_tail (cf_output cf)
         then (\<exists>i. tr_output r' = take i (tr_output r) \<and> length (utf8_encode (tr_output r')) \<le> tool_output_limit cf)
         else (\<exists>i j. tr_output r' = take i (tr_output r) @ [10, 0x2026] @ map of_char ''[truncated]''
                        @ [0x2026, 10] @ drop j (tr_output r)
               \<and> length (utf8_encode (tr_output r')) \<le> max (tool_output_limit cf) 19))
      \<and> last (se_calls (handle_event cf now \<lparr>ae_data = ToolResult r, ae_raw = raw\<rparr> s))
        = CallWriteToolOutput t (tr_call_id r) (utf8_encode (tr_output r))"
proof -
  let ?l = "tool_output_limit cf" and ?out = "tr_output r"
  have valid': "list_all (\<lambda>cp. cp < 0x200000) (take i ?out)" "list_all (\<lambda>cp. cp < 0x200000) (drop i ?out)" for i
    using valid by (force simp: list_all_iff dest: in_set_takeD in_set_dropD)+
  obtain i where i: "truncate_utf8 (utf8_encode ?out) ?l = utf8_encode (take i ?out)"
      "length (utf8_encode (take i ?out)) \<le> ?l"
    using truncate_utf8_take [of ?out ?l] by blast
  have plain: "truncate_text False ?out ?l = take i ?out"
    by (simp add: truncate_text_def i utf8_decode_encode valid')
  define mark :: "nat list" where "mark = [10, 0x2026] @ map of_char ''[truncated]'' @ [0x2026, 10]"
  have m: "truncation_marker = utf8_encode mark" unfolding mark_def by (rule truncation_marker_def)
  from long bytes have "\<not> length (utf8_encode ?out) \<le> ?l" by simp
  with truncate_head_tail_take [of ?out ?l] obtain a b where
    ht: "truncate_head_tail_utf8 (utf8_encode ?out) ?l = utf8_encode (take a ?out @ mark @ drop b ?out)"
      "length (utf8_encode (take a ?out @ mark @ drop b ?out)) \<le> max ?l 19"
    unfolding m by (auto simp del: utf8_encode_simps simp flip: utf8_encode_simps(3))
  have "list_all (\<lambda>cp. cp < 0x200000) mark" by (simp add: mark_def)
  then have whole: "list_all (\<lambda>cp. cp < 0x200000) (take a ?out @ mark @ drop b ?out)"
    using valid' by (simp only: list_all_append)
  have both: "truncate_text True ?out ?l = take a ?out @ mark @ drop b ?out"
    unfolding truncate_text_def using ht(1) utf8_decode_encode [OF whole] by simp
  let ?e = "handle_event cf now \<lparr>ae_data = ToolResult r, ae_raw = raw\<rparr> s"
  have d: "\<exists>e. st_delivered (se_stream ?e) = st_delivered (se_stream s) @ [EnvelopeD e]
      \<and> env_turn e = Some t \<and> env_data e = ToolResult (truncate_result cf r)"
    using turn storage
    by (simp add: handle_event_def event_in_turn_def start_tool_write_def emit_def with_stream_def emit_stream_def
        failed_def Let_def)
  have c: "last (se_calls ?e) = CallWriteToolOutput t (tr_call_id r) (utf8_encode ?out)"
    using turn long by (simp add: handle_event_def event_in_turn_def start_tool_write_def)
  have t: "truncate_result cf r = r\<lparr>tr_output := (if tr_ok r \<or> \<not> op_preserve_failure_tail (cf_output cf)
       then take i ?out else take a ?out @ mark @ drop b ?out), tr_truncated := True\<rparr>"
    using long by (auto simp: truncate_result_def plain both)
  show ?thesis
  proof (cases "tr_ok r \<or> \<not> op_preserve_failure_tail (cf_output cf)")
    case True
    with d c i(2) show ?thesis unfolding t by auto
  next
    case False
    obtain e where e: "st_delivered (se_stream ?e) = st_delivered (se_stream s) @ [EnvelopeD e]"
        "env_turn e = Some t" "env_data e = ToolResult (truncate_result cf r)" using d by blast
    let ?r = "truncate_result cf r"
    have out: "tr_output ?r = take a ?out @ [10, 0x2026] @ map of_char ''[truncated]'' @ [0x2026, 10] @ drop b ?out"
      using False by (simp add: t mark_def)
    have len: "length (utf8_encode (tr_output ?r)) \<le> max ?l 19"
      using ht(2) False by (simp add: t)
    show ?thesis
    proof (intro exI conjI)
      show "st_delivered (se_stream ?e) = st_delivered (se_stream s) @ [EnvelopeD e]" by (rule e)
      show "env_turn e = Some t" by (rule e)
      show "env_data e = ToolResult ?r" by (rule e)
      show "tr_truncated ?r" "tr_bytes ?r = tr_bytes r" by (simp_all add: t)
      have "\<exists>i j. tr_output ?r = take i ?out @ [10, 0x2026] @ map of_char ''[truncated]'' @ [0x2026, 10] @ drop j ?out
          \<and> length (utf8_encode (tr_output ?r)) \<le> max ?l 19"
        by (intro exI conjI) (rule out, rule len)
      then show "if tr_ok r \<or> \<not> op_preserve_failure_tail (cf_output cf)
         then (\<exists>i. tr_output ?r = take i (tr_output r) \<and> length (utf8_encode (tr_output ?r)) \<le> tool_output_limit cf)
         else (\<exists>i j. tr_output ?r = take i (tr_output r) @ [10, 0x2026] @ map of_char ''[truncated]''
                        @ [0x2026, 10] @ drop j (tr_output r)
               \<and> length (utf8_encode (tr_output ?r)) \<le> max (tool_output_limit cf) 19)"
        by (rule if_not_P [OF False, THEN iffD2])
    qed (rule c)
  qed
qed

definition long_result :: tool_result where
  "long_result =
     \<lparr>tr_call_id = ''c'', tr_ok = True, tr_output = replicate 70 65, tr_truncated = False, tr_bytes = 70,
      tr_diff = None\<rparr>"

lemma length_utf8_replicate: "length (utf8_encode (replicate n 65)) = n"
  by (induction n) (simp_all add: utf8_bytes_def)

theorem tool_result_truncated_witness:
  "\<exists>r' e. st_delivered (se_stream (handle_event example_config 5 \<lparr>ae_data = ToolResult long_result, ae_raw = None\<rparr>
          (example_run (turn_events ''t1''))))
       = st_delivered (se_stream (example_run (turn_events ''t1''))) @ [EnvelopeD e]
     \<and> env_data e = ToolResult r' \<and> tr_truncated r' \<and> tr_bytes r' = 70
     \<and> length (utf8_encode (tr_output r')) \<le> 64"
proof -
  have 1: "list_all (\<lambda>cp. cp < 0x110000) (tr_output long_result)"
    and 2: "tr_bytes long_result = length (utf8_encode (tr_output long_result))"
    and 6: "tr_ok long_result" "tr_bytes long_result = 70"
    by (simp_all add: long_result_def list_all_iff length_utf8_replicate)
  have 3: "tool_output_limit example_config < tr_bytes long_result" "tool_output_limit example_config = 64"
    and 4: "se_turn (example_run (turn_events ''t1'')) = Some ''t1''"
    and 5: "\<not> failed (example_run (turn_events ''t1''))"
    by code_simp+
  from tool_result_truncated [OF 1 2 3(1) 4 5, of 5 None] 6 3(2) show ?thesis by auto
qed

section \<open>Races\<close>

definition late_spawn_run :: "event list" where
  "late_spawn_run =
     turn_events ''t1'' @ [Resume 0 (SendDone (Inr ())), turn_end, AppendSettled (Inr ())]
     @ turn_events ''t2'' @ storage_failure_events 1 @ [Resume 0 Woken]"

text \<open>
  A turn is spawned into a session that has ended. The second turn of a session whose agent
  never reported an identifier emits a notice before the spawn; when the append of that notice
  fails, the session ends and its slot is freed, but the send goes on: the check that follows
  every other emission is missing after this one.
\<close>

theorem spawned_after_the_end:
  "ended (example_run late_spawn_run) \<and> se_turn (example_run late_spawn_run) = None
   \<and> last (se_calls (example_run late_spawn_run)) = CallSend ''t2'' ''hi'' [] None None"
  by code_simp

definition in_flight_failure_run :: "event list" where
  "in_flight_failure_run =
     turn_events ''t1'' @ [Resume 0 (SendDone (Inr ())), request_event ''r'', AppendSettled (Inr ()),
       allow ''r'' None, Notification (AdapterEvent \<lparr>ae_data = Thinking ''x'', ae_raw = None\<rparr>)]
     @ storage_failure_events 1 @ [Resume 0 (AuditDone (Inr ()) (Inl NoChild))]"

text \<open>
  A storage failure while an operator's answer is being recorded. The failure handler
  resolves the requests that are pending, but not the ones in flight; when the record is
  durable and the child is gone, nothing more is owed to the stream. The request is never
  resolved there (I9), although the operator is told how it was.
\<close>

theorem in_flight_answer_unresolved:
  "requests (example_run in_flight_failure_run) ''t1'' ''r'' = 1
   \<and> resolutions (example_run in_flight_failure_run) ''t1'' ''r'' = 0
   \<and> se_tasks (example_run in_flight_failure_run) = []
   \<and> ended (example_run in_flight_failure_run)
   \<and> last (se_replies (example_run in_flight_failure_run)) = AnswerReply (Inr (Some (swept ''r'')))"
  by code_simp

definition approved_after_cancel_run :: "event list" where
  "approved_after_cancel_run =
     take 13 standing_run @ [request_event ''q'', AppendSettled (Inl disk_full), Resume 1 (StoreDone (Inr ())),
       Resume 1 (AuditsDone [Inr ()]), Resume 1 Woken, Resume 0 Woken, Resume 0 (AuditDone (Inr ()) (Inl NoChild))]"

text \<open>
  A storage failure at the append of a request that a standing rule approves. The failure
  handler resolves the request as cancelled but leaves it among the pending ones of the turn
  object, so that the automatic approval still runs: the audit trail gets a second record, of an
  approval, and the agent would get it too, for a request the stream says was cancelled (I11).
\<close>

theorem approved_after_cancellation:
  "resolutions (example_run approved_after_cancel_run) ''t1'' ''q'' = 1
   \<and> EnvelopeD \<lparr>env_seq = 7, env_session = ''s'', env_ts = 5, env_turn = Some ''t1'',
        env_data = PermissionResolved (swept ''q''), env_raw = None\<rparr>
       \<in> set (st_delivered (se_stream (example_run approved_after_cancel_run)))
   \<and> CallAudit ''t1'' ''q'' standing_audit True \<in> set (se_calls (example_run approved_after_cancel_run))
   \<and> last (se_calls (example_run approved_after_cancel_run)) = CallRespond ''t1'' ''q'' Allow None False"
  by code_simp

definition rename_race :: "event list" where
  "rename_race = [Reassign ''p'' ''op'', Rename ''o'' (Some ''n''), Resume 1 (StoreDone (Inr ())),
     Resume 0 (StoreDone (Inr ()))]"

definition revive_race :: "event list" where
  "revive_race =
     [Append ''o'' (SessionNotice Info Compaction ''c''), Reassign ''p'' ''op'', AppendSettled (Inl disk_full),
      Resume 2 (StoreDone (Inr ())), Resume 1 (StoreDone (Inr ()))]"

text \<open>
  A reassignment puts back the record it copied before its write. A rename that completes in
  between is lost, and a session that ended in between is live again, without its workspace.
\<close>

theorem reassignment_loses_updates:
  "sr_name (se_record (example_run rename_race)) = None
   \<and> UnitReply (Inr ()) = hd (se_replies (example_run rename_race))
   \<and> failed (example_run revive_race)
   \<and> sr_state (se_record (example_run revive_race)) = Live
   \<and> jget (se_alloc (example_run revive_race)) ''s'' = None"
  by code_simp

end
