(* ===== verification/Process_Supervision.thy ===== *)
theory Process_Supervision
  imports Workspaces Append_Log
begin

text \<open>
  \<open>src/agent-console/process\<close>: the environment of a child (\<open>environment.ts\<close>), how it is started
  (\<open>spawn.ts\<close>), whether a live image is the recorded one (\<open>metadata.ts\<close>), how its tree is killed
  (\<open>termination.ts\<close>) and the retried rename every atomic write goes through (\<open>rename-over.ts\<close>).

  The platform is a boolean, \<open>windows\<close>. Upper and lower case are those of ASCII, as in the names
  of variables and images. A call on the operating system is a value; whether it succeeds is an
  argument.
\<close>

section \<open>The environment\<close>

definition upper_char :: "char \<Rightarrow> char" where
  "upper_char c = (if CHR ''a'' \<le> c \<and> c \<le> CHR ''z'' then char_of (of_char c - 32 :: nat) else c)"

abbreviation to_upper :: "string \<Rightarrow> string" where
  "to_upper \<equiv> map upper_char"

datatype environment_mode = Inherit | Constructed

type_synonym environment = "(string, string option) jmap"

definition base_names :: "string list" where
  "base_names =
     [''PATH'', ''PATHEXT'', ''SYSTEMROOT'', ''WINDIR'', ''COMSPEC'', ''TEMP'', ''TMP'',
      ''HOME'', ''USERPROFILE'', ''APPDATA'', ''LOCALAPPDATA'', ''PROGRAMDATA'', ''USERNAME'', ''LANG'',
      ''HTTP_PROXY'', ''HTTPS_PROXY'', ''NO_PROXY'', ''ALL_PROXY'', ''NODE_EXTRA_CA_CERTS'',
      ''SSL_CERT_FILE'', ''SSL_CERT_DIR'']"

definition admitted :: "string list \<Rightarrow> string \<Rightarrow> bool" where
  "admitted provider_names name =
     (let upper = to_upper name in
      upper \<in> set base_names \<or> prefix ''PROGRAMFILES'' upper \<or> prefix ''XDG_'' upper
      \<or> prefix ''LC_'' upper \<or> upper \<in> set (map to_upper provider_names))"

text \<open>The object spread \<open>{...m, ...n}\<close>.\<close>

definition spread :: "('k, 'v) jmap \<Rightarrow> ('k, 'v) jmap \<Rightarrow> ('k, 'v) jmap" where
  "spread m n = fold (\<lambda>(k, v) acc. jset acc k v) n m"

definition build_environment ::
  "environment_mode \<Rightarrow> environment \<Rightarrow> string list \<Rightarrow> environment \<Rightarrow> environment \<Rightarrow> environment" where
  "build_environment mode source provider_names host overrides =
     (let base = (if mode = Inherit then source
                  else filter (\<lambda>(name, _). admitted provider_names name) source)
      in spread (spread base host) overrides)"

lemma jget_spread: "jget (spread m n) k = (case map_of (rev n) k of Some v \<Rightarrow> Some v | None \<Rightarrow> jget m k)"
  unfolding spread_def
  by (induction n arbitrary: m) (auto simp: jget_jset map_add_def split: option.splits)

lemma jget_filter_key: "jget (filter (\<lambda>(k, _). P k) m) k = (if P k then jget m k else None)"
  by (induction m) (auto simp: jget_def)

text \<open>
  A child sees a variable exactly as the overrides give it, else as the host gives it, else
  as the server's own environment does: any variable when the environment is inherited, and when
  it is constructed only one whose name, in upper case, is on the list, has one of the three
  prefixes or is declared by the provider. No other variable of the server reaches the child.
\<close>

theorem environment_confined:
  "jget (build_environment mode source provider_names host overrides) k =
     (case map_of (rev overrides) k of
        Some v \<Rightarrow> Some v
      | None \<Rightarrow>
          (case map_of (rev host) k of
             Some v \<Rightarrow> Some v
           | None \<Rightarrow> if mode = Inherit \<or> admitted provider_names k then jget source k else None))"
  by (cases mode)
    (simp_all add: build_environment_def jget_spread jget_filter_key Let_def split: option.splits)

section \<open>Starting a child\<close>

record resolved_spawn =
  rsp_command :: string
  rsp_args :: "string list"
  rsp_shell :: bool

text \<open>The white space of a regular expression's \<open>\s\<close>, among one-byte characters.\<close>

definition white_space :: "char \<Rightarrow> bool" where
  "white_space c = (of_char c \<in> set [9, 10, 11, 12, 13, 32, 160 :: nat])"

definition ends_with :: "string \<Rightarrow> string \<Rightarrow> bool" where
  "ends_with s e = suffix e s"

definition resolve_spawn ::
  "string \<Rightarrow> string \<Rightarrow> string list \<Rightarrow> bool \<Rightarrow> bool \<Rightarrow> resolved_spawn" where
  "resolve_spawn exec_path executable args shell_for_bare_name windows =
     (let script = ends_with executable ''.mjs'' \<or> ends_with executable ''.js'';
          lower = map lower_char executable;
          shell = (windows \<and> \<not> script
                   \<and> (shell_for_bare_name \<or> ends_with lower ''.cmd'' \<or> ends_with lower ''.bat''));
          quote = CHR 0x22
      in \<lparr>rsp_command =
            (if script then exec_path
             else if shell \<and> list_ex white_space executable then quote # executable @ [quote]
             else executable),
          rsp_args = (if script then executable # args else args),
          rsp_shell = shell\<rparr>)"

section \<open>The image of a live process\<close>

definition strip_exe :: "string \<Rightarrow> string" where
  "strip_exe s = (if ends_with (map lower_char s) ''.exe'' then take (length s - 4) s else s)"

definition images_match :: "bool \<Rightarrow> string \<Rightarrow> string \<Rightarrow> bool" where
  "images_match windows recorded actual =
     (if windows then map lower_char (strip_exe recorded) = map lower_char (strip_exe actual)
      else strip_exe recorded = strip_exe actual)"

section \<open>Killing a tree\<close>

datatype posix_signal = SigTerm | SigKill

datatype os_call = OsSignal int posix_signal | OsChildKill int posix_signal | OsTaskkill int

text \<open>
  \<open>terminate\<close>: at once, and after the grace period when the child is still owned. The booleans
  say whether the group could be signalled.
\<close>

definition terminate_now :: "bool \<Rightarrow> int option \<Rightarrow> bool \<Rightarrow> os_call list" where
  "terminate_now windows pid signalled =
     (case pid of
        None \<Rightarrow> []
      | Some p \<Rightarrow>
          if windows then [OsTaskkill p]
          else OsSignal (- p) SigTerm # (if signalled then [] else [OsChildKill p SigTerm]))"

definition terminate_later :: "bool \<Rightarrow> int option \<Rightarrow> bool \<Rightarrow> bool \<Rightarrow> os_call list" where
  "terminate_later windows pid owns signalled =
     (case pid of
        None \<Rightarrow> []
      | Some p \<Rightarrow>
          if windows \<or> \<not> owns then []
          else OsSignal (- p) SigKill # (if signalled then [] else [OsChildKill p SigKill]))"

definition kill_process_tree :: "bool \<Rightarrow> int \<Rightarrow> int option \<Rightarrow> os_call list" where
  "kill_process_tree windows pid pgid =
     (if windows then [OsTaskkill pid]
      else [OsSignal (- (case pgid of Some g \<Rightarrow> g | None \<Rightarrow> pid)) SigKill])"

definition kill_probe :: "bool \<Rightarrow> int option \<Rightarrow> bool \<Rightarrow> os_call list" where
  "kill_probe windows pid signalled =
     (case pid of
        None \<Rightarrow> []
      | Some p \<Rightarrow>
          if windows then [OsTaskkill p]
          else OsSignal (- p) SigKill # (if signalled then [] else [OsChildKill p SigKill]))"

section \<open>The retried rename\<close>

datatype rename_outcome = Renamed_over | RenameError string

definition rename_retry_delays :: "nat list" where
  "rename_retry_delays = [10, 20, 40, 80, 160]"

definition transient_rename_codes :: "string list" where
  "transient_rename_codes = [''EPERM'', ''EACCES'', ''EBUSY'']"

fun transient :: "rename_outcome \<Rightarrow> bool" where
  "transient Renamed_over = False"
| "transient (RenameError code) = (code \<in> set transient_rename_codes)"

text \<open>
  \<open>attempt i\<close> is what the \<open>i\<close>-th call of \<open>rename\<close> does. The result is the number of calls made,
  the milliseconds waited and the last outcome, which is returned or thrown.
\<close>

fun rename_loop :: "nat list \<Rightarrow> (nat \<Rightarrow> rename_outcome) \<Rightarrow> nat \<Rightarrow> nat \<Rightarrow> nat \<times> nat \<times> rename_outcome" where
  "rename_loop [] attempt i waited = (Suc i, waited, attempt i)"
| "rename_loop (w # ws) attempt i waited =
     (if transient (attempt i) then rename_loop ws attempt (Suc i) (waited + w)
      else (Suc i, waited, attempt i))"

definition rename_over :: "(nat \<Rightarrow> rename_outcome) \<Rightarrow> nat \<times> nat \<times> rename_outcome" where
  "rename_over attempt = rename_loop rename_retry_delays attempt 0 0"

lemma rename_loop_exact:
  "\<exists>k \<le> length ws. rename_loop ws attempt i waited
       = (Suc (i + k), waited + sum_list (take k ws), attempt (i + k))
     \<and> (\<forall>j < k. transient (attempt (i + j))) \<and> (transient (attempt (i + k)) \<longrightarrow> k = length ws)"
proof (induction ws attempt i waited rule: rename_loop.induct)
  case (1 attempt i waited)
  then show ?case by simp
next
  case (2 w ws attempt i waited)
  show ?case
  proof (cases "transient (attempt i)")
    case True
    with 2 obtain k where k: "k \<le> length ws"
      "rename_loop ws attempt (Suc i) (waited + w)
         = (Suc (Suc i + k), waited + w + sum_list (take k ws), attempt (Suc i + k))"
      "\<forall>j < k. transient (attempt (Suc i + j))" "transient (attempt (Suc i + k)) \<longrightarrow> k = length ws"
      by blast
    with True have "\<forall>j < Suc k. transient (attempt (i + j))"
      by (auto simp: less_Suc_eq_0_disj)
    with True k show ?thesis
      by (intro exI [of _ "Suc k"]) simp
  next
    case False
    then show ?thesis by (intro exI [of _ 0]) simp
  qed
qed

text \<open>
  The rename is called at most six times. It ends with the first outcome that is not a
  sharing violation, success or error, or else with the sixth; every call before the last met a
  sharing violation, and the waits in between, at most 310 milliseconds, are the ones listed.
\<close>

theorem rename_over_exact:
  "\<exists>k \<le> 5. rename_over attempt = (Suc k, sum_list (take k rename_retry_delays), attempt k)
     \<and> sum_list (take k rename_retry_delays) \<le> 310
     \<and> (\<forall>j < k. transient (attempt j)) \<and> (k = 5 \<or> \<not> transient (attempt k))"
proof -
  obtain k where k: "k \<le> 5"
    "rename_over attempt = (Suc k, sum_list (take k rename_retry_delays), attempt k)"
    "\<forall>j < k. transient (attempt j)" "transient (attempt k) \<longrightarrow> k = 5"
    using rename_loop_exact [of rename_retry_delays attempt 0 0]
    by (auto simp: rename_over_def rename_retry_delays_def)
  from k(1) have "k \<in> {0, 1, 2, 3, 4, 5}" by auto
  then have "sum_list (take k rename_retry_delays) \<le> 310"
    by (auto simp: rename_retry_delays_def)
  with k show ?thesis by blast
qed

theorem rename_over_exact_witness:
  "rename_over (\<lambda>i. if i < 2 then RenameError ''EBUSY'' else Renamed_over) = (3, 30, Renamed_over)"
proof -
  let ?a = "\<lambda>i. if i < (2 :: nat) then RenameError ''EBUSY'' else Renamed_over"
  obtain k where k: "k \<le> 5" "rename_over ?a = (Suc k, sum_list (take k rename_retry_delays), ?a k)"
    "\<forall>j < k. transient (?a j)" "k = 5 \<or> \<not> transient (?a k)"
    using rename_over_exact [of ?a] by blast
  have "k = 2"
  proof (rule ccontr)
    assume "k \<noteq> 2"
    then consider "k < 2" | "2 < k" by linarith
    then show False
      using k(3,4) by cases (auto simp: transient_rename_codes_def dest: spec [of _ 2])
  qed
  with k(2) show ?thesis by (simp add: rename_retry_delays_def numeral_2_eq_2)
qed

end
