(* ===== verification/Session_Registry.thy ===== *)
theory Session_Registry
  imports Session_Machine
begin

text \<open>
  The map of the sessions of \<open>createSessionCore\<close> (\<open>src/agent-console/core/index.ts\<close>) and what is
  read off it without a tick of any session: the summary of a session, the listing of an owner's
  sessions, the walk over its pages, and the dispatch of extension operations.
\<close>

type_synonym registry = "(session_id, sess) jmap"

section \<open>Summaries\<close>

definition to_summary :: "sess \<Rightarrow> session_summary" where
  "to_summary s =
     (let r = se_record s in
      \<lparr>sm_id = sr_id r, sm_owner = sr_owner r, sm_vendor = sr_vendor r, sm_cwd = sr_cwd r,
       sm_model = sr_model r, sm_policy = sr_policy r, sm_sandbox = sr_sandbox r,
       sm_last_seq = sr_last_seq r, sm_state = sr_state r, sm_created_at = sr_created_at r,
       sm_ended_at = sr_ended_at r,
       sm_end_reason = (if sr_state r = Live then None else sr_end_reason r),
       sm_name = sr_name r,
       sm_pending_permissions = (case se_turn s of None \<Rightarrow> 0 | Some t \<Rightarrow> length (pending_of s t))\<rparr>)"

definition list_sessions :: "principal_id \<Rightarrow> registry \<Rightarrow> session_summary list" where
  "list_sessions owner sessions =
     map to_summary (filter (\<lambda>s. \<not> se_creating s \<and> sr_owner (se_record s) = owner) (jvals sessions))"

definition get_session ::
  "session_id \<Rightarrow> principal_id \<Rightarrow> registry \<Rightarrow> (failure, session_summary) result" where
  "get_session session owner sessions =
     (case jget sessions session of
        None \<Rightarrow> Inl (NotFound session)
      | Some s \<Rightarrow>
          if se_creating s \<or> sr_owner (se_record s) \<noteq> owner then Inl (NotFound session)
          else Inr (to_summary s))"

definition snapshot :: "session_id \<Rightarrow> registry \<Rightarrow> session_record option" where
  "snapshot session sessions = map_option se_record (jget sessions session)"

section \<open>Pages\<close>

text \<open>
  \<open>Array.findIndex\<close>, with its \<open>-1\<close> when nothing is found; and the number of items of a page,
  where a limit that is not finite is \<open>None\<close>.
\<close>

fun find_index :: "('a \<Rightarrow> bool) \<Rightarrow> 'a list \<Rightarrow> int" where
  "find_index P [] = -1"
| "find_index P (x # xs) = (if P x then 0 else (let i = find_index P xs in if i < 0 then -1 else i + 1))"

definition page_size :: "int option \<Rightarrow> nat" where
  "page_size limit = (case limit of None \<Rightarrow> 100 | Some l \<Rightarrow> nat (max 1 (min 1000 l)))"

definition page_of ::
  "session_summary list \<Rightarrow> session_id option \<Rightarrow> int option \<Rightarrow> session_summary list \<times> session_id option" where
  "page_of all after limit =
     (let start = (case after of None \<Rightarrow> 0 | Some a \<Rightarrow> nat (find_index (\<lambda>s. sm_id s = a) all + 1));
          items = take (page_size limit) (drop start all)
      in (items, if start + length items < length all then Some (sm_id (last items)) else None))"

definition list_page ::
  "principal_id \<Rightarrow> session_id option \<Rightarrow> int option \<Rightarrow> registry
   \<Rightarrow> session_summary list \<times> session_id option" where
  "list_page owner after limit sessions = page_of (list_sessions owner sessions) after limit"

text \<open>A client that follows \<open>next\<close> for at most \<open>n\<close> pages, and where it stops.\<close>

fun walk_pages ::
  "nat \<Rightarrow> principal_id \<Rightarrow> session_id option \<Rightarrow> int option \<Rightarrow> registry
   \<Rightarrow> session_summary list \<times> session_id option" where
  "walk_pages 0 owner after limit sessions = ([], after)"
| "walk_pages (Suc n) owner after limit sessions =
     (case list_page owner after limit sessions of
        (items, None) \<Rightarrow> (items, None)
      | (items, Some a) \<Rightarrow>
          (let (more, stop) = walk_pages n owner (Some a) limit sessions in (items @ more, stop)))"

text \<open>Every entry is kept under the identifier of its record.\<close>

definition registry_ok :: "registry \<Rightarrow> bool" where
  "registry_ok sessions =
     (jmap_ok sessions \<and> list_all (\<lambda>(i, s). sr_id (se_record s) = i) sessions)"

lemma distinct_list_sessions:
  assumes "registry_ok sessions"
  shows "distinct (map sm_id (list_sessions owner sessions))"
proof -
  have ids: "map sm_id (map to_summary ss) = map (\<lambda>s. sr_id (se_record s)) ss" for ss
    by (simp add: to_summary_def Let_def)
  from assms have "map (\<lambda>s. sr_id (se_record s)) (jvals sessions) = map fst sessions"
    by (auto simp: registry_ok_def jvals_def list_all_iff)
  with assms have "distinct (map (\<lambda>s. sr_id (se_record s)) (jvals sessions))"
    by (simp add: registry_ok_def jmap_ok_def)
  then show ?thesis
    unfolding list_sessions_def ids by (rule distinct_map_filter)
qed

lemma find_index_nth:
  "distinct (map f xs) \<Longrightarrow> i < length xs \<Longrightarrow> find_index (\<lambda>x. f x = f (xs ! i)) xs = int i"
proof (induction xs arbitrary: i)
  case Nil
  then show ?case by simp
next
  case (Cons x xs)
  show ?case
  proof (cases i)
    case 0
    then show ?thesis by simp
  next
    case (Suc j)
    with Cons.prems have "f x \<noteq> f (xs ! j)" by auto
    with Cons Suc show ?thesis by simp
  qed
qed

lemma page_size_pos: "0 < page_size limit"
  by (auto simp: page_size_def split: option.splits)

text \<open>A page that starts behind the \<open>k\<close>-th item, and the next one.\<close>

lemma page_of_nth:
  assumes d: "distinct (map sm_id all)" and k: "k < length all"
  shows "page_of all (Some (sm_id (all ! k))) limit =
     (take (page_size limit) (drop (Suc k) all),
      if Suc k + page_size limit < length all then Some (sm_id (all ! (k + page_size limit))) else None)"
proof -
  note page_size_pos [of limit]
  moreover have "nat (find_index (\<lambda>s. sm_id s = sm_id (all ! k)) all + 1) = Suc k"
    using find_index_nth [OF d k] by simp
  ultimately show ?thesis
    using k by (auto simp: page_of_def Let_def last_conv_nth min_def add.commute)
qed

lemma walk_from:
  assumes d: "distinct (map sm_id (list_sessions owner sessions))"
  shows "k < length (list_sessions owner sessions) \<Longrightarrow> length (list_sessions owner sessions) - k \<le> n \<Longrightarrow>
    walk_pages n owner (Some (sm_id (list_sessions owner sessions ! k))) limit sessions
      = (drop (Suc k) (list_sessions owner sessions), None)"
proof (induction n arbitrary: k)
  case 0
  then show ?case by simp
next
  case (Suc n)
  let ?all = "list_sessions owner sessions" and ?p = "page_size limit"
  show ?case
  proof (cases "Suc k + ?p < length ?all")
    case True
    have "walk_pages n owner (Some (sm_id (?all ! (k + ?p)))) limit sessions
            = (drop (Suc (k + ?p)) ?all, None)"
      using True Suc.prems page_size_pos [of limit] by (intro Suc.IH) linarith+
    moreover have "take ?p (drop (Suc k) ?all) @ drop (Suc (k + ?p)) ?all = drop (Suc k) ?all"
      using append_take_drop_id [of ?p "drop (Suc k) ?all"] by (simp add: add.commute)
    ultimately show ?thesis
      using True Suc.prems by (simp add: list_page_def page_of_nth [OF d])
  next
    case False
    then show ?thesis
      using Suc.prems by (simp add: list_page_def page_of_nth [OF d])
  qed
qed

text \<open>
  a client that starts without a cursor and follows \<open>next\<close> reaches the end after at most as
  many pages as there are sessions, whatever limit it asks for, and has then seen every session
  of the owner exactly once, in order.
\<close>

theorem pages_cover_once:
  assumes "registry_ok sessions" and "length (list_sessions owner sessions) < n"
  shows "walk_pages n owner None limit sessions = (list_sessions owner sessions, None)
    \<and> distinct (map sm_id (list_sessions owner sessions))"
proof -
  let ?all = "list_sessions owner sessions" and ?p = "page_size limit"
  note d = distinct_list_sessions [OF assms(1), of owner] and pos = page_size_pos [of limit]
  from assms(2) obtain m where n: "n = Suc m" by (cases n) auto
  have first: "list_page owner None limit sessions =
      (take ?p ?all, if ?p < length ?all then Some (sm_id (?all ! (?p - 1))) else None)"
  proof (cases "?p < length ?all")
    case True
    with pos have "take ?p ?all \<noteq> []" "length (take ?p ?all) = ?p" by auto
    with pos True show ?thesis
      by (simp add: list_page_def page_of_def Let_def last_conv_nth)
  qed (simp add: list_page_def page_of_def Let_def)
  show ?thesis
  proof (cases "?p < length ?all")
    case True
    with walk_from [OF d, of "?p - 1" m limit] assms(2) n pos d first show ?thesis
      by (simp add: Suc_diff_Suc)
  next
    case False
    with first n d show ?thesis by simp
  qed
qed

definition example_session :: "session_id \<Rightarrow> sess" where
  "example_session i =
     (created_entry
        \<lparr>sr_id = i, sr_owner = ''o'', sr_vendor = ''v'', sr_cwd = ''/w'', sr_model = None,
         sr_policy = \<lparr>pp_mode = Interactive, pp_sandbox = None, pp_banner = None\<rparr>, sr_sandbox = None,
         sr_cli_session_id = None, sr_last_seq = 0, sr_state = Live, sr_created_at = 0,
         sr_ended_at = None, sr_end_reason = None, sr_name = None\<rparr> False [] [])\<lparr>se_creating := False\<rparr>"

definition example_registry :: registry where
  "example_registry = map (\<lambda>i. (i, example_session i)) [''a'', ''b'', ''c'']"

theorem pages_cover_once_witness:
  "map sm_id (fst (walk_pages 4 ''o'' None (Some 2) example_registry)) = [''a'', ''b'', ''c'']"
proof -
  have "registry_ok example_registry" "length (list_sessions ''o'' example_registry) < 4"
    by code_simp+
  from pages_cover_once [OF this, of "Some 2"]
  have "fst (walk_pages 4 ''o'' None (Some 2) example_registry) = list_sessions ''o'' example_registry"
    by simp
  moreover have "map sm_id (list_sessions ''o'' example_registry) = [''a'', ''b'', ''c'']" by code_simp
  ultimately show ?thesis by simp
qed

section \<open>Extension operations\<close>

datatype extension_call = ListCheckpoints | RestoreCheckpoint git_sha

definition sha_char :: "char \<Rightarrow> bool" where
  "sha_char c = (CHR ''0'' \<le> c \<and> c \<le> CHR ''9'' \<or> CHR ''a'' \<le> c \<and> c \<le> CHR ''f'')"

text \<open>\<open>extensions.invoke\<close>: the call it makes, or its refusal.\<close>

definition invoke_extension :: "string \<Rightarrow> json \<Rightarrow> (failure, extension_call) result" where
  "invoke_extension name input =
     (let unknown = Inl (BadRequest ''operation'' ''unknown operation or invalid arguments'') in
      case input of
        JObj members \<Rightarrow>
          if name = ''checkpoints.list'' \<and> members = [] then Inr ListCheckpoints
          else if name = ''checkpoints.restore''
          then (case members of
                  [(m, JStr sha)] \<Rightarrow>
                    if m = ''sha'' \<and> length sha = 40 \<and> list_all sha_char sha
                    then Inr (RestoreCheckpoint sha) else unknown
                | _ \<Rightarrow> unknown)
          else unknown
      | _ \<Rightarrow> Inl (BadRequest ''input'' ''expected an object''))"

end
