(* ===== verification/Session_Boot.thy ===== *)
theory Session_Boot
  imports Session_Registry Process_Supervision Create_Attempts
begin

text \<open>
  \<open>boot\<close> of \<open>src/agent-console/core/index.ts\<close>: the reaping of orphaned children, the recovery of
  unfinished creates, the rehydration of every session as ended, and the closing of a turn that
  a crash left open in a spill. Nothing is served before boot has returned, so a session's part
  of it runs from start to end without another tick of that session in between.
\<close>

section \<open>Reaping\<close>

datatype reap_action = ReapKill int "int option" | ReapTombstone int

text \<open>
  \<open>reapOne\<close>. \<open>img\<close> and \<open>created\<close> are what the operating system reports of a live process; they
  are only looked at where the code asks for them.
\<close>

definition foreign :: "string \<Rightarrow> process_record \<Rightarrow> bool" where
  "foreign hostname r = (case pc_hostname r of None \<Rightarrow> False | Some h \<Rightarrow> h \<noteq> hostname)"

definition reap_decision ::
  "bool \<Rightarrow> iso_timestamp \<Rightarrow> (int \<Rightarrow> string option) \<Rightarrow> (int \<Rightarrow> iso_timestamp option) \<Rightarrow> process_record \<Rightarrow> bool" where
  "reap_decision windows boot_at img created r =
     (if \<not> boot_at < pc_started_at r then False
      else
        (case img (pc_pid r) of
           None \<Rightarrow> False
         | Some actual \<Rightarrow>
             if \<not> images_match windows (pc_image r) actual then False
             else
               (case pc_os_created_at r of
                  None \<Rightarrow> False
                | Some recorded \<Rightarrow>
                    (case created (pc_pid r) of None \<Rightarrow> False | Some live \<Rightarrow> live = recorded))))"

definition reap_one ::
  "bool \<Rightarrow> string \<Rightarrow> iso_timestamp \<Rightarrow> (int \<Rightarrow> string option) \<Rightarrow> (int \<Rightarrow> iso_timestamp option)
   \<Rightarrow> process_record \<Rightarrow> reap_action list" where
  "reap_one windows hostname boot_at img created r =
     (if foreign hostname r then []
      else (if reap_decision windows boot_at img created r then [ReapKill (pc_pid r) (pc_pgid r)] else [])
           @ [ReapTombstone (pc_pid r)])"

definition reap_all ::
  "bool \<Rightarrow> string \<Rightarrow> iso_timestamp \<Rightarrow> (int \<Rightarrow> string option) \<Rightarrow> (int \<Rightarrow> iso_timestamp option)
   \<Rightarrow> process_record list \<Rightarrow> reap_action list" where
  "reap_all windows hostname boot_at img created rs =
     concat (map (reap_one windows hostname boot_at img created) rs)"

text \<open>The exit lines the reaping appends to the ledger.\<close>

fun exit_line :: "iso_timestamp \<Rightarrow> reap_action \<Rightarrow> pid_line option" where
  "exit_line now (ReapTombstone pid) = Some (ExitLine pid now)"
| "exit_line now (ReapKill _ _) = None"

definition exit_lines :: "iso_timestamp \<Rightarrow> reap_action list \<Rightarrow> pid_line list" where
  "exit_lines now as = List.map_filter (exit_line now) as"

lemma reap_all_kills:
  "ReapKill p g \<in> set (reap_all windows hostname boot_at img created rs) \<longleftrightarrow>
   (\<exists>r \<in> set rs. \<not> foreign hostname r \<and> reap_decision windows boot_at img created r
      \<and> p = pc_pid r \<and> g = pc_pgid r)"
  by (auto simp: reap_all_def reap_one_def)

lemma exit_lines_all:
  "exit_lines now (reap_all windows hostname boot_at img created rs) =
   map (\<lambda>r. ExitLine (pc_pid r) now) (filter (\<lambda>r. \<not> foreign hostname r) rs)"
  by (induction rs) (auto simp: exit_lines_def reap_all_def reap_one_def List.map_filter_def)

lemma open_in_find:
  "open_in ls r \<longleftrightarrow> pc_exited_at r = None \<and> find (\<lambda>l. pid_of l = pc_pid r) (rev ls) = Some (SpawnLine r)"
  by (auto simp: open_in_def find_rev_Some)

lemma open_in_exits:
  "open_in (ls @ map (\<lambda>r. ExitLine (pc_pid r) now) rs) r
   \<longleftrightarrow> open_in ls r \<and> pc_pid r \<notin> pc_pid ` set rs"
proof (induction rs rule: rev_induct)
  case Nil
  then show ?case by simp
next
  case (snoc x rs)
  then show ?case by (auto simp: open_in_find)
qed

lemma open_in_unique:
  assumes "open_in ls r" and "open_in ls q" and "pc_pid r = pc_pid q"
  shows "r = q"
proof -
  from assms have "Some (SpawnLine r) = Some (SpawnLine q)"
    unfolding open_in_find by metis
  then show ?thesis by simp
qed

text \<open>
  C10: boot kills exactly the children that the process ledger holds open for this host, that
  were started after the host's last boot, and whose live image and live creation time are the
  recorded ones; any doubt spares the process. Once its exit lines are in the ledger, what the
  ledger still holds open belongs to other hosts only, and no open record of another host is
  lost.
\<close>

theorem boot_reaps_own_orphans:
  assumes lines: "renders parse render (ls @ exit_lines now acts)"
    and acts: "acts = reap_all windows hostname boot_at img created
                 (read_open_pids parse path (FileText (ledger_text render ls)))"
  shows "(ReapKill p g \<in> set acts \<longleftrightarrow>
      (\<exists>r. open_in ls r \<and> p = pc_pid r \<and> g = pc_pgid r \<and> (\<forall>h. pc_hostname r = Some h \<longrightarrow> h = hostname)
           \<and> boot_at < pc_started_at r
           \<and> (\<exists>actual. img p = Some actual \<and> images_match windows (pc_image r) actual)
           \<and> pc_os_created_at r \<noteq> None \<and> created p = pc_os_created_at r))
    \<and> set (read_open_pids parse path (FileText (ledger_text render (ls @ exit_lines now acts))))
      = {r. open_in ls r \<and> foreign hostname r}"
proof -
  from lines have ls: "renders parse render ls" by (simp add: renders_def)
  have limbs: "reap_decision windows boot_at img created r \<longleftrightarrow>
      boot_at < pc_started_at r
      \<and> (\<exists>actual. img (pc_pid r) = Some actual \<and> images_match windows (pc_image r) actual)
      \<and> pc_os_created_at r \<noteq> None \<and> created (pc_pid r) = pc_os_created_at r" for r
    by (auto simp: reap_decision_def split: option.splits)
  have frn: "\<not> foreign hostname r \<longleftrightarrow> (\<forall>h. pc_hostname r = Some h \<longrightarrow> h = hostname)" for r
    by (auto simp: foreign_def split: option.splits)
  have kills: "ReapKill p g \<in> set acts \<longleftrightarrow>
      (\<exists>r. open_in ls r \<and> p = pc_pid r \<and> g = pc_pgid r \<and> \<not> foreign hostname r
           \<and> reap_decision windows boot_at img created r)"
    unfolding acts reap_all_kills open_pids_set [OF ls] by blast
  have rest: "open_in (ls @ exit_lines now acts) r \<longleftrightarrow> open_in ls r \<and> foreign hostname r" for r
  proof -
    let ?own = "filter (\<lambda>r. \<not> foreign hostname r) (read_open_pids parse path (FileText (ledger_text render ls)))"
    have own: "set ?own = {r. open_in ls r \<and> \<not> foreign hostname r}"
      using open_pids_set [OF ls, of path] by auto
    have "open_in (ls @ exit_lines now acts) r \<longleftrightarrow> open_in ls r \<and> pc_pid r \<notin> pc_pid ` set ?own"
      unfolding acts exit_lines_all by (rule open_in_exits)
    also have "\<dots> \<longleftrightarrow> open_in ls r \<and> foreign hostname r"
      unfolding own using open_in_unique [of ls r] by blast
    finally show ?thesis .
  qed
  show ?thesis
    unfolding open_pids_set [OF lines] rest kills limbs frn by blast
qed

theorem boot_reaps_own_orphans_witness:
  "ReapKill 7 (Some 7) \<in> set (reap_all False ''h'' 0 (\<lambda>_. Some ''claude'') (\<lambda>_. Some 1)
     (read_open_pids (table_parse (example_ledger @ [ExitLine 7 9])) ''pids.ndjson''
        (FileText (ledger_text (table_render (example_ledger @ [ExitLine 7 9])) example_ledger))))"
proof -
  let ?ls = "example_ledger @ [ExitLine 7 9]"
  let ?acts = "reap_all False ''h'' 0 (\<lambda>_. Some ''claude'') (\<lambda>_. Some 1)
     (read_open_pids (table_parse ?ls) ''pids.ndjson'' (FileText (ledger_text (table_render ?ls) example_ledger)))"
  have e: "exit_lines 9 ?acts = [ExitLine 7 9]" by code_simp
  have r: "renders (table_parse ?ls) (table_render ?ls) (example_ledger @ exit_lines 9 ?acts)"
    unfolding e by code_simp
  have "open_in example_ledger (example_process 7 ''t3'')"
    by (auto simp: open_in_def example_ledger_def example_process_def Cons_eq_append_conv)
  then show ?thesis
    unfolding conjunct1 [OF boot_reaps_own_orphans [OF r refl, of 7 "Some 7"]]
    by (intro exI [of _ "example_process 7 ''t3''"]) (simp add: example_process_def images_match_def)
qed

section \<open>The turn a crash left open\<close>

text \<open>
  The scan of \<open>closeUnterminatedTurn\<close>: the open turn and its unresolved requests, over the
  results of reading the spill, up to the first that is an error.
\<close>

type_synonym open_scan = "turn_id option \<times> (request_id, string \<times> json) jmap"

definition scan_event :: "envelope \<Rightarrow> open_scan \<Rightarrow> open_scan" where
  "scan_event e sc =
     (case sc of (turn, pending) \<Rightarrow>
        (case env_data e of
           TurnStarted \<Rightarrow> (env_turn e, [])
         | TurnEnded _ _ \<Rightarrow> (None, [])
         | PermissionRequest q \<Rightarrow> (turn, jset pending (pr_request_id q) (pr_tool q, pr_input q))
         | PermissionResolved v \<Rightarrow> (turn, jdel pending (pv_request_id v))
         | _ \<Rightarrow> sc))"

fun scan_spill :: "(store_error, envelope) result list \<Rightarrow> open_scan \<Rightarrow> open_scan" where
  "scan_spill [] sc = sc"
| "scan_spill (Inl _ # _) sc = sc"
| "scan_spill (Inr e # rs) sc = scan_spill rs (scan_event e sc)"

text \<open>
  An awaited \<open>emit\<close> during boot: the append of the very envelope settles before the next tick.
  \<open>appends n\<close> is the outcome of the append of number \<open>n\<close>. On a failure the handler of the write
  queue runs to its end; no turn is in the slot of a rehydrated session.
\<close>

definition settle_spill :: "iso_timestamp \<Rightarrow> (store_error, unit) result \<Rightarrow> sess \<Rightarrow> sess" where
  "settle_spill now r s =
     (case r of
        Inr _ \<Rightarrow> append_settled now r s
      | Inl _ \<Rightarrow> if failed s then queue_moves s
                 else fail_closed now ((storage_failed now s)\<lparr>se_tasks := se_tasks s\<rparr>))"

definition boot_emit ::
  "config \<Rightarrow> iso_timestamp \<Rightarrow> (nat \<Rightarrow> (store_error, unit) result) \<Rightarrow> turn_id option \<Rightarrow> payload \<Rightarrow> sess \<Rightarrow> sess" where
  "boot_emit cf now appends t d s =
     (if failed s then s
      else (let s1 = emit cf now t d None s in settle_spill now (appends (st_seq (se_stream s1))) s1))"

text \<open>
  One unresolved request: its resolution and its audit record. \<open>audits r\<close> says whether the
  record of request \<open>r\<close> could be written; the flag remembers that one could not.
\<close>

definition close_request ::
  "config \<Rightarrow> iso_timestamp \<Rightarrow> (nat \<Rightarrow> (store_error, unit) result) \<Rightarrow> (request_id \<Rightarrow> bool) \<Rightarrow> turn_id
   \<Rightarrow> request_id \<times> string \<times> json \<Rightarrow> sess \<times> bool \<Rightarrow> sess \<times> bool" where
  "close_request cf now appends audits t p acc =
     (case (p, acc) of ((r, tool, input), (s, any_failed)) \<Rightarrow>
        let s1 = boot_emit cf now appends (Some t) (PermissionResolved (swept r)) s
        in (call (CallAudit t r (cancelled_audit now s1 tool input) (audits r)) s1,
            any_failed \<or> \<not> audits r))"

definition close_unterminated_turn ::
  "config \<Rightarrow> iso_timestamp \<Rightarrow> (store_error, envelope) result list
   \<Rightarrow> (nat \<Rightarrow> (store_error, unit) result) \<Rightarrow> (request_id \<Rightarrow> bool) \<Rightarrow> sess \<Rightarrow> sess" where
  "close_unterminated_turn cf now events appends audits s =
     (case scan_spill events (None, []) of
        (None, _) \<Rightarrow> s
      | (Some t, pending) \<Rightarrow>
          (let (s1, any_failed) = fold (close_request cf now appends audits t) pending (s, False);
               s2 = (if any_failed
                     then boot_emit cf now appends None
                            (audit_notice (''The audit record for one or more cancelled permissions ''
                                           @ ''could not be written.'')) s1
                     else s1)
           in boot_emit cf now appends (Some t) (TurnEnded StopServerRestart None) s2))"

section \<open>Rehydration\<close>

definition rehydrate_record :: "iso_timestamp \<Rightarrow> bool \<Rightarrow> nat \<Rightarrow> session_record \<Rightarrow> session_record" where
  "rehydrate_record now quarantined last_seq r =
     (if quarantined then r
      else r\<lparr>sr_state := Ended,
             sr_ended_at := Some (case sr_ended_at r of Some x \<Rightarrow> x | None \<Rightarrow> now),
             sr_end_reason := (if sr_ended_at r = None then Some ServerRestartEnd else sr_end_reason r),
             sr_last_seq := last_seq\<rparr>)"

text \<open>
  One loaded record: the session it becomes, whether it was live at shutdown, and whether its
  create still counts as committed; or nothing when its metadata or the tail of its spill cannot
  be read. \<open>written\<close> is the outcome of rewriting the metadata of a session that was live.
\<close>

definition load_session ::
  "iso_timestamp \<Rightarrow> session_id list \<Rightarrow> session_id list \<Rightarrow> reservations \<Rightarrow> (store_error, unit) result \<Rightarrow> session_id
   \<Rightarrow> (store_error, session_record) result \<Rightarrow> (store_error, nat) result \<Rightarrow> (sess \<times> bool \<times> bool) option" where
  "load_session now pending committed al written session meta last_seq =
     (case meta of
        Inl _ \<Rightarrow> None
      | Inr r \<Rightarrow>
          (case last_seq of
             Inl _ \<Rightarrow> None
           | Inr n \<Rightarrow>
               (let quarantined = (session \<in> set pending \<and> session \<notin> set committed);
                    s = rehydrated_entry (rehydrate_record now quarantined n r) (session \<in> set pending) al [];
                    was_live = (\<not> quarantined \<and> sr_state r = Live)
                in Some (if was_live then call (CallWriteMeta (se_record s)) s else s,
                         was_live,
                         session \<in> set committed
                         \<and> \<not> (was_live \<and> \<not> is_ok written \<and> session \<in> set pending)))))"

text \<open>
  The last step of boot for one entry. \<open>removed\<close> is the outcome of removing the record of the
  create attempt, \<open>history\<close> what the spill held before boot.
\<close>

definition restart_notice :: payload where
  "restart_notice =
     SessionNotice Warn ServerRestart
       (''The server restarted while this session was live; ''
        @ ''the session has ended and accepts no new turn.'')"

definition boot_session ::
  "config \<Rightarrow> iso_timestamp \<Rightarrow> bool \<Rightarrow> bool \<Rightarrow> (store_error, envelope) result list
   \<Rightarrow> (nat \<Rightarrow> (store_error, unit) result) \<Rightarrow> (request_id \<Rightarrow> bool) \<Rightarrow> (store_error, unit) result \<Rightarrow> sess \<Rightarrow> sess" where
  "boot_session cf now committed was_live history appends audits removed s =
     (if se_creating s \<and> \<not> committed then s
      else
        (let s1 = (if was_live then boot_emit cf now appends None restart_notice s else s);
             s2 = close_unterminated_turn cf now (history @ map Inr (st_spill (se_stream s1))) appends audits s1
         in if se_creating s2 \<and> \<not> failed s2 \<and> is_ok removed
            then (release_workspace s2)\<lparr>se_creating := False\<rparr> else s2))"

section \<open>Recovery of unfinished creates\<close>

record create_attempt =
  ca_session :: session_id
  ca_principal :: principal_id
  ca_cwd :: resolved_path

text \<open>
  What the outside answers about an attempt: the host's status, and the outcomes of destroying
  the checkpoints, deleting the storage and removing the attempt's record.
\<close>

record recovery_answers =
  ra_status :: "attempt_state observed"
  ra_destroyed :: bool
  ra_deleted :: bool
  ra_removed :: bool

record recovery =
  rc_alloc :: reservations
  rc_pending :: "session_id list"
  rc_committed :: "session_id list"

definition recover_one :: "(session_id \<Rightarrow> recovery_answers) \<Rightarrow> create_attempt \<Rightarrow> recovery \<Rightarrow> recovery" where
  "recover_one answers a rc =
     (let i = ca_session a; ans = answers i; state = recover_host_attempt (ra_status ans) in
      if state = Some Committed then rc\<lparr>rc_committed := i # rc_committed rc\<rparr>
      else if state = Some Aborted \<and> ra_destroyed ans \<and> ra_deleted ans \<and> ra_removed ans
      then rc\<lparr>rc_alloc := release i (rc_alloc rc), rc_pending := removeAll i (rc_pending rc)\<rparr>
      else rc)"

definition recover_attempts ::
  "(session_id \<Rightarrow> recovery_answers) \<Rightarrow> create_attempt list \<Rightarrow> reservations \<Rightarrow> recovery" where
  "recover_attempts answers attempts al =
     fold (recover_one answers) attempts
       \<lparr>rc_alloc = fold (\<lambda>a. recover_pending (ca_session a) (ca_cwd a) (ca_principal a)) attempts al,
        rc_pending = map ca_session attempts, rc_committed = []\<rparr>"

section \<open>Closing a history\<close>

lemma emit_fresh:
  assumes "\<not> failed s" and "st_queue (se_stream s) = []"
  obtains st e where "emit cf now t d None s = with_stream st s" and "st_queue st = [e]"
    and "st_spill st = st_spill (se_stream s)" and "\<not> st_failed st" and "env_turn e = t" and "env_data e = d"
proof -
  let ?st = "fst (emit_stream (ring_capacity (cf_caps cf)) (sid s) now t d None (se_stream s))"
  have e: "emit cf now t d None s = with_stream ?st s"
    using assms(1) by (simp add: emit_def)
  show ?thesis
    by (rule that [OF e, of "\<lparr>env_seq = Suc (st_seq (se_stream s)), env_session = sid s, env_ts = now,
          env_turn = t, env_data = d, env_raw = None\<rparr>"])
      (use assms in \<open>simp_all add: failed_def emit_stream_def Let_def\<close>)
qed

lemma boot_emit_ok:
  assumes "\<not> failed s" and "st_queue (se_stream s) = []" and "\<forall>n. is_ok (appends n)"
  shows "\<not> failed (boot_emit cf now appends t d s)"
    and "st_queue (se_stream (boot_emit cf now appends t d s)) = []"
    and "\<exists>e. st_spill (se_stream (boot_emit cf now appends t d s)) = st_spill (se_stream s) @ [e]
           \<and> env_turn e = t \<and> env_data e = d"
    and "se_calls (boot_emit cf now appends t d s) = se_calls s"
    and "cancelled_audit now (boot_emit cf now appends t d s) tool input = cancelled_audit now s tool input"
proof -
  obtain st e where st: "emit cf now t d None s = with_stream st s" "st_queue st = [e]"
    "st_spill st = st_spill (se_stream s)" "\<not> st_failed st" "env_turn e = t" "env_data e = d"
    by (rule emit_fresh [OF assms(1,2)])
  obtain u where u: "appends (st_seq st) = Inr u"
    using assms(3) [rule_format, of "st_seq st"] by (cases "appends (st_seq st)") simp_all
  have b: "boot_emit cf now appends t d s = (with_stream st s)\<lparr>se_stream := st\<lparr>st_spill := st_spill st @ [e], st_queue := []\<rparr>\<rparr>"
  proof -
    have w: "se_stream (with_stream st s) = st" by (simp add: with_stream_def)
    have "boot_emit cf now appends t d s = settle_spill now (appends (st_seq st)) (with_stream st s)"
      using assms(1) by (simp only: boot_emit_def st(1) w Let_def if_False)
    also have "\<dots> = (with_stream st s)\<lparr>se_stream := append_ok st\<rparr>"
      by (simp only: u settle_spill_def append_settled_def sum.case w)
    also have "append_ok st = st\<lparr>st_spill := st_spill st @ [e], st_queue := []\<rparr>"
      by (simp add: append_ok_def st(2))
    finally show ?thesis .
  qed
  show "\<not> failed (boot_emit cf now appends t d s)"
    "st_queue (se_stream (boot_emit cf now appends t d s)) = []"
    "\<exists>e. st_spill (se_stream (boot_emit cf now appends t d s)) = st_spill (se_stream s) @ [e]
           \<and> env_turn e = t \<and> env_data e = d"
    "se_calls (boot_emit cf now appends t d s) = se_calls s"
    "cancelled_audit now (boot_emit cf now appends t d s) tool input = cancelled_audit now s tool input"
    using st(3-6) by (simp_all add: b with_stream_def failed_def cancelled_audit_def audit_of_def sid_def)
qed

text \<open>What an envelope says, without its number and time.\<close>

definition said :: "envelope \<Rightarrow> turn_id option \<times> payload" where
  "said e = (env_turn e, env_data e)"

lemma scan_event_said: "said e = said e' \<Longrightarrow> scan_event e = scan_event e'"
  by (auto simp: said_def scan_event_def fun_eq_iff split: payload.splits)

lemma scan_map_Inr: "scan_spill (map Inr es) sc = fold scan_event es sc"
  by (induction es arbitrary: sc) auto

lemma scan_said: "map said es = map said es' \<Longrightarrow> fold scan_event es = fold scan_event es'"
proof (induction es arbitrary: es')
  case Nil
  then show ?case by simp
next
  case (Cons e es)
  then obtain e' rest where "es' = e' # rest" "said e = said e'" "map said es = map said rest"
    by (cases es') auto
  with Cons.IH [of rest] scan_event_said [of e e'] show ?case by simp
qed

lemma close_requests:
  assumes ok: "\<forall>n. is_ok (appends n)"
  shows "\<not> failed s \<Longrightarrow> st_queue (se_stream s) = [] \<Longrightarrow>
    fold (close_request cf now appends audits t) ps (s, b) = (s', b') \<Longrightarrow>
    \<not> failed s' \<and> st_queue (se_stream s') = []
    \<and> (\<exists>new. st_spill (se_stream s') = st_spill (se_stream s) @ new
         \<and> map said new = map (\<lambda>(r, _). (Some t, PermissionResolved (swept r))) ps)
    \<and> se_calls s' = se_calls s
        @ map (\<lambda>(r, tool, input). CallAudit t r (cancelled_audit now s tool input) (audits r)) ps
    \<and> b' = (b \<or> (\<exists>p \<in> set ps. \<not> audits (fst p)))"
proof (induction ps arbitrary: s b)
  case Nil
  then show ?case by simp
next
  case (Cons p ps)
  obtain r tool input where p: "p = (r, tool, input)" by (cases p) auto
  let ?s1 = "boot_emit cf now appends (Some t) (PermissionResolved (swept r)) s"
  note e = boot_emit_ok [OF Cons.prems(1,2) ok, where cf = cf and now = now and t = "Some t" and d = "PermissionResolved (swept r)"]
  let ?s2 = "call (CallAudit t r (cancelled_audit now ?s1 tool input) (audits r)) ?s1"
  have 2: "\<not> failed ?s2" "st_queue (se_stream ?s2) = []"
    using e by (simp_all add: call_def failed_def)
  have au: "cancelled_audit now ?s2 = cancelled_audit now s"
    using e(5) by (simp add: fun_eq_iff call_def cancelled_audit_def audit_of_def sid_def)
  have "close_request cf now appends audits t p (s, b) = (?s2, b \<or> \<not> audits r)"
    by (simp add: p close_request_def Let_def)
  with Cons.prems(3) have
    "fold (close_request cf now appends audits t) ps (?s2, b \<or> \<not> audits r) = (s', b')"
    by simp
  from Cons.IH [OF 2 this] e(3,4,5) p au show ?case
    by (auto simp: call_def said_def)
qed

lemma fold_resolved:
  "fold scan_event new (Some t, ps) = (Some t, fold (\<lambda>r m. jdel m r) rs ps)"
  if "map said new = map (\<lambda>r. (Some t, PermissionResolved (swept r))) rs"
  using that
proof (induction new arbitrary: rs ps)
  case Nil
  then show ?case by simp
next
  case (Cons e new)
  then obtain r rs' where "rs = r # rs'" "said e = (Some t, PermissionResolved (swept r))"
    "map said new = map (\<lambda>r. (Some t, PermissionResolved (swept r))) rs'"
    by (cases rs) auto
  then have "scan_event e (Some t, ps) = (Some t, jdel ps r)"
    by (simp add: said_def scan_event_def swept_def)
  with Cons.IH [OF \<open>map said new = _\<close>] \<open>rs = r # rs'\<close> show ?case by simp
qed


definition boot_config :: config where
  "boot_config =
     \<lparr>cf_caps = \<lparr>ring_capacity = 4, tool_result_bytes = 64, subscriber_queue_high_water = 4,
        audit_page_max = 10, standing_rule_bytes = 64, attachment_bytes = 64, attachment_count = 2,
        session_tool_output_bytes = 64, permission_reason_bytes = 64\<rparr>,
      cf_include_raw = False, cf_output = output_policy_for None, cf_hostname = ''h'', cf_windows = False\<rparr>"

definition said_envelope :: "nat \<Rightarrow> turn_id option \<Rightarrow> payload \<Rightarrow> envelope" where
  "said_envelope n t d =
     \<lparr>env_seq = n, env_session = ''a'', env_ts = 0, env_turn = t, env_data = d, env_raw = None\<rparr>"

definition crashed_history :: "envelope list" where
  "crashed_history =
     [said_envelope 1 (Some ''t'') TurnStarted,
      said_envelope 2 (Some ''t'') (PermissionRequest
        \<lparr>pr_request_id = ''r'', pr_call_id = ''c'', pr_tool = ''Bash'', pr_input = JNull,
         pr_match_target = None, pr_suggestions = []\<rparr>)]"


section \<open>What boot registers\<close>

lemma settle_spill_keeps:
  "ended s \<Longrightarrow> ended (settle_spill now r s)" "se_turn (settle_spill now r s) = None \<longleftrightarrow> se_turn s = None \<or> (\<not> is_ok r \<and> \<not> failed s)"
  "se_creating (settle_spill now r s) = se_creating s"
  by (cases r; simp add: settle_spill_def append_settled_def queue_moves_def fail_closed_def deliver_def
      with_stream_def storage_failed_def post_def call_def release_workspace_def mark_ended_def
      clear_turn_def ended_def Let_def)+

lemma boot_emit_keeps:
  "ended s \<Longrightarrow> ended (boot_emit cf now appends t d s)"
  "se_turn s = None \<Longrightarrow> se_turn (boot_emit cf now appends t d s) = None"
  "se_creating (boot_emit cf now appends t d s) = se_creating s"
proof -
  have e: "ended s \<Longrightarrow> ended (emit cf now t d None s)" "se_turn (emit cf now t d None s) = se_turn s"
    "se_creating (emit cf now t d None s) = se_creating s"
    by (simp_all add: emit_def with_stream_def ended_def)
  show "ended s \<Longrightarrow> ended (boot_emit cf now appends t d s)"
    "se_turn s = None \<Longrightarrow> se_turn (boot_emit cf now appends t d s) = None"
    "se_creating (boot_emit cf now appends t d s) = se_creating s"
    using e by (simp_all add: boot_emit_def Let_def settle_spill_keeps)
qed

lemma close_requests_keep:
  "fold (close_request cf now appends audits t) ps (s, b) = (s', b') \<Longrightarrow>
   (ended s \<longrightarrow> ended s') \<and> (se_turn s = None \<longrightarrow> se_turn s' = None) \<and> se_creating s' = se_creating s"
proof (induction ps arbitrary: s b)
  case Nil
  then show ?case by simp
next
  case (Cons p ps)
  obtain r tool input where p: "p = (r, tool, input)" by (cases p) auto
  let ?s1 = "boot_emit cf now appends (Some t) (PermissionResolved (swept r)) s"
  let ?s2 = "call (CallAudit t r (cancelled_audit now ?s1 tool input) (audits r)) ?s1"
  have "close_request cf now appends audits t p (s, b) = (?s2, b \<or> \<not> audits r)"
    by (simp add: p close_request_def Let_def)
  with Cons.prems have "fold (close_request cf now appends audits t) ps (?s2, b \<or> \<not> audits r) = (s', b')"
    by simp
  note Cons.IH [OF this]
  moreover have "ended ?s2 = ended ?s1" "se_turn ?s2 = se_turn ?s1" "se_creating ?s2 = se_creating ?s1"
    by (simp_all add: call_def ended_def)
  ultimately show ?case by (auto simp: boot_emit_keeps)
qed

lemma close_unterminated_keeps:
  "(ended s \<longrightarrow> ended (close_unterminated_turn cf now h appends audits s))
   \<and> (se_turn s = None \<longrightarrow> se_turn (close_unterminated_turn cf now h appends audits s) = None)
   \<and> se_creating (close_unterminated_turn cf now h appends audits s) = se_creating s"
proof (cases "scan_spill h (None, [])")
  case (Pair turn pending)
  obtain s1 b where "fold (close_request cf now appends audits (the turn)) pending (s, False) = (s1, b)"
    by (cases "fold (close_request cf now appends audits (the turn)) pending (s, False)") auto
  with close_requests_keep [OF this] Pair show ?thesis
    by (cases turn) (auto simp: close_unterminated_turn_def boot_emit_keeps)
qed

lemma boot_session_keeps:
  "(ended s \<longrightarrow> ended (boot_session cf now committed was_live h appends audits removed s))
   \<and> (se_turn s = None \<longrightarrow> se_turn (boot_session cf now committed was_live h appends audits removed s) = None)
   \<and> (se_creating s \<and> \<not> committed \<longrightarrow> boot_session cf now committed was_live h appends audits removed s = s)"
proof -
  define s1 where "s1 = (if was_live then boot_emit cf now appends None restart_notice s else s)"
  define s2 where "s2 = close_unterminated_turn cf now (h @ map Inr (st_spill (se_stream s1))) appends audits s1"
  have "boot_session cf now committed was_live h appends audits removed s =
      (if se_creating s \<and> \<not> committed then s
       else if se_creating s2 \<and> \<not> failed s2 \<and> is_ok removed
       then (release_workspace s2)\<lparr>se_creating := False\<rparr> else s2)"
    by (simp add: boot_session_def s1_def s2_def Let_def)
  moreover have "ended s \<longrightarrow> ended s1" "se_turn s = None \<longrightarrow> se_turn s1 = None"
    by (simp_all add: s1_def boot_emit_keeps)
  moreover note close_unterminated_keeps [of s1 cf now "h @ map Inr (st_spill (se_stream s1))" appends audits]
  ultimately show ?thesis
    by (auto simp: s2_def release_workspace_def ended_def)
qed

text \<open>
  C9: whatever boot loads and however its writes go, a session it registers is offered to its
  owner only as ended and without pending permissions; one whose create is still unproven is not
  offered at all and its record is left untouched.
\<close>

theorem booted_sessions_are_ended:
  assumes l: "load_session now pending committed al written i meta last_seq = Some (s, was_live, committed')"
    and s': "s' = boot_session cf now committed' was_live h appends audits removed s"
  shows "(get_session i owner (jset sessions i s') = Inr sm \<longrightarrow>
           sm_state sm = Ended \<and> sm_pending_permissions sm = 0)
    \<and> (i \<in> set pending \<and> i \<notin> set committed \<longrightarrow>
         get_session i owner (jset sessions i s') = Inl (NotFound i) \<and> Inr (se_record s') = meta)"
proof -
  from l obtain r n where m: "meta = Inr r" "last_seq = Inr n"
    by (auto simp: load_session_def split: sum.splits)
  define q where "q = (i \<in> set pending \<and> i \<notin> set committed)"
  define s0 where "s0 = rehydrated_entry (rehydrate_record now q n r) (i \<in> set pending) al []"
  have s: "s = (if was_live then call (CallWriteMeta (se_record s0)) s0 else s0)"
    and c: "committed' \<longrightarrow> i \<in> set committed"
    using l unfolding m load_session_def by (auto simp: Let_def s0_def q_def)
  have se: "se_turn s = None" "se_creating s = (i \<in> set pending)" "se_record s = rehydrate_record now q n r"
    by (simp_all add: s s0_def rehydrated_entry_def created_entry_def call_def)
  note keep = boot_session_keeps [of s cf now committed' was_live h appends audits removed, folded s']
  have t: "se_turn s' = None" using keep se(1) by blast
  show ?thesis
  proof (cases q)
    case True
    with se c keep have "s' = s" by (auto simp: q_def)
    with True se m show ?thesis
      by (auto simp: get_session_def q_def rehydrate_record_def)
  next
    case False
    then have "ended s" using se(3) by (simp add: ended_def rehydrate_record_def)
    with keep have "ended s'" by blast
    with t False show ?thesis
      by (auto simp: get_session_def to_summary_def Let_def ended_def q_def split: if_splits)
  qed
qed

definition booted_session :: sess where
  "booted_session =
     (case load_session 9 [] [] [] (Inr ()) ''a'' (Inr (se_record (example_session ''a''))) (Inr 2) of
        Some (s, was_live, committed) \<Rightarrow>
          boot_session boot_config 9 committed was_live (map Inr crashed_history)
            (\<lambda>n. if n < 4 then Inr () else Inl (Io ''p'' ''full'')) (\<lambda>_. True) (Inr ()) s)"

theorem booted_sessions_are_ended_witness:
  "\<exists>sm. get_session ''a'' ''o'' (jset [] ''a'' booted_session) = Inr sm \<and> sm_state sm = Ended"
proof -
  obtain s where l: "load_session 9 [] [] [] (Inr ()) ''a'' (Inr (se_record (example_session ''a''))) (Inr 2)
      = Some (s, True, False)"
    by (simp add: load_session_def Let_def example_session_def created_entry_def)
  then have b: "booted_session = boot_session boot_config 9 False True (map Inr crashed_history)
      (\<lambda>n. if n < 4 then Inr () else Inl (Io ''p'' ''full'')) (\<lambda>_. True) (Inr ()) s"
    by (simp add: booted_session_def)
  have "is_ok (get_session ''a'' ''o'' (jset [] ''a'' booted_session))" by code_simp
  then obtain sm where "get_session ''a'' ''o'' (jset [] ''a'' booted_session) = Inr sm"
    by (cases "get_session ''a'' ''o'' (jset [] ''a'' booted_session)") auto
  with booted_sessions_are_ended [OF l b, of "''o''" "[]" sm] show ?thesis by blast
qed

section \<open>Reservations of unfinished creates\<close>

definition attempt_gone :: "recovery_answers \<Rightarrow> bool" where
  "attempt_gone ans =
     (ra_status ans = Some Aborted \<and> ra_destroyed ans \<and> ra_deleted ans \<and> ra_removed ans)"

lemma recover_one_effect:
  "jget (rc_alloc (recover_one answers a rc)) j =
     (if j = ca_session a \<and> attempt_gone (answers j) then None else jget (rc_alloc rc) j)"
  "j \<in> set (rc_pending (recover_one answers a rc)) \<longleftrightarrow>
     j \<in> set (rc_pending rc) \<and> \<not> (j = ca_session a \<and> attempt_gone (answers j))"
  "j \<in> set (rc_committed (recover_one answers a rc)) \<longleftrightarrow>
     j \<in> set (rc_committed rc) \<or> (j = ca_session a \<and> ra_status (answers j) = Some Committed)"
  by (auto simp: recover_one_def Let_def recover_host_attempt_def attempt_gone_def release_def jget_jdel)

lemma recover_fold_effect:
  "jget (rc_alloc (fold (recover_one answers) as rc)) j =
     (if j \<in> ca_session ` set as \<and> attempt_gone (answers j) then None else jget (rc_alloc rc) j)"
  "j \<in> set (rc_pending (fold (recover_one answers) as rc)) \<longleftrightarrow>
     j \<in> set (rc_pending rc) \<and> \<not> (j \<in> ca_session ` set as \<and> attempt_gone (answers j))"
  "j \<in> set (rc_committed (fold (recover_one answers) as rc)) \<longleftrightarrow>
     j \<in> set (rc_committed rc) \<or> (j \<in> ca_session ` set as \<and> ra_status (answers j) = Some Committed)"
  by (induction as arbitrary: rc) (auto simp: recover_one_effect)

lemma recover_pending_fold:
  "j \<notin> ca_session ` set as \<Longrightarrow>
     jget (fold (\<lambda>a. recover_pending (ca_session a) (ca_cwd a) (ca_principal a)) as al) j = jget al j"
  by (induction as arbitrary: al) (auto simp: recover_pending_def)

lemma recover_pending_all:
  "distinct (map ca_session as) \<Longrightarrow> a \<in> set as \<Longrightarrow>
     jget (fold (\<lambda>a. recover_pending (ca_session a) (ca_cwd a) (ca_principal a)) as al) (ca_session a)
       = Some (new_reservation (ca_session a) (ca_cwd a) (ca_principal a))"
proof (induction as arbitrary: al)
  case Nil
  then show ?case by simp
next
  case (Cons b as)
  show ?case
  proof (cases "a = b")
    case True
    with Cons.prems(1) have "ca_session a \<notin> ca_session ` set as" by auto
    with True recover_pending_fold [of "ca_session b" as] show ?thesis
      by simp (simp add: recover_pending_def)
  next
    case False
    with Cons show ?thesis by auto
  qed
qed

text \<open>
  C11: after the recovery of unfinished creates, an attempt's workspace is still reserved and its
  session still quarantined unless the host says the create was aborted and its storage and its
  record are gone. It counts as committed exactly when the host says so; an unknown, new or
  prepared attempt releases nothing. Other reservations are untouched.
\<close>

theorem recovery_keeps_unproven:
  assumes d: "distinct (map ca_session attempts)"
    and rc: "rc = recover_attempts answers attempts al"
  shows "(\<forall>a \<in> set attempts.
      let i = ca_session a; ans = answers i;
          gone = (ra_status ans = Some Aborted \<and> ra_destroyed ans \<and> ra_deleted ans \<and> ra_removed ans) in
      jget (rc_alloc rc) i = (if gone then None else Some (new_reservation i (ca_cwd a) (ca_principal a)))
      \<and> (i \<in> set (rc_pending rc) \<longleftrightarrow> \<not> gone)
      \<and> (i \<in> set (rc_committed rc) \<longleftrightarrow> ra_status ans = Some Committed))
    \<and> (\<forall>i. i \<notin> ca_session ` set attempts \<longrightarrow> jget (rc_alloc rc) i = jget al i)"
  unfolding rc recover_attempts_def Let_def
  using recover_pending_all [OF d, of _ al]
  by (auto simp: recover_fold_effect recover_pending_fold attempt_gone_def)

definition example_attempts :: "create_attempt list" where
  "example_attempts = map (\<lambda>i. \<lparr>ca_session = i, ca_principal = ''o'', ca_cwd = ''/w'' @ i\<rparr>) [''a'', ''b'']"

definition example_answers :: "session_id \<Rightarrow> recovery_answers" where
  "example_answers i =
     \<lparr>ra_status = (if i = ''a'' then Some Aborted else None), ra_destroyed = True, ra_deleted = True,
      ra_removed = True\<rparr>"

theorem recovery_keeps_unproven_witness:
  "jget (rc_alloc (recover_attempts example_answers example_attempts [])) ''a'' = None
   \<and> rc_pending (recover_attempts example_answers example_attempts []) \<noteq> []"
proof -
  have d: "distinct (map ca_session example_attempts)" by (simp add: example_attempts_def)
  have "\<lparr>ca_session = i, ca_principal = ''o'', ca_cwd = ''/w'' @ i\<rparr> \<in> set example_attempts"
    if "i \<in> {''a'', ''b''}" for i
    using that by (auto simp: example_attempts_def)
  from conjunct1 [OF recovery_keeps_unproven [OF d refl, of example_answers "[]"], rule_format, OF this, of "''a''"]
    conjunct1 [OF recovery_keeps_unproven [OF d refl, of example_answers "[]"], rule_format, OF this, of "''b''"]
  show ?thesis by (auto simp: example_answers_def Let_def)
qed

end
