(* ===== verification/Session_Create.thy ===== *)
theory Session_Create
  imports Session_Machine Create_Attempts
begin

text \<open>
  \<open>create\<close> of \<open>src/agent-console/core/index.ts\<close>. Every step that reaches beyond the method, on the
  allocator, the attempt store, the host, the adapter, the session map or the storage, is an
  effect, in the order of the code; what the outside answers is given. The theorems speak of
  every prefix of the effects, for the process can stop between any two.
\<close>

section \<open>The steps\<close>

definition model_first :: "char \<Rightarrow> bool" where
  "model_first c =
     (CHR ''A'' \<le> c \<and> c \<le> CHR ''Z'' \<or> CHR ''a'' \<le> c \<and> c \<le> CHR ''z'' \<or> CHR ''0'' \<le> c \<and> c \<le> CHR ''9'')"

definition model_rest :: "char \<Rightarrow> bool" where
  "model_rest c = (model_first c \<or> c \<in> set ''.:/_-'')"

text \<open>The pattern a model name must match: no shell metacharacter, no space, no leading dash.\<close>

fun model_valid :: "string \<Rightarrow> bool" where
  "model_valid [] = False"
| "model_valid (c # cs) = (model_first c \<and> list_all model_rest cs)"

datatype create_effect =
    CeReserve
  | CeWriteAttempt bool
  | CePrepare
  | CeAdapter bool
  | CeRegister
  | CeCreateSession
  | CeNotifications
  | CeInitCheckpoints
  | CeNotice checkpoint_error
  | CeCommit bool
  | CeAbort
  | CeKill
  | CeUnregister
  | CeDestroyStorage
  | CeRemoveAttempt bool
  | CeRelease
  | CeActivate

datatype adapter_reply = AdapterMade permission_policy | AdapterRefused adapter_error | AdapterThrew string

record create_answers =
  cr_resolved :: "(jail_error, resolved_path) result"
  cr_overlap :: "reservation option"
  cr_saved :: "(store_error, unit) result"
  cr_prepared :: "string attempt_result"
  cr_adapter :: adapter_reply
  cr_muted :: bool
  cr_created :: "(store_error, unit) result"
  cr_initialised :: "(checkpoint_error, unit) result"
  cr_committed :: "string attempt_result"
  cr_destroyed :: "(checkpoint_error, unit) result"
  cr_deleted :: "(store_error, unit) result"
  cr_removed :: "(store_error, unit) result"

type_synonym create_failure = "string attempt_error session_error"

definition adapter_result :: "provider_id \<Rightarrow> adapter_reply \<Rightarrow> (adapter_error, permission_policy) result" where
  "adapter_result vendor r =
     (case r of AdapterMade p \<Rightarrow> Inr p | AdapterRefused e \<Rightarrow> Inl e
      | AdapterThrew txt \<Rightarrow> Inl (AgentUnavailable vendor txt))"

text \<open>\<open>releaseCreateAttempt\<close>: the reservation goes only with the durable record.\<close>

definition release_attempt :: "create_answers \<Rightarrow> create_effect list" where
  "release_attempt an =
     CeRemoveAttempt (is_ok (cr_removed an)) # (if is_ok (cr_removed an) then [CeRelease] else [])"

definition release_if_clean :: "create_answers \<Rightarrow> create_effect list" where
  "release_if_clean an =
     (if is_ok (cr_destroyed an) \<and> is_ok (cr_deleted an) then release_attempt an else [])"

text \<open>From the host's commit to the end.\<close>

definition create_commit ::
  "session_id \<Rightarrow> create_answers \<Rightarrow> create_effect list \<times> (create_failure, session_id) result" where
  "create_commit i an =
     (case cr_committed an of
        Inl e \<Rightarrow>
          if e = OutcomeUnknown then ([CeCommit False], Inl (CreateOutcomeUnknown i))
          else ([CeCommit False, CeAbort, CeUnregister, CeDestroyStorage, CeKill] @ release_if_clean an,
                Inl (HostCreate e))
      | Inr _ \<Rightarrow>
          (case cr_removed an of
             Inl e \<Rightarrow> ([CeCommit True, CeRemoveAttempt False], Inl (StorageE e))
           | Inr _ \<Rightarrow> ([CeCommit True, CeRemoveAttempt True, CeActivate], Inr i)))"

text \<open>From the registration of the entry.\<close>

definition create_register ::
  "session_id \<Rightarrow> create_answers \<Rightarrow> create_effect list \<times> (create_failure, session_id) result" where
  "create_register i an =
     (case cr_created an of
        Inl e \<Rightarrow>
          ([CeRegister, CeCreateSession, CeUnregister, CeAbort, CeKill, CeDestroyStorage] @ release_if_clean an,
           Inl (StorageE e))
      | Inr _ \<Rightarrow>
          (case create_commit i an of
             (effs, r) \<Rightarrow>
               ([CeRegister, CeCreateSession, CeNotifications, CeInitCheckpoints]
                @ (case cr_initialised an of Inl e \<Rightarrow> [CeNotice e] | Inr _ \<Rightarrow> []) @ effs, r)))"

text \<open>From the host's preparation.\<close>

definition create_prepare ::
  "session_id \<Rightarrow> provider_id \<Rightarrow> create_answers \<Rightarrow> create_effect list \<times> (create_failure, session_id) result" where
  "create_prepare i vendor an =
     (case cr_prepared an of
        Inl e \<Rightarrow> ([CePrepare, CeAbort] @ release_attempt an, Inl (HostCreate e))
      | Inr _ \<Rightarrow>
          (case adapter_result vendor (cr_adapter an) of
             Inl e \<Rightarrow> ([CePrepare, CeAdapter False, CeAbort] @ release_attempt an, Inl (AdapterE e))
           | Inr _ \<Rightarrow>
               if cr_muted an
               then ([CePrepare, CeAdapter True, CeKill, CeAbort] @ release_attempt an,
                     Inl (AdapterE (AgentUnavailable vendor ''server is shutting down'')))
               else (case create_register i an of
                       (effs, r) \<Rightarrow> ([CePrepare, CeAdapter True] @ effs, r))))"

definition create_session ::
  "session_id \<Rightarrow> provider_id \<Rightarrow> string option \<Rightarrow> create_answers
   \<Rightarrow> create_effect list \<times> (create_failure, session_id) result" where
  "create_session i vendor model an =
     (if (case model of None \<Rightarrow> False | Some m \<Rightarrow> \<not> model_valid m)
      then ([], Inl (BadRequest ''model'' ''model may contain only letters, digits, and . : / _ -''))
      else
        (case cr_resolved an of
           Inl e \<Rightarrow> ([], Inl (JailE e))
         | Inr _ \<Rightarrow>
             (case cr_overlap an of
                Some r \<Rightarrow> ([], Inl (WorkspaceBusy (rs_cwd r) (rs_principal r)))
              | None \<Rightarrow>
                  (case cr_saved an of
                     Inl e \<Rightarrow> ([CeReserve, CeWriteAttempt False, CeRelease], Inl (StorageE e))
                   | Inr _ \<Rightarrow>
                       (case create_prepare i vendor an of
                          (effs, r) \<Rightarrow> ([CeReserve, CeWriteAttempt True] @ effs, r))))))"

section \<open>What the effects leave behind\<close>

text \<open>
  The workspace reservation, the durable record of the attempt, the entry in the session map, a
  running adapter, the host's claim (prepared and neither aborted nor committed), the committed
  host state, and whether the session is published.
\<close>

record world =
  wo_reserved :: bool
  wo_recorded :: bool
  wo_registered :: bool
  wo_adapter :: bool
  wo_claimed :: bool
  wo_committed :: bool
  wo_published :: bool

definition empty_world :: world where
  "empty_world =
     \<lparr>wo_reserved = False, wo_recorded = False, wo_registered = False, wo_adapter = False,
      wo_claimed = False, wo_committed = False, wo_published = False\<rparr>"

fun effect_on :: "create_effect \<Rightarrow> world \<Rightarrow> world" where
  "effect_on CeReserve w = w\<lparr>wo_reserved := True\<rparr>"
| "effect_on (CeWriteAttempt ok) w = w\<lparr>wo_recorded := ok\<rparr>"
| "effect_on CePrepare w = w\<lparr>wo_claimed := True\<rparr>"
| "effect_on (CeAdapter ok) w = w\<lparr>wo_adapter := ok\<rparr>"
| "effect_on CeRegister w = w\<lparr>wo_registered := True\<rparr>"
| "effect_on (CeCommit ok) w = (if ok then w\<lparr>wo_claimed := False, wo_committed := True\<rparr> else w)"
| "effect_on CeAbort w = w\<lparr>wo_claimed := False\<rparr>"
| "effect_on CeKill w = w\<lparr>wo_adapter := False\<rparr>"
| "effect_on CeUnregister w = w\<lparr>wo_registered := False\<rparr>"
| "effect_on (CeRemoveAttempt ok) w = (if ok then w\<lparr>wo_recorded := False\<rparr> else w)"
| "effect_on CeRelease w = w\<lparr>wo_reserved := False\<rparr>"
| "effect_on CeActivate w = w\<lparr>wo_published := True\<rparr>"
| "effect_on _ w = w"

fun worlds :: "create_effect list \<Rightarrow> world \<Rightarrow> world list" where
  "worlds [] w = [w]"
| "worlds (e # es) w = w # worlds es (effect_on e w)"

text \<open>
  Safe to crash in: a claim on the host, or a reservation of a prepared create, is never held
  without the durable record that boot recovers it by; and what is recorded is reserved.
\<close>

definition recoverable :: "world \<Rightarrow> bool" where
  "recoverable w = ((wo_claimed w \<longrightarrow> wo_recorded w) \<and> (wo_recorded w \<longrightarrow> wo_reserved w)
     \<and> (wo_published w \<longrightarrow> wo_committed w \<and> \<not> wo_recorded w))"

lemmas create_defs =
  create_session_def create_prepare_def create_register_def create_commit_def
  release_attempt_def release_if_clean_def adapter_result_def empty_world_def

text \<open>
  C12: wherever a create is interrupted, a claim on the host is covered by the durable record of
  the attempt, which is covered by the workspace reservation, and a session is published only
  after the host committed it and the record is gone.
\<close>

theorem create_is_recoverable:
  "list_all recoverable (worlds (fst (create_session i vendor model an)) empty_world)"
  by (auto simp: create_defs recoverable_def split: option.split sum.split adapter_reply.split)

text \<open>
  How a create ends: published, kept for boot to decide, or undone. The phases are taken from the
  last to the first, each from the world the one before it leaves.
\<close>

definition settled_as :: "session_id \<Rightarrow> world \<Rightarrow> create_effect list \<times> (create_failure, session_id) result \<Rightarrow> bool" where
  "settled_as i w0 er =
     (let effs = fst er; w = fold effect_on effs w0 in
      case snd er of
        Inr j \<Rightarrow> j = i \<and> wo_published w \<and> wo_committed w \<and> wo_reserved w \<and> wo_registered w \<and> wo_adapter w
           \<and> \<not> wo_recorded w
      | Inl e \<Rightarrow>
          if e = CreateOutcomeUnknown i \<or> wo_committed w
          then CeAbort \<notin> set effs \<and> CeKill \<notin> set effs \<and> \<not> wo_published w
             \<and> wo_reserved w \<and> wo_recorded w \<and> wo_registered w \<and> wo_adapter w
          else \<not> wo_registered w \<and> \<not> wo_adapter w \<and> \<not> wo_claimed w \<and> \<not> wo_published w
             \<and> (wo_reserved w \<longleftrightarrow> wo_recorded w))"

lemma settled_prefix:
  assumes "settled_as i (fold effect_on ps w0) (effs, r)" and "CeAbort \<notin> set ps" and "CeKill \<notin> set ps"
  shows "settled_as i w0 (ps @ effs, r)"
  using assms by (auto simp: settled_as_def Let_def split: sum.splits if_splits)

definition prepared_world :: "bool \<Rightarrow> world" where
  "prepared_world registered =
     \<lparr>wo_reserved = True, wo_recorded = True, wo_registered = registered, wo_adapter = True,
      wo_claimed = True, wo_committed = False, wo_published = False\<rparr>"

lemma settled_commit: "settled_as i (prepared_world True) (create_commit i an)"
  by (cases "cr_committed an"; cases "cr_removed an")
    (auto simp: settled_as_def prepared_world_def create_commit_def release_if_clean_def release_attempt_def)

lemma settled_register: "settled_as i (prepared_world False) (create_register i an)"
proof (cases "cr_created an")
  case (Inl e)
  then show ?thesis
    by (auto simp: settled_as_def prepared_world_def create_register_def release_if_clean_def release_attempt_def)
next
  case (Inr u)
  obtain effs r where c: "create_commit i an = (effs, r)" by (cases "create_commit i an") auto
  let ?ps = "[CeRegister, CeCreateSession, CeNotifications, CeInitCheckpoints]
     @ (case cr_initialised an of Inl e \<Rightarrow> [CeNotice e] | Inr _ \<Rightarrow> [])"
  have "fold effect_on ?ps (prepared_world False) = prepared_world True"
    by (simp add: prepared_world_def split: sum.split)
  with settled_commit [of i an] c have "settled_as i (prepared_world False) (?ps @ effs, r)"
    by (intro settled_prefix) (auto split: sum.split)
  with Inr c show ?thesis by (simp add: create_register_def)
qed

lemma settled_prepare:
  "settled_as i (fold effect_on [CeReserve, CeWriteAttempt True] empty_world) (create_prepare i vendor an)"
proof (cases "cr_prepared an")
  case (Inl e)
  then show ?thesis
    by (auto simp: settled_as_def create_prepare_def release_attempt_def empty_world_def)
next
  case ok: (Inr u)
  show ?thesis
  proof (cases "adapter_result vendor (cr_adapter an)")
    case (Inl e)
    with ok show ?thesis
      by (auto simp: settled_as_def create_prepare_def release_attempt_def empty_world_def)
  next
    case (Inr p)
    obtain effs r where c: "create_register i an = (effs, r)" by (cases "create_register i an") auto
    have "fold effect_on [CePrepare, CeAdapter True] (fold effect_on [CeReserve, CeWriteAttempt True] empty_world)
        = prepared_world False"
      by (simp add: prepared_world_def empty_world_def)
    with settled_register [of i an] c
    have "settled_as i (fold effect_on [CeReserve, CeWriteAttempt True] empty_world)
            ([CePrepare, CeAdapter True] @ effs, r)"
      by (intro settled_prefix) simp_all
    with ok Inr c show ?thesis
      by (auto simp: create_prepare_def settled_as_def release_attempt_def empty_world_def)
  qed
qed

lemma settled_create: "settled_as i empty_world (create_session i vendor model an)"
proof -
  obtain effs r where c: "create_prepare i vendor an = (effs, r)" by (cases "create_prepare i vendor an") auto
  have "settled_as i empty_world ([CeReserve, CeWriteAttempt True] @ effs, r)"
    using settled_prepare [of i vendor an] c by (intro settled_prefix) simp_all
  moreover have "settled_as i empty_world ([], Inl e)" if "e \<noteq> CreateOutcomeUnknown i" for e
    using that by (simp add: settled_as_def empty_world_def)
  moreover have "settled_as i empty_world ([CeReserve, CeWriteAttempt False, CeRelease], Inl (StorageE e))" for e
    by (simp add: settled_as_def empty_world_def)
  ultimately show ?thesis
    using c by (simp add: create_session_def split: sum.split option.split)
qed

text \<open>
  C13: a create that returns its session leaves it published with its adapter, committed at the
  host and without a record. One whose outcome at the host is unknown, or whose record could not
  be removed after the commit, aborts nothing and keeps the reservation, the record, the entry
  and the adapter. Every other refusal leaves no entry, no adapter and no claim, and keeps the
  reservation exactly as long as the record: until boot has proved the attempt's end.
\<close>

theorem create_leaves:
  assumes "create_session i vendor model an = (effs, r)"
  defines "w \<equiv> fold effect_on effs empty_world"
  shows "case r of
      Inr j \<Rightarrow> j = i \<and> wo_published w \<and> wo_committed w \<and> wo_reserved w \<and> wo_registered w \<and> wo_adapter w
         \<and> \<not> wo_recorded w
    | Inl e \<Rightarrow>
        if e = CreateOutcomeUnknown i \<or> wo_committed w
        then CeAbort \<notin> set effs \<and> CeKill \<notin> set effs \<and> \<not> wo_published w
           \<and> wo_reserved w \<and> wo_recorded w \<and> wo_registered w \<and> wo_adapter w
        else \<not> wo_registered w \<and> \<not> wo_adapter w \<and> \<not> wo_claimed w \<and> \<not> wo_published w
           \<and> (wo_reserved w \<longleftrightarrow> wo_recorded w)"
  using settled_create [of i vendor model an] assms(1) unfolding w_def
  by (simp add: settled_as_def Let_def)

definition example_answers :: create_answers where
  "example_answers =
     \<lparr>cr_resolved = Inr ''/w'', cr_overlap = None, cr_saved = Inr (), cr_prepared = Inr (),
      cr_adapter = AdapterMade \<lparr>pp_mode = Interactive, pp_sandbox = None, pp_banner = None\<rparr>,
      cr_muted = False, cr_created = Inr (), cr_initialised = Inr (), cr_committed = Inl OutcomeUnknown,
      cr_destroyed = Inr (), cr_deleted = Inr (), cr_removed = Inr ()\<rparr>"

theorem create_leaves_witness:
  "CeAbort \<notin> set (fst (create_session ''s'' ''claude'' (Some ''m'') example_answers))"
proof -
  have "create_session ''s'' ''claude'' (Some ''m'') example_answers =
      (fst (create_session ''s'' ''claude'' (Some ''m'') example_answers), Inl (CreateOutcomeUnknown ''s''))"
    by code_simp
  from create_leaves [OF this] show ?thesis by simp
qed

end
