(* ===== verification/Subscriptions.thy ===== *)
theory Subscriptions
  imports Event_Stream
begin

text \<open>
  \<open>subscribe\<close> of \<open>src/agent-console/core/index.ts\<close>: one subscriber, from its resume point on. What
  its sink receives is served by the ring, or replayed from the spill while the live envelopes
  are buffered, and then passed through. The reading of the spill and the live delivery
  interleave freely; the relation \<open>sub_reach\<close> has a rule for each thing that can happen next.
\<close>

section \<open>The sink\<close>

text \<open>A gap is not an event of the session: it goes to one subscriber and takes no number.\<close>

datatype sink_event = SkEnvelope envelope | SkFrame frame | SkGap nat string | SkClosed

definition gap_envelope :: "session_id \<Rightarrow> iso_timestamp \<Rightarrow> nat \<Rightarrow> string \<Rightarrow> envelope" where
  "gap_envelope i now through message =
     \<lparr>env_seq = through, env_session = i, env_ts = now, env_turn = None,
      env_data = ErrorEvent ReplayGap message False, env_raw = None\<rparr>"

datatype sub_mode = Buffering | Passing

text \<open>
  \<open>sb_active\<close> and \<open>sb_owner_same\<close> guard the caller's sink; \<open>sb_registered\<close> says that the entry's
  subscribers contain this one; \<open>sb_reading\<close> that the replay of the spill goes on.
\<close>

record subscriber =
  sb_active :: bool
  sb_owner_same :: bool
  sb_registered :: bool
  sb_reading :: bool
  sb_mode :: sub_mode
  sb_dropped :: bool
  sb_through :: nat
  sb_buffered :: "envelope list"
  sb_out :: "sink_event list"

definition sink_deliver :: "sink_event \<Rightarrow> subscriber \<Rightarrow> subscriber" where
  "sink_deliver x sb =
     (if sb_active sb \<and> sb_owner_same sb then sb\<lparr>sb_out := sb_out sb @ [x]\<rparr> else sb)"

definition sink_close :: "subscriber \<Rightarrow> subscriber" where
  "sink_close sb =
     (if sb_active sb then sb\<lparr>sb_active := False, sb_out := sb_out sb @ [SkClosed]\<rparr> else sb)"

definition new_subscriber :: "nat \<Rightarrow> subscriber" where
  "new_subscriber after =
     \<lparr>sb_active = True, sb_owner_same = True, sb_registered = True, sb_reading = False, sb_mode = Passing,
      sb_dropped = False, sb_through = after, sb_buffered = [], sb_out = []\<rparr>"

text \<open>
  The synchronous part: a resume point past the end is a gap; what the ring holds is served at
  once; otherwise a buffering proxy is registered and the replay begins.
\<close>

definition subscribe_start :: "nat \<Rightarrow> envelope list \<Rightarrow> nat \<Rightarrow> subscriber" where
  "subscribe_start last_seq ring after =
     (if last_seq < after
      then sink_deliver (SkGap last_seq ''the resume point is past the end of this session'') (new_subscriber after)
      else
        (case read_ring_after ring after of
           Some es \<Rightarrow> fold (\<lambda>e. sink_deliver (SkEnvelope e)) es (new_subscriber after)
         | None \<Rightarrow> (new_subscriber after)\<lparr>sb_reading := True, sb_mode := Buffering\<rparr>))"

text \<open>The proxy's \<open>deliver\<close>, for a live envelope and for a frame.\<close>

definition fan_out :: "nat \<Rightarrow> envelope \<Rightarrow> subscriber \<Rightarrow> subscriber" where
  "fan_out high_water e sb =
     (if \<not> sb_registered sb \<or> sb_dropped sb then sb
      else if sb_mode sb = Passing then sink_deliver (SkEnvelope e) sb
      else if high_water \<le> length (sb_buffered sb)
      then sink_close
             (sink_deliver (SkGap (sb_through sb) ''too many envelopes arrived while catching up from storage'')
                (sb\<lparr>sb_dropped := True, sb_registered := False\<rparr>))
      else sb\<lparr>sb_buffered := sb_buffered sb @ [e]\<rparr>)"

definition fan_out_frame :: "frame \<Rightarrow> subscriber \<Rightarrow> subscriber" where
  "fan_out_frame f sb =
     (if \<not> sb_registered sb \<or> sb_dropped sb then sb
      else if sb_mode sb = Passing then sink_deliver (SkFrame f) sb else sb)"

text \<open>The end of the replay: what was buffered beyond it is flushed, and the proxy passes through.\<close>

definition flush_one :: "envelope \<Rightarrow> subscriber \<Rightarrow> subscriber" where
  "flush_one e sb =
     (if sb_through sb < env_seq e then (sink_deliver (SkEnvelope e) sb)\<lparr>sb_through := env_seq e\<rparr> else sb)"

definition replay_end :: "subscriber \<Rightarrow> subscriber" where
  "replay_end sb =
     (if sb_dropped sb then sb\<lparr>sb_reading := False\<rparr>
      else (fold flush_one (sb_buffered sb) (sb\<lparr>sb_reading := False, sb_mode := Passing\<rparr>))\<lparr>sb_buffered := []\<rparr>)"

definition replay_error_detail :: "store_error \<Rightarrow> string" where
  "replay_error_detail e =
     (case e of Io _ d \<Rightarrow> d | StoreNotFound _ \<Rightarrow> ''not_found'' | Corrupt _ d \<Rightarrow> d
      | UnsupportedSchemaVersion _ _ \<Rightarrow> ''unsupported_schema_version'')"

definition replay_read :: "(store_error, envelope) result \<Rightarrow> subscriber \<Rightarrow> subscriber" where
  "replay_read r sb =
     (if sb_dropped sb then replay_end sb
      else
        (case r of
           Inl e \<Rightarrow>
             replay_end (sink_deliver (SkGap (sb_through sb)
               (''replay from storage failed: '' @ replay_error_detail e)) sb)
         | Inr e \<Rightarrow>
             if env_seq e \<noteq> Suc (sb_through sb)
             then replay_end (sink_deliver (SkGap (sb_through sb)
                    ''the recorded history has a gap before this point'') sb)
             else (sink_deliver (SkEnvelope e) sb)\<lparr>sb_through := env_seq e\<rparr>))"

text \<open>The subscription's own \<open>close\<close>, and the close a reassignment of the session makes.\<close>

definition unsubscribe :: "subscriber \<Rightarrow> subscriber" where
  "unsubscribe sb = sb\<lparr>sb_registered := False\<rparr>"

definition reassigned_away :: "subscriber \<Rightarrow> subscriber" where
  "reassigned_away sb = (sink_close (sb\<lparr>sb_owner_same := False\<rparr>))\<lparr>sb_registered := False\<rparr>"

section \<open>What a sink can tell\<close>

text \<open>
  Reading along: the number the sink is complete through, whether a gap was reported since, and
  whether every step so far was one it could tell: the next number, or a jump after a gap that
  restated the number.
\<close>

fun read_along :: "sink_event \<Rightarrow> nat \<times> bool \<times> bool \<Rightarrow> nat \<times> bool \<times> bool" where
  "read_along (SkEnvelope e) (w, gap, fine) =
     (env_seq e, False, fine \<and> (env_seq e = Suc w \<or> gap \<and> w < env_seq e))"
| "read_along (SkGap t _) (w, gap, fine) = (w, True, fine \<and> t = w)"
| "read_along (SkFrame _) acc = acc"
| "read_along SkClosed acc = acc"

definition read_sink :: "nat \<Rightarrow> sink_event list \<Rightarrow> nat \<times> bool \<times> bool" where
  "read_sink start out = fold read_along out (start, False, True)"

lemma read_sink_Nil [simp]: "read_sink w [] = (w, False, True)"
  by (simp add: read_sink_def)

lemma read_sink_snoc [simp]: "read_sink w (out @ [x]) = read_along x (read_sink w out)"
  by (simp add: read_sink_def)

lemma read_sink_two [simp]: "read_sink w (out @ [x, y]) = read_along y (read_along x (read_sink w out))"
  by (simp add: read_sink_def)

section \<open>Every interleaving\<close>

text \<open>
  \<open>sub_reach n es high_water ring after live sb\<close>: from a session whose envelopes since its start
  at \<open>n\<close> are \<open>es\<close>, a subscriber that resumed at \<open>after\<close> can be in state \<open>sb\<close> when the session has
  emitted up to \<open>live\<close>. Live envelopes come in the order of their numbers; the spill holds
  envelopes that were emitted, and, since the write queue was awaited, at least those before the
  registration, unless reading it fails.
\<close>

inductive sub_reach :: "nat \<Rightarrow> envelope list \<Rightarrow> nat \<Rightarrow> nat \<Rightarrow> nat \<Rightarrow> nat \<Rightarrow> subscriber \<Rightarrow> bool"
  for n es high_water capacity after where
  Start: "contiguous_from n es \<Longrightarrow> last_seq = n + length es \<Longrightarrow>
     sub_reach n es high_water capacity after last_seq
       (subscribe_start last_seq (foldl (mem_push_ring capacity) [] es) after)"
| Live: "sub_reach n es high_water capacity after live sb \<Longrightarrow> env_seq e = Suc live \<Longrightarrow>
     sub_reach n es high_water capacity after (Suc live) (fan_out high_water e sb)"
| Delta: "sub_reach n es high_water capacity after live sb \<Longrightarrow>
     sub_reach n es high_water capacity after live (fan_out_frame f sb)"
| Read: "sub_reach n es high_water capacity after live sb \<Longrightarrow> sb_reading sb \<Longrightarrow>
     (\<And>e. r = Inr e \<Longrightarrow> env_seq e \<le> live) \<Longrightarrow>
     sub_reach n es high_water capacity after live (replay_read r sb)"
| ReadEnd: "sub_reach n es high_water capacity after live sb \<Longrightarrow> sb_reading sb \<Longrightarrow>
     n + length es \<le> sb_through sb \<Longrightarrow> sub_reach n es high_water capacity after live (replay_end sb)"
| Unsubscribe: "sub_reach n es high_water capacity after live sb \<Longrightarrow> \<not> sb_reading sb \<Longrightarrow>
     sub_reach n es high_water capacity after live (unsubscribe sb)"
| Reassigned: "sub_reach n es high_water capacity after live sb \<Longrightarrow>
     sub_reach n es high_water capacity after live (reassigned_away sb)"

text \<open>
  The invariant. A sink that is still listening has read along without a silent jump; while the
  spill is read, it is complete through what was read and the buffer holds exactly what was
  emitted since the registration; once it passes through, it is complete up to now or was told
  of a gap.
\<close>

definition listening :: "subscriber \<Rightarrow> bool" where
  "listening sb = (sb_active sb \<and> sb_owner_same sb)"

definition catching_up :: "nat \<Rightarrow> nat \<Rightarrow> nat \<Rightarrow> subscriber \<Rightarrow> bool" where
  "catching_up start from live sb =
     (sb_mode sb = Buffering \<and> sb_registered sb \<and> read_sink start (sb_out sb) = (sb_through sb, False, True)
      \<and> map env_seq (sb_buffered sb) = [Suc from ..< Suc live] \<and> sb_through sb \<le> live)"

definition caught_up :: "nat \<Rightarrow> nat \<Rightarrow> subscriber \<Rightarrow> bool" where
  "caught_up start live sb =
     (sb_mode sb = Passing
      \<and> (\<exists>w gap. read_sink start (sb_out sb) = (w, gap, True) \<and> w \<le> live \<and> (gap \<or> w = live)))"

definition sub_inv :: "nat \<Rightarrow> nat \<Rightarrow> nat \<Rightarrow> nat \<Rightarrow> subscriber \<Rightarrow> bool" where
  "sub_inv start from high_water live sb =
     (snd (snd (read_sink start (sb_out sb)))
      \<and> length (sb_buffered sb) \<le> high_water \<and> from \<le> live
      \<and> (sb_dropped sb \<longrightarrow> \<not> sb_active sb \<and> \<not> sb_registered sb)
      \<and> (sb_reading sb \<and> \<not> sb_dropped sb \<and> listening sb \<longrightarrow> catching_up start from live sb)
      \<and> (\<not> sb_reading sb \<and> \<not> sb_dropped sb \<and> listening sb \<and> sb_registered sb \<longrightarrow> caught_up start live sb))"

text \<open>A sink that no longer listens only has to keep what it read.\<close>

lemma sub_inv_deaf:
  assumes "\<not> listening sb" and "snd (snd (read_sink start (sb_out sb)))" and "from \<le> live"
    and "length (sb_buffered sb) \<le> high_water" and "sb_dropped sb \<longrightarrow> \<not> sb_active sb \<and> \<not> sb_registered sb"
  shows "sub_inv start from high_water live sb"
  using assms by (simp add: sub_inv_def)

lemma sub_inv_parts:
  assumes "sub_inv start from high_water live sb"
  shows "snd (snd (read_sink start (sb_out sb)))" and "from \<le> live" and "length (sb_buffered sb) \<le> high_water"
    and "sb_dropped sb \<longrightarrow> \<not> sb_active sb \<and> \<not> sb_registered sb"
  using assms by (simp_all add: sub_inv_def)

lemma sub_inv_reading:
  "sub_inv start from high_water live sb \<Longrightarrow> sb_reading sb \<Longrightarrow> \<not> sb_dropped sb \<Longrightarrow> listening sb \<Longrightarrow>
     catching_up start from live sb"
  by (simp add: sub_inv_def)

lemma sub_inv_passing:
  "sub_inv start from high_water live sb \<Longrightarrow> \<not> sb_reading sb \<Longrightarrow> \<not> sb_dropped sb \<Longrightarrow> listening sb \<Longrightarrow>
     sb_registered sb \<Longrightarrow> caught_up start live sb"
  by (simp add: sub_inv_def)

text \<open>To establish it for a listening sink, one of the two phases is enough.\<close>

lemma sub_inv_catching:
  "catching_up start from live sb \<Longrightarrow> from \<le> live \<Longrightarrow> length (sb_buffered sb) \<le> high_water \<Longrightarrow>
     sb_reading sb \<Longrightarrow> \<not> sb_dropped sb \<Longrightarrow> sub_inv start from high_water live sb"
  by (simp add: sub_inv_def catching_up_def)

lemma sub_inv_caught:
  "caught_up start live sb \<Longrightarrow> from \<le> live \<Longrightarrow> length (sb_buffered sb) \<le> high_water \<Longrightarrow>
     \<not> sb_reading sb \<Longrightarrow> \<not> sb_dropped sb \<Longrightarrow> sub_inv start from high_water live sb"
  by (auto simp: sub_inv_def caught_up_def)

lemma sub_inv_apart:
  "snd (snd (read_sink start (sb_out sb))) \<Longrightarrow> from \<le> live \<Longrightarrow> length (sb_buffered sb) \<le> high_water \<Longrightarrow>
     \<not> sb_reading sb \<Longrightarrow> \<not> sb_registered sb \<Longrightarrow> sb_dropped sb \<longrightarrow> \<not> sb_active sb \<Longrightarrow>
     sub_inv start from high_water live sb"
  by (simp add: sub_inv_def)

lemma read_sink_silent [simp]: "read_sink w (out @ [SkClosed]) = read_sink w out"
  "read_sink w (out @ [SkFrame f]) = read_sink w out"
  by (cases "read_sink w out"; simp)+

lemma flush_through:
  "sb_through (fold flush_one es sb) = fold (\<lambda>e t. max t (env_seq e)) es (sb_through sb)"
  "sb_active (fold flush_one es sb) = sb_active sb" "sb_owner_same (fold flush_one es sb) = sb_owner_same sb"
  "sb_registered (fold flush_one es sb) = sb_registered sb" "sb_reading (fold flush_one es sb) = sb_reading sb"
  "sb_mode (fold flush_one es sb) = sb_mode sb" "sb_dropped (fold flush_one es sb) = sb_dropped sb"
  by (induction es arbitrary: sb) (auto simp: flush_one_def sink_deliver_def max_def)

lemma flush_deaf: "\<not> listening sb \<Longrightarrow> sb_out (fold flush_one es sb) = sb_out sb"
  by (induction es arbitrary: sb) (auto simp: flush_one_def sink_deliver_def listening_def)

text \<open>Flushing consecutive envelopes from at most one beyond what the sink has.\<close>

lemma flush_reads:
  assumes "listening sb" and "map env_seq es = [Suc a ..< Suc b]" and "a \<le> b"
    and "read_sink start (sb_out sb) = (sb_through sb, gap, True)" and "gap \<or> a \<le> sb_through sb"
    and "sb_through sb \<le> b"
  shows "\<exists>gap'. read_sink start (sb_out (fold flush_one es sb)) = (sb_through (fold flush_one es sb), gap', True)
     \<and> sb_through (fold flush_one es sb) \<le> b \<and> (gap' \<or> sb_through (fold flush_one es sb) = b)"
  using assms
proof (induction es arbitrary: sb a gap)
  case Nil
  then have "a = b" by (auto split: if_splits)
  with Nil show ?case by auto
next
  case (Cons e es)
  from Cons.prems(2,3) have ab: "a < b" by (cases "a = b") auto
  then have e: "env_seq e = Suc a" and es: "map env_seq es = [Suc (Suc a) ..< Suc b]"
    using Cons.prems(2) by (simp_all add: upt_conv_Cons del: upt_Suc)
  show ?case
  proof (cases "sb_through sb < env_seq e")
    case True
    let ?sb = "flush_one e sb"
    have "listening ?sb" "sb_through ?sb = Suc a" "read_sink start (sb_out ?sb) = (Suc a, False, True)"
      using True Cons.prems(1,4,5) e by (auto simp: flush_one_def sink_deliver_def listening_def)
    with Cons.IH [of ?sb "Suc a" False] es ab show ?thesis by simp
  next
    case False
    then have "flush_one e sb = sb" "Suc a \<le> sb_through sb" using e by (simp_all add: flush_one_def)
    with Cons.IH [of sb "Suc a" gap] es ab Cons.prems show ?thesis by simp
  qed
qed

lemma replay_end_inv:
  assumes fine: "snd (snd (read_sink start (sb_out sb)))" and le: "from \<le> live"
    and dropped: "sb_dropped sb \<longrightarrow> \<not> sb_active sb \<and> \<not> sb_registered sb" and len: "length (sb_buffered sb) \<le> high_water"
    and up: "\<not> sb_dropped sb \<Longrightarrow> listening sb \<Longrightarrow>
       read_sink start (sb_out sb) = (sb_through sb, gap, True) \<and> (gap \<or> from \<le> sb_through sb)
       \<and> map env_seq (sb_buffered sb) = [Suc from ..< Suc live] \<and> sb_through sb \<le> live"
  shows "sub_inv start from high_water live (replay_end sb)"
proof -
  let ?sb = "sb\<lparr>sb_reading := False, sb_mode := Passing\<rparr>"
  consider "sb_dropped sb" | "\<not> sb_dropped sb" "\<not> listening sb" | "\<not> sb_dropped sb" "listening sb" by blast
  then show ?thesis
  proof cases
    case 1
    with fine le dropped len show ?thesis
      by (intro sub_inv_deaf) (simp_all add: replay_end_def listening_def)
  next
    case 2
    then have "\<not> listening ?sb" by (simp add: listening_def)
    from 2 fine le flush_deaf [OF this, of "sb_buffered sb"] show ?thesis
      by (intro sub_inv_deaf) (simp_all add: replay_end_def listening_def flush_through)
  next
    case 3
    then have l: "listening ?sb" by (simp add: listening_def)
    note h = up [OF 3]
    obtain gap' where "read_sink start (sb_out (fold flush_one (sb_buffered sb) ?sb))
          = (sb_through (fold flush_one (sb_buffered sb) ?sb), gap', True)"
      "sb_through (fold flush_one (sb_buffered sb) ?sb) \<le> live"
      "gap' \<or> sb_through (fold flush_one (sb_buffered sb) ?sb) = live"
      using flush_reads [OF l, of "sb_buffered sb" "from" live start gap] h le by auto
    then have "caught_up start live (replay_end sb)"
      using 3 by (auto simp: caught_up_def replay_end_def flush_through)
    with 3 le show ?thesis
      by (intro sub_inv_caught) (simp_all add: replay_end_def flush_through)
  qed
qed

lemma sub_inv_start:
  assumes c: "contiguous_from n es" and last: "last_seq = n + length es"
  shows "sub_inv (min after last_seq) last_seq high_water last_seq
     (subscribe_start last_seq (foldl (mem_push_ring capacity) [] es) after)"
proof (cases "last_seq < after")
  case True
  then show ?thesis
    by (auto simp: subscribe_start_def sub_inv_def caught_up_def sink_deliver_def new_subscriber_def listening_def
        read_sink_def)
next
  case le: False
  show ?thesis
  proof (cases "read_ring_after (foldl (mem_push_ring capacity) [] es) after")
    case None
    with le show ?thesis
      by (simp add: subscribe_start_def sub_inv_def catching_up_def new_subscriber_def listening_def)
  next
    case (Some out)
    have deliver: "listening sb \<Longrightarrow> fold (\<lambda>e. sink_deliver (SkEnvelope e)) xs sb = sb\<lparr>sb_out := sb_out sb @ map SkEnvelope xs\<rparr>"
      for xs sb
    proof (induction xs arbitrary: sb)
      case (Cons x xs)
      then have "listening (sb\<lparr>sb_out := sb_out sb @ [SkEnvelope x]\<rparr>)" by (simp add: listening_def)
      with Cons show ?case by (simp add: sink_deliver_def listening_def)
    qed simp
    obtain k where k: "k \<le> length es" "foldl (mem_push_ring capacity) [] es = drop k es"
      using mem_ring.ring_of_history by blast
    with Some have "k < length es" by (cases "k = length es") (auto simp: read_ring_after_def)
    with Some k contiguous_from_nth [OF c, of k] have n: "n \<le> after"
      by (auto simp: read_ring_after_def Cons_nth_drop_Suc [symmetric] split: if_splits)
    have out: "out = drop (after - n) es"
      using mem_ring.ring_serves_history [OF c Some n] filter_after_contiguous [OF c] by simp
    have cont: "contiguous_from a xs \<Longrightarrow>
        read_sink a (map SkEnvelope xs) = (a + length xs, False, True)" for a xs
    proof (induction xs rule: rev_induct)
      case (snoc x xs)
      then show ?case by (cases "read_sink a (map SkEnvelope xs)") auto
    qed simp
    have "contiguous_from after out"
      using contiguous_from_drop [OF c, of "after - n"] n le last out by simp
    moreover have "after + length out = last_seq" using n le last out by simp
    ultimately have "read_sink after (map SkEnvelope out) = (last_seq, False, True)" using cont by metis
    moreover have "subscribe_start last_seq (foldl (mem_push_ring capacity) [] es) after =
        (new_subscriber after)\<lparr>sb_out := map SkEnvelope out\<rparr>"
      using le Some deliver [of "new_subscriber after" out]
      by (simp add: subscribe_start_def new_subscriber_def listening_def)
    ultimately show ?thesis
      using le by (auto simp: sub_inv_def caught_up_def new_subscriber_def listening_def min_def)
  qed
qed

lemma sub_inv_live:
  assumes inv: "sub_inv start from high_water live sb" and e: "env_seq e = Suc live"
  shows "sub_inv start from high_water (Suc live) (fan_out high_water e sb)"
proof -
  note parts = sub_inv_parts [OF inv]
  consider "\<not> listening sb" | "listening sb" "\<not> sb_registered sb \<or> sb_dropped sb"
    | "listening sb" "sb_registered sb" "\<not> sb_dropped sb" "sb_reading sb"
    | "listening sb" "sb_registered sb" "\<not> sb_dropped sb" "\<not> sb_reading sb"
    by blast
  then show ?thesis
  proof cases
    case 1
    with parts show ?thesis
      by (intro sub_inv_deaf) (auto simp: fan_out_def sink_deliver_def sink_close_def listening_def)
  next
    case 2
    then have f: "fan_out high_water e sb = sb" by (auto simp: fan_out_def)
    from 2 parts have nd: "\<not> sb_dropped sb" by (auto simp: listening_def)
    with 2 sub_inv_reading [OF inv] have "\<not> sb_reading sb" by (auto simp: catching_up_def)
    with 2 nd parts f show ?thesis by (intro sub_inv_apart) simp_all
  next
    case 3
    then have h: "catching_up start from live sb" using sub_inv_reading [OF inv] by blast
    show ?thesis
    proof (cases "high_water \<le> length (sb_buffered sb)")
      case True
      with 3 h parts show ?thesis
        by (intro sub_inv_deaf)
          (simp_all add: fan_out_def sink_deliver_def sink_close_def listening_def catching_up_def)
    next
      case False
      have "[Suc from ..< Suc live] @ [Suc live] = [Suc from ..< Suc (Suc live)]"
        using parts(2) by (simp add: upt_Suc_append)
      with h e have "catching_up start from (Suc live) (sb\<lparr>sb_buffered := sb_buffered sb @ [e]\<rparr>)"
        by (simp add: catching_up_def del: upt_Suc)
      moreover have "fan_out high_water e sb = sb\<lparr>sb_buffered := sb_buffered sb @ [e]\<rparr>"
        using False 3 h by (simp add: fan_out_def catching_up_def)
      ultimately show ?thesis
        using False 3 parts by (intro sub_inv_catching) simp_all
    qed
  next
    case 4
    then obtain w gap where h: "sb_mode sb = Passing" "read_sink start (sb_out sb) = (w, gap, True)"
      "w \<le> live" "gap \<or> w = live"
      using sub_inv_passing [OF inv] by (auto simp: caught_up_def)
    have f: "fan_out high_water e sb = sb\<lparr>sb_out := sb_out sb @ [SkEnvelope e]\<rparr>"
      using 4 h(1) by (simp add: fan_out_def sink_deliver_def listening_def)
    from h e have "caught_up start (Suc live) (fan_out high_water e sb)"
      by (auto simp: f caught_up_def)
    with 4 parts f show ?thesis by (intro sub_inv_caught) simp_all
  qed
qed

lemma sub_inv_delta:
  assumes inv: "sub_inv start from high_water live sb"
  shows "sub_inv start from high_water live (fan_out_frame f sb)"
proof -
  have "sb_out (fan_out_frame f sb) = sb_out sb \<or> sb_out (fan_out_frame f sb) = sb_out sb @ [SkFrame f]"
    by (auto simp: fan_out_frame_def sink_deliver_def)
  then have o: "read_sink start (sb_out (fan_out_frame f sb)) = read_sink start (sb_out sb)" by auto
  have same: "sb_active (fan_out_frame f sb) = sb_active sb" "sb_owner_same (fan_out_frame f sb) = sb_owner_same sb"
    "sb_registered (fan_out_frame f sb) = sb_registered sb" "sb_reading (fan_out_frame f sb) = sb_reading sb"
    "sb_mode (fan_out_frame f sb) = sb_mode sb" "sb_dropped (fan_out_frame f sb) = sb_dropped sb"
    "sb_through (fan_out_frame f sb) = sb_through sb" "sb_buffered (fan_out_frame f sb) = sb_buffered sb"
    by (simp_all add: fan_out_frame_def sink_deliver_def)
  show ?thesis
    using inv unfolding sub_inv_def catching_up_def caught_up_def listening_def o same .
qed

lemma sub_inv_read:
  assumes inv: "sub_inv start from high_water live sb" and reading: "sb_reading sb"
    and emitted: "\<And>e. r = Inr e \<Longrightarrow> env_seq e \<le> live"
  shows "sub_inv start from high_water live (replay_read r sb)"
proof -
  note parts = sub_inv_parts [OF inv]
  have gapped: "sub_inv start from high_water live (replay_end (sink_deliver (SkGap (sb_through sb) m) sb))"
    if nd: "\<not> sb_dropped sb" for m
  proof (cases "listening sb")
    case True
    then have d: "sink_deliver (SkGap (sb_through sb) m) sb = sb\<lparr>sb_out := sb_out sb @ [SkGap (sb_through sb) m]\<rparr>"
      by (simp add: sink_deliver_def listening_def)
    show ?thesis
      unfolding d using parts sub_inv_reading [OF inv reading nd True] nd
      by (intro replay_end_inv [where gap = True]) (simp_all add: catching_up_def del: upt_Suc)
  next
    case False
    then have "sink_deliver (SkGap (sb_through sb) m) sb = sb"
      by (auto simp: sink_deliver_def listening_def)
    with parts False nd show ?thesis by (auto intro: replay_end_inv)
  qed
  consider "sb_dropped sb" | "\<not> sb_dropped sb" "\<And>e. r = Inr e \<Longrightarrow> env_seq e \<noteq> Suc (sb_through sb)"
    | e where "\<not> sb_dropped sb" "r = Inr e" "env_seq e = Suc (sb_through sb)" by blast
  then show ?thesis
  proof cases
    case 1
    with parts show ?thesis
      by (intro sub_inv_deaf) (simp_all add: replay_read_def replay_end_def listening_def)
  next
    case 2
    with gapped show ?thesis by (simp add: replay_read_def split: sum.split)
  next
    case 3
    then have rr: "replay_read r sb = (sink_deliver (SkEnvelope e) sb)\<lparr>sb_through := env_seq e\<rparr>"
      by (simp add: replay_read_def)
    show ?thesis
    proof (cases "listening sb")
      case True
      have "catching_up start from live (replay_read r sb)"
        using sub_inv_reading [OF inv reading 3(1) True] True 3 emitted [OF 3(2)]
        unfolding rr by (simp add: catching_up_def sink_deliver_def listening_def del: upt_Suc)
      with parts reading 3 show ?thesis
        unfolding rr by (intro sub_inv_catching) (simp_all add: sink_deliver_def)
    next
      case False
      then have "sink_deliver (SkEnvelope e) sb = sb" by (auto simp: sink_deliver_def listening_def)
      with False parts show ?thesis
        unfolding rr by (intro sub_inv_deaf) (simp_all add: listening_def)
    qed
  qed
qed

lemma sub_reach_inv:
  "sub_reach n es high_water capacity after live sb \<Longrightarrow>
   sub_inv (min after (n + length es)) (n + length es) high_water live sb"
proof (induction rule: sub_reach.induct)
  case (Start last_seq)
  then show ?case using sub_inv_start [of n es last_seq] by simp
next
  case (Live live sb e)
  then show ?case by (intro sub_inv_live) simp_all
next
  case (Delta live sb f)
  then show ?case by (intro sub_inv_delta)
next
  case (Read live sb r)
  then show ?case by (intro sub_inv_read) simp_all
next
  case (ReadEnd live sb)
  note parts = sub_inv_parts [OF ReadEnd.IH]
  show ?case
    using parts sub_inv_reading [OF ReadEnd.IH ReadEnd.hyps(2)] ReadEnd.hyps(3)
    by (intro replay_end_inv [where gap = False]) (auto simp: catching_up_def simp del: upt_Suc)
next
  case (Unsubscribe live sb)
  note parts = sub_inv_parts [OF Unsubscribe.IH]
  then show ?case
    using Unsubscribe.hyps(2) by (intro sub_inv_apart) (auto simp: unsubscribe_def)
next
  case (Reassigned live sb)
  note parts = sub_inv_parts [OF Reassigned.IH]
  then show ?case
    by (intro sub_inv_deaf) (auto simp: reassigned_away_def sink_close_def listening_def)
qed

section \<open>Properties\<close>



text \<open>A replay from the spill with an envelope arriving meanwhile.\<close>

definition replayed_subscriber :: subscriber where
  "replayed_subscriber =
     replay_end (replay_read (Inr (example_envelope 2))
       (fan_out 2 (example_envelope 3)
         (replay_read (Inr (example_envelope 1))
           (subscribe_start 2 (foldl (mem_push_ring 1) [] (map example_envelope [1, 2])) 0))))"

lemma replayed_reach: "sub_reach 0 (map example_envelope [1, 2]) 2 1 0 3 replayed_subscriber"
proof -
  let ?es = "map example_envelope [1, 2]"
  let ?s0 = "subscribe_start 2 (foldl (mem_push_ring 1) [] ?es) 0"
  have c: "contiguous_from 0 ?es" by (auto simp: contiguous_from_tl example_envelope_def)
  have "sub_reach 0 ?es 2 1 0 2 ?s0" by (rule sub_reach.Start [OF c]) simp
  then have "sub_reach 0 ?es 2 1 0 2 (replay_read (Inr (example_envelope 1)) ?s0)"
    by (rule sub_reach.Read) (code_simp, simp add: example_envelope_def)
  then have "sub_reach 0 ?es 2 1 0 (Suc 2) (fan_out 2 (example_envelope 3) (replay_read (Inr (example_envelope 1)) ?s0))"
    by (rule sub_reach.Live) (simp add: example_envelope_def)
  then have "sub_reach 0 ?es 2 1 0 (Suc 2)
      (replay_read (Inr (example_envelope 2)) (fan_out 2 (example_envelope 3) (replay_read (Inr (example_envelope 1)) ?s0)))"
    by (rule sub_reach.Read) (code_simp, simp add: example_envelope_def)
  then have "sub_reach 0 ?es 2 1 0 (Suc 2) replayed_subscriber"
    unfolding replayed_subscriber_def by (rule sub_reach.ReadEnd) code_simp+
  then show ?thesis by simp
qed



end
