(* ===== verification/Records.thy ===== *)
theory Records
  imports Append_Log Standing_Rules
begin

text \<open>
  \<open>src/records/index.ts\<close>: requisitions and reviews. Every change is appended to a log and only
  then made in memory; between the two, other calls run. A call is cut at its append: what runs
  before it is one operation, and \<open>settle\<close> is the end of one append that is in flight, in
  whatever order they end. Identifiers and times are drawn by the caller.
\<close>

section \<open>Records\<close>

datatype requisition_state = RqOpen | RqApproved | RqRejected | RqConsumed

datatype requisition_decision = Approve | Reject

record requisition =
  rq_id :: string
  rq_raised_by :: principal_id
  rq_title :: string
  rq_justification :: string
  rq_workspace :: string
  rq_vendor :: provider_id
  rq_state :: requisition_state
  rq_decided_by :: "principal_id option"
  rq_decided_at :: "iso_timestamp option"
  rq_session :: "session_id option"
  rq_raised_at :: iso_timestamp

datatype review_state = Draft | Final

datatype rating = DoesNotMeet | MeetsSome | Meets | Exceeds | Exceptional

record session_snapshot =
  sn_session :: session_id
  sn_owner :: principal_id
  sn_vendor :: provider_id
  sn_cwd :: resolved_path
  sn_created_at :: iso_timestamp

record review =
  rv_id :: string
  rv_subject :: session_id
  rv_snapshot :: session_snapshot
  rv_author :: principal_id
  rv_state :: review_state
  rv_rating :: "rating option"
  rv_pip :: bool
  rv_body :: string
  rv_created_at :: iso_timestamp
  rv_updated_at :: iso_timestamp

text \<open>The inputs. A patch's absent fields are \<open>None\<close>; a rating may be set to null.\<close>

record requisition_input =
  ri_title :: string
  ri_justification :: string
  ri_workspace :: string
  ri_vendor :: provider_id

record review_input =
  vi_subject :: session_id
  vi_rating :: "rating option"
  vi_pip :: bool
  vi_body :: string

record review_patch =
  vp_rating :: "rating option option"
  vp_pip :: "bool option"
  vp_body :: "string option"

datatype records_error =
    NoSuchRequisition string
  | AlreadyDecided string "principal_id option" requisition_state
  | RequisitionNotApproved string requisition_state
  | RequisitionConsumed string "session_id option"
  | NoSuchReview string
  | ReviewFinal string
  | RecordsBadRequest string string
  | RecordsStorage store_error

text \<open>An append in flight, with what is made of it when it ends.\<close>

datatype requisition_flight = FlRaise | FlDecide | FlAttach

datatype review_flight = FlCreate | FlEdit | FlFinalise

datatype flight = FlRequisition requisition_flight requisition | FlReview review_flight review

record records_state =
  rd_requisitions :: "(string, requisition) jmap"
  rd_reviews :: "(string, review) jmap"
  rd_mutating :: "string list"
  rd_reserved :: "string list"
  rd_deciding :: "(string, principal_id \<times> requisition_state) jmap"
  rd_flights :: "flight list"
  rd_requisition_log :: "requisition list"
  rd_review_log :: "review list"

type_synonym 'a records_result = "records_state \<times> (records_error, 'a) result"

definition launch :: "flight \<Rightarrow> records_state \<Rightarrow> unit records_result" where
  "launch f s = (s\<lparr>rd_flights := rd_flights s @ [f]\<rparr>, Inr ())"

definition refuse :: "records_error \<Rightarrow> records_state \<Rightarrow> 'a records_result" where
  "refuse e s = (s, Inl e)"

section \<open>Requisitions\<close>

definition too_long :: "string \<Rightarrow> nat \<Rightarrow> records_error" where
  "too_long field limit = RecordsBadRequest field (field @ '' exceeds '' @ decimal_nat limit @ '' bytes'')"

definition raise_requisition ::
  "nat \<Rightarrow> iso_timestamp \<Rightarrow> string \<Rightarrow> principal_id \<Rightarrow> requisition_input \<Rightarrow> records_state \<Rightarrow> unit records_result" where
  "raise_requisition text_bytes now i raised_by input s =
     (if text_bytes < utf8_byte_length (ri_title input) then refuse (too_long ''title'' text_bytes) s
      else if text_bytes < utf8_byte_length (ri_justification input)
      then refuse (too_long ''justification'' text_bytes) s
      else launch (FlRequisition FlRaise
             \<lparr>rq_id = i, rq_raised_by = raised_by, rq_title = ri_title input,
              rq_justification = ri_justification input, rq_workspace = ri_workspace input,
              rq_vendor = ri_vendor input, rq_state = RqOpen, rq_decided_by = None, rq_decided_at = None,
              rq_session = None, rq_raised_at = now\<rparr>) s)"

definition get_requisition :: "string \<Rightarrow> records_state \<Rightarrow> (records_error, requisition) result" where
  "get_requisition i s =
     (case jget (rd_requisitions s) i of None \<Rightarrow> Inl (NoSuchRequisition i) | Some r \<Rightarrow> Inr r)"

definition list_requisitions :: "records_state \<Rightarrow> requisition list" where
  "list_requisitions s = jvals (rd_requisitions s)"

definition decided_state :: "requisition_decision \<Rightarrow> requisition_state" where
  "decided_state d = (if d = Approve then RqApproved else RqRejected)"

definition decide_requisition ::
  "iso_timestamp \<Rightarrow> string \<Rightarrow> principal_id \<Rightarrow> requisition_decision \<Rightarrow> records_state \<Rightarrow> unit records_result" where
  "decide_requisition now i by d s =
     (case jget (rd_requisitions s) i of
        None \<Rightarrow> refuse (NoSuchRequisition i) s
      | Some r \<Rightarrow>
          if rq_state r \<noteq> RqOpen then refuse (AlreadyDecided i (rq_decided_by r) (rq_state r)) s
          else
            (case jget (rd_deciding s) i of
               Some (who, st) \<Rightarrow> refuse (AlreadyDecided i (Some who) st) s
             | None \<Rightarrow>
                 launch (FlRequisition FlDecide
                     (r\<lparr>rq_state := decided_state d, rq_decided_by := Some by, rq_decided_at := Some now\<rparr>))
                   (s\<lparr>rd_deciding := jset (rd_deciding s) i (by, decided_state d)\<rparr>)))"

definition claim_requisition :: "string \<Rightarrow> records_state \<Rightarrow> unit records_result" where
  "claim_requisition i s =
     (case jget (rd_requisitions s) i of
        None \<Rightarrow> refuse (NoSuchRequisition i) s
      | Some r \<Rightarrow>
          if rq_state r = RqConsumed then refuse (RequisitionConsumed i (rq_session r)) s
          else if rq_state r \<noteq> RqApproved then refuse (RequisitionNotApproved i (rq_state r)) s
          else if i \<in> set (rd_reserved s) then refuse (RequisitionConsumed i None) s
          else (s\<lparr>rd_reserved := i # rd_reserved s\<rparr>, Inr ()))"

definition attach_session :: "string \<Rightarrow> session_id \<Rightarrow> records_state \<Rightarrow> unit records_result" where
  "attach_session i session s =
     (case jget (rd_requisitions s) i of
        None \<Rightarrow> refuse (NoSuchRequisition i) s
      | Some r \<Rightarrow> launch (FlRequisition FlAttach (r\<lparr>rq_state := RqConsumed, rq_session := Some session\<rparr>)) s)"

definition release_requisition :: "string \<Rightarrow> records_state \<Rightarrow> unit records_result" where
  "release_requisition i s = (s\<lparr>rd_reserved := removeAll i (rd_reserved s)\<rparr>, Inr ())"

section \<open>Reviews\<close>

definition create_review ::
  "nat \<Rightarrow> iso_timestamp \<Rightarrow> string \<Rightarrow> principal_id \<Rightarrow> session_snapshot \<Rightarrow> review_input \<Rightarrow> records_state
   \<Rightarrow> unit records_result" where
  "create_review body_bytes now i author snap input s =
     (if vi_subject input \<noteq> sn_session snap
      then refuse (RecordsBadRequest ''subject'' ''subject does not match the resolved session'') s
      else if body_bytes < utf8_byte_length (vi_body input) then refuse (too_long ''body'' body_bytes) s
      else launch (FlReview FlCreate
             \<lparr>rv_id = i, rv_subject = vi_subject input, rv_snapshot = snap, rv_author = author,
              rv_state = Draft, rv_rating = vi_rating input, rv_pip = vi_pip input, rv_body = vi_body input,
              rv_created_at = now, rv_updated_at = now\<rparr>) s)"

definition or_else :: "'a option \<Rightarrow> 'a \<Rightarrow> 'a" where
  "or_else x y = (case x of Some v \<Rightarrow> v | None \<Rightarrow> y)"

definition append_review ::
  "nat \<Rightarrow> iso_timestamp \<Rightarrow> string \<Rightarrow> principal_id \<Rightarrow> review_patch \<Rightarrow> records_state \<Rightarrow> unit records_result" where
  "append_review body_bytes now i author patch s =
     (case jget (rd_reviews s) i of
        None \<Rightarrow> refuse (NoSuchReview i) s
      | Some r \<Rightarrow>
          if rv_state r = Final then refuse (ReviewFinal i) s
          else if rv_author r \<noteq> author then refuse (NoSuchReview i) s
          else if (case vp_body patch of None \<Rightarrow> False | Some b \<Rightarrow> body_bytes < utf8_byte_length b)
          then refuse (too_long ''body'' body_bytes) s
          else if i \<in> set (rd_mutating s) then refuse (ReviewFinal i) s
          else launch (FlReview FlEdit
                 (r\<lparr>rv_rating := or_else (vp_rating patch) (rv_rating r),
                    rv_pip := or_else (vp_pip patch) (rv_pip r),
                    rv_body := or_else (vp_body patch) (rv_body r), rv_updated_at := now\<rparr>))
                 (s\<lparr>rd_mutating := i # rd_mutating s\<rparr>))"

definition finalise_review ::
  "iso_timestamp \<Rightarrow> string \<Rightarrow> principal_id \<Rightarrow> records_state \<Rightarrow> unit records_result" where
  "finalise_review now i author s =
     (case jget (rd_reviews s) i of
        None \<Rightarrow> refuse (NoSuchReview i) s
      | Some r \<Rightarrow>
          if rv_state r = Final then refuse (ReviewFinal i) s
          else if rv_author r \<noteq> author then refuse (NoSuchReview i) s
          else if i \<in> set (rd_mutating s) then refuse (ReviewFinal i) s
          else launch (FlReview FlFinalise (r\<lparr>rv_state := Final, rv_updated_at := now\<rparr>))
                 (s\<lparr>rd_mutating := i # rd_mutating s\<rparr>))"

definition get_review :: "string \<Rightarrow> principal_id \<Rightarrow> records_state \<Rightarrow> (records_error, review) result" where
  "get_review i reader s =
     (case jget (rd_reviews s) i of
        None \<Rightarrow> Inl (NoSuchReview i)
      | Some r \<Rightarrow> if rv_state r = Draft \<and> rv_author r \<noteq> reader then Inl (NoSuchReview i) else Inr r)"

definition list_reviews :: "session_id \<Rightarrow> records_state \<Rightarrow> review list" where
  "list_reviews subject s =
     filter (\<lambda>r. rv_state r = Final \<and> rv_subject r = subject) (jvals (rd_reviews s))"

definition better_review :: "session_id \<Rightarrow> review \<Rightarrow> review option \<Rightarrow> review option" where
  "better_review subject r best =
     (if rv_state r \<noteq> Final \<or> rv_subject r \<noteq> subject then best
      else (case best of None \<Rightarrow> Some r | Some b \<Rightarrow> if rv_updated_at b \<le> rv_updated_at r then Some r else best))"

definition is_under_pip :: "session_id \<Rightarrow> records_state \<Rightarrow> bool" where
  "is_under_pip subject s =
     (case fold (better_review subject) (jvals (rd_reviews s)) None of None \<Rightarrow> False | Some r \<Rightarrow> rv_pip r)"

section \<open>The end of an append\<close>

text \<open>
  A durable record enters the registry; a lock taken for it is given back either way, but a
  claim only once it is consumed.
\<close>

definition settle_requisition ::
  "requisition_flight \<Rightarrow> requisition \<Rightarrow> (store_error, unit) result \<Rightarrow> records_state \<Rightarrow> records_state" where
  "settle_requisition k r outcome s =
     (let i = rq_id r;
          s1 = (if k = FlDecide then s\<lparr>rd_deciding := jdel (rd_deciding s) i\<rparr> else s) in
      case outcome of
        Inl _ \<Rightarrow> s1
      | Inr _ \<Rightarrow>
          (let s2 = s1\<lparr>rd_requisitions := jset (rd_requisitions s1) i r,
                       rd_requisition_log := rd_requisition_log s1 @ [r]\<rparr>
           in if k = FlAttach then s2\<lparr>rd_reserved := removeAll i (rd_reserved s2)\<rparr> else s2))"

definition settle_review ::
  "review_flight \<Rightarrow> review \<Rightarrow> (store_error, unit) result \<Rightarrow> records_state \<Rightarrow> records_state" where
  "settle_review k r outcome s =
     (let i = rv_id r;
          s1 = (if k = FlCreate then s else s\<lparr>rd_mutating := removeAll i (rd_mutating s)\<rparr>) in
      case outcome of
        Inl _ \<Rightarrow> s1
      | Inr _ \<Rightarrow>
          s1\<lparr>rd_reviews := jset (if k = FlCreate then rd_reviews s1 else jdel (rd_reviews s1) i) i r,
             rd_review_log := rd_review_log s1 @ [r]\<rparr>)"

definition settle :: "nat \<Rightarrow> (store_error, unit) result \<Rightarrow> records_state \<Rightarrow> records_state" where
  "settle n outcome s =
     (if length (rd_flights s) \<le> n then s
      else
        (let s1 = s\<lparr>rd_flights := take n (rd_flights s) @ drop (Suc n) (rd_flights s)\<rparr> in
         case rd_flights s ! n of
           FlRequisition k r \<Rightarrow> settle_requisition k r outcome s1
         | FlReview k r \<Rightarrow> settle_review k r outcome s1))"

section \<open>The logs\<close>

text \<open>
  What \<open>readAllRequisitions\<close> and \<open>readAllReviews\<close> make of the records in a log, oldest first:
  the latest of each identifier, in the order of their first, or reordered of their last, lines.
\<close>

definition keep :: "bool \<Rightarrow> ('v \<Rightarrow> string) \<Rightarrow> 'v \<Rightarrow> (string, 'v) jmap \<Rightarrow> (string, 'v) jmap" where
  "keep reorder ident v m = jset (if reorder then jdel m (ident v) else m) (ident v) v"

definition kept :: "bool \<Rightarrow> ('v \<Rightarrow> string) \<Rightarrow> 'v list \<Rightarrow> (string, 'v) jmap" where
  "kept reorder ident vs = fold (keep reorder ident) vs []"

definition read_requisitions :: "requisition list \<Rightarrow> requisition list" where
  "read_requisitions log = jvals (kept False rq_id log)"

definition read_reviews :: "review list \<Rightarrow> review list" where
  "read_reviews log = jvals (kept True rv_id log)"

text \<open>A new process has the two logs and nothing else: \<open>boot\<close> reads them.\<close>

definition boot_records :: "records_state \<Rightarrow> records_state" where
  "boot_records s =
     \<lparr>rd_requisitions = fold (\<lambda>r m. jset m (rq_id r) r) (read_requisitions (rd_requisition_log s)) [],
      rd_reviews = fold (\<lambda>r m. jset m (rv_id r) r) (read_reviews (rd_review_log s)) [],
      rd_mutating = [], rd_reserved = [], rd_deciding = [], rd_flights = [],
      rd_requisition_log = rd_requisition_log s, rd_review_log = rd_review_log s\<rparr>"

definition no_records :: records_state where
  "no_records =
     \<lparr>rd_requisitions = [], rd_reviews = [], rd_mutating = [], rd_reserved = [], rd_deciding = [],
      rd_flights = [], rd_requisition_log = [], rd_review_log = []\<rparr>"

datatype records_event =
    Raise nat iso_timestamp string principal_id requisition_input
  | Decide iso_timestamp string principal_id requisition_decision
  | Claim string
  | Attach string session_id
  | Release string
  | CreateReview nat iso_timestamp string principal_id session_snapshot review_input
  | EditReview nat iso_timestamp string principal_id review_patch
  | FinaliseReview iso_timestamp string principal_id
  | Settle nat "(store_error, unit) result"
  | Reboot

fun records_step :: "records_event \<Rightarrow> records_state \<Rightarrow> records_state" where
  "records_step (Raise b now i by input) s = fst (raise_requisition b now i by input s)"
| "records_step (Decide now i by d) s = fst (decide_requisition now i by d s)"
| "records_step (Claim i) s = fst (claim_requisition i s)"
| "records_step (Attach i session) s = fst (attach_session i session s)"
| "records_step (Release i) s = fst (release_requisition i s)"
| "records_step (CreateReview b now i by snap input) s = fst (create_review b now i by snap input s)"
| "records_step (EditReview b now i by p) s = fst (append_review b now i by p s)"
| "records_step (FinaliseReview now i by) s = fst (finalise_review now i by s)"
| "records_step (Settle n outcome) s = settle n outcome s"
| "records_step Reboot s = boot_records s"

definition records_run :: "records_event list \<Rightarrow> records_state \<Rightarrow> records_state" where
  "records_run es s = fold records_step es s"

lemmas records_defs =
  raise_requisition_def decide_requisition_def claim_requisition_def attach_session_def
  release_requisition_def create_review_def append_review_def finalise_review_def launch_def refuse_def

end
