(* ===== verification/Records_Log.thy ===== *)
theory Records_Log
  imports Records
begin

text \<open>
  What the requisition and review registries promise: after any run, reboots included, the
  registry in memory is what the log on disk reads back; a finalised review never changes again.
\<close>

section \<open>Reading a log back\<close>

lemma fold_lines_kept:
  assumes "list_all (\<lambda>v. parse (render v) = Some v) vs"
  shows "fst (fold_lines parse (\<lambda>v. Some (ident v)) reorder (map render vs)) = kept reorder ident vs"
  using assms
proof (induction vs rule: rev_induct)
  case Nil
  then show ?case by (simp add: fold_lines_def kept_def)
next
  case (snoc v vs)
  then show ?case
    by (cases "fold_lines parse (\<lambda>v. Some (ident v)) reorder (map render vs)")
      (simp add: fold_lines_snoc fold_line_def line_entry_def kept_def keep_def)
qed

lemma kept_snoc: "kept reorder ident (vs @ [v]) = keep reorder ident v (kept reorder ident vs)"
  by (simp add: kept_def)

lemma read_kept:
  assumes "renders parse render vs"
  shows "fold_latest_by_id parse (\<lambda>v. Some (ident v)) reorder path (FileText (log_text (map render vs)))
    = jvals (kept reorder ident vs)"
proof -
  from assms have "list_all (\<lambda>v. parse (render v) = Some v) vs"
    and "list_all (\<lambda>l. newline \<notin> set l \<and> l \<noteq> []) (map render vs)"
    by (auto simp: renders_def list_all_iff)
  then show ?thesis
    by (simp add: fold_latest_by_id_def read_log_text fold_lines_kept)
qed

lemma jmap_ok_kept [simp]: "jmap_ok (kept reorder ident vs)"
  by (induction vs rule: rev_induct) (simp_all add: kept_def, cases reorder, simp_all add: keep_def)

lemma jget_kept: "jget (kept reorder ident vs) i = find (\<lambda>v. ident v = i) (rev vs)"
  by (induction vs rule: rev_induct) (auto simp: kept_def keep_def jget_jset jget_jdel)

text \<open>Every entry of a registry is under its own identifier.\<close>

definition keyed :: "('v \<Rightarrow> string) \<Rightarrow> (string, 'v) jmap \<Rightarrow> bool" where
  "keyed ident m = list_all (\<lambda>(k, v). k = ident v) m"

lemma keyed_kept: "keyed ident (kept reorder ident vs)"
proof (induction vs rule: rev_induct)
  case Nil
  then show ?case by (simp add: kept_def keyed_def)
next
  case (snoc v vs)
  have "keyed ident m \<Longrightarrow> jmap_ok m \<Longrightarrow> keyed ident (keep reorder ident v m)" for m
    by (auto simp: keyed_def keep_def list_all_iff set_jset set_jdel)
  with snoc show ?case
    using jmap_ok_kept [of reorder ident vs] by (simp add: kept_def)
qed

lemma refill_keyed:
  assumes "keyed ident m" and "jmap_ok m"
  shows "fold (\<lambda>v m. jset m (ident v) v) (jvals m) [] = m"
  using assms
proof (induction m rule: rev_induct)
  case Nil
  then show ?case by (simp add: jvals_def)
next
  case (snoc kv m)
  obtain k v where kv: "kv = (k, v)" by (cases kv)
  with snoc show ?case
    by (auto simp: jvals_def keyed_def jmap_ok_def jget_def map_of_eq_None_iff intro!: jset_fresh)
qed

section \<open>A registry and its log\<close>

text \<open>
  What the two registries have in common: a step leaves the log and the registry, or appends one
  record and enters it, or reads the registry again from the log.
\<close>

locale durable_registry =
  fixes reg :: "'s \<Rightarrow> (string, 'v) jmap"
    and logged :: "'s \<Rightarrow> 'v list"
    and ident :: "'v \<Rightarrow> string"
    and reorder :: bool
    and step :: "'e \<Rightarrow> 's \<Rightarrow> 's"
    and regular :: "'s \<Rightarrow> bool"
  assumes moves: "regular s \<Longrightarrow> reg s = kept reorder ident (logged s) \<Longrightarrow>
      (reg (step e s) = reg s \<and> logged (step e s) = logged s)
      \<or> (\<exists>v. reg (step e s) = keep reorder ident v (reg s) \<and> logged (step e s) = logged s @ [v])
      \<or> (reg (step e s) = fold (\<lambda>v m. jset m (ident v) v) (jvals (kept reorder ident (logged s))) []
          \<and> logged (step e s) = logged s)"
begin

lemma step_keeps:
  "regular s \<Longrightarrow> reg s = kept reorder ident (logged s) \<Longrightarrow>
   reg (step e s) = kept reorder ident (logged (step e s))"
  using moves [of s e] refill_keyed [OF keyed_kept jmap_ok_kept, of ident reorder "logged s"]
  by (auto simp: kept_def)

lemma reads_back:
  assumes "reg s = kept reorder ident (logged s)" and "renders parse render (logged s)"
  shows "fold_latest_by_id parse (\<lambda>v. Some (ident v)) reorder path (FileText (log_text (map render (logged s))))
    = jvals (reg s)"
  by (simp add: read_kept [OF assms(2)] assms(1))

lemma latest_of_log:
  "reg s = kept reorder ident (logged s) \<Longrightarrow> jget (reg s) i = find (\<lambda>v. ident v = i) (rev (logged s))"
  by (simp add: jget_kept)

end

section \<open>One review\<close>

fun of_review :: "string \<Rightarrow> flight \<Rightarrow> bool" where
  "of_review i (FlReview k r) = (rv_id r = i)"
| "of_review i (FlRequisition k r) = False"

fun of_requisition :: "string \<Rightarrow> flight \<Rightarrow> bool" where
  "of_requisition i (FlRequisition k r) = (rq_id r = i)"
| "of_requisition i (FlReview k r) = False"

definition review_lines :: "string \<Rightarrow> records_state \<Rightarrow> review list" where
  "review_lines i s = filter (\<lambda>r. rv_id r = i) (rd_review_log s)"

definition same_review :: "review \<Rightarrow> review \<Rightarrow> bool" where
  "same_review a b =
     (rv_id a = rv_id b \<and> rv_subject a = rv_subject b \<and> rv_snapshot a = rv_snapshot b
      \<and> rv_author a = rv_author b \<and> rv_created_at a = rv_created_at b)"

text \<open>The lines of a review: drafts of one review, and at most one final line, the last.\<close>

definition review_history :: "review list \<Rightarrow> bool" where
  "review_history ls =
     (list_all (\<lambda>r. rv_state r = Draft) (butlast ls) \<and> list_all (same_review (hd ls)) ls)"

text \<open>At most one append of a review is in flight, and it continues the history.\<close>

definition review_flight_ok :: "string \<Rightarrow> review list \<Rightarrow> flight list \<Rightarrow> bool \<Rightarrow> bool" where
  "review_flight_ok i ls fl locked =
     (case fl of
        [] \<Rightarrow> \<not> locked
      | [FlReview k r] \<Rightarrow>
          rv_id r = i
          \<and> (if k = FlCreate then ls = [] \<and> \<not> locked
             else ls \<noteq> [] \<and> rv_state (last ls) = Draft \<and> same_review (hd ls) r \<and> locked)
      | _ \<Rightarrow> False)"

definition review_inv :: "string set \<Rightarrow> string \<Rightarrow> records_state \<Rightarrow> bool" where
  "review_inv drawn i s =
     (let ls = review_lines i s; fl = filter (of_review i) (rd_flights s) in
      (i \<notin> drawn \<longrightarrow> ls = [] \<and> fl = [])
      \<and> review_history ls \<and> review_flight_ok i ls fl (i \<in> set (rd_mutating s)))"

definition reviews_inv :: "string set \<Rightarrow> records_state \<Rightarrow> bool" where
  "reviews_inv drawn s =
     (rd_reviews s = kept True rv_id (rd_review_log s) \<and> (\<forall>i. review_inv drawn i s))"

fun drawn :: "records_event \<Rightarrow> string list" where
  "drawn (Raise b now i by input) = [i]"
| "drawn (CreateReview b now i by snap input) = [i]"
| "drawn _ = []"

lemma one_flight:
  assumes "review_flight_ok i ls fl locked" and "fl \<noteq> []"
  obtains k r where "fl = [FlReview k r]"
proof (cases fl)
  case (Cons f fs)
  with assms that show ?thesis
    by (cases f; cases fs) (auto simp: review_flight_ok_def)
qed (use assms in simp)

lemma remove_flight:
  assumes "n < length xs"
  shows "\<not> P (xs ! n) \<Longrightarrow> filter P (take n xs @ drop (Suc n) xs) = filter P xs"
    and "P (xs ! n) \<Longrightarrow> filter P xs = [y] \<Longrightarrow>
      y = xs ! n \<and> filter P (take n xs @ drop (Suc n) xs) = []"
proof -
  have e: "filter P xs = filter P (take n xs) @ filter P (xs ! n # drop (Suc n) xs)"
    using id_take_nth_drop [OF assms] by (metis filter_append)
  show "\<not> P (xs ! n) \<Longrightarrow> filter P (take n xs @ drop (Suc n) xs) = filter P xs"
    using e by simp
  show "P (xs ! n) \<Longrightarrow> filter P xs = [y] \<Longrightarrow>
      y = xs ! n \<and> filter P (take n xs @ drop (Suc n) xs) = []"
    using e by (cases "filter P (take n xs)") auto
qed

lemma latest_review:
  assumes "rd_reviews s = kept True rv_id (rd_review_log s)"
  shows "jget (rd_reviews s) i = (if review_lines i s = [] then None else Some (last (review_lines i s)))"
proof -
  have "find P (rev vs) = (if filter P vs = [] then None else Some (last (filter P vs)))"
    for P and vs :: "review list"
    by (induction vs rule: rev_induct) auto
  then show ?thesis
    by (simp add: assms jget_kept review_lines_def)
qed

lemma history_snoc:
  "review_history ls \<Longrightarrow> (ls \<noteq> [] \<Longrightarrow> rv_state (last ls) = Draft \<and> same_review (hd ls) r) \<Longrightarrow>
   review_history (ls @ [r])"
proof -
  assume h: "review_history ls" and l: "ls \<noteq> [] \<Longrightarrow> rv_state (last ls) = Draft \<and> same_review (hd ls) r"
  show ?thesis
  proof (cases ls rule: rev_cases)
    case Nil
    then show ?thesis by (simp add: review_history_def same_review_def)
  next
    case (snoc ls' x)
    with h l show ?thesis
      by (auto simp: review_history_def butlast_append hd_append split: if_splits)
  qed
qed

lemma reviews_inv_empty: "reviews_inv {} no_records"
  by (simp add: reviews_inv_def no_records_def kept_def review_inv_def review_lines_def Let_def
      review_history_def review_flight_ok_def)

lemma reviews_frame:
  assumes "reviews_inv D s" and "rd_reviews s' = rd_reviews s" and "rd_review_log s' = rd_review_log s"
    and "rd_mutating s' = rd_mutating s" and "D \<subseteq> D'"
    and "\<And>i. filter (of_review i) (rd_flights s') = filter (of_review i) (rd_flights s)"
  shows "reviews_inv D' s'"
  using assms by (auto simp: reviews_inv_def review_inv_def review_lines_def Let_def)

lemma reviews_launch:
  assumes inv: "reviews_inv D s" and s': "rd_reviews s' = rd_reviews s" "rd_review_log s' = rd_review_log s"
    and fl: "rd_flights s' = rd_flights s @ [FlReview k r]" and D: "insert (rv_id r) D \<subseteq> D'"
    and m: "set (rd_mutating s') = (if k = FlCreate then {} else {rv_id r}) \<union> set (rd_mutating s)"
    and free: "if k = FlCreate then rv_id r \<notin> D
      else rv_id r \<notin> set (rd_mutating s)
        \<and> (\<exists>c. jget (rd_reviews s) (rv_id r) = Some c \<and> rv_state c = Draft \<and> same_review c r)"
  shows "reviews_inv D' s'"
proof -
  have "review_inv D' i s'" for i
  proof (cases "rv_id r = i")
    case False
    with inv s' D m show ?thesis
      by (auto simp: reviews_inv_def review_inv_def review_lines_def Let_def fl subset_iff
          dest: spec [of _ i])
  next
    case True
    let ?ls = "review_lines i s"
    from inv have old: "review_inv D i s" and kept: "rd_reviews s = kept True rv_id (rd_review_log s)"
      by (simp_all add: reviews_inv_def)
    show ?thesis
    proof (cases "k = FlCreate")
      case True
      with old free \<open>rv_id r = i\<close> s' D m show ?thesis
        by (auto simp: review_inv_def review_lines_def Let_def fl review_flight_ok_def review_history_def)
    next
      case False
      with free \<open>rv_id r = i\<close> latest_review [OF kept, of i]
      have l: "?ls \<noteq> []" "rv_state (last ?ls) = Draft" "same_review (last ?ls) r" "i \<notin> set (rd_mutating s)"
        by (auto split: if_splits)
      from old l have h: "review_history ?ls" by (simp add: review_inv_def Let_def)
      with l have "same_review (hd ?ls) (last ?ls)"
        by (auto simp: review_history_def list_all_iff)
      with l have sr: "same_review (hd ?ls) r" by (simp add: same_review_def)
      have e: "filter (of_review i) (rd_flights s) = []"
      proof (cases "filter (of_review i) (rd_flights s)")
        case (Cons f fs)
        with old l show ?thesis
          by (cases f; cases fs) (auto simp: review_inv_def Let_def review_flight_ok_def split: if_splits)
      qed
      from l h sr e False \<open>rv_id r = i\<close> s' D m show ?thesis
        by (auto simp: review_inv_def review_lines_def Let_def fl review_flight_ok_def)
    qed
  qed
  with inv s' show ?thesis by (simp add: reviews_inv_def)
qed

lemma reviews_settle:
  assumes inv: "reviews_inv D s"
  shows "reviews_inv D (settle n outcome s)"
proof (cases "length (rd_flights s) \<le> n")
  case True
  with inv show ?thesis by (simp add: settle_def)
next
  case False
  then have n: "n < length (rd_flights s)" by simp
  let ?fl = "take n (rd_flights s) @ drop (Suc n) (rd_flights s)"
  show ?thesis
  proof (cases "rd_flights s ! n")
    case (FlRequisition k r)
    have "filter (of_review i) ?fl = filter (of_review i) (rd_flights s)" for i
      using remove_flight (1) [OF n, of "of_review i"] FlRequisition by simp
    then show ?thesis
      by (intro reviews_frame [OF inv])
        (simp_all add: settle_def n FlRequisition settle_requisition_def Let_def split: sum.split)
  next
    case (FlReview k r)
    let ?s' = "settle n outcome s"
    have kept: "rd_reviews s = kept True rv_id (rd_review_log s)"
      using inv by (simp add: reviews_inv_def)
    have fl: "rd_flights ?s' = ?fl"
      and mut: "set (rd_mutating ?s') = (if k = FlCreate then set (rd_mutating s) else set (rd_mutating s) - {rv_id r})"
      and log: "rd_review_log ?s' = (case outcome of Inl _ \<Rightarrow> rd_review_log s | Inr _ \<Rightarrow> rd_review_log s @ [r])"
      using n by (auto simp: settle_def FlReview settle_review_def Let_def split: sum.split)
    have inv_r: "review_inv D (rv_id r) s" using inv by (simp add: reviews_inv_def)
    have nth: "of_review (rv_id r) (rd_flights s ! n)" by (simp add: FlReview)
    then have "filter (of_review (rv_id r)) (rd_flights s) \<noteq> []"
      using n by (auto simp: filter_empty_conv)
    then obtain y where y: "filter (of_review (rv_id r)) (rd_flights s) = [y]"
      using inv_r by (auto simp: review_inv_def Let_def elim: one_flight)
    have gone: "y = FlReview k r" "filter (of_review (rv_id r)) ?fl = []"
      using remove_flight (2) [OF n, OF nth y] FlReview by auto
    have "review_inv D i ?s'" for i
    proof (cases "rv_id r = i")
      case False
      then have "filter (of_review i) ?fl = filter (of_review i) (rd_flights s)"
        using remove_flight (1) [OF n, of "of_review i"] FlReview by simp
      with inv False show ?thesis
        by (auto simp: reviews_inv_def review_inv_def review_lines_def Let_def fl mut log
            dest: spec [of _ i] split: sum.split)
    next
      case True
      with inv_r y gone have ok: "review_flight_ok i (review_lines i s) [FlReview k r] (i \<in> set (rd_mutating s))"
        and h: "review_history (review_lines i s)" and d: "i \<in> D"
        by (auto simp: review_inv_def Let_def)
      have "review_history (review_lines i s @ [r])"
        using ok by (intro history_snoc [OF h]) (auto simp: review_flight_ok_def split: if_splits)
      with h ok d gone True show ?thesis
        by (auto simp: review_inv_def review_lines_def Let_def fl mut log review_flight_ok_def
            split: sum.split if_splits)
    qed
    moreover have "rd_reviews ?s' = kept True rv_id (rd_review_log ?s')"
    proof -
      have "k = FlCreate \<Longrightarrow> jget (rd_reviews s) (rv_id r) = None"
        using inv_r y gone latest_review [OF kept, of "rv_id r"]
        by (simp add: review_inv_def Let_def review_flight_ok_def)
      then have "rd_reviews ?s' = (case outcome of Inl _ \<Rightarrow> rd_reviews s | Inr _ \<Rightarrow> keep True rv_id r (rd_reviews s))"
        using n by (auto simp: settle_def FlReview settle_review_def Let_def keep_def jdel_fresh split: sum.split)
      then show ?thesis by (simp add: log kept kept_snoc split: sum.split)
    qed
    ultimately show ?thesis by (simp add: reviews_inv_def)
  qed
qed

lemma reviews_found:
  assumes "reviews_inv D s" and "jget (rd_reviews s) i = Some c"
  shows "rv_id c = i \<and> i \<in> D"
proof -
  from assms have kept: "rd_reviews s = kept True rv_id (rd_review_log s)" and "review_inv D i s"
    by (simp_all add: reviews_inv_def)
  with latest_review [OF kept, of i] assms(2) have "review_lines i s \<noteq> []" "i \<in> D"
      "c = last (review_lines i s)"
    by (auto simp: review_inv_def Let_def split: if_splits)
  moreover from this have "c \<in> set (review_lines i s)" by simp
  ultimately show ?thesis by (auto simp: review_lines_def)
qed

lemma not_final [simp]: "st \<noteq> Final \<longleftrightarrow> st = Draft"
  by (cases st) simp_all

lemma reviews_step:
  assumes inv: "reviews_inv D s" and new: "set (drawn e) \<inter> D = {}"
  shows "reviews_inv (D \<union> set (drawn e)) (records_step e s)"
proof (cases e)
  case (CreateReview b now i by' snap input)
  show ?thesis
  proof (cases "is_ok (snd (create_review b now i by' snap input s))")
    case True
    then show ?thesis
      using new unfolding CreateReview
      by (auto simp: records_defs intro!: reviews_launch [OF inv, of _ FlCreate] split: if_splits)
  next
    case False
    then have "records_step e s = s"
      by (auto simp: CreateReview records_defs split: if_splits)
    then show ?thesis by (auto intro: reviews_frame [OF inv])
  qed
next
  case (EditReview b now i by' p)
  note found = reviews_found [OF inv, of i]
  show ?thesis
  proof (cases "is_ok (snd (append_review b now i by' p s))")
    case True
    then show ?thesis
      using found unfolding EditReview
      by (auto simp: records_defs same_review_def intro!: reviews_launch [OF inv, of _ FlEdit]
          split: if_splits option.splits)
  next
    case False
    then have "records_step e s = s"
      by (auto simp: EditReview records_defs split: if_splits option.splits)
    then show ?thesis by (auto intro: reviews_frame [OF inv])
  qed
next
  case (FinaliseReview now i by')
  note found = reviews_found [OF inv, of i]
  show ?thesis
  proof (cases "is_ok (snd (finalise_review now i by' s))")
    case True
    then show ?thesis
      using found unfolding FinaliseReview
      by (auto simp: records_defs same_review_def intro!: reviews_launch [OF inv, of _ FlFinalise]
          split: if_splits option.splits)
  next
    case False
    then have "records_step e s = s"
      by (auto simp: FinaliseReview records_defs split: if_splits option.splits)
    then show ?thesis by (auto intro: reviews_frame [OF inv])
  qed
next
  case (Settle n outcome)
  with reviews_settle [OF inv, of n outcome] show ?thesis by simp
next
  case Reboot
  have "rd_reviews (boot_records s) = kept True rv_id (rd_review_log s)"
    by (simp add: boot_records_def read_reviews_def refill_keyed keyed_kept)
  with inv Reboot show ?thesis
    by (auto simp: reviews_inv_def review_inv_def review_lines_def boot_records_def Let_def
        review_flight_ok_def)
qed (auto simp: records_defs release_requisition_def intro!: reviews_frame [OF inv] split: option.splits prod.splits)

section \<open>Runs\<close>

lemma reviews_run:
  assumes "distinct (concat (map drawn es))"
  shows "reviews_inv (set (concat (map drawn es))) (records_run es no_records)"
  using assms
proof (induction es rule: rev_induct)
  case Nil
  then show ?case by (simp add: records_run_def reviews_inv_empty)
next
  case (snoc e es)
  then have "reviews_inv (set (concat (map drawn es))) (records_run es no_records)"
    and "set (drawn e) \<inter> set (concat (map drawn es)) = {}"
    by auto
  from reviews_step [OF this] show ?case
    by (simp add: records_run_def)
qed

text \<open>A step appends to the logs only.\<close>

lemma settle_moves:
  "(rd_requisitions (settle n outcome s) = rd_requisitions s
      \<and> rd_requisition_log (settle n outcome s) = rd_requisition_log s)
   \<or> (\<exists>r. rd_requisitions (settle n outcome s) = jset (rd_requisitions s) (rq_id r) r
        \<and> rd_requisition_log (settle n outcome s) = rd_requisition_log s @ [r])"
  by (auto simp: settle_def settle_requisition_def settle_review_def Let_def
      split: flight.split sum.split)

lemma requisition_moves:
  "(rd_requisitions (records_step e s) = rd_requisitions s
      \<and> rd_requisition_log (records_step e s) = rd_requisition_log s)
   \<or> (\<exists>r. rd_requisitions (records_step e s) = jset (rd_requisitions s) (rq_id r) r
        \<and> rd_requisition_log (records_step e s) = rd_requisition_log s @ [r])
   \<or> e = Reboot"
proof (cases e)
  case (Settle n outcome)
  with settle_moves [of n outcome s] show ?thesis by auto
qed (auto simp: records_defs release_requisition_def split: option.splits prod.splits)

lemma review_log_grows: "\<exists>more. rd_review_log (records_step e s) = rd_review_log s @ more"
proof (cases e)
  case (Settle n outcome)
  then show ?thesis
    by (auto simp: settle_def settle_requisition_def settle_review_def Let_def split: flight.split sum.split)
qed (auto simp: records_defs release_requisition_def boot_records_def split: option.splits prod.splits)

lemma review_log_run: "\<exists>more. rd_review_log (records_run es s) = rd_review_log s @ more"
proof (induction es rule: rev_induct)
  case Nil
  then show ?case by (simp add: records_run_def)
next
  case (snoc e es)
  then show ?case
    using review_log_grows [of e "records_run es s"] by (auto simp: records_run_def)
qed

interpretation requisition_log: durable_registry rd_requisitions rd_requisition_log rq_id False records_step
  "\<lambda>s. True"
proof unfold_locales
  fix s :: records_state and e
  show "(rd_requisitions (records_step e s) = rd_requisitions s
        \<and> rd_requisition_log (records_step e s) = rd_requisition_log s)
      \<or> (\<exists>v. rd_requisitions (records_step e s) = keep False rq_id v (rd_requisitions s)
          \<and> rd_requisition_log (records_step e s) = rd_requisition_log s @ [v])
      \<or> (rd_requisitions (records_step e s)
            = fold (\<lambda>v m. jset m (rq_id v) v) (jvals (kept False rq_id (rd_requisition_log s))) []
          \<and> rd_requisition_log (records_step e s) = rd_requisition_log s)"
    using requisition_moves [of e s] by (auto simp: keep_def boot_records_def read_requisitions_def)
qed

lemma creation_is_fresh:
  assumes inv: "reviews_inv D s" and "FlReview FlCreate r \<in> set (rd_flights s)"
  shows "jget (rd_reviews s) (rv_id r) = None"
proof -
  let ?fl = "filter (of_review (rv_id r)) (rd_flights s)"
  from assms have ok: "review_flight_ok (rv_id r) (review_lines (rv_id r) s) ?fl (rv_id r \<in> set (rd_mutating s))"
    and kept: "rd_reviews s = kept True rv_id (rd_review_log s)"
    by (simp_all add: reviews_inv_def review_inv_def Let_def)
  from assms(2) have "FlReview FlCreate r \<in> set ?fl" by simp
  moreover from this have "?fl \<noteq> []" by (metis list.set_cases list.distinct(1))
  with ok obtain k r' where "?fl = [FlReview k r']" by (rule one_flight)
  ultimately have "review_lines (rv_id r) s = []" using ok by (simp add: review_flight_ok_def)
  with latest_review [OF kept] show ?thesis by simp
qed

lemma review_moves:
  assumes inv: "reviews_inv D s"
  shows "(rd_reviews (records_step e s) = rd_reviews s
        \<and> rd_review_log (records_step e s) = rd_review_log s)
     \<or> (\<exists>v. rd_reviews (records_step e s) = keep True rv_id v (rd_reviews s)
        \<and> rd_review_log (records_step e s) = rd_review_log s @ [v])
     \<or> e = Reboot"
proof (cases e)
  case (Settle n outcome)
  show ?thesis
  proof (cases "n < length (rd_flights s)")
    case True
    show ?thesis
    proof (cases "rd_flights s ! n")
      case (FlReview k r)
      with True have "k = FlCreate \<Longrightarrow> jdel (rd_reviews s) (rv_id r) = rd_reviews s"
        using creation_is_fresh [OF inv, of r] nth_mem [OF True] by (simp add: jdel_fresh)
      with Settle True FlReview show ?thesis
        by (cases outcome) (auto simp: settle_def settle_review_def keep_def Let_def)
    qed (use Settle True in \<open>auto simp: settle_def settle_requisition_def Let_def split: sum.split\<close>)
  qed (simp add: Settle settle_def)
qed (auto simp: records_defs release_requisition_def split: option.splits prod.splits)

interpretation review_log: durable_registry rd_reviews rd_review_log rv_id True records_step
  "\<lambda>s. \<exists>D. reviews_inv D s"
proof unfold_locales
  fix s :: records_state and e
  assume "\<exists>D. reviews_inv D s"
  then obtain D where "reviews_inv D s" ..
  from review_moves [OF this, of e]
  show "(rd_reviews (records_step e s) = rd_reviews s
        \<and> rd_review_log (records_step e s) = rd_review_log s)
      \<or> (\<exists>v. rd_reviews (records_step e s) = keep True rv_id v (rd_reviews s)
          \<and> rd_review_log (records_step e s) = rd_review_log s @ [v])
      \<or> (rd_reviews (records_step e s)
            = fold (\<lambda>v m. jset m (rv_id v) v) (jvals (kept True rv_id (rd_review_log s))) []
          \<and> rd_review_log (records_step e s) = rd_review_log s)"
    by (auto simp: boot_records_def read_reviews_def)
qed

lemma requisitions_run: "rd_requisitions (records_run es no_records) = kept False rq_id (rd_requisition_log (records_run es no_records))"
proof (induction es rule: rev_induct)
  case Nil
  then show ?case by (simp add: records_run_def no_records_def kept_def)
next
  case (snoc e es)
  from requisition_log.step_keeps [OF TrueI snoc] show ?case by (simp add: records_run_def)
qed


text \<open>A raised and decided requisition, and a review that is edited and finalised.\<close>

definition example_snapshot :: session_snapshot where
  "example_snapshot = \<lparr>sn_session = ''s'', sn_owner = ''ann'', sn_vendor = ''claude'', sn_cwd = ''/w'', sn_created_at = 1\<rparr>"

definition example_records :: "records_event list" where
  "example_records =
     [Raise 100 2 ''q'' ''ann'' \<lparr>ri_title = ''t'', ri_justification = ''j'', ri_workspace = ''w'', ri_vendor = ''claude''\<rparr>,
      CreateReview 100 3 ''v'' ''bob'' example_snapshot
        \<lparr>vi_subject = ''s'', vi_rating = None, vi_pip = False, vi_body = ''draft''\<rparr>,
      Settle 1 (Inr ()), Settle 0 (Inr ()),
      EditReview 100 4 ''v'' ''bob'' \<lparr>vp_rating = None, vp_pip = Some True, vp_body = None\<rparr>,
      Decide 5 ''q'' ''eve'' Approve, Settle 0 (Inr ()), FinaliseReview 6 ''v'' ''bob'', Settle 0 (Inr ()),
      Settle 0 (Inr ())]"


text \<open>
  C18: a review's lines are drafts of one author on one session, with at most one final line, the
  last; once it is final it stays in the registry and in the log as it is, whatever is called
  afterwards, and its author or anyone else who edits or finalises it is told that it is final.
\<close>

theorem final_review_is_terminal:
  assumes "distinct (concat (map drawn (es @ later)))" and "s = records_run es no_records"
    and "s' = records_run later s" and "jget (rd_reviews s) i = Some r" and "rv_state r = Final"
  shows "jget (rd_reviews s') i = Some r \<and> review_lines i s' = review_lines i s
    \<and> last (review_lines i s) = r \<and> list_all (\<lambda>l. rv_state l = Draft) (butlast (review_lines i s))
    \<and> list_all (\<lambda>l. rv_author l = rv_author r \<and> rv_subject l = rv_subject r) (review_lines i s)
    \<and> append_review b now i by' p s' = (s', Inl (ReviewFinal i))
    \<and> finalise_review now i by' s' = (s', Inl (ReviewFinal i))"
proof -
  have s': "s' = records_run (es @ later) no_records"
    by (simp add: assms records_run_def)
  have inv: "reviews_inv (set (concat (map drawn es))) s"
    using reviews_run [of es] assms by simp
  have inv': "reviews_inv (set (concat (map drawn (es @ later)))) s'"
    using reviews_run [OF assms(1)] by (simp add: s')
  let ?ls = "review_lines i s"
  have kept: "rd_reviews s = kept True rv_id (rd_review_log s)" "rd_reviews s' = kept True rv_id (rd_review_log s')"
    and h: "review_history ?ls" and h': "review_history (review_lines i s')"
    using inv inv' by (simp_all add: reviews_inv_def review_inv_def Let_def)
  from latest_review [OF kept(1), of i] assms(4) have l: "?ls \<noteq> []" "last ?ls = r"
    by (auto split: if_splits)
  obtain more where "rd_review_log s' = rd_review_log s @ more"
    using review_log_run [of later s] by (auto simp: assms)
  then have "\<exists>xs. review_lines i s' = ?ls @ xs" by (simp add: review_lines_def)
  then obtain xs where xs: "review_lines i s' = ?ls @ xs" ..
  have "xs = []"
  proof (rule ccontr)
    assume "xs \<noteq> []"
    with xs l have "r \<in> set (butlast (review_lines i s'))"
      by (auto simp: butlast_append dest: last_in_set)
    with h' assms(5) show False by (auto simp: review_history_def list_all_iff)
  qed
  with xs have same: "review_lines i s' = ?ls" by simp
  with latest_review [OF kept(2), of i] l have now: "jget (rd_reviews s') i = Some r" by simp
  from h l have "\<forall>x \<in> set ?ls. same_review (hd ?ls) x" and "same_review (hd ?ls) r"
    by (auto simp: review_history_def list_all_iff)
  with now same l h assms(5) show ?thesis
    by (auto simp: review_history_def same_review_def list_all_iff append_review_def finalise_review_def
        refuse_def)
qed

theorem final_review_is_terminal_witness:
  "append_review 100 9 ''v'' ''bob'' \<lparr>vp_rating = None, vp_pip = None, vp_body = Some ''new''\<rparr>
     (records_run [EditReview 100 8 ''v'' ''bob'' \<lparr>vp_rating = None, vp_pip = None, vp_body = Some ''x''\<rparr>, Reboot]
       (records_run example_records no_records))
   = (records_run [EditReview 100 8 ''v'' ''bob'' \<lparr>vp_rating = None, vp_pip = None, vp_body = Some ''x''\<rparr>, Reboot]
       (records_run example_records no_records), Inl (ReviewFinal ''v''))"
proof -
  let ?later = "[EditReview 100 8 ''v'' ''bob'' \<lparr>vp_rating = None, vp_pip = None, vp_body = Some ''x''\<rparr>, Reboot]"
  have d: "distinct (concat (map drawn (example_records @ ?later)))" by code_simp
  have "map_option rv_state (jget (rd_reviews (records_run example_records no_records)) ''v'') = Some Final"
    by code_simp
  then obtain r where "jget (rd_reviews (records_run example_records no_records)) ''v'' = Some r" "rv_state r = Final"
    by auto
  from final_review_is_terminal [OF d refl refl this] show ?thesis by blast
qed

end
