(* ===== verification/Hiring.thy ===== *)
theory Hiring
  imports Records_Log Create_Attempts
begin

text \<open>
  \<open>src/session-manager/index.ts\<close>, lines 43-62: the session manager hires a session against an
  approved requisition. The attempts of \<open>createHostAttempts\<close> run on the registry of requisitions:
  preparing claims the requisition, committing attaches the session to it, aborting releases it.
  The attempts, the registry and the map of claims are composed as they are in the code; every
  promise is settled by an event of its own.
\<close>

section \<open>The host\<close>

type_synonym host_outcome = "records_error attempt_result"

text \<open>
  \<open>hi_prepared\<close> and \<open>hi_attached\<close> hold what the host's \<open>prepare\<close> and \<open>commit\<close> have resolved to,
  until the attempt takes it up. \<open>hi_asked\<close> remembers what each preparation was given; no
  operation reads it.
\<close>

record hiring =
  hi_records :: records_state
  hi_claimed :: "(session_id, string) jmap"
  hi_attempts :: "records_error attempts"
  hi_prepared :: "(session_id, host_outcome) jmap"
  hi_attached :: "(session_id, host_outcome) jmap"
  hi_asked :: "(session_id, string option) jmap"

definition host_result :: "(records_error, unit) result \<Rightarrow> host_outcome" where
  "host_result r = (case r of Inl e \<Rightarrow> Inl (HostError e) | Inr _ \<Rightarrow> Inr ())"

definition host_prepare :: "session_id \<Rightarrow> string option \<Rightarrow> hiring \<Rightarrow> hiring" where
  "host_prepare i data h =
     (case data of
        None \<Rightarrow> h\<lparr>hi_prepared := jset (hi_prepared h) i (Inr ())\<rparr>
      | Some q \<Rightarrow>
          (let (rs, r) = claim_requisition q (hi_records h) in
           h\<lparr>hi_records := rs,
             hi_claimed := (if is_ok r then jset (hi_claimed h) i q else hi_claimed h),
             hi_prepared := jset (hi_prepared h) i (host_result r)\<rparr>))"

definition host_commit :: "session_id \<Rightarrow> hiring \<Rightarrow> hiring" where
  "host_commit i h =
     (case jget (hi_claimed h) i of
        None \<Rightarrow> h\<lparr>hi_attached := jset (hi_attached h) i (Inr ())\<rparr>
      | Some q \<Rightarrow>
          (let (rs, r) = attach_session q i (hi_records h) in
           if is_ok r then h\<lparr>hi_records := rs\<rparr>
           else h\<lparr>hi_attached := jset (hi_attached h) i (host_result r)\<rparr>))"

definition host_abort :: "session_id \<Rightarrow> hiring \<Rightarrow> hiring" where
  "host_abort i h =
     (case jget (hi_claimed h) i of
        None \<Rightarrow> h
      | Some q \<Rightarrow>
          h\<lparr>hi_records := fst (release_requisition q (hi_records h)), hi_claimed := jdel (hi_claimed h) i\<rparr>)"

text \<open>The end of an attach in flight resolves the host's \<open>commit\<close>.\<close>

definition attach_result :: "(store_error, unit) result \<Rightarrow> host_outcome" where
  "attach_result outcome =
     (case outcome of Inl e \<Rightarrow> Inl (HostError (RecordsStorage e)) | Inr _ \<Rightarrow> Inr ())"

definition attach_ends :: "flight \<Rightarrow> (store_error, unit) result \<Rightarrow> hiring \<Rightarrow> hiring" where
  "attach_ends f outcome h =
     (case f of
        FlRequisition FlAttach r \<Rightarrow>
          (case rq_session r of
             None \<Rightarrow> h
           | Some i \<Rightarrow>
               h\<lparr>hi_attached := jset (hi_attached h) i (attach_result outcome)\<rparr>)
      | _ \<Rightarrow> h)"

definition append_ends :: "nat \<Rightarrow> (store_error, unit) result \<Rightarrow> hiring \<Rightarrow> hiring" where
  "append_ends n outcome h =
     (if length (rd_flights (hi_records h)) \<le> n then h
      else attach_ends (rd_flights (hi_records h) ! n) outcome
             (h\<lparr>hi_records := settle n outcome (hi_records h)\<rparr>))"

section \<open>The attempts on it\<close>

fun perform :: "session_id \<Rightarrow> string option \<Rightarrow> effect \<Rightarrow> hiring \<Rightarrow> hiring" where
  "perform i data EffPrepare h = host_prepare i data (h\<lparr>hi_asked := jset (hi_asked h) i data\<rparr>)"
| "perform i data EffCommit h = host_commit i h"
| "perform i data EffAbort h = host_abort i h"

definition drive :: "session_id \<Rightarrow> string option \<Rightarrow> records_error attempt_event \<Rightarrow> hiring \<Rightarrow> hiring" where
  "drive i data ev h =
     (let (a, effs) = attempt_step (get_attempt i (hi_attempts h)) ev
      in fold (perform i data) effs (h\<lparr>hi_attempts := jset (hi_attempts h) i a\<rparr>))"

text \<open>
  A commit that resolves with success drops the claim on the way. A crash loses everything but
  the logs.
\<close>

datatype hiring_event =
    Prepare session_id "string option"
  | PrepareReturns session_id
  | Commit session_id
  | CommitReturns session_id
  | Abort session_id
  | AbortGoesOn session_id
  | Cancel session_id
  | Desk records_event
  | AppendEnds nat "(store_error, unit) result"
  | Crash

text \<open>What operators call on the registry; claims are the host's.\<close>

fun desk_event :: "records_event \<Rightarrow> bool" where
  "desk_event (Claim i) = False"
| "desk_event (Attach i session) = False"
| "desk_event (Release i) = False"
| "desk_event (Settle n outcome) = False"
| "desk_event Reboot = False"
| "desk_event _ = True"

fun hiring_step :: "hiring_event \<Rightarrow> hiring \<Rightarrow> hiring" where
  "hiring_step (Prepare i data) h = drive i data CallPrepare h"
| "hiring_step (PrepareReturns i) h =
     (case jget (hi_prepared h) i of
        None \<Rightarrow> h
      | Some r \<Rightarrow> drive i None (PrepareSettles r) (h\<lparr>hi_prepared := jdel (hi_prepared h) i\<rparr>))"
| "hiring_step (Commit i) h = drive i None CallCommit h"
| "hiring_step (CommitReturns i) h =
     (case jget (hi_attached h) i of
        None \<Rightarrow> h
      | Some r \<Rightarrow>
          drive i None (CommitSettles r)
            (h\<lparr>hi_attached := jdel (hi_attached h) i,
               hi_claimed := (if is_ok r then jdel (hi_claimed h) i else hi_claimed h)\<rparr>))"
| "hiring_step (Abort i) h = drive i None CallAbort h"
| "hiring_step (AbortGoesOn i) h = drive i None AbortResumes h"
| "hiring_step (Cancel i) h = drive i None CallCancel h"
| "hiring_step (Desk e) h = (if desk_event e then h\<lparr>hi_records := records_step e (hi_records h)\<rparr> else h)"
| "hiring_step (AppendEnds n outcome) h = append_ends n outcome h"
| "hiring_step Crash h =
     \<lparr>hi_records = boot_records (hi_records h), hi_claimed = [], hi_attempts = [], hi_prepared = [],
      hi_attached = [], hi_asked = []\<rparr>"

definition no_hiring :: hiring where
  "no_hiring = \<lparr>hi_records = no_records, hi_claimed = [], hi_attempts = [], hi_prepared = [],
     hi_attached = [], hi_asked = []\<rparr>"

definition hiring_run :: "hiring_event list \<Rightarrow> hiring" where
  "hiring_run es = fold hiring_step es no_hiring"

section \<open>Invariant\<close>

definition requisition_lines :: "string \<Rightarrow> records_state \<Rightarrow> requisition list" where
  "requisition_lines q s = filter (\<lambda>r. rq_id r = q) (rd_requisition_log s)"

definition requisition_history :: "requisition_state list \<Rightarrow> bool" where
  "requisition_history sts =
     (sts \<in> {[], [RqOpen], [RqOpen, RqRejected], [RqOpen, RqApproved], [RqOpen, RqApproved, RqConsumed]})"

text \<open>At most one append of a requisition is in flight, and it continues the history.\<close>

definition requisition_flight_ok :: "string \<Rightarrow> requisition_state list \<Rightarrow> flight list \<Rightarrow> bool \<Rightarrow> bool" where
  "requisition_flight_ok q sts fl deciding =
     (case fl of
        [] \<Rightarrow> \<not> deciding
      | [FlRequisition FlRaise r] \<Rightarrow> rq_id r = q \<and> sts = [] \<and> rq_state r = RqOpen \<and> \<not> deciding
      | [FlRequisition FlDecide r] \<Rightarrow>
          rq_id r = q \<and> sts = [RqOpen] \<and> rq_state r \<in> {RqApproved, RqRejected} \<and> deciding
      | [FlRequisition FlAttach r] \<Rightarrow>
          rq_id r = q \<and> sts = [RqOpen, RqApproved] \<and> rq_state r = RqConsumed \<and> \<not> deciding
      | _ \<Rightarrow> False)"

definition deciding :: "string \<Rightarrow> records_state \<Rightarrow> bool" where
  "deciding q s = jhas (rd_deciding s) q"

abbreviation states_of :: "string \<Rightarrow> records_state \<Rightarrow> requisition_state list" where
  "states_of q s \<equiv> map rq_state (requisition_lines q s)"

abbreviation flights_of :: "string \<Rightarrow> records_state \<Rightarrow> flight list" where
  "flights_of q s \<equiv> filter (of_requisition q) (rd_flights s)"

definition requisition_inv :: "string set \<Rightarrow> string \<Rightarrow> records_state \<Rightarrow> bool" where
  "requisition_inv D q s =
     ((q \<notin> D \<longrightarrow> requisition_lines q s = [] \<and> flights_of q s = [])
      \<and> requisition_history (states_of q s)
      \<and> requisition_flight_ok q (states_of q s) (flights_of q s) (deciding q s))"

definition requisitions_inv :: "string set \<Rightarrow> records_state \<Rightarrow> bool" where
  "requisitions_inv D s =
     (rd_requisitions s = kept False rq_id (rd_requisition_log s) \<and> (\<forall>q. requisition_inv D q s))"

text \<open>A claim is held by one session, and by one whose attempt can still give it back.\<close>

definition claim_inv :: "string \<Rightarrow> hiring \<Rightarrow> bool" where
  "claim_inv q h =
     ((\<forall>i j. jget (hi_claimed h) i = Some q \<longrightarrow> jget (hi_claimed h) j = Some q \<longrightarrow> i = j)
      \<and> (q \<in> set (rd_reserved (hi_records h)) \<longleftrightarrow>
           (\<exists>i. jget (hi_claimed h) i = Some q \<and> jget (hi_attached h) i \<noteq> Some (Inr ())))
      \<and> (\<forall>r. flights_of q (hi_records h) = [FlRequisition FlAttach r] \<longrightarrow>
           (\<exists>i. jget (hi_claimed h) i = Some q \<and> rq_session r = Some i \<and> jget (hi_attached h) i = None
                \<and> at_state (get_attempt i (hi_attempts h)) = Committing)))"

text \<open>The requisition of a session that holds a claim on it, and of one that has spent it.\<close>

definition spent_by :: "string \<Rightarrow> session_id \<Rightarrow> records_state \<Rightarrow> bool" where
  "spent_by q i s =
     (states_of q s = [RqOpen, RqApproved, RqConsumed] \<and> rq_session (last (requisition_lines q s)) = Some i)"

definition held_by :: "string \<Rightarrow> session_id \<Rightarrow> hiring \<Rightarrow> bool" where
  "held_by q i h =
     (if jget (hi_attached h) i = Some (Inr ()) then spent_by q i (hi_records h)
      else states_of q (hi_records h) = [RqOpen, RqApproved]
        \<and> (at_state (get_attempt i (hi_attempts h)) = Committing \<and> jget (hi_attached h) i = None \<longrightarrow>
             (\<exists>r. flights_of q (hi_records h) = [FlRequisition FlAttach r] \<and> rq_session r = Some i)))"

definition control_ok ::
  "'e attempt \<Rightarrow> string option \<Rightarrow> 'e attempt_result option \<Rightarrow> 'e attempt_result option \<Rightarrow> string option option
   \<Rightarrow> bool" where
  "control_ok a claim prepared attached asked =
     ((\<exists>effs. attempt_inv a effs)
      \<and> (claim \<noteq> None \<longrightarrow> at_preparation a \<noteq> None \<and> at_state a \<in> {New, Prepared, Committing} \<and> asked = Some claim)
      \<and> (prepared \<noteq> None \<longrightarrow> at_preparation a = Some None)
      \<and> (case prepared of Some (Inl _) \<Rightarrow> claim = None | _ \<Rightarrow> True)
      \<and> (attached \<noteq> None \<longrightarrow> at_state a = Committing)
      \<and> (case asked of
            Some (Some q) \<Rightarrow>
              (at_state a = New \<and> prepared = Some (Inr ())) \<or> at_state a \<in> {Prepared, Committing} \<longrightarrow> claim = Some q
          | _ \<Rightarrow> True))"

definition control_inv :: "session_id \<Rightarrow> hiring \<Rightarrow> bool" where
  "control_inv i h =
     control_ok (get_attempt i (hi_attempts h)) (jget (hi_claimed h) i) (jget (hi_prepared h) i)
       (jget (hi_attached h) i) (jget (hi_asked h) i)"

definition session_inv :: "session_id \<Rightarrow> hiring \<Rightarrow> bool" where
  "session_inv i h =
     (control_inv i h
      \<and> (\<forall>q. jget (hi_claimed h) i = Some q \<longrightarrow> held_by q i h)
      \<and> (\<forall>q. jget (hi_asked h) i = Some (Some q) \<longrightarrow> at_state (get_attempt i (hi_attempts h)) = Committed \<longrightarrow>
           spent_by q i (hi_records h)))"

lemmas session_defs = session_inv_def held_by_def spent_by_def control_inv_def

definition hiring_inv :: "string set \<Rightarrow> hiring \<Rightarrow> bool" where
  "hiring_inv D h =
     (requisitions_inv D (hi_records h) \<and> (\<forall>q. claim_inv q h) \<and> (\<forall>i. session_inv i h))"

lemma hiring_inv_empty: "hiring_inv {} no_hiring"
proof -
  have "\<exists>effs. attempt_inv (fresh_attempt :: records_error attempt) effs"
    using attempt_inv_fresh by blast
  then show ?thesis
    by (simp add: hiring_inv_def requisitions_inv_def no_hiring_def no_records_def kept_def requisition_inv_def requisition_lines_def
        requisition_history_def requisition_flight_ok_def deciding_def jhas_def claim_inv_def session_defs
        control_ok_def get_attempt_def Let_def)
qed

section \<open>The registry\<close>

lemma latest_requisition:
  assumes "rd_requisitions s = kept False rq_id (rd_requisition_log s)"
  shows "jget (rd_requisitions s) q =
    (if requisition_lines q s = [] then None else Some (last (requisition_lines q s)))"
proof -
  have "find P (rev vs) = (if filter P vs = [] then None else Some (last (filter P vs)))"
    for P and vs :: "requisition list"
    by (induction vs rule: rev_induct) auto
  then show ?thesis
    by (simp add: assms jget_kept requisition_lines_def)
qed

lemma found_requisition:
  assumes "requisitions_inv D s" and "jget (rd_requisitions s) q = Some r"
  shows "rq_id r = q \<and> q \<in> D \<and> (rq_state r = RqOpen \<longleftrightarrow> states_of q s = [RqOpen])
    \<and> (rq_state r = RqApproved \<longleftrightarrow> states_of q s = [RqOpen, RqApproved])
    \<and> (rq_state r = RqConsumed \<longleftrightarrow> states_of q s = [RqOpen, RqApproved, RqConsumed])"
proof -
  have kept: "rd_requisitions s = kept False rq_id (rd_requisition_log s)" and inv: "requisition_inv D q s"
    using assms(1) by (simp_all add: requisitions_inv_def)
  with latest_requisition [OF kept, of q] assms(2) have l: "requisition_lines q s \<noteq> []" "r = last (requisition_lines q s)"
    by (auto split: if_splits)
  then have "r \<in> set (requisition_lines q s)" by simp
  then have "rq_id r = q" by (simp add: requisition_lines_def)
  moreover have "rq_state r = last (states_of q s)" using l by (simp add: last_map)
  moreover have "states_of q s \<noteq> []" "q \<in> D" using l inv by (auto simp: requisition_inv_def)
  ultimately show ?thesis
    using inv by (auto simp: requisition_inv_def requisition_history_def)
qed

lemma requisitions_frame:
  assumes "requisitions_inv D s" and "rd_requisitions s' = rd_requisitions s"
    and "rd_requisition_log s' = rd_requisition_log s" and "D \<subseteq> D'"
    and "\<And>q. flights_of q s' = flights_of q s" and "rd_deciding s' = rd_deciding s"
  shows "requisitions_inv D' s'"
  using assms by (auto simp: requisitions_inv_def requisition_inv_def requisition_lines_def deciding_def)

lemma requisitions_launch:
  assumes inv: "requisitions_inv D s" and s': "rd_requisitions s' = rd_requisitions s"
      "rd_requisition_log s' = rd_requisition_log s" "rd_flights s' = rd_flights s @ [FlRequisition k r]"
    and D: "insert (rq_id r) D \<subseteq> D'"
    and others: "\<And>q. q \<noteq> rq_id r \<Longrightarrow> deciding q s' = deciding q s"
    and free: "flights_of (rq_id r) s = []"
    and ok: "requisition_flight_ok (rq_id r) (states_of (rq_id r) s) [FlRequisition k r] (deciding (rq_id r) s')"
  shows "requisitions_inv D' s'"
proof -
  have "requisition_inv D' q s'" for q
  proof (cases "q = rq_id r")
    case True
    with inv s' D free ok show ?thesis
      by (auto simp: requisitions_inv_def requisition_inv_def requisition_lines_def)
  next
    case False
    with inv s' D others [OF False] show ?thesis
      by (auto simp: requisitions_inv_def requisition_inv_def requisition_lines_def)
  qed
  with inv s' show ?thesis by (simp add: requisitions_inv_def)
qed

lemma requisition_flight_ok_iff:
  "requisition_flight_ok q sts fl d \<longleftrightarrow>
     fl = [] \<and> \<not> d
     \<or> (\<exists>r. fl = [FlRequisition FlRaise r] \<and> rq_id r = q \<and> sts = [] \<and> rq_state r = RqOpen \<and> \<not> d)
     \<or> (\<exists>r. fl = [FlRequisition FlDecide r] \<and> rq_id r = q \<and> sts = [RqOpen]
          \<and> rq_state r \<in> {RqApproved, RqRejected} \<and> d)
     \<or> (\<exists>r. fl = [FlRequisition FlAttach r] \<and> rq_id r = q \<and> sts = [RqOpen, RqApproved]
          \<and> rq_state r = RqConsumed \<and> \<not> d)"
proof (cases fl)
  case (Cons f fs)
  then show ?thesis
  proof (cases f)
    case (FlRequisition k r)
    with Cons show ?thesis
      by (cases k; cases fs) (simp_all add: requisition_flight_ok_def)
  qed (simp add: requisition_flight_ok_def)
qed (simp add: requisition_flight_ok_def)

lemma one_requisition_flight:
  assumes "requisition_flight_ok q sts fl d" and "fl \<noteq> []"
  obtains k r where "fl = [FlRequisition k r]"
  using assms unfolding requisition_flight_ok_iff by blast

text \<open>The end of an append: nothing is in flight for its requisition any more.\<close>

lemma settle_requisition_flight:
  assumes inv: "requisitions_inv D s" and n: "n < length (rd_flights s)"
    and f: "rd_flights s ! n = FlRequisition k r" and s': "s' = settle n outcome s"
  shows "flights_of (rq_id r) s = [FlRequisition k r]" and "flights_of (rq_id r) s' = []"
    and "\<And>q. q \<noteq> rq_id r \<Longrightarrow> flights_of q s' = flights_of q s \<and> requisition_lines q s' = requisition_lines q s"
    and "requisition_lines (rq_id r) s' = requisition_lines (rq_id r) s @ (if is_ok outcome then [r] else [])"
    and "requisitions_inv D s'"
proof -
  let ?q = "rq_id r"
  let ?fl = "take n (rd_flights s) @ drop (Suc n) (rd_flights s)"
  have fl: "rd_flights s' = ?fl"
    and log: "rd_requisition_log s' = rd_requisition_log s @ (if is_ok outcome then [r] else [])"
    and reg: "rd_requisitions s' = (if is_ok outcome then jset (rd_requisitions s) ?q r else rd_requisitions s)"
    and dec: "rd_deciding s' = (if k = FlDecide then jdel (rd_deciding s) ?q else rd_deciding s)"
    using n by (auto simp: s' settle_def f settle_requisition_def Let_def split: sum.split)
  have inv_q: "requisition_inv D ?q s" using inv by (simp add: requisitions_inv_def)
  have nth: "of_requisition ?q (rd_flights s ! n)" by (simp add: f)
  then have "flights_of ?q s \<noteq> []" using n by (auto simp: filter_empty_conv)
  with inv_q obtain y where y: "flights_of ?q s = [y]"
    by (auto simp: requisition_inv_def elim: one_requisition_flight)
  from remove_flight (2) [OF n, OF nth y] f
  show a: "flights_of ?q s = [FlRequisition k r]" and b: "flights_of ?q s' = []"
    by (simp_all add: y fl)
  show c: "flights_of q s' = flights_of q s \<and> requisition_lines q s' = requisition_lines q s" if "q \<noteq> ?q" for q
    using remove_flight (1) [OF n, of "of_requisition q"] f that by (simp add: fl log requisition_lines_def)
  show d: "requisition_lines ?q s' = requisition_lines ?q s @ (if is_ok outcome then [r] else [])"
    by (simp add: log requisition_lines_def)
  have "requisition_inv D q s'" for q
  proof (cases "q = ?q")
    case True
    have "requisition_flight_ok ?q (states_of ?q s) [FlRequisition k r] (deciding ?q s)" "?q \<in> D"
      "requisition_history (states_of ?q s)"
      using inv_q a by (auto simp: requisition_inv_def)
    with True b d dec show ?thesis
      by (cases k)
        (auto simp: requisition_inv_def requisition_flight_ok_def requisition_history_def deciding_def)
  next
    case False
    with inv c [OF False] dec show ?thesis
      by (auto simp: requisitions_inv_def requisition_inv_def deciding_def)
  qed
  moreover have "rd_requisitions s' = kept False rq_id (rd_requisition_log s')"
    using inv by (simp add: requisitions_inv_def reg log kept_snoc keep_def)
  ultimately show "requisitions_inv D s'" by (simp add: requisitions_inv_def)
qed

section \<open>The steps\<close>

text \<open>Operators' calls touch no claim.\<close>

lemma claims_frame:
  assumes "\<forall>q. claim_inv q h" and "\<forall>i. session_inv i h"
    and same: "rd_reserved rs = rd_reserved (hi_records h)"
      "\<And>q. requisition_lines q rs = requisition_lines q (hi_records h)"
      "\<And>q r. flights_of q rs = [FlRequisition FlAttach r] \<longleftrightarrow> flights_of q (hi_records h) = [FlRequisition FlAttach r]"
  shows "(\<forall>q. claim_inv q (h\<lparr>hi_records := rs\<rparr>)) \<and> (\<forall>i. session_inv i (h\<lparr>hi_records := rs\<rparr>))"
proof -
  have "claim_inv q (h\<lparr>hi_records := rs\<rparr>) = claim_inv q h" for q
    by (simp add: claim_inv_def same)
  moreover have "session_inv i (h\<lparr>hi_records := rs\<rparr>) = session_inv i h" for i
    by (simp add: session_defs same)
  ultimately show ?thesis using assms(1,2) by simp
qed

lemma desk_effect:
  assumes inv: "requisitions_inv D s" and e: "desk_event e" and new: "set (drawn e) \<inter> D = {}"
  shows "requisitions_inv (D \<union> set (drawn e)) (records_step e s)
    \<and> rd_reserved (records_step e s) = rd_reserved s
    \<and> (\<forall>q. requisition_lines q (records_step e s) = requisition_lines q s)
    \<and> (\<forall>q r. flights_of q (records_step e s) = [FlRequisition FlAttach r]
         \<longleftrightarrow> flights_of q s = [FlRequisition FlAttach r])"
proof (cases e)
  case (Raise b now i by' input)
  with new inv have f: "flights_of i s = []" "requisition_lines i s = []" "\<not> deciding i s"
    by (auto simp: requisitions_inv_def requisition_inv_def requisition_flight_ok_def)
  show ?thesis
  proof (cases "is_ok (snd (raise_requisition b now i by' input s))")
    case True
    then obtain r where l: "records_step e s = s\<lparr>rd_flights := rd_flights s @ [FlRequisition FlRaise r]\<rparr>"
      "rq_id r = i" "rq_state r = RqOpen"
      by (auto simp: Raise records_defs split: if_splits)
    have "requisitions_inv (D \<union> set (drawn e)) (records_step e s)"
      using f l by (intro requisitions_launch [OF inv, of _ FlRaise r])
        (auto simp: Raise deciding_def requisition_flight_ok_def)
    with l f show ?thesis by (auto simp: requisition_lines_def)
  next
    case False
    then have "records_step e s = s" by (auto simp: Raise records_defs split: if_splits)
    then show ?thesis using requisitions_frame [OF inv, of s] by simp
  qed
next
  case (Decide now i by' d)
  show ?thesis
  proof (cases "is_ok (snd (decide_requisition now i by' d s))")
    case True
    then obtain c where c: "jget (rd_requisitions s) i = Some c" "rq_state c = RqOpen" "jget (rd_deciding s) i = None"
      by (auto simp: records_defs split: option.splits if_splits prod.splits)
    let ?r = "c\<lparr>rq_state := decided_state d, rq_decided_by := Some by', rq_decided_at := Some now\<rparr>"
    from c have l: "records_step e s = s\<lparr>rd_deciding := jset (rd_deciding s) i (by', decided_state d),
        rd_flights := rd_flights s @ [FlRequisition FlDecide ?r]\<rparr>"
      by (simp add: Decide records_defs)
    from found_requisition [OF inv c(1)] c have st: "states_of i s = [RqOpen]" "rq_id c = i" "i \<in> D" by auto
    have "requisition_flight_ok i [RqOpen] (flights_of i s) False"
      using inv st c by (auto simp: requisitions_inv_def requisition_inv_def deciding_def jhas_def dest!: spec [of _ i])
    moreover from this have "flights_of i s = []"
      by (simp add: requisition_flight_ok_iff)
    ultimately have "requisitions_inv (D \<union> set (drawn e)) (records_step e s)"
      using st l by (intro requisitions_launch [OF inv, of _ FlDecide ?r])
        (auto simp: Decide deciding_def requisition_flight_ok_def decided_state_def)
    with l st \<open>flights_of i s = []\<close> show ?thesis by (auto simp: requisition_lines_def)
  next
    case False
    then have "records_step e s = s" by (auto simp: Decide records_defs split: option.splits if_splits prod.splits)
    then show ?thesis using requisitions_frame [OF inv, of s] by simp
  qed
qed (use e requisitions_frame [OF inv] in
    \<open>auto simp: records_defs requisition_lines_def split: option.splits intro!: requisitions_frame [OF inv]\<close>)

lemma hiring_desk:
  assumes inv: "hiring_inv D h" and new: "desk_event e \<Longrightarrow> set (drawn e) \<inter> D = {}"
  shows "hiring_inv (D \<union> set (drawn e)) (hiring_step (Desk e) h)"
proof (cases "desk_event e")
  case True
  with inv have "requisitions_inv D (hi_records h)" by (simp add: hiring_inv_def)
  from desk_effect [OF this True new [OF True]] claims_frame [of h "records_step e (hi_records h)"] inv True
  show ?thesis by (simp add: hiring_inv_def)
next
  case False
  then have "drawn e = []" by (cases e) auto
  with False inv show ?thesis by simp
qed

lemma session_claim:
  assumes "session_inv i h" and "jget (hi_claimed h) i = Some q"
  shows "states_of q (hi_records h) =
      (if jget (hi_attached h) i = Some (Inr ()) then [RqOpen, RqApproved, RqConsumed] else [RqOpen, RqApproved])"
  using assms by (auto simp: session_inv_def held_by_def spent_by_def)

lemma hiring_append:
  assumes inv: "hiring_inv D h"
  shows "hiring_inv D (hiring_step (AppendEnds n outcome) h)"
proof (cases "n < length (rd_flights (hi_records h))")
  case False
  with inv show ?thesis by (simp add: append_ends_def)
next
  case True
  let ?s = "hi_records h"
  let ?s' = "settle n outcome ?s"
  from inv have rinv: "requisitions_inv D ?s" and cl: "\<forall>q. claim_inv q h" and ses: "\<forall>i. session_inv i h"
    by (simp_all add: hiring_inv_def)
  show ?thesis
  proof (cases "rd_flights ?s ! n")
    case (FlReview k r)
    have fl: "flights_of q ?s' = flights_of q ?s" for q
      using remove_flight (1) [OF True, of "of_requisition q"] FlReview True
      by (simp add: settle_def settle_review_def Let_def split: sum.split)
    have frame: "rd_requisitions ?s' = rd_requisitions ?s" "rd_requisition_log ?s' = rd_requisition_log ?s"
      "rd_deciding ?s' = rd_deciding ?s" "rd_reserved ?s' = rd_reserved ?s"
      using FlReview by (simp_all add: settle_def settle_review_def Let_def split: sum.split)
    have "(\<forall>q. claim_inv q (h\<lparr>hi_records := ?s'\<rparr>)) \<and> (\<forall>i. session_inv i (h\<lparr>hi_records := ?s'\<rparr>))"
      by (intro claims_frame cl ses) (simp_all add: frame fl requisition_lines_def)
    moreover have "requisitions_inv D ?s'"
      by (rule requisitions_frame [OF rinv]) (simp_all add: frame fl)
    ultimately show ?thesis
      using True FlReview by (simp add: append_ends_def attach_ends_def hiring_inv_def)
  next
    case (FlRequisition k r)
    let ?q = "rq_id r"
    note s' = settle_requisition_flight [OF rinv True FlRequisition refl [of ?s']]
    have ok: "requisition_flight_ok ?q (states_of ?q ?s) [FlRequisition k r] (deciding ?q ?s)"
      using rinv s'(1) by (auto simp: requisitions_inv_def requisition_inv_def dest: spec [of _ ?q])
    have res: "rd_reserved ?s' =
        (if k = FlAttach \<and> is_ok outcome then removeAll ?q (rd_reserved ?s) else rd_reserved ?s)"
      using True by (auto simp: settle_def FlRequisition settle_requisition_def Let_def split: sum.split)
    show ?thesis
    proof (cases "k = FlAttach")
      case False
      with ok have st: "states_of ?q ?s \<in> {[], [RqOpen]}"
        by (auto simp: requisition_flight_ok_iff)
      have no_claim: "jget (hi_claimed h) i \<noteq> Some ?q" for i
        using session_claim [OF spec [OF ses, of i], of ?q] st by (auto split: if_splits)
      have "claim_inv q (h\<lparr>hi_records := ?s'\<rparr>)" for q
        using cl s'(2) s'(3) [of q] no_claim False
        by (cases "q = ?q") (auto simp: claim_inv_def res)
      moreover have "session_inv i (h\<lparr>hi_records := ?s'\<rparr>)" for i
      proof -
        have "held_by q i (h\<lparr>hi_records := ?s'\<rparr>) = held_by q i h" if "jget (hi_claimed h) i = Some q" for q
          using s'(3) [of q] no_claim [of i] that by (cases "q = ?q") (auto simp: held_by_def spent_by_def)
        moreover have "spent_by q i ?s'" if "spent_by q i ?s" for q
          using s'(3) [of q] st that by (cases "q = ?q") (auto simp: spent_by_def)
        ultimately show ?thesis
          using spec [OF ses, of i] by (simp add: session_inv_def control_inv_def)
      qed
      ultimately show ?thesis
        using True FlRequisition False s'(5)
        by (cases k) (simp_all add: append_ends_def attach_ends_def hiring_inv_def)
    next
      case True': True
      have c: "claim_inv ?q h" using cl by simp
      with s'(1) True' obtain i where i: "jget (hi_claimed h) i = Some ?q" "rq_session r = Some i"
          "jget (hi_attached h) i = None" "at_state (get_attempt i (hi_attempts h)) = Committing"
        by (auto simp: claim_inv_def)
      let ?res = "attach_result outcome"
      let ?h' = "h\<lparr>hi_records := ?s', hi_attached := jset (hi_attached h) i ?res\<rparr>"
      have st: "states_of ?q ?s = [RqOpen, RqApproved]" "rq_state r = RqConsumed"
        using ok True' by (auto simp: requisition_flight_ok_iff)
      have only: "jget (hi_claimed h) j = Some ?q \<Longrightarrow> j = i" for j
        using c i(1) by (auto simp: claim_inv_def)
      have res_ok: "?res = Inr () \<longleftrightarrow> is_ok outcome"
        by (cases outcome) (simp_all add: attach_result_def)
      have reserved: "?q \<in> set (rd_reserved ?s)"
        using c i by (auto simp: claim_inv_def)
      have "claim_inv q ?h'" for q
      proof (cases "q = ?q")
        case True
        have holders: "jget (hi_claimed h) j = Some ?q \<longleftrightarrow> j = i" for j
          using i(1) only [of j] by blast
        show ?thesis
          using True s'(2) reserved by (simp add: claim_inv_def holders res True' res_ok)
      next
        case False
        have same: "jget (jset (hi_attached h) i ?res) j = jget (hi_attached h) j"
          if "jget (hi_claimed h) j = Some q" for j
          using i(1) False that by (auto simp: jget_jset)
        have "claim_inv q ?h' = claim_inv q h"
          using s'(3) [OF False] False by (simp add: claim_inv_def res True' same cong: conj_cong)
        with cl show ?thesis by simp
      qed
      moreover have "session_inv j ?h'" for j
      proof (cases "j = i")
        case True
        have "held_by ?q i ?h'"
        proof (cases "is_ok outcome")
          case True
          then have "spent_by ?q i ?s'"
            by (simp only: spent_by_def s'(4)) (simp add: st i)
          with True show ?thesis by (simp add: held_by_def res_ok)
        next
          case False
          then have "states_of ?q ?s' = [RqOpen, RqApproved]"
            by (simp only: s'(4)) (simp add: st)
          with False show ?thesis by (simp add: held_by_def res_ok)
        qed
        moreover have "control_inv i ?h'"
          using spec [OF ses, of i] i by (simp add: session_inv_def control_inv_def control_ok_def)
        ultimately show ?thesis using True i by (simp add: session_inv_def)
      next
        case False
        have "held_by q j ?h' = held_by q j h" if "jget (hi_claimed h) j = Some q" for q
        proof -
          from that only False have "q \<noteq> ?q" by blast
          from s'(3) [OF this] False show ?thesis by (simp add: held_by_def spent_by_def)
        qed
        moreover have "spent_by q j ?s'" if "spent_by q j ?s" for q
          using s'(3) [of q] st that by (cases "q = ?q") (auto simp: spent_by_def)
        ultimately show ?thesis
          using spec [OF ses, of j] False by (simp add: session_inv_def control_inv_def)
      qed
      ultimately show ?thesis
        using True FlRequisition True' s'(5) i(2)
        by (simp add: append_ends_def attach_ends_def hiring_inv_def)
    qed
  qed
qed

lemma attempt_jset: "get_attempt j (jset m i a) = (if j = i then a else get_attempt j m)"
  by (simp add: get_attempt_def jget_jset)

lemma session_same:
  assumes "session_inv j h" and "get_attempt j (hi_attempts h') = get_attempt j (hi_attempts h)"
    and "jget (hi_claimed h') j = jget (hi_claimed h) j" and "jget (hi_prepared h') j = jget (hi_prepared h) j"
    and "jget (hi_attached h') j = jget (hi_attached h) j" and "jget (hi_asked h') j = jget (hi_asked h) j"
    and lines: "\<And>q. requisition_lines q (hi_records h') = requisition_lines q (hi_records h)"
    and fl: "\<And>q. jget (hi_claimed h) j = Some q \<Longrightarrow> flights_of q (hi_records h') = flights_of q (hi_records h)"
  shows "session_inv j h'"
proof -
  have "held_by q j h' = held_by q j h" if "jget (hi_claimed h) j = Some q" for q
    by (simp only: held_by_def spent_by_def assms(2,5) lines fl [OF that])
  moreover have "spent_by q j (hi_records h') = spent_by q j (hi_records h)" for q
    by (simp only: spent_by_def lines)
  moreover have "control_inv j h' = control_inv j h"
    by (simp only: control_inv_def assms(2-6))
  ultimately show ?thesis
    using assms(1) by (simp only: session_inv_def assms(2,3,6)) simp
qed

lemma claim_same:
  assumes "claim_inv q h"
    and holders: "\<And>j. jget (hi_claimed h') j = Some q \<longleftrightarrow> jget (hi_claimed h) j = Some q"
    and same: "\<And>j. jget (hi_claimed h) j = Some q \<Longrightarrow> jget (hi_attached h') j = jget (hi_attached h) j
        \<and> (at_state (get_attempt j (hi_attempts h')) = Committing
             \<longleftrightarrow> at_state (get_attempt j (hi_attempts h)) = Committing)"
    and reserved: "q \<in> set (rd_reserved (hi_records h')) \<longleftrightarrow> q \<in> set (rd_reserved (hi_records h))"
    and flights: "flights_of q (hi_records h') = flights_of q (hi_records h)"
  shows "claim_inv q h'"
proof -
  have e1: "(\<exists>j. jget (hi_claimed h) j = Some q \<and> jget (hi_attached h') j \<noteq> Some (Inr ()))
      \<longleftrightarrow> (\<exists>j. jget (hi_claimed h) j = Some q \<and> jget (hi_attached h) j \<noteq> Some (Inr ()))"
    using same by metis
  have e2: "(\<exists>j. jget (hi_claimed h) j = Some q \<and> rq_session r = Some j \<and> jget (hi_attached h') j = None
        \<and> at_state (get_attempt j (hi_attempts h')) = Committing)
      \<longleftrightarrow> (\<exists>j. jget (hi_claimed h) j = Some q \<and> rq_session r = Some j \<and> jget (hi_attached h) j = None
        \<and> at_state (get_attempt j (hi_attempts h)) = Committing)" for r
    using same by metis
  from assms(1) show ?thesis
    unfolding claim_inv_def holders flights e1 e2 reserved .
qed

text \<open>A step that moves one attempt and leaves every claim.\<close>

lemma hiring_quiet:
  assumes inv: "hiring_inv D h" and p: "\<And>j. j \<noteq> i \<Longrightarrow> jget p j = jget (hi_prepared h) j"
    and ok: "control_ok a' (jget (hi_claimed h) i) (jget p i) (jget (hi_attached h) i) (jget (hi_asked h) i)"
    and st: "at_state a' = Committing \<longleftrightarrow> at_state (get_attempt i (hi_attempts h)) = Committing"
      "at_state a' = Committed \<Longrightarrow> at_state (get_attempt i (hi_attempts h)) = Committed"
  shows "hiring_inv D (h\<lparr>hi_attempts := jset (hi_attempts h) i a', hi_prepared := p\<rparr>)"
proof -
  let ?h' = "h\<lparr>hi_attempts := jset (hi_attempts h) i a', hi_prepared := p\<rparr>"
  have comm: "at_state (get_attempt j (jset (hi_attempts h) i a')) = Committing \<longleftrightarrow>
      at_state (get_attempt j (hi_attempts h)) = Committing" for j
    using st(1) by (simp add: attempt_jset)
  have "claim_inv q ?h' = claim_inv q h" for q
    by (simp add: claim_inv_def comm)
  moreover have "held_by q j ?h' = held_by q j h" for q j
    by (simp add: held_by_def comm)
  moreover have "control_inv j ?h'" if "control_inv j h" for j
    using that ok p by (cases "j = i") (simp_all add: control_inv_def attempt_jset)
  moreover have "at_state (get_attempt j (hi_attempts ?h')) = Committed \<Longrightarrow>
      at_state (get_attempt j (hi_attempts h)) = Committed" for j
    using st(2) by (cases "j = i") (simp_all add: attempt_jset)
  ultimately show ?thesis
    using inv by (simp add: hiring_inv_def session_inv_def)
qed

lemma release_frame:
  assumes "requisitions_inv D s"
  shows "requisitions_inv D (fst (release_requisition q s))"
    and "rd_reserved (fst (release_requisition q s)) = removeAll q (rd_reserved s)"
    and "requisition_lines q' (fst (release_requisition q s)) = requisition_lines q' s"
    and "rd_flights (fst (release_requisition q s)) = rd_flights s"
  using requisitions_frame [OF assms]
  by (simp_all add: release_requisition_def requisition_lines_def)

text \<open>An attempt that gives up releases its claim.\<close>

lemma hiring_gives_up:
  assumes inv: "hiring_inv D h" and p: "\<And>j. j \<noteq> i \<Longrightarrow> jget p j = jget (hi_prepared h) j"
    and a': "at_state a' = Aborted" "\<exists>effs. attempt_inv a' effs" "jget p i \<noteq> None \<Longrightarrow> at_preparation a' = Some None"
    and att: "jget (hi_attached h) i \<noteq> Some (Inr ())"
    and fl: "at_state (get_attempt i (hi_attempts h)) = Committing \<Longrightarrow> jget (hi_attached h) i \<noteq> None"
  shows "hiring_inv D (host_abort i (h\<lparr>hi_attempts := jset (hi_attempts h) i a', hi_prepared := p,
      hi_attached := jdel (hi_attached h) i\<rparr>))" (is "hiring_inv D ?h'")
proof -
  from inv have rinv: "requisitions_inv D (hi_records h)" and cl: "\<And>q. claim_inv q h" and ses: "\<And>i. session_inv i h"
    by (simp_all add: hiring_inv_def)
  have claimed: "jget (hi_claimed ?h') j = (if j = i then None else jget (hi_claimed h) j)" for j
    by (auto simp: host_abort_def jget_jdel split: option.split)
  have attached: "jget (hi_attached ?h') j = (if j = i then None else jget (hi_attached h) j)" for j
    by (simp add: host_abort_def jget_jdel split: option.split)
  have rest: "hi_attempts ?h' = jset (hi_attempts h) i a'" "hi_asked ?h' = hi_asked h" "hi_prepared ?h' = p"
    by (simp_all add: host_abort_def split: option.split)
  have recs: "requisitions_inv D (hi_records ?h')"
    and lines: "requisition_lines q (hi_records ?h') = requisition_lines q (hi_records h)"
    and flights: "rd_flights (hi_records ?h') = rd_flights (hi_records h)"
    and reserved: "set (rd_reserved (hi_records ?h')) =
      {q \<in> set (rd_reserved (hi_records h)). jget (hi_claimed h) i \<noteq> Some q}" for q
    using rinv release_frame [OF rinv] by (auto simp: host_abort_def split: option.split)
  have no_flight: "flights_of q (hi_records h) \<noteq> [FlRequisition FlAttach r]" if "jget (hi_claimed h) i = Some q" for q r
  proof
    assume "flights_of q (hi_records h) = [FlRequisition FlAttach r]"
    with cl [of q] that have "jget (hi_attached h) i = None \<and> at_state (get_attempt i (hi_attempts h)) = Committing"
      unfolding claim_inv_def by blast
    with fl show False by simp
  qed
  have "claim_inv q ?h'" for q
  proof (cases "jget (hi_claimed h) i = Some q")
    case True
    have "jget (hi_claimed h) j = Some q \<longleftrightarrow> j = i" for j
      using True cl [of q] unfolding claim_inv_def by blast
    with no_flight [OF True] True show ?thesis
      unfolding claim_inv_def claimed reserved flights by simp
  next
    case False
    have "jget (hi_attached ?h') j = jget (hi_attached h) j
        \<and> get_attempt j (hi_attempts ?h') = get_attempt j (hi_attempts h)"
      if "jget (hi_claimed h) j = Some q" for j
      using that False by (cases "j = i") (simp_all add: attached rest attempt_jset)
    with False show ?thesis
      by (intro claim_same [OF cl]) (simp_all add: claimed reserved flights)
  qed
  moreover have "session_inv j ?h'" for j
  proof (cases "j = i")
    case True
    have "control_inv i ?h'"
      using ses [of i] a'
      by (simp add: session_inv_def control_inv_def control_ok_def claimed attached rest attempt_jset split: option.split sum.split)
    with True a' show ?thesis
      by (simp add: session_inv_def claimed rest attempt_jset)
  next
    case False
    then show ?thesis
      by (intro session_same [OF ses [of j]]) (simp_all add: p claimed attached rest lines flights attempt_jset)
  qed
  ultimately show ?thesis using recs by (simp add: hiring_inv_def)
qed

text \<open>The steps of one attempt, with what they start.\<close>

lemma hiring_prepare:
  assumes inv: "hiring_inv D h"
  shows "hiring_inv D (hiring_step (Prepare i data) h)"
proof -
  let ?a = "get_attempt i (hi_attempts h)"
  from inv have rinv: "requisitions_inv D (hi_records h)" and cl: "\<And>q. claim_inv q h" and ses: "\<And>i. session_inv i h"
    by (simp_all add: hiring_inv_def)
  have ctl: "control_ok ?a (jget (hi_claimed h) i) (jget (hi_prepared h) i) (jget (hi_attached h) i) (jget (hi_asked h) i)"
    using ses [of i] by (simp add: session_inv_def control_inv_def)
  show ?thesis
  proof (cases "at_state ?a = Aborted \<or> at_preparation ?a \<noteq> None")
    case True
    then have "hiring_step (Prepare i data) h = h\<lparr>hi_attempts := jset (hi_attempts h) i ?a, hi_prepared := hi_prepared h\<rparr>"
      by (auto simp: drive_def call_prepare_def Let_def)
    with hiring_quiet [OF inv, of i "hi_prepared h" ?a] ctl show ?thesis by simp
  next
    case False
    let ?a' = "?a\<lparr>at_preparation := Some None\<rparr>"
    have a: "at_state ?a = New" "at_committing ?a = None" "at_preparation ?a = None"
      using ctl False by (auto simp: control_ok_def attempt_inv_def intro: attempt_state.exhaust [of "at_state ?a"])
    then have free: "jget (hi_claimed h) i = None" "jget (hi_attached h) i = None"
      using ctl by (auto simp: control_ok_def)
    have inv_a': "\<exists>effs. attempt_inv ?a' effs"
      using a by (auto simp: attempt_inv_def)
    let ?h0 = "h\<lparr>hi_attempts := jset (hi_attempts h) i ?a', hi_asked := jset (hi_asked h) i data\<rparr>"
    have step: "hiring_step (Prepare i data) h = host_prepare i data ?h0"
      using False by (simp add: drive_def call_prepare_def Let_def)
    have comm: "at_state (get_attempt j (jset (hi_attempts h) i ?a')) = at_state (get_attempt j (hi_attempts h))" for j
      by (simp add: attempt_jset)
    have quiet: "hiring_inv D (?h0\<lparr>hi_prepared := jset (hi_prepared h) i r\<rparr>)"
      if r: "r = Inr () \<Longrightarrow> data = None" for r
    proof -
      let ?h' = "?h0\<lparr>hi_prepared := jset (hi_prepared h) i r\<rparr>"
      have "claim_inv q ?h' = claim_inv q h" for q
        by (simp add: claim_inv_def comm)
      moreover have "session_inv j ?h'" for j
      proof (cases "j = i")
        case True
        have "control_ok ?a' None (Some r) None (Some data)"
          using inv_a' a r by (cases r) (auto simp: control_ok_def split: option.split)
        with True free a show ?thesis
          by (simp add: session_inv_def control_inv_def attempt_jset)
      next
        case False
        then show ?thesis
          by (intro session_same [OF ses [of j]]) (simp_all add: attempt_jset)
      qed
      ultimately show ?thesis using inv by (simp add: hiring_inv_def)
    qed
    show ?thesis
    proof (cases data)
      case None
      with quiet [of "Inr ()"] show ?thesis unfolding step by (simp add: None host_prepare_def)
    next
      case (Some q)
      show ?thesis
      proof (cases "is_ok (snd (claim_requisition q (hi_records h)))")
        case False
        then have "fst (claim_requisition q (hi_records h)) = hi_records h"
          by (auto simp: claim_requisition_def refuse_def split: option.splits if_splits)
        moreover have "host_result (snd (claim_requisition q (hi_records h))) \<noteq> Inr ()"
          using False by (cases "snd (claim_requisition q (hi_records h))") (simp_all add: host_result_def)
        ultimately show ?thesis
          using quiet [of "host_result (snd (claim_requisition q (hi_records h)))"] False
          unfolding step by (simp add: Some host_prepare_def Let_def split_beta)
      next
        case True
        then obtain r where r: "jget (rd_requisitions (hi_records h)) q = Some r" "rq_state r = RqApproved"
            "q \<notin> set (rd_reserved (hi_records h))"
          by (auto simp: claim_requisition_def refuse_def split: option.splits if_splits)
        let ?rs = "hi_records h\<lparr>rd_reserved := q # rd_reserved (hi_records h)\<rparr>"
        let ?h' = "?h0\<lparr>hi_records := ?rs, hi_claimed := jset (hi_claimed h) i q,
            hi_prepared := jset (hi_prepared h) i (Inr ())\<rparr>"
        have h': "hiring_step (Prepare i data) h = ?h'"
          using r unfolding step by (simp add: Some host_prepare_def claim_requisition_def host_result_def)
        have st: "states_of q (hi_records h) = [RqOpen, RqApproved]"
          using found_requisition [OF rinv r(1)] r by simp
        have nobody: "jget (hi_claimed h) j \<noteq> Some q" for j
        proof
          assume j: "jget (hi_claimed h) j = Some q"
          with cl [of q] r(3) have "jget (hi_attached h) j = Some (Inr ())"
            unfolding claim_inv_def by blast
          with session_claim [OF ses j] st show False by simp
        qed
        have no_flight: "flights_of q (hi_records h) \<noteq> [FlRequisition FlAttach f]" for f
          using cl [of q] nobody unfolding claim_inv_def by blast
        have "claim_inv p ?h'" for p
        proof (cases "p = q")
          case True
          with no_flight nobody free show ?thesis
            by (simp add: claim_inv_def jget_jset)
        next
          case False
          then have holders: "jget (hi_claimed ?h') j = Some p \<longleftrightarrow> jget (hi_claimed h) j = Some p" for j
            using free by (simp add: jget_jset)
          have "claim_inv p ?h' = claim_inv p h"
            unfolding claim_inv_def holders by (simp add: False comm)
          with cl show ?thesis by simp
        qed
        moreover have "session_inv j ?h'" for j
        proof (cases "j = i")
          case True
          have "control_ok ?a' (Some q) (Some (Inr ())) None (Some (Some q))"
            using inv_a' a by (auto simp: control_ok_def)
          with True Some free a st show ?thesis
            by (simp add: session_inv_def control_inv_def attempt_jset held_by_def requisition_lines_def)
        next
          case False
          then show ?thesis
            by (intro session_same [OF ses [of j]]) (simp_all add: attempt_jset requisition_lines_def)
        qed
        moreover have "requisitions_inv D ?rs"
          by (rule requisitions_frame [OF rinv]) simp_all
        ultimately show ?thesis by (simp only: h') (simp add: hiring_inv_def)
      qed
    qed
  qed
qed

lemma hiring_control:
  assumes "hiring_inv D h"
  shows "control_ok (get_attempt i (hi_attempts h)) (jget (hi_claimed h) i) (jget (hi_prepared h) i)
     (jget (hi_attached h) i) (jget (hi_asked h) i)"
  using assms by (simp add: hiring_inv_def session_inv_def control_inv_def)

lemma control_ok_idle [simp]:
  "control_ok (a\<lparr>at_waiting := w\<rparr>) = control_ok a" "control_ok (a\<lparr>at_signalled := b\<rparr>) = control_ok a"
proof -
  have e: "attempt_inv (a\<lparr>at_waiting := w\<rparr>) = attempt_inv a" "attempt_inv (a\<lparr>at_signalled := b\<rparr>) = attempt_inv a"
    by (simp_all add: fun_eq_iff)
  show "control_ok (a\<lparr>at_waiting := w\<rparr>) = control_ok a" "control_ok (a\<lparr>at_signalled := b\<rparr>) = control_ok a"
    by (simp_all add: control_ok_def fun_eq_iff e split: option.split)
qed

lemma update_order:
  "h\<lparr>hi_prepared := p, hi_attempts := as\<rparr> = h\<lparr>hi_attempts := as, hi_prepared := p\<rparr>"
  "h\<lparr>hi_attached := m, hi_attempts := as\<rparr> = h\<lparr>hi_attempts := as, hi_attached := m\<rparr>"
  by simp_all

lemma hiring_prepare_returns:
  assumes inv: "hiring_inv D h"
  shows "hiring_inv D (hiring_step (PrepareReturns i) h)"
proof (cases "jget (hi_prepared h) i")
  case None
  with inv show ?thesis by simp
next
  case (Some r)
  let ?a = "get_attempt i (hi_attempts h)"
  let ?p = "jdel (hi_prepared h) i"
  note ctl = hiring_control [OF inv, of i]
  have prep: "at_preparation ?a = Some None" "at_state ?a = New \<or> at_state ?a = Aborted"
    using ctl Some by (cases "at_state ?a"; auto simp: control_ok_def attempt_inv_def)+
  then have att: "jget (hi_attached h) i = None"
    using ctl by (auto simp: control_ok_def)
  obtain effs where effs: "attempt_inv ?a effs" using ctl by (auto simp: control_ok_def)
  obtain a' new where s: "settle_prepare r ?a = (a', new)" by fastforce
  have inv_a': "attempt_inv a' (effs @ new)" by (rule attempt_inv_settle_prepare [OF effs s])
  have step: "hiring_step (PrepareReturns i) h =
      fold (perform i None) new (h\<lparr>hi_attempts := jset (hi_attempts h) i a', hi_prepared := ?p\<rparr>)"
    using Some s by (simp add: drive_def update_order)
  show ?thesis
  proof (cases "at_state ?a = New \<and> is_ok r")
    case True
    with s prep have a': "a' = ?a\<lparr>at_state := Prepared, at_preparation := Some (Some r)\<rparr>" "new = []"
      by (auto simp: settle_prepare_def)
    have "control_ok a' (jget (hi_claimed h) i) (jget ?p i) (jget (hi_attached h) i) (jget (hi_asked h) i)"
      using ctl inv_a' a' Some True att by (auto simp: control_ok_def is_ok_cases split: option.splits)
    with hiring_quiet [OF inv, of i ?p a'] a' True show ?thesis
      unfolding step by simp
  next
    case False
    with s prep have a': "at_state a' = Aborted" "new = [EffAbort]"
      by (auto simp: settle_prepare_def split: if_splits)
    have "hiring_inv D (host_abort i (h\<lparr>hi_attempts := jset (hi_attempts h) i a', hi_prepared := ?p,
        hi_attached := jdel (hi_attached h) i\<rparr>))"
      using a' inv_a' att prep by (intro hiring_gives_up [OF inv]) auto
    with att a' show ?thesis
      unfolding step by (simp add: jdel_fresh)
  qed
qed

lemma hiring_commit:
  assumes inv: "hiring_inv D h"
  shows "hiring_inv D (hiring_step (Commit i) h)"
proof -
  let ?a = "get_attempt i (hi_attempts h)"
  note ctl = hiring_control [OF inv, of i]
  from inv have rinv: "requisitions_inv D (hi_records h)" and cl: "\<And>q. claim_inv q h" and ses: "\<And>i. session_inv i h"
    by (simp_all add: hiring_inv_def)
  show ?thesis
  proof (cases "at_committing ?a \<noteq> None \<or> at_state ?a \<noteq> Prepared")
    case True
    then have "hiring_step (Commit i) h = h\<lparr>hi_attempts := jset (hi_attempts h) i ?a, hi_prepared := hi_prepared h\<rparr>"
      by (auto simp: drive_def call_commit_def Let_def)
    with hiring_quiet [OF inv, of i "hi_prepared h" ?a] ctl show ?thesis by simp
  next
    case False
    let ?a' = "?a\<lparr>at_state := Committing, at_committing := Some None\<rparr>"
    let ?as = "jset (hi_attempts h) i ?a'"
    have step: "hiring_step (Commit i) h = host_commit i (h\<lparr>hi_attempts := ?as\<rparr>)"
      using False by (simp add: drive_def call_commit_def Let_def)
    have inv_a': "\<exists>effs. attempt_inv ?a' effs"
      using ctl False by (auto simp: control_ok_def attempt_inv_def)
    have att: "jget (hi_attached h) i = None" "jget (hi_prepared h) i = None"
      using ctl False by (auto simp: control_ok_def attempt_inv_def)
    have others: "at_state (get_attempt j ?as) = Committing" if "at_state (get_attempt j (hi_attempts h)) = Committing" for j
      using that by (simp add: attempt_jset)
    show ?thesis
    proof (cases "jget (hi_claimed h) i")
      case None
      let ?h' = "h\<lparr>hi_attempts := ?as, hi_attached := jset (hi_attached h) i (Inr ())\<rparr>"
      have ne: "j \<noteq> i" if "jget (hi_claimed h) j = Some q" for j q
        using that None by auto
      have "claim_inv q ?h'" for q
        using ne [of _ q] by (intro claim_same [OF cl]) (simp_all add: attempt_jset)
      moreover have "session_inv j ?h'" for j
      proof (cases "j = i")
        case True
        have "control_ok ?a' None None (Some (Inr ())) (jget (hi_asked h) i)"
          using ctl inv_a' False None by (auto simp: control_ok_def split: option.splits)
        with True None att show ?thesis by (simp add: session_inv_def control_inv_def attempt_jset)
      next
        case False
        then show ?thesis by (intro session_same [OF ses [of j]]) (simp_all add: attempt_jset)
      qed
      ultimately show ?thesis
        using inv unfolding step by (simp add: host_commit_def None hiring_inv_def)
    next
      case (Some q)
      have st: "states_of q (hi_records h) = [RqOpen, RqApproved]"
        using session_claim [OF ses Some] att by simp
      have sole: "jget (hi_claimed h) j = Some q \<longleftrightarrow> j = i" for j
        using Some cl [of q] unfolding claim_inv_def by blast
      have no_flight: "flights_of q (hi_records h) \<noteq> [FlRequisition FlAttach f]" for f
        using cl [of q] sole False unfolding claim_inv_def by auto
      have rinv_q: "requisition_inv D q (hi_records h)" using rinv by (simp add: requisitions_inv_def)
      with no_flight have none: "flights_of q (hi_records h) = []" "\<not> deciding q (hi_records h)" "q \<in> D"
        using rinv_q st by (auto simp: requisition_inv_def requisition_flight_ok_iff)
      have "requisition_lines q (hi_records h) \<noteq> []" using st by auto
      then obtain r where r: "jget (rd_requisitions (hi_records h)) q = Some r"
        using rinv latest_requisition [of "hi_records h" q] by (auto simp: requisitions_inv_def)
      with found_requisition [OF rinv] have id: "rq_id r = q" by blast
      let ?r = "r\<lparr>rq_state := RqConsumed, rq_session := Some i\<rparr>"
      let ?rs = "hi_records h\<lparr>rd_flights := rd_flights (hi_records h) @ [FlRequisition FlAttach ?r]\<rparr>"
      let ?h' = "h\<lparr>hi_attempts := ?as, hi_records := ?rs\<rparr>"
      have h': "hiring_step (Commit i) h = ?h'"
        unfolding step by (simp add: host_commit_def Some attach_session_def r launch_def)
      have lines: "requisition_lines p ?rs = requisition_lines p (hi_records h)" for p
        by (simp add: requisition_lines_def)
      have "requisitions_inv D ?rs"
        using none st id by (intro requisitions_launch [OF rinv, of _ FlAttach ?r])
          (auto simp: deciding_def requisition_flight_ok_iff)
      moreover have "claim_inv p ?h'" for p
      proof (cases "p = q")
        case True
        have "q \<in> set (rd_reserved (hi_records h))"
          using cl [of q] Some att unfolding claim_inv_def by auto
        with True none id att show ?thesis
          by (simp add: claim_inv_def sole attempt_jset)
      next
        case False
        then have ne: "j \<noteq> i" if "jget (hi_claimed h) j = Some p" for j
          using that Some by auto
        show ?thesis
          using ne False id by (intro claim_same [OF cl]) (simp_all add: attempt_jset)
      qed
      moreover have "session_inv j ?h'" for j
      proof (cases "j = i")
        case True
        have "control_ok ?a' (Some q) None None (jget (hi_asked h) i)"
          using ctl inv_a' False Some by (auto simp: control_ok_def split: option.splits)
        moreover have "held_by q i ?h'"
          using none st id att by (simp add: held_by_def lines)
        ultimately show ?thesis
          using True Some att by (simp add: session_inv_def control_inv_def attempt_jset)
      next
        case False
        have "p \<noteq> q" if "jget (hi_claimed h) j = Some p" for p
          using that sole False by auto
        with False id show ?thesis
          by (intro session_same [OF ses [of j]]) (auto simp: attempt_jset lines)
      qed
      ultimately show ?thesis unfolding h' by (simp add: hiring_inv_def)
    qed
  qed
qed

lemma committing_claim:
  assumes "control_ok a claim prepared attached asked" and "at_state a = Committing"
  shows "prepared = None" and "at_committing a = Some None"
    and "case asked of Some (Some q) \<Rightarrow> claim = Some q | _ \<Rightarrow> True"
  using assms by (auto simp: control_ok_def attempt_inv_def split: option.splits)

lemma hiring_commit_returns:
  assumes inv: "hiring_inv D h"
  shows "hiring_inv D (hiring_step (CommitReturns i) h)"
proof (cases "jget (hi_attached h) i")
  case None
  with inv show ?thesis by simp
next
  case (Some r)
  let ?a = "get_attempt i (hi_attempts h)"
  note ctl = hiring_control [OF inv, of i]
  from inv have rinv: "requisitions_inv D (hi_records h)" and cl: "\<And>q. claim_inv q h" and ses: "\<And>i. session_inv i h"
    by (simp_all add: hiring_inv_def)
  have st: "at_state ?a = Committing" using ctl Some by (auto simp: control_ok_def)
  note facts = committing_claim [OF ctl st]
  obtain effs where effs: "attempt_inv ?a effs" using ctl by (auto simp: control_ok_def)
  show ?thesis
  proof (cases "is_ok r")
    case True
    let ?a' = "?a\<lparr>at_state := Committed, at_committing := Some (Some r)\<rparr>"
    let ?h' = "h\<lparr>hi_attempts := jset (hi_attempts h) i ?a', hi_attached := jdel (hi_attached h) i,
        hi_claimed := jdel (hi_claimed h) i\<rparr>"
    have h': "hiring_step (CommitReturns i) h = ?h'"
      using Some True facts by (simp add: drive_def settle_commit_def)
    have s: "settle_commit r ?a = (?a', [])" using True facts by (simp add: settle_commit_def)
    have inv_a': "\<exists>effs. attempt_inv ?a' effs"
      using attempt_inv_settle_commit [OF effs s] by blast
    have r: "jget (hi_attached h) i = Some (Inr ())" using True Some by (cases r) simp_all
    have "claim_inv q ?h'" for q
    proof (cases "jget (hi_claimed h) i = Some q")
      case True
      have sole: "jget (hi_claimed h) j = Some q \<longleftrightarrow> j = i" for j
        using True cl [of q] unfolding claim_inv_def by blast
      have "q \<notin> set (rd_reserved (hi_records h))" "flights_of q (hi_records h) \<noteq> [FlRequisition FlAttach f]" for f
        using cl [of q] sole r unfolding claim_inv_def by auto
      with sole show ?thesis by (simp add: claim_inv_def jget_jdel)
    next
      case False
      then have "jget (hi_claimed h) j = Some q \<Longrightarrow> j \<noteq> i" for j by auto
      with False show ?thesis
        by (intro claim_same [OF cl]) (simp_all add: attempt_jset jget_jdel)
    qed
    moreover have "session_inv j ?h'" for j
    proof (cases "j = i")
      case True
      have "spent_by q i (hi_records h)" if "jget (hi_asked h) i = Some (Some q)" for q
        using ses [of i] that facts(3) r by (simp add: session_inv_def held_by_def)
      moreover have "control_ok ?a' None None None (jget (hi_asked h) i)"
        using inv_a' by (auto simp: control_ok_def split: option.split)
      ultimately show ?thesis
        using True facts(1) by (simp add: session_inv_def control_inv_def attempt_jset)
    next
      case False
      then show ?thesis by (intro session_same [OF ses [of j]]) (simp_all add: attempt_jset)
    qed
    ultimately show ?thesis using rinv unfolding h' by (simp add: hiring_inv_def)
  next
    case False
    let ?a' = "?a\<lparr>at_state := Aborted, at_committing := Some (Some r)\<rparr>"
    have s: "settle_commit r ?a = (?a', [EffAbort])" using False facts by (simp add: settle_commit_def)
    have h': "hiring_step (CommitReturns i) h = host_abort i (h\<lparr>hi_attempts := jset (hi_attempts h) i ?a',
        hi_prepared := hi_prepared h, hi_attached := jdel (hi_attached h) i\<rparr>)"
      using Some False s by (simp add: drive_def update_order)
    have "\<exists>effs. attempt_inv ?a' effs"
      using attempt_inv_settle_commit [OF effs s] by blast
    then show ?thesis
      unfolding h' using facts(1) Some False
      by (intro hiring_gives_up [OF inv]) auto
  qed
qed

text \<open>An abort that goes through, called at once or after the commit it waited for.\<close>

lemma hiring_abort_rest:
  assumes inv: "hiring_inv D h" and st: "at_state (get_attempt i (hi_attempts h)) \<noteq> Committing"
    and a: "a = get_attempt i (hi_attempts h)\<lparr>at_waiting := w\<rparr>" and ab: "abort_rest a = (a', effs, r)"
  shows "hiring_inv D (fold (perform i None) effs (h\<lparr>hi_attempts := jset (hi_attempts h) i a'\<rparr>))"
proof -
  note ctl = hiring_control [OF inv, of i]
  obtain effs0 where effs0: "attempt_inv a effs0" using ctl by (auto simp: control_ok_def a)
  have inv_a': "attempt_inv a' (effs0 @ effs)"
    using st by (intro attempt_inv_abort_rest [OF effs0 _ ab]) (simp add: a)
  have att: "jget (hi_attached h) i = None"
    using ctl st by (auto simp: control_ok_def)
  show ?thesis
  proof (cases "effs = []")
    case True
    with ab have "a' = a" by (auto simp: abort_rest_def split: if_splits)
    then have "control_ok a' (jget (hi_claimed h) i) (jget (hi_prepared h) i) (jget (hi_attached h) i) (jget (hi_asked h) i)"
      using ctl by (simp add: a)
    with hiring_quiet [OF inv, of i "hi_prepared h" a'] \<open>a' = a\<close> True show ?thesis by (simp add: a)
  next
    case False
    with ab have e: "effs = [EffAbort]" "at_state a' = Aborted" "at_preparation a' = at_preparation a"
      by (auto simp: abort_rest_def split: if_splits)
    have "hiring_inv D (host_abort i (h\<lparr>hi_attempts := jset (hi_attempts h) i a', hi_prepared := hi_prepared h,
        hi_attached := jdel (hi_attached h) i\<rparr>))"
      using ctl inv_a' att st e by (intro hiring_gives_up [OF inv]) (auto simp: a control_ok_def)
    with e att show ?thesis by (simp add: jdel_fresh)
  qed
qed

lemma hiring_abort:
  assumes inv: "hiring_inv D h"
  shows "hiring_inv D (hiring_step (Abort i) h)" and "hiring_inv D (hiring_step (AbortGoesOn i) h)"
    and "hiring_inv D (hiring_step (Cancel i) h)"
proof -
  let ?a = "get_attempt i (hi_attempts h)"
  note ctl = hiring_control [OF inv, of i]
  have wait: "hiring_inv D (h\<lparr>hi_attempts := jset (hi_attempts h) i a'\<rparr>)"
    if "at_state a' = at_state ?a" "control_ok a' = control_ok ?a" for a'
    using hiring_quiet [OF inv, of i "hi_prepared h" a'] ctl that by simp
  show "hiring_inv D (hiring_step (Abort i) h)"
  proof (cases "at_state ?a = Committing")
    case True
    with wait [of "?a\<lparr>at_waiting := Suc (at_waiting ?a)\<rparr>"] show ?thesis
      by (simp add: drive_def call_abort_def)
  next
    case False
    obtain a' effs r where ab: "abort_rest ?a = (a', effs, r)" by (cases "abort_rest ?a")
    with hiring_abort_rest [OF inv False, of ?a "at_waiting ?a"] False show ?thesis
      by (simp add: drive_def call_abort_def)
  qed
  show "hiring_inv D (hiring_step (AbortGoesOn i) h)"
  proof (cases "at_waiting ?a = 0 \<or> at_committing ?a = Some None")
    case True
    with wait [of ?a] show ?thesis by (simp add: drive_def resume_abort_def)
  next
    case False
    then have "at_state ?a \<noteq> Committing" using ctl committing_claim(2) [OF ctl] by blast
    moreover obtain a' effs r where ab: "abort_rest (?a\<lparr>at_waiting := at_waiting ?a - 1\<rparr>) = (a', effs, r)"
      by (cases "abort_rest (?a\<lparr>at_waiting := at_waiting ?a - 1\<rparr>)")
    ultimately show ?thesis
      using hiring_abort_rest [OF inv _ refl ab] False by (simp add: drive_def resume_abort_def)
  qed
  show "hiring_inv D (hiring_step (Cancel i) h)"
    using wait [of "?a\<lparr>at_signalled := True\<rparr>"] by (simp add: drive_def call_cancel_def)
qed

lemma hiring_crash:
  assumes inv: "hiring_inv D h"
  shows "hiring_inv D (hiring_step Crash h)"
proof -
  from inv have rinv: "requisitions_inv D (hi_records h)" by (simp add: hiring_inv_def)
  have "rd_requisitions (boot_records (hi_records h)) = kept False rq_id (rd_requisition_log (hi_records h))"
    by (simp add: boot_records_def read_requisitions_def refill_keyed keyed_kept)
  with rinv have "requisitions_inv D (boot_records (hi_records h))"
    by (auto simp: requisitions_inv_def requisition_inv_def requisition_lines_def boot_records_def deciding_def
        requisition_flight_ok_iff jhas_def)
  moreover have "\<exists>effs. attempt_inv (fresh_attempt :: records_error attempt) effs"
    using attempt_inv_fresh by blast
  ultimately show ?thesis
    by (auto simp: hiring_inv_def claim_inv_def session_defs control_ok_def get_attempt_def boot_records_def)
qed

section \<open>Properties\<close>

fun hiring_drawn :: "hiring_event \<Rightarrow> string list" where
  "hiring_drawn (Desk e) = drawn e"
| "hiring_drawn _ = []"

lemma hiring_inv_step:
  assumes "hiring_inv D h" and "set (hiring_drawn e) \<inter> D = {}"
  shows "hiring_inv (D \<union> set (hiring_drawn e)) (hiring_step e h)"
  using assms hiring_desk hiring_append hiring_prepare hiring_prepare_returns hiring_commit
    hiring_commit_returns hiring_abort hiring_crash
  by (cases e) (simp_all del: hiring_step.simps)

lemma hiring_inv_run:
  assumes "distinct (concat (map hiring_drawn es))"
  shows "hiring_inv (set (concat (map hiring_drawn es))) (hiring_run es)"
  using assms
proof (induction es rule: rev_induct)
  case Nil
  then show ?case by (simp add: hiring_run_def hiring_inv_empty)
next
  case (snoc e es)
  then have "hiring_inv (set (concat (map hiring_drawn es))) (hiring_run es)"
    and "set (hiring_drawn e) \<inter> set (concat (map hiring_drawn es)) = {}"
    by auto
  from hiring_inv_step [OF this] show ?case
    by (simp add: hiring_run_def)
qed


definition example_hiring :: "hiring_event list" where
  "example_hiring =
     [Desk (Raise 100 2 ''q'' ''ann'' \<lparr>ri_title = ''t'', ri_justification = ''j'', ri_workspace = ''w'', ri_vendor = ''claude''\<rparr>),
      AppendEnds 0 (Inr ()), Desk (Decide 5 ''q'' ''eve'' Approve), AppendEnds 0 (Inr ()),
      Prepare ''s'' (Some ''q''), Prepare ''t'' (Some ''q''), PrepareReturns ''t'', PrepareReturns ''s'',
      Commit ''s'', Abort ''s'', AppendEnds 0 (Inr ()), CommitReturns ''s'', AbortGoesOn ''s'']"


text \<open>
  A claim that no durable line records is forgotten by a crash: the requisition is approved
  as before and the next session claims it.
\<close>

theorem crash_revives_claim:
  assumes "distinct (concat (map hiring_drawn es))" and "h = hiring_run es"
    and "map rq_state (requisition_lines q (hi_records h)) = [RqOpen, RqApproved]"
  shows "is_ok (snd (claim_requisition q (hi_records (hiring_step Crash h))))"
proof -
  from hiring_inv_run [OF assms(1)] have "hiring_inv (set (concat (map hiring_drawn es))) (hiring_step Crash h)"
    using hiring_crash by (simp add: assms(2) del: hiring_step.simps)
  then have inv: "requisitions_inv (set (concat (map hiring_drawn es))) (boot_records (hi_records h))"
    by (simp add: hiring_inv_def)
  have st: "states_of q (boot_records (hi_records h)) = [RqOpen, RqApproved]"
    using assms(3) by (simp add: requisition_lines_def boot_records_def)
  then have "requisition_lines q (boot_records (hi_records h)) \<noteq> []" by auto
  with inv latest_requisition obtain r where r: "jget (rd_requisitions (boot_records (hi_records h))) q = Some r"
    by (auto simp: requisitions_inv_def)
  with found_requisition [OF inv r] st show ?thesis
    by (simp add: claim_requisition_def boot_records_def)
qed

theorem crash_revives_claim_witness:
  "is_ok (snd (claim_requisition ''q'' (hi_records (hiring_step Crash (hiring_run (take 9 example_hiring))))))"
proof -
  have "distinct (concat (map hiring_drawn (take 9 example_hiring)))"
    and "map rq_state (requisition_lines ''q'' (hi_records (hiring_run (take 9 example_hiring)))) = [RqOpen, RqApproved]"
    by code_simp+
  from crash_revives_claim [OF this(1) refl this(2)] show ?thesis .
qed

end
