(* ===== verification/Server_Lock.thy ===== *)
theory Server_Lock
  imports Append_Log
begin

text \<open>
  \<open>src/store/index.ts\<close>: the lock file \<open>server.lock\<close> that keeps a second server off a storage
  root. A claimer takes an absent lock with an exclusive link; it takes over one that it has seen
  unchanged across the observation window, and must then see its own lock survive one renewal
  interval. Every file operation is one step: what the code decides after it is a function of its
  outcome, and the steps of any number of servers interleave. Milliseconds are integers.
\<close>

section \<open>The lock\<close>

record server_lock =
  sl_instance :: string
  sl_renewals :: nat
  sl_pid :: int
  sl_hostname :: string
  sl_started_at :: iso_timestamp
  sl_image :: string

datatype startup_error =
    StorageUnwritable string string
  | StorageLockCorrupt string string
  | StorageLocked string server_lock

datatype lock_sample = Present server_lock | SampleAbsent | SampleCorrupt string

definition lock_observation_window_ms :: int where "lock_observation_window_ms = 10000"

definition lock_renewal_interval_ms :: int where "lock_renewal_interval_ms = 2000"

text \<open>
  \<open>sampleLock\<close>. What \<open>JSON.parse\<close> makes of the text is a parameter: a lock, another value or
  an error.
\<close>

datatype parsed_lock = ParsedLock server_lock | ParsedOther | ParseError string

definition sample_lock :: "(string \<Rightarrow> parsed_lock) \<Rightarrow> file_read \<Rightarrow> (string, lock_sample) result" where
  "sample_lock parse r =
     (case r of
        FileMissing \<Rightarrow> Inr SampleAbsent
      | FileFailed e \<Rightarrow> Inl e
      | FileText raw \<Rightarrow>
          Inr (case parse raw of
                 ParsedLock l \<Rightarrow> Present l
               | ParsedOther \<Rightarrow> SampleCorrupt ''not a JSON object''
               | ParseError d \<Rightarrow> SampleCorrupt d))"

section \<open>What a server does next\<close>

text \<open>
  A server is about to link, about to sample what it found, waiting out the window with the lock
  it saw and since when, about to overwrite since it saw the lock unchanged, waiting for its own
  write to survive, holding with the lock it last wrote and when, in the middle of a renewal or a
  release, displaced, refused, released, or dead.
\<close>

datatype server_phase =
    Trying
  | Found
  | Watching server_lock int
  | Overwriting int
  | Confirming int
  | Holding server_lock int
  | Renewing server_lock int nat
  | Releasing server_lock int
  | Displaced
  | Refused startup_error
  | Released
  | Dead

definition after_link :: "string \<Rightarrow> server_lock \<Rightarrow> int \<Rightarrow> (string, bool) result \<Rightarrow> server_phase" where
  "after_link path self now outcome =
     (case outcome of
        Inl e \<Rightarrow> Refused (StorageUnwritable path e)
      | Inr claimed \<Rightarrow> if claimed then Holding self now else Found)"

definition after_first :: "string \<Rightarrow> int \<Rightarrow> (string, lock_sample) result \<Rightarrow> server_phase" where
  "after_first path now sample =
     (case sample of
        Inl e \<Rightarrow> Refused (StorageUnwritable path e)
      | Inr SampleAbsent \<Rightarrow> Trying
      | Inr (SampleCorrupt d) \<Rightarrow> Refused (StorageLockCorrupt path d)
      | Inr (Present holder) \<Rightarrow> Watching holder now)"

definition unchanged :: "server_lock \<Rightarrow> server_lock \<Rightarrow> bool" where
  "unchanged a b = (sl_instance a = sl_instance b \<and> sl_renewals a = sl_renewals b)"

definition after_second :: "string \<Rightarrow> server_lock \<Rightarrow> int \<Rightarrow> (string, lock_sample) result \<Rightarrow> server_phase" where
  "after_second path seen now sample =
     (case sample of
        Inl e \<Rightarrow> Refused (StorageUnwritable path e)
      | Inr SampleAbsent \<Rightarrow> Trying
      | Inr (SampleCorrupt d) \<Rightarrow> Refused (StorageLockCorrupt path d)
      | Inr (Present second) \<Rightarrow>
          if unchanged seen second then Overwriting now else Refused (StorageLocked path second))"

definition after_overwrite :: "string \<Rightarrow> int \<Rightarrow> (string, unit) result \<Rightarrow> server_phase" where
  "after_overwrite path now outcome =
     (case outcome of Inl e \<Rightarrow> Refused (StorageUnwritable path e) | Inr _ \<Rightarrow> Confirming now)"

definition after_confirm :: "string \<Rightarrow> server_lock \<Rightarrow> int \<Rightarrow> (string, lock_sample) result \<Rightarrow> server_phase" where
  "after_confirm path self written sample =
     (case sample of
        Inl e \<Rightarrow> Refused (StorageUnwritable path e)
      | Inr (SampleCorrupt d) \<Rightarrow> Refused (StorageLockCorrupt path d)
      | Inr SampleAbsent \<Rightarrow> Trying
      | Inr (Present confirm) \<Rightarrow>
          if sl_instance confirm \<noteq> sl_instance self then Refused (StorageLocked path confirm)
          else Holding self written)"

text \<open>A renewal that cannot read or write changes nothing; the server tries again.\<close>

definition after_renew_sample :: "server_lock \<Rightarrow> int \<Rightarrow> (string, lock_sample) result \<Rightarrow> server_phase" where
  "after_renew_sample held written sample =
     (case sample of
        Inl e \<Rightarrow> Holding held written
      | Inr SampleAbsent \<Rightarrow> Displaced
      | Inr (SampleCorrupt d) \<Rightarrow> Displaced
      | Inr (Present l) \<Rightarrow>
          if sl_instance l \<noteq> sl_instance held then Displaced
          else Renewing held written (sl_renewals l + 1))"

definition after_renew_write :: "server_lock \<Rightarrow> int \<Rightarrow> nat \<Rightarrow> int \<Rightarrow> (string, unit) result \<Rightarrow> server_phase" where
  "after_renew_write held written renewals now outcome =
     (case outcome of
        Inl e \<Rightarrow> Holding held written
      | Inr _ \<Rightarrow> Holding (held\<lparr>sl_renewals := renewals\<rparr>) now)"

definition after_release_sample :: "server_lock \<Rightarrow> int \<Rightarrow> (string, lock_sample) result \<Rightarrow> server_phase" where
  "after_release_sample held written sample =
     (case sample of
        Inl e \<Rightarrow> Holding held written
      | Inr SampleAbsent \<Rightarrow> Released
      | Inr (SampleCorrupt d) \<Rightarrow> Released
      | Inr (Present l) \<Rightarrow>
          if sl_instance l \<noteq> sl_instance held then Released else Releasing held written)"

definition after_remove :: "server_lock \<Rightarrow> int \<Rightarrow> (string, unit) result \<Rightarrow> server_phase" where
  "after_remove held written outcome =
     (case outcome of Inl e \<Rightarrow> Holding held written | Inr _ \<Rightarrow> Released)"

section \<open>Servers on one root\<close>

text \<open>What the file holds: nothing, something that is no lock, or a lock.\<close>

datatype lock_file = NoLock | Garbage | Locked server_lock

fun sampled :: "lock_file \<Rightarrow> lock_sample" where
  "sampled NoLock = SampleAbsent"
| "sampled Garbage = SampleCorrupt ''''"
| "sampled (Locked l) = Present l"

record lock_world =
  lw_clock :: int
  lw_file :: lock_file
  lw_server :: "string \<Rightarrow> server_phase"

text \<open>
  The times the protocol relies on: how long after its second sample a server may still
  overwrite, and how long a living server may leave a lock it wrote without writing it again.
  They are assumptions on the servers' speed, and \<open>Tick\<close> respects them.
\<close>

record lock_timing =
  lt_overwrite :: int
  lt_renew :: int

fun in_time :: "lock_timing \<Rightarrow> int \<Rightarrow> server_phase \<Rightarrow> bool" where
  "in_time tm now (Overwriting since) = (now \<le> since + lt_overwrite tm)"
| "in_time tm now (Confirming written) = (now \<le> written + lt_renew tm)"
| "in_time tm now (Holding held written) = (now \<le> written + lt_renew tm)"
| "in_time tm now (Renewing held written n) = (now \<le> written + lt_renew tm)"
| "in_time tm now (Releasing held written) = (now \<le> written + lt_renew tm)"
| "in_time tm now _ = True"

text \<open>The server that has the lock: \<open>heldLock\<close> is not null.\<close>

fun held_lock :: "server_phase \<Rightarrow> server_lock option" where
  "held_lock (Holding held written) = Some held"
| "held_lock (Renewing held written n) = Some held"
| "held_lock (Releasing held written) = Some held"
| "held_lock _ = None"

abbreviation move :: "string \<Rightarrow> server_phase \<Rightarrow> lock_world \<Rightarrow> lock_world" where
  "move p ph w \<equiv> w\<lparr>lw_server := (lw_server w)(p := ph)\<rparr>"

text \<open>
  The steps of server \<open>p\<close>, whose own lock is \<open>self p\<close>. A file operation succeeds on the file as
  it is, or fails and leaves it. A release happens while no other server is confirming.
\<close>

inductive lock_step :: "lock_timing \<Rightarrow> string \<Rightarrow> (string \<Rightarrow> server_lock) \<Rightarrow> lock_world \<Rightarrow> lock_world \<Rightarrow> bool"
  for tm path self where
  tick: "\<forall>p. in_time tm now (lw_server w p) \<Longrightarrow> lw_clock w \<le> now \<Longrightarrow>
    lock_step tm path self w (w\<lparr>lw_clock := now\<rparr>)"
| link_claims: "lw_server w p = Trying \<Longrightarrow> lw_file w = NoLock \<Longrightarrow>
    lock_step tm path self w
      (move p (after_link path (self p) (lw_clock w) (Inr True)) (w\<lparr>lw_file := Locked (self p)\<rparr>))"
| link_exists: "lw_server w p = Trying \<Longrightarrow> lw_file w \<noteq> NoLock \<Longrightarrow>
    lock_step tm path self w (move p (after_link path (self p) (lw_clock w) (Inr False)) w)"
| link_fails: "lw_server w p = Trying \<Longrightarrow>
    lock_step tm path self w (move p (after_link path (self p) (lw_clock w) (Inl e)) w)"
| first: "lw_server w p = Found \<Longrightarrow> s \<in> {Inl e, Inr (sampled (lw_file w))} \<Longrightarrow>
    lock_step tm path self w (move p (after_first path (lw_clock w) s) w)"
| second: "lw_server w p = Watching seen since \<Longrightarrow> since + lock_observation_window_ms \<le> lw_clock w \<Longrightarrow>
    s \<in> {Inl e, Inr (sampled (lw_file w))} \<Longrightarrow>
    lock_step tm path self w (move p (after_second path seen (lw_clock w) s) w)"
| overwrite: "lw_server w p = Overwriting since \<Longrightarrow>
    lock_step tm path self w
      (move p (after_overwrite path (lw_clock w) (Inr ())) (w\<lparr>lw_file := Locked (self p)\<rparr>))"
| overwrite_fails: "lw_server w p = Overwriting since \<Longrightarrow>
    lock_step tm path self w (move p (after_overwrite path (lw_clock w) (Inl e)) w)"
| confirm: "lw_server w p = Confirming written \<Longrightarrow> written + lock_renewal_interval_ms \<le> lw_clock w \<Longrightarrow>
    s \<in> {Inl e, Inr (sampled (lw_file w))} \<Longrightarrow>
    lock_step tm path self w (move p (after_confirm path (self p) written s) w)"
| renew: "lw_server w p = Holding held written \<Longrightarrow> s \<in> {Inl e, Inr (sampled (lw_file w))} \<Longrightarrow>
    lock_step tm path self w (move p (after_renew_sample held written s) w)"
| renew_write: "lw_server w p = Renewing held written n \<Longrightarrow>
    lock_step tm path self w
      (move p (after_renew_write held written n (lw_clock w) (Inr ())) (w\<lparr>lw_file := Locked (held\<lparr>sl_renewals := n\<rparr>)\<rparr>))"
| renew_fails: "lw_server w p = Renewing held written n \<Longrightarrow>
    lock_step tm path self w (move p (after_renew_write held written n (lw_clock w) (Inl e)) w)"
| release: "lw_server w p = Holding held written \<Longrightarrow> s \<in> {Inl e, Inr (sampled (lw_file w))} \<Longrightarrow>
    lock_step tm path self w (move p (after_release_sample held written s) w)"
| remove: "lw_server w p = Releasing held written \<Longrightarrow> \<forall>q t. lw_server w q \<noteq> Confirming t \<Longrightarrow>
    lock_step tm path self w (move p (after_remove held written (Inr ())) (w\<lparr>lw_file := NoLock\<rparr>))"
| remove_fails: "lw_server w p = Releasing held written \<Longrightarrow>
    lock_step tm path self w (move p (after_remove held written (Inl e)) w)"
| crash: "lock_step tm path self w (move p Dead w)"

inductive_cases lock_stepE: "lock_step tm path self w w'"

text \<open>
  At first every server is about to claim or is dead, and the file is what a dead one left, if
  anything.
\<close>

definition lock_start :: "(string \<Rightarrow> server_phase) \<Rightarrow> lock_file \<Rightarrow> bool" where
  "lock_start servers file =
     ((\<forall>p. servers p \<in> {Trying, Dead})
      \<and> (case file of Locked l \<Rightarrow> servers (sl_instance l) = Dead | _ \<Rightarrow> True))"

inductive lock_reach :: "lock_timing \<Rightarrow> string \<Rightarrow> (string \<Rightarrow> server_lock) \<Rightarrow> lock_world \<Rightarrow> bool"
  for tm path self where
  start: "lock_start servers file \<Longrightarrow>
    lock_reach tm path self \<lparr>lw_clock = now, lw_file = file, lw_server = servers\<rparr>"
| step: "lock_reach tm path self w \<Longrightarrow> lock_step tm path self w w' \<Longrightarrow> lock_reach tm path self w'"

section \<open>Invariant\<close>

fun owner :: "server_phase \<Rightarrow> (server_lock \<times> int) option" where
  "owner (Holding held written) = Some (held, written)"
| "owner (Renewing held written n) = Some (held, written)"
| "owner (Releasing held written) = Some (held, written)"
| "owner _ = None"

fun confirming :: "server_phase \<Rightarrow> int option" where
  "confirming (Confirming written) = Some written"
| "confirming _ = None"

fun overwriting :: "server_phase \<Rightarrow> int option" where
  "overwriting (Overwriting since) = Some since"
| "overwriting _ = None"

fun watching :: "server_phase \<Rightarrow> (server_lock \<times> int) option" where
  "watching (Watching seen since) = Some (seen, since)"
| "watching _ = None"

text \<open>A server that has not written the file yet.\<close>

fun unwritten :: "server_phase \<Rightarrow> bool" where
  "unwritten Trying = True"
| "unwritten Found = True"
| "unwritten (Watching seen since) = True"
| "unwritten (Overwriting since) = True"
| "unwritten _ = False"

fun next_renewal :: "server_phase \<Rightarrow> (server_lock \<times> nat) option" where
  "next_renewal (Renewing held written n) = Some (held, n)"
| "next_renewal _ = None"

text \<open>The owner's lock is in the file; what is in the file was written by the server it names.\<close>

definition file_inv :: "(string \<Rightarrow> server_lock) \<Rightarrow> lock_world \<Rightarrow> bool" where
  "file_inv self w =
     ((\<forall>p held t. owner (lw_server w p) = Some (held, t) \<longrightarrow>
         lw_file w = Locked held \<and> sl_instance held = p \<and> t \<le> lw_clock w)
      \<and> (\<forall>p t. confirming (lw_server w p) = Some t \<longrightarrow> t \<le> lw_clock w \<and> lw_file w \<noteq> NoLock)
      \<and> (\<forall>l. lw_file w = Locked l \<longrightarrow> \<not> unwritten (lw_server w (sl_instance l))
           \<and> (\<forall>t. confirming (lw_server w (sl_instance l)) = Some t \<longrightarrow> l = self (sl_instance l)))
      \<and> (\<forall>p held n. next_renewal (lw_server w p) = Some (held, n) \<longrightarrow> n = sl_renewals held + 1))"

text \<open>Whoever watches a lock saw it after it was written.\<close>

definition seen_ok :: "server_phase \<Rightarrow> server_lock \<Rightarrow> int \<Rightarrow> bool" where
  "seen_ok ph seen t1 =
     (\<not> unwritten ph
      \<and> (\<forall>held t. owner ph = Some (held, t) \<longrightarrow>
           sl_renewals seen \<le> sl_renewals held \<and> (sl_renewals seen = sl_renewals held \<longrightarrow> t \<le> t1))
      \<and> (\<forall>t. confirming ph = Some t \<longrightarrow> sl_renewals seen = 0 \<and> t \<le> t1))"

definition watch_inv :: "lock_world \<Rightarrow> bool" where
  "watch_inv w =
     (\<forall>q seen t1. watching (lw_server w q) = Some (seen, t1) \<longrightarrow>
        t1 \<le> lw_clock w \<and> seen_ok (lw_server w (sl_instance seen)) seen t1)"

text \<open>Whoever is about to overwrite does so before any other claimer can confirm.\<close>

definition overwrite_inv :: "lock_world \<Rightarrow> bool" where
  "overwrite_inv w =
     (\<forall>q t2. overwriting (lw_server w q) = Some t2 \<longrightarrow>
        t2 \<le> lw_clock w \<and> lw_file w \<noteq> NoLock \<and> (\<forall>p. owner (lw_server w p) = None)
        \<and> (\<forall>l t. lw_file w = Locked l \<longrightarrow> confirming (lw_server w (sl_instance l)) = Some t \<longrightarrow> t2 \<le> t))"

definition lock_inv :: "lock_timing \<Rightarrow> (string \<Rightarrow> server_lock) \<Rightarrow> lock_world \<Rightarrow> bool" where
  "lock_inv tm self w =
     ((\<forall>p. in_time tm (lw_clock w) (lw_server w p)) \<and> file_inv self w \<and> watch_inv w \<and> overwrite_inv w)"

text \<open>What the protocol needs of the times.\<close>

definition timely :: "lock_timing \<Rightarrow> bool" where
  "timely tm = (0 \<le> lt_overwrite tm \<and> lt_overwrite tm < lock_renewal_interval_ms
     \<and> 0 \<le> lt_renew tm \<and> lt_renew tm < lock_observation_window_ms)"

definition own_locks :: "(string \<Rightarrow> server_lock) \<Rightarrow> bool" where
  "own_locks self = (\<forall>p. sl_instance (self p) = p \<and> sl_renewals (self p) = 0)"

lemma lock_inv_start: "lock_start servers file \<Longrightarrow>
    lock_inv tm self \<lparr>lw_clock = now, lw_file = file, lw_server = servers\<rparr>"
proof -
  assume st: "lock_start servers file"
  have ph: "servers p = Trying \<or> servers p = Dead" for p
    using st by (auto simp: lock_start_def)
  have none: "owner (servers p) = None" "confirming (servers p) = None" "overwriting (servers p) = None"
      "watching (servers p) = None" "next_renewal (servers p) = None" "in_time tm now (servers p)" for p
    using ph [of p] by auto
  show ?thesis
    using st by (auto simp: lock_inv_def file_inv_def watch_inv_def overwrite_inv_def none lock_start_def
        split: lock_file.splits)
qed

lemma lock_invD:
  assumes "lock_inv tm self w"
  shows "in_time tm (lw_clock w) (lw_server w p)"
    and "owner (lw_server w p) = Some (held, t) \<Longrightarrow>
      lw_file w = Locked held \<and> sl_instance held = p \<and> t \<le> lw_clock w"
    and "confirming (lw_server w p) = Some t \<Longrightarrow> t \<le> lw_clock w \<and> lw_file w \<noteq> NoLock"
    and "lw_file w = Locked l \<Longrightarrow> \<not> unwritten (lw_server w (sl_instance l))"
    and "lw_file w = Locked l \<Longrightarrow> confirming (lw_server w (sl_instance l)) = Some t \<Longrightarrow> l = self (sl_instance l)"
    and "next_renewal (lw_server w p) = Some (held, n) \<Longrightarrow> n = sl_renewals held + 1"
    and "watching (lw_server w p) = Some (seen, t1) \<Longrightarrow>
      t1 \<le> lw_clock w \<and> seen_ok (lw_server w (sl_instance seen)) seen t1"
    and "overwriting (lw_server w p) = Some t2 \<Longrightarrow>
      t2 \<le> lw_clock w \<and> lw_file w \<noteq> NoLock \<and> owner (lw_server w q) = None"
    and "overwriting (lw_server w p) = Some t2 \<Longrightarrow> lw_file w = Locked l \<Longrightarrow>
      confirming (lw_server w (sl_instance l)) = Some t \<Longrightarrow> t2 \<le> t"
  using assms unfolding lock_inv_def file_inv_def watch_inv_def overwrite_inv_def by blast+

text \<open>What a step of server \<open>p\<close> has to establish, when it goes to \<open>ph\<close> and leaves \<open>f\<close> in the file.\<close>

lemma lock_move:
  assumes inv: "lock_inv tm self w" and time: "in_time tm (lw_clock w) ph"
    and own: "\<And>held t. owner ph = Some (held, t) \<Longrightarrow> f = Locked held \<and> sl_instance held = p \<and> t \<le> lw_clock w"
    and others: "f = lw_file w \<or> (\<forall>q. q \<noteq> p \<longrightarrow> owner (lw_server w q) = None)"
    and conf: "\<And>t. confirming ph = Some t \<Longrightarrow> t \<le> lw_clock w \<and> f \<noteq> NoLock"
    and gone: "f = NoLock \<Longrightarrow> f = lw_file w
        \<or> (\<forall>q. q \<noteq> p \<longrightarrow> confirming (lw_server w q) = None \<and> overwriting (lw_server w q) = None)"
    and mine: "\<And>l. f = Locked l \<Longrightarrow> sl_instance l = p \<Longrightarrow>
        \<not> unwritten ph \<and> (\<forall>t. confirming ph = Some t \<longrightarrow> l = self p)"
    and theirs: "\<And>l. f = Locked l \<Longrightarrow> sl_instance l \<noteq> p \<Longrightarrow> f = lw_file w"
    and renewal: "\<And>held n. next_renewal ph = Some (held, n) \<Longrightarrow> n = sl_renewals held + 1"
    and watch: "\<And>seen t1. watching ph = Some (seen, t1) \<Longrightarrow>
        t1 \<le> lw_clock w \<and> sl_instance seen \<noteq> p \<and> seen_ok (lw_server w (sl_instance seen)) seen t1"
    and watched: "\<And>seen t1. sl_instance seen = p \<Longrightarrow> t1 \<le> lw_clock w \<Longrightarrow> seen_ok (lw_server w p) seen t1 \<Longrightarrow>
        seen_ok ph seen t1"
    and over: "\<And>t2. overwriting ph = Some t2 \<Longrightarrow> t2 \<le> lw_clock w \<and> f \<noteq> NoLock
        \<and> (\<forall>q. owner (lw_server w q) = None)
        \<and> (\<forall>l t. f = Locked l \<longrightarrow> confirming (lw_server w (sl_instance l)) = Some t \<longrightarrow> t2 \<le> t)"
    and raced: "\<And>q t2. q \<noteq> p \<Longrightarrow> overwriting (lw_server w q) = Some t2 \<Longrightarrow> owner ph = None
        \<and> (\<forall>l t. f = Locked l \<longrightarrow> sl_instance l = p \<longrightarrow> confirming ph = Some t \<longrightarrow> t2 \<le> t)"
  shows "lock_inv tm self (w\<lparr>lw_file := f, lw_server := (lw_server w)(p := ph)\<rparr>)"
proof -
  note D = lock_invD [OF inv]
  let ?s = "(lw_server w)(p := ph)"
  have "in_time tm (lw_clock w) (?s q)" for q
    using time D(1) by simp
  moreover have "f = Locked held \<and> sl_instance held = q \<and> t \<le> lw_clock w" if "owner (?s q) = Some (held, t)" for q held t
    using that own others D(2) [of q held t] by (cases "q = p") auto
  moreover have "t \<le> lw_clock w \<and> f \<noteq> NoLock" if "confirming (?s q) = Some t" for q t
    using that conf gone D(3) [of q t] by (cases "q = p") auto
  moreover have "\<not> unwritten (?s (sl_instance l)) \<and> (\<forall>t. confirming (?s (sl_instance l)) = Some t \<longrightarrow> l = self (sl_instance l))"
    if "f = Locked l" for l
    using that mine [of l] theirs [of l] D(4,5) [of l] by (cases "sl_instance l = p") auto
  moreover have "n = sl_renewals held + 1" if "next_renewal (?s q) = Some (held, n)" for q held n
    using that renewal D(6) by (cases "q = p") auto
  moreover have "t1 \<le> lw_clock w \<and> seen_ok (?s (sl_instance seen)) seen t1" if "watching (?s q) = Some (seen, t1)" for q seen t1
  proof (cases "q = p")
    case True
    with that watch show ?thesis by simp
  next
    case False
    with that D(7) [of q seen t1] watched show ?thesis by (cases "sl_instance seen = p") auto
  qed
  moreover have "t2 \<le> lw_clock w \<and> f \<noteq> NoLock \<and> (\<forall>p'. owner (?s p') = None)
      \<and> (\<forall>l t. f = Locked l \<longrightarrow> confirming (?s (sl_instance l)) = Some t \<longrightarrow> t2 \<le> t)"
    if o: "overwriting (?s q) = Some t2" for q t2
  proof (cases "q = p")
    case True
    with o have ph: "ph = Overwriting t2" by (cases ph) simp_all
    with over show ?thesis by simp
  next
    case False
    with o have oq: "overwriting (lw_server w q) = Some t2" by simp
    have "owner (?s p') = None" for p'
      using raced [OF False oq] D(8) [OF oq, of p'] by simp
    moreover have "f \<noteq> NoLock" using D(8) [OF oq] gone False oq by auto
    moreover have "t2 \<le> t" if "f = Locked l" "confirming (?s (sl_instance l)) = Some t" for l t
      using that raced [OF False oq] theirs [of l] D(9) [OF oq, of l t] by (cases "sl_instance l = p") auto
    ultimately show ?thesis using D(8) [OF oq] by blast
  qed
  ultimately show ?thesis
    unfolding lock_inv_def file_inv_def watch_inv_def overwrite_inv_def
    by (simp del: fun_upd_apply)
qed

text \<open>A step in which one server gives something up and the file stays.\<close>

lemma lock_quiet:
  assumes inv: "lock_inv tm self w" and time: "in_time tm (lw_clock w) ph"
    and o: "\<And>x. owner ph = Some x \<Longrightarrow> owner (lw_server w p) = Some x"
    and c: "confirming ph = None" and v: "overwriting ph = None" and wt: "watching ph = None"
    and u: "unwritten ph \<Longrightarrow> unwritten (lw_server w p)" and r: "next_renewal ph = None"
  shows "lock_inv tm self (move p ph w)"
proof -
  note D = lock_invD [OF inv]
  have "lock_inv tm self (w\<lparr>lw_file := lw_file w, lw_server := (lw_server w)(p := ph)\<rparr>)"
  proof (rule lock_move [OF inv time])
    show "lw_file w = Locked held \<and> sl_instance held = p \<and> t \<le> lw_clock w"
      if "owner ph = Some (held, t)" for held t
      using D(2) [OF o [OF that]] by simp
    show "\<not> unwritten ph \<and> (\<forall>t. confirming ph = Some t \<longrightarrow> l = self p)" if "lw_file w = Locked l" "sl_instance l = p" for l
      using D(4) [OF that(1)] that(2) u c by auto
    show "seen_ok ph seen t1" if "seen_ok (lw_server w p) seen t1" for seen t1
      using that o c u by (auto simp: seen_ok_def)
    show "owner ph = None \<and> (\<forall>l t. lw_file w = Locked l \<longrightarrow> sl_instance l = p \<longrightarrow> confirming ph = Some t \<longrightarrow> t2 \<le> t)"
      if "overwriting (lw_server w q) = Some t2" for q t2
      using D(8) [OF that, of p] o c by (cases "owner ph") auto
  qed (use c v wt r D(2) o in auto)
  then show ?thesis by simp
qed


lemma lock_first:
  assumes inv: "lock_inv tm self w" and self: "own_locks self" and p: "lw_server w p = Found" and f: "lw_file w = Locked l"
  shows "lock_inv tm self (move p (Watching l (lw_clock w)) w)"
proof -
  note D = lock_invD [OF inv]
  have ne: "sl_instance l \<noteq> p" using D(4) [OF f] p by auto
  have "sl_renewals l = 0 \<and> t \<le> lw_clock w" if c: "confirming (lw_server w (sl_instance l)) = Some t" for t
  proof -
    have a: "sl_renewals l = sl_renewals (self (sl_instance l))" by (rule arg_cong [OF D(5) [OF f c]])
    have b: "sl_renewals (self (sl_instance l)) = 0" using self by (simp add: own_locks_def)
    from trans [OF a b] D(3) [OF c] show ?thesis by blast
  qed
  moreover have "held = l \<and> t \<le> lw_clock w" if "owner (lw_server w (sl_instance l)) = Some (held, t)" for held t
    using D(2) [OF that] f by simp
  ultimately have ok: "seen_ok (lw_server w (sl_instance l)) l (lw_clock w)"
    using D(4) [OF f] by (auto simp: seen_ok_def)
  have "lock_inv tm self (w\<lparr>lw_file := lw_file w, lw_server := (lw_server w)(p := Watching l (lw_clock w))\<rparr>)"
    by (rule lock_move [OF inv]) (use ne ok p f in \<open>auto simp: seen_ok_def\<close>)
  then show ?thesis by simp
qed

text \<open>A server that saw a lock unchanged across the window has seen the lock of no living server.\<close>

lemma lock_second:
  assumes inv: "lock_inv tm self w" and tm: "timely tm" and q: "lw_server w q = Watching seen t1"
    and late: "t1 + lock_observation_window_ms \<le> lw_clock w"
    and f: "lw_file w = Locked l" and u: "unchanged seen l"
  shows "lock_inv tm self (move q (Overwriting (lw_clock w)) w)"
proof -
  note D = lock_invD [OF inv]
  let ?p = "sl_instance l"
  have seen: "sl_instance seen = ?p" "sl_renewals seen = sl_renewals l"
    using u by (simp_all add: unchanged_def)
  have wt: "watching (lw_server w q) = Some (seen, t1)" using q by simp
  have ne: "?p \<noteq> q" using D(4) [OF f] q by auto
  have stale: "t \<le> t1 \<Longrightarrow> lw_clock w \<le> t + lt_renew tm \<Longrightarrow> False" for t
    using late tm by (simp add: timely_def)
  have no_conf: "confirming (lw_server w ?p) = None"
  proof (rule ccontr)
    assume "confirming (lw_server w ?p) \<noteq> None"
    then obtain t where c: "lw_server w ?p = Confirming t" by (cases "lw_server w ?p") auto
    with D(7) [OF wt] seen have "t \<le> t1" by (simp add: seen_ok_def)
    with stale show False using D(1) [of ?p] c by simp
  qed
  have no_owner: "owner (lw_server w p) = None" for p
  proof (rule ccontr)
    assume "owner (lw_server w p) \<noteq> None"
    then obtain held t where o: "owner (lw_server w p) = Some (held, t)" by auto
    with D(2) f have "held = l" "p = ?p" by auto
    with o D(7) [OF wt] seen have "t \<le> t1" by (simp add: seen_ok_def)
    with stale show False using D(1) [of p] o by (cases "lw_server w p") simp_all
  qed
  have "0 \<le> lt_overwrite tm" using tm by (simp add: timely_def)
  then have "lock_inv tm self (w\<lparr>lw_file := lw_file w, lw_server := (lw_server w)(q := Overwriting (lw_clock w))\<rparr>)"
    by (intro lock_move [OF inv]) (use ne f no_owner no_conf q in \<open>auto simp: seen_ok_def\<close>)
  then show ?thesis by simp
qed

lemma lock_overwrite:
  assumes inv: "lock_inv tm self w" and tm: "timely tm" and self: "own_locks self" and p: "lw_server w p = Overwriting t"
    and r: "0 \<le> lt_renew tm"
  shows "lock_inv tm self (w\<lparr>lw_file := Locked (self p), lw_server := (lw_server w)(p := Confirming (lw_clock w))\<rparr>)"
proof -
  note D = lock_invD [OF inv]
  have none: "owner (lw_server w q) = None" for q using D(8) [of p t q] p by simp
  show ?thesis
  proof (rule lock_move [OF inv])
    show "owner (Confirming (lw_clock w)) = None \<and> (\<forall>l t. Locked (self p) = Locked l \<longrightarrow> sl_instance l = p \<longrightarrow>
        confirming (Confirming (lw_clock w)) = Some t \<longrightarrow> t2 \<le> t)"
      if "overwriting (lw_server w q) = Some t2" for q t2
      using D(8) [OF that] by simp
  qed (use none p r self in \<open>auto simp: own_locks_def seen_ok_def\<close>)
qed

lemma lock_confirm:
  assumes inv: "lock_inv tm self w" and tm: "timely tm" and p: "lw_server w p = Confirming t"
    and late: "t + lock_renewal_interval_ms \<le> lw_clock w" and f: "lw_file w = Locked l" and l: "sl_instance l = p"
  shows "lock_inv tm self (move p (Holding (self p) t) w)"
proof -
  note D = lock_invD [OF inv]
  have lp: "l = self p" using D(5) [OF f] p l by auto
  have c: "t \<le> lw_clock w" using D(3) [of p t] p by simp
  have quick: "overwriting (lw_server w q) = None" for q
  proof (rule ccontr)
    assume "overwriting (lw_server w q) \<noteq> None"
    then obtain t2 where o: "lw_server w q = Overwriting t2" by (cases "lw_server w q") auto
    with D(9) [of q t2 l t] f p l have "t2 \<le> t" by simp
    moreover have "lw_clock w \<le> t2 + lt_overwrite tm" using D(1) [of q] o by simp
    ultimately show False using late tm by (simp add: timely_def)
  qed
  have "lock_inv tm self (w\<lparr>lw_file := lw_file w, lw_server := (lw_server w)(p := Holding (self p) t)\<rparr>)"
  proof (rule lock_move [OF inv])
    show "in_time tm (lw_clock w) (Holding (self p) t)" using D(1) [of p] p by simp
    show "lw_file w = Locked held \<and> sl_instance held = p \<and> t' \<le> lw_clock w"
      if "owner (Holding (self p) t) = Some (held, t')" for held t'
      using that f lp l c by simp
    show "seen_ok (Holding (self p) t) seen t1" if "seen_ok (lw_server w p) seen t1" for seen t1
      using that p by (simp add: seen_ok_def)
  qed (use quick p l in auto)
  then show ?thesis by simp
qed

lemma lock_renew:
  assumes inv: "lock_inv tm self w" and p: "lw_server w p = Holding held t" and f: "lw_file w = Locked l"
  shows "lock_inv tm self (move p (Renewing held t (sl_renewals l + 1)) w)"
proof -
  note D = lock_invD [OF inv]
  have o: "owner (lw_server w p) = Some (held, t)" using p by simp
  have l: "l = held" using D(2) [OF o] f by simp
  have "lock_inv tm self (w\<lparr>lw_file := lw_file w, lw_server := (lw_server w)(p := Renewing held t (sl_renewals l + 1))\<rparr>)"
  proof (rule lock_move [OF inv])
    show "in_time tm (lw_clock w) (Renewing held t (sl_renewals l + 1))" using D(1) [of p] p by simp
    show "lw_file w = Locked held' \<and> sl_instance held' = p \<and> t' \<le> lw_clock w"
      if "owner (Renewing held t (sl_renewals l + 1)) = Some (held', t')" for held' t'
      using that D(2) [OF o] by simp
    show "seen_ok (Renewing held t (sl_renewals l + 1)) seen t1" if "seen_ok (lw_server w p) seen t1" for seen t1
      using that p by (simp add: seen_ok_def)
    show "owner (Renewing held t (sl_renewals l + 1)) = None \<and> (\<forall>l' t'. lw_file w = Locked l' \<longrightarrow> sl_instance l' = p \<longrightarrow>
        confirming (Renewing held t (sl_renewals l + 1)) = Some t' \<longrightarrow> t2 \<le> t')"
      if "overwriting (lw_server w q) = Some t2" for q t2
      using D(8) [OF that, of p] o by simp
  qed (use l in auto)
  then show ?thesis by simp
qed

lemma lock_renew_write:
  assumes inv: "lock_inv tm self w" and p: "lw_server w p = Renewing held t n" and r: "0 \<le> lt_renew tm"
  shows "lock_inv tm self (w\<lparr>lw_file := Locked (held\<lparr>sl_renewals := n\<rparr>),
      lw_server := (lw_server w)(p := Holding (held\<lparr>sl_renewals := n\<rparr>) (lw_clock w))\<rparr>)"
proof -
  note D = lock_invD [OF inv]
  have o: "owner (lw_server w p) = Some (held, t)" using p by simp
  have n: "n = sl_renewals held + 1" using D(6) [of p held n] p by simp
  have others: "owner (lw_server w q) = None" if "q \<noteq> p" for q
  proof (cases "owner (lw_server w q)")
    case (Some a)
    then obtain held' t' where "owner (lw_server w q) = Some (held', t')" by (cases a) auto
    with D(2) [OF this] D(2) [OF o] that show ?thesis by auto
  qed
  have calm: "overwriting (lw_server w q) = None" for q
  proof (cases "overwriting (lw_server w q)")
    case (Some t2)
    from D(8) [OF this, of p] o show ?thesis by simp
  qed
  show ?thesis
  proof (rule lock_move [OF inv])
    show "seen_ok (Holding (held\<lparr>sl_renewals := n\<rparr>) (lw_clock w)) seen t1"
      if "seen_ok (lw_server w p) seen t1" for seen t1
      using that p n by (simp add: seen_ok_def)
  qed (use others calm r D(2) [OF o] in auto)
qed

lemma lock_link:
  assumes inv: "lock_inv tm self w" and self: "own_locks self" and p: "lw_server w p = Trying"
    and f: "lw_file w = NoLock" and r: "0 \<le> lt_renew tm"
  shows "lock_inv tm self (w\<lparr>lw_file := Locked (self p), lw_server := (lw_server w)(p := Holding (self p) (lw_clock w))\<rparr>)"
proof -
  note D = lock_invD [OF inv]
  have none: "owner (lw_server w q) = None" for q
  proof (cases "owner (lw_server w q)")
    case (Some a)
    then obtain held t where "owner (lw_server w q) = Some (held, t)" by (cases a) auto
    with D(2) [OF this] f show ?thesis by simp
  qed
  have calm: "overwriting (lw_server w q) = None" for q
  proof (cases "overwriting (lw_server w q)")
    case (Some t2)
    from D(8) [OF this] f show ?thesis by simp
  qed
  show ?thesis
    by (rule lock_move [OF inv]) (use none calm p r self in \<open>auto simp: own_locks_def seen_ok_def\<close>)
qed

lemma lock_remove:
  assumes inv: "lock_inv tm self w" and p: "lw_server w p = Releasing held t"
    and guard: "\<forall>q t. lw_server w q \<noteq> Confirming t"
  shows "lock_inv tm self (w\<lparr>lw_file := NoLock, lw_server := (lw_server w)(p := Released)\<rparr>)"
proof -
  note D = lock_invD [OF inv]
  have o: "owner (lw_server w p) = Some (held, t)" using p by simp
  have others: "owner (lw_server w q) = None" if "q \<noteq> p" for q
  proof (cases "owner (lw_server w q)")
    case (Some a)
    then obtain held' t' where "owner (lw_server w q) = Some (held', t')" by (cases a) auto
    with D(2) [OF this] D(2) [OF o] that show ?thesis by auto
  qed
  have calm: "overwriting (lw_server w q) = None" for q
  proof (cases "overwriting (lw_server w q)")
    case (Some t2)
    from D(8) [OF this, of p] o show ?thesis by simp
  qed
  have "confirming (lw_server w q) = None" for q
    using guard by (cases "lw_server w q") auto
  with others calm show ?thesis
    by (intro lock_move [OF inv]) (auto simp: seen_ok_def)
qed

lemma lock_tick:
  assumes inv: "lock_inv tm self w" and t: "\<forall>p. in_time tm now (lw_server w p)" and le: "lw_clock w \<le> now"
  shows "lock_inv tm self (w\<lparr>lw_clock := now\<rparr>)"
  using assms unfolding lock_inv_def file_inv_def watch_inv_def overwrite_inv_def
  by (simp, meson order_trans)

lemma sampled_cases:
  assumes "s \<in> {Inl e, Inr (sampled f)}"
  obtains "s = Inl e" | "s = Inr SampleAbsent" "f = NoLock" | d where "s = Inr (SampleCorrupt d)"
  | l where "s = Inr (Present l)" "f = Locked l"
  using assms by (cases f) auto

lemma lock_inv_step:
  assumes inv: "lock_inv tm self w" and st: "lock_step tm path self w w'" and tm: "timely tm" and self: "own_locks self"
  shows "lock_inv tm self w'"
proof -
  note D = lock_invD [OF inv]
  have r: "0 \<le> lt_renew tm" using tm by (simp add: timely_def)
  from st show ?thesis
  proof cases
    case (tick now)
    with lock_tick [OF inv] show ?thesis by simp
  next
    case (link_claims p)
    with lock_link [OF inv self _ _ r] show ?thesis by (simp add: after_link_def)
  next
    case (link_exists p)
    then show ?thesis
      by (auto simp: after_link_def intro!: lock_quiet [OF inv])
  next
    case (link_fails p e)
    then show ?thesis
      by (auto simp: after_link_def intro!: lock_quiet [OF inv])
  next
    case (first p s e)
    from first(3) show ?thesis
    proof (cases rule: sampled_cases)
      case (4 l)
      with first lock_first [OF inv self] show ?thesis by (simp add: after_first_def)
    qed (use first in \<open>auto simp: after_first_def intro!: lock_quiet [OF inv]\<close>)
  next
    case (second p seen since s e)
    from second(4) show ?thesis
    proof (cases rule: sampled_cases)
      case (4 l)
      show ?thesis
      proof (cases "unchanged seen l")
        case True
        with 4 second lock_second [OF inv tm] show ?thesis by (simp add: after_second_def)
      next
        case False
        with 4 second show ?thesis by (auto simp: after_second_def intro!: lock_quiet [OF inv])
      qed
    qed (use second in \<open>auto simp: after_second_def intro!: lock_quiet [OF inv]\<close>)
  next
    case (overwrite p since)
    with lock_overwrite [OF inv tm self _ r] show ?thesis by (simp add: after_overwrite_def)
  next
    case (overwrite_fails p since e)
    then show ?thesis by (auto simp: after_overwrite_def intro!: lock_quiet [OF inv])
  next
    case (confirm p written s e)
    have "lw_file w \<noteq> NoLock" using D(3) [of p written] confirm by simp
    with confirm(4) show ?thesis
    proof (cases rule: sampled_cases)
      case (4 l)
      show ?thesis
      proof (cases "sl_instance l = p")
        case True
        with 4 confirm self lock_confirm [OF inv tm] show ?thesis
          by (simp add: after_confirm_def own_locks_def)
      next
        case False
        with 4 confirm self show ?thesis
          by (auto simp: after_confirm_def own_locks_def intro!: lock_quiet [OF inv])
      qed
    qed (use confirm in \<open>auto simp: after_confirm_def intro!: lock_quiet [OF inv]\<close>)
  next
    case (renew p held written s e)
    have time: "in_time tm (lw_clock w) (Holding held written)" using D(1) [of p] renew by simp
    from renew(3) show ?thesis
    proof (cases rule: sampled_cases)
      case (4 l)
      show ?thesis
      proof (cases "sl_instance l = sl_instance held")
        case True
        with 4 renew lock_renew [OF inv] show ?thesis by (simp add: after_renew_sample_def)
      next
        case False
        with 4 renew show ?thesis by (auto simp: after_renew_sample_def intro!: lock_quiet [OF inv])
      qed
    qed (use renew time in \<open>auto simp: after_renew_sample_def intro!: lock_quiet [OF inv]\<close>)
  next
    case (renew_write p held written n)
    with lock_renew_write [OF inv _ r] show ?thesis by (simp add: after_renew_write_def)
  next
    case (renew_fails p held written n e)
    then show ?thesis
      using D(1) [of p] by (auto simp: after_renew_write_def intro!: lock_quiet [OF inv])
  next
    case (release p held written s e)
    have time: "in_time tm (lw_clock w) (Holding held written)" using D(1) [of p] release by simp
    from release(3) show ?thesis
    proof (cases rule: sampled_cases)
      case (4 l)
      then show ?thesis
        using release time by (auto simp: after_release_sample_def intro!: lock_quiet [OF inv])
    qed (use release time in \<open>auto simp: after_release_sample_def intro!: lock_quiet [OF inv]\<close>)
  next
    case (remove p held written)
    with lock_remove [OF inv] show ?thesis by (simp add: after_remove_def)
  next
    case (remove_fails p held written e)
    then show ?thesis
      using D(1) [of p] by (auto simp: after_remove_def intro!: lock_quiet [OF inv])
  next
    case (crash p)
    then show ?thesis by (auto intro!: lock_quiet [OF inv])
  qed
qed

lemma lock_inv_reach:
  "lock_reach tm path self w \<Longrightarrow> timely tm \<Longrightarrow> own_locks self \<Longrightarrow> lock_inv tm self w"
  by (induction rule: lock_reach.induct) (simp_all add: lock_inv_start lock_inv_step)

lemma held_owner: "held_lock ph = Some held \<longleftrightarrow> (\<exists>t. owner ph = Some (held, t))"
  by (cases ph) auto


text \<open>One server takes over the lock that a dead one left.\<close>

definition example_lock :: "string \<Rightarrow> server_lock" where
  "example_lock p = \<lparr>sl_instance = p, sl_renewals = 0, sl_pid = 1, sl_hostname = ''h'', sl_started_at = 0, sl_image = ''node''\<rparr>"

definition claimed_late :: "(string \<Rightarrow> server_phase) \<Rightarrow> lock_world" where
  "claimed_late servers =
     \<lparr>lw_clock = 12000, lw_file = Locked (example_lock ''b''),
      lw_server = servers(''b'' := Holding (example_lock ''b'') 10000)\<rparr>"

lemma own_example: "own_locks example_lock"
  by (simp add: own_locks_def example_lock_def)

lemma takes_over:
  assumes start: "lock_reach tm path example_lock \<lparr>lw_clock = 0, lw_file = Locked (example_lock ''a''), lw_server = servers\<rparr>"
    and b: "servers ''b'' = Trying" and others: "\<And>p now. p \<noteq> ''b'' \<Longrightarrow> now \<le> 12000 \<Longrightarrow> in_time tm now (servers p)"
    and tm: "0 \<le> lt_overwrite tm" "2000 \<le> lt_renew tm"
  shows "lock_reach tm path example_lock (claimed_late servers)"
proof -
  let ?w = "\<lparr>lw_clock = 0, lw_file = Locked (example_lock ''a''), lw_server = servers\<rparr>"
  let ?at = "\<lambda>t ph. \<lparr>lw_clock = t, lw_file = Locked (example_lock ''a''), lw_server = servers(''b'' := ph)\<rparr>"
  have "lock_step tm path example_lock ?w (?at 0 Found)"
    using lock_step.link_exists [of ?w "''b''" tm path example_lock] b by (simp add: after_link_def)
  note s1 = lock_reach.step [OF start this]
  have "lock_step tm path example_lock (?at 0 Found) (?at 0 (Watching (example_lock ''a'') 0))"
    using lock_step.first [of "?at 0 Found" "''b''" "Inr (Present (example_lock ''a''))" e tm path example_lock]
    by (simp add: after_first_def)
  note s2 = lock_reach.step [OF s1 this]
  have "lock_step tm path example_lock (?at 0 (Watching (example_lock ''a'') 0)) (?at 10000 (Watching (example_lock ''a'') 0))"
    using lock_step.tick [of tm 10000 "?at 0 (Watching (example_lock ''a'') 0)" path example_lock] others by simp
  note s3 = lock_reach.step [OF s2 this]
  have "lock_step tm path example_lock (?at 10000 (Watching (example_lock ''a'') 0)) (?at 10000 (Overwriting 10000))"
    using lock_step.second [of "?at 10000 (Watching (example_lock ''a'') 0)" "''b''" "example_lock ''a''" 0
        "Inr (Present (example_lock ''a''))" e tm path example_lock]
    by (simp add: after_second_def unchanged_def lock_observation_window_ms_def)
  note s4 = lock_reach.step [OF s3 this]
  let ?bt = "\<lambda>t ph. \<lparr>lw_clock = t, lw_file = Locked (example_lock ''b''), lw_server = servers(''b'' := ph)\<rparr>"
  have "lock_step tm path example_lock (?at 10000 (Overwriting 10000)) (?bt 10000 (Confirming 10000))"
    using lock_step.overwrite [of "?at 10000 (Overwriting 10000)" "''b''" 10000 tm path example_lock]
    by (simp add: after_overwrite_def)
  note s5 = lock_reach.step [OF s4 this]
  have "lock_step tm path example_lock (?bt 10000 (Confirming 10000)) (?bt 12000 (Confirming 10000))"
    using lock_step.tick [of tm 12000 "?bt 10000 (Confirming 10000)" path example_lock] others tm by simp
  note s6 = lock_reach.step [OF s5 this]
  have "lock_step tm path example_lock (?bt 12000 (Confirming 10000)) (?bt 12000 (Holding (example_lock ''b'') 10000))"
    using lock_step.confirm [of "?bt 12000 (Confirming 10000)" "''b''" 10000
        "Inr (Present (example_lock ''b''))" e tm path example_lock]
    by (simp add: after_confirm_def lock_renewal_interval_ms_def)
  note s7 = lock_reach.step [OF s6 this]
  then show ?thesis by (simp add: claimed_late_def)
qed


text \<open>
  A living server that leaves its lock alone for the length of the observation window and a
  renewal interval, as one does whose boot takes that long, loses it to another one and does not
  notice: two servers hold the root.
\<close>

theorem unrenewed_lock_is_taken:
  "\<exists>w. lock_reach \<lparr>lt_overwrite = 0, lt_renew = 12000\<rparr> path example_lock w
     \<and> held_lock (lw_server w ''a'') = Some (example_lock ''a'')
     \<and> held_lock (lw_server w ''b'') = Some (example_lock ''b'')"
proof -
  let ?tm = "\<lparr>lt_overwrite = 0, lt_renew = 12000\<rparr>"
  let ?init = "\<lambda>p. if p = ''a'' \<or> p = ''b'' then Trying else Dead"
  let ?w = "\<lparr>lw_clock = 0, lw_file = NoLock, lw_server = ?init\<rparr>"
  let ?servers = "?init(''a'' := Holding (example_lock ''a'') 0)"
  have "lock_reach ?tm path example_lock ?w"
    by (rule lock_reach.start) (simp add: lock_start_def)
  moreover have "lock_step ?tm path example_lock ?w
      \<lparr>lw_clock = 0, lw_file = Locked (example_lock ''a''), lw_server = ?servers\<rparr>"
    using lock_step.link_claims [of ?w "''a''" ?tm path example_lock] by (simp add: after_link_def)
  ultimately have "lock_reach ?tm path example_lock
      \<lparr>lw_clock = 0, lw_file = Locked (example_lock ''a''), lw_server = ?servers\<rparr>"
    by (rule lock_reach.step)
  from takes_over [OF this] have "lock_reach ?tm path example_lock (claimed_late ?servers)"
    by simp
  then show ?thesis
    by (intro exI [of _ "claimed_late ?servers"]) (simp add: claimed_late_def)
qed

end
