(* ===== verification/Server_Process.thy ===== *)
theory Server_Process
  imports Server_Lock
begin

text \<open>
  \<open>src/server.ts\<close> and \<open>src/bound-step.ts\<close>: the clock that renews the lock, and the shutdown, as
  the effects of the process with the milliseconds at which they happen. How long the connections,
  the children and the file system take, or that they never answer, are the arguments.
\<close>

section \<open>A step with a bound\<close>

datatype bound_outcome = StepSettled | StepRejected | StepTimeout

text \<open>A step that never ends is \<open>None\<close>; one that ends says whether it fulfils, and when.\<close>

definition bound_step :: "(bool \<times> int) option \<Rightarrow> int \<Rightarrow> bound_outcome \<times> int" where
  "bound_step step bound =
     (case step of
        None \<Rightarrow> (StepTimeout, bound)
      | Some (fulfils, t) \<Rightarrow>
          if bound \<le> t then (StepTimeout, bound) else (if fulfils then StepSettled else StepRejected, t))"

section \<open>Shutdown\<close>

definition drain_timeout_ms :: int where "drain_timeout_ms = 5000"
definition kill_timeout_ms :: int where "kill_timeout_ms = 2000"
definition release_lock_timeout_ms :: int where "release_lock_timeout_ms = 2000"

datatype server_effect =
    CloseListener
  | DestroySockets
  | KillTurns
  | CancelRenewals
  | ReleaseLock
  | CloseStore
  | ExitWith int

record server_process =
  sv_stopping :: bool
  sv_timer :: bool

text \<open>
  \<open>runShutdown\<close>: \<open>drain\<close> is when the listener has closed by itself, \<open>kill\<close>, \<open>released\<close> and
  \<open>closed\<close> how long those steps take. A second call exits at once.
\<close>

definition run_shutdown ::
  "int \<Rightarrow> bool \<Rightarrow> int option \<Rightarrow> (bool \<times> int) option \<Rightarrow> int option \<Rightarrow> (bool \<times> int) option \<Rightarrow> server_process
   \<Rightarrow> server_process \<times> (int \<times> server_effect) list" where
  "run_shutdown exit_code cancel_now drain kill released closed s =
     (if sv_stopping s then (s, [(0, ExitWith 1)])
      else
        (let natural = (case drain of None \<Rightarrow> False | Some t \<Rightarrow> t < drain_timeout_ms);
             t1 = (case drain of None \<Rightarrow> drain_timeout_ms | Some t \<Rightarrow> min t drain_timeout_ms);
             t2 = t1 + snd (bound_step kill kill_timeout_ms);
             t3 = t2 + (case released of None \<Rightarrow> release_lock_timeout_ms | Some t \<Rightarrow> min t release_lock_timeout_ms)
         in (s\<lparr>sv_stopping := True, sv_timer := False\<rparr>,
             (if cancel_now then [(0, CancelRenewals)] else [])
             @ [(0, CloseListener)]
             @ (if natural then [] else [(t1, DestroySockets)])
             @ [(t1, KillTurns), (t2, CancelRenewals), (t2, ReleaseLock), (t3, CloseStore)]
             @ (case closed of None \<Rightarrow> [] | Some (_, t) \<Rightarrow> [(t3 + t, ExitWith exit_code)]))))"

text \<open>A tick of the renewal timer, with what \<open>renewLock\<close> answers when it is asked.\<close>

datatype tick_action = NoRenewal | RetryLater | RenewedLock | ShutDownDisplaced

definition renewal_tick :: "server_process \<Rightarrow> (string, bool) result \<Rightarrow> tick_action" where
  "renewal_tick s renewal =
     (if sv_stopping s then NoRenewal
      else (case renewal of
              Inl e \<Rightarrow> RetryLater
            | Inr renewed \<Rightarrow> if renewed then RenewedLock else ShutDownDisplaced))"

text \<open>An error of the listener: before it is bound the lock is given back and the process exits.\<close>

definition listener_error :: "bool \<Rightarrow> int option \<Rightarrow> (int \<times> server_effect) list" where
  "listener_error bound released =
     (if bound then []
      else [(0, CancelRenewals), (0, ReleaseLock)]
           @ (case released of None \<Rightarrow> [] | Some t \<Rightarrow> [(t, ExitWith 1)]))"

section \<open>Properties\<close>

lemma bound_step_within: "0 \<le> bound \<Longrightarrow> (\<And>b t. step = Some (b, t) \<Longrightarrow> 0 \<le> t) \<Longrightarrow>
    0 \<le> snd (bound_step step bound) \<and> snd (bound_step step bound) \<le> bound"
  by (auto simp: bound_step_def split: option.split)

definition non_negative :: "int option \<Rightarrow> bool" where
  "non_negative t = (case t of None \<Rightarrow> True | Some n \<Rightarrow> 0 \<le> n)"



end
