(* ===== verification/Runtime_Lease.thy ===== *)
theory Runtime_Lease
  imports Append_Log
begin

text \<open>
  \<open>src/agent-console/store/lease.ts\<close>: one runtime per storage root. A contender publishes a claim
  of its own, then lists the claims and refuses if another one may belong to a living process. The
  contenders run on any hosts and are interrupted anywhere; every file operation is one step.
\<close>

section \<open>Who is alive\<close>

record lease_holder =
  lh_instance :: string
  lh_pid :: int
  lh_hostname :: string
  lh_started_at :: iso_timestamp
  lh_os_created_at :: "iso_timestamp option"
  lh_server_lock :: "string option option"

text \<open>What \<open>process.kill(pid, 0)\<close> says: it is there, it is not, or something else went wrong.\<close>

datatype pid_probe = PidThere | PidMissing | PidUnclear

definition lease_alive ::
  "string \<Rightarrow> pid_probe \<Rightarrow> iso_timestamp option \<Rightarrow> string option \<Rightarrow> lease_holder \<Rightarrow> bool" where
  "lease_alive hostname probe created held_server_lock holder =
     (if lh_hostname holder = hostname
      then (case probe of
              PidMissing \<Rightarrow> False
            | PidUnclear \<Rightarrow> True
            | PidThere \<Rightarrow>
                lh_os_created_at holder = None \<or> created = None \<or> created = lh_os_created_at holder)
      else
        (case held_server_lock of
           None \<Rightarrow> True
         | Some held \<Rightarrow>
             (case lh_server_lock holder of
                None \<Rightarrow> False
              | Some None \<Rightarrow> True
              | Some (Some i) \<Rightarrow> i = held)))"

text \<open>
  One entry of the directory: another claim that is gone is skipped, one that cannot be read or
  is not a claim stops the contender, as does one of a process that may live. \<open>parse\<close> is
  \<open>JSON.parse\<close> with the checks of the fields' types.
\<close>

datatype lease_error =
    LeaseCorrupt string
  | LeaseLocked string lease_holder
  | LeaseIo string

definition holder_valid :: "lease_holder \<Rightarrow> bool" where
  "holder_valid holder = (0 < lh_pid holder)"

definition scan_entry ::
  "(string \<Rightarrow> lease_holder option) \<Rightarrow> (lease_holder \<Rightarrow> bool) \<Rightarrow> string \<Rightarrow> file_read \<Rightarrow> (lease_error, unit) result" where
  "scan_entry parse alive candidate r =
     (case r of
        FileMissing \<Rightarrow> Inr ()
      | FileFailed e \<Rightarrow> Inl (LeaseCorrupt candidate)
      | FileText raw \<Rightarrow>
          (case parse raw of
             None \<Rightarrow> Inl (LeaseCorrupt candidate)
           | Some holder \<Rightarrow>
               if \<not> holder_valid holder then Inl (LeaseCorrupt candidate)
               else if alive holder then Inl (LeaseLocked candidate holder)
               else Inr ()))"

section \<open>Contenders\<close>

text \<open>
  A contender is idle, has linked its claim, has the names of the others' claims still to read,
  holds the lease, is about to take its claim back after a refusal or an error, or is dead.
\<close>

datatype lease_phase =
    Idle
  | Published
  | Scanning "string list"
  | LeaseHeld
  | Withdrawing lease_error
  | LeaseDead

record lease_world =
  lz_claims :: "(string, lease_holder) jmap"
  lz_phase :: "string \<Rightarrow> lease_phase"

text \<open>
  What the operating systems and the server lock answer about a living process: on the same host
  it is there, with its own creation time or none; on another host its generation of the server
  lock is not proven displaced.
\<close>

definition truthful :: "string \<Rightarrow> pid_probe \<Rightarrow> iso_timestamp option \<Rightarrow> string option \<Rightarrow> lease_holder \<Rightarrow> bool" where
  "truthful hostname probe created held holder =
     (if lh_hostname holder = hostname
      then probe \<noteq> PidMissing \<and> (created = None \<or> created = lh_os_created_at holder)
      else held = None \<or> lh_server_lock holder = Some None \<or> lh_server_lock holder = Some held)"

abbreviation turn_to :: "string \<Rightarrow> lease_phase \<Rightarrow> lease_world \<Rightarrow> lease_world" where
  "turn_to p ph w \<equiv> w\<lparr>lz_phase := (lz_phase w)(p := ph)\<rparr>"

text \<open>A read of a claim: as it is now, or a failure.\<close>

definition read_claim :: "(lease_holder \<Rightarrow> string) \<Rightarrow> string \<Rightarrow> lease_world \<Rightarrow> file_read" where
  "read_claim render q w =
     (case jget (lz_claims w) q of None \<Rightarrow> FileMissing | Some holder \<Rightarrow> FileText (render holder))"

inductive lease_step ::
  "(string \<Rightarrow> lease_holder option) \<Rightarrow> (lease_holder \<Rightarrow> string) \<Rightarrow> (string \<Rightarrow> lease_holder) \<Rightarrow> lease_world \<Rightarrow> lease_world \<Rightarrow> bool"
  for parse render self where
  publish: "lz_phase w p = Idle \<Longrightarrow> jget (lz_claims w) p = None \<Longrightarrow>
    lease_step parse render self w
      (turn_to p Published (w\<lparr>lz_claims := jset (lz_claims w) p (self p)\<rparr>))"
| publish_fails: "lz_phase w p = Idle \<Longrightarrow>
    lease_step parse render self w (turn_to p (Withdrawing (LeaseIo d)) w)"
| list_claims: "lz_phase w p = Published \<Longrightarrow> set names = set (map fst (lz_claims w)) - {p} \<Longrightarrow>
    lease_step parse render self w (turn_to p (Scanning names) w)"
| scan_next: "lz_phase w p = Scanning (q # names) \<Longrightarrow> r = read_claim render q w \<Longrightarrow>
    (lz_phase w q \<noteq> LeaseDead \<Longrightarrow> truthful (lh_hostname (self p)) probe created held (self q)) \<Longrightarrow>
    scan_entry parse (lease_alive (lh_hostname (self p)) probe created held) q r = Inr () \<Longrightarrow>
    lease_step parse render self w (turn_to p (Scanning names) w)"
| scan_refuses: "lz_phase w p = Scanning (q # names) \<Longrightarrow>
    r \<in> {FileFailed d, read_claim render q w} \<Longrightarrow>
    scan_entry parse (lease_alive (lh_hostname (self p)) probe created held) q r = Inl e \<Longrightarrow>
    lease_step parse render self w (turn_to p (Withdrawing e) w)"
| scan_done: "lz_phase w p = Scanning [] \<Longrightarrow> lease_step parse render self w (turn_to p LeaseHeld w)"
| io_fails: "lz_phase w p \<in> {Published} \<union> range Scanning \<Longrightarrow>
    lease_step parse render self w (turn_to p (Withdrawing (LeaseIo d)) w)"
| withdraw: "lz_phase w p = Withdrawing e \<Longrightarrow>
    lease_step parse render self w (turn_to p Idle (w\<lparr>lz_claims := jdel (lz_claims w) p\<rparr>))"
| withdraw_fails: "lz_phase w p = Withdrawing e \<Longrightarrow> lease_step parse render self w (turn_to p Idle w)"
| release_lease: "lz_phase w p = LeaseHeld \<Longrightarrow>
    lease_step parse render self w (turn_to p Idle (w\<lparr>lz_claims := jdel (lz_claims w) p\<rparr>))"
| die: "lease_step parse render self w (turn_to p LeaseDead w)"

inductive lease_reach ::
  "(string \<Rightarrow> lease_holder option) \<Rightarrow> (lease_holder \<Rightarrow> string) \<Rightarrow> (string \<Rightarrow> lease_holder) \<Rightarrow> lease_world \<Rightarrow> bool"
  for parse render self where
  lease_start: "(\<And>p. phases p \<in> {Idle, LeaseDead}) \<Longrightarrow> (\<And>q h. jget claims q = Some h \<Longrightarrow> h = self q) \<Longrightarrow>
    lease_reach parse render self \<lparr>lz_claims = claims, lz_phase = phases\<rparr>"
| lease_more: "lease_reach parse render self w \<Longrightarrow> lease_step parse render self w w' \<Longrightarrow>
    lease_reach parse render self w'"

section \<open>Invariant\<close>

fun claiming :: "lease_phase \<Rightarrow> string list option" where
  "claiming (Scanning names) = Some names"
| "claiming LeaseHeld = Some []"
| "claiming _ = None"

text \<open>
  A contender that has its claim out has the file; of two that have both listed the claims, one
  still has the other's to read.
\<close>

definition lease_inv :: "(string \<Rightarrow> lease_holder) \<Rightarrow> lease_world \<Rightarrow> bool" where
  "lease_inv self w =
     ((\<forall>p. lz_phase w p = Published \<or> claiming (lz_phase w p) \<noteq> None \<longrightarrow> jget (lz_claims w) p \<noteq> None)
      \<and> (\<forall>p h. jget (lz_claims w) p = Some h \<longrightarrow> h = self p)
      \<and> (\<forall>p q ps qs. p \<noteq> q \<longrightarrow> claiming (lz_phase w p) = Some ps \<longrightarrow> claiming (lz_phase w q) = Some qs \<longrightarrow>
           q \<in> set ps \<or> p \<in> set qs))"

text \<open>Nothing that a living process answers lets its claim be taken for a dead one's.\<close>

lemma living_is_alive: "truthful hostname probe created held holder \<Longrightarrow> lease_alive hostname probe created held holder"
  by (auto simp: truthful_def lease_alive_def split: pid_probe.split option.split if_splits)

lemma scan_skips:
  assumes ok: "scan_entry parse (lease_alive hn probe created held) q (read_claim render q w) = Inr ()"
    and claims: "jget (lz_claims w) q = Some (self q)" and round: "parse (render (self q)) = Some (self q)"
    and alive: "lz_phase w q \<noteq> LeaseDead \<Longrightarrow> truthful hn probe created held (self q)"
  shows "lz_phase w q = LeaseDead"
  using assms living_is_alive [of hn probe created held "self q"]
  by (auto simp: scan_entry_def read_claim_def split: if_splits)

lemma lease_inv_start:
  "(\<And>p. phases p \<in> {Idle, LeaseDead}) \<Longrightarrow> (\<And>q h. jget claims q = Some h \<Longrightarrow> h = self q) \<Longrightarrow>
   lease_inv self \<lparr>lz_claims = claims, lz_phase = phases\<rparr>"
proof -
  assume ph: "\<And>p. phases p \<in> {Idle, LeaseDead}" and c: "\<And>q h. jget claims q = Some h \<Longrightarrow> h = self q"
  have "claiming (phases p) = None" "phases p \<noteq> Published" for p
    using ph [of p] by auto
  with c show ?thesis by (simp add: lease_inv_def)
qed

lemma lease_invD:
  assumes "lease_inv self w"
  shows "lz_phase w p = Published \<or> claiming (lz_phase w p) \<noteq> None \<Longrightarrow> jget (lz_claims w) p \<noteq> None"
    and "jget (lz_claims w) p = Some h \<Longrightarrow> h = self p"
    and "p \<noteq> q \<Longrightarrow> claiming (lz_phase w p) = Some ps \<Longrightarrow> claiming (lz_phase w q) = Some qs \<Longrightarrow>
      q \<in> set ps \<or> p \<in> set qs"
  using assms unfolding lease_inv_def by blast+

text \<open>What a step of \<open>p\<close> has to establish.\<close>

lemma lease_move:
  assumes inv: "lease_inv self w"
    and others: "\<And>q. q \<noteq> p \<Longrightarrow> jget claims q = jget (lz_claims w) q"
    and mine: "\<And>h. jget claims p = Some h \<Longrightarrow> h = self p"
    and out: "ph = Published \<or> claiming ph \<noteq> None \<Longrightarrow> jget claims p \<noteq> None"
    and pair: "\<And>q ps qs. q \<noteq> p \<Longrightarrow> claiming ph = Some ps \<Longrightarrow> claiming (lz_phase w q) = Some qs \<Longrightarrow>
        q \<in> set ps \<or> p \<in> set qs"
  shows "lease_inv self (w\<lparr>lz_claims := claims, lz_phase := (lz_phase w)(p := ph)\<rparr>)"
proof -
  note D = lease_invD [OF inv]
  let ?ph = "(lz_phase w)(p := ph)"
  have "jget claims q \<noteq> None" if "?ph q = Published \<or> claiming (?ph q) \<noteq> None" for q
    using that out others [of q] D(1) [of q] by (cases "q = p") simp_all
  moreover have "h = self q" if "jget claims q = Some h" for q h
    using that mine others [of q] D(2) [of q h] by (cases "q = p") simp_all
  moreover have "b \<in> set as \<or> a \<in> set bs"
    if "a \<noteq> b" "claiming (?ph a) = Some as" "claiming (?ph b) = Some bs" for a b as bs
    using that pair [of b as bs] pair [of a bs as] D(3) [of a b as bs]
    by (cases "a = p"; cases "b = p") auto
  ultimately show ?thesis
    unfolding lease_inv_def by (simp del: fun_upd_apply)
qed

lemma lease_gives_up:
  assumes "lease_inv self w" and "claiming ph = None" "ph \<noteq> Published"
  shows "lease_inv self (turn_to p ph w)"
    and "lease_inv self (turn_to p ph (w\<lparr>lz_claims := jdel (lz_claims w) p\<rparr>))"
  using lease_move [OF assms(1), of p "lz_claims w" ph] lease_move [OF assms(1), of p "jdel (lz_claims w) p" ph]
    lease_invD (2) [OF assms(1)] assms(2,3)
  by simp_all

lemma lease_inv_step:
  assumes inv: "lease_inv self w" and st: "lease_step parse render self w w'"
    and round: "\<And>q. parse (render (self q)) = Some (self q)"
  shows "lease_inv self w'"
  using st
proof cases
  case (publish p)
  with lease_move [OF inv, of p "jset (lz_claims w) p (self p)" Published] show ?thesis
    by simp
next
  case (list_claims p names)
  note D = lease_invD [OF inv]
  have all: "q \<in> set names" if "claiming (lz_phase w q) = Some qs" "q \<noteq> p" for q qs
  proof -
    from D(1) [of q] that obtain h where "jget (lz_claims w) q = Some h" by auto
    from jget_in_set [OF this] show ?thesis using list_claims that by force
  qed
  have "jget (lz_claims w) p \<noteq> None" using D(1) [of p] list_claims by simp
  then have "lease_inv self (w\<lparr>lz_claims := lz_claims w, lz_phase := (lz_phase w)(p := Scanning names)\<rparr>)"
    using all D(2) by (intro lease_move [OF inv]) auto
  then show ?thesis by (simp add: list_claims)
next
  case (scan_next p q names r probe created held)
  note D = lease_invD [OF inv]
  have gone: "claiming (lz_phase w q) = None"
  proof (cases "jget (lz_claims w) q")
    case None
    with D(1) [of q] show ?thesis by blast
  next
    case (Some h)
    with D(2) have c: "jget (lz_claims w) q = Some (self q)" by blast
    have "lz_phase w q = LeaseDead"
      using scan_skips [where self = self and w = w and q = q and render = render and parse = parse, OF _ c round [of q],
          of "lh_hostname (self p)" probe created held] scan_next by simp
    then show ?thesis by simp
  qed
  have claims: "claiming (lz_phase w p) = Some (q # names)" using scan_next by simp
  have "b \<in> set names \<or> p \<in> set bs" if "b \<noteq> p" "claiming (lz_phase w b) = Some bs" for b bs
    using that D(3) [of p b "q # names" bs] claims gone by auto
  then have "lease_inv self (w\<lparr>lz_claims := lz_claims w, lz_phase := (lz_phase w)(p := Scanning names)\<rparr>)"
    using D(1,2) claims by (intro lease_move [OF inv]) auto
  then show ?thesis by (simp add: scan_next(1))
next
  case (scan_done p)
  note D = lease_invD [OF inv]
  have claims: "claiming (lz_phase w p) = Some []" using scan_done by simp
  have "p \<in> set bs" if "b \<noteq> p" "claiming (lz_phase w b) = Some bs" for b bs
    using that D(3) [of p b "[]" bs] claims by auto
  then have "lease_inv self (w\<lparr>lz_claims := lz_claims w, lz_phase := (lz_phase w)(p := LeaseHeld)\<rparr>)"
    using D(1,2) claims by (intro lease_move [OF inv]) auto
  then show ?thesis by (simp add: scan_done(1))
qed (use lease_gives_up [OF inv] in simp_all)

lemma lease_inv_reach:
  "lease_reach parse render self w \<Longrightarrow> (\<And>q. parse (render (self q)) = Some (self q)) \<Longrightarrow> lease_inv self w"
  by (induction rule: lease_reach.induct) (simp_all add: lease_inv_start lease_inv_step)

section \<open>Properties\<close>


text \<open>A runtime that starts beside the claim of a dead one.\<close>

definition example_holder :: "string \<Rightarrow> lease_holder" where
  "example_holder p =
     \<lparr>lh_instance = p, lh_pid = 7, lh_hostname = ''h'', lh_started_at = 1, lh_os_created_at = None,
      lh_server_lock = Some None\<rparr>"


end
