(* ===== verification/Line_Framing.thy ===== *)
theory Line_Framing
  imports Console_Prelude "HOL-Library.Word" "HOL-Library.Sublist"
begin

text \<open>
  \<open>NdjsonSplitter\<close> (\<open>src/agent-console/providers/ndjson.ts\<close>), which cuts the output of every agent
  and the input of the runtime into lines, and \<open>RpcReader\<close>
  (\<open>src/agent-console/runtime/protocol/reader.ts\<close>), which feeds the runtime's protocol. Chunks are
  lists of bytes. The decoding of a line is a parameter, as in the code: \<open>None\<close> is a decoder that
  throws. The reference the splitter is compared with cuts the whole stream at its newlines.
\<close>

section \<open>The splitter\<close>

type_synonym octet = "8 word"

abbreviation newline_octet :: octet where
  "newline_octet \<equiv> 10"

text \<open>
  \<open>sp_held\<close> are the first \<open>#size\<close> bytes of \<open>#buffer\<close>, \<open>sp_room\<close> is the length of that buffer.
\<close>

record splitter =
  sp_held :: "octet list"
  sp_room :: nat
  sp_overflowed :: bool

record 'a framing =
  fr_cap :: nat
  fr_drop_blank :: bool
  fr_decode :: "octet list \<Rightarrow> 'a option"

definition new_splitter :: splitter where
  "new_splitter = \<lparr>sp_held = [], sp_room = 0, sp_overflowed = False\<rparr>"

definition pending_bytes :: "splitter \<Rightarrow> nat" where
  "pending_bytes s = length (sp_held s)"

text \<open>How a push ends: it returns its lines, reports the overflow after them, or the decoder throws.\<close>

datatype push_end = Pushed | Overflow | Threw

text \<open>A part is appended; the buffer is grown first when it does not fit.\<close>

definition grown_room :: "nat \<Rightarrow> nat \<Rightarrow> nat \<Rightarrow> nat" where
  "grown_room cap needed room = (if room < needed then min cap (max needed (max (room * 2) 4096)) else room)"

definition hold :: "nat \<Rightarrow> octet list \<Rightarrow> splitter \<Rightarrow> splitter" where
  "hold cap part s =
     s\<lparr>sp_held := sp_held s @ part, sp_room := grown_room cap (length (sp_held s) + length part) (sp_room s)\<rparr>"

lemma rest_after_newline_shorter:
  assumes "newline_octet \<in> set rest"
  shows "length (dropWhile (\<lambda>b. b \<noteq> newline_octet) rest) - Suc 0 < length rest"
proof -
  have "length (dropWhile (\<lambda>b. b \<noteq> newline_octet) rest) \<le> length rest" by (rule length_dropWhile_le)
  moreover from assms have "rest \<noteq> []" by auto
  ultimately show ?thesis by (cases rest) auto
qed

text \<open>The loop of \<open>push\<close>, over what is left of the chunk.\<close>

function push_loop :: "'a framing \<Rightarrow> octet list \<Rightarrow> 'a list \<Rightarrow> splitter \<Rightarrow> 'a list \<times> push_end \<times> splitter" where
  "push_loop fr rest ls s =
     (if rest = [] then (ls, Pushed, s)
      else
        (let part = takeWhile (\<lambda>b. b \<noteq> newline_octet) rest;
             after = dropWhile (\<lambda>b. b \<noteq> newline_octet) rest
         in
           if fr_cap fr < length (sp_held s) + length part
           then (ls, Overflow, s\<lparr>sp_held := [], sp_room := 0, sp_overflowed := True\<rparr>)
           else
             (let s' = hold (fr_cap fr) part s
              in
                if after = [] then (ls, Pushed, s')
                else if sp_held s' \<noteq> [] \<or> \<not> fr_drop_blank fr
                then
                  (case fr_decode fr (sp_held s') of
                     None \<Rightarrow> (ls, Threw, s')
                   | Some l \<Rightarrow> push_loop fr (tl after) (ls @ [l]) (s'\<lparr>sp_held := []\<rparr>))
                else push_loop fr (tl after) ls (s'\<lparr>sp_held := []\<rparr>))))"
  by pat_completeness auto

termination
  by (relation "measure (\<lambda>(fr, rest, ls, s). length rest)") (auto intro: rest_after_newline_shorter)

declare push_loop.simps [simp del]

definition push_chunk :: "'a framing \<Rightarrow> octet list \<Rightarrow> splitter \<Rightarrow> 'a list \<times> push_end \<times> splitter" where
  "push_chunk fr chunk s = (if sp_overflowed s then ([], Pushed, s) else push_loop fr chunk [] s)"

text \<open>A stream arrives in chunks; a caller that is thrown at keeps pushing, as \<open>RpcReader\<close> does.\<close>

fun push_all :: "'a framing \<Rightarrow> octet list list \<Rightarrow> splitter \<Rightarrow> 'a list \<times> push_end list \<times> splitter" where
  "push_all fr [] s = ([], [], s)"
| "push_all fr (c # cs) s =
     (let (ls, e, s') = push_chunk fr c s; (ls', es, s'') = push_all fr cs s'
      in (ls @ ls', e # es, s''))"

section \<open>The reader of the runtime's protocol\<close>

text \<open>
  What \<open>RpcReader\<close> calls back: a line, or the reason of a corruption. The decoder is fatal, blank
  lines are kept. When the decoder throws, the lines the same push had already cut are not handed
  on.
\<close>

datatype 'a reader_call = LineRead 'a | CorruptLine string

definition reader_framing :: "nat \<Rightarrow> (octet list \<Rightarrow> 'a option) \<Rightarrow> 'a framing" where
  "reader_framing cap decode = \<lparr>fr_cap = cap, fr_drop_blank = False, fr_decode = decode\<rparr>"

definition reader_push :: "'a framing \<Rightarrow> octet list \<Rightarrow> splitter \<Rightarrow> 'a reader_call list \<times> splitter" where
  "reader_push fr chunk s =
     (let (ls, e, s') = push_chunk fr chunk s
      in
        (case e of
           Pushed \<Rightarrow> (map LineRead ls, s')
         | Overflow \<Rightarrow> (map LineRead ls @ [CorruptLine ''line_too_large''], s')
         | Threw \<Rightarrow> ([CorruptLine ''invalid_utf8''], s')))"

definition reader_end :: "splitter \<Rightarrow> 'a reader_call list" where
  "reader_end s = (if pending_bytes s \<noteq> 0 then [CorruptLine ''unterminated_line''] else [])"

section \<open>The reference\<close>

text \<open>The lines of a whole stream, and what follows its last newline.\<close>

function stream_lines :: "octet list \<Rightarrow> octet list list" where
  "stream_lines bs =
     (if newline_octet \<in> set bs
      then takeWhile (\<lambda>b. b \<noteq> newline_octet) bs # stream_lines (tl (dropWhile (\<lambda>b. b \<noteq> newline_octet) bs))
      else [])"
  by pat_completeness auto

termination
  by (relation "measure length") (auto intro: rest_after_newline_shorter)

declare stream_lines.simps [simp del]

definition stream_rest :: "octet list \<Rightarrow> octet list" where
  "stream_rest bs = rev (takeWhile (\<lambda>b. b \<noteq> newline_octet) (rev bs))"

text \<open>No line is longer than the cap, and neither is what follows the last newline.\<close>

definition stream_fits :: "nat \<Rightarrow> octet list \<Rightarrow> bool" where
  "stream_fits cap bs = list_all (\<lambda>l. length l \<le> cap) (stream_lines bs @ [stream_rest bs])"

definition kept_lines :: "bool \<Rightarrow> octet list list \<Rightarrow> octet list list" where
  "kept_lines drop_blank ls = (if drop_blank then filter (\<lambda>l. l \<noteq> []) ls else ls)"

text \<open>The lines before the first one that is too long.\<close>

definition good_lines :: "nat \<Rightarrow> octet list \<Rightarrow> octet list list" where
  "good_lines cap bs = takeWhile (\<lambda>l. length l \<le> cap) (stream_lines bs)"

section \<open>Cutting a stream\<close>

lemma stream_lines_none: "newline_octet \<notin> set bs \<Longrightarrow> stream_lines bs = []"
  by (simp add: stream_lines.simps)

lemma stream_lines_first:
  "newline_octet \<notin> set h \<Longrightarrow> stream_lines (h @ newline_octet # bs) = h # stream_lines bs"
  by (subst stream_lines.simps) (simp add: takeWhile_append dropWhile_append)

lemma no_newline_prefix: "newline_octet \<notin> set bs \<Longrightarrow> takeWhile (\<lambda>b. b \<noteq> newline_octet) bs = bs"
  by (induction bs) auto

lemma stream_rest_none: "newline_octet \<notin> set bs \<Longrightarrow> stream_rest bs = bs"
  by (simp add: stream_rest_def no_newline_prefix)

lemma stream_rest_first: "stream_rest (h @ newline_octet # bs) = stream_rest bs"
  by (auto simp: stream_rest_def takeWhile_append no_newline_prefix)

lemma stream_rest_clean [simp]: "newline_octet \<notin> set (stream_rest bs)"
  by (auto simp: stream_rest_def dest: set_takeWhileD)

lemma first_newline:
  assumes "newline_octet \<in> set bs"
  obtains h t where "bs = h @ newline_octet # t" and "newline_octet \<notin> set h"
  using split_list_first [OF assms] by blast

lemma stream_induct [case_names none first]:
  assumes none: "\<And>bs. newline_octet \<notin> set bs \<Longrightarrow> P bs"
    and first: "\<And>h t. newline_octet \<notin> set h \<Longrightarrow> P t \<Longrightarrow> P (h @ newline_octet # t)"
  shows "P bs"
proof (induction bs rule: length_induct)
  case (1 bs)
  show ?case
  proof (cases "newline_octet \<in> set bs")
    case True
    then obtain h t where "bs = h @ newline_octet # t" and "newline_octet \<notin> set h" by (rule first_newline)
    with 1 first show ?thesis by simp
  qed (rule none)
qed

text \<open>A stream in two pieces: what is left of the first is cut with the second.\<close>

lemma stream_append:
  "stream_lines (xs @ ys) = stream_lines xs @ stream_lines (stream_rest xs @ ys)"
  "stream_rest (xs @ ys) = stream_rest (stream_rest xs @ ys)"
  by (induction xs rule: stream_induct)
    (simp_all add: stream_lines_none stream_rest_none stream_lines_first stream_rest_first)

lemma stream_fits_none: "newline_octet \<notin> set bs \<Longrightarrow> stream_fits cap bs \<longleftrightarrow> length bs \<le> cap"
  by (simp add: stream_fits_def stream_lines_none stream_rest_none)

lemma stream_fits_first:
  "newline_octet \<notin> set h \<Longrightarrow> stream_fits cap (h @ newline_octet # bs) \<longleftrightarrow> length h \<le> cap \<and> stream_fits cap bs"
  by (auto simp: stream_fits_def stream_lines_first stream_rest_first)

lemma good_lines_none: "newline_octet \<notin> set bs \<Longrightarrow> good_lines cap bs = []"
  by (simp add: good_lines_def stream_lines_none)

lemma good_lines_first:
  "newline_octet \<notin> set h \<Longrightarrow>
   good_lines cap (h @ newline_octet # bs) = (if length h \<le> cap then h # good_lines cap bs else [])"
  by (simp add: good_lines_def stream_lines_first)

lemma good_lines_fit: "stream_fits cap bs \<Longrightarrow> good_lines cap bs = stream_lines bs"
  by (simp add: good_lines_def stream_fits_def list_all_iff takeWhile_eq_all_conv)

lemma stream_fits_append:
  "stream_fits cap (xs @ ys) \<longleftrightarrow>
   list_all (\<lambda>l. length l \<le> cap) (stream_lines xs) \<and> stream_fits cap (stream_rest xs @ ys)"
  by (simp add: stream_fits_def stream_append(1) [of xs ys] stream_append(2) [of xs ys])

lemma stream_fits_continue:
  "stream_fits cap xs \<Longrightarrow> stream_fits cap (xs @ ys) \<longleftrightarrow> stream_fits cap (stream_rest xs @ ys)"
  by (simp add: stream_fits_append [of cap xs ys]) (simp add: stream_fits_def)

lemma stream_fits_prefix: "stream_fits cap (xs @ ys) \<Longrightarrow> stream_fits cap xs"
proof (induction xs rule: stream_induct)
  case (none bs)
  show ?case
  proof (cases "newline_octet \<in> set ys")
    case True
    then obtain h t where "ys = h @ newline_octet # t" and "newline_octet \<notin> set h" by (rule first_newline)
    with none stream_fits_first [of "bs @ h" cap t] show ?thesis by (simp add: stream_fits_none)
  qed (use none in \<open>simp add: stream_fits_none\<close>)
qed (simp add: stream_fits_first)

lemma good_lines_append:
  "good_lines cap (xs @ ys) =
   (if stream_fits cap xs then stream_lines xs @ good_lines cap (stream_rest xs @ ys)
    else good_lines cap xs)"
proof (induction xs rule: stream_induct)
  case (none bs)
  show ?case
  proof (cases "newline_octet \<in> set ys")
    case True
    then obtain h t where "ys = h @ newline_octet # t" and "newline_octet \<notin> set h" by (rule first_newline)
    with none good_lines_first [of "bs @ h" cap t] show ?thesis
      by (simp add: stream_fits_none stream_lines_none stream_rest_none good_lines_none)
  qed (use none in \<open>simp add: stream_fits_none stream_lines_none stream_rest_none good_lines_none\<close>)
qed (auto simp: stream_fits_first good_lines_first stream_lines_first stream_rest_first)

lemma kept_lines_simps [simp]:
  "kept_lines b [] = []"
  "kept_lines b (l # ls) = (if b \<and> l = [] then kept_lines b ls else l # kept_lines b ls)"
  "kept_lines b (ls @ ls') = kept_lines b ls @ kept_lines b ls'"
  by (simp_all add: kept_lines_def)

section \<open>One push\<close>

definition room_ok :: "nat \<Rightarrow> splitter \<Rightarrow> bool" where
  "room_ok cap s \<longleftrightarrow> length (sp_held s) \<le> sp_room s \<and> sp_room s \<le> cap"

lemma room_ok_hold:
  "room_ok cap s \<Longrightarrow> length (sp_held s) + length part \<le> cap \<Longrightarrow> room_ok cap (hold cap part s)"
  by (auto simp: room_ok_def hold_def grown_room_def)

lemma hold_simps [simp]:
  "sp_held (hold cap part s) = sp_held s @ part"
  "sp_overflowed (hold cap part s) = sp_overflowed s"
  by (simp_all add: hold_def)

text \<open>What a push gives, over the bytes held before it and the chunk together.\<close>

definition end_gives :: "'a framing \<Rightarrow> octet list \<Rightarrow> octet list list \<Rightarrow> push_end \<Rightarrow> splitter \<Rightarrow> bool" where
  "end_gives fr bs post e s' =
     (case e of
        Threw \<Rightarrow> post \<noteq> [] \<and> fr_decode fr (hd post) = None
      | Overflow \<Rightarrow> post = [] \<and> \<not> stream_fits (fr_cap fr) bs \<and> sp_overflowed s' \<and> sp_held s' = []
      | Pushed \<Rightarrow>
          post = [] \<and> stream_fits (fr_cap fr) bs \<and> \<not> sp_overflowed s' \<and> sp_held s' = stream_rest bs)"

definition push_gives ::
  "'a framing \<Rightarrow> octet list \<Rightarrow> 'a list \<Rightarrow> 'a list \<times> push_end \<times> splitter \<Rightarrow> bool" where
  "push_gives fr bs ls r \<longleftrightarrow>
     (\<exists>new pre post e s'.
        r = (ls @ new, e, s') \<and> room_ok (fr_cap fr) s' \<and>
        kept_lines (fr_drop_blank fr) (good_lines (fr_cap fr) bs) = pre @ post \<and>
        map Some new = map (fr_decode fr) pre \<and> end_gives fr bs post e s')"

lemma end_gives_first:
  "newline_octet \<notin> set h \<Longrightarrow> length h \<le> fr_cap fr \<Longrightarrow>
   end_gives fr (h @ newline_octet # t) post e s' = end_gives fr t post e s'"
  by (simp add: end_gives_def stream_fits_first stream_rest_first cong: push_end.case_cong)

lemma push_gives_line:
  assumes "push_gives fr t (ls @ [l]) r" and "newline_octet \<notin> set h" and "length h \<le> fr_cap fr"
    and "h \<noteq> [] \<or> \<not> fr_drop_blank fr" and "fr_decode fr h = Some l"
  shows "push_gives fr (h @ newline_octet # t) ls r"
proof -
  from assms(1) obtain new pre post e s' where
    "r = ((ls @ [l]) @ new, e, s')" and "room_ok (fr_cap fr) s'" and "end_gives fr t post e s'"
    and "kept_lines (fr_drop_blank fr) (good_lines (fr_cap fr) t) = pre @ post"
    and "map Some new = map (fr_decode fr) pre"
    unfolding push_gives_def by blast
  with assms(2-) show ?thesis
    unfolding push_gives_def
    by (intro exI [of _ "l # new"] exI [of _ "h # pre"] exI [of _ post] exI [of _ e] exI [of _ s'])
      (auto simp: good_lines_first end_gives_first)
qed

lemma push_gives_blank:
  "push_gives fr t ls r \<Longrightarrow> fr_drop_blank fr \<Longrightarrow> push_gives fr (newline_octet # t) ls r"
  using good_lines_first [of "[]" "fr_cap fr" t] end_gives_first [of "[]" fr t]
  by (simp add: push_gives_def)

lemma push_gives_overflow:
  assumes "newline_octet \<notin> set h" and "fr_cap fr < length h" and "t = [] \<or> hd t = newline_octet"
  shows "push_gives fr (h @ t) ls (ls, Overflow, \<lparr>sp_held = [], sp_room = 0, sp_overflowed = True\<rparr>)"
  using assms
  by (cases t)
    (auto simp: push_gives_def end_gives_def room_ok_def stream_fits_none stream_fits_first good_lines_none good_lines_first)

lemma overflowed_eta: "s\<lparr>sp_held := a, sp_room := b, sp_overflowed := c\<rparr> =
    \<lparr>sp_held = a, sp_room = b, sp_overflowed = c\<rparr>"
  by simp

lemma room_ok_emptied: "room_ok cap s \<Longrightarrow> room_ok cap (s\<lparr>sp_held := []\<rparr>)"
  by (simp add: room_ok_def)

lemma push_loop_gives:
  assumes "newline_octet \<notin> set (sp_held s)" and "\<not> sp_overflowed s" and "room_ok (fr_cap fr) s"
  shows "push_gives fr (sp_held s @ rest) ls (push_loop fr rest ls s)"
  using assms
proof (induction fr rest ls s rule: push_loop.induct)
  case (1 fr rest ls s)
  let ?part = "takeWhile (\<lambda>b. b \<noteq> newline_octet) rest"
  let ?after = "dropWhile (\<lambda>b. b \<noteq> newline_octet) rest"
  let ?h = "sp_held s @ ?part"
  let ?s = "hold (fr_cap fr) ?part s"
  have rest: "sp_held s @ rest = ?h @ ?after" by simp
  have clean: "newline_octet \<notin> set ?h"
    using 1(3) by (auto dest: set_takeWhileD)
  have after: "?after = [] \<or> hd ?after = newline_octet"
    by (metis (mono_tags) hd_dropWhile)
  show ?case
  proof (cases "rest = []")
    case True
    with 1(3-5) show ?thesis
      by (auto simp: push_loop.simps push_gives_def end_gives_def good_lines_none stream_fits_none stream_rest_none room_ok_def)
  next
    case ne: False
    show ?thesis
    proof (cases "fr_cap fr < length ?h")
      case True
      with ne have "push_loop fr rest ls s =
          (ls, Overflow, \<lparr>sp_held = [], sp_room = 0, sp_overflowed = True\<rparr>)"
        by (subst push_loop.simps) simp
      then show ?thesis
        unfolding rest using push_gives_overflow [OF clean True after, of ls] by simp
    next
      case fits: False
      then have fits': "length (sp_held s) + length ?part \<le> fr_cap fr" by simp
      note room = room_ok_hold [OF 1(5) fits']
      show ?thesis
      proof (cases "?after = []")
        case True
        with ne fits have "push_loop fr rest ls s = (ls, Pushed, ?s)"
          by (subst push_loop.simps) (simp add: Let_def)
        moreover have "sp_held s @ rest = ?h" using rest unfolding True by (simp only: append_Nil2)
        ultimately show ?thesis
          using clean fits room 1(4)
          by (simp only:) (simp add: push_gives_def end_gives_def good_lines_none stream_fits_none stream_rest_none)
      next
        case False
        with after have after': "?after = newline_octet # tl ?after" by (cases ?after) auto
        show ?thesis
        proof (cases "?h \<noteq> [] \<or> \<not> fr_drop_blank fr")
          case line: True
          show ?thesis
          proof (cases "fr_decode fr ?h")
            case None
            with ne fits False line have "push_loop fr rest ls s = (ls, Threw, ?s)"
              by (subst push_loop.simps) (auto simp add: Let_def)
            with None clean fits line room good_lines_first [OF clean, of "fr_cap fr" "tl ?after"]
            show ?thesis
              unfolding rest by (subst after') (auto simp: push_gives_def end_gives_def)
          next
            case (Some l)
            with ne fits False line
            have "push_loop fr rest ls s = push_loop fr (tl ?after) (ls @ [l]) (?s\<lparr>sp_held := []\<rparr>)"
              by (subst push_loop.simps) (auto simp add: Let_def)
            moreover have "push_gives fr (tl ?after) (ls @ [l]) (push_loop fr (tl ?after) (ls @ [l]) (?s\<lparr>sp_held := []\<rparr>))"
              using 1(1) [OF ne refl refl, of ?s] fits False line Some room 1(4)
              by (auto simp: room_ok_emptied)
            ultimately show ?thesis
              unfolding rest using push_gives_line [of fr "tl ?after" ls l _ ?h, folded after'] clean fits line Some by simp
          qed
        next
          case blank: False
          with ne fits False
          have "push_loop fr rest ls s = push_loop fr (tl ?after) ls (?s\<lparr>sp_held := []\<rparr>)"
            by (subst push_loop.simps) (auto simp add: Let_def)
          moreover have "push_gives fr (tl ?after) ls (push_loop fr (tl ?after) ls (?s\<lparr>sp_held := []\<rparr>))"
            using 1(2) [OF ne refl refl, of ?s] fits False blank room 1(4)
            by (auto simp: room_ok_emptied)
          ultimately show ?thesis
            unfolding rest using push_gives_blank [of fr "tl ?after" ls, folded after'] blank by simp
        qed
      qed
    qed
  qed
qed

section \<open>A whole stream\<close>

text \<open>A decoder that never throws, as the agents' output is decoded.\<close>

abbreviation total_framing :: "nat \<Rightarrow> bool \<Rightarrow> (octet list \<Rightarrow> 'a) \<Rightarrow> 'a framing" where
  "total_framing cap drop_blank d \<equiv> \<lparr>fr_cap = cap, fr_drop_blank = drop_blank, fr_decode = \<lambda>b. Some (d b)\<rparr>"

text \<open>The state after the bytes \<open>seen\<close> depends on these bytes alone.\<close>

definition splitter_after :: "nat \<Rightarrow> octet list \<Rightarrow> splitter \<Rightarrow> bool" where
  "splitter_after cap seen s \<longleftrightarrow>
     room_ok cap s \<and> (sp_overflowed s \<longleftrightarrow> \<not> stream_fits cap seen) \<and>
     sp_held s = (if stream_fits cap seen then stream_rest seen else [])"

lemma map_Some_map: "map Some xs = map (\<lambda>b. Some (d b)) ys \<longleftrightarrow> xs = map d ys"
  by (metis (no_types, lifting) list.inj_map_strong list.map_comp comp_apply map_eq_conv option.inject)

lemma new_splitter_after: "splitter_after cap [] new_splitter"
  by (simp add: splitter_after_def new_splitter_def room_ok_def stream_fits_none stream_rest_none)

lemma push_chunk_after:
  assumes "splitter_after cap seen s"
  shows "case push_chunk (total_framing cap b d) chunk s of (ls, e, s') \<Rightarrow>
    splitter_after cap (seen @ chunk) s' \<and>
    map d (kept_lines b (good_lines cap (seen @ chunk))) = map d (kept_lines b (good_lines cap seen)) @ ls \<and>
    (e = Overflow \<longleftrightarrow> stream_fits cap seen \<and> \<not> stream_fits cap (seen @ chunk)) \<and> e \<noteq> Threw"
proof (cases "stream_fits cap seen")
  case True
  with assms have s: "sp_held s = stream_rest seen" "\<not> sp_overflowed s" "room_ok cap s"
    by (simp_all add: splitter_after_def)
  let ?fr = "total_framing cap b d"
  have "push_gives ?fr (stream_rest seen @ chunk) [] (push_loop ?fr chunk [] s)"
    using push_loop_gives [of s ?fr chunk "[]"] s by simp
  then obtain new pre post e s' where
    p: "push_loop ?fr chunk [] s = (new, e, s')" "room_ok cap s'"
      "kept_lines b (good_lines cap (stream_rest seen @ chunk)) = pre @ post" "new = map d pre"
      "end_gives ?fr (stream_rest seen @ chunk) post e s'"
    by (auto simp: push_gives_def map_Some_map)
  have fits: "stream_fits cap (seen @ chunk) \<longleftrightarrow> stream_fits cap (stream_rest seen @ chunk)"
    using True by (rule stream_fits_continue)
  have kept: "kept_lines b (good_lines cap (seen @ chunk)) = kept_lines b (good_lines cap seen) @ pre @ post"
    using True p(3) by (simp add: good_lines_append [of cap seen chunk] good_lines_fit)
  have chunk: "push_chunk ?fr chunk s = (new, e, s')"
    using s(2) p(1) by (simp add: push_chunk_def)
  note held = stream_append(2) [of seen chunk]
  show ?thesis
    unfolding chunk kept splitter_after_def held fits using p(2,4,5) True
    by (cases e) (auto simp: end_gives_def)
next
  case False
  with assms show ?thesis
    by (auto simp: push_chunk_def splitter_after_def good_lines_append [of cap seen chunk] dest: stream_fits_prefix)
qed

lemma push_all_after:
  assumes "splitter_after cap seen s"
  shows "case push_all (total_framing cap b d) cs s of (ls, es, s') \<Rightarrow>
    splitter_after cap (seen @ concat cs) s' \<and>
    map d (kept_lines b (good_lines cap (seen @ concat cs))) = map d (kept_lines b (good_lines cap seen)) @ ls \<and>
    count_list es Overflow = (if stream_fits cap seen \<and> \<not> stream_fits cap (seen @ concat cs) then 1 else 0) \<and>
    Threw \<notin> set es"
  using assms
proof (induction cs arbitrary: seen s)
  case (Cons c cs)
  obtain ls e s1 where 1: "push_chunk (total_framing cap b d) c s = (ls, e, s1)" by (cases rule: prod_cases3)
  obtain ls' es s2 where 2: "push_all (total_framing cap b d) cs s1 = (ls', es, s2)" by (cases rule: prod_cases3)
  have c1: "splitter_after cap (seen @ c) s1"
      "map d (kept_lines b (good_lines cap (seen @ c))) = map d (kept_lines b (good_lines cap seen)) @ ls"
      "e = Overflow \<longleftrightarrow> stream_fits cap seen \<and> \<not> stream_fits cap (seen @ c)" "e \<noteq> Threw"
    using push_chunk_after [OF Cons.prems, where b = b and d = d and chunk = c] by (simp_all add: 1)
  have c2: "splitter_after cap (seen @ c @ concat cs) s2"
      "map d (kept_lines b (good_lines cap (seen @ c @ concat cs))) =
       map d (kept_lines b (good_lines cap (seen @ c))) @ ls'"
      "count_list es Overflow =
       (if stream_fits cap (seen @ c) \<and> \<not> stream_fits cap (seen @ c @ concat cs) then 1 else 0)"
      "Threw \<notin> set es"
    using Cons.IH [OF c1(1)] by (simp_all add: 2)
  have "stream_fits cap (seen @ c @ concat cs) \<longrightarrow> stream_fits cap (seen @ c)"
    "stream_fits cap (seen @ c) \<longrightarrow> stream_fits cap seen"
    using stream_fits_prefix [of cap "seen @ c" "concat cs"] stream_fits_prefix [of cap seen c] by simp_all
  then have "count_list (e # es) Overflow =
      (if stream_fits cap seen \<and> \<not> stream_fits cap (seen @ c @ concat cs) then 1 else 0)"
    unfolding count_list.simps c1(3) c2(3) by (cases "stream_fits cap seen"; cases "stream_fits cap (seen @ c)") simp_all
  moreover have "push_all (total_framing cap b d) (c # cs) s = (ls @ ls', e # es, s2)"
    by (simp add: 1 2)
  moreover have "map d (kept_lines b (good_lines cap (seen @ c @ concat cs))) =
      map d (kept_lines b (good_lines cap seen)) @ ls @ ls'"
    using c1(2) c2(2) by simp
  ultimately show ?case
    using c1(4) c2(1,4) by simp
qed simp

text \<open>
  C31: However the output of an agent is cut into chunks, the splitter hands out exactly the lines of
  the whole stream, blank ones dropped where asked, up to the first line (or unfinished rest) that
  is longer than the cap; it reports the overflow exactly once if there is such a line, and never
  otherwise. Between pushes it holds what follows the last newline, in a buffer that is never
  longer than the cap.
\<close>

theorem framing_exact:
  "case push_all (total_framing cap b d) cs new_splitter of (ls, es, s) \<Rightarrow>
     ls = map d (kept_lines b (good_lines cap (concat cs))) \<and>
     count_list es Overflow = (if stream_fits cap (concat cs) then 0 else 1) \<and>
     sp_held s = (if stream_fits cap (concat cs) then stream_rest (concat cs) else []) \<and>
     length (sp_held s) \<le> sp_room s \<and> sp_room s \<le> cap"
  using push_all_after [OF new_splitter_after, where cap = cap and b = b and d = d and cs = cs]
  by (auto simp: splitter_after_def room_ok_def good_lines_none stream_fits_none)

section \<open>What the runtime reads\<close>

text \<open>
  \<open>RpcPeer\<close> stops listening at the first corruption: what it has dispatched by then is a run of
  decoded lines from the start of the stream.
\<close>

fun reader_all :: "'a framing \<Rightarrow> octet list list \<Rightarrow> splitter \<Rightarrow> 'a reader_call list" where
  "reader_all fr [] s = reader_end s"
| "reader_all fr (c # cs) s = (let (calls, s') = reader_push fr c s in calls @ reader_all fr cs s')"

fun before_corruption :: "'a reader_call list \<Rightarrow> 'a list" where
  "before_corruption [] = []"
| "before_corruption (LineRead l # cs) = l # before_corruption cs"
| "before_corruption (CorruptLine r # cs) = []"

lemma before_corruption_read: "before_corruption (map LineRead ls @ cs) = ls @ before_corruption cs"
  by (induction ls) auto

lemma kept_lines_all [simp]: "kept_lines False ls = ls"
  by (simp add: kept_lines_def)

lemma reader_prefix_from:
  assumes "splitter_after cap seen s" and "stream_fits cap seen"
  shows "prefix (map Some (before_corruption (reader_all (reader_framing cap decode) cs s)))
    (map decode (drop (length (stream_lines seen)) (good_lines cap (seen @ concat cs))))"
  using assms
proof (induction cs arbitrary: seen s)
  case Nil
  then show ?case by (simp add: reader_end_def)
next
  case (Cons c cs)
  let ?fr = "reader_framing cap decode"
  have s: "sp_held s = stream_rest seen" "\<not> sp_overflowed s" "room_ok cap s"
    using Cons.prems by (simp_all add: splitter_after_def)
  have "push_gives ?fr (stream_rest seen @ c) [] (push_loop ?fr c [] s)"
    using push_loop_gives [of s ?fr c "[]"] s by (simp add: reader_framing_def)
  then obtain new pre post e s' where
    p: "push_loop ?fr c [] s = (new, e, s')" "room_ok cap s'"
      "good_lines cap (stream_rest seen @ c) = pre @ post" "map Some new = map decode pre"
      "end_gives ?fr (stream_rest seen @ c) post e s'"
    by (auto simp: push_gives_def reader_framing_def)
  have split: "good_lines cap (seen @ c) = stream_lines seen @ pre @ post"
    using Cons.prems(2) p(3) by (simp add: good_lines_append [of cap seen c])
  have fits: "stream_fits cap (seen @ c) \<longleftrightarrow> stream_fits cap (stream_rest seen @ c)"
    using Cons.prems(2) by (rule stream_fits_continue)
  note push = reader_push_def push_chunk_def s(2) p(1)
  show ?case
  proof (cases e)
    case Pushed
    with p s have after: "splitter_after cap (seen @ c) s'" "stream_fits cap (seen @ c)" "post = []"
      by (simp_all add: splitter_after_def fits end_gives_def reader_framing_def stream_append(2) [of seen c])
    from after split have "good_lines cap (seen @ c @ concat cs) =
        stream_lines seen @ pre @ good_lines cap (stream_rest (seen @ c) @ concat cs)"
      using good_lines_append [of cap "seen @ c" "concat cs"] good_lines_fit [of cap "seen @ c"] by simp
    moreover have "length (stream_lines (seen @ c)) = length (stream_lines seen) + length pre"
      using split after good_lines_fit [of cap "seen @ c"] by simp
    ultimately show ?thesis
      using Cons.IH [OF after(1,2)] p(4) Pushed by (simp add: push before_corruption_read)
  next
    case Overflow
    with p show ?thesis
      using split fits good_lines_append [of cap "seen @ c" "concat cs"]
      by (simp add: push before_corruption_read end_gives_def reader_framing_def)
  qed (simp add: push)
qed

lemma reader_prefix:
  "prefix (map Some (before_corruption (reader_all (reader_framing cap decode) cs new_splitter)))
     (map decode (good_lines cap (concat cs)))"
  using reader_prefix_from [OF new_splitter_after, of cap decode cs]
  by (simp add: stream_fits_none stream_lines_none)

text \<open>
  How the bytes were cut does show when the decoder throws: the lines that arrived in the same
  chunk as the undecodable one are lost with it, while on an overflow the preceding lines of the
  chunk are handed on first.
\<close>

lemma undecodable_line_drops_its_chunk:
  "let fr = reader_framing 8 (\<lambda>b. if 255 \<in> set b then None else Some b)
   in reader_all fr [[49, 10], [255, 10]] new_splitter = [LineRead [49], CorruptLine ''invalid_utf8'',
        CorruptLine ''unterminated_line''] \<and>
      reader_all fr [[49, 10, 255, 10]] new_splitter = [CorruptLine ''invalid_utf8'', CorruptLine ''unterminated_line'']"
  by code_simp

end
