(* ===== verification/Rpc_Values.thy ===== *)
theory Rpc_Values
  imports Console_Prelude
begin

text \<open>
  The values of the runtime's protocol: what \<open>JSON.parse\<close> can return, the check of its numbers
  (\<open>safeNumbers\<close> of \<open>src/agent-console/runtime/protocol/peer.ts\<close>), the errors of the protocol, and
  the accessors of \<open>src/agent-console/runtime/protocol/params.ts\<close> by which every handler reads its
  parameters.
\<close>

section \<open>Values\<close>

text \<open>
  A number is a whole one, of any size, a fraction, or the infinity that \<open>JSON.parse\<close> makes of a
  literal that is too large. No code looks at the digits of a fraction, so none are kept.
\<close>

datatype js_number = Whole int | Fraction | Infinite

datatype wire =
    WNull
  | WBool bool
  | WNum js_number
  | WStr string
  | WArr "wire list"
  | WObj "(string \<times> wire) list"

definition safe_integer_bound :: int where
  "safe_integer_bound = 9007199254740991"

definition safe_integer :: "int \<Rightarrow> bool" where
  "safe_integer i \<longleftrightarrow> \<bar>i\<bar> \<le> safe_integer_bound"

fun number_is_safe :: "js_number \<Rightarrow> bool" where
  "number_is_safe (Whole i) = safe_integer i"
| "number_is_safe _ = False"

fun unsafe_number :: "js_number \<Rightarrow> bool" where
  "unsafe_number (Whole i) = (\<not> safe_integer i)"
| "unsafe_number Fraction = False"
| "unsafe_number Infinite = True"

fun wire_children :: "wire \<Rightarrow> wire list" where
  "wire_children (WArr vs) = vs"
| "wire_children (WObj kvs) = map snd kvs"
| "wire_children _ = []"

fun wire_size :: "wire \<Rightarrow> nat" where
  "wire_size (WArr vs) = Suc (sum_list (map wire_size vs))"
| "wire_size (WObj kvs) = Suc (sum_list (map (\<lambda>kv. wire_size (snd kv)) kvs))"
| "wire_size _ = 1"

lemma sum_list_map_rev: "sum_list (map f (rev xs)) = (sum_list (map f xs) :: nat)"
  by (induction xs) simp_all

text \<open>The loop of \<open>safeNumbers\<close>, its work list from the end the code pops.\<close>

function safe_numbers_loop :: "wire list \<Rightarrow> bool" where
  "safe_numbers_loop [] = True"
| "safe_numbers_loop (v # pending) =
     (case v of
        WNum n \<Rightarrow> if unsafe_number n then False else safe_numbers_loop pending
      | _ \<Rightarrow> safe_numbers_loop (rev (wire_children v) @ pending))"
  by pat_completeness auto

termination
  by (relation "measure (\<lambda>vs. sum_list (map wire_size vs))")
    (simp_all add: sum_list_map_rev comp_def)

definition safe_numbers :: "wire \<Rightarrow> bool" where
  "safe_numbers v = safe_numbers_loop [v]"

text \<open>The reference: no number anywhere in the value is unsafe.\<close>

fun wire_numbers :: "wire \<Rightarrow> js_number list" where
  "wire_numbers (WNum n) = [n]"
| "wire_numbers (WArr vs) = concat (map wire_numbers vs)"
| "wire_numbers (WObj kvs) = concat (map (\<lambda>kv. wire_numbers (snd kv)) kvs)"
| "wire_numbers _ = []"

lemma wire_numbers_children:
  "wire_numbers v = (case v of WNum n \<Rightarrow> [n] | _ \<Rightarrow> concat (map wire_numbers (wire_children v)))"
  by (cases v) (simp_all add: comp_def)

lemma safe_numbers_loop_all:
  "safe_numbers_loop vs \<longleftrightarrow> (\<forall>v\<in>set vs. \<forall>n\<in>set (wire_numbers v). \<not> unsafe_number n)"
  by (induction vs rule: safe_numbers_loop.induct) (auto split: wire.splits)

lemma safe_numbers_all: "safe_numbers v \<longleftrightarrow> (\<forall>n\<in>set (wire_numbers v). \<not> unsafe_number n)"
  by (simp add: safe_numbers_def safe_numbers_loop_all)

section \<open>Errors of the protocol\<close>

text \<open>\<open>RpcError\<close>: a numeric code, a message, and for the application's errors a code and a detail.\<close>

record rpc_error_data =
  rd_code :: string
  rd_detail :: "string option"

record rpc_error =
  re_code :: int
  re_message :: string
  re_data :: "rpc_error_data option"

definition rpc_error_of :: "int \<Rightarrow> string \<Rightarrow> rpc_error" where
  "rpc_error_of code message = \<lparr>re_code = code, re_message = message, re_data = None\<rparr>"

definition application_error :: "string \<Rightarrow> string option \<Rightarrow> rpc_error" where
  "application_error code detail =
     \<lparr>re_code = - 32000, re_message = code, re_data = Some \<lparr>rd_code = code, rd_detail = detail\<rparr>\<rparr>"

definition invalid_params :: "string \<Rightarrow> rpc_error" where
  "invalid_params message = rpc_error_of (- 32602) message"

section \<open>Parameters\<close>

text \<open>
  An absent key and a null are the same to every accessor (\<open>p[key] ?? fallback\<close>); without a
  fallback the value stays undefined, which no accessor accepts.
\<close>

type_synonym wire_object = "(string \<times> wire) list"

definition as_object :: "wire \<Rightarrow> (rpc_error, wire_object) result" where
  "as_object v = (case v of WObj kvs \<Rightarrow> Inr kvs | _ \<Rightarrow> Inl (invalid_params ''Expected object''))"

definition field :: "wire_object \<Rightarrow> string \<Rightarrow> wire option \<Rightarrow> wire option" where
  "field p key fallback =
     (case jget p key of None \<Rightarrow> fallback | Some WNull \<Rightarrow> fallback | Some v \<Rightarrow> Some v)"

definition text_param :: "wire_object \<Rightarrow> string \<Rightarrow> string option \<Rightarrow> (rpc_error, string) result" where
  "text_param p key fallback =
     (case field p key (map_option WStr fallback) of
        Some (WStr t) \<Rightarrow> Inr t
      | _ \<Rightarrow> Inl (invalid_params (''Expected string: '' @ key)))"

definition optional_text :: "wire_object \<Rightarrow> string \<Rightarrow> (rpc_error, string option) result" where
  "optional_text p key =
     (if field p key None = None then Inr None else map_sum id Some (text_param p key None))"

definition integer_param ::
  "wire_object \<Rightarrow> string \<Rightarrow> int option \<Rightarrow> int \<Rightarrow> int \<Rightarrow> (rpc_error, int) result" where
  "integer_param p key fallback hi lo =
     (case field p key (map_option (\<lambda>i. WNum (Whole i)) fallback) of
        Some (WNum (Whole i)) \<Rightarrow>
          if \<not> safe_integer i \<or> i < lo \<or> hi < i then Inl (invalid_params (''Invalid integer: '' @ key)) else Inr i
      | _ \<Rightarrow> Inl (invalid_params (''Invalid integer: '' @ key)))"

fun all_strings :: "wire list \<Rightarrow> string list option" where
  "all_strings [] = Some []"
| "all_strings (WStr t # vs) = map_option (Cons t) (all_strings vs)"
| "all_strings (_ # vs) = None"

definition strings_param ::
  "wire_object \<Rightarrow> string \<Rightarrow> string list option \<Rightarrow> (rpc_error, string list) result" where
  "strings_param p key fallback =
     (case field p key (map_option (\<lambda>ts. WArr (map WStr ts)) fallback) of
        Some (WArr vs) \<Rightarrow>
          (case all_strings vs of
             Some ts \<Rightarrow> Inr ts | None \<Rightarrow> Inl (invalid_params (''Expected string array: '' @ key)))
      | _ \<Rightarrow> Inl (invalid_params (''Expected string array: '' @ key)))"

definition bool_param :: "wire_object \<Rightarrow> string \<Rightarrow> bool \<Rightarrow> (rpc_error, bool) result" where
  "bool_param p key fallback =
     (case field p key (Some (WBool fallback)) of
        Some (WBool b) \<Rightarrow> Inr b | _ \<Rightarrow> Inl (invalid_params (''Expected boolean: '' @ key)))"

definition choice_param ::
  "wire_object \<Rightarrow> string \<Rightarrow> string list \<Rightarrow> string option \<Rightarrow> (rpc_error, string) result" where
  "choice_param p key choices fallback =
     (case text_param p key fallback of
        Inl e \<Rightarrow> Inl e
      | Inr t \<Rightarrow> if t \<in> set choices then Inr t else Inl (invalid_params (''Invalid value: '' @ key)))"

text \<open>What an accessor that accepts returns is of its kind and in its range.\<close>

lemma integer_param_range:
  "integer_param p key fallback hi lo = Inr i \<Longrightarrow> lo \<le> i \<and> i \<le> hi \<and> safe_integer i"
  by (auto simp: integer_param_def split: option.splits wire.splits js_number.splits if_splits)

lemma choice_param_in: "choice_param p key choices fallback = Inr t \<Longrightarrow> t \<in> set choices"
  by (auto simp: choice_param_def split: sum.splits if_splits)

lemma param_errors_are_invalid_params:
  "as_object v = Inl e \<Longrightarrow> re_code e = - 32602"
  "text_param p key ft = Inl e \<Longrightarrow> re_code e = - 32602"
  "optional_text p key = Inl e \<Longrightarrow> re_code e = - 32602"
  "integer_param p key fi hi lo = Inl e \<Longrightarrow> re_code e = - 32602"
  "strings_param p key fs = Inl e \<Longrightarrow> re_code e = - 32602"
  "bool_param p key fb = Inl e \<Longrightarrow> re_code e = - 32602"
  "choice_param p key cs ft = Inl e \<Longrightarrow> re_code e = - 32602"
proof -
  have "text_param p key ft = Inl e \<Longrightarrow> re_code e = - 32602" for ft
    by (auto simp: text_param_def invalid_params_def rpc_error_of_def split: option.splits wire.splits)
  then show "text_param p key ft = Inl e \<Longrightarrow> re_code e = - 32602"
    "optional_text p key = Inl e \<Longrightarrow> re_code e = - 32602"
    "choice_param p key cs ft = Inl e \<Longrightarrow> re_code e = - 32602"
    by (auto simp: optional_text_def choice_param_def invalid_params_def rpc_error_of_def
        split: if_splits sum.splits) (cases "text_param p key None"; simp)
qed (auto simp: as_object_def integer_param_def strings_param_def bool_param_def invalid_params_def
      rpc_error_of_def split: option.splits wire.splits js_number.splits if_splits)

end
