(* ===== verification/Rpc_Writer.thy ===== *)
theory Rpc_Writer
  imports Console_Prelude "HOL-Library.Sublist"
begin

text \<open>
  \<open>RpcWriter\<close> (\<open>src/agent-console/runtime/protocol/writer.ts\<close>), which owns the runtime's standard
  output: the bounded queue of control messages, the sources of the subscriptions served in turn,
  and the pump that writes both. What a source's \<open>next\<close> and an item's \<open>delivered\<close> do is a parameter,
  a function on the state of the subscriptions: neither calls back into the writer.
\<close>

section \<open>State\<close>

text \<open>
  A delivery is its line, the bytes of it, and what its \<open>delivered\<close> does. The output is seen
  through \<open>writableLength\<close>, here \<open>wr_backlog\<close>. \<open>wr_log\<close> records what was written, with its origin:
  a control message, chosen first or because no source had an item, or an item of a source.
\<close>

record ('m, 'd) rpc_delivery =
  dl_line :: 'm
  dl_bytes :: nat
  dl_mark :: 'd

datatype origin = ControlFirst | ControlElse | SourceItem bool

record ('m, 'd) writer =
  wr_controls :: "('m, 'd) rpc_delivery list"
  wr_bytes :: nat
  wr_sources :: "string list"
  wr_cursor :: nat
  wr_blocked :: bool
  wr_stopped :: bool
  wr_scheduled :: bool
  wr_burst :: nat
  wr_backlog :: nat
  wr_log :: "(origin \<times> ('m, 'd) rpc_delivery) list"

text \<open>
  The limits of the writer, the high water mark of the output, the size of an encoded value (none
  when \<open>JSON.stringify\<close> throws), and the empty \<open>delivered\<close>.
\<close>

record ('m, 'd) writer_config =
  wc_budget :: nat
  wc_control_limit :: nat
  wc_high_water :: nat
  wc_size :: "'m \<Rightarrow> nat option"
  wc_no_mark :: 'd

definition line_bytes :: nat where
  "line_bytes = 8 * 1024 * 1024"

definition new_writer :: "('m, 'd) writer" where
  "new_writer =
     \<lparr>wr_controls = [], wr_bytes = 0, wr_sources = [], wr_cursor = 0, wr_blocked = False, wr_stopped = False,
      wr_scheduled = False, wr_burst = 0, wr_backlog = 0, wr_log = []\<rparr>"

section \<open>Operations\<close>

text \<open>
  An operation that fails the link returns the reason it hands to \<open>fault\<close>. \<open>fail\<close> closes the writer
  and reports once.
\<close>

definition close_writer :: "('m, 'd) writer \<Rightarrow> ('m, 'd) writer" where
  "close_writer w = w\<lparr>wr_stopped := True, wr_controls := [], wr_sources := [], wr_bytes := 0\<rparr>"

definition fail_writer :: "string \<Rightarrow> ('m, 'd) writer \<Rightarrow> string option \<times> ('m, 'd) writer" where
  "fail_writer reason w = (if wr_stopped w then (None, w) else (Some reason, close_writer w))"

definition wake :: "('m, 'd) writer \<Rightarrow> ('m, 'd) writer" where
  "wake w = (if wr_scheduled w \<or> wr_stopped w \<or> wr_blocked w then w else w\<lparr>wr_scheduled := True\<rparr>)"

text \<open>The size of a line counts its newline; the limit is on the line without it.\<close>

definition encode ::
  "('m, 'd) writer_config \<Rightarrow> 'm \<Rightarrow> ('m, 'd) writer
   \<Rightarrow> ('m, 'd) rpc_delivery option \<times> string option \<times> ('m, 'd) writer" where
  "encode c v w =
     (case wc_size c v of
        None \<Rightarrow> (None, fail_writer ''invalid_outgoing_value'' w)
      | Some n \<Rightarrow>
          if line_bytes < n then (None, fail_writer ''outgoing_line_too_large'' w)
          else (Some \<lparr>dl_line = v, dl_bytes = Suc n, dl_mark = wc_no_mark c\<rparr>, None, w))"

definition control ::
  "('m, 'd) writer_config \<Rightarrow> 'm \<Rightarrow> ('m, 'd) writer \<Rightarrow> string option \<times> ('m, 'd) writer" where
  "control c v w =
     (if wr_stopped w then (None, w)
      else
        (case encode c v w of
           (None, r) \<Rightarrow> r
         | (Some d, r) \<Rightarrow>
             if wc_control_limit c \<le> length (wr_controls w) \<or> wc_budget c < wr_bytes w + dl_bytes d + wr_backlog w
             then fail_writer ''writer_budget_exhausted'' w
             else (None, wake (w\<lparr>wr_controls := wr_controls w @ [d], wr_bytes := wr_bytes w + dl_bytes d\<rparr>))))"

definition add_source :: "string \<Rightarrow> ('m, 'd) writer \<Rightarrow> ('m, 'd) writer" where
  "add_source i w = wake (w\<lparr>wr_sources := (if i \<in> set (wr_sources w) then wr_sources w else wr_sources w @ [i])\<rparr>)"

definition remove_source :: "string \<Rightarrow> ('m, 'd) writer \<Rightarrow> ('m, 'd) writer" where
  "remove_source i w = w\<lparr>wr_sources := removeAll i (wr_sources w)\<rparr>"

definition link_fault :: "('m, 'd) writer \<Rightarrow> string option \<times> ('m, 'd) writer" where
  "link_fault w = fail_writer ''writer_budget_exhausted'' w"

text \<open>The output drained: the backlog is gone and the writer wakes. Its error closes the writer.\<close>

definition drained :: "('m, 'd) writer \<Rightarrow> ('m, 'd) writer" where
  "drained w = wake (w\<lparr>wr_blocked := False, wr_backlog := 0\<rparr>)"

definition output_error :: "('m, 'd) writer \<Rightarrow> string option \<times> ('m, 'd) writer" where
  "output_error w = fail_writer ''stdout_closed'' w"

section \<open>The pump\<close>

text \<open>One round over the sources, from the cursor; \<open>k\<close> is the number of sources.\<close>

type_synonym ('m, 'd, 's) next_item = "string \<Rightarrow> 's \<Rightarrow> ('m, 'd) rpc_delivery option \<times> 's"

primrec ask_sources ::
  "('m, 'd, 's) next_item \<Rightarrow> string list \<Rightarrow> nat \<Rightarrow> nat \<Rightarrow> 's \<Rightarrow> ('m, 'd) rpc_delivery option \<times> nat \<times> 's" where
  "ask_sources nxt ids 0 cursor s = (None, cursor, s)"
| "ask_sources nxt ids (Suc n) cursor s =
     (let at = cursor mod length ids
      in
        (case nxt (ids ! at) s of
           (Some d, s') \<Rightarrow> (Some d, Suc at, s')
         | (None, s') \<Rightarrow> ask_sources nxt ids n (Suc at) s'))"

definition take_control :: "('m, 'd) writer \<Rightarrow> ('m, 'd) writer" where
  "take_control w =
     w\<lparr>wr_controls := tl (wr_controls w), wr_bytes := wr_bytes w - dl_bytes (hd (wr_controls w)),
       wr_burst := Suc (wr_burst w)\<rparr>"

definition pick_item ::
  "('m, 'd, 's) next_item \<Rightarrow> ('m, 'd) writer \<Rightarrow> 's
   \<Rightarrow> (origin \<times> ('m, 'd) rpc_delivery) option \<times> ('m, 'd) writer \<times> 's" where
  "pick_item nxt w s =
     (if wr_controls w \<noteq> [] \<and> wr_burst w < 8
      then (Some (ControlFirst, hd (wr_controls w)), take_control w, s)
      else
        (case ask_sources nxt (wr_sources w) (length (wr_sources w)) (wr_cursor w) s of
           (Some d, cursor, s') \<Rightarrow>
             (Some (SourceItem (wr_controls w \<noteq> []), d), w\<lparr>wr_cursor := cursor, wr_burst := 0\<rparr>, s')
         | (None, cursor, s') \<Rightarrow>
             (let w' = w\<lparr>wr_cursor := cursor\<rparr>
              in if wr_controls w \<noteq> [] then (Some (ControlElse, hd (wr_controls w)), take_control w', s')
                 else (None, w', s'))))"

text \<open>
  \<open>output.write\<close>: \<open>took\<close> bytes leave the buffer while the call is made (all of them on a
  synchronous pipe), and the answer says whether it had been below its high water mark.
\<close>

definition write_item ::
  "('m, 'd) writer_config \<Rightarrow> nat \<Rightarrow> origin \<times> ('m, 'd) rpc_delivery \<Rightarrow> ('m, 'd) writer \<Rightarrow> bool \<times> ('m, 'd) writer" where
  "write_item c took x w =
     (let full = wr_backlog w + dl_bytes (snd x)
      in (full < wc_high_water c, w\<lparr>wr_backlog := full - took, wr_log := wr_log w @ [x]\<rparr>))"

primrec pump_batch ::
  "('m, 'd) writer_config \<Rightarrow> ('m, 'd, 's) next_item \<Rightarrow> ('d \<Rightarrow> 's \<Rightarrow> 's) \<Rightarrow> (nat \<Rightarrow> nat) \<Rightarrow> nat
   \<Rightarrow> ('m, 'd) writer \<Rightarrow> 's \<Rightarrow> string option \<times> ('m, 'd) writer \<times> 's" where
  "pump_batch c nxt dlv took 0 w s = (None, wake w, s)"
| "pump_batch c nxt dlv took (Suc n) w s =
     (case pick_item nxt w s of
        (None, w', s') \<Rightarrow> (None, w', s')
      | (Some x, w', s') \<Rightarrow>
          if wc_budget c < wr_backlog w' + dl_bytes (snd x)
          then (let (f, w'') = fail_writer ''writer_budget_exhausted'' w' in (f, w'', s'))
          else
            (let (accepted, w'') = write_item c (took n) x w'; s'' = dlv (dl_mark (snd x)) s'
             in
               if \<not> accepted then (None, w''\<lparr>wr_blocked := True\<rparr>, s'')
               else pump_batch c nxt dlv took n w'' s''))"

definition pump ::
  "('m, 'd) writer_config \<Rightarrow> ('m, 'd, 's) next_item \<Rightarrow> ('d \<Rightarrow> 's \<Rightarrow> 's) \<Rightarrow> (nat \<Rightarrow> nat)
   \<Rightarrow> ('m, 'd) writer \<Rightarrow> 's \<Rightarrow> string option \<times> ('m, 'd) writer \<times> 's" where
  "pump c nxt dlv took w s =
     (let w' = w\<lparr>wr_scheduled := False\<rparr>
      in if wr_stopped w' \<or> wr_blocked w' then (None, w', s) else pump_batch c nxt dlv took 32 w' s)"

section \<open>Runs\<close>

text \<open>
  What can happen to the writer, in any order. The pump runs only when it was scheduled; the state
  of the sources changes elsewhere at will (\<open>Elsewhere\<close>); some of the backlog may leave at any time
  (\<open>Flushed\<close>).
\<close>

datatype ('m, 's) writer_event =
    Control 'm
  | AddSource string
  | RemoveSource string
  | Elsewhere 's
  | Pump "nat \<Rightarrow> nat"
  | Flushed nat
  | Drained
  | OutputError
  | LinkFault
  | Close

definition writer_step ::
  "('m, 'd) writer_config \<Rightarrow> ('m, 'd, 's) next_item \<Rightarrow> ('d \<Rightarrow> 's \<Rightarrow> 's) \<Rightarrow> ('m, 's) writer_event
   \<Rightarrow> ('m, 'd) writer \<times> 's \<Rightarrow> ('m, 'd) writer \<times> 's" where
  "writer_step c nxt dlv ev ws =
     (case ws of (w, s) \<Rightarrow>
        (case ev of
           Control v \<Rightarrow> (snd (control c v w), s)
         | AddSource i \<Rightarrow> (add_source i w, s)
         | RemoveSource i \<Rightarrow> (remove_source i w, s)
         | Elsewhere s' \<Rightarrow> (w, s')
         | Pump took \<Rightarrow> (if wr_scheduled w then snd (pump c nxt dlv took w s) else (w, s))
         | Flushed n \<Rightarrow> (w\<lparr>wr_backlog := wr_backlog w - n\<rparr>, s)
         | Drained \<Rightarrow> (drained w, s)
         | OutputError \<Rightarrow> (snd (output_error w), s)
         | LinkFault \<Rightarrow> (snd (link_fault w), s)
         | Close \<Rightarrow> (close_writer w, s)))"

text \<open>The control message a step accepts into the queue.\<close>

definition accepted_by ::
  "('m, 'd) writer_config \<Rightarrow> ('m, 's) writer_event \<Rightarrow> ('m, 'd) writer \<Rightarrow> 'm list" where
  "accepted_by c ev w =
     (case ev of
        Control v \<Rightarrow> if wr_controls (snd (control c v w)) = wr_controls w \<or> wr_stopped (snd (control c v w)) then [] else [v]
      | _ \<Rightarrow> [])"

fun writer_run ::
  "('m, 'd) writer_config \<Rightarrow> ('m, 'd, 's) next_item \<Rightarrow> ('d \<Rightarrow> 's \<Rightarrow> 's) \<Rightarrow> ('m, 's) writer_event list
   \<Rightarrow> ('m, 'd) writer \<times> 's \<Rightarrow> 'm list \<times> ('m, 'd) writer \<times> 's" where
  "writer_run c nxt dlv [] ws = ([], ws)"
| "writer_run c nxt dlv (ev # evs) ws =
     (let (acc, ws') = writer_run c nxt dlv evs (writer_step c nxt dlv ev ws)
      in (accepted_by c ev (fst ws) @ acc, ws'))"

section \<open>What the writer keeps\<close>

fun is_control :: "origin \<Rightarrow> bool" where
  "is_control (SourceItem _) = False"
| "is_control _ = True"

definition written_controls :: "(origin \<times> ('m, 'd) rpc_delivery) list \<Rightarrow> 'm list" where
  "written_controls log = map (dl_line \<circ> snd) (filter (is_control \<circ> fst) log)"

definition trailing_controls :: "(origin \<times> ('m, 'd) rpc_delivery) list \<Rightarrow> nat" where
  "trailing_controls log = length (takeWhile (is_control \<circ> fst) (rev log))"

text \<open>
  Fair turns: a control message goes first only while fewer than eight control messages were
  written in a row; an item goes before a waiting control message only after eight of them.
\<close>

fun turn_fair :: "nat \<Rightarrow> origin \<Rightarrow> bool" where
  "turn_fair burst ControlFirst = (burst < 8)"
| "turn_fair burst ControlElse = True"
| "turn_fair burst (SourceItem waiting) = (waiting \<longrightarrow> 8 \<le> burst)"

definition log_fair :: "(origin \<times> ('m, 'd) rpc_delivery) list \<Rightarrow> bool" where
  "log_fair log \<longleftrightarrow> (\<forall>j<length log. turn_fair (trailing_controls (take j log)) (fst (log ! j)))"

lemma trailing_snoc: "trailing_controls (log @ [x]) = (if is_control (fst x) then Suc (trailing_controls log) else 0)"
  by (simp add: trailing_controls_def)

lemma log_fair_Nil [simp]: "log_fair []"
  by (simp add: log_fair_def)

lemma log_fair_snoc: "log_fair (log @ [x]) \<longleftrightarrow> log_fair log \<and> turn_fair (trailing_controls log) (fst x)"
  by (auto simp: log_fair_def nth_append less_Suc_eq)

lemma written_controls_snoc:
  "written_controls (log @ [x]) = written_controls log @ (if is_control (fst x) then [dl_line (snd x)] else [])"
  by (simp add: written_controls_def)

definition queue_bytes :: "('m, 'd) rpc_delivery list \<Rightarrow> nat" where
  "queue_bytes ds = sum_list (map dl_bytes ds)"

definition order_ok :: "'m list \<Rightarrow> ('m, 'd) writer \<Rightarrow> bool" where
  "order_ok acc w \<longleftrightarrow>
     (if wr_stopped w then prefix (written_controls (wr_log w)) acc \<and> wr_controls w = []
      else written_controls (wr_log w) @ map dl_line (wr_controls w) = acc \<and>
           wr_burst w = trailing_controls (wr_log w))"

definition size_ok :: "('m, 'd) writer_config \<Rightarrow> ('m, 'd) writer \<Rightarrow> bool" where
  "size_ok c w \<longleftrightarrow>
     wr_bytes w = queue_bytes (wr_controls w) \<and> wr_bytes w \<le> wc_budget c \<and> wr_backlog w \<le> wc_budget c \<and>
     length (wr_controls w) \<le> wc_control_limit c"

definition writer_ok :: "('m, 'd) writer_config \<Rightarrow> 'm list \<Rightarrow> ('m, 'd) writer \<Rightarrow> bool" where
  "writer_ok c acc w \<longleftrightarrow> order_ok acc w \<and> size_ok c w \<and> log_fair (wr_log w)"

lemma queue_bytes_simps [simp]:
  "queue_bytes [] = 0"
  "queue_bytes (d # ds) = dl_bytes d + queue_bytes ds"
  "queue_bytes (ds @ ds') = queue_bytes ds + queue_bytes ds'"
  by (simp_all add: queue_bytes_def)

lemmas writer_ok_defs = writer_ok_def order_ok_def size_ok_def

lemma writer_ok_new: "writer_ok c [] new_writer"
  by (simp add: writer_ok_defs new_writer_def written_controls_def trailing_controls_def)

text \<open>What touches neither the queue nor the log nor the buffer.\<close>

lemma writer_ok_same:
  assumes "writer_ok c acc w" and "wr_controls w' = wr_controls w" and "wr_bytes w' = wr_bytes w"
    and "wr_stopped w' = wr_stopped w" and "wr_burst w' = wr_burst w" and "wr_log w' = wr_log w"
    and "wr_backlog w' \<le> wr_backlog w"
  shows "writer_ok c acc w'"
  using assms by (auto simp: writer_ok_defs)

lemma wake_simps [simp]:
  "wr_controls (wake w) = wr_controls w" "wr_bytes (wake w) = wr_bytes w" "wr_stopped (wake w) = wr_stopped w"
  "wr_burst (wake w) = wr_burst w" "wr_log (wake w) = wr_log w" "wr_backlog (wake w) = wr_backlog w"
  "wr_sources (wake w) = wr_sources w" "wr_cursor (wake w) = wr_cursor w"
  by (simp_all add: wake_def)

lemma writer_ok_wake [simp]: "writer_ok c acc (wake w) \<longleftrightarrow> writer_ok c acc w"
  by (simp add: writer_ok_defs)

text \<open>Closing drops the queue; what had been written stays a part of what was accepted.\<close>

lemma writer_ok_closed:
  "prefix (written_controls (wr_log w)) acc \<Longrightarrow> wr_backlog w \<le> wc_budget c \<Longrightarrow> log_fair (wr_log w) \<Longrightarrow>
   writer_ok c acc (close_writer w)"
  by (simp add: writer_ok_defs close_writer_def)

lemma order_ok_prefix: "order_ok acc w \<Longrightarrow> prefix (written_controls (wr_log w)) acc"
  by (auto simp: order_ok_def split: if_splits)

lemma writer_ok_close: "writer_ok c acc w \<Longrightarrow> writer_ok c acc (close_writer w)"
  by (rule writer_ok_closed) (simp_all add: writer_ok_def order_ok_prefix size_ok_def)

lemma writer_ok_fail: "writer_ok c acc w \<Longrightarrow> writer_ok c acc (snd (fail_writer r w))"
  by (simp add: fail_writer_def writer_ok_close)

lemma control_cases:
  obtains (stays) r where "control c v w = (r, w)" "wr_stopped w"
  | (fails) r where "control c v w = fail_writer r w" "\<not> wr_stopped w"
  | (queued) d where "control c v w =
      (None, wake (w\<lparr>wr_controls := wr_controls w @ [d], wr_bytes := wr_bytes w + dl_bytes d\<rparr>))"
    "dl_line d = v" "dl_mark d = wc_no_mark c" "\<not> wr_stopped w" "length (wr_controls w) < wc_control_limit c"
    "wr_bytes w + dl_bytes d + wr_backlog w \<le> wc_budget c"
proof (cases "wr_stopped w")
  case run: False
  show thesis
  proof (cases "wc_size c v")
    case None
    with run show thesis by (intro fails) (simp_all add: control_def encode_def)
  next
    case (Some n)
    let ?d = "\<lparr>dl_line = v, dl_bytes = Suc n, dl_mark = wc_no_mark c\<rparr>"
    consider "line_bytes < n"
      | "\<not> line_bytes < n" "wc_control_limit c \<le> length (wr_controls w) \<or> wc_budget c < wr_bytes w + Suc n + wr_backlog w"
      | "\<not> line_bytes < n" "length (wr_controls w) < wc_control_limit c" "wr_bytes w + Suc n + wr_backlog w \<le> wc_budget c"
      by linarith
    then show thesis
    proof cases
      case 3
      with run Some queued [of ?d] show thesis by (simp add: control_def encode_def)
    qed (use run Some in \<open>intro fails; simp add: control_def encode_def\<close>)+
  qed
qed (simp add: control_def stays)

lemma writer_ok_control:
  assumes "writer_ok c acc w"
  shows "writer_ok c (acc @ accepted_by c (Control v) w) (snd (control c v w))"
proof (cases rule: control_cases [where c = c and v = v and w = w])
  case (stays r)
  with assms show ?thesis by (simp add: accepted_by_def)
next
  case (fails r)
  with assms writer_ok_fail [of c acc w r] show ?thesis by (simp add: accepted_by_def fail_writer_def close_writer_def)
next
  case (queued d)
  with assms show ?thesis by (auto simp: accepted_by_def writer_ok_defs)
qed

section \<open>The pump keeps it\<close>

text \<open>What \<open>pick_item\<close> chooses: the first control message, or an item of a source.\<close>

lemma pick_item_cases:
  obtains (none) k s' where "pick_item nxt w s = (None, w\<lparr>wr_cursor := k\<rparr>, s')"
  | (control) org k s' where
      "pick_item nxt w s = (Some (org, hd (wr_controls w)), take_control (w\<lparr>wr_cursor := k\<rparr>), s')"
      "wr_controls w \<noteq> []" "is_control org" "turn_fair (wr_burst w) org"
  | (source) d k s' where
      "pick_item nxt w s = (Some (SourceItem (wr_controls w \<noteq> []), d), w\<lparr>wr_cursor := k, wr_burst := 0\<rparr>, s')"
      "turn_fair (wr_burst w) (SourceItem (wr_controls w \<noteq> []))"
proof (cases "wr_controls w \<noteq> [] \<and> wr_burst w < 8")
  case True
  with control [of ControlFirst "wr_cursor w" s] show thesis by (simp add: pick_item_def)
next
  case False
  obtain r k s' where ask: "ask_sources nxt (wr_sources w) (length (wr_sources w)) (wr_cursor w) s = (r, k, s')"
    by (cases rule: prod_cases3)
  show thesis
  proof (cases r)
    case (Some d)
    with False ask source [of d k s'] show thesis by (auto simp: pick_item_def)
  next
    case None
    with False ask control [of ControlElse k s'] none [of k s'] show thesis
      by (cases "wr_controls w = []") (auto simp: pick_item_def Let_def)
  qed
qed

lemma writer_ok_took:
  assumes ok: "writer_ok c acc w" and "\<not> wr_stopped w" and "wr_controls w \<noteq> []" and "is_control org"
    and "turn_fair (wr_burst w) org" and "b \<le> wc_budget c"
  shows "writer_ok c acc ((take_control (w\<lparr>wr_cursor := k\<rparr>))
    \<lparr>wr_backlog := b, wr_log := wr_log w @ [(org, hd (wr_controls w))]\<rparr>)"
proof -
  from assms(3) obtain d ds where "wr_controls w = d # ds" by (cases "wr_controls w") auto
  with assms show ?thesis
    by (simp add: writer_ok_defs take_control_def written_controls_snoc trailing_snoc log_fair_snoc)
qed

lemma writer_ok_sourced:
  assumes "writer_ok c acc w" and "\<not> wr_stopped w"
    and "turn_fair (wr_burst w) (SourceItem q)" and "b \<le> wc_budget c"
  shows "writer_ok c acc (w\<lparr>wr_cursor := k, wr_burst := 0, wr_backlog := b,
    wr_log := wr_log w @ [(SourceItem q, d)]\<rparr>)"
  using assms by (simp add: writer_ok_defs written_controls_snoc trailing_snoc log_fair_snoc)

lemma writer_ok_pump_batch:
  assumes "writer_ok c acc w" and "\<not> wr_stopped w"
  shows "writer_ok c acc (fst (snd (pump_batch c nxt dlv took n w s)))"
  using assms
proof (induction n arbitrary: w s)
  case (Suc n)
  let ?log = "wr_log w" and ?c = "hd (wr_controls w)"
  have done_closed: "writer_ok c acc (close_writer w')"
    if "wr_log w' = ?log" and "wr_backlog w' = wr_backlog w" for w'
    using Suc.prems that by (intro writer_ok_closed) (simp_all add: writer_ok_def order_ok_prefix size_ok_def)
  show ?case
  proof (cases rule: pick_item_cases [where nxt = nxt and w = w and s = s])
    case (none k s')
    with Suc.prems show ?thesis by (auto intro: writer_ok_same)
  next
    case (control org k s')
    let ?w = "take_control (w\<lparr>wr_cursor := k\<rparr>)"
    let ?w2 = "snd (write_item c (took n) (org, ?c) ?w)"
    show ?thesis
    proof (cases "wc_budget c < wr_backlog w + dl_bytes ?c")
      case True
      with control Suc.prems show ?thesis
        by (simp add: take_control_def fail_writer_def done_closed)
    next
      case False
      then have ok: "writer_ok c acc ?w2"
        using writer_ok_took [OF Suc.prems control(2-4), where b = "wr_backlog w + dl_bytes ?c - took n" and k = k]
        by (simp add: write_item_def Let_def take_control_def)
      have run: "\<not> wr_stopped ?w2" using Suc.prems by (simp add: write_item_def Let_def take_control_def)
      from False control ok Suc.IH [OF ok run] show ?thesis
        by (auto simp: write_item_def Let_def take_control_def intro: writer_ok_same)
    qed
  next
    case (source d k s')
    let ?w = "w\<lparr>wr_cursor := k, wr_burst := 0\<rparr>"
    let ?w2 = "snd (write_item c (took n) (SourceItem (wr_controls w \<noteq> []), d) ?w)"
    show ?thesis
    proof (cases "wc_budget c < wr_backlog w + dl_bytes d")
      case True
      with source Suc.prems show ?thesis by (simp add: fail_writer_def done_closed)
    next
      case False
      then have ok: "writer_ok c acc ?w2"
        using writer_ok_sourced [OF Suc.prems source(2), where b = "wr_backlog w + dl_bytes d - took n" and k = k and d = d]
        by (simp add: write_item_def Let_def)
      have run: "\<not> wr_stopped ?w2" using Suc.prems by (simp add: write_item_def Let_def)
      from False source ok Suc.IH [OF ok run] show ?thesis
        by (auto simp: write_item_def Let_def intro: writer_ok_same)
    qed
  qed
qed simp

lemma writer_ok_pump: "writer_ok c acc w \<Longrightarrow> writer_ok c acc (fst (snd (pump c nxt dlv took w s)))"
  by (auto simp: pump_def Let_def intro!: writer_ok_pump_batch intro: writer_ok_same)

lemma writer_ok_step:
  assumes "writer_ok c acc w"
  shows "writer_ok c (acc @ accepted_by c ev w) (fst (writer_step c nxt dlv ev (w, s)))"
proof (cases ev)
  case (Control v)
  with writer_ok_control [OF assms] show ?thesis by (simp add: writer_step_def)
next
  case (Pump took)
  obtain f w' s' where "pump c nxt dlv took w s = (f, w', s')" by (cases rule: prod_cases3)
  with Pump assms writer_ok_pump [OF assms, of nxt dlv took s] show ?thesis
    by (simp add: writer_step_def accepted_by_def)
qed (use assms in \<open>auto simp: writer_step_def accepted_by_def add_source_def remove_source_def drained_def
      output_error_def link_fault_def writer_ok_fail writer_ok_close intro: writer_ok_same\<close>)

lemma writer_ok_run:
  assumes "writer_ok c acc w"
  shows "case writer_run c nxt dlv evs (w, s) of (acc', w', s') \<Rightarrow> writer_ok c (acc @ acc') w'"
  using assms
proof (induction evs arbitrary: acc w s)
  case (Cons ev evs)
  obtain w1 s1 where 1: "writer_step c nxt dlv ev (w, s) = (w1, s1)" by force
  obtain acc2 w2 s2 where 2: "writer_run c nxt dlv evs (w1, s1) = (acc2, w2, s2)" by (cases rule: prod_cases3)
  from writer_ok_step [OF Cons.prems, of ev nxt dlv s] Cons.IH [of "acc @ accepted_by c ev w" w1 s1]
  show ?case by (simp add: 1 2)
qed simp

text \<open>
  However messages, subscriptions, pumps, drains and failures of the output interleave, the control
  messages that were accepted are written in their order, each once, and what is not written yet is
  waiting, until the link stops; then what was written is the beginning of what was accepted. The
  queue stays within its limit, and queue and output buffer each within the budget of bytes. Turns
  are fair: a control message is not written before an item of a source after eight control
  messages in a row, unless no source had one, and an item is written before a waiting control
  message only after eight of them.
\<close>

theorem writer_orders_controls:
  "case writer_run c nxt dlv evs (new_writer, s) of (accepted, w, _) \<Rightarrow>
     (if wr_stopped w then prefix (written_controls (wr_log w)) accepted
      else written_controls (wr_log w) @ map dl_line (wr_controls w) = accepted) \<and>
     queue_bytes (wr_controls w) \<le> wc_budget c \<and> wr_backlog w \<le> wc_budget c \<and>
     length (wr_controls w) \<le> wc_control_limit c \<and> log_fair (wr_log w)"
  using writer_ok_run [OF writer_ok_new, of c nxt dlv evs s]
  by (auto simp: writer_ok_defs split: if_splits)

end
