(* ===== verification/Rpc_Peer.thy ===== *)
theory Rpc_Peer
  imports Rpc_Values Rpc_Writer Line_Framing
begin

text \<open>
  \<open>RpcPeer\<close> (\<open>src/agent-console/runtime/protocol/peer.ts\<close>): one end of the runtime's link. It reads
  lines, dispatches requests without waiting for them, answers them when their handlers settle,
  calls the host back and settles these calls, sends and watches heartbeats, and stops once, for
  whatever reason comes first. \<open>JSON.parse\<close>, the text decoder and the handlers are parameters: when
  and how a handler settles is an event of the run.
\<close>

section \<open>Messages and state\<close>

datatype 'e out_message =
    Answer int wire
  | ErrorAnswer "int option" rpc_error
  | HostCall string string wire
  | Notice string wire
  | EventNotice 'e

text \<open>How a call of the host ends, and how a handler does.\<close>

datatype callback_end = CallResult "wire option" | CallError wire | CallRejected rpc_error

datatype handler_end = HandlerResult "wire option" | HandlerRpcError rpc_error | HandlerThrew

text \<open>What the peer does to its surroundings, in order.\<close>

datatype peer_effect =
    Dispatched int string wire
  | Answered int
  | Unanswered int
  | HostCalled string
  | CallSettled string callback_end
  | ShutDown string

record ('e, 'd) peer =
  pe_writer :: "('e out_message, 'd) writer"
  pe_pending :: "(string, unit) jmap"
  pe_requests :: "(int, bool) jmap"
  pe_sequence :: nat
  pe_stopped :: bool
  pe_last_received :: int
  pe_corrupt :: bool
  pe_splitter :: splitter
  pe_stop_due :: "string option"
  pe_effects :: "peer_effect list"

record ('e, 'd, 'l) peer_config =
  pc_writer :: "('e out_message, 'd) writer_config"
  pc_framing :: "'l framing"
  pc_parse :: "'l \<Rightarrow> wire option"
  pc_timeout_ms :: int

definition heartbeat_timeout_ms :: int where
  "heartbeat_timeout_ms = 30000"

definition new_peer :: "int \<Rightarrow> ('e, 'd) peer" where
  "new_peer now =
     \<lparr>pe_writer = new_writer, pe_pending = [], pe_requests = [], pe_sequence = 0, pe_stopped = False,
      pe_last_received = now, pe_corrupt = False, pe_splitter = new_splitter, pe_stop_due = None,
      pe_effects = []\<rparr>"

definition did :: "peer_effect \<Rightarrow> ('e, 'd) peer \<Rightarrow> ('e, 'd) peer" where
  "did x p = p\<lparr>pe_effects := pe_effects p @ [x]\<rparr>"

definition effects :: "peer_effect list \<Rightarrow> ('e, 'd) peer \<Rightarrow> ('e, 'd) peer" where
  "effects xs p = p\<lparr>pe_effects := pe_effects p @ xs\<rparr>"

section \<open>Stopping and sending\<close>

definition stop_peer :: "string \<Rightarrow> ('e, 'd) peer \<Rightarrow> ('e, 'd) peer" where
  "stop_peer reason p =
     (if pe_stopped p then p
      else
        effects
          (map (\<lambda>kv. CallSettled (fst kv) (CallRejected (application_error ''RuntimeTerminated'' (Some reason))))
             (pe_pending p) @ [ShutDown reason])
          (p\<lparr>pe_stopped := True, pe_writer := close_writer (pe_writer p),
             pe_requests := map (\<lambda>kv. (fst kv, True)) (pe_requests p), pe_pending := []\<rparr>))"

text \<open>The writer's fault stops the peer.\<close>

definition on_fault :: "string option \<times> ('e out_message, 'd) writer \<Rightarrow> ('e, 'd) peer \<Rightarrow> ('e, 'd) peer" where
  "on_fault r p =
     (case r of
        (None, w) \<Rightarrow> p\<lparr>pe_writer := w\<rparr>
      | (Some reason, w) \<Rightarrow> stop_peer reason (p\<lparr>pe_writer := w\<rparr>))"

definition send ::
  "('e, 'd, 'l) peer_config \<Rightarrow> 'e out_message \<Rightarrow> ('e, 'd) peer \<Rightarrow> ('e, 'd) peer" where
  "send c m p = on_fault (control (pc_writer c) m (pe_writer p)) p"

definition notify ::
  "('e, 'd, 'l) peer_config \<Rightarrow> string \<Rightarrow> wire \<Rightarrow> ('e, 'd) peer \<Rightarrow> ('e, 'd) peer" where
  "notify c method params p = (if pe_stopped p then p else send c (Notice method params) p)"

section \<open>Calls of the host\<close>

definition host_call_id :: "nat \<Rightarrow> string" where
  "host_call_id n = ''r:'' @ decimal_nat n"

definition settle_call :: "string \<Rightarrow> callback_end \<Rightarrow> ('e, 'd) peer \<Rightarrow> ('e, 'd) peer" where
  "settle_call i e p =
     (if jhas (pe_pending p) i
      then did (CallSettled i e) (p\<lparr>pe_pending := jdel (pe_pending p) i\<rparr>) else p)"

definition call_host ::
  "('e, 'd, 'l) peer_config \<Rightarrow> string \<Rightarrow> wire \<Rightarrow> ('e, 'd) peer \<Rightarrow> ('e, 'd) peer" where
  "call_host c method params p =
     (let i = host_call_id (Suc (pe_sequence p));
          p' = did (HostCalled i) (p\<lparr>pe_sequence := Suc (pe_sequence p)\<rparr>)
      in
        if pe_stopped p
        then did (CallSettled i (CallRejected (application_error ''RuntimeTerminated'' None))) p'
        else if 256 \<le> length (pe_pending p)
        then did (CallSettled i
               (CallRejected (application_error ''bad_request'' (Some ''host callback limit reached'')))) p'
        else send c (HostCall i method params) (p'\<lparr>pe_pending := jset (pe_pending p') i ()\<rparr>))"

definition cancel_call ::
  "('e, 'd, 'l) peer_config \<Rightarrow> string \<Rightarrow> ('e, 'd) peer \<Rightarrow> ('e, 'd) peer" where
  "cancel_call c i p =
     settle_call i (CallRejected (application_error ''cancelled'' None))
       (notify c ''$/cancel'' (WObj [(''id'', WStr i)]) p)"

definition call_timed_out :: "string \<Rightarrow> ('e, 'd) peer \<Rightarrow> ('e, 'd) peer" where
  "call_timed_out i p = settle_call i (CallRejected (application_error ''host_callback_timeout'' None)) p"

section \<open>Requests\<close>

definition send_error ::
  "('e, 'd, 'l) peer_config \<Rightarrow> int option \<Rightarrow> rpc_error \<Rightarrow> ('e, 'd) peer \<Rightarrow> ('e, 'd) peer" where
  "send_error c i e p = send c (ErrorAnswer i e) p"

text \<open>A response of the host: \<open>/^r:[1-9][0-9]*$/\<close>, and exactly one of a result and an error.\<close>

definition host_call_id_shape :: "string \<Rightarrow> bool" where
  "host_call_id_shape s =
     (case s of
        x # y # d # ds \<Rightarrow>
          x = CHR ''r'' \<and> y = CHR '':'' \<and> d \<in> set ''123456789'' \<and> list_all (\<lambda>e. e \<in> set ''0123456789'') ds
      | _ \<Rightarrow> False)"

definition receive_response :: "wire_object \<Rightarrow> ('e, 'd) peer \<Rightarrow> ('e, 'd) peer" where
  "receive_response msg p =
     (case jget msg ''id'' of
        Some (WStr i) \<Rightarrow>
          if \<not> host_call_id_shape i \<or> (jhas msg ''result'' \<longleftrightarrow> jhas msg ''error'') then p
          else
            (case jget msg ''error'' of
               Some e \<Rightarrow> settle_call i (CallError e) p
             | None \<Rightarrow> settle_call i (CallResult (jget msg ''result'')) p)
      | _ \<Rightarrow> p)"

definition receive_cancel :: "wire_object \<Rightarrow> ('e, 'd) peer \<Rightarrow> ('e, 'd) peer" where
  "receive_cancel msg p =
     (case jget msg ''params'' of
        Some (WObj ps) \<Rightarrow>
          (case jget ps ''id'' of
             Some (WNum (Whole n)) \<Rightarrow>
               if jhas (pe_requests p) n then p\<lparr>pe_requests := jset (pe_requests p) n True\<rparr> else p
           | Some (WStr i) \<Rightarrow> settle_call i (CallRejected (application_error ''cancelled'' None)) p
           | _ \<Rightarrow> p)
      | _ \<Rightarrow> p)"

definition receive_request ::
  "('e, 'd, 'l) peer_config \<Rightarrow> wire \<Rightarrow> string \<Rightarrow> wire \<Rightarrow> ('e, 'd) peer \<Rightarrow> ('e, 'd) peer" where
  "receive_request c i method params p =
     (case i of
        WNum (Whole n) \<Rightarrow>
          if \<not> safe_integer n then send_error c None (rpc_error_of (- 32600) ''Invalid request id'') p
          else if jhas (pe_requests p) n
          then send_error c (Some n) (rpc_error_of (- 32600) ''Duplicate request id'') p
          else if 256 \<le> length (pe_requests p)
          then send_error c (Some n) (application_error ''bad_request'' (Some ''request limit reached'')) p
          else did (Dispatched n method params) (p\<lparr>pe_requests := jset (pe_requests p) n False\<rparr>)
      | _ \<Rightarrow> send_error c None (rpc_error_of (- 32600) ''Invalid request id'') p)"

text \<open>\<open>receive\<close>: one line. \<open>msg.params ?? {}\<close> takes a null for an empty object.\<close>

definition unsafe_reply_id :: "wire_object \<Rightarrow> int option" where
  "unsafe_reply_id msg =
     (case jget msg ''id'' of Some (WNum (Whole n)) \<Rightarrow> if safe_integer n then Some n else None | _ \<Rightarrow> None)"

definition receive_message ::
  "('e, 'd, 'l) peer_config \<Rightarrow> wire_object \<Rightarrow> ('e, 'd) peer \<Rightarrow> ('e, 'd) peer" where
  "receive_message c msg p =
     (case jget msg ''method'' of
        Some (WStr method) \<Rightarrow>
          if method = ''$/cancel'' then receive_cancel msg p
          else
            (case jget msg ''id'' of
               None \<Rightarrow> p
             | Some i \<Rightarrow>
                 receive_request c i method
                   (case field msg ''params'' None of None \<Rightarrow> WObj [] | Some v \<Rightarrow> v) p)
      | _ \<Rightarrow> receive_response msg p)"

definition receive ::
  "('e, 'd, 'l) peer_config \<Rightarrow> int \<Rightarrow> 'l \<Rightarrow> ('e, 'd) peer \<Rightarrow> ('e, 'd) peer" where
  "receive c now line p =
     (if pe_stopped p then p
      else
        (case pc_parse c line of
           None \<Rightarrow> send_error c None (rpc_error_of (- 32700) ''Parse error'') p
         | Some (WObj msg) \<Rightarrow>
             if jget msg ''jsonrpc'' \<noteq> Some (WStr ''2.0'')
             then send_error c None (rpc_error_of (- 32600) ''Invalid Request'') p
             else if \<not> safe_numbers (WObj msg)
             then send_error c (unsafe_reply_id msg) (rpc_error_of (- 32602) ''Unsafe numeric value'') p
             else receive_message c msg (p\<lparr>pe_last_received := now\<rparr>)
         | Some _ \<Rightarrow> send_error c None (rpc_error_of (- 32600) ''Invalid Request'') p))"

text \<open>A handler settles: its answer is sent unless the peer has stopped, and the request is over.\<close>

definition handler_settled ::
  "('e, 'd, 'l) peer_config \<Rightarrow> int \<Rightarrow> handler_end \<Rightarrow> ('e, 'd) peer \<Rightarrow> ('e, 'd) peer" where
  "handler_settled c n e p =
     (if \<not> jhas (pe_requests p) n then p
      else
        (let p' = (if pe_stopped p then did (Unanswered n) p
                   else
                     send c
                       (case e of
                          HandlerResult r \<Rightarrow> Answer n (case r of None \<Rightarrow> WNull | Some v \<Rightarrow> v)
                        | HandlerRpcError x \<Rightarrow> ErrorAnswer (Some n) x
                        | HandlerThrew \<Rightarrow> ErrorAnswer (Some n) (rpc_error_of (- 32603) ''Internal error''))
                       (did (Answered n) p))
         in p'\<lparr>pe_requests := jdel (pe_requests p') n\<rparr>))"

section \<open>Input and time\<close>

text \<open>
  A corruption of the input is announced and stops the peer in a later turn of the event loop; the
  end of the input stops it at once.
\<close>

definition corrupt_input ::
  "('e, 'd, 'l) peer_config \<Rightarrow> string \<Rightarrow> ('e, 'd) peer \<Rightarrow> ('e, 'd) peer" where
  "corrupt_input c reason p =
     (if pe_corrupt p then p
      else (notify c ''runtime.protocolError'' (WObj [(''code'', WStr reason)]) (p\<lparr>pe_corrupt := True\<rparr>))
             \<lparr>pe_stop_due := Some reason\<rparr>)"

fun on_reader_call ::
  "('e, 'd, 'l) peer_config \<Rightarrow> int \<Rightarrow> 'l reader_call \<Rightarrow> ('e, 'd) peer \<Rightarrow> ('e, 'd) peer" where
  "on_reader_call c now (LineRead l) p = (if pe_corrupt p then p else receive c now l p)"
| "on_reader_call c now (CorruptLine reason) p = corrupt_input c reason p"

definition input_chunk ::
  "('e, 'd, 'l) peer_config \<Rightarrow> int \<Rightarrow> octet list \<Rightarrow> ('e, 'd) peer \<Rightarrow> ('e, 'd) peer" where
  "input_chunk c now bs p =
     (let (calls, sp) = reader_push (pc_framing c) bs (pe_splitter p)
      in fold (on_reader_call c now) calls (p\<lparr>pe_splitter := sp\<rparr>))"

definition input_end :: "('e, 'd, 'l) peer_config \<Rightarrow> int \<Rightarrow> ('e, 'd) peer \<Rightarrow> ('e, 'd) peer" where
  "input_end c now p = stop_peer ''stdin_eof'' (fold (on_reader_call c now) (reader_end (pe_splitter p)) p)"

definition stop_turn :: "('e, 'd) peer \<Rightarrow> ('e, 'd) peer" where
  "stop_turn p = (case pe_stop_due p of None \<Rightarrow> p | Some r \<Rightarrow> stop_peer r (p\<lparr>pe_stop_due := None\<rparr>))"

definition heartbeat_tick :: "('e, 'd, 'l) peer_config \<Rightarrow> int \<Rightarrow> ('e, 'd) peer \<Rightarrow> ('e, 'd) peer" where
  "heartbeat_tick c now p =
     (if pe_stopped p then p
      else if pc_timeout_ms c \<le> now - pe_last_received p then stop_peer ''heartbeat_timeout'' p
      else notify c ''runtime.heartbeat'' (WObj []) p)"

section \<open>Runs of a link\<close>

text \<open>
  Everything that can happen to a peer: input, time, the ends of handlers, calls and cancellations
  of the host by the core, deadlines, the output, and the subscriptions' use of the writer.
\<close>

datatype 's peer_event =
    InputChunk int "octet list"
  | InputEnd int
  | InputError
  | StopTurn
  | HeartbeatTick int
  | HandlerSettled int handler_end
  | CallHost string wire
  | CancelCall string
  | CallDeadline string
  | HostClose
  | PumpTurn "nat \<Rightarrow> nat"
  | OutputFlushed nat
  | OutputDrained
  | OutputFailed
  | BudgetFault
  | SourceAdded string
  | SourceRemoved string
  | SourcesChanged 's

definition on_writer ::
  "(('e out_message, 'd) writer \<Rightarrow> ('e out_message, 'd) writer) \<Rightarrow> ('e, 'd) peer \<Rightarrow> ('e, 'd) peer" where
  "on_writer f p = p\<lparr>pe_writer := f (pe_writer p)\<rparr>"

definition pump_turn ::
  "('e, 'd, 'l) peer_config \<Rightarrow> ('e out_message, 'd, 's) next_item \<Rightarrow> ('d \<Rightarrow> 's \<Rightarrow> 's) \<Rightarrow> (nat \<Rightarrow> nat)
   \<Rightarrow> ('e, 'd) peer \<Rightarrow> 's \<Rightarrow> ('e, 'd) peer \<times> 's" where
  "pump_turn c nxt dlv took p s =
     (if wr_scheduled (pe_writer p)
      then (let (f, w, s') = pump (pc_writer c) nxt dlv took (pe_writer p) s in (on_fault (f, w) p, s'))
      else (p, s))"

definition peer_step ::
  "('e, 'd, 'l) peer_config \<Rightarrow> ('e out_message, 'd, 's) next_item \<Rightarrow> ('d \<Rightarrow> 's \<Rightarrow> 's) \<Rightarrow> 's peer_event
   \<Rightarrow> ('e, 'd) peer \<times> 's \<Rightarrow> ('e, 'd) peer \<times> 's" where
  "peer_step c nxt dlv ev ps =
     (case ps of (p, s) \<Rightarrow>
        (case ev of
           InputChunk now bs \<Rightarrow> (input_chunk c now bs p, s)
         | InputEnd now \<Rightarrow> (input_end c now p, s)
         | InputError \<Rightarrow> (stop_peer ''stdin_error'' p, s)
         | StopTurn \<Rightarrow> (stop_turn p, s)
         | HeartbeatTick now \<Rightarrow> (heartbeat_tick c now p, s)
         | HandlerSettled n e \<Rightarrow> (handler_settled c n e p, s)
         | CallHost method params \<Rightarrow> (call_host c method params p, s)
         | CancelCall i \<Rightarrow> (cancel_call c i p, s)
         | CallDeadline i \<Rightarrow> (call_timed_out i p, s)
         | HostClose \<Rightarrow> (stop_peer ''host_close'' p, s)
         | PumpTurn took \<Rightarrow> pump_turn c nxt dlv took p s
         | OutputFlushed n \<Rightarrow> (on_writer (\<lambda>w. w\<lparr>wr_backlog := wr_backlog w - n\<rparr>) p, s)
         | OutputDrained \<Rightarrow> (on_writer drained p, s)
         | OutputFailed \<Rightarrow> (on_fault (output_error (pe_writer p)) p, s)
         | BudgetFault \<Rightarrow> (on_fault (link_fault (pe_writer p)) p, s)
         | SourceAdded i \<Rightarrow> (on_writer (add_source i) p, s)
         | SourceRemoved i \<Rightarrow> (on_writer (remove_source i) p, s)
         | SourcesChanged s' \<Rightarrow> (p, s')))"

section \<open>What a peer keeps\<close>

fun dispatched_id :: "peer_effect \<Rightarrow> int option" where
  "dispatched_id (Dispatched n _ _) = Some n"
| "dispatched_id _ = None"

fun closed_id :: "peer_effect \<Rightarrow> int option" where
  "closed_id (Answered n) = Some n"
| "closed_id (Unanswered n) = Some n"
| "closed_id _ = None"

fun called_id :: "peer_effect \<Rightarrow> string option" where
  "called_id (HostCalled i) = Some i"
| "called_id _ = None"

fun settled_id :: "peer_effect \<Rightarrow> string option" where
  "settled_id (CallSettled i _) = Some i"
| "settled_id _ = None"

fun is_shut_down :: "peer_effect \<Rightarrow> unit option" where
  "is_shut_down (ShutDown _) = Some ()"
| "is_shut_down _ = None"

definition tally :: "(peer_effect \<Rightarrow> 'k option) \<Rightarrow> 'k \<Rightarrow> peer_effect list \<Rightarrow> nat" where
  "tally f k xs = length (filter (\<lambda>x. f x = Some k) xs)"

definition one_if :: "bool \<Rightarrow> nat" where
  "one_if b = (if b then 1 else 0)"

lemma tally_simps [simp]:
  "tally f k [] = 0"
  "tally f k (x # xs) = one_if (f x = Some k) + tally f k xs"
  "tally f k (xs @ ys) = tally f k xs + tally f k ys"
  by (simp_all add: tally_def one_if_def)

text \<open>
  The books: each dispatch of an id is closed by its one answer, or the id is in the table; each
  call of the host was made with a fresh id and has settled once, or it is pending.
\<close>

definition request_book :: "('e, 'd) peer \<Rightarrow> int \<Rightarrow> bool" where
  "request_book p n \<longleftrightarrow>
     tally dispatched_id n (pe_effects p) =
     tally closed_id n (pe_effects p) + one_if (jhas (pe_requests p) n)"

definition call_made :: "('e, 'd) peer \<Rightarrow> string \<Rightarrow> bool" where
  "call_made p i \<longleftrightarrow> (\<exists>k. 0 < k \<and> k \<le> pe_sequence p \<and> i = host_call_id k)"

definition call_book :: "('e, 'd) peer \<Rightarrow> string \<Rightarrow> bool" where
  "call_book p i \<longleftrightarrow>
     tally called_id i (pe_effects p) = one_if (call_made p i) \<and>
     tally settled_id i (pe_effects p) + one_if (jhas (pe_pending p) i) = one_if (call_made p i)"

definition tables_ok :: "('e, 'd) peer \<Rightarrow> bool" where
  "tables_ok p \<longleftrightarrow>
     jmap_ok (pe_requests p) \<and> length (pe_requests p) \<le> 256 \<and>
     jmap_ok (pe_pending p) \<and> length (pe_pending p) \<le> 256"

definition stop_ok :: "('e, 'd) peer \<Rightarrow> bool" where
  "stop_ok p \<longleftrightarrow>
     (pe_stopped p \<longrightarrow> pe_pending p = []) \<and> tally is_shut_down () (pe_effects p) = one_if (pe_stopped p) \<and>
     (pe_stopped p \<or> (\<forall>n. Unanswered n \<notin> set (pe_effects p)))"

definition peer_ok :: "('e, 'd) peer \<Rightarrow> bool" where
  "peer_ok p \<longleftrightarrow> tables_ok p \<and> stop_ok p \<and> (\<forall>n. request_book p n) \<and> (\<forall>i. call_book p i)"

lemmas peer_books = tables_ok_def stop_ok_def request_book_def call_book_def call_made_def

lemma peer_okI:
  "\<lbrakk>tables_ok p; stop_ok p; \<And>n. request_book p n; \<And>i. call_book p i\<rbrakk> \<Longrightarrow> peer_ok p"
  by (simp add: peer_ok_def)

lemma peer_okD:
  "peer_ok p \<Longrightarrow> tables_ok p" "peer_ok p \<Longrightarrow> stop_ok p" "peer_ok p \<Longrightarrow> request_book p n" "peer_ok p \<Longrightarrow> call_book p i"
  by (simp_all add: peer_ok_def)

lemma one_if_simps [simp]: "one_if True = 1" "one_if False = 0"
  by (simp_all add: one_if_def)

lemma jhas_Nil [simp]: "\<not> jhas [] k"
  by (simp add: jhas_def)

lemma peer_ok_new: "peer_ok (new_peer now)"
  by (rule peer_okI) (simp_all add: peer_books new_peer_def)

lemma peer_ok_same:
  assumes "peer_ok p" and "pe_requests p' = pe_requests p" and "pe_pending p' = pe_pending p"
    and "pe_sequence p' = pe_sequence p" and "pe_stopped p' = pe_stopped p" and "pe_effects p' = pe_effects p"
  shows "peer_ok p'"
  using assms by (simp add: peer_ok_def peer_books)

lemma did_simps [simp]:
  "pe_effects (did x p) = pe_effects p @ [x]" "pe_requests (did x p) = pe_requests p"
  "pe_pending (did x p) = pe_pending p" "pe_sequence (did x p) = pe_sequence p"
  "pe_stopped (did x p) = pe_stopped p" "pe_writer (did x p) = pe_writer p"
  by (simp_all add: did_def)

lemma tally_rejections:
  "jmap_ok m \<Longrightarrow>
   tally settled_id i (map (\<lambda>kv. CallSettled (fst kv) (r kv)) m) = one_if (jhas m i)"
  by (induction m) (auto simp: jmap_ok_def jhas_def jget_def one_if_def map_of_eq_None_iff image_iff)

lemma tally_rejections_none:
  "(\<And>j e. f (CallSettled j e) = None) \<Longrightarrow> tally f k (map (\<lambda>kv. CallSettled (fst kv) (r kv)) m) = 0"
  by (induction m) simp_all

lemma jhas_aborted [simp]: "jhas (map (\<lambda>kv. (fst kv, True)) m) n = jhas m n"
  by (induction m) (auto simp: jhas_def jget_def)

lemma jmap_ok_aborted [simp]: "jmap_ok (map (\<lambda>kv. (fst kv, True)) m) = jmap_ok m"
  by (simp add: jmap_ok_def comp_def)

lemma peer_ok_stop:
  assumes "peer_ok p"
  shows "peer_ok (stop_peer r p)"
proof (cases "pe_stopped p")
  case False
  note ok = peer_okD [OF assms]
  have "jmap_ok (pe_pending p)" using ok(1) by (simp add: tables_ok_def)
  note sums = tally_rejections [OF this] tally_rejections_none
  show ?thesis
  proof (rule peer_okI)
    show "request_book (stop_peer r p) n" for n
      using False ok(3) [of n] by (simp add: request_book_def stop_peer_def effects_def sums)
    show "call_book (stop_peer r p) i" for i
      using False ok(4) [of i] by (simp add: call_book_def call_made_def stop_peer_def effects_def sums)
  qed (use False ok(1,2) in \<open>simp_all add: tables_ok_def stop_ok_def stop_peer_def effects_def sums\<close>)
qed (simp add: stop_peer_def assms)

lemma peer_ok_on_fault: "peer_ok p \<Longrightarrow> peer_ok (on_fault r p)"
  by (auto simp: on_fault_def split: prod.splits option.splits intro!: peer_ok_stop intro: peer_ok_same)

lemma peer_ok_send: "peer_ok p \<Longrightarrow> peer_ok (send c m p)"
  by (simp add: send_def peer_ok_on_fault)

lemma peer_ok_notify: "peer_ok p \<Longrightarrow> peer_ok (notify c m v p)"
  by (simp add: notify_def peer_ok_send)

lemma peer_ok_send_error: "peer_ok p \<Longrightarrow> peer_ok (send_error c i e p)"
  by (simp add: send_error_def peer_ok_send)

lemma length_jdel: "length (jdel m k) \<le> length m"
  by (simp add: jdel_def AList.delete_eq)

lemma length_jset_fresh: "\<not> jhas m k \<Longrightarrow> length (jset m k v) = Suc (length m)"
  by (simp add: jset_fresh jhas_def)

lemma peer_ok_settle:
  assumes "peer_ok p"
  shows "peer_ok (settle_call i e p)"
proof (cases "jhas (pe_pending p) i")
  case True
  note ok = peer_okD [OF assms]
  show ?thesis
  proof (rule peer_okI)
    show "call_book (settle_call i e p) j" for j
      using True ok(4) [of j] by (cases "j = i") (simp_all add: call_book_def call_made_def settle_call_def)
  qed (use True ok length_jdel [of "pe_pending p" i] in
      \<open>auto simp: request_book_def tables_ok_def stop_ok_def settle_call_def\<close>)
qed (simp add: settle_call_def assms)

text \<open>The ids of the calls are fresh: a numeral can be read back.\<close>

definition read_decimal :: "string \<Rightarrow> nat" where
  "read_decimal ds = foldl (\<lambda>n d. 10 * n + (of_char d - 48)) 0 ds"

lemma read_decimal_nat: "read_decimal (decimal_nat n) = n"
proof (induction n rule: decimal_nat.induct)
  case (1 n)
  then show ?case
    by (subst decimal_nat.simps) (auto simp: read_decimal_def of_char_of)
qed

lemma host_call_id_inj: "host_call_id m = host_call_id n \<longleftrightarrow> m = n"
proof
  assume "host_call_id m = host_call_id n"
  then have "decimal_nat m = decimal_nat n" by (simp add: host_call_id_def)
  then show "m = n" by (metis read_decimal_nat)
qed simp

lemma call_made_next:
  "call_made (p\<lparr>pe_sequence := Suc (pe_sequence p)\<rparr>) i \<longleftrightarrow> i = host_call_id (Suc (pe_sequence p)) \<or> call_made p i"
  by (auto simp: call_made_def le_Suc_eq)

lemma call_fresh: "\<not> call_made p (host_call_id (Suc (pe_sequence p)))"
  by (auto simp: call_made_def host_call_id_inj)

lemma call_made_cong:
  "pe_sequence p' = pe_sequence p \<Longrightarrow> call_made p' i = call_made p i"
  by (simp add: call_made_def)

lemma fresh_not_pending: "call_book p i \<Longrightarrow> \<not> call_made p i \<Longrightarrow> \<not> jhas (pe_pending p) i"
  by (cases "jhas (pe_pending p) i") (simp_all add: call_book_def)

lemma peer_ok_call_refused:
  assumes "peer_ok p"
  defines "i \<equiv> host_call_id (Suc (pe_sequence p))"
  shows "peer_ok (did (CallSettled i e) (did (HostCalled i) (p\<lparr>pe_sequence := Suc (pe_sequence p)\<rparr>)))"
proof -
  note ok = peer_okD [OF assms(1)]
  have fresh: "\<not> call_made p i" unfolding i_def by (rule call_fresh)
  show ?thesis
  proof (rule peer_okI)
    fix j
    show "call_book (did (CallSettled i e) (did (HostCalled i) (p\<lparr>pe_sequence := Suc (pe_sequence p)\<rparr>))) j"
      using ok(4) [of j] fresh fresh_not_pending [OF ok(4) fresh] call_made_next [of p j]
      by (cases "j = i")
        (auto simp: call_book_def call_made_cong [of "did _ _" "p\<lparr>pe_sequence := Suc (pe_sequence p)\<rparr>"]
          i_def [symmetric])
  qed (use ok in \<open>auto simp: request_book_def tables_ok_def stop_ok_def\<close>)
qed

lemma peer_ok_call_pending:
  assumes "peer_ok p" and "\<not> pe_stopped p" and "length (pe_pending p) < 256"
  defines "i \<equiv> host_call_id (Suc (pe_sequence p))"
  shows "peer_ok ((did (HostCalled i) (p\<lparr>pe_sequence := Suc (pe_sequence p)\<rparr>))
    \<lparr>pe_pending := jset (pe_pending p) i ()\<rparr>)"
    (is "peer_ok ?p")
proof -
  note ok = peer_okD [OF assms(1)]
  have fresh: "\<not> call_made p i" unfolding i_def by (rule call_fresh)
  then have absent: "\<not> jhas (pe_pending p) i" by (rule fresh_not_pending [OF ok(4)])
  have made: "call_made ?p j \<longleftrightarrow> j = i \<or> call_made p j" for j
    using call_made_next [of p j] by (simp add: i_def call_made_def)
  show ?thesis
  proof (rule peer_okI)
    show "call_book ?p j" for j
      using ok(4) [of j] fresh absent by (cases "j = i") (auto simp: call_book_def made)
  qed (use ok assms(2,3) absent in \<open>auto simp: request_book_def tables_ok_def stop_ok_def length_jset_fresh\<close>)
qed

lemma peer_ok_call:
  assumes "peer_ok p"
  shows "peer_ok (call_host c method params p)"
proof -
  consider "pe_stopped p" | "\<not> pe_stopped p" "256 \<le> length (pe_pending p)"
    | "\<not> pe_stopped p" "length (pe_pending p) < 256" by linarith
  then show ?thesis
    by cases (use assms in \<open>simp_all add: call_host_def Let_def peer_ok_call_refused peer_ok_call_pending
        peer_ok_send\<close>)
qed

text \<open>Whether the request is struck from the table before or after the answer is sent is the same.\<close>

lemma jdel_aborted: "jdel (map (\<lambda>kv. (fst kv, True)) m) n = map (\<lambda>kv. (fst kv, True)) (jdel m n)"
  by (simp add: jdel_def AList.delete_eq filter_map comp_def split_def)

lemma stop_struck:
  "(stop_peer r p)\<lparr>pe_requests := jdel (pe_requests (stop_peer r p)) n\<rparr> =
   stop_peer r (p\<lparr>pe_requests := jdel (pe_requests p) n\<rparr>)"
  by (simp add: stop_peer_def effects_def jdel_aborted)

lemma send_struck:
  "(send c m p)\<lparr>pe_requests := jdel (pe_requests (send c m p)) n\<rparr> =
   send c m (p\<lparr>pe_requests := jdel (pe_requests p) n\<rparr>)"
proof -
  obtain f w where "control (pc_writer c) m (pe_writer p) = (f, w)" by force
  note control = this
  show ?thesis
  proof (cases f)
    case None
    with control show ?thesis by (simp add: send_def on_fault_def)
  next
    case (Some r)
    have "(p\<lparr>pe_writer := w\<rparr>)\<lparr>pe_requests := jdel (pe_requests (p\<lparr>pe_writer := w\<rparr>)) n\<rparr> =
        (p\<lparr>pe_requests := jdel (pe_requests p) n\<rparr>)\<lparr>pe_writer := w\<rparr>" by (cases p) simp
    moreover have "send c m p = stop_peer r (p\<lparr>pe_writer := w\<rparr>)"
      "send c m (p\<lparr>pe_requests := jdel (pe_requests p) n\<rparr>) =
       stop_peer r ((p\<lparr>pe_requests := jdel (pe_requests p) n\<rparr>)\<lparr>pe_writer := w\<rparr>)"
      using control Some by (simp_all add: send_def on_fault_def)
    ultimately show ?thesis
      using stop_struck [of r "p\<lparr>pe_writer := w\<rparr>" n] by (simp only:)
  qed
qed

lemma peer_ok_struck:
  assumes "peer_ok p" and "jhas (pe_requests p) n" and "closed_id x = Some n"
    and "dispatched_id x = None" "called_id x = None" "settled_id x = None" "is_shut_down x = None"
    and "pe_stopped p \<or> (\<forall>m. x \<noteq> Unanswered m)"
  shows "peer_ok ((did x p)\<lparr>pe_requests := jdel (pe_requests p) n\<rparr>)"
proof -
  note ok = peer_okD [OF assms(1)]
  show ?thesis
  proof (rule peer_okI)
    show "request_book ((did x p)\<lparr>pe_requests := jdel (pe_requests p) n\<rparr>) m" for m
      using assms(2-4) ok(3) [of m] by (cases "m = n") (simp_all add: request_book_def)
    show "stop_ok ((did x p)\<lparr>pe_requests := jdel (pe_requests p) n\<rparr>)"
      using assms(7,8) ok(2) by (auto simp: stop_ok_def)
  qed (use assms(5,6) ok length_jdel [of "pe_requests p" n] in
      \<open>auto simp: call_book_def call_made_def tables_ok_def\<close>)
qed

lemma peer_ok_handler_settled:
  assumes "peer_ok p"
  shows "peer_ok (handler_settled c n e p)"
proof (cases "jhas (pe_requests p) n")
  case True
  show ?thesis
    using True peer_ok_struck [OF assms True, of "Unanswered n"]
      peer_ok_send [OF peer_ok_struck [OF assms True, of "Answered n"], of c]
    by (cases "pe_stopped p") (simp_all add: handler_settled_def Let_def send_struck)
qed (simp add: handler_settled_def assms)

lemma peer_ok_dispatch:
  assumes "peer_ok p" and "\<not> jhas (pe_requests p) n" and "length (pe_requests p) < 256"
  shows "peer_ok (did (Dispatched n method params) (p\<lparr>pe_requests := jset (pe_requests p) n False\<rparr>))"
    (is "peer_ok ?p")
proof -
  note ok = peer_okD [OF assms(1)]
  show ?thesis
  proof (rule peer_okI)
    show "request_book ?p m" for m
      using assms(2) ok(3) [of m] by (cases "m = n") (simp_all add: request_book_def)
  qed (use assms(2,3) ok in
      \<open>auto simp: call_book_def call_made_def tables_ok_def stop_ok_def length_jset_fresh\<close>)
qed

lemma length_jset_present: "jhas m k \<Longrightarrow> length (jset m k v) = length m"
  unfolding jhas_def jget_def jset_def by (induction m) auto

lemma peer_ok_abort:
  assumes "peer_ok p" and "jhas (pe_requests p) n"
  shows "peer_ok (p\<lparr>pe_requests := jset (pe_requests p) n True\<rparr>)"
proof -
  have "jhas (jset (pe_requests p) n True) m = jhas (pe_requests p) m" for m
    using assms(2) by auto
  with assms show ?thesis by (auto simp: peer_ok_def peer_books length_jset_present)
qed

lemma peer_ok_receive_response: "peer_ok p \<Longrightarrow> peer_ok (receive_response msg p)"
  by (auto simp: receive_response_def peer_ok_settle split: option.splits wire.splits)

lemma peer_ok_receive_cancel: "peer_ok p \<Longrightarrow> peer_ok (receive_cancel msg p)"
  by (auto simp: receive_cancel_def peer_ok_settle peer_ok_abort split: option.splits wire.splits js_number.splits)

lemma peer_ok_receive_request: "peer_ok p \<Longrightarrow> peer_ok (receive_request c i method params p)"
  by (auto simp: receive_request_def peer_ok_send_error peer_ok_dispatch not_le split: wire.splits js_number.splits)

lemma peer_ok_received_at: "peer_ok p \<Longrightarrow> peer_ok (p\<lparr>pe_last_received := now\<rparr>)"
  by (rule peer_ok_same) simp_all

lemma peer_ok_receive_message: "peer_ok p \<Longrightarrow> peer_ok (receive_message c msg p)"
  unfolding receive_message_def
  by (cases "jget msg ''method''"; cases "the (jget msg ''method'')"; cases "jget msg ''id''")
    (simp_all add: peer_ok_receive_cancel peer_ok_receive_request peer_ok_receive_response)

lemma peer_ok_receive: "peer_ok p \<Longrightarrow> peer_ok (receive c now line p)"
  unfolding receive_def
  by (cases "pc_parse c line"; cases "the (pc_parse c line)")
    (simp_all add: peer_ok_send_error peer_ok_receive_message peer_ok_received_at)

lemma peer_ok_flags [simp]:
  "peer_ok (p\<lparr>pe_stop_due := x\<rparr>) \<longleftrightarrow> peer_ok p"
  "peer_ok (p\<lparr>pe_corrupt := b\<rparr>) \<longleftrightarrow> peer_ok p"
  "peer_ok (p\<lparr>pe_splitter := sp\<rparr>) \<longleftrightarrow> peer_ok p"
  by (simp_all add: peer_ok_def peer_books)

lemma peer_ok_corrupt: "peer_ok p \<Longrightarrow> peer_ok (corrupt_input c r p)"
  by (simp add: corrupt_input_def peer_ok_notify)

lemma peer_ok_reader_call: "peer_ok p \<Longrightarrow> peer_ok (on_reader_call c now x p)"
  by (cases x) (simp_all add: peer_ok_receive peer_ok_corrupt)

lemma peer_ok_reader_calls: "peer_ok p \<Longrightarrow> peer_ok (fold (on_reader_call c now) xs p)"
  by (induction xs arbitrary: p) (simp_all add: peer_ok_reader_call)

lemma peer_ok_on_writer: "peer_ok p \<Longrightarrow> peer_ok (on_writer f p)"
  by (rule peer_ok_same) (simp_all add: on_writer_def)

lemma peer_ok_input_chunk: "peer_ok p \<Longrightarrow> peer_ok (input_chunk c now bs p)"
  by (auto simp: input_chunk_def split: prod.splits intro!: peer_ok_reader_calls)

lemma peer_ok_stop_turn: "peer_ok p \<Longrightarrow> peer_ok (stop_turn p)"
  by (auto simp: stop_turn_def split: option.splits intro!: peer_ok_stop)

lemma peer_ok_pump_turn: "peer_ok p \<Longrightarrow> peer_ok (fst (pump_turn c nxt dlv took p s))"
  by (auto simp: pump_turn_def peer_ok_on_fault split: prod.splits)

lemma peer_ok_step: "peer_ok p \<Longrightarrow> peer_ok (fst (peer_step c nxt dlv ev (p, s)))"
  by (cases ev)
    (simp_all add: peer_step_def peer_ok_input_chunk input_end_def peer_ok_stop peer_ok_reader_calls
      peer_ok_stop_turn heartbeat_tick_def peer_ok_notify peer_ok_handler_settled peer_ok_call cancel_call_def
      call_timed_out_def peer_ok_settle peer_ok_pump_turn peer_ok_on_writer peer_ok_on_fault)

lemma peer_ok_run: "peer_ok p \<Longrightarrow> peer_ok (fst (fold (peer_step c nxt dlv) evs (p, s)))"
proof (induction evs arbitrary: p s)
  case (Cons ev evs)
  obtain p1 s1 where "peer_step c nxt dlv ev (p, s) = (p1, s1)" by force
  with Cons.IH [of p1 s1] peer_ok_step [OF Cons.prems, of c nxt dlv ev s] show ?case by simp
qed simp

text \<open>
  C24: In every interleaving of input, time, handlers, calls of the host and failures of the output,
  each dispatched request is answered exactly once or is still in the table, and is left without
  an answer only when the link has stopped; each call of the host has an id of its own and settles
  exactly once or is still pending; none is pending once the link has stopped, and the runtime is
  told to shut down exactly once, when it does. Both tables hold at most 256 entries.
\<close>

theorem link_settles_everything:
  "case fold (peer_step c nxt dlv) evs (new_peer now, s) of (p, _) \<Rightarrow>
     (\<forall>n. tally dispatched_id n (pe_effects p) =
           tally closed_id n (pe_effects p) + one_if (jhas (pe_requests p) n)) \<and>
     (\<forall>n. \<not> (Unanswered n \<in> set (pe_effects p) \<and> \<not> pe_stopped p)) \<and>
     (\<forall>i. tally called_id i (pe_effects p) \<le> 1 \<and>
           tally settled_id i (pe_effects p) + one_if (jhas (pe_pending p) i) = tally called_id i (pe_effects p)) \<and>
     \<not> (pe_stopped p \<and> pe_pending p \<noteq> []) \<and>
     tally is_shut_down () (pe_effects p) = one_if (pe_stopped p) \<and>
     length (pe_requests p) \<le> 256 \<and> length (pe_pending p) \<le> 256"
proof -
  obtain p s' where run: "fold (peer_step c nxt dlv) evs (new_peer now, s) = (p, s')" by force
  have "peer_ok p" using peer_ok_run [OF peer_ok_new, of c nxt dlv evs now s] by (simp add: run)
  note ok = peer_okD [OF this]
  have "tally called_id i (pe_effects p) \<le> 1" for i
    using ok(4) [of i] by (simp add: call_book_def one_if_def)
  with ok show ?thesis
    by (simp add: run request_book_def call_book_def tables_ok_def stop_ok_def) blast
qed

section \<open>An unterminated last line\<close>

text \<open>
  The announcement of an unterminated line is never written: the end of the input stops the peer in
  the same turn, which drops the queue before the writer has its own.
\<close>

lemma unterminated_line_is_not_announced:
  assumes "\<not> pe_stopped p" and "pending_bytes (pe_splitter p) \<noteq> 0"
  shows "wr_controls (pe_writer (input_end c now p)) = []"
    and "wr_log (pe_writer (input_end c now p)) = wr_log (pe_writer p)"
    and "pe_stopped (input_end c now p)"
proof -
  define q where "q = corrupt_input c ''unterminated_line'' p"
  have fail: "wr_log (snd (fail_writer r w)) = wr_log w" for r and w :: "('a out_message, 'b) writer"
    by (simp add: fail_writer_def close_writer_def)
  have control: "wr_log (snd (control (pc_writer c) m w)) = wr_log w" for m w
    by (cases rule: control_cases [where c = "pc_writer c" and v = m and w = w]) (simp_all add: fail)
  have log: "wr_log (pe_writer (stop_peer r p')) = wr_log (pe_writer p')" for r and p' :: "('a, 'b) peer"
    by (simp add: stop_peer_def effects_def close_writer_def)
  have "wr_log (pe_writer (send c m p')) = wr_log (pe_writer p')" for m p'
    using control [of m "pe_writer p'"]
    by (auto simp: send_def on_fault_def log split: prod.splits option.splits)
  then have "wr_log (pe_writer q) = wr_log (pe_writer p)"
    by (simp add: q_def corrupt_input_def notify_def)
  moreover have "input_end c now p = stop_peer ''stdin_eof'' q"
    using assms(2) by (simp add: input_end_def reader_end_def q_def)
  moreover have "pe_stopped q \<Longrightarrow> wr_controls (pe_writer q) = []"
    using assms(1)
    by (auto simp: q_def corrupt_input_def notify_def send_def on_fault_def stop_peer_def effects_def
        close_writer_def split: prod.splits option.splits if_splits)
  ultimately show "wr_controls (pe_writer (input_end c now p)) = []"
    "wr_log (pe_writer (input_end c now p)) = wr_log (pe_writer p)" "pe_stopped (input_end c now p)"
    by (auto simp: stop_peer_def effects_def close_writer_def)
qed

end
