(* ===== verification/Rpc_Output.thy ===== *)
theory Rpc_Output
  imports Rpc_Peer
begin

text \<open>
  The output of a peer as the interface its subscriptions see: what holds of it when every message
  of the peer itself, every stop and every fault of the writer keep it. An invariant of that kind is
  an instance of the locale \<open>peer_output\<close>; the one the subscriptions rest on is that the peer
  only adds messages of its own behind the queue, or stops and empties it.
\<close>

section \<open>What every event of a peer leaves alone\<close>

text \<open>
  An invariant of the output of a peer: it holds again when the peer sends a message of its own (no
  event notice), stops, or its output moves, and does not look at the tables. Then every event but a
  turn of the pump keeps it.
\<close>

fun own_message :: "'e out_message \<Rightarrow> bool" where
  "own_message (EventNotice _) = False"
| "own_message _ = True"

fun pump_event :: "'s peer_event \<Rightarrow> bool" where
  "pump_event (PumpTurn _) = True"
| "pump_event _ = False"

fun foreign_event :: "'s peer_event \<Rightarrow> bool" where
  "foreign_event (SourceAdded _) = True"
| "foreign_event (SourceRemoved _) = True"
| "foreign_event (SourcesChanged _) = True"
| "foreign_event _ = False"

locale peer_output =
  fixes c :: "('e, 'd, 'l) peer_config" and P :: "('e, 'd) peer \<Rightarrow> bool"
  assumes tables: "P p \<Longrightarrow> pe_writer p' = pe_writer p \<Longrightarrow> pe_stopped p' = pe_stopped p \<Longrightarrow> P p'"
    and sends: "P p \<Longrightarrow> own_message m \<Longrightarrow> P (send c m p)"
    and stops: "P p \<Longrightarrow> P (stop_peer r p)"
    and fails: "P p \<Longrightarrow> P (on_fault (fail_writer r (pe_writer p)) p)"
    and moves: "P p \<Longrightarrow> wr_log (f (pe_writer p)) = wr_log (pe_writer p) \<Longrightarrow>
      wr_controls (f (pe_writer p)) = wr_controls (pe_writer p) \<Longrightarrow>
      wr_stopped (f (pe_writer p)) = wr_stopped (pe_writer p) \<Longrightarrow> P (on_writer f p)"
begin

lemma keeps_did: "P p \<Longrightarrow> P (did x p)"
  by (erule tables) simp_all

lemma keeps_fields:
  "P p \<Longrightarrow> P (p\<lparr>pe_requests := rs\<rparr>)" "P p \<Longrightarrow> P (p\<lparr>pe_stop_due := x\<rparr>)" "P p \<Longrightarrow> P (p\<lparr>pe_corrupt := b\<rparr>)"
  "P p \<Longrightarrow> P (p\<lparr>pe_splitter := sp\<rparr>)" "P p \<Longrightarrow> P (p\<lparr>pe_last_received := t\<rparr>)" "P p \<Longrightarrow> P (p\<lparr>pe_pending := q\<rparr>)"
  by (erule tables; simp)+

lemma keeps_notify: "P p \<Longrightarrow> P (notify c m v p)"
  by (simp add: notify_def sends)

lemma keeps_error: "P p \<Longrightarrow> P (send_error c i e p)"
  by (simp add: send_error_def sends)

lemma keeps_settle: "P p \<Longrightarrow> P (settle_call i e p)"
  by (auto simp: settle_call_def intro!: keeps_did keeps_fields)

lemma keeps_call: "P p \<Longrightarrow> P (call_host c method params p)"
  unfolding call_host_def Let_def
  by (auto intro!: keeps_did sends tables [of p])

lemma keeps_handler: "P p \<Longrightarrow> P (handler_settled c n e p)"
  unfolding handler_settled_def Let_def
  by (auto intro!: keeps_fields(1) sends keeps_did split: handler_end.splits)

lemma keeps_receive_response: "P p \<Longrightarrow> P (receive_response msg p)"
  by (auto simp: receive_response_def keeps_settle split: option.splits wire.splits)

lemma keeps_receive_cancel: "P p \<Longrightarrow> P (receive_cancel msg p)"
  by (auto simp: receive_cancel_def keeps_settle split: option.splits wire.splits js_number.splits
      intro!: keeps_fields)

lemma keeps_receive_request: "P p \<Longrightarrow> P (receive_request c i method params p)"
  by (auto simp: receive_request_def keeps_error split: wire.splits js_number.splits
      intro!: keeps_did keeps_fields)

lemma keeps_receive_message: "P p \<Longrightarrow> P (receive_message c msg p)"
  unfolding receive_message_def
  by (cases "jget msg ''method''"; cases "the (jget msg ''method'')"; cases "jget msg ''id''")
    (simp_all add: keeps_receive_cancel keeps_receive_request keeps_receive_response)

lemma keeps_receive: "P p \<Longrightarrow> P (receive c now line p)"
  unfolding receive_def
  by (cases "pc_parse c line"; cases "the (pc_parse c line)")
    (auto simp: keeps_error intro!: keeps_receive_message keeps_fields)

lemma keeps_corrupt: "P p \<Longrightarrow> P (corrupt_input c r p)"
  by (simp add: corrupt_input_def keeps_notify keeps_fields)

lemma keeps_reader_calls: "P p \<Longrightarrow> P (fold (on_reader_call c now) xs p)"
proof (induction xs arbitrary: p)
  case (Cons x xs)
  then show ?case by (cases x) (simp_all add: keeps_receive keeps_corrupt)
qed simp

lemma keeps_input: "P p \<Longrightarrow> P (input_chunk c now bs p)"
  by (auto simp: input_chunk_def split: prod.splits intro!: keeps_reader_calls keeps_fields)

lemma keeps_stop_turn: "P p \<Longrightarrow> P (stop_turn p)"
  by (auto simp: stop_turn_def split: option.splits intro!: stops keeps_fields)

lemma keeps_step:
  assumes "P p" and "\<not> pump_event ev" and "\<not> foreign_event ev"
  shows "P (fst (peer_step c nxt dlv ev (p, s))) \<and> snd (peer_step c nxt dlv ev (p, s)) = s"
  using assms
  by (cases ev)
    (auto simp: peer_step_def keeps_input input_end_def stops keeps_reader_calls keeps_stop_turn
      heartbeat_tick_def keeps_notify keeps_handler keeps_call cancel_call_def call_timed_out_def keeps_settle
      drained_def output_error_def link_fault_def fails moves)

end

section \<open>The peer only appends\<close>

definition own_items :: "('e out_message, 'd) rpc_delivery list \<Rightarrow> bool" where
  "own_items ds \<longleftrightarrow> list_all (\<lambda>d. own_message (dl_line d)) ds"

text \<open>From the writer \<open>w0\<close> of a running peer on; \<open>m\<close> is the mark of the control messages.\<close>

definition only_appends ::
  "'d \<Rightarrow> ('e out_message, 'd) writer \<Rightarrow> ('e, 'd) peer \<Rightarrow> bool" where
  "only_appends m w0 p \<longleftrightarrow>
     wr_log (pe_writer p) = wr_log w0 \<and>
     (if pe_stopped p then wr_stopped (pe_writer p) \<and> wr_controls (pe_writer p) = []
      else wr_stopped (pe_writer p) = wr_stopped w0 \<and>
           (\<exists>ds. wr_controls (pe_writer p) = wr_controls w0 @ ds \<and> own_items ds \<and>
                 list_all (\<lambda>d. dl_mark d = m) ds))"

lemma only_appends_start:
  "\<not> pe_stopped p \<Longrightarrow> only_appends m (pe_writer p) p"
  by (auto simp: only_appends_def own_items_def)

lemma only_appends_stop: "only_appends m w0 p \<Longrightarrow> only_appends m w0 (stop_peer r p)"
  by (auto simp: only_appends_def stop_peer_def effects_def close_writer_def split: if_splits)

lemma only_appends_fail:
  "only_appends m w0 p \<Longrightarrow> only_appends m w0 (on_fault (fail_writer r (pe_writer p)) p)"
  by (auto simp: only_appends_def on_fault_def fail_writer_def stop_peer_def effects_def close_writer_def
      split: if_splits)

lemma only_appends_send:
  assumes "only_appends (wc_no_mark (pc_writer c)) w0 p" and "own_message x"
  shows "only_appends (wc_no_mark (pc_writer c)) w0 (send c x p)"
proof (cases rule: control_cases [where c = "pc_writer c" and v = x and w = "pe_writer p"])
  case (stays r)
  with assms show ?thesis
    by (auto simp: send_def on_fault_def control_def)
next
  case (fails r)
  with only_appends_fail [OF assms(1)] show ?thesis by (simp add: send_def)
next
  case (queued d)
  with assms show ?thesis
     by (auto simp: send_def on_fault_def only_appends_def own_items_def split: if_splits)
qed

interpretation appending: peer_output c "only_appends (wc_no_mark (pc_writer c)) w0"
  for c :: "('e, 'd, 'l) peer_config" and w0
proof (unfold_locales, goal_cases tables sends stops fails moves)
  case (tables p p')
  then show ?case by (simp add: only_appends_def)
next
  case (moves p f)
  then show ?case by (auto simp: only_appends_def on_writer_def split: if_splits)
qed (simp_all add: only_appends_send only_appends_stop only_appends_fail)

lemma peer_only_appends:
  assumes "only_appends (wc_no_mark (pc_writer c)) w0 p" and "\<not> pump_event ev" and "\<not> foreign_event ev"
  shows "only_appends (wc_no_mark (pc_writer c)) w0 (fst (peer_step c nxt dlv ev (p, s)))"
    and "snd (peer_step c nxt dlv ev (p, s)) = s"
  using appending.keeps_step [OF assms] by blast+

end
