(* ===== verification/Rpc_Subscriptions.thy ===== *)
theory Rpc_Subscriptions
  imports Rpc_Output
begin

text \<open>
  \<open>Subscriptions\<close> (\<open>src/agent-console/runtime/protocol/subscriptions.ts\<close>): the event streams a
  runtime serves over its link, each with its credit, its bounded queue of live events, and the
  replay of its history, pulled from the storage one record at a time. They are the sources of the
  writer; the composition with the peer is the state \<open>link\<close>.
\<close>

section \<open>State\<close>

text \<open>
  What a subscription sends: an envelope with its number, a frame without one, and the gap that
  ends it, made by the link or by the core. What \<open>delivered\<close> does is a mark: it moves the watermark.
\<close>

datatype 'x notice = NEnvelope nat 'x | NFrame 'x | NGap nat string | NCoreGap nat

datatype sub_mark = NoMark | MarkLive string nat | MarkReplay string nat

type_synonym 'x sub_line = "(string \<times> 'x notice) out_message"
type_synonym 'x sub_item = "('x sub_line, sub_mark) rpc_delivery"

datatype read_phase = NotReading | Flushing | Reading

text \<open>
  The entry of a subscription with the variables of its closure. \<open>se_next\<close> is the number of the
  next envelope the session emits: the core delivers them to its sink in order.
\<close>

record 'x sub_entry =
  se_principal :: string
  se_session :: string
  se_credit :: int
  se_queue :: "'x sub_item list"
  se_bytes :: nat
  se_through :: nat
  se_replaying :: bool
  se_replay_through :: nat
  se_phase :: read_phase
  se_replay_item :: "'x sub_item option"
  se_flushed :: bool
  se_next :: nat

type_synonym 'x subs = "(string, 'x sub_entry) jmap"

text \<open>
  \<open>lk_from\<close> and \<open>lk_granted\<close> remember the resume point of every subscription there has been and
  the credit it was given.
\<close>

record 'x link =
  lk_peer :: "(string \<times> 'x notice, sub_mark) peer"
  lk_subs :: "'x subs"
  lk_from :: "(string, nat) jmap"
  lk_granted :: "(string, int) jmap"

type_synonym ('x, 'l) link_config = "(string \<times> 'x notice, sub_mark, 'l) peer_config"

definition subscription_limit :: nat where
  "subscription_limit = 1024"

definition sub_byte_budget :: nat where
  "sub_byte_budget = 8 * 1024 * 1024"

definition new_link :: "int \<Rightarrow> 'x link" where
  "new_link now = \<lparr>lk_peer = new_peer now, lk_subs = [], lk_from = [], lk_granted = []\<rparr>"

section \<open>The source of a subscription\<close>

text \<open>\<open>readReplay\<close> up to its first wait: the flush of the core once, then the read of a record.\<close>

definition start_read :: "'x sub_entry \<Rightarrow> 'x sub_entry" where
  "start_read e =
     (if se_phase e \<noteq> NotReading \<or> \<not> se_replaying e then e
      else e\<lparr>se_phase := (if se_flushed e then Reading else Flushing)\<rparr>)"

definition spend :: "'x sub_item \<Rightarrow> 'x sub_entry \<Rightarrow> 'x sub_entry" where
  "spend d e = e\<lparr>se_credit := se_credit e - 1, se_bytes := se_bytes e - dl_bytes d\<rparr>"

definition entry_next :: "'x sub_entry \<Rightarrow> 'x sub_item option \<times> 'x sub_entry" where
  "entry_next e =
     (if se_credit e = 0 then (None, e)
      else if se_replaying e
      then (case se_replay_item e of
              None \<Rightarrow> (None, start_read e)
            | Some d \<Rightarrow> (Some d, spend d (e\<lparr>se_replay_item := None\<rparr>)))
      else (case se_queue e of
              [] \<Rightarrow> (None, e)
            | d # ds \<Rightarrow> (Some d, spend d (e\<lparr>se_queue := ds\<rparr>))))"

definition sub_next :: "string \<Rightarrow> 'x subs \<Rightarrow> 'x sub_item option \<times> 'x subs" where
  "sub_next i ss =
     (case jget ss i of
        None \<Rightarrow> (None, ss)
      | Some e \<Rightarrow> (let (d, e') = entry_next e in (d, jset ss i e')))"

fun entry_delivered :: "sub_mark \<Rightarrow> 'x sub_entry \<Rightarrow> 'x sub_entry" where
  "entry_delivered NoMark e = e"
| "entry_delivered (MarkLive _ q) e = e\<lparr>se_through := q\<rparr>"
| "entry_delivered (MarkReplay _ q) e =
     (let e' = e\<lparr>se_through := q\<rparr>
      in if q = se_replay_through e then e'\<lparr>se_replaying := False\<rparr> else e')"

fun mark_sub :: "sub_mark \<Rightarrow> string option" where
  "mark_sub NoMark = None"
| "mark_sub (MarkLive i _) = Some i"
| "mark_sub (MarkReplay i _) = Some i"

definition sub_delivered :: "sub_mark \<Rightarrow> 'x subs \<Rightarrow> 'x subs" where
  "sub_delivered m ss =
     (case mark_sub m of
        None \<Rightarrow> ss
      | Some i \<Rightarrow> (case jget ss i of None \<Rightarrow> ss | Some e \<Rightarrow> jset ss i (entry_delivered m e)))"

section \<open>Operations\<close>

text \<open>The runtime's shutdown, which a stopped peer starts at once, closes every subscription.\<close>

definition close_stopped :: "'x link \<Rightarrow> 'x link" where
  "close_stopped l = (if pe_stopped (lk_peer l) then l\<lparr>lk_subs := []\<rparr> else l)"

definition retire :: "string \<Rightarrow> 'x link \<Rightarrow> 'x link" where
  "retire i l =
     (if jhas (lk_subs l) i
      then l\<lparr>lk_peer := on_writer (remove_source i) (lk_peer l), lk_subs := jdel (lk_subs l) i\<rparr> else l)"

definition link_send :: "('x, 'l) link_config \<Rightarrow> 'x sub_line \<Rightarrow> 'x link \<Rightarrow> 'x link" where
  "link_send c m l = close_stopped (l\<lparr>lk_peer := send c m (lk_peer l)\<rparr>)"

text \<open>
  A gap: a writer that is itself blocked is a fault of the link; otherwise the subscription ends
  with a control message that restates its watermark.
\<close>

definition gap :: "('x, 'l) link_config \<Rightarrow> string \<Rightarrow> string \<Rightarrow> 'x link \<Rightarrow> 'x link" where
  "gap c i message l =
     (case jget (lk_subs l) i of
        None \<Rightarrow> l
      | Some e \<Rightarrow>
          if wr_blocked (pe_writer (lk_peer l))
          then close_stopped (l\<lparr>lk_peer := on_fault (link_fault (pe_writer (lk_peer l))) (lk_peer l)\<rparr>)
          else link_send c (EventNotice (i, NGap (se_through e) message)) (retire i l))"

definition budget_gap_message :: string where
  "budget_gap_message = ''subscription delivery budget exhausted; resubscribe''"

definition has_item :: "'x sub_entry \<Rightarrow> nat" where
  "has_item e = (case se_replay_item e of None \<Rightarrow> 0 | Some _ \<Rightarrow> 1)"

text \<open>\<open>encode\<close>: the item, when it is within the budget of the subscription.\<close>

definition encode_notice ::
  "('x, 'l) link_config \<Rightarrow> nat \<Rightarrow> string \<Rightarrow> 'x sub_entry \<Rightarrow> 'x notice \<Rightarrow> sub_mark \<Rightarrow> 'x link
   \<Rightarrow> 'x sub_item option \<times> 'x link" where
  "encode_notice c budget i e x m l =
     (case encode (pc_writer c) (EventNotice (i, x)) (pe_writer (lk_peer l)) of
        (None, r) \<Rightarrow> (None, close_stopped (l\<lparr>lk_peer := on_fault r (lk_peer l)\<rparr>))
      | (Some d, _) \<Rightarrow>
          if budget \<le> length (se_queue e) + has_item e \<or> sub_byte_budget < se_bytes e + dl_bytes d
          then (None, gap c i budget_gap_message l)
          else (Some (d\<lparr>dl_mark := m\<rparr>), l))"

definition wake_link :: "'x link \<Rightarrow> 'x link" where
  "wake_link l = l\<lparr>lk_peer := on_writer wake (lk_peer l)\<rparr>"

text \<open>
  \<open>deliver\<close>, the sink the core calls: an envelope or a frame goes to the queue, a frame not while
  history is replayed; a gap of the core ends the subscription.
\<close>

definition deliver_live ::
  "('x, 'l) link_config \<Rightarrow> nat \<Rightarrow> string \<Rightarrow> 'x \<Rightarrow> 'x link \<Rightarrow> 'x link" where
  "deliver_live c budget i x l =
     (case jget (lk_subs l) i of
        None \<Rightarrow> l
      | Some e \<Rightarrow>
          (case encode_notice c budget i e (NEnvelope (se_next e) x) (MarkLive i (se_next e)) l of
             (None, l') \<Rightarrow> l'
           | (Some d, l') \<Rightarrow>
               wake_link (l'\<lparr>lk_subs := jset (lk_subs l') i
                 (e\<lparr>se_queue := se_queue e @ [d], se_bytes := se_bytes e + dl_bytes d, se_next := Suc (se_next e)\<rparr>)\<rparr>)))"

definition deliver_frame ::
  "('x, 'l) link_config \<Rightarrow> nat \<Rightarrow> string \<Rightarrow> 'x \<Rightarrow> 'x link \<Rightarrow> 'x link" where
  "deliver_frame c budget i x l =
     (case jget (lk_subs l) i of
        None \<Rightarrow> l
      | Some e \<Rightarrow>
          if se_replaying e then l
          else
            (case encode_notice c budget i e (NFrame x) NoMark l of
               (None, l') \<Rightarrow> l'
             | (Some d, l') \<Rightarrow>
                 wake_link (l'\<lparr>lk_subs := jset (lk_subs l') i
                   (e\<lparr>se_queue := se_queue e @ [d], se_bytes := se_bytes e + dl_bytes d\<rparr>)\<rparr>)))"

definition deliver_core_gap :: "('x, 'l) link_config \<Rightarrow> string \<Rightarrow> nat \<Rightarrow> 'x link \<Rightarrow> 'x link" where
  "deliver_core_gap c i q l =
     (if jhas (lk_subs l) i then link_send c (EventNotice (i, NCoreGap q)) (retire i l) else l)"

text \<open>
  \<open>subscribe\<close>: the snapshot of the session and the registration of the sink are one synchronous
  step. The id is a fresh random one. \<open>core_ok\<close> is the core's answer, which comes later when it is
  a refusal.
\<close>

definition new_entry :: "string \<Rightarrow> string \<Rightarrow> nat \<Rightarrow> nat \<Rightarrow> 'x sub_entry" where
  "new_entry session owner from_seq last_seq =
     \<lparr>se_principal = owner, se_session = session, se_credit = 0, se_queue = [], se_bytes = 0,
      se_through = from_seq, se_replaying = (from_seq < last_seq), se_replay_through = last_seq,
      se_phase = NotReading, se_replay_item = None, se_flushed = False, se_next = Suc (max from_seq last_seq)\<rparr>"

definition subscribe_link ::
  "string \<Rightarrow> string \<Rightarrow> string \<Rightarrow> nat \<Rightarrow> nat option \<Rightarrow> 'x link \<Rightarrow> (rpc_error, bool) result \<times> 'x link" where
  "subscribe_link i session owner from_seq found l =
     (if subscription_limit \<le> length (lk_subs l)
      then (Inl (application_error ''bad_request'' (Some ''subscription limit reached'')), l)
      else
        (case found of
           None \<Rightarrow> (Inr False, l)
         | Some last_seq \<Rightarrow>
             (Inr True,
              l\<lparr>lk_peer := on_writer (add_source i) (lk_peer l),
                lk_subs := jset (lk_subs l) i (new_entry session owner from_seq last_seq),
                lk_from := jset (lk_from l) i from_seq, lk_granted := jset (lk_granted l) i 0\<rparr>)))"

text \<open>\<open>find\<close>, \<open>credit\<close> and \<open>unsubscribe\<close>; \<open>owned\<close> is whether the core still shows the session.\<close>

definition find_sub ::
  "(string \<Rightarrow> string \<Rightarrow> bool) \<Rightarrow> string \<Rightarrow> string \<Rightarrow> 'x link \<Rightarrow> (rpc_error, 'x sub_entry) result" where
  "find_sub owned i who l =
     (case jget (lk_subs l) i of
        None \<Rightarrow> Inl (application_error ''not_found'' None)
      | Some e \<Rightarrow>
          if se_principal e \<noteq> who \<or> \<not> owned (se_session e) who
          then Inl (application_error ''not_found'' None) else Inr e)"

definition credit ::
  "(string \<Rightarrow> string \<Rightarrow> bool) \<Rightarrow> string \<Rightarrow> string \<Rightarrow> int \<Rightarrow> 'x link \<Rightarrow> (rpc_error, unit) result \<times> 'x link" where
  "credit owned i who n l =
     (case find_sub owned i who l of
        Inl err \<Rightarrow> (Inl err, l)
      | Inr e \<Rightarrow>
          if \<not> safe_integer (se_credit e + n)
          then (Inl (application_error ''bad_request'' (Some ''credit overflow'')), l)
          else
            (Inr (),
             wake_link (l\<lparr>lk_subs := jset (lk_subs l) i (e\<lparr>se_credit := se_credit e + n\<rparr>),
               lk_granted := jset (lk_granted l) i (the (jget (lk_granted l) i) + n)\<rparr>)))"

definition unsubscribe_link ::
  "(string \<Rightarrow> string \<Rightarrow> bool) \<Rightarrow> string \<Rightarrow> string \<Rightarrow> 'x link \<Rightarrow> (rpc_error, unit) result \<times> 'x link" where
  "unsubscribe_link owned i who l =
     (case find_sub owned i who l of Inl err \<Rightarrow> (Inl err, l) | Inr e \<Rightarrow> (Inr (), retire i l))"

section \<open>The replay\<close>

text \<open>
  What the iterator of the storage can answer: a record, a broken record, its end, or an exception.
  \<open>owned\<close> is checked again after every read.
\<close>

datatype 'x read_answer = ReadEnvelope nat 'x | ReadBroken | ReadEnded | ReadThrew

definition flush_done :: "('x, 'l) link_config \<Rightarrow> string \<Rightarrow> bool \<Rightarrow> 'x link \<Rightarrow> 'x link" where
  "flush_done c i ok l =
     (case jget (lk_subs l) i of
        None \<Rightarrow> l
      | Some e \<Rightarrow>
          if se_phase e \<noteq> Flushing then l
          else if ok then l\<lparr>lk_subs := jset (lk_subs l) i (e\<lparr>se_flushed := True, se_phase := Reading\<rparr>)\<rparr>
          else gap c i ''replay from storage failed; resubscribe'' l)"

definition replay_record ::
  "('x, 'l) link_config \<Rightarrow> nat \<Rightarrow> string \<Rightarrow> 'x sub_entry \<Rightarrow> nat \<Rightarrow> 'x \<Rightarrow> 'x link \<Rightarrow> 'x link" where
  "replay_record c budget i e q x l =
     (if q \<noteq> Suc (se_through e) then gap c i ''the recorded history has a gap before this point'' l
      else
        (case encode_notice c budget i e (NEnvelope q x) (MarkReplay i q) l of
           (None, l') \<Rightarrow> l'
         | (Some d, l') \<Rightarrow>
             wake_link (l'\<lparr>lk_subs := jset (lk_subs l') i
               (e\<lparr>se_phase := NotReading, se_replay_item := Some d, se_bytes := se_bytes e + dl_bytes d\<rparr>)\<rparr>)))"

definition read_done ::
  "('x, 'l) link_config \<Rightarrow> nat \<Rightarrow> (string \<Rightarrow> string \<Rightarrow> bool) \<Rightarrow> string \<Rightarrow> 'x read_answer \<Rightarrow> 'x link \<Rightarrow> 'x link" where
  "read_done c budget owned i r l =
     (case jget (lk_subs l) i of
        None \<Rightarrow> l
      | Some e \<Rightarrow>
          if se_phase e \<noteq> Reading then l
          else
            (case r of
               ReadThrew \<Rightarrow> gap c i ''replay from storage failed; resubscribe'' l
             | _ \<Rightarrow>
                 if \<not> owned (se_session e) (se_principal e) then retire i l
                 else
                   (case r of
                      ReadEnvelope q x \<Rightarrow> replay_record c budget i e q x l
                    | _ \<Rightarrow> gap c i ''replay from storage ended before the snapshot; resubscribe'' l)))"

section \<open>Runs\<close>

text \<open>
  What can happen on a link: what happens to its peer, the requests about subscriptions, what the
  core delivers, and the ends of the waits of a replay. The ids are random; one that was used
  before is not drawn again. A grant of credit is positive, as the parameter check demands.
\<close>

datatype 'x link_event =
    PeerEvent "'x subs peer_event"
  | SubscribeRequest string string string nat "nat option"
  | CreditRequest string string nat
  | UnsubscribeRequest string string
  | LiveEnvelope string 'x
  | LiveFrame string 'x
  | CoreGap string nat
  | CoreClosed string
  | FlushDone string bool
  | ReadDone string "'x read_answer"

definition link_config_of :: "('x, 'l) link_config \<Rightarrow> ('x, 'l) link_config" where
  "link_config_of c = c\<lparr>pc_writer := (pc_writer c)\<lparr>wc_no_mark := NoMark\<rparr>\<rparr>"

definition peer_turn :: "('x, 'l) link_config \<Rightarrow> 'x subs peer_event \<Rightarrow> 'x link \<Rightarrow> 'x link" where
  "peer_turn c ev l =
     (if foreign_event ev then l
      else
        (let (p, ss) = peer_step c sub_next sub_delivered ev (lk_peer l, lk_subs l)
         in close_stopped (l\<lparr>lk_peer := p, lk_subs := ss\<rparr>)))"

definition link_step ::
  "('x, 'l) link_config \<Rightarrow> nat \<Rightarrow> (string \<Rightarrow> string \<Rightarrow> bool) \<Rightarrow> 'x link_event \<Rightarrow> 'x link \<Rightarrow> 'x link" where
  "link_step c budget owned ev l =
     (case ev of
        PeerEvent pev \<Rightarrow> peer_turn c pev l
      | SubscribeRequest i session owner from_seq found \<Rightarrow>
          if jhas (lk_from l) i \<or> pe_stopped (lk_peer l) then l
          else snd (subscribe_link i session owner from_seq found l)
      | CreditRequest i who n \<Rightarrow> snd (credit owned i who (int (Suc n)) l)
      | UnsubscribeRequest i who \<Rightarrow> snd (unsubscribe_link owned i who l)
      | LiveEnvelope i x \<Rightarrow> deliver_live c budget i x l
      | LiveFrame i x \<Rightarrow> deliver_frame c budget i x l
      | CoreGap i q \<Rightarrow> deliver_core_gap c i q l
      | CoreClosed i \<Rightarrow> retire i l
      | FlushDone i ok \<Rightarrow> flush_done c i ok l
      | ReadDone i r \<Rightarrow> read_done c budget owned i r l)"

definition link_run ::
  "('x, 'l) link_config \<Rightarrow> nat \<Rightarrow> (string \<Rightarrow> string \<Rightarrow> bool) \<Rightarrow> 'x link_event list \<Rightarrow> int \<Rightarrow> 'x link" where
  "link_run c budget owned evs now = fold (link_step (link_config_of c) budget owned) evs (new_link now)"

section \<open>What a subscriber receives\<close>

fun notice_for :: "string \<Rightarrow> 'x sub_line \<Rightarrow> 'x notice list" where
  "notice_for i (EventNotice (j, x)) = (if i = j then [x] else [])"
| "notice_for i _ = []"

definition notices :: "string \<Rightarrow> 'x sub_line list \<Rightarrow> 'x notice list" where
  "notices i ls = concat (map (notice_for i) ls)"

definition written_lines :: "('m, 'd) writer \<Rightarrow> 'm list" where
  "written_lines w = map (dl_line \<circ> snd) (wr_log w)"

text \<open>What the host has been sent for a subscription, and with the messages that still wait.\<close>

definition received :: "string \<Rightarrow> 'x link \<Rightarrow> 'x notice list" where
  "received i l = notices i (written_lines (pe_writer (lk_peer l)))"

fun is_gap :: "'x notice \<Rightarrow> bool" where
  "is_gap (NGap _ _) = True"
| "is_gap (NCoreGap _) = True"
| "is_gap _ = False"

fun envelope_number :: "'x notice \<Rightarrow> nat list" where
  "envelope_number (NEnvelope q _) = [q]"
| "envelope_number _ = []"

definition envelope_numbers :: "'x notice list \<Rightarrow> nat list" where
  "envelope_numbers xs = concat (map envelope_number xs)"

text \<open>
  A stream from a resume point on: its envelopes are numbered on without a gap; a gap notice is the
  last, and the link's own restates the number of the last envelope.
\<close>

fun restates :: "nat \<Rightarrow> 'x notice \<Rightarrow> bool" where
  "restates t (NGap q _) = (q = t)"
| "restates t _ = True"

definition stream_ok :: "nat \<Rightarrow> 'x notice list \<Rightarrow> bool" where
  "stream_ok f xs \<longleftrightarrow>
     (let ns = envelope_numbers xs
      in ns = [Suc f ..< Suc f + length ns] \<and>
         list_all (\<lambda>x. \<not> is_gap x) (butlast xs) \<and> list_all (restates (f + length ns)) xs)"

section \<open>What holds of a subscription\<close>

fun line_numbers :: "'x sub_line \<Rightarrow> nat list" where
  "line_numbers (EventNotice (_, x)) = envelope_number x"
| "line_numbers _ = []"

definition queue_numbers :: "'x sub_item list \<Rightarrow> nat list" where
  "queue_numbers ds = concat (map (line_numbers \<circ> dl_line) ds)"

definition live_item :: "string \<Rightarrow> 'x sub_item \<Rightarrow> bool" where
  "live_item i d \<longleftrightarrow>
     (\<exists>q x. dl_line d = EventNotice (i, NEnvelope q x) \<and> dl_mark d = MarkLive i q) \<or>
     (\<exists>x. dl_line d = EventNotice (i, NFrame x) \<and> dl_mark d = NoMark)"

definition replay_item_ok :: "string \<Rightarrow> 'x sub_entry \<Rightarrow> bool" where
  "replay_item_ok i e \<longleftrightarrow>
     (se_phase e = NotReading \<or> se_replaying e) \<and>
     (case se_replay_item e of
        None \<Rightarrow> True
      | Some d \<Rightarrow>
          se_replaying e \<and> se_phase e = NotReading \<and>
          (\<exists>x. dl_line d = EventNotice (i, NEnvelope (Suc (se_through e)) x)) \<and>
          dl_mark d = MarkReplay i (Suc (se_through e)))"

text \<open>Where the queue continues: behind the snapshot while history is replayed.\<close>

definition queue_base :: "'x sub_entry \<Rightarrow> nat" where
  "queue_base e = (if se_replaying e then se_replay_through e else se_through e)"

definition queue_ok :: "string \<Rightarrow> 'x sub_entry \<Rightarrow> bool" where
  "queue_ok i e \<longleftrightarrow>
     list_all (live_item i) (se_queue e) \<and> queue_base e < se_next e \<and>
     queue_numbers (se_queue e) = [Suc (queue_base e) ..< se_next e] \<and>
     (se_replaying e \<longrightarrow> se_through e < se_replay_through e)"

definition item_bytes :: "'x sub_entry \<Rightarrow> nat" where
  "item_bytes e = (case se_replay_item e of None \<Rightarrow> 0 | Some d \<Rightarrow> dl_bytes d)"

definition budget_ok :: "nat \<Rightarrow> 'x sub_entry \<Rightarrow> bool" where
  "budget_ok budget e \<longleftrightarrow>
     se_bytes e = queue_bytes (se_queue e) + item_bytes e \<and> se_bytes e \<le> sub_byte_budget \<and>
     length (se_queue e) + has_item e \<le> budget \<and> 0 \<le> se_credit e"

definition entry_ok :: "nat \<Rightarrow> string \<Rightarrow> 'x sub_entry \<Rightarrow> bool" where
  "entry_ok budget i e \<longleftrightarrow> replay_item_ok i e \<and> queue_ok i e \<and> budget_ok budget e"

lemmas entry_ok_defs = entry_ok_def replay_item_ok_def queue_ok_def budget_ok_def

text \<open>
  A strand: the notices written and waiting for one subscription, with its entry while it is open.
\<close>

definition open_strand :: "nat \<Rightarrow> int \<Rightarrow> 'x sub_entry \<Rightarrow> 'x notice list \<Rightarrow> 'x notice list \<Rightarrow> bool" where
  "open_strand f g e xs ws \<longleftrightarrow>
     ws = [] \<and> list_all (\<lambda>x. \<not> is_gap x) xs \<and> envelope_numbers xs = [Suc f ..< Suc (se_through e)] \<and>
     f \<le> se_through e \<and> int (length xs) + se_credit e = g"

definition closed_strand :: "nat \<Rightarrow> int \<Rightarrow> 'x notice list \<Rightarrow> 'x notice list \<Rightarrow> bool" where
  "closed_strand f g xs ws \<longleftrightarrow>
     stream_ok f (xs @ ws) \<and> list_all is_gap ws \<and> int (length (filter (\<lambda>x. \<not> is_gap x) xs)) \<le> g"

definition strand_ok ::
  "nat \<Rightarrow> string \<Rightarrow> nat option \<Rightarrow> int option \<Rightarrow> 'x sub_entry option \<Rightarrow> 'x notice list \<Rightarrow> 'x notice list \<Rightarrow> bool"
where
  "strand_ok budget i f g e xs ws \<longleftrightarrow>
     (case f of
        None \<Rightarrow> e = None \<and> xs = [] \<and> ws = []
      | Some f \<Rightarrow>
          (case e of
             None \<Rightarrow> closed_strand f (the g) xs ws
           | Some e \<Rightarrow> entry_ok budget i e \<and> open_strand f (the g) e xs ws))"

definition strands ::
  "nat \<Rightarrow> (string, nat) jmap \<Rightarrow> (string, int) jmap \<Rightarrow> ('x sub_line, sub_mark) writer \<Rightarrow> 'x subs \<Rightarrow> bool" where
  "strands budget from granted w ss \<longleftrightarrow>
     list_all (\<lambda>d. dl_mark d = NoMark) (wr_controls w) \<and>
     (\<forall>i. strand_ok budget i (jget from i) (jget granted i) (jget ss i)
            (notices i (written_lines w)) (notices i (map dl_line (wr_controls w))))"

definition link_ok :: "nat \<Rightarrow> 'x link \<Rightarrow> bool" where
  "link_ok budget l \<longleftrightarrow>
     strands budget (lk_from l) (lk_granted l) (pe_writer (lk_peer l)) (lk_subs l) \<and>
     (pe_stopped (lk_peer l) \<longrightarrow>
      lk_subs l = [] \<and> wr_stopped (pe_writer (lk_peer l)) \<and> wr_controls (pe_writer (lk_peer l)) = [])"

subsection \<open>Lists of notices\<close>

lemma notices_simps [simp]:
  "notices i [] = []"
  "notices i (l # ls) = notice_for i l @ notices i ls"
  "notices i (ls @ ls') = notices i ls @ notices i ls'"
  by (simp_all add: notices_def)

lemma own_message_notice: "own_message m \<Longrightarrow> notice_for i m = []"
  by (cases m) simp_all

lemma notices_own: "own_items ds \<Longrightarrow> notices i (map dl_line ds) = []"
  by (induction ds) (simp_all add: own_items_def own_message_notice)

lemma envelope_numbers_simps [simp]:
  "envelope_numbers [] = []"
  "envelope_numbers (x # xs) = envelope_number x @ envelope_numbers xs"
  "envelope_numbers (xs @ ys) = envelope_numbers xs @ envelope_numbers ys"
  by (simp_all add: envelope_numbers_def)

lemma queue_numbers_simps [simp]:
  "queue_numbers [] = []"
  "queue_numbers (d # ds) = line_numbers (dl_line d) @ queue_numbers ds"
  "queue_numbers (ds @ ds') = queue_numbers ds @ queue_numbers ds'"
  by (simp_all add: queue_numbers_def)

lemma gap_not_numbered: "is_gap x \<Longrightarrow> envelope_number x = []"
  by (cases x) simp_all

lemma gaps_not_numbered: "list_all is_gap ws \<Longrightarrow> envelope_numbers ws = []"
  by (induction ws) (simp_all add: gap_not_numbered)

lemma restates_no_gap: "\<not> is_gap x \<Longrightarrow> restates t x"
  by (cases x) simp_all

lemma upt_length_eq: "ns = [Suc f ..< Suc t] \<Longrightarrow> f \<le> t \<Longrightarrow> f + length ns = t"
  by simp

text \<open>An open strand that ends is a closed one, with or without a gap notice waiting.\<close>

lemma open_strand_stream:
  assumes "open_strand f g e xs ws"
  shows "stream_ok f xs" and "f + length (envelope_numbers xs) = se_through e"
proof -
  have "list_all (restates t) xs" if "list_all (\<lambda>x. \<not> is_gap x) xs" for t
    using that by (induction xs) (simp_all add: restates_no_gap)
  moreover have "list_all (\<lambda>x. \<not> is_gap x) (butlast xs)" if "list_all (\<lambda>x. \<not> is_gap x) xs"
    using that by (auto simp: list_all_iff dest: in_set_butlastD)
  ultimately show "stream_ok f xs" and "f + length (envelope_numbers xs) = se_through e"
    using assms by (simp_all add: open_strand_def stream_ok_def Let_def del: upt_Suc)
qed

lemma open_strand_closes:
  assumes "open_strand f g e xs ws" and "0 \<le> se_credit e"
  shows "closed_strand f g xs []"
proof -
  have "filter (\<lambda>x. \<not> is_gap x) xs = xs"
    using assms(1) by (simp add: open_strand_def filter_id_conv list_all_iff)
  with assms open_strand_stream [OF assms(1)] show ?thesis
    by (simp add: closed_strand_def open_strand_def)
qed

lemma open_strand_gap:
  assumes "open_strand f g e xs ws" and "0 \<le> se_credit e" and "is_gap x" and "restates (se_through e) x"
  shows "closed_strand f g xs [x]"
proof -
  have "list_all (restates t) xs" for t
    using assms(1) by (auto simp: open_strand_def list_all_iff restates_no_gap)
  with open_strand_closes [OF assms(1,2)] open_strand_stream [OF assms(1)] assms show ?thesis
    by (auto simp: closed_strand_def stream_ok_def Let_def open_strand_def gap_not_numbered simp del: upt_Suc)
qed

lemma closed_strand_dropped:
  assumes "closed_strand f g xs ws"
  shows "closed_strand f g xs []"
proof -
  have "butlast (xs @ ws) = xs @ butlast ws" if "ws \<noteq> []" using that by (simp add: butlast_append)
  with assms show ?thesis
    by (cases "ws = []")
      (auto simp: closed_strand_def stream_ok_def Let_def gaps_not_numbered list_all_iff
        dest: in_set_butlastD simp del: upt_Suc)
qed

lemma strand_ok_dropped:
  "strand_ok budget i f g e xs ws \<Longrightarrow> strand_ok budget i f g None xs []"
  by (auto simp: strand_ok_def entry_ok_def budget_ok_def
      intro: closed_strand_dropped open_strand_closes split: option.splits)

subsection \<open>The pump\<close>

lemma strandsD:
  "strands budget from granted w ss \<Longrightarrow>
   strand_ok budget i (jget from i) (jget granted i) (jget ss i)
     (notices i (written_lines w)) (notices i (map dl_line (wr_controls w)))"
  by (simp add: strands_def)

lemma strands_marks:
  "strands budget from granted w ss \<Longrightarrow> list_all (\<lambda>d. dl_mark d = NoMark) (wr_controls w)"
  by (simp add: strands_def)

lemma strands_same:
  assumes "strands budget from granted w ss" and "wr_log w' = wr_log w" and "wr_controls w' = wr_controls w"
  shows "strands budget from granted w' ss"
  using assms by (simp add: strands_def written_lines_def)

text \<open>One subscription changes, the others stay.\<close>

lemma strands_update:
  assumes "strands budget from granted w ss"
    and "wr_log w' = wr_log w @ xs" and "list_all (\<lambda>d. dl_mark d = NoMark) (wr_controls w')"
    and "\<And>k. k \<noteq> i \<Longrightarrow> notices k (map (dl_line \<circ> snd) xs) = []"
    and "\<And>k. k \<noteq> i \<Longrightarrow> notices k (map dl_line (wr_controls w')) = notices k (map dl_line (wr_controls w))"
    and "\<And>k. k \<noteq> i \<Longrightarrow> jget ss' k = jget ss k"
    and "\<And>k. k \<noteq> i \<Longrightarrow> jget from' k = jget from k" and "\<And>k. k \<noteq> i \<Longrightarrow> jget granted' k = jget granted k"
    and "strand_ok budget i (jget from' i) (jget granted' i) (jget ss' i)
      (notices i (written_lines w) @ notices i (map (dl_line \<circ> snd) xs))
      (notices i (map dl_line (wr_controls w')))"
  shows "strands budget from' granted' w' ss'"
  unfolding strands_def
proof (intro conjI allI)
  fix k
  show "strand_ok budget k (jget from' k) (jget granted' k) (jget ss' k)
      (notices k (written_lines w')) (notices k (map dl_line (wr_controls w')))"
    using assms(2,4-) strandsD [OF assms(1), of k] by (cases "k = i") (simp_all add: written_lines_def)
qed (fact assms(3))

lemma start_read_ok:
  "entry_ok budget i e \<Longrightarrow> se_replay_item e = None \<Longrightarrow> entry_ok budget i (start_read e)"
  "open_strand f g (start_read e) xs ws \<longleftrightarrow> open_strand f g e xs ws"
  by (auto simp: entry_ok_defs start_read_def queue_base_def item_bytes_def has_item_def open_strand_def)

lemma entry_next_none:
  assumes "entry_next e = (None, e')"
  shows "entry_ok budget i e \<Longrightarrow> entry_ok budget i e'" and "open_strand f g e' xs ws \<longleftrightarrow> open_strand f g e xs ws"
  using assms
  by (auto simp: entry_next_def start_read_ok split: if_splits option.splits list.splits)

lemma sub_next_none:
  assumes "strands budget from granted w ss" and "sub_next k ss = (None, ss')"
  shows "strands budget from granted w ss'"
proof (cases "jget ss k")
  case None
  with assms show ?thesis by (simp add: sub_next_def)
next
  case (Some e)
  with assms(2) obtain e' where e': "entry_next e = (None, e')" "ss' = jset ss k e'"
    by (auto simp: sub_next_def split: prod.splits)
  from strandsD [OF assms(1), of k] Some
  have "strand_ok budget k (jget from k) (jget granted k) (Some e')
      (notices k (written_lines w)) (notices k (map dl_line (wr_controls w)))"
    by (auto simp: strand_ok_def entry_next_none [OF e'(1)] split: option.splits)
  with strands_marks [OF assms(1)] e'(2) show ?thesis
    by (intro strands_update [OF assms(1), where i = k and xs = "[]"]) simp_all
qed

text \<open>
  The item of a source, written and delivered: its watermark moves by its number, and what is left
  of the queue continues from there.
\<close>

lemma upt_hd: "q # ns = [Suc a ..< b] \<Longrightarrow> q = Suc a \<and> Suc a < b \<and> ns = [Suc (Suc a) ..< b]"
  by (cases "Suc a < b") (auto simp: upt_conv_Cons)

lemma entry_next_queue:
  assumes "entry_ok budget i e" and "open_strand f g e xs ws" and "0 < se_credit e"
    and "\<not> se_replaying e" and "se_queue e = d # ds"
  shows "\<exists>x. dl_line d = EventNotice (i, x) \<and> (mark_sub (dl_mark d) = Some i \<or> dl_mark d = NoMark) \<and>
    entry_ok budget i (entry_delivered (dl_mark d) (spend d (e\<lparr>se_queue := ds\<rparr>))) \<and>
    open_strand f g (entry_delivered (dl_mark d) (spend d (e\<lparr>se_queue := ds\<rparr>))) (xs @ [x]) ws"
proof -
  have item: "live_item i d" and none: "se_replay_item e = None"
    using assms by (auto simp: entry_ok_defs split: option.splits)
  from item consider (envelope) q x where "dl_line d = EventNotice (i, NEnvelope q x)" "dl_mark d = MarkLive i q"
    | (frame) x where "dl_line d = EventNotice (i, NFrame x)" "dl_mark d = NoMark"
    by (auto simp: live_item_def)
  then show ?thesis
  proof cases
    case (envelope q x)
    with assms have "q # queue_numbers ds = [Suc (se_through e) ..< se_next e]"
      by (simp add: entry_ok_defs queue_base_def del: upt_Suc)
    note q = upt_hd [OF this]
    with envelope assms none show ?thesis
      by (auto simp: entry_ok_defs queue_base_def item_bytes_def has_item_def spend_def open_strand_def)
  next
    case (frame x)
    with assms none show ?thesis
      by (auto simp: entry_ok_defs queue_base_def item_bytes_def has_item_def spend_def open_strand_def
          simp del: upt_Suc)
  qed
qed

lemma entry_next_replay:
  assumes "entry_ok budget i e" and "open_strand f g e xs ws" and "0 < se_credit e"
    and "se_replay_item e = Some d"
  shows "\<exists>x. dl_line d = EventNotice (i, x) \<and> mark_sub (dl_mark d) = Some i \<and>
    entry_ok budget i (entry_delivered (dl_mark d) (spend d (e\<lparr>se_replay_item := None\<rparr>))) \<and>
    open_strand f g (entry_delivered (dl_mark d) (spend d (e\<lparr>se_replay_item := None\<rparr>))) (xs @ [x]) ws"
proof -
  from assms obtain x where x: "dl_line d = EventNotice (i, NEnvelope (Suc (se_through e)) x)"
      "dl_mark d = MarkReplay i (Suc (se_through e))" "se_replaying e" "se_phase e = NotReading"
    by (auto simp: entry_ok_defs)
  with assms show ?thesis
    by (auto simp: entry_ok_defs queue_base_def item_bytes_def has_item_def spend_def open_strand_def
        Let_def simp del: upt_Suc) (auto simp: upt_Suc)
qed

lemma entry_next_some:
  assumes "entry_ok budget i e" and "open_strand f g e xs ws" and "entry_next e = (Some d, e')"
  shows "\<exists>x. dl_line d = EventNotice (i, x) \<and> (mark_sub (dl_mark d) = Some i \<or> dl_mark d = NoMark) \<and>
    entry_ok budget i (entry_delivered (dl_mark d) e') \<and>
    open_strand f g (entry_delivered (dl_mark d) e') (xs @ [x]) ws"
proof -
  have "0 \<le> se_credit e" using assms(1) by (simp add: entry_ok_defs)
  with assms(3) have "0 < se_credit e" by (auto simp: entry_next_def split: if_splits)
  with assms show ?thesis
    using entry_next_queue [OF assms(1,2), of d] entry_next_replay [OF assms(1,2), of d]
    by (auto simp: entry_next_def split: if_splits option.splits list.splits)
qed

lemma jget_sub_delivered_other: "mark_sub m \<noteq> Some k \<Longrightarrow> jget (sub_delivered m ss) k = jget ss k"
  by (auto simp: sub_delivered_def jget_jset split: option.splits)

lemma sub_delivered_here:
  "jget ss i = Some e \<Longrightarrow> mark_sub m = Some i \<or> m = NoMark \<Longrightarrow>
   jget (sub_delivered m ss) i = Some (entry_delivered m e)"
  by (auto simp: sub_delivered_def)

lemma sub_next_some:
  assumes ok: "strands budget from granted w ss" and "sub_next i ss = (Some d, ss')"
  shows "strands budget from granted (w\<lparr>wr_log := wr_log w @ [(org, d)]\<rparr>) (sub_delivered (dl_mark d) ss')"
proof -
  from assms(2) obtain e e' where e: "jget ss i = Some e" "entry_next e = (Some d, e')" "ss' = jset ss i e'"
    by (auto simp: sub_next_def split: option.splits prod.splits)
  from strandsD [OF ok, of i] e(1) obtain f where f: "jget from i = Some f" "entry_ok budget i e"
      "open_strand f (the (jget granted i)) e (notices i (written_lines w))
        (notices i (map dl_line (wr_controls w)))"
    by (auto simp: strand_ok_def split: option.splits)
  from entry_next_some [OF f(2,3) e(2)] obtain x where x: "dl_line d = EventNotice (i, x)"
      "mark_sub (dl_mark d) = Some i \<or> dl_mark d = NoMark"
      "entry_ok budget i (entry_delivered (dl_mark d) e')"
      "open_strand f (the (jget granted i)) (entry_delivered (dl_mark d) e')
        (notices i (written_lines w) @ [x]) (notices i (map dl_line (wr_controls w)))"
    by blast
  have here: "jget (sub_delivered (dl_mark d) ss') i = Some (entry_delivered (dl_mark d) e')"
    using x(2) by (intro sub_delivered_here) (simp_all add: e(3))
  have other: "jget (sub_delivered (dl_mark d) ss') k = jget ss k" if "k \<noteq> i" for k
  proof -
    have "mark_sub (dl_mark d) \<noteq> Some k" using x(2) that by auto
    with that show ?thesis by (simp add: jget_sub_delivered_other e(3))
  qed
  show ?thesis
    by (rule strands_update [OF ok, where i = i and xs = "[(org, d)]"])
      (simp_all add: strands_marks [OF ok] other here x(1) strand_ok_def f(1) x(3,4))
qed

lemma ask_sources_strands:
  assumes "strands budget from granted w ss" and "ask_sources sub_next ids n k ss = (r, k', ss')"
  shows "case r of None \<Rightarrow> strands budget from granted w ss'
    | Some d \<Rightarrow> strands budget from granted (w\<lparr>wr_log := wr_log w @ [(org, d)]\<rparr>) (sub_delivered (dl_mark d) ss')"
  using assms
proof (induction n arbitrary: k ss)
  case (Suc n)
  let ?i = "ids ! (k mod length ids)"
  show ?case
  proof (cases "fst (sub_next ?i ss)")
    case None
    then obtain ss1 where 1: "sub_next ?i ss = (None, ss1)" by (metis prod.collapse)
    with Suc.prems(2) have "ask_sources sub_next ids n (Suc (k mod length ids)) ss1 = (r, k', ss')"
      by (simp add: Let_def)
    with Suc.IH [OF sub_next_none [OF Suc.prems(1) 1]] show ?thesis .
  next
    case (Some d)
    then obtain ss1 where 1: "sub_next ?i ss = (Some d, ss1)" by (metis prod.collapse)
    with Suc.prems(2) have "r = Some d" "ss' = ss1" by (simp_all add: Let_def)
    with sub_next_some [OF Suc.prems(1) 1] show ?thesis by simp
  qed
qed auto

text \<open>A control message that is written moves from the waiting notices to the written ones.\<close>

lemma closed_strand_written:
  "closed_strand f g xs (x # ws) \<Longrightarrow> closed_strand f g (xs @ [x]) ws"
  by (simp add: closed_strand_def)

lemma control_written_strands:
  assumes ok: "strands budget from granted w ss" and "wr_controls w = d # ds"
  shows "strands budget from granted (w\<lparr>wr_controls := ds, wr_log := wr_log w @ [(org, d)]\<rparr>) ss"
    and "sub_delivered (dl_mark d) ss = ss"
proof -
  have "strand_ok budget i (jget from i) (jget granted i) (jget ss i)
      (notices i (written_lines w @ [dl_line d])) (notices i (map dl_line ds))" for i
  proof (cases "notice_for i (dl_line d)")
    case Nil
    with strandsD [OF ok, of i] assms(2) show ?thesis by simp
  next
    case (Cons x xs)
    then have "notice_for i (dl_line d) = [x]"
      by (cases "dl_line d") (auto split: if_splits)
    with strandsD [OF ok, of i] assms(2) show ?thesis
      by (auto simp: strand_ok_def open_strand_def intro: closed_strand_written split: option.splits)
  qed
  with strands_marks [OF ok] assms(2)
  show "strands budget from granted (w\<lparr>wr_controls := ds, wr_log := wr_log w @ [(org, d)]\<rparr>) ss"
    by (simp add: strands_def written_lines_def)
  show "sub_delivered (dl_mark d) ss = ss"
    using strands_marks [OF ok] assms(2) by (simp add: sub_delivered_def)
qed

lemma strands_dropped:
  "strands budget from granted w ss \<Longrightarrow> wr_log w' = wr_log w \<Longrightarrow> wr_controls w' = [] \<Longrightarrow>
   strands budget from granted w' []"
  by (auto simp: strands_def written_lines_def intro: strand_ok_dropped)

lemma pick_strands:
  assumes ok: "strands budget from granted w ss"
  shows "case pick_item sub_next w ss of
      (None, w', ss') \<Rightarrow> strands budget from granted w' ss'
    | (Some x, w', ss') \<Rightarrow>
        wr_log w' = wr_log w \<and> wr_stopped w' = wr_stopped w \<and>
        strands budget from granted (w'\<lparr>wr_log := wr_log w @ [x]\<rparr>) (sub_delivered (dl_mark (snd x)) ss')"
proof (cases "wr_controls w \<noteq> [] \<and> wr_burst w < 8")
  case True
  then obtain d ds where "wr_controls w = d # ds" by (cases "wr_controls w") auto
  with True control_written_strands(1) [OF ok this, of ControlFirst] control_written_strands(2) [OF ok this] show ?thesis
    by (auto simp: pick_item_def take_control_def intro: strands_same)
next
  case False
  obtain r k ss1 where ask: "ask_sources sub_next (wr_sources w) (length (wr_sources w)) (wr_cursor w) ss = (r, k, ss1)"
    by (cases rule: prod_cases3)
  show ?thesis
  proof (cases r)
    case (Some d)
    with False ask ask_sources_strands [OF ok ask, of "SourceItem (wr_controls w \<noteq> [])"] show ?thesis
      by (auto simp: pick_item_def intro: strands_same)
  next
    case None
    with ask_sources_strands [OF ok ask] have ok1: "strands budget from granted w ss1" by simp
    show ?thesis
    proof (cases "wr_controls w")
      case Nil
      with False ask None ok1 show ?thesis by (auto simp: pick_item_def Let_def intro: strands_same)
    next
      case (Cons d ds)
      with False ask None control_written_strands(1) [OF ok1 Cons, of ControlElse] control_written_strands(2) [OF ok1 Cons] show ?thesis
        by (auto simp: pick_item_def Let_def take_control_def intro: strands_same)
    qed
  qed
qed

lemma pump_batch_strands:
  assumes "strands budget from granted w ss" and "\<not> wr_stopped w"
  shows "case pump_batch c sub_next sub_delivered took n w ss of (f, w', ss') \<Rightarrow>
    (case f of
       None \<Rightarrow> strands budget from granted w' ss'
     | Some r \<Rightarrow> wr_stopped w' \<and> strands budget from granted w' [])"
  using assms
proof (induction n arbitrary: w ss)
  case (Suc n)
  obtain x w1 ss1 where pick: "pick_item sub_next w ss = (x, w1, ss1)" by (cases rule: prod_cases3)
  show ?case
  proof (cases x)
    case None
    with pick pick_strands [OF Suc.prems(1)] show ?thesis by simp
  next
    case (Some y)
    with pick pick_strands [OF Suc.prems(1)] Suc.prems(2)
    have y: "wr_log w1 = wr_log w" "\<not> wr_stopped w1"
      "strands budget from granted (w1\<lparr>wr_log := wr_log w @ [y]\<rparr>) (sub_delivered (dl_mark (snd y)) ss1)"
      by simp_all
    show ?thesis
    proof (cases "wc_budget c < wr_backlog w1 + dl_bytes (snd y)")
      case True
      with Some pick y strands_dropped [OF Suc.prems(1), of "close_writer w1"] show ?thesis
        by (simp add: fail_writer_def close_writer_def)
    next
      case False
      define w2 where "w2 = snd (write_item c (took n) y w1)"
      have ok2: "strands budget from granted w2 (sub_delivered (dl_mark (snd y)) ss1)" and run: "\<not> wr_stopped w2"
        using y by (auto simp: w2_def write_item_def Let_def intro: strands_same)
      obtain b where wrote: "write_item c (took n) y w1 = (b, w2)"
        by (simp add: w2_def prod_eq_iff)
      show ?thesis
      proof (cases b)
        case True
        with False Some pick wrote Suc.IH [OF ok2 run] show ?thesis by simp
      next
        case blocked: False
        have "strands budget from granted (w2\<lparr>wr_blocked := True\<rparr>) (sub_delivered (dl_mark (snd y)) ss1)"
          by (rule strands_same [OF ok2]) simp_all
        with False Some pick wrote blocked show ?thesis by simp
      qed
    qed
  qed
qed (auto intro: strands_same)

subsection \<open>The operations of the link\<close>

abbreviation writer_of :: "'x link \<Rightarrow> ('x sub_line, sub_mark) writer" where
  "writer_of l \<equiv> pe_writer (lk_peer l)"

lemma link_okD:
  "link_ok budget l \<Longrightarrow> strands budget (lk_from l) (lk_granted l) (writer_of l) (lk_subs l)"
  "link_ok budget l \<Longrightarrow> pe_stopped (lk_peer l) \<Longrightarrow>
   lk_subs l = [] \<and> wr_stopped (writer_of l) \<and> wr_controls (writer_of l) = []"
  by (simp_all add: link_ok_def)

lemma link_ok_open: "link_ok budget l \<Longrightarrow> jget (lk_subs l) i = Some e \<Longrightarrow> \<not> pe_stopped (lk_peer l)"
  by (auto simp: link_ok_def)

text \<open>The peer moved on: it stopped and its subscriptions close, or their strands still hold.\<close>

lemma link_ok_peer:
  assumes "if pe_stopped p then wr_stopped (pe_writer p) \<and> wr_controls (pe_writer p) = [] \<and>
      strands budget (lk_from l) (lk_granted l) (pe_writer p) []
    else strands budget (lk_from l) (lk_granted l) (pe_writer p) ss"
  shows "link_ok budget (close_stopped (l\<lparr>lk_peer := p, lk_subs := ss\<rparr>))"
  using assms by (auto simp: link_ok_def close_stopped_def split: if_splits)

lemma link_ok_stop:
  assumes "strands budget (lk_from l) (lk_granted l) w ss" and "wr_log (pe_writer p) = wr_log w"
    and "\<not> pe_stopped p"
  shows "link_ok budget (close_stopped (l\<lparr>lk_peer := stop_peer r p, lk_subs := ss'\<rparr>))"
  using strands_dropped [OF assms(1), of "close_writer (pe_writer p)"] assms(2,3)
  by (intro link_ok_peer) (simp add: stop_peer_def effects_def close_writer_def)

lemma link_ok_appended:
  assumes ok: "link_ok budget l" and "only_appends NoMark (writer_of l) p"
  shows "link_ok budget (close_stopped (l\<lparr>lk_peer := p, lk_subs := lk_subs l\<rparr>))"
proof (rule link_ok_peer)
  note strands = link_okD(1) [OF ok]
  show "if pe_stopped p then wr_stopped (pe_writer p) \<and> wr_controls (pe_writer p) = [] \<and>
      strands budget (lk_from l) (lk_granted l) (pe_writer p) []
    else strands budget (lk_from l) (lk_granted l) (pe_writer p) (lk_subs l)"
  proof (cases "pe_stopped p")
    case True
    with assms(2) strands_dropped [OF strands, of "pe_writer p"] show ?thesis
      by (simp add: only_appends_def)
  next
    case False
    with assms(2) obtain ds where ds: "wr_log (pe_writer p) = wr_log (writer_of l)"
        "wr_controls (pe_writer p) = wr_controls (writer_of l) @ ds" "own_items ds"
        "list_all (\<lambda>d. dl_mark d = NoMark) ds"
      by (auto simp: only_appends_def)
    with strands False show ?thesis
      by (simp add: strands_def written_lines_def notices_own)
  qed
qed

lemma link_ok_only_appends:
  "link_ok budget l \<Longrightarrow> only_appends m (writer_of l) (lk_peer l)"
  by (auto simp: only_appends_def link_ok_def own_items_def)

lemma link_ok_fault:
  assumes ok: "link_ok budget l"
  shows "link_ok budget (close_stopped (l\<lparr>lk_peer := on_fault (fail_writer r (writer_of l)) (lk_peer l)\<rparr>))"
  using link_ok_appended [OF ok only_appends_fail [OF link_ok_only_appends [OF ok]]] by simp

lemma link_ok_closed_id: "link_ok budget l \<Longrightarrow> close_stopped l = l"
  by (cases l) (auto simp: close_stopped_def link_ok_def)

lemma link_ok_entry:
  assumes ok: "link_ok budget l" and "jget (lk_subs l) i = Some e" and "entry_ok budget i e \<Longrightarrow> entry_ok budget i e'"
    and "se_through e' = se_through e" and "se_credit e' = se_credit e"
  shows "link_ok budget (l\<lparr>lk_subs := jset (lk_subs l) i e'\<rparr>)"
proof -
  have "strand_ok budget i (jget (lk_from l) i) (jget (lk_granted l) i) (Some e')
      (notices i (written_lines (writer_of l))) (notices i (map dl_line (wr_controls (writer_of l))))"
    using strandsD [OF link_okD(1) [OF ok], of i] assms(2-)
    by (auto simp: strand_ok_def open_strand_def split: option.splits)
  then have "strands budget (lk_from l) (lk_granted l) (writer_of l) (jset (lk_subs l) i e')"
    by (intro strands_update [OF link_okD(1) [OF ok], where i = i and xs = "[]"])
      (simp_all add: strands_marks [OF link_okD(1) [OF ok]])
  with link_ok_open [OF ok assms(2)] show ?thesis by (simp add: link_ok_def)
qed

lemma link_ok_on_writer:
  assumes "link_ok budget l" and "\<And>w. wr_log (f w) = wr_log w \<and> wr_controls (f w) = wr_controls w \<and> wr_stopped (f w) = wr_stopped w"
  shows "link_ok budget (l\<lparr>lk_peer := on_writer f (lk_peer l)\<rparr>)"
  using assms strands_same [of budget "lk_from l" "lk_granted l" "writer_of l" "lk_subs l" "f (writer_of l)"]
  by (auto simp: link_ok_def on_writer_def)

lemma link_ok_wake: "link_ok budget l \<Longrightarrow> link_ok budget (wake_link l)"
  unfolding wake_link_def by (erule link_ok_on_writer) simp

text \<open>The end of a subscription: silently, or with a gap notice.\<close>

lemma entry_open:
  assumes "link_ok budget l" and "jget (lk_subs l) i = Some e"
  obtains f where "jget (lk_from l) i = Some f" "entry_ok budget i e"
    "open_strand f (the (jget (lk_granted l) i)) e (received i l) []"
    "notices i (map dl_line (wr_controls (writer_of l))) = []"
  using strandsD [OF link_okD(1) [OF assms(1)], of i] assms(2) that
  by (auto simp: strand_ok_def open_strand_def received_def split: option.splits)

lemma strands_retired:
  assumes ok: "link_ok budget l" and e: "jget (lk_subs l) i = Some e"
    and "wr_log w' = wr_log (writer_of l)"
    and "wr_controls w' = wr_controls (writer_of l) @ ds"
    and "ds = [] \<or> (\<exists>d x. ds = [d] \<and> dl_line d = EventNotice (i, x) \<and> dl_mark d = NoMark \<and> is_gap x \<and>
      restates (se_through e) x)"
  shows "strands budget (lk_from l) (lk_granted l) w' (jdel (lk_subs l) i)"
proof -
  obtain f where f: "jget (lk_from l) i = Some f" "entry_ok budget i e"
    "open_strand f (the (jget (lk_granted l) i)) e (received i l) []"
    "notices i (map dl_line (wr_controls (writer_of l))) = []"
    by (rule entry_open [OF ok e])
  have "0 \<le> se_credit e" using f(2) by (simp add: entry_ok_defs)
  with assms(5) open_strand_closes [OF f(3)] open_strand_gap [OF f(3)]
  have "closed_strand f (the (jget (lk_granted l) i)) (received i l) (notices i (map dl_line ds))"
    by auto
  with f have strand: "strand_ok budget i (jget (lk_from l) i) (jget (lk_granted l) i) (jget (jdel (lk_subs l) i) i)
      (notices i (written_lines (writer_of l)) @ notices i (map (dl_line \<circ> snd) []))
      (notices i (map dl_line (wr_controls w')))"
    by (simp add: strand_ok_def received_def assms(4))
  show ?thesis
  proof (rule strands_update [OF link_okD(1) [OF ok], where i = i and xs = "[]"])
    show "list_all (\<lambda>d. dl_mark d = NoMark) (wr_controls w')"
      using strands_marks [OF link_okD(1) [OF ok]] assms(4,5) by auto
  qed (use assms(3-5) strand in auto)
qed

lemma link_ok_retire:
  assumes ok: "link_ok budget l"
  shows "link_ok budget (retire i l)"
proof (cases "jget (lk_subs l) i")
  case (Some e)
  have "strands budget (lk_from l) (lk_granted l) (remove_source i (writer_of l)) (jdel (lk_subs l) i)"
    by (rule strands_retired [OF ok Some, where ds = "[]"]) (simp_all add: remove_source_def)
  with Some link_ok_open [OF ok Some] show ?thesis
    by (simp add: retire_def jhas_def link_ok_def on_writer_def)
qed (use ok in \<open>simp add: retire_def jhas_def\<close>)

lemma link_ok_gap_notice:
  assumes ok: "link_ok budget l" and e: "jget (lk_subs l) i = Some e"
    and mark: "wc_no_mark (pc_writer c) = NoMark" and "is_gap x" and "restates (se_through e) x"
  shows "link_ok budget (link_send c (EventNotice (i, x)) (retire i l))"
proof -
  let ?p = "on_writer (remove_source i) (lk_peer l)"
  have run: "\<not> pe_stopped ?p" using link_ok_open [OF ok e] by (simp add: on_writer_def)
  have w: "pe_writer ?p = remove_source i (writer_of l)" by (simp add: on_writer_def)
  have l: "link_send c (EventNotice (i, x)) (retire i l) =
      close_stopped (l\<lparr>lk_peer := send c (EventNotice (i, x)) ?p, lk_subs := jdel (lk_subs l) i\<rparr>)"
    using e by (cases l) (simp add: link_send_def retire_def jhas_def)
  show ?thesis
  proof (cases rule: control_cases [where c = "pc_writer c" and v = "EventNotice (i, x)" and w = "pe_writer ?p"])
    case (stays r)
    then have "send c (EventNotice (i, x)) ?p = ?p" by (auto simp: send_def on_fault_def control_def)
    moreover have "strands budget (lk_from l) (lk_granted l) (pe_writer ?p) (jdel (lk_subs l) i)"
      unfolding w by (rule strands_retired [OF ok e, where ds = "[]"]) (simp_all add: remove_source_def)
    ultimately show ?thesis unfolding l using run by (intro link_ok_peer) simp
  next
    case (fails r)
    then have "send c (EventNotice (i, x)) ?p = stop_peer r (?p\<lparr>pe_writer := close_writer (pe_writer ?p)\<rparr>)"
      by (simp add: send_def on_fault_def fail_writer_def)
    then show ?thesis
      unfolding l using run
      by (simp add: link_ok_stop [OF link_okD(1) [OF ok]] w close_writer_def remove_source_def)
  next
    case (queued d)
    then have "send c (EventNotice (i, x)) ?p = ?p\<lparr>pe_writer := wake ((pe_writer ?p)
        \<lparr>wr_controls := wr_controls (pe_writer ?p) @ [d], wr_bytes := wr_bytes (pe_writer ?p) + dl_bytes d\<rparr>)\<rparr>"
      by (simp add: send_def on_fault_def)
    moreover have "strands budget (lk_from l) (lk_granted l) (wake ((pe_writer ?p)
        \<lparr>wr_controls := wr_controls (pe_writer ?p) @ [d], wr_bytes := wr_bytes (pe_writer ?p) + dl_bytes d\<rparr>))
        (jdel (lk_subs l) i)"
      by (rule strands_retired [OF ok e, where ds = "[d]"])
        (use queued assms(3-5) in \<open>simp_all add: w remove_source_def\<close>)
    ultimately show ?thesis unfolding l using run by (intro link_ok_peer) simp
  qed
qed

lemma link_ok_gap:
  assumes "link_ok budget l" and "wc_no_mark (pc_writer c) = NoMark"
  shows "link_ok budget (gap c i message l)"
  using assms link_ok_fault [OF assms(1)] link_ok_gap_notice [OF assms(1) _ assms(2), of i _ "NGap _ message"]
  by (auto simp: gap_def link_fault_def split: option.splits)

lemma link_ok_core_gap:
  assumes "link_ok budget l" and "wc_no_mark (pc_writer c) = NoMark"
  shows "link_ok budget (deliver_core_gap c i q l)"
  using assms link_ok_gap_notice [OF assms(1) _ assms(2), of i _ "NCoreGap q"]
  by (auto simp: deliver_core_gap_def jhas_def)

lemma encode_notice_cases:
  assumes "link_ok budget l" and "wc_no_mark (pc_writer c) = NoMark"
  obtains (refused) l' where "encode_notice c budget i e x m l = (None, l')" "link_ok budget l'"
  | (item) d where "encode_notice c budget i e x m l = (Some d, l)" "dl_line d = EventNotice (i, x)" "dl_mark d = m"
    "length (se_queue e) + has_item e < budget" "se_bytes e + dl_bytes d \<le> sub_byte_budget"
proof -
  obtain r s where enc: "encode (pc_writer c) (EventNotice (i, x)) (writer_of l) = (r, s)" by (metis surj_pair)
  show thesis
  proof (cases r)
    case None
    with enc obtain t where "s = fail_writer t (writer_of l)"
      by (auto simp: encode_def split: option.splits if_splits)
    with enc None link_ok_fault [OF assms(1)] show thesis
      by (intro refused) (simp_all add: encode_notice_def)
  next
    case (Some d)
    then have line: "dl_line d = EventNotice (i, x)"
      using enc by (auto simp: encode_def split: option.splits if_splits)
    show thesis
    proof (cases "budget \<le> length (se_queue e) + has_item e \<or> sub_byte_budget < se_bytes e + dl_bytes d")
      case True
      with enc Some show thesis
        by (intro refused [of "gap c i budget_gap_message l"])
          (simp_all add: encode_notice_def link_ok_gap [OF assms])
    next
      case False
      with enc Some line show thesis by (intro item [of "d\<lparr>dl_mark := m\<rparr>"]) (simp_all add: encode_notice_def)
    qed
  qed
qed

lemma link_ok_live:
  assumes ok: "link_ok budget l" and mark: "wc_no_mark (pc_writer c) = NoMark"
  shows "link_ok budget (deliver_live c budget i x l)"
proof (cases "jget (lk_subs l) i")
  case (Some e)
  show ?thesis
  proof (cases rule: encode_notice_cases [OF ok mark, of i e "NEnvelope (se_next e) x" "MarkLive i (se_next e)",
        case_names refused item])
    case (item d)
    let ?e = "e\<lparr>se_queue := se_queue e @ [d], se_bytes := se_bytes e + dl_bytes d, se_next := Suc (se_next e)\<rparr>"
    have "entry_ok budget i ?e" if "entry_ok budget i e"
      using that item by (auto simp: entry_ok_defs queue_base_def item_bytes_def has_item_def live_item_def
          split: option.splits)
    with Some item show ?thesis
      by (simp add: deliver_live_def link_ok_wake link_ok_entry [OF ok Some])
  qed (use Some in \<open>simp add: deliver_live_def\<close>)
qed (use ok in \<open>simp add: deliver_live_def\<close>)

lemma link_ok_frame:
  assumes ok: "link_ok budget l" and mark: "wc_no_mark (pc_writer c) = NoMark"
  shows "link_ok budget (deliver_frame c budget i x l)"
proof (cases "jget (lk_subs l) i")
  case (Some e)
  show ?thesis
  proof (cases rule: encode_notice_cases [OF ok mark, of i e "NFrame x" NoMark, case_names refused item])
    case (item d)
    let ?e = "e\<lparr>se_queue := se_queue e @ [d], se_bytes := se_bytes e + dl_bytes d\<rparr>"
    have "entry_ok budget i ?e" if "entry_ok budget i e"
      using that item by (auto simp: entry_ok_defs queue_base_def item_bytes_def has_item_def live_item_def
          split: option.splits)
    with Some item ok show ?thesis
      by (simp add: deliver_frame_def link_ok_wake link_ok_entry [OF ok Some])
  qed (use Some ok in \<open>simp add: deliver_frame_def\<close>)
qed (use ok in \<open>simp add: deliver_frame_def\<close>)

lemma link_ok_replay_record:
  assumes ok: "link_ok budget l" and mark: "wc_no_mark (pc_writer c) = NoMark"
    and e: "jget (lk_subs l) i = Some e" and "se_phase e = Reading" and "se_replaying e"
  shows "link_ok budget (replay_record c budget i e q x l)"
proof (cases "q = Suc (se_through e)")
  case True
  show ?thesis
  proof (cases rule: encode_notice_cases [OF ok mark, of i e "NEnvelope q x" "MarkReplay i q",
        case_names refused item])
    case (item d)
    let ?e = "e\<lparr>se_phase := NotReading, se_replay_item := Some d, se_bytes := se_bytes e + dl_bytes d\<rparr>"
    have "entry_ok budget i ?e" if "entry_ok budget i e"
      using that item True assms(4,5)
      by (auto simp: entry_ok_defs queue_base_def item_bytes_def has_item_def split: option.splits)
    with item True show ?thesis
      by (simp add: replay_record_def link_ok_wake link_ok_entry [OF ok e])
  qed (use True in \<open>simp add: replay_record_def\<close>)
qed (simp add: replay_record_def link_ok_gap [OF ok mark])

lemma link_ok_reads:
  assumes ok: "link_ok budget l" and mark: "wc_no_mark (pc_writer c) = NoMark"
  shows "link_ok budget (flush_done c i b l)" and "link_ok budget (read_done c budget owned i r l)"
proof -
  have entry: "entry_ok budget i e" if "jget (lk_subs l) i = Some e" for e
    using entry_open [OF ok that] by blast
  show "link_ok budget (flush_done c i b l)"
  proof (cases "jget (lk_subs l) i")
    case (Some e)
    have "entry_ok budget i (e\<lparr>se_flushed := True, se_phase := Reading\<rparr>)" if "se_phase e = Flushing"
      using entry [OF Some] that
      by (auto simp: entry_ok_defs queue_base_def item_bytes_def has_item_def split: option.splits)
    with Some ok show ?thesis
      by (simp add: flush_done_def link_ok_gap [OF ok mark] link_ok_entry [OF ok Some])
  qed (use ok in \<open>simp add: flush_done_def\<close>)
  show "link_ok budget (read_done c budget owned i r l)"
  proof (cases "jget (lk_subs l) i")
    case (Some e)
    have "se_replaying e" if "se_phase e = Reading"
      using entry [OF Some] that by (auto simp: entry_ok_defs)
    with Some ok show ?thesis
      by (cases r) (simp_all add: read_done_def link_ok_gap [OF ok mark] link_ok_retire [OF ok]
          link_ok_replay_record [OF ok mark Some])
  qed (use ok in \<open>simp add: read_done_def\<close>)
qed

lemma new_entry_ok: "entry_ok budget i (new_entry session owner from_seq last_seq)"
  by (auto simp: entry_ok_defs new_entry_def queue_base_def item_bytes_def has_item_def)

lemma new_entry_start:
  "se_through (new_entry session owner from_seq last_seq) = from_seq"
  "se_credit (new_entry session owner from_seq last_seq) = 0"
  by (simp_all add: new_entry_def)

lemma link_ok_subscribe:
  assumes ok: "link_ok budget l" and "\<not> jhas (lk_from l) i" and "\<not> pe_stopped (lk_peer l)"
  shows "link_ok budget (snd (subscribe_link i session owner from_seq found l))"
proof -
  have "strands budget (jset (lk_from l) i from_seq) (jset (lk_granted l) i 0)
      (add_source i (writer_of l)) (jset (lk_subs l) i (new_entry session owner from_seq last_seq))" for last_seq
    by (rule strands_update [OF link_okD(1) [OF ok], where i = i and xs = "[]"])
      (use assms(2) strandsD [OF link_okD(1) [OF ok], of i] strands_marks [OF link_okD(1) [OF ok]] in
        \<open>simp_all add: add_source_def jhas_def strand_ok_def new_entry_ok open_strand_def new_entry_start\<close>)
  with ok assms(3) show ?thesis
    by (auto simp: subscribe_link_def link_ok_def on_writer_def split: option.splits)
qed

lemma link_ok_credit:
  assumes ok: "link_ok budget l" and "0 < n"
  shows "link_ok budget (snd (credit owned i who n l))"
proof (cases "find_sub owned i who l")
  case (Inr e)
  then have e: "jget (lk_subs l) i = Some e"
    by (auto simp: find_sub_def split: option.splits if_splits)
  let ?e = "e\<lparr>se_credit := se_credit e + n\<rparr>" and ?g = "the (jget (lk_granted l) i) + n"
  obtain f where f: "jget (lk_from l) i = Some f" "entry_ok budget i e"
    "open_strand f (the (jget (lk_granted l) i)) e (received i l) []"
    "notices i (map dl_line (wr_controls (writer_of l))) = []"
    by (rule entry_open [OF ok e])
  then have "entry_ok budget i ?e" "open_strand f ?g ?e (received i l) []"
    using assms(2)
    by (auto simp: entry_ok_defs queue_base_def item_bytes_def has_item_def open_strand_def split: option.splits)
  then have "strands budget (lk_from l) (jset (lk_granted l) i ?g) (writer_of l) (jset (lk_subs l) i ?e)"
    by (intro strands_update [OF link_okD(1) [OF ok], where i = i and xs = "[]"])
      (use f strands_marks [OF link_okD(1) [OF ok]] in \<open>simp_all add: strand_ok_def received_def\<close>)
  with link_ok_open [OF ok e]
  have "link_ok budget (l\<lparr>lk_subs := jset (lk_subs l) i ?e, lk_granted := jset (lk_granted l) i ?g\<rparr>)"
    by (simp add: link_ok_def)
  with Inr ok show ?thesis by (simp add: credit_def link_ok_wake)
qed (use ok in \<open>simp add: credit_def\<close>)

lemma link_ok_pump:
  assumes ok: "link_ok budget l" and turn: "pump_turn c sub_next sub_delivered took (lk_peer l) (lk_subs l) = (p, ss)"
  shows "link_ok budget (close_stopped (l\<lparr>lk_peer := p, lk_subs := ss\<rparr>))"
proof (cases "wr_scheduled (writer_of l)")
  case True
  let ?w = "(writer_of l)\<lparr>wr_scheduled := False\<rparr>"
  have strands: "strands budget (lk_from l) (lk_granted l) ?w (lk_subs l)"
    by (rule strands_same [OF link_okD(1) [OF ok]]) simp_all
  show ?thesis
  proof (cases "wr_stopped ?w \<or> wr_blocked ?w")
    case idle: True
    with True turn have "p = (lk_peer l)\<lparr>pe_writer := ?w\<rparr>" "ss = lk_subs l"
      by (auto simp: pump_turn_def pump_def on_fault_def Let_def)
    with ok strands show ?thesis by (intro link_ok_peer) (auto simp: link_ok_def)
  next
    case False
    obtain f w' ss' where batch:
      "pump_batch (pc_writer c) sub_next sub_delivered took 32 ?w (lk_subs l) = (f, w', ss')"
      by (cases rule: prod_cases3)
    from pump_batch_strands [OF strands, of "pc_writer c" took 32] False
    have post: "case f of None \<Rightarrow> strands budget (lk_from l) (lk_granted l) w' ss'
        | Some r \<Rightarrow> wr_stopped w' \<and> strands budget (lk_from l) (lk_granted l) w' []"
      by (simp add: batch)
    have run: "\<not> pe_stopped (lk_peer l)" using ok False by (auto simp: link_ok_def)
    from True turn False have p: "p = on_fault (f, w') (lk_peer l)" "ss = ss'"
      by (simp_all add: pump_turn_def pump_def Let_def batch)
    show ?thesis
    proof (cases f)
      case None
      with p post run show ?thesis by (intro link_ok_peer) (simp add: on_fault_def)
    next
      case (Some r)
      with post have "strands budget (lk_from l) (lk_granted l) w' []" by simp
      with p Some run show ?thesis
        by (simp add: on_fault_def link_ok_stop [where w = w' and p = "(lk_peer l)\<lparr>pe_writer := w'\<rparr>"])
    qed
  qed
next
  case False
  with turn have "p = lk_peer l" "ss = lk_subs l" by (simp_all add: pump_turn_def)
  with ok show ?thesis by (simp add: link_ok_closed_id [OF ok])
qed

lemma link_ok_peer_turn:
  assumes ok: "link_ok budget l" and mark: "wc_no_mark (pc_writer c) = NoMark"
  shows "link_ok budget (peer_turn c ev l)"
proof -
  obtain p ss where step: "peer_step c sub_next sub_delivered ev (lk_peer l, lk_subs l) = (p, ss)" by force
  consider "foreign_event ev" | took where "ev = PumpTurn took" | "\<not> foreign_event ev" "\<not> pump_event ev"
    by (cases ev) auto
  then show ?thesis
  proof cases
    case 1
    with ok show ?thesis by (simp add: peer_turn_def)
  next
    case 2
    with step link_ok_pump [OF ok, of c took p ss] show ?thesis by (simp add: peer_turn_def peer_step_def)
  next
    case 3
    have "only_appends NoMark (writer_of l) p \<and> ss = lk_subs l"
      using peer_only_appends [OF link_ok_only_appends [OF ok] 3(2,1), of c sub_next sub_delivered "lk_subs l"]
        step mark
      by simp
    with 3 step link_ok_appended [OF ok, of p] show ?thesis by (simp add: peer_turn_def)
  qed
qed

lemma link_ok_step:
  assumes ok: "link_ok budget l" and mark: "wc_no_mark (pc_writer c) = NoMark"
  shows "link_ok budget (link_step c budget owned ev l)"
proof (cases ev)
  case (UnsubscribeRequest i who)
  with ok show ?thesis
    by (simp add: link_step_def unsubscribe_link_def link_ok_retire split: sum.splits)
qed (use assms in \<open>simp_all add: link_step_def link_ok_peer_turn link_ok_subscribe link_ok_credit link_ok_live
      link_ok_frame link_ok_core_gap link_ok_retire link_ok_reads\<close>)

lemma link_ok_new: "link_ok budget (new_link now)"
  by (simp add: link_ok_def new_link_def new_peer_def new_writer_def strands_def strand_ok_def written_lines_def)

lemma link_ok_run: "link_ok budget (link_run c budget owned evs now)"
proof -
  have "link_ok budget (fold (link_step (link_config_of c) budget owned) evs l)" if "link_ok budget l" for l
    using that
    by (induction evs arbitrary: l) (simp_all add: link_ok_step link_config_of_def)
  then show ?thesis by (simp add: link_run_def link_ok_new)
qed


end
