(* ===== verification/Runtime_Server.thy ===== *)
theory Runtime_Server
  imports Rpc_Values Uploads Workspaces
begin

text \<open>
  The standalone runtime (\<open>src/agent-console/runtime/server.ts\<close>): what it accepts as its options,
  how it turns a request into a call of the session core, the handles of its uploads, the chunked
  reading of stored output, and its start and end. The core, the stores and the provider registry
  are called as the other components model them; here are the decisions the runtime itself makes.
  \<open>path.isAbsolute\<close>, \<open>realpathSync\<close> and the base64 decoder are parameters.
\<close>

section \<open>The options of a runtime\<close>

datatype storage_kind = FsStorage | MemoryStorage

record runtime_options =
  ro_storage :: storage_kind
  ro_root :: string
  ro_roots :: "string list"
  ro_include_raw :: bool
  ro_stream_deltas :: bool
  ro_terse :: bool
  ro_live_per_workspace :: int
  ro_caps :: caps
  ro_host_timeout_ms :: int
  ro_host_methods :: "string list"
  ro_stdout_line_bytes :: int

text \<open>\<open>/^1\.[0-9]+(?:\.[0-9]+)?$/\<close>\<close>

definition all_digits :: "string \<Rightarrow> bool" where
  "all_digits s \<longleftrightarrow> s \<noteq> [] \<and> list_all (\<lambda>c. c \<in> set ''0123456789'') s"

definition version_accepted :: "string \<Rightarrow> bool" where
  "version_accepted v =
     (case split_on (CHR ''.'') v of
        [one, minor] \<Rightarrow> one = ''1'' \<and> all_digits minor
      | [one, minor, patch] \<Rightarrow> one = ''1'' \<and> all_digits minor \<and> all_digits patch
      | _ \<Rightarrow> False)"

definition host_create_methods :: "string list" where
  "host_create_methods = [''host.create.prepare'', ''host.create.commit'', ''host.create.abort'', ''host.create.status'']"

text \<open>All four callbacks are declared, or none.\<close>

definition host_methods_check :: "string list \<Rightarrow> (rpc_error, unit) result" where
  "host_methods_check methods =
     (if \<not> list_ex (\<lambda>m. m \<in> set methods) host_create_methods then Inr ()
      else if list_ex (\<lambda>m. m \<notin> set methods) host_create_methods
      then Inl (invalid_params ''Declare all four host create methods together'')
      else Inr ())"

definition object_param :: "wire_object \<Rightarrow> string \<Rightarrow> (rpc_error, wire_object) result" where
  "object_param p key = as_object (case field p key None of None \<Rightarrow> WObj [] | Some v \<Rightarrow> v)"

definition required_object :: "wire_object \<Rightarrow> string \<Rightarrow> (rpc_error, wire_object) result" where
  "required_object p key = as_object (case jget p key of None \<Rightarrow> WNull | Some v \<Rightarrow> v)"

definition cap_param :: "wire_object \<Rightarrow> string \<Rightarrow> int \<Rightarrow> int \<Rightarrow> (rpc_error, nat) result" where
  "cap_param p key fallback hi = and_then (integer_param p key (Some fallback) hi 1) (\<lambda>i. Inr (nat i))"

definition parse_caps :: "wire_object \<Rightarrow> (rpc_error, caps) result" where
  "parse_caps p =
     and_then (cap_param p ''ringCapacity'' 2000 1000000) (\<lambda>ring.
     and_then (cap_param p ''toolResultBytes'' 16384 (1024 * 1024)) (\<lambda>tool.
     and_then (cap_param p ''subscriberQueueHighWater'' 256 100000) (\<lambda>queue.
     and_then (cap_param p ''auditPageMax'' 1000 10000) (\<lambda>audit.
     and_then (cap_param p ''standingRuleBytes'' 4096 1000000) (\<lambda>rule.
     and_then (cap_param p ''attachmentBytes'' (10 * 1024 * 1024) (1024 ^ 3)) (\<lambda>attachment.
     and_then (cap_param p ''attachmentCount'' 10 1000) (\<lambda>n.
     and_then (cap_param p ''sessionToolOutputBytes'' (256 * 1024 * 1024) safe_integer_bound) (\<lambda>output.
     and_then (cap_param p ''permissionReasonBytes'' 4096 1000000) (\<lambda>reason.
       Inr \<lparr>ring_capacity = ring, tool_result_bytes = tool, subscriber_queue_high_water = queue,
            audit_page_max = audit, standing_rule_bytes = rule, attachment_bytes = attachment,
            attachment_count = n, session_tool_output_bytes = output, permission_reason_bytes = reason\<rparr>)))))))))"

text \<open>
  The handshake's parameters. \<open>absolute\<close> is \<open>path.isAbsolute\<close>, \<open>resolve\<close> the native realpath, without
  its extended prefix, which may throw.
\<close>

definition resolve_roots :: "(string \<Rightarrow> string option) \<Rightarrow> string list \<Rightarrow> (rpc_error, string list) result" where
  "resolve_roots resolve roots =
     (if list_all (\<lambda>r. resolve r \<noteq> None) roots then Inr (map (the \<circ> resolve) roots)
      else Inl (invalid_params ''Workspace roots must resolve to existing paths''))"

definition storage_of :: "string \<Rightarrow> storage_kind" where
  "storage_of kind = (if kind = ''fs'' then FsStorage else MemoryStorage)"

definition parse_hello ::
  "(string \<Rightarrow> bool) \<Rightarrow> (string \<Rightarrow> string option) \<Rightarrow> wire \<Rightarrow> (rpc_error, runtime_options) result" where
  "parse_hello absolute resolve params =
     and_then (as_object params) (\<lambda>p.
     and_then (text_param p ''version'' None) (\<lambda>version.
       if \<not> version_accepted version then Inl (application_error ''protocol_version_mismatch'' None)
       else
         and_then (required_object p ''storage'') (\<lambda>storage.
         and_then (choice_param storage ''kind'' [''fs'', ''memory''] None) (\<lambda>kind.
         and_then (text_param storage ''root'' None) (\<lambda>root.
         and_then (strings_param p ''workspaceRoots'' None) (\<lambda>roots.
           if \<not> absolute root \<or> roots = [] \<or> list_ex (\<lambda>r. \<not> absolute r) roots
           then Inl (invalid_params ''Absolute storage root and workspace roots required'')
           else
             and_then (resolve_roots resolve roots) (\<lambda>resolved.
             and_then (object_param p ''options'') (\<lambda>settings.
             and_then (object_param settings ''caps'') (\<lambda>caps.
             and_then (bool_param settings ''includeRaw'' False) (\<lambda>raw.
             and_then (bool_param settings ''streamDeltas'' False) (\<lambda>deltas.
             and_then (integer_param settings ''maxLiveSessionsPerWorkspace'' (Some 1) 1000 1) (\<lambda>live.
             and_then (parse_caps caps) (\<lambda>cs.
             and_then (integer_param settings ''hostAttemptTimeoutMs'' (Some 30000) 300000 1) (\<lambda>timeout.
             and_then (strings_param p ''hostMethods'' (Some [])) (\<lambda>methods.
             and_then (host_methods_check methods) (\<lambda>_.
             and_then (integer_param settings ''providerStdoutLineBytes'' (Some (64 * 1024 * 1024)) (1024 ^ 3) 1)
               (\<lambda>line.
               Inr \<lparr>ro_storage = storage_of kind, ro_root = root, ro_roots = resolved, ro_include_raw = raw,
                    ro_stream_deltas = deltas, ro_terse = (jget settings ''outputMode'' = Some (WStr ''terse'')),
                    ro_live_per_workspace = live, ro_caps = cs, ro_host_timeout_ms = timeout,
                    ro_host_methods = methods, ro_stdout_line_bytes = line\<rparr>)))))))))))))))))"

text \<open>What an accepted handshake fixes: every bound is inside its range.\<close>

definition between :: "int \<Rightarrow> int \<Rightarrow> int \<Rightarrow> bool" where
  "between lo hi i \<longleftrightarrow> lo \<le> i \<and> i \<le> hi"

definition caps_in_range :: "caps \<Rightarrow> bool" where
  "caps_in_range c \<longleftrightarrow>
     between 1 1000000 (int (ring_capacity c)) \<and> between 1 (1024 * 1024) (int (tool_result_bytes c)) \<and>
     between 1 100000 (int (subscriber_queue_high_water c)) \<and> between 1 10000 (int (audit_page_max c)) \<and>
     between 1 1000000 (int (standing_rule_bytes c)) \<and> between 1 (1024 ^ 3) (int (attachment_bytes c)) \<and>
     between 1 1000 (int (attachment_count c)) \<and>
     between 1 safe_integer_bound (int (session_tool_output_bytes c)) \<and>
     between 1 1000000 (int (permission_reason_bytes c))"

definition options_typed :: "(string \<Rightarrow> bool) \<Rightarrow> runtime_options \<Rightarrow> bool" where
  "options_typed absolute r \<longleftrightarrow>
     absolute (ro_root r) \<and> ro_roots r \<noteq> [] \<and> caps_in_range (ro_caps r) \<and>
     between 1 1000 (ro_live_per_workspace r) \<and> between 1 300000 (ro_host_timeout_ms r) \<and>
     between 1 (1024 ^ 3) (ro_stdout_line_bytes r) \<and>
     (set host_create_methods \<subseteq> set (ro_host_methods r) \<or> set host_create_methods \<inter> set (ro_host_methods r) = {})"

lemma cap_param_range: "cap_param p key fallback hi = Inr n \<Longrightarrow> between 1 hi (int n)"
  by (auto simp: cap_param_def and_then_Inr between_def dest!: integer_param_range)

lemma parse_caps_in_range: "parse_caps p = Inr c \<Longrightarrow> caps_in_range c"
  by (auto simp: parse_caps_def and_then_Inr caps_in_range_def dest!: cap_param_range)

lemma host_methods_all_or_none:
  "host_methods_check ms = Inr u \<Longrightarrow>
   set host_create_methods \<subseteq> set ms \<or> set host_create_methods \<inter> set ms = {}"
  by (auto simp: host_methods_check_def list_ex_iff split: if_splits)

lemma integer_param_between: "integer_param p key fallback hi lo = Inr i \<Longrightarrow> between lo hi i"
  by (auto simp: between_def dest: integer_param_range)

lemma resolve_roots_nonempty: "resolve_roots resolve roots = Inr rs \<Longrightarrow> roots \<noteq> [] \<Longrightarrow> rs \<noteq> []"
  by (auto simp: resolve_roots_def split: if_splits)

text \<open>
  C32: Whatever value the parent sends as its handshake, the options of a runtime that accepts it are of
  their types and within their ranges: the storage root is absolute, there is a workspace root,
  every cap is at least one and at most its limit, and the four callbacks of a create are declared
  together or not at all.
\<close>

theorem accepted_options_typed:
  assumes "parse_hello absolute resolve params = Inr r"
  shows "options_typed absolute r"
proof -
  from assms obtain p settings storage roots resolved caps_object methods u where
    "resolve_roots resolve roots = Inr resolved" "roots \<noteq> []" "absolute (ro_root r)" "ro_roots r = resolved"
    "parse_caps caps_object = Inr (ro_caps r)" "host_methods_check (ro_host_methods r) = Inr u"
    "integer_param settings ''maxLiveSessionsPerWorkspace'' (Some 1) 1000 1 = Inr (ro_live_per_workspace r)"
    "integer_param settings ''hostAttemptTimeoutMs'' (Some 30000) 300000 1 = Inr (ro_host_timeout_ms r)"
    "integer_param settings ''providerStdoutLineBytes'' (Some (64 * 1024 * 1024)) (1024 ^ 3) 1 =
       Inr (ro_stdout_line_bytes r)"
    by (auto simp: parse_hello_def and_then_Inr split: if_splits)
  then show ?thesis
    using resolve_roots_nonempty parse_caps_in_range host_methods_all_or_none integer_param_between
    unfolding options_typed_def by blast
qed

definition example_hello :: wire where
  "example_hello =
     WObj [(''version'', WStr ''1.0.0''),
       (''storage'', WObj [(''kind'', WStr ''fs''), (''root'', WStr ''/state'')]),
       (''workspaceRoots'', WArr [WStr ''/work'']),
       (''options'', WObj [(''caps'', WObj [(''ringCapacity'', WNum (Whole 50))])])]"

theorem accepted_options_typed_witness:
  "\<exists>r. parse_hello (\<lambda>s. hd s = CHR ''/'') Some example_hello = Inr r \<and>
       options_typed (\<lambda>s. hd s = CHR ''/'') r \<and> ring_capacity (ro_caps r) = 50"
proof -
  have "\<exists>r. parse_hello (\<lambda>s. hd s = CHR ''/'') Some example_hello = Inr r \<and> ring_capacity (ro_caps r) = 50"
    by (simp add: parse_hello_def example_hello_def as_object_def text_param_def field_def jget_def
        version_accepted_def all_digits_def required_object_def choice_param_def strings_param_def
        resolve_roots_def object_param_def bool_param_def integer_param_def safe_integer_def
        safe_integer_bound_def parse_caps_def cap_param_def host_methods_check_def host_create_methods_def)
  with accepted_options_typed [of "\<lambda>s. hd s = CHR ''/''" Some example_hello] show ?thesis by blast
qed

section \<open>Requests\<close>

text \<open>
  What a request comes to, once its parameters are read: a call of the core, of its administration,
  of the provider registry, of the subscriptions or of the upload handles.
\<close>

datatype runtime_call =
    ProvidersList
  | ProvidersRefresh
  | SessionsCreate string string string "string option" "string option" wire
  | SessionsList string "string option" int
  | SessionsGet string string
  | SessionsEnd string string
  | SessionsRemove string string
  | TurnsSend string string "string list" string "string option"
  | TurnsInterrupt string string string
  | PermissionsRespond string string string string string "string option" "string option"
  | EventsSubscribe string string int
  | EventsUnsubscribe string string
  | EventsCredit string string int
  | EventsRead string string int int
  | EventsAppend string string string wire_object
  | AttachmentsBegin string string string int string
  | AttachmentsWrite string string int "byte list"
  | AttachmentsCommit string string
  | AttachmentsAbort string string
  | ToolOutputRead string string string string int int
  | AttachmentsRead string string string string int int
  | CheckpointsList string string
  | CheckpointsRestore string string string
  | AdminSnapshot string
  | AdminRemove string
  | AdminReassign string string
  | AdminList "string option" "string option" int
  | AdminAudit "string option" int "string option" "string option" "string option" "string option" bool

text \<open>\<open>/^x-[a-z][a-z0-9-]*\.[a-zA-Z0-9_.-]+$/\<close>: the namespace ends at the first full stop.\<close>

definition lower_letters :: string where
  "lower_letters = ''abcdefghijklmnopqrstuvwxyz''"

definition upper_letters :: string where
  "upper_letters = ''ABCDEFGHIJKLMNOPQRSTUVWXYZ''"

definition decimal_digits :: string where
  "decimal_digits = ''0123456789''"

definition host_event_kind :: "string \<Rightarrow> bool" where
  "host_event_kind kind =
     (case kind of
        x # d # rest \<Rightarrow>
          (let ns = takeWhile (\<lambda>c. c \<noteq> CHR ''.'') rest; name = drop (Suc (length ns)) rest
           in x = CHR ''x'' \<and> d = CHR ''-'' \<and> ns \<noteq> [] \<and> hd ns \<in> set lower_letters \<and>
              list_all (\<lambda>c. c \<in> set (lower_letters @ decimal_digits @ ''-'')) (tl ns) \<and>
              length ns < length rest \<and> name \<noteq> [] \<and>
              list_all (\<lambda>c. c \<in> set (lower_letters @ upper_letters @ decimal_digits @ ''_.-'')) name)
      | _ \<Rightarrow> False)"

definition session_of :: "wire_object \<Rightarrow> (rpc_error, string) result" where
  "session_of p = text_param p ''sessionId'' None"

definition principal_of :: "wire_object \<Rightarrow> (rpc_error, string) result" where
  "principal_of p = text_param p ''principal'' None"

definition with_session :: "(string \<Rightarrow> string \<Rightarrow> 'a) \<Rightarrow> wire_object \<Rightarrow> (rpc_error, 'a) result" where
  "with_session f p = and_then (session_of p) (\<lambda>i. and_then (principal_of p) (\<lambda>who. Inr (f i who)))"

definition sandbox_param :: "wire_object \<Rightarrow> (rpc_error, string option) result" where
  "sandbox_param p =
     (if field p ''sandbox'' None = None then Inr None
      else and_then (choice_param p ''sandbox'' [''read-only'', ''workspace-write'', ''unrestricted''] None)
             (\<lambda>s. Inr (Some s)))"

definition chunk_window :: "wire_object \<Rightarrow> (rpc_error, int \<times> int) result" where
  "chunk_window p =
     and_then (integer_param p ''offset'' None safe_integer_bound 0) (\<lambda>offset.
     and_then (integer_param p ''length'' None (256 * 1024) 1) (\<lambda>len. Inr (offset, len)))"

definition page_limit :: "wire_object \<Rightarrow> (rpc_error, int) result" where
  "page_limit p = integer_param p ''limit'' (Some 100) 1000 1"

text \<open>
  A request may be refused by the core or by the upload handles between two of its parameters: an
  upload that is not the caller's before the text of a message is read, a session that is not
  shown before the limit of a read. These refusals are the arguments of the parsers.
\<close>

record request_checks =
  rc_uploads :: "string \<Rightarrow> string \<Rightarrow> string list \<Rightarrow> (rpc_error, unit) result"
  rc_upload :: "string \<Rightarrow> string \<Rightarrow> (rpc_error, unit) result"
  rc_session :: "string \<Rightarrow> string \<Rightarrow> (rpc_error, unit) result"

text \<open>
  \<open>dispatch\<close>, the reading of the parameters of each method, in the order the code evaluates them.
  The requests on sessions and turns first.
\<close>

definition parse_session_request ::
  "request_checks \<Rightarrow> string \<Rightarrow> wire_object \<Rightarrow> (rpc_error, runtime_call) result option" where
  "parse_session_request k method p =
     (if method = ''sessions.create'' then Some
        (and_then (principal_of p) (\<lambda>who.
         and_then (text_param p ''provider'' None) (\<lambda>provider.
         and_then (text_param p ''cwd'' None) (\<lambda>cwd.
         and_then (optional_text p ''model'') (\<lambda>model.
         and_then (sandbox_param p) (\<lambda>sandbox.
           Inr (SessionsCreate who provider cwd model sandbox
             (case field p ''input'' None of None \<Rightarrow> WNull | Some v \<Rightarrow> v))))))))
      else if method = ''sessions.list'' then Some
        (and_then (principal_of p) (\<lambda>who.
         and_then (optional_text p ''cursor'') (\<lambda>cursor.
         and_then (page_limit p) (\<lambda>limit. Inr (SessionsList who cursor limit)))))
      else if method = ''sessions.get'' then Some (with_session SessionsGet p)
      else if method = ''sessions.end'' then Some (with_session SessionsEnd p)
      else if method = ''sessions.remove'' then Some (with_session SessionsRemove p)
      else if method = ''turns.send'' then Some
        (and_then (session_of p) (\<lambda>i.
         and_then (principal_of p) (\<lambda>who.
         and_then (strings_param p ''uploads'' (Some [])) (\<lambda>uploads.
         and_then (rc_uploads k i who uploads) (\<lambda>_.
         and_then (text_param p ''text'' None) (\<lambda>txt.
         and_then (optional_text p ''model'') (\<lambda>model. Inr (TurnsSend i who uploads txt model))))))))
      else if method = ''turns.interrupt'' then Some
        (and_then (session_of p) (\<lambda>i.
         and_then (principal_of p) (\<lambda>who.
         and_then (text_param p ''turnId'' None) (\<lambda>turn. Inr (TurnsInterrupt i who turn)))))
      else if method = ''permissions.respond'' then Some
        (and_then (session_of p) (\<lambda>i.
         and_then (principal_of p) (\<lambda>who.
         and_then (text_param p ''requestId'' None) (\<lambda>request.
         and_then (choice_param p ''decision'' [''allow'', ''deny''] None) (\<lambda>decision.
         and_then (choice_param p ''scope'' [''once'', ''always''] (Some ''once'')) (\<lambda>scope.
         and_then (optional_text p ''rule'') (\<lambda>rule.
         and_then (optional_text p ''reason'') (\<lambda>reason.
           Inr (PermissionsRespond i who request decision scope rule reason)))))))))
      else None)"

definition parse_event_request ::
  "request_checks \<Rightarrow> string \<Rightarrow> wire_object \<Rightarrow> (rpc_error, runtime_call) result option" where
  "parse_event_request k method p =
     (if method = ''events.subscribe'' then Some
        (and_then (session_of p) (\<lambda>i.
         and_then (principal_of p) (\<lambda>who.
         and_then (integer_param p ''fromSeq'' (Some 0) safe_integer_bound 0) (\<lambda>q.
           Inr (EventsSubscribe i who q)))))
      else if method = ''events.unsubscribe'' then Some
        (and_then (text_param p ''subscriptionId'' None) (\<lambda>sub.
         and_then (principal_of p) (\<lambda>who. Inr (EventsUnsubscribe sub who))))
      else if method = ''events.credit'' then Some
        (and_then (text_param p ''subscriptionId'' None) (\<lambda>sub.
         and_then (principal_of p) (\<lambda>who.
         and_then (integer_param p ''count'' None safe_integer_bound 1) (\<lambda>n. Inr (EventsCredit sub who n)))))
      else if method = ''events.read'' then Some
        (and_then (session_of p) (\<lambda>i.
         and_then (principal_of p) (\<lambda>who.
         and_then (rc_session k i who) (\<lambda>_.
         and_then (page_limit p) (\<lambda>limit.
         and_then (integer_param p ''fromSeq'' (Some 0) safe_integer_bound 0) (\<lambda>q.
           Inr (EventsRead i who limit q)))))))
      else if method = ''events.append'' then Some
        (and_then (text_param p ''kind'' None) (\<lambda>kind.
           if \<not> host_event_kind kind
           then Inl (invalid_params ''Host event kind must use x-namespace.name'')
           else
             and_then (session_of p) (\<lambda>i.
             and_then (principal_of p) (\<lambda>who.
             and_then (required_object p ''data'') (\<lambda>d. Inr (EventsAppend i who kind d))))))
      else None)"

text \<open>
  A chunk of an upload: at most 256 KiB in base64, checked before and after it is decoded.
  \<open>/^(?:[A-Za-z0-9+\/]{4})*(?:[A-Za-z0-9+\/]{2}==|[A-Za-z0-9+\/]{3}=)?$/\<close>
\<close>

definition base64_letters :: string where
  "base64_letters = upper_letters @ lower_letters @ decimal_digits @ ''+/''"

fun base64_shape :: "string \<Rightarrow> bool" where
  "base64_shape [] = True"
| "base64_shape (a # b # c # d # rest) =
     (a \<in> set base64_letters \<and> b \<in> set base64_letters \<and>
      (if d = CHR ''='' then rest = [] \<and> (c = CHR ''='' \<or> c \<in> set base64_letters)
       else c \<in> set base64_letters \<and> d \<in> set base64_letters \<and> base64_shape rest))"
| "base64_shape _ = False"

definition chunk_data :: "(string \<Rightarrow> byte list) \<Rightarrow> string \<Rightarrow> (rpc_error, byte list) result" where
  "chunk_data decode64 txt =
     (if (256 * 1024 + 2) div 3 * 4 < length txt \<or> \<not> base64_shape txt then Inl (invalid_params ''Invalid base64 chunk'')
      else
        (let content = decode64 txt
         in if chunk_limit < length content then Inl (invalid_params ''Chunk exceeds 256 KiB'') else Inr content))"

definition parse_upload_request ::
  "request_checks \<Rightarrow> (string \<Rightarrow> byte list) \<Rightarrow> string \<Rightarrow> wire_object
   \<Rightarrow> (rpc_error, runtime_call) result option" where
  "parse_upload_request k decode64 method p =
     (if method = ''attachments.begin'' then Some
        (and_then (session_of p) (\<lambda>i.
         and_then (principal_of p) (\<lambda>who.
         and_then (text_param p ''name'' None) (\<lambda>name.
         and_then (integer_param p ''size'' None safe_integer_bound 0) (\<lambda>sz.
         and_then (text_param p ''contentType'' (Some ''application/octet-stream'')) (\<lambda>media.
           Inr (AttachmentsBegin i who name sz media)))))))
      else if method = ''attachments.write'' then Some
        (and_then (text_param p ''uploadId'' None) (\<lambda>u.
         and_then (principal_of p) (\<lambda>who.
         and_then (rc_upload k u who) (\<lambda>_.
         and_then (text_param p ''data'' None) (\<lambda>txt.
         and_then (chunk_data decode64 txt) (\<lambda>content.
         and_then (integer_param p ''offset'' None safe_integer_bound 0) (\<lambda>offset.
           Inr (AttachmentsWrite u who offset content))))))))
      else if method = ''attachments.commit'' then Some
        (and_then (text_param p ''uploadId'' None) (\<lambda>u.
         and_then (principal_of p) (\<lambda>who.
         and_then (rc_upload k u who) (\<lambda>_. Inr (AttachmentsCommit u who)))))
      else if method = ''attachments.abort'' then Some
        (and_then (text_param p ''uploadId'' None) (\<lambda>u.
         and_then (principal_of p) (\<lambda>who.
         and_then (rc_upload k u who) (\<lambda>_. Inr (AttachmentsAbort u who)))))
      else if method = ''toolOutput.read'' then Some
        (and_then (session_of p) (\<lambda>i.
         and_then (principal_of p) (\<lambda>who.
         and_then (text_param p ''turnId'' None) (\<lambda>turn.
         and_then (chunk_window p) (\<lambda>(offset, len).
         and_then (text_param p ''callId'' None) (\<lambda>call.
           Inr (ToolOutputRead i who turn call offset len)))))))
      else if method = ''attachments.read'' then Some
        (and_then (session_of p) (\<lambda>i.
         and_then (principal_of p) (\<lambda>who.
         and_then (text_param p ''turnId'' None) (\<lambda>turn.
         and_then (chunk_window p) (\<lambda>(offset, len).
         and_then (text_param p ''attachmentId'' None) (\<lambda>a.
           Inr (AttachmentsRead i who turn a offset len)))))))
      else None)"

definition parse_admin_request ::
  "request_checks \<Rightarrow> string \<Rightarrow> wire_object \<Rightarrow> (rpc_error, runtime_call) result option" where
  "parse_admin_request k method p =
     (if method = ''checkpoints.list'' then Some (with_session CheckpointsList p)
      else if method = ''checkpoints.restore'' then Some
        (and_then (session_of p) (\<lambda>i.
         and_then (principal_of p) (\<lambda>who.
         and_then (text_param p ''sha'' None) (\<lambda>sha. Inr (CheckpointsRestore i who sha)))))
      else if method = ''admin.sessions.snapshot'' then Some (and_then (session_of p) (\<lambda>i. Inr (AdminSnapshot i)))
      else if method = ''admin.sessions.remove'' then Some (and_then (session_of p) (\<lambda>i. Inr (AdminRemove i)))
      else if method = ''admin.sessions.reassignPrincipal'' then Some (with_session AdminReassign p)
      else if method = ''admin.sessions.list'' then Some
        (and_then (optional_text p ''principal'') (\<lambda>who.
         and_then (optional_text p ''cursor'') (\<lambda>cursor.
         and_then (page_limit p) (\<lambda>limit. Inr (AdminList who cursor limit)))))
      else if method = ''admin.audit.read'' then Some
        (and_then (object_param p ''query'') (\<lambda>query.
         and_then (optional_text p ''cursor'') (\<lambda>cursor.
         and_then (page_limit p) (\<lambda>limit.
         and_then (optional_text query ''sessionId'') (\<lambda>i.
         and_then (optional_text query ''principal'') (\<lambda>who.
         and_then (optional_text query ''since'') (\<lambda>since.
         and_then (optional_text query ''until'') (\<lambda>til.
         and_then (bool_param query ''incidentsOnly'' False) (\<lambda>incidents.
           Inr (AdminAudit cursor limit i who since til incidents))))))))))
      else None)"

text \<open>
  The whole of \<open>dispatch\<close> up to the call: the handshake may come at any time, everything else only
  once it is done. \<open>ready\<close> says so, \<open>aborted\<close> that the request was cancelled.
\<close>

datatype dispatched = Handshake wire | Run runtime_call

definition dispatch_request ::
  "request_checks \<Rightarrow> (string \<Rightarrow> byte list) \<Rightarrow> bool \<Rightarrow> bool \<Rightarrow> string \<Rightarrow> wire \<Rightarrow> (rpc_error, dispatched) result"
where
  "dispatch_request k decode64 ready aborted method params =
     (if method = ''runtime.hello'' then Inr (Handshake params)
      else if \<not> ready then Inl (application_error ''not_initialized'' None)
      else
        and_then (as_object params) (\<lambda>p.
          if aborted then Inl (application_error ''cancelled'' None)
          else if method = ''providers.list'' then Inr (Run ProvidersList)
          else if method = ''providers.refresh'' then Inr (Run ProvidersRefresh)
          else
            (case parse_session_request k method p of
               Some r \<Rightarrow> and_then r (\<lambda>c. Inr (Run c))
             | None \<Rightarrow>
                 (case parse_event_request k method p of
                    Some r \<Rightarrow> and_then r (\<lambda>c. Inr (Run c))
                  | None \<Rightarrow>
                      (case parse_upload_request k decode64 method p of
                         Some r \<Rightarrow> and_then r (\<lambda>c. Inr (Run c))
                       | None \<Rightarrow>
                           (case parse_admin_request k method p of
                              Some r \<Rightarrow> and_then r (\<lambda>c. Inr (Run c))
                            | None \<Rightarrow> Inl (rpc_error_of (- 32601) ''Method not found'')))))))"

text \<open>A call is typed when its choices are among those it allows and its numbers in their ranges.\<close>

fun call_typed :: "runtime_call \<Rightarrow> bool" where
  "call_typed (SessionsCreate who provider cwd model sandbox d) =
     (sandbox \<in> {None, Some ''read-only'', Some ''workspace-write'', Some ''unrestricted''})"
| "call_typed (SessionsList who cursor limit) = between 1 1000 limit"
| "call_typed (PermissionsRespond i who request decision scope rule reason) =
     (decision \<in> {''allow'', ''deny''} \<and> scope \<in> {''once'', ''always''})"
| "call_typed (EventsSubscribe i who q) = between 0 safe_integer_bound q"
| "call_typed (EventsCredit sub who n) = between 1 safe_integer_bound n"
| "call_typed (EventsRead i who limit q) = (between 1 1000 limit \<and> between 0 safe_integer_bound q)"
| "call_typed (EventsAppend i who kind d) = host_event_kind kind"
| "call_typed (AttachmentsBegin i who name sz media) = between 0 safe_integer_bound sz"
| "call_typed (AttachmentsWrite u who offset content) =
     (between 0 safe_integer_bound offset \<and> length content \<le> chunk_limit)"
| "call_typed (ToolOutputRead i who turn call offset len) =
     (between 0 safe_integer_bound offset \<and> between 1 (256 * 1024) len)"
| "call_typed (AttachmentsRead i who turn a offset len) =
     (between 0 safe_integer_bound offset \<and> between 1 (256 * 1024) len)"
| "call_typed (AdminList who cursor limit) = between 1 1000 limit"
| "call_typed (AdminAudit cursor limit i who since til incidents) = between 1 1000 limit"
| "call_typed _ = True"

lemma page_limit_between: "page_limit p = Inr n \<Longrightarrow> between 1 1000 n"
  unfolding page_limit_def by (rule integer_param_between)

lemma chunk_window_between:
  "chunk_window p = Inr (offset, len) \<Longrightarrow> between 0 safe_integer_bound offset \<and> between 1 (256 * 1024) len"
  by (auto simp: chunk_window_def and_then_Inr dest: integer_param_between)

lemma chunk_data_bounded: "chunk_data d t = Inr content \<Longrightarrow> length content \<le> chunk_limit"
  by (auto simp: chunk_data_def Let_def split: if_splits)

lemma sandbox_param_choice:
  "sandbox_param p = Inr s \<Longrightarrow> s \<in> {None, Some ''read-only'', Some ''workspace-write'', Some ''unrestricted''}"
  by (auto simp: sandbox_param_def and_then_Inr dest!: choice_param_in split: if_splits)

lemma parsed_sessions_typed: "parse_session_request k m p = Some (Inr c) \<Longrightarrow> call_typed c"
  by (auto simp: parse_session_request_def and_then_Inr with_session_def
      dest!: page_limit_between sandbox_param_choice choice_param_in split: if_splits)

lemma parsed_events_typed: "parse_event_request k m p = Some (Inr c) \<Longrightarrow> call_typed c"
  by (auto simp: parse_event_request_def and_then_Inr
      dest!: page_limit_between integer_param_between split: if_splits)

lemma parsed_uploads_typed: "parse_upload_request k d m p = Some (Inr c) \<Longrightarrow> call_typed c"
  by (auto simp: parse_upload_request_def and_then_Inr
      dest!: chunk_window_between chunk_data_bounded integer_param_between split: if_splits)

lemma parsed_admin_typed: "parse_admin_request k m p = Some (Inr c) \<Longrightarrow> call_typed c"
  by (auto simp: parse_admin_request_def and_then_Inr with_session_def
      dest!: page_limit_between split: if_splits)

lemma dispatched_calls_typed:
  assumes "dispatch_request k d ready aborted method params = Inr (Run c)"
  shows "call_typed c" and "ready" and "\<not> aborted"
  using assms
  by (auto simp: dispatch_request_def and_then_Inr split: if_splits option.splits
      dest: parsed_sessions_typed parsed_events_typed parsed_uploads_typed parsed_admin_typed)

section \<open>Reading stored output in chunks\<close>

text \<open>
  \<open>bytes\<close>: the stream is skipped up to the offset and read until \<open>len\<close> bytes are there; reaching
  them is not taken for the end. \<open>skipped\<close> counts the bytes of the chunks seen so far.
\<close>

fun read_loop ::
  "nat \<Rightarrow> nat \<Rightarrow> byte list list \<Rightarrow> nat \<Rightarrow> byte list \<Rightarrow> byte list \<times> bool" where
  "read_loop offset len [] skipped acc = (acc, True)"
| "read_loop offset len (chunk # cs) skipped acc =
     (let start = offset - skipped
      in
        if length chunk \<le> start then read_loop offset len cs (skipped + length chunk) acc
        else
          (let acc' = acc @ take (len - length acc) (drop start chunk)
           in if length acc' = len then (acc', False) else read_loop offset len cs (skipped + length chunk) acc'))"

definition read_bytes :: "byte list list \<Rightarrow> nat \<Rightarrow> nat \<Rightarrow> byte list \<times> nat \<times> bool" where
  "read_bytes cs offset len =
     (let (d, eof) = read_loop offset len cs 0 [] in (d, offset + length d, eof))"

lemma read_loop_window:
  assumes "length acc < len" and "acc = [] \<or> offset \<le> skipped"
  shows "read_loop offset len cs skipped acc =
    (acc @ take (len - length acc) (drop (offset - skipped) (concat cs)),
     length (concat cs) - (offset - skipped) < len - length acc)"
  using assms
proof (induction offset len cs skipped acc rule: read_loop.induct)
  case (2 offset len chunk cs skipped acc)
  let ?start = "offset - skipped"
  show ?case
  proof (cases "length chunk \<le> ?start")
    case True
    with 2 show ?thesis by (auto simp: Let_def diff_diff_left)
  next
    case False
    let ?acc = "acc @ take (len - length acc) (drop ?start chunk)"
    have split: "drop ?start (concat (chunk # cs)) = drop ?start chunk @ concat cs" using False by simp
    show ?thesis
    proof (cases "length ?acc = len")
      case True
      with False 2(3) have "len - length acc \<le> length chunk - ?start" by auto
      with True False show ?thesis unfolding split by (simp add: Let_def)
    next
      case short: False
      with False 2(3) have less: "length chunk - ?start < len - length acc" by auto
      then have acc: "?acc = acc @ drop ?start chunk" by simp
      have "read_loop offset len cs (skipped + length chunk) ?acc =
          (?acc @ take (len - length ?acc) (drop (offset - (skipped + length chunk)) (concat cs)),
           length (concat cs) - (offset - (skipped + length chunk)) < len - length ?acc)"
        using False short less by (intro 2(2)) (auto simp: Let_def)
      with False short less show ?thesis unfolding split acc by (auto simp: Let_def) linarith+
    qed
  qed
qed simp

lemma read_bytes_window:
  "0 < len \<Longrightarrow> read_bytes cs offset len =
     (take len (drop offset (concat cs)), offset + length (take len (drop offset (concat cs))),
      length (concat cs) - offset < len)"
  by (simp add: read_bytes_def read_loop_window)

text \<open>
  A host that reads from the start and follows \<open>nextOffset\<close> until it is told of the end.
\<close>

fun read_through :: "nat \<Rightarrow> byte list list \<Rightarrow> nat \<Rightarrow> nat \<Rightarrow> byte list option" where
  "read_through 0 cs offset len = None"
| "read_through (Suc fuel) cs offset len =
     (case read_bytes cs offset len of
        (d, next_offset, eof) \<Rightarrow>
          if eof then Some d else map_option (append d) (read_through fuel cs next_offset len))"

lemma read_through_rest:
  "0 < len \<Longrightarrow> length (concat cs) - offset < fuel * len \<Longrightarrow>
   read_through fuel cs offset len = Some (drop offset (concat cs))"
proof (induction fuel arbitrary: offset)
  case (Suc fuel)
  show ?case
  proof (cases "length (concat cs) - offset < len")
    case True
    with Suc.prems(1) show ?thesis by (simp add: read_bytes_window)
  next
    case False
    with Suc.prems have "read_through fuel cs (offset + len) len = Some (drop (offset + len) (concat cs))"
      by (intro Suc.IH) auto
    with False Suc.prems(1) show ?thesis
      by (simp add: read_bytes_window min_def) (metis append_take_drop_id drop_drop add.commute)
  qed
qed simp

text \<open>
  Whatever the chunks of the stored stream, a host that reads it in windows of any size and follows
  the offsets it is given is told of the end after at most one read more than the windows that
  fill, and has then read exactly the stored bytes.
\<close>

theorem windows_read_the_whole:
  assumes "0 < len"
  shows "read_through (Suc (length (concat cs) div len)) cs 0 len = Some (concat cs)"
proof -
  have "length (concat cs) < Suc (length (concat cs) div len) * len"
    using assms by (metis dividend_less_div_times mult.commute mult_Suc_right add.commute mult_Suc)
  with assms read_through_rest [of len cs 0 "Suc (length (concat cs) div len)"] show ?thesis by simp
qed

theorem windows_read_the_whole_witness:
  "read_through 3 [[1, 2], [], [3, 4, 5]] 0 2 = Some [1, 2, 3, 4, 5]"
  using windows_read_the_whole [of 2 "[[1, 2], [], [3, 4, 5]]"] by (simp add: numeral_3_eq_3 del: read_through.simps)

section \<open>Upload handles\<close>

text \<open>
  The handles the runtime gives out, each for one upload of the core. A handle that is expired is
  dropped when it is asked for, or by a timer unless a write of its staging file is going on.
  \<open>shown\<close> is what the core answers about the session.
\<close>

record upload_handle =
  uh_session :: string
  uh_principal :: string
  uh_expires :: int
  uh_busy :: bool

type_synonym upload_handles = "(string, upload_handle) jmap"

definition handle_lifetime_ms :: int where
  "handle_lifetime_ms = 300000"

definition find_handle ::
  "int \<Rightarrow> (string \<Rightarrow> string \<Rightarrow> (rpc_error, unit) result) \<Rightarrow> string \<Rightarrow> string \<Rightarrow> upload_handles
   \<Rightarrow> (rpc_error, upload_handle) result \<times> upload_handles" where
  "find_handle now shown i who hs =
     (case jget hs i of
        None \<Rightarrow> (Inl (application_error ''not_found'' None), hs)
      | Some h \<Rightarrow>
          if uh_principal h \<noteq> who \<or> uh_expires h \<le> now
          then (Inl (application_error ''not_found'' None), if uh_expires h \<le> now then jdel hs i else hs)
          else
            (case shown (uh_session h) who of
               Inl e \<Rightarrow> (Inl e, hs)
             | Inr _ \<Rightarrow>
                 if uh_busy h
                 then (Inl (application_error ''bad_request'' (Some ''upload operation in progress'')), hs)
                 else (Inr h, hs)))"

definition open_handle :: "int \<Rightarrow> string \<Rightarrow> string \<Rightarrow> string \<Rightarrow> upload_handles \<Rightarrow> upload_handles" where
  "open_handle now session owner i hs =
     jset hs i \<lparr>uh_session = session, uh_principal = owner, uh_expires = now + handle_lifetime_ms, uh_busy = False\<rparr>"

definition set_busy :: "bool \<Rightarrow> string \<Rightarrow> upload_handles \<Rightarrow> upload_handles" where
  "set_busy b i hs = (case jget hs i of None \<Rightarrow> hs | Some h \<Rightarrow> jset hs i (h\<lparr>uh_busy := b\<rparr>))"

definition expire_handles :: "int \<Rightarrow> upload_handles \<Rightarrow> upload_handles" where
  "expire_handles now hs = filter (\<lambda>(i, h). \<not> (\<not> uh_busy h \<and> uh_expires h \<le> now)) hs"

text \<open>The check of a message's uploads, handle by handle: each must be of that very session.\<close>

fun check_uploads ::
  "int \<Rightarrow> (string \<Rightarrow> string \<Rightarrow> (rpc_error, unit) result) \<Rightarrow> string \<Rightarrow> string \<Rightarrow> string list \<Rightarrow> upload_handles
   \<Rightarrow> (rpc_error, unit) result \<times> upload_handles" where
  "check_uploads now shown session who [] hs = (Inr (), hs)"
| "check_uploads now shown session who (i # ids) hs =
     (case find_handle now shown i who hs of
        (Inl e, hs') \<Rightarrow> (Inl e, hs')
      | (Inr h, hs') \<Rightarrow>
          if uh_session h \<noteq> session then (Inl (application_error ''not_found'' None), hs')
          else check_uploads now shown session who ids hs')"

lemma find_handle_owned:
  "find_handle now shown i who hs = (Inr h, hs') \<Longrightarrow>
   jget hs i = Some h \<and> hs' = hs \<and> uh_principal h = who \<and> now < uh_expires h \<and> \<not> uh_busy h \<and>
   shown (uh_session h) who = Inr ()"
  by (auto simp: find_handle_def split: option.splits if_splits sum.splits)

lemma check_uploads_all:
  "check_uploads now shown session who ids hs = (Inr (), hs') \<Longrightarrow>
   hs' = hs \<and> list_all (\<lambda>i. \<exists>h. jget hs i = Some h \<and> uh_session h = session \<and> uh_principal h = who \<and> \<not> uh_busy h) ids"
  by (induction ids arbitrary: hs)
    (auto split: prod.splits sum.splits if_splits dest!: find_handle_owned)

lemma map_of_filter_keeps:
  "distinct (map fst m) \<Longrightarrow> map_of (filter P m) k = (case map_of m k of None \<Rightarrow> None | Some v \<Rightarrow> if P (k, v) then Some v else None)"
  by (induction m) (auto split: option.splits if_splits dest: map_of_SomeD simp: image_iff)

lemma expire_keeps_busy:
  "jmap_ok hs \<Longrightarrow> jget hs i = Some h \<Longrightarrow> uh_busy h \<Longrightarrow> jget (expire_handles now hs) i = Some h"
  by (simp add: expire_handles_def jget_def jmap_ok_def map_of_filter_keeps)

section \<open>Start and end\<close>

text \<open>
  The initialization after an accepted handshake, as its effects. \<open>stop1\<close> and \<open>stop2\<close> say whether
  the link has stopped when the store is open and when the core has booted.
\<close>

datatype start_effect = OpenStore | MakeCore | BootCore | RecoverUploads | StartServing | EndCore | EndStore | EndLease

record start_answers =
  sa_store :: bool
  sa_stop1 :: bool
  sa_boot :: bool
  sa_stop2 :: bool
  sa_uploads :: bool

definition start_runtime :: "start_answers \<Rightarrow> start_effect list \<times> (string, unit) result" where
  "start_runtime a =
     (if \<not> sa_store a then ([OpenStore], Inl ''store'')
      else if sa_stop1 a then ([OpenStore, MakeCore, EndCore, EndStore], Inl ''RuntimeTerminated'')
      else if \<not> sa_boot a then ([OpenStore, MakeCore, BootCore], Inl ''boot'')
      else if sa_stop2 a
      then ([OpenStore, MakeCore, BootCore, EndCore, EndLease, EndStore], Inl ''RuntimeTerminated'')
      else if \<not> sa_uploads a then ([OpenStore, MakeCore, BootCore, RecoverUploads], Inl ''storage'')
      else ([OpenStore, MakeCore, BootCore, RecoverUploads, StartServing], Inr ()))"

text \<open>
  The shutdown: the steps in their order, each with the time it takes or none when it never ends,
  under one deadline, and when the process is told to exit.
\<close>

datatype end_step = CoreShutdown | CoreFlush | RemoveUploads | StoreClose | LeaseRelease

definition shutdown_deadline_ms :: int where
  "shutdown_deadline_ms = 4900"

fun run_end_steps :: "int \<Rightarrow> (end_step \<times> int option) list \<Rightarrow> (int \<times> end_step) list \<times> int option" where
  "run_end_steps t [] = ([], Some t)"
| "run_end_steps t ((x, None) # xs) = ([(t, x)], None)"
| "run_end_steps t ((x, Some d) # xs) = (let (log, e) = run_end_steps (t + d) xs in ((t, x) # log, e))"

definition shutdown_runtime ::
  "bool \<Rightarrow> int option \<Rightarrow> int option \<Rightarrow> int option \<Rightarrow> int option \<Rightarrow> int option \<Rightarrow> ((int \<times> end_step) list \<times> int) option" where
  "shutdown_runtime stopped core flush uploads close lease =
     (if stopped then None
      else
        (let (log, e) = run_end_steps 0
               [(CoreShutdown, core), (CoreFlush, flush), (RemoveUploads, uploads), (StoreClose, close),
                (LeaseRelease, lease)]
         in Some (log, case e of None \<Rightarrow> shutdown_deadline_ms | Some t \<Rightarrow> min t shutdown_deadline_ms)))"

lemma runtime_exits_in_time:
  "shutdown_runtime stopped core flush uploads close lease = Some (log, t) \<Longrightarrow> t \<le> shutdown_deadline_ms"
  by (auto simp: shutdown_runtime_def split: if_splits option.splits prod.splits)

lemma serves_only_when_started: "snd (start_runtime a) = Inr () \<longleftrightarrow> StartServing \<in> set (fst (start_runtime a))"
  by (auto simp: start_runtime_def)

end
