(* ===== verification/Payroll.thy ===== *)
theory Payroll
  imports Vocabulary Complex_Main
begin

text \<open>
  The host's bookkeeping over a session's recorded envelopes: \<open>foldPayroll\<close>
  (\<open>src/session-manager/payroll.ts\<close>) with its token counts, its rows per turn and its idle time,
  and the budget notices (\<open>src/session-manager/budget.ts\<close>), which announce that a session has used
  up its tokens. Both read the recorded envelopes each time and keep no counters. Token counts and
  times are whole numbers; rates and the warning fraction are rationals, without the rounding of
  floating point.
\<close>

section \<open>Usage\<close>

definition no_usage :: usage where
  "no_usage = \<lparr>input_tokens = 0, output_tokens = 0, cache_read = 0, cache_create = 0\<rparr>"

definition add_usage :: "usage \<Rightarrow> usage \<Rightarrow> usage" where
  "add_usage a b =
     \<lparr>input_tokens = input_tokens a + input_tokens b, output_tokens = output_tokens a + output_tokens b,
      cache_read = cache_read a + cache_read b, cache_create = cache_create a + cache_create b\<rparr>"

definition total_tokens :: "usage \<Rightarrow> int" where
  "total_tokens u = input_tokens u + output_tokens u + cache_read u + cache_create u"

lemma add_usage_simps [simp]:
  "add_usage no_usage u = u" "add_usage u no_usage = u"
  "add_usage (add_usage a b) c = add_usage a (add_usage b c)"
  "total_tokens (add_usage a b) = total_tokens a + total_tokens b" "total_tokens no_usage = 0"
  by (cases u; simp add: add_usage_def no_usage_def total_tokens_def)+

lemma add_usage_commute: "add_usage a b = add_usage b a"
  by (simp add: add_usage_def)

section \<open>The fold\<close>

text \<open>
  The row of a turn, and the variables of the fold. A turn is keyed by the turn of its envelope;
  \<open>pf_cursor\<close> is where the open idle interval began.
\<close>

record turn_row =
  tr_usage :: usage
  tr_started :: iso_timestamp
  tr_ended :: "iso_timestamp option"

record payroll_fold =
  pf_burn :: usage
  pf_turns :: "(turn_id option, turn_row) jmap"
  pf_idle_ms :: int
  pf_dropped :: nat
  pf_restarted :: bool
  pf_usage_unavailable :: bool
  pf_cursor :: "iso_timestamp option"

definition payroll_start :: "iso_timestamp \<Rightarrow> payroll_fold" where
  "payroll_start created =
     \<lparr>pf_burn = no_usage, pf_turns = [], pf_idle_ms = 0, pf_dropped = 0, pf_restarted = False,
      pf_usage_unavailable = False, pf_cursor = Some created\<rparr>"

definition turn_at :: "turn_id option \<Rightarrow> iso_timestamp \<Rightarrow> (turn_id option, turn_row) jmap \<Rightarrow> turn_row" where
  "turn_at t now rows =
     (case jget rows t of
        Some r \<Rightarrow> r
      | None \<Rightarrow> \<lparr>tr_usage = no_usage, tr_started = now, tr_ended = None\<rparr>)"

definition idle_since :: "iso_timestamp option \<Rightarrow> iso_timestamp \<Rightarrow> int" where
  "idle_since cursor now = (case cursor of None \<Rightarrow> 0 | Some c \<Rightarrow> now - c)"

definition fold_envelope :: "envelope \<Rightarrow> payroll_fold \<Rightarrow> payroll_fold" where
  "fold_envelope e s =
     (let t = env_turn e; now = env_ts e; row = turn_at t now (pf_turns s)
      in
        (case env_data e of
           TurnStarted \<Rightarrow>
             s\<lparr>pf_idle_ms := pf_idle_ms s + idle_since (pf_cursor s) now, pf_cursor := None,
               pf_turns := jset (pf_turns s) t row\<rparr>
         | TurnEnded _ _ \<Rightarrow>
             s\<lparr>pf_cursor := (if pf_restarted s then pf_cursor s else Some now),
               pf_turns := jset (pf_turns s) t (row\<lparr>tr_ended := Some now\<rparr>)\<rparr>
         | SessionNotice _ code _ \<Rightarrow>
             if code = UsageUnavailable then s\<lparr>pf_usage_unavailable := True\<rparr>
             else if code \<noteq> ServerRestart then s
             else
               s\<lparr>pf_dropped := pf_dropped s + (case pf_cursor s of None \<Rightarrow> 0 | Some _ \<Rightarrow> 1),
                 pf_cursor := None, pf_restarted := True\<rparr>
         | UsageEvent u \<Rightarrow>
             s\<lparr>pf_burn := add_usage (pf_burn s) u,
               pf_turns := jset (pf_turns s) t (row\<lparr>tr_usage := add_usage (tr_usage row) u\<rparr>)\<rparr>
         | _ \<Rightarrow> s))"

record token_rates =
  rate_input :: rat
  rate_output :: rat
  rate_cache_read :: rat
  rate_cache_create :: rat

record payroll_view =
  pv_burn :: usage
  pv_budget :: "int option"
  pv_remaining :: "int option"
  pv_idle_ms :: int
  pv_dropped :: nat
  pv_cost :: "rat option"
  pv_currency :: "string option"
  pv_turns :: "(turn_id option \<times> turn_row) list"

definition price :: "token_rates \<Rightarrow> usage \<Rightarrow> rat" where
  "price r u =
     of_int (input_tokens u) * rate_input r + of_int (output_tokens u) * rate_output r +
     of_int (cache_read u) * rate_cache_read r + of_int (cache_create u) * rate_cache_create r"

text \<open>
  \<open>readEventsAfter\<close> yields envelopes until it ends or a record is broken, which makes the payroll
  unavailable.
\<close>

fun fold_events ::
  "(store_error, envelope) result list \<Rightarrow> payroll_fold \<Rightarrow> (store_error, payroll_fold) result" where
  "fold_events [] s = Inr s"
| "fold_events (Inl e # rs) s = Inl e"
| "fold_events (Inr e # rs) s = fold_events rs (fold_envelope e s)"

definition payroll_of ::
  "int option \<Rightarrow> token_rates option \<Rightarrow> string option \<Rightarrow> iso_timestamp option \<Rightarrow> payroll_fold \<Rightarrow> payroll_view" where
  "payroll_of budget rates currency ended s =
     (let cost = (if pf_usage_unavailable s then None else map_option (\<lambda>r. price r (pf_burn s)) rates)
      in \<lparr>pv_burn = pf_burn s, pv_budget = budget,
          pv_remaining = map_option (\<lambda>b. b - total_tokens (pf_burn s)) budget,
          pv_idle_ms = pf_idle_ms s + (case ended of None \<Rightarrow> 0 | Some t \<Rightarrow> idle_since (pf_cursor s) t),
          pv_dropped = pf_dropped s, pv_cost = cost,
          pv_currency = (if cost = None then None else currency), pv_turns = pf_turns s\<rparr>)"

definition fold_payroll ::
  "int option \<Rightarrow> token_rates option \<Rightarrow> string option \<Rightarrow> iso_timestamp \<Rightarrow> iso_timestamp option
   \<Rightarrow> (store_error, envelope) result list \<Rightarrow> (store_error, payroll_view) result" where
  "fold_payroll budget rates currency created ended rs =
     map_sum id (payroll_of budget rates currency ended) (fold_events rs (payroll_start created))"

section \<open>The rows partition the burn\<close>

definition rows_usage :: "(turn_id option \<times> turn_row) list \<Rightarrow> usage" where
  "rows_usage rows = foldr (\<lambda>r. add_usage (tr_usage (snd r))) rows no_usage"

lemma rows_usage_simps [simp]:
  "rows_usage [] = no_usage" "rows_usage (r # rs) = add_usage (tr_usage (snd r)) (rows_usage rs)"
  by (simp_all add: rows_usage_def)

lemma add_usage_left_commute: "add_usage a (add_usage b c) = add_usage b (add_usage a c)"
  by (simp add: add_usage_def)

text \<open>Setting a row that is there moves the sum by what the row gains; a new one adds its usage.\<close>

lemma rows_usage_update:
  "jget rows t = Some r \<Longrightarrow> tr_usage r' = add_usage (tr_usage r) u \<Longrightarrow>
   rows_usage (jset rows t r') = add_usage (rows_usage rows) u"
  unfolding jget_def jset_def
  by (induction rows) (auto simp: add_usage_left_commute add_usage_commute split: if_splits)

lemma rows_usage_append: "rows_usage (xs @ ys) = add_usage (rows_usage xs) (rows_usage ys)"
  by (induction xs) auto

lemma rows_usage_set:
  assumes "tr_usage r' = add_usage (tr_usage (turn_at t now rows)) u"
  shows "rows_usage (jset rows t r') = add_usage (rows_usage rows) u"
proof (cases "jget rows t")
  case None
  with assms show ?thesis by (simp add: turn_at_def jset_fresh rows_usage_append)
qed (use assms in \<open>simp add: turn_at_def rows_usage_update\<close>)

lemma fold_envelope_partition:
  "rows_usage (pf_turns s) = pf_burn s \<Longrightarrow> rows_usage (pf_turns (fold_envelope e s)) = pf_burn (fold_envelope e s)"
  using rows_usage_set [where u = no_usage and rows = "pf_turns s" and t = "env_turn e" and now = "env_ts e"]
  by (auto simp: fold_envelope_def Let_def rows_usage_set split: payload.splits)

lemma fold_events_partition:
  "fold_events rs s = Inr s' \<Longrightarrow> rows_usage (pf_turns s) = pf_burn s \<Longrightarrow> rows_usage (pf_turns s') = pf_burn s'"
  by (induction rs s rule: fold_events.induct) (auto simp: fold_envelope_partition)

lemma payroll_partitions_burn:
  assumes "fold_payroll budget rates currency created ended rs = Inr v"
  shows "rows_usage (pv_turns v) = pv_burn v"
proof -
  from assms obtain s where "fold_events rs (payroll_start created) = Inr s"
      "v = payroll_of budget rates currency ended s"
    by (auto simp: fold_payroll_def map_sum_def split: sum.splits)
  with fold_events_partition [of rs "payroll_start created" s] show ?thesis
    by (simp add: payroll_start_def payroll_of_def Let_def)
qed

section \<open>The rows and the idle time partition the life of a session\<close>

definition row_busy_ms :: "turn_row \<Rightarrow> int" where
  "row_busy_ms r = (case tr_ended r of None \<Rightarrow> 0 | Some t \<Rightarrow> t - tr_started r)"

definition rows_busy_ms :: "(turn_id option \<times> turn_row) list \<Rightarrow> int" where
  "rows_busy_ms rows = (\<Sum>r\<leftarrow>rows. row_busy_ms (snd r))"

text \<open>
  A recording in which turns alternate: a turn starts when none is open and it is new, it ends when
  it is the open one, usage is reported for a turn that has started, and the server has not been
  restarted. \<open>opened\<close> is the open turn, \<open>seen\<close> the turns so far; no turn is open at the end.
\<close>

fun alternates :: "turn_id option option \<Rightarrow> turn_id option list \<Rightarrow> envelope list \<Rightarrow> bool" where
  "alternates opened seen [] = (opened = None)"
| "alternates opened seen (e # es) =
     (case env_data e of
        TurnStarted \<Rightarrow> opened = None \<and> env_turn e \<notin> set seen \<and> alternates (Some (env_turn e)) (env_turn e # seen) es
      | TurnEnded _ _ \<Rightarrow> opened = Some (env_turn e) \<and> alternates None seen es
      | SessionNotice _ code _ \<Rightarrow> code \<noteq> ServerRestart \<and> alternates opened seen es
      | UsageEvent _ \<Rightarrow> env_turn e \<in> set seen \<and> alternates opened seen es
      | _ \<Rightarrow> alternates opened seen es)"

definition accounted :: "iso_timestamp \<Rightarrow> turn_id option option \<Rightarrow> turn_id option list \<Rightarrow> payroll_fold \<Rightarrow> bool" where
  "accounted created opened seen s \<longleftrightarrow>
     \<not> pf_restarted s \<and> pf_dropped s = 0 \<and> (\<forall>t. t \<in> set seen \<longleftrightarrow> jget (pf_turns s) t \<noteq> None) \<and>
     (case opened of
        None \<Rightarrow> (\<exists>c. pf_cursor s = Some c \<and> pf_idle_ms s + rows_busy_ms (pf_turns s) = c - created)
      | Some t \<Rightarrow>
          pf_cursor s = None \<and>
          (\<exists>r. jget (pf_turns s) t = Some r \<and> tr_ended r = None \<and>
               pf_idle_ms s + rows_busy_ms (pf_turns s) = tr_started r - created))"

lemma rows_busy_ms_set:
  "rows_busy_ms (jset rows t r) =
   rows_busy_ms rows - (case jget rows t of None \<Rightarrow> 0 | Some r' \<Rightarrow> row_busy_ms r') + row_busy_ms r"
  unfolding jget_def jset_def rows_busy_ms_def by (induction rows) auto

lemma accounted_envelope:
  assumes "accounted created opened seen s" and "alternates opened seen (e # es)"
  shows "\<exists>opened' seen'. accounted created opened' seen' (fold_envelope e s) \<and> alternates opened' seen' es"
proof (cases "env_data e")
  case TurnStarted
  with assms have "accounted created (Some (env_turn e)) (env_turn e # seen) (fold_envelope e s)"
    by (auto simp: accounted_def fold_envelope_def Let_def turn_at_def idle_since_def rows_busy_ms_set
        row_busy_ms_def jget_jset split: option.splits)
  with TurnStarted assms(2) show ?thesis by auto
next
  case (TurnEnded reason u)
  with assms have "accounted created None seen (fold_envelope e s)"
    by (auto simp: accounted_def fold_envelope_def Let_def turn_at_def rows_busy_ms_set row_busy_ms_def jget_jset)
  with TurnEnded assms(2) show ?thesis by auto
next
  case (UsageEvent u)
  with assms have "accounted created opened seen (fold_envelope e s)"
    by (auto simp: accounted_def fold_envelope_def Let_def turn_at_def rows_busy_ms_set row_busy_ms_def jget_jset
        split: option.splits)
  with UsageEvent assms(2) show ?thesis by auto
qed (use assms in \<open>auto simp: fold_envelope_def Let_def accounted_def split: if_splits option.splits\<close>)

lemma accounted_events:
  "accounted created opened seen s \<Longrightarrow> alternates opened seen es \<Longrightarrow>
   \<exists>s' seen'. fold_events (map Inr es) s = Inr s' \<and> accounted created None seen' s'"
proof (induction es arbitrary: opened seen s)
  case (Cons e es)
  then obtain opened' seen' where "accounted created opened' seen' (fold_envelope e s)" "alternates opened' seen' es"
    using accounted_envelope by blast
  from Cons.IH [OF this] show ?case by simp
qed auto

text \<open>
  C30: A session that ran without a restart, turn after turn, and was ended: the tokens of the rows add up
  to the tokens burnt, the time of its turns and its idle time add up to the time from its creation to
  its end, and no interval was dropped.
\<close>

theorem payroll_accounts_time:
  assumes "alternates None [] es"
  shows "\<exists>v. fold_payroll budget rates currency created (Some ended) (map Inr es) = Inr v \<and>
    rows_usage (pv_turns v) = pv_burn v \<and> pv_idle_ms v + rows_busy_ms (pv_turns v) = ended - created \<and>
    pv_dropped v = 0"
proof -
  have "accounted created None [] (payroll_start created)"
    by (simp add: accounted_def payroll_start_def rows_busy_ms_def)
  from accounted_events [OF this assms] obtain s seen where
    s: "fold_events (map Inr es) (payroll_start created) = Inr s" "accounted created None seen s"
    by blast
  then have v: "fold_payroll budget rates currency created (Some ended) (map Inr es) =
      Inr (payroll_of budget rates currency (Some ended) s)"
    by (simp add: fold_payroll_def)
  with s(2) payroll_partitions_burn [OF v] show ?thesis
    by (auto simp: accounted_def payroll_of_def Let_def idle_since_def)
qed

definition payroll_envelope :: "int \<Rightarrow> turn_id \<Rightarrow> payload \<Rightarrow> envelope" where
  "payroll_envelope now t d =
     \<lparr>env_seq = 1, env_session = ''s'', env_ts = now, env_turn = Some t, env_data = d, env_raw = None\<rparr>"

theorem payroll_accounts_time_witness:
  "\<exists>v. fold_payroll (Some 100) None None 0 (Some 50)
     (map Inr [payroll_envelope 10 ''a'' TurnStarted,
       payroll_envelope 15 ''a'' (UsageEvent (no_usage\<lparr>input_tokens := 7\<rparr>)),
       payroll_envelope 30 ''a'' (TurnEnded StopCompleted None)]) = Inr v \<and>
   rows_usage (pv_turns v) = pv_burn v \<and> pv_idle_ms v + rows_busy_ms (pv_turns v) = 50"
  using payroll_accounts_time [of "[payroll_envelope 10 ''a'' TurnStarted,
       payroll_envelope 15 ''a'' (UsageEvent (no_usage\<lparr>input_tokens := 7\<rparr>)),
       payroll_envelope 30 ''a'' (TurnEnded StopCompleted None)]" "Some 100" None None 0 50]
  by (simp add: payroll_envelope_def) blast

text \<open>Once the server was restarted, nothing is billed as idle: the recovery's own envelopes are not.\<close>

lemma restart_freezes_idle:
  "fold_events rs s = Inr s' \<Longrightarrow> pf_restarted s \<Longrightarrow> pf_cursor s = None \<Longrightarrow>
   pf_idle_ms s' = pf_idle_ms s \<and> pf_dropped s' = pf_dropped s \<and> pf_cursor s' = None"
proof (induction rs s rule: fold_events.induct)
  case (3 e rs s)
  have "pf_restarted (fold_envelope e s)" "pf_cursor (fold_envelope e s) = None"
    "pf_idle_ms (fold_envelope e s) = pf_idle_ms s" "pf_dropped (fold_envelope e s) = pf_dropped s"
    using 3(3,4) by (auto simp: fold_envelope_def Let_def idle_since_def split: payload.splits)
  with 3(1,2) show ?case by simp
qed auto

end
