(* ===== verification/Budget_Notices.thy ===== *)
theory Budget_Notices
  imports Payroll
begin

text \<open>
  The budget notices (\<open>createBudgetNotices\<close>, \<open>src/session-manager/budget.ts\<close>): every \<open>usage\<close>
  envelope that is observed starts a check, one at a time for each session. A check waits for the
  queued envelopes to be recorded, reads what is recorded, and appends what is due. Nothing is kept
  between checks, so a restart of the host may come at any time and with another configuration; a
  recorded notice is all that stops a second one. The record of one session is a list of entries:
  the text of a notice is its numbers. The warning fraction is a rational.
\<close>

section \<open>Entries and checks\<close>

datatype budget_entry =
    Spent usage
  | WarningNote int int rat
  | ExhaustedNote int int
  | OtherEntry

datatype budget_phase =
    NoCheck
  | AwaitFlush
  | AwaitRead nat
  | AwaitWarning int
  | AwaitExhausted int

text \<open>
  The chain of a session: the check that runs, the checks that wait for it. The mark of a read is
  where the record ended when the read began.
\<close>

record budget_state =
  bn_budget :: "int option"
  bn_fraction :: "rat option"
  bn_log :: "budget_entry list"
  bn_phase :: budget_phase
  bn_waiting :: nat

record tally_result =
  ta_burn :: int
  ta_usage_seen :: bool
  ta_warned :: bool
  ta_exhausted :: bool

definition empty_tally :: tally_result where
  "empty_tally = \<lparr>ta_burn = 0, ta_usage_seen = False, ta_warned = False, ta_exhausted = False\<rparr>"

fun tally_entry :: "budget_entry \<Rightarrow> tally_result \<Rightarrow> tally_result" where
  "tally_entry (Spent u) t = t\<lparr>ta_burn := ta_burn t + total_tokens u, ta_usage_seen := True\<rparr>"
| "tally_entry (WarningNote b g f) t = t\<lparr>ta_warned := True\<rparr>"
| "tally_entry (ExhaustedNote b g) t = t\<lparr>ta_exhausted := True\<rparr>"
| "tally_entry OtherEntry t = t"

definition read_tally :: "budget_entry list \<Rightarrow> tally_result" where
  "read_tally es = fold tally_entry es empty_tally"

text \<open>A check without a budget returns at once, and so do the ones that wait behind it.\<close>

definition start_check :: "budget_state \<Rightarrow> budget_state" where
  "start_check s =
     (if bn_budget s = None then s\<lparr>bn_phase := NoCheck, bn_waiting := 0\<rparr> else s\<lparr>bn_phase := AwaitFlush\<rparr>)"

definition check_over :: "budget_state \<Rightarrow> budget_state" where
  "check_over s =
     (if bn_waiting s = 0 then s\<lparr>bn_phase := NoCheck\<rparr>
      else start_check (s\<lparr>bn_waiting := bn_waiting s - 1\<rparr>))"

definition observe_usage :: "budget_state \<Rightarrow> budget_state" where
  "observe_usage s =
     (if bn_phase s = NoCheck then start_check s else s\<lparr>bn_waiting := Suc (bn_waiting s)\<rparr>)"

text \<open>The flush settles, or throws, which ends the check without a word.\<close>

definition flush_settled :: "bool \<Rightarrow> budget_state \<Rightarrow> budget_state" where
  "flush_settled ok s =
     (if bn_phase s \<noteq> AwaitFlush then s
      else if ok then s\<lparr>bn_phase := AwaitRead (length (bn_log s))\<rparr> else check_over s)"

definition exhaust_or_end :: "int \<Rightarrow> int \<Rightarrow> budget_state \<Rightarrow> budget_state" where
  "exhaust_or_end burn budget s =
     (if budget \<le> burn then s\<lparr>bn_phase := AwaitExhausted burn\<rparr> else check_over s)"

definition warning_due :: "int \<Rightarrow> int \<Rightarrow> tally_result \<Rightarrow> rat option \<Rightarrow> bool" where
  "warning_due burn budget t fraction =
     (case fraction of None \<Rightarrow> False | Some f \<Rightarrow> \<not> ta_warned t \<and> f * of_int budget \<le> of_int burn)"

definition decide_notices :: "tally_result \<Rightarrow> budget_state \<Rightarrow> budget_state" where
  "decide_notices t s =
     (case bn_budget s of
        None \<Rightarrow> check_over s
      | Some budget \<Rightarrow>
          if \<not> ta_usage_seen t \<or> ta_exhausted t then check_over s
          else if warning_due (ta_burn t) budget t (bn_fraction s) then s\<lparr>bn_phase := AwaitWarning (ta_burn t)\<rparr>
          else exhaust_or_end (ta_burn t) budget s)"

text \<open>
  The read yields the first \<open>n\<close> entries, at least those that were recorded when it began, or meets
  a record it cannot read.
\<close>

definition read_settled :: "nat option \<Rightarrow> budget_state \<Rightarrow> budget_state" where
  "read_settled r s =
     (case bn_phase s of
        AwaitRead mark \<Rightarrow>
          (case r of
             None \<Rightarrow> check_over s
           | Some n \<Rightarrow> if mark \<le> n then decide_notices (read_tally (take n (bn_log s))) s else s)
      | _ \<Rightarrow> s)"

definition pending_note :: "budget_state \<Rightarrow> budget_entry list" where
  "pending_note s =
     (case (bn_phase s, bn_budget s) of
        (AwaitWarning burn, Some budget) \<Rightarrow> (case bn_fraction s of None \<Rightarrow> [] | Some f \<Rightarrow> [WarningNote burn budget f])
      | (AwaitExhausted burn, Some budget) \<Rightarrow> [ExhaustedNote burn budget]
      | _ \<Rightarrow> [])"

text \<open>
  An append settles: the notice is recorded and the call says so, or the call fails, and the notice
  may be recorded all the same. A warning that is reported as not recorded ends the check.
\<close>

datatype append_outcome = NoteRecorded | NoteFailed bool

fun note_landed :: "append_outcome \<Rightarrow> bool" where
  "note_landed NoteRecorded = True"
| "note_landed (NoteFailed landed) = landed"

definition note_settled :: "append_outcome \<Rightarrow> budget_state \<Rightarrow> budget_state" where
  "note_settled r s =
     (let s' = (if note_landed r then s\<lparr>bn_log := bn_log s @ pending_note s\<rparr> else s)
      in
        (case bn_phase s of
           AwaitWarning burn \<Rightarrow>
             (case bn_budget s of
                Some budget \<Rightarrow> if r = NoteRecorded then exhaust_or_end burn budget s' else check_over s'
              | None \<Rightarrow> check_over s')
         | AwaitExhausted burn \<Rightarrow> check_over s'
         | _ \<Rightarrow> s))"

text \<open>
  What else happens: another entry is recorded, which is never a budget notice, or the host
  restarts, with an append under way that may have been recorded.
\<close>

definition restart_host :: "int option \<Rightarrow> rat option \<Rightarrow> bool \<Rightarrow> budget_state \<Rightarrow> budget_state" where
  "restart_host budget fraction landed s =
     \<lparr>bn_budget = budget, bn_fraction = fraction,
      bn_log = bn_log s @ (if landed then pending_note s else []), bn_phase = NoCheck, bn_waiting = 0\<rparr>"

datatype budget_event =
    ObserveUsage
  | FlushSettled bool
  | ReadSettled "nat option"
  | AppendNote append_outcome
  | RecordSpent usage
  | RecordOther
  | RestartHost "int option" "rat option" bool

fun budget_step :: "budget_event \<Rightarrow> budget_state \<Rightarrow> budget_state" where
  "budget_step ObserveUsage s = observe_usage s"
| "budget_step (FlushSettled ok) s = flush_settled ok s"
| "budget_step (ReadSettled r) s = read_settled r s"
| "budget_step (AppendNote r) s = note_settled r s"
| "budget_step (RecordSpent u) s = s\<lparr>bn_log := bn_log s @ [Spent u]\<rparr>"
| "budget_step RecordOther s = s\<lparr>bn_log := bn_log s @ [OtherEntry]\<rparr>"
| "budget_step (RestartHost budget fraction landed) s = restart_host budget fraction landed s"

definition budget_run :: "budget_event list \<Rightarrow> budget_state \<Rightarrow> budget_state" where
  "budget_run es s = fold budget_step es s"

definition new_budget :: "int option \<Rightarrow> rat option \<Rightarrow> budget_state" where
  "new_budget budget fraction =
     \<lparr>bn_budget = budget, bn_fraction = fraction, bn_log = [], bn_phase = NoCheck, bn_waiting = 0\<rparr>"

section \<open>What the record says of the budget\<close>

fun is_warning :: "budget_entry \<Rightarrow> bool" where
  "is_warning (WarningNote b g f) = True"
| "is_warning _ = False"

fun is_exhausted :: "budget_entry \<Rightarrow> bool" where
  "is_exhausted (ExhaustedNote b g) = True"
| "is_exhausted _ = False"

abbreviation is_note :: "budget_entry \<Rightarrow> bool" where
  "is_note e \<equiv> is_warning e \<or> is_exhausted e"

fun entry_tokens :: "budget_entry \<Rightarrow> int" where
  "entry_tokens (Spent u) = total_tokens u"
| "entry_tokens _ = 0"

definition burned :: "budget_entry list \<Rightarrow> int" where
  "burned es = (\<Sum>e\<leftarrow>es. entry_tokens e)"

text \<open>
  The record read backwards: the number a notice states was burnt by some entries before it and
  crosses the line it speaks of, nothing precedes a notice that makes it a repetition, and a
  warning never follows the exhaustion.
\<close>

definition states_burn :: "budget_entry list \<Rightarrow> int \<Rightarrow> bool" where
  "states_burn es burn = list_ex (\<lambda>n. burned (take n es) = burn) [0 ..< Suc (length es)]"

fun note_due :: "budget_entry list \<Rightarrow> budget_entry \<Rightarrow> bool" where
  "note_due es (WarningNote burn budget f) =
     (\<not> list_ex is_note es \<and> states_burn es burn \<and> f * of_int budget \<le> of_int burn)"
| "note_due es (ExhaustedNote burn budget) =
     (\<not> list_ex is_exhausted es \<and> states_burn es burn \<and> budget \<le> burn)"
| "note_due es e = True"

fun notes_ok :: "budget_entry list \<Rightarrow> budget_entry list \<Rightarrow> bool" where
  "notes_ok before [] = True"
| "notes_ok before (e # es) = (note_due before e \<and> notes_ok (before @ [e]) es)"

lemma notes_ok_append: "notes_ok before (xs @ ys) = (notes_ok before xs \<and> notes_ok (before @ xs) ys)"
  by (induction xs arbitrary: before) auto

lemma read_tally_fields:
  "ta_burn (fold tally_entry es t) = ta_burn t + burned es"
  "ta_warned (fold tally_entry es t) = (ta_warned t \<or> list_ex is_warning es)"
  "ta_exhausted (fold tally_entry es t) = (ta_exhausted t \<or> list_ex is_exhausted es)"
  by (induction es arbitrary: t; simp add: burned_def; case_tac a; simp)+

lemma read_tally_simps [simp]:
  "ta_burn (read_tally es) = burned es" "ta_warned (read_tally es) = list_ex is_warning es"
  "ta_exhausted (read_tally es) = list_ex is_exhausted es"
  by (simp_all add: read_tally_def read_tally_fields empty_tally_def)

lemma states_burn_iff: "states_burn es b \<longleftrightarrow> (\<exists>n \<le> length es. burned (take n es) = b)"
  by (auto simp: states_burn_def list_ex_iff less_Suc_eq_le simp del: upt_Suc)

lemma states_burn_snoc: "states_burn es b \<Longrightarrow> states_burn (es @ xs) b"
proof -
  assume "states_burn es b"
  then obtain n where "n \<le> length es" "burned (take n es) = b" by (auto simp: states_burn_iff)
  then have "n \<le> length (es @ xs)" "burned (take n (es @ xs)) = b" by simp_all
  then show ?thesis unfolding states_burn_iff by blast
qed

section \<open>The invariant\<close>

fun phase_ok :: "rat option \<Rightarrow> int option \<Rightarrow> budget_entry list \<Rightarrow> budget_phase \<Rightarrow> bool" where
  "phase_ok fraction budget es (AwaitRead mark) \<longleftrightarrow> mark \<le> length es \<and> \<not> list_ex is_note (drop mark es)"
| "phase_ok fraction budget es (AwaitWarning burn) \<longleftrightarrow>
     (case (fraction, budget) of
        (Some f, Some g) \<Rightarrow> note_due es (WarningNote burn g f)
      | _ \<Rightarrow> False)"
| "phase_ok fraction budget es (AwaitExhausted burn) \<longleftrightarrow>
     (case budget of Some g \<Rightarrow> note_due es (ExhaustedNote burn g) | None \<Rightarrow> False)"
| "phase_ok fraction budget es _ \<longleftrightarrow> True"

definition notices_invariant :: "budget_state \<Rightarrow> bool" where
  "notices_invariant s \<longleftrightarrow> notes_ok [] (bn_log s) \<and> phase_ok (bn_fraction s) (bn_budget s) (bn_log s) (bn_phase s)"

lemma check_over_ok: "notes_ok [] (bn_log s) \<Longrightarrow> notices_invariant (check_over s)"
  by (simp add: notices_invariant_def check_over_def start_check_def)

lemma list_ex_drop_take:
  "\<not> list_ex P (drop m es) \<Longrightarrow> m \<le> n \<Longrightarrow> list_ex P (take n es) = list_ex P es"
  by (metis append_take_drop_id drop_drop le_add_diff_inverse2 list_ex_append)

lemma list_ex_or: "list_ex (\<lambda>x. P x \<or> Q x) xs \<longleftrightarrow> list_ex P xs \<or> list_ex Q xs"
  by (induction xs) auto

lemma states_burn_take: "states_burn es (burned (take n es))"
  unfolding states_burn_iff by (cases "n \<le> length es") (auto intro: exI [of _ n] exI [of _ "length es"])

lemma exhaust_or_end_ok:
  assumes "notes_ok [] (bn_log s)" and "bn_budget s = Some g"
    and "g \<le> burn \<Longrightarrow> note_due (bn_log s) (ExhaustedNote burn g)"
  shows "notices_invariant (exhaust_or_end burn g s)"
  using assms check_over_ok by (auto simp: exhaust_or_end_def notices_invariant_def)

lemma decide_notices_ok:
  assumes log: "notes_ok [] (bn_log s)" and seen: "ta_warned t = list_ex is_warning (bn_log s)"
    "ta_exhausted t = list_ex is_exhausted (bn_log s)" "states_burn (bn_log s) (ta_burn t)"
  shows "notices_invariant (decide_notices t s)"
proof (cases "bn_budget s = None \<or> \<not> ta_usage_seen t \<or> ta_exhausted t")
  case True
  with check_over_ok [OF log] show ?thesis by (auto simp: decide_notices_def split: option.splits)
next
  case False
  then obtain g where g: "bn_budget s = Some g" and more: "ta_usage_seen t" "\<not> ta_exhausted t" by auto
  show ?thesis
  proof (cases "warning_due (ta_burn t) g t (bn_fraction s)")
    case True
    with log seen g more show ?thesis
      by (auto simp: decide_notices_def warning_due_def notices_invariant_def list_ex_or split: option.splits)
  next
    case False
    with exhaust_or_end_ok [OF log g] seen g more show ?thesis by (simp add: decide_notices_def)
  qed
qed

lemma read_settled_ok:
  assumes "notices_invariant s" shows "notices_invariant (read_settled r s)"
proof (cases "bn_phase s")
  case (AwaitRead mark)
  show ?thesis
  proof (cases r)
    case (Some n)
    show ?thesis
    proof (cases "mark \<le> n")
      case True
      let ?t = "read_tally (take n (bn_log s))"
      from assms AwaitRead have ok: "notes_ok [] (bn_log s)" "\<not> list_ex is_note (drop mark (bn_log s))"
        by (auto simp: notices_invariant_def)
      then have seen: "ta_warned ?t = list_ex is_warning (bn_log s)" "ta_exhausted ?t = list_ex is_exhausted (bn_log s)"
        using True by (auto simp: list_ex_or list_ex_drop_take)
      have "notices_invariant (decide_notices ?t s)"
        using ok(1) seen states_burn_take by (intro decide_notices_ok) auto
      with AwaitRead Some True show ?thesis by (simp add: read_settled_def)
    qed (use assms AwaitRead Some in \<open>simp add: read_settled_def\<close>)
  qed (use assms AwaitRead check_over_ok in \<open>simp add: read_settled_def notices_invariant_def\<close>)
qed (use assms in \<open>auto simp: read_settled_def\<close>)

lemma pending_note_ok:
  "notices_invariant s \<Longrightarrow> notes_ok [] (bn_log s @ pending_note s)"
  by (auto simp: notices_invariant_def pending_note_def notes_ok_append split: budget_phase.splits option.splits)

lemma note_settled_ok:
  assumes "notices_invariant s" shows "notices_invariant (note_settled r s)"
proof -
  let ?s = "if note_landed r then s\<lparr>bn_log := bn_log s @ pending_note s\<rparr> else s"
  have log: "notes_ok [] (bn_log ?s)" using pending_note_ok [OF assms] assms by (auto simp: notices_invariant_def)
  have over: "notices_invariant (check_over ?s)" using log by (rule check_over_ok)
  show ?thesis
  proof (cases "bn_phase s")
    case (AwaitWarning burn)
    with assms obtain f g where fg: "bn_fraction s = Some f" "bn_budget s = Some g"
        "note_due (bn_log s) (WarningNote burn g f)"
      by (auto simp: notices_invariant_def split: option.splits)
    have "notices_invariant (exhaust_or_end burn g ?s)" if "r = NoteRecorded"
      using log fg AwaitWarning that
      by (intro exhaust_or_end_ok) (auto simp: pending_note_def list_ex_or intro: states_burn_snoc)
    with over AwaitWarning fg show ?thesis by (auto simp: note_settled_def Let_def)
  qed (use assms over in \<open>auto simp: note_settled_def Let_def\<close>)
qed

lemma record_ok:
  assumes "notices_invariant s" and "\<not> is_note e" and "\<And>es. note_due es e"
  shows "notices_invariant (s\<lparr>bn_log := bn_log s @ [e]\<rparr>)"
  using assms by (cases "bn_phase s")
    (auto simp: notices_invariant_def notes_ok_append list_ex_or intro: states_burn_snoc split: option.splits)

lemma budget_step_ok: "notices_invariant s \<Longrightarrow> notices_invariant (budget_step e s)"
proof (cases e)
  case (RestartHost budget fraction landed)
  assume "notices_invariant s"
  with RestartHost pending_note_ok [of s] show ?thesis by (auto simp: restart_host_def notices_invariant_def)
qed (auto simp: record_ok read_settled_ok note_settled_ok observe_usage_def start_check_def flush_settled_def
    check_over_ok notices_invariant_def [of "_\<lparr>bn_phase := _\<rparr>"] notices_invariant_def [of "_\<lparr>bn_waiting := _\<rparr>"]
    notices_invariant_def [of "_\<lparr>bn_phase := _, bn_waiting := _\<rparr>"] dest: notices_invariant_def [THEN iffD1])

lemma budget_run_ok: "notices_invariant s \<Longrightarrow> notices_invariant (budget_run es s)"
  unfolding budget_run_def by (induction es arbitrary: s) (auto simp: budget_step_ok)

lemma no_note_once:
  "notes_ok before es \<Longrightarrow> list_ex is_exhausted before \<Longrightarrow> \<not> list_ex is_note es"
  "notes_ok before es \<Longrightarrow> list_ex is_warning before \<Longrightarrow> \<not> list_ex is_warning es"
proof (induction es arbitrary: before)
  case (Cons e es)
  { case 1 with Cons.IH(1) [of "before @ [e]"] show ?case by (cases e) (auto simp: list_ex_or) }
  { case 2 with Cons.IH(2) [of "before @ [e]"] show ?case by (cases e) (auto simp: list_ex_or) }
qed auto

lemma once_filter:
  "notes_ok before es \<Longrightarrow> length (filter is_exhausted es) \<le> 1 \<and> length (filter is_warning es) \<le> 1"
proof (induction es arbitrary: before)
  case (Cons e es)
  then have "length (filter is_exhausted es) \<le> 1" "length (filter is_warning es) \<le> 1" by auto
  moreover have "is_exhausted e \<Longrightarrow> filter is_exhausted es = []"
    using Cons.prems no_note_once(1) [of "before @ [e]" es] by (auto simp: filter_empty_conv list_ex_iff)
  moreover have "is_warning e \<Longrightarrow> filter is_warning es = []"
    using Cons.prems no_note_once(2) [of "before @ [e]" es] by (auto simp: filter_empty_conv list_ex_iff)
  ultimately show ?case by auto
qed simp

text \<open>
  C29: However checks, other entries, failures and restarts of the host with other budgets interleave,
  a session's record holds at most one warning and at most one exhaustion notice. Every notice
  states a number of tokens that entries before it add up to and that is past the line it speaks
  of, and no warning comes after the exhaustion.
\<close>

theorem budget_notices_once:
  "let es = bn_log (budget_run events (new_budget budget fraction))
   in notes_ok [] es \<and> length (filter is_warning es) \<le> 1 \<and> length (filter is_exhausted es) \<le> 1"
proof -
  have "notices_invariant (budget_run events (new_budget budget fraction))"
    by (rule budget_run_ok) (simp add: notices_invariant_def new_budget_def)
  with once_filter show ?thesis by (auto simp: notices_invariant_def Let_def)
qed

text \<open>A check in which every call succeeds announces every line the record has crossed.\<close>

definition quiet_check :: "budget_state \<Rightarrow> budget_event list" where
  "quiet_check s = [ObserveUsage, FlushSettled True, ReadSettled (Some (length (bn_log s))), AppendNote NoteRecorded, AppendNote NoteRecorded]"

lemma quiet_check_announces:
  assumes "bn_phase s = NoCheck" "bn_waiting s = 0" "bn_budget s = Some g" "ta_usage_seen (read_tally (bn_log s))"
  shows "g \<le> burned (bn_log s) \<Longrightarrow> list_ex is_exhausted (bn_log (budget_run (quiet_check s) s))"
    and "bn_fraction s = Some f \<Longrightarrow> f * of_int g \<le> of_int (burned (bn_log s)) \<Longrightarrow>
         list_ex is_note (bn_log (budget_run (quiet_check s) s))"
  using assms
  by (auto simp: budget_run_def quiet_check_def observe_usage_def start_check_def flush_settled_def read_settled_def
      decide_notices_def warning_due_def exhaust_or_end_def note_settled_def check_over_def pending_note_def
      Let_def list_ex_or split: option.splits)

end
