(* ===== verification/Session_Manager.thy ===== *)
theory Session_Manager
  imports Uploads Records Server_Lock
begin

text \<open>
  The host's session manager (\<open>src/session-manager/index.ts\<close>, \<open>boot.ts\<close>): it puts the session core
  behind the host's own errors, stages the inline attachments of a message, keeps the checklist of a
  session in its record and claims the storage root before the core boots. The requisitions it
  claims are in the component of the hiring, the payroll and the budget notices in theirs; the
  methods that only forward a call are the core's.
\<close>

section \<open>Errors\<close>

text \<open>\<open>SessionError\<close> of the host, and \<open>hostError\<close>.\<close>

datatype host_error =
    NoSuchSession session_id
  | HostSessionEnded session_id
  | HostTurnInFlight session_id turn_id
  | HostWorkspaceBusy resolved_path principal_id
  | NoSuchItem string
  | HostBadRequest string string
  | HostJail jail_error
  | HostAdapter adapter_error
  | HostCheckpoint checkpoint_error
  | HostStorage store_error
  | HostRecords records_error
  | PayrollUnavailable store_error

fun host_error_of :: "records_error session_error \<Rightarrow> host_error" where
  "host_error_of (NotFound i) = NoSuchSession i"
| "host_error_of (HostCreate e) = HostRecords e"
| "host_error_of (CreateOutcomeUnknown i) =
     HostStorage (Io i ''create_outcome_unknown; workspace quarantined'')"
| "host_error_of (SessionHasEnded i) = HostSessionEnded i"
| "host_error_of (TurnInFlight i t) = HostTurnInFlight i t"
| "host_error_of (WorkspaceBusy p who) = HostWorkspaceBusy p who"
| "host_error_of (BadRequest f d) = HostBadRequest f d"
| "host_error_of (JailE e) = HostJail e"
| "host_error_of (AdapterE e) = HostAdapter e"
| "host_error_of (CheckpointE e) = HostCheckpoint e"
| "host_error_of (StorageE e) = HostStorage e"

definition mapped :: "(records_error session_error, 'a) result \<Rightarrow> (host_error, 'a) result" where
  "mapped = map_sum host_error_of id"

lemma mapped_ok [simp]: "isl (mapped r) = isl r"
  by (cases r) (simp_all add: mapped_def)

section \<open>Boot\<close>

text \<open>
  \<open>boot\<close>: the write probe and the name of the own image side by side, then the lock, then the boot
  of the core. What the core reports as a foreign runtime is a locked root to the host, everything
  else an unwritable one.
\<close>

datatype runtime_boot_error =
    RuntimeLocked string server_lock
  | RuntimeFault string string "string option"

datatype boot_effect = ProbeWritable | ProbeImage | ClaimLock string | BootRuntime

record boot_answers =
  bt_root :: string
  bt_write :: "string option"
  bt_image :: "string option"
  bt_lock :: "(startup_error, unit) result"
  bt_runtime :: "(runtime_boot_error, unit) result"

definition claim_host_lease :: "boot_answers \<Rightarrow> boot_effect list \<times> (startup_error, unit) result" where
  "claim_host_lease a =
     (case bt_write a of
        Some detail \<Rightarrow> ([ProbeWritable, ProbeImage], Inl (StorageUnwritable (bt_root a) detail))
      | None \<Rightarrow>
          ([ProbeWritable, ProbeImage, ClaimLock (case bt_image a of None \<Rightarrow> ''unknown'' | Some i \<Rightarrow> i)], bt_lock a))"

fun boot_error_of :: "runtime_boot_error \<Rightarrow> startup_error" where
  "boot_error_of (RuntimeLocked path holder) =
     StorageLocked path (holder\<lparr>sl_renewals := 0, sl_image := ''runtime''\<rparr>)"
| "boot_error_of (RuntimeFault path code detail) =
     StorageUnwritable path (case detail of None \<Rightarrow> code | Some d \<Rightarrow> d)"

definition boot_manager :: "boot_answers \<Rightarrow> boot_effect list \<times> (startup_error, unit) result" where
  "boot_manager a =
     (case claim_host_lease a of
        (log, Inl e) \<Rightarrow> (log, Inl e)
      | (log, Inr _) \<Rightarrow> (log @ [BootRuntime], map_sum boot_error_of id (bt_runtime a)))"

lemma boots_under_lock:
  "BootRuntime \<in> set (fst (boot_manager a)) \<longleftrightarrow> bt_write a = None \<and> bt_lock a = Inr ()"
  by (auto simp: boot_manager_def claim_host_lease_def split: option.splits sum.splits)

section \<open>A message with inline attachments\<close>

text \<open>
  \<open>message\<close> stages every attachment in the core's staging area, in chunks of 256 KiB, sends the
  handles, and aborts them all whatever happened. \<open>clock\<close> gives the readings of the clock, one a
  call, \<open>fresh\<close> the identifiers that are made. The state is the staged uploads with the number of
  calls so far.
\<close>

record inline_upload =
  iu_filename :: string
  iu_media_type :: string
  iu_bytes :: "byte list"

type_synonym staged = "uploads \<times> nat"

definition inline_metadata :: "inline_upload \<Rightarrow> upload_metadata" where
  "inline_metadata a =
     \<lparr>um_filename = iu_filename a, um_media_type = iu_media_type a, um_size_bytes = Some (int (length (iu_bytes a)))\<rparr>"

function write_chunks ::
  "(nat \<Rightarrow> int) \<Rightarrow> 'h authorize \<Rightarrow> session_id \<Rightarrow> principal_id \<Rightarrow> string \<Rightarrow> nat \<Rightarrow> byte list \<Rightarrow> staged
   \<Rightarrow> ('h session_error, unit) result \<times> staged" where
  "write_chunks clock au session who i offset bytes (us, n) =
     (if bytes = [] then (Inr (), us, n)
      else
        (case write_upload au (clock n) session who i (int offset) (take chunk_limit bytes) us of
           (us', Inl e) \<Rightarrow> (Inl e, us', Suc n)
         | (us', Inr _) \<Rightarrow>
             write_chunks clock au session who i (offset + chunk_limit) (drop chunk_limit bytes) (us', Suc n)))"
  by pat_completeness auto
termination
  by (relation "measure (\<lambda>(clock, au, session, who, i, offset, bytes, us, n). length bytes)")
    (auto simp: chunk_limit_def)

declare write_chunks.simps [simp del]

text \<open>One attachment. The handle is known as soon as it is begun.\<close>

definition stage_one ::
  "(nat \<Rightarrow> int) \<Rightarrow> caps \<Rightarrow> int \<Rightarrow> 'h authorize \<Rightarrow> session_id \<Rightarrow> principal_id \<Rightarrow> string \<Rightarrow> inline_upload \<Rightarrow> staged
   \<Rightarrow> string option \<times> ('h session_error, unit) result \<times> staged" where
  "stage_one clock caps ttl au session who fresh a st =
     (case st of (us, n) \<Rightarrow>
        (case begin_upload caps ttl au (clock n) fresh session who (inline_metadata a) us of
           (us1, Inl e) \<Rightarrow> (None, Inl e, us1, Suc n)
         | (us1, Inr i) \<Rightarrow>
             (case write_chunks clock au session who i 0 (iu_bytes a) (us1, Suc n) of
                (Inl e, st2) \<Rightarrow> (Some i, Inl e, st2)
              | (Inr _, us2, n2) \<Rightarrow>
                  (case commit_upload au (clock n2) session who i us2 of
                     (us3, Inl e) \<Rightarrow> (Some i, Inl e, us3, Suc n2)
                   | (us3, Inr _) \<Rightarrow> (Some i, Inr (), us3, Suc n2)))))"

fun stage_all ::
  "(nat \<Rightarrow> int) \<Rightarrow> caps \<Rightarrow> int \<Rightarrow> 'h authorize \<Rightarrow> session_id \<Rightarrow> principal_id \<Rightarrow> (string \<times> inline_upload) list
   \<Rightarrow> staged \<Rightarrow> string list \<times> ('h session_error, unit) result \<times> staged" where
  "stage_all clock caps ttl au session who [] st = ([], Inr (), st)"
| "stage_all clock caps ttl au session who ((fresh, a) # as) st =
     (case stage_one clock caps ttl au session who fresh a st of
        (h, Inl e, st') \<Rightarrow> ((case h of None \<Rightarrow> [] | Some i \<Rightarrow> [i]), Inl e, st')
      | (h, Inr _, st') \<Rightarrow>
          (case stage_all clock caps ttl au session who as st' of
             (hs, r, st'') \<Rightarrow> ((case h of None \<Rightarrow> [] | Some i \<Rightarrow> [i]) @ hs, r, st'')))"

text \<open>
  \<open>send\<close> is the core's: it takes the uploads of its handles and may let any other operation of the
  staging area come in between; it returns what it answers and the uploads at its end.
  \<open>au'\<close> is the authorisation at that time.
\<close>

definition abort_all ::
  "(nat \<Rightarrow> int) \<Rightarrow> 'h authorize \<Rightarrow> session_id \<Rightarrow> principal_id \<Rightarrow> string list \<Rightarrow> staged \<Rightarrow> staged" where
  "abort_all clock au session who hs st =
     fold (\<lambda>i (us, n). (fst (abort_upload au (clock n) session who i us), Suc n)) hs st"

definition message ::
  "(nat \<Rightarrow> int) \<Rightarrow> caps \<Rightarrow> int \<Rightarrow> records_error authorize \<Rightarrow> records_error authorize \<Rightarrow>
   (string list \<Rightarrow> staged \<Rightarrow> (records_error session_error, 'a) result \<times> staged) \<Rightarrow>
   session_id \<Rightarrow> principal_id \<Rightarrow> (string \<times> inline_upload) list \<Rightarrow> staged
   \<Rightarrow> string list \<times> (host_error, 'a) result \<times> staged" where
  "message clock caps ttl au au' send session who attachments st =
     (case stage_all clock caps ttl au session who attachments st of
        (hs, Inl e, st') \<Rightarrow> (hs, Inl (host_error_of e), abort_all clock au session who hs st')
      | (hs, Inr _, st') \<Rightarrow>
          (case send hs st' of
             (r, st'') \<Rightarrow> (hs, mapped r, abort_all clock au' session who hs st'')))"

text \<open>What is left staged of a handle: nothing of this session and owner that may still be used.\<close>

definition still_staged :: "session_id \<Rightarrow> principal_id \<Rightarrow> uploads \<Rightarrow> string \<Rightarrow> bool" where
  "still_staged session who us i =
     (case jget us i of None \<Rightarrow> False | Some u \<Rightarrow> up_session u = session \<and> up_principal u = who)"

lemma abort_upload_cases:
  "fst (abort_upload au now session who i us) \<in> {purge now us, jdel (purge now us) i}"
  by (auto simp: abort_upload_def Let_def split: sum.splits)

lemma jget_purge_None: "jmap_ok us \<Longrightarrow> jget us i = None \<Longrightarrow> jget (purge now us) i = None"
  unfolding purge_def using jget_filter [of us "\<lambda>i u. \<not> up_expires u \<le> now" i] by simp

lemma jget_purge_Some: "jmap_ok us \<Longrightarrow> jget (purge now us) i = Some u \<Longrightarrow> jget us i = Some u"
  unfolding purge_def using jget_filter [of us "\<lambda>i u. \<not> up_expires u \<le> now" i]
  by (auto split: option.splits if_splits)

lemma abort_upload_shrinks:
  "jmap_ok us \<Longrightarrow> still_staged session who (fst (abort_upload au now session who i us)) j \<Longrightarrow>
   still_staged session who us j"
  using abort_upload_cases [of au now session who i us]
  by (auto simp: still_staged_def jget_jdel split: option.splits if_splits dest: jget_purge_Some)

lemma jmap_ok_abort: "jmap_ok us \<Longrightarrow> jmap_ok (fst (abort_upload au now session who i us))"
  using abort_upload_cases [of au now session who i us] by auto

lemma abort_upload_gone:
  "jmap_ok us \<Longrightarrow> au session who = Inr () \<Longrightarrow>
   \<not> still_staged session who (fst (abort_upload au now session who i us)) i"
  by (auto simp: abort_upload_def Let_def find_upload_def still_staged_def split: sum.splits option.splits)

lemma abort_all_gone:
  assumes "au session who = Inr ()"
  shows "jmap_ok (fst st) \<Longrightarrow>
     (\<forall>i \<in> set hs. \<not> still_staged session who (fst (abort_all clock au session who hs st)) i) \<and>
     (\<forall>j. still_staged session who (fst (abort_all clock au session who hs st)) j \<longrightarrow>
          still_staged session who (fst st) j)"
proof (induction hs arbitrary: st)
  case (Cons h hs)
  obtain us n where st: "st = (us, n)" by (cases st)
  let ?st = "(fst (abort_upload au (clock n) session who h us), Suc n)"
  from Cons.prems st have ok: "jmap_ok (fst ?st)" by (simp add: jmap_ok_abort)
  have fold: "abort_all clock au session who (h # hs) st = abort_all clock au session who hs ?st"
    by (simp add: abort_all_def st)
  have "\<not> still_staged session who (fst ?st) h" using Cons.prems assms st by (simp add: abort_upload_gone)
  moreover have "still_staged session who us j" if "still_staged session who (fst ?st) j" for j
    using that Cons.prems st abort_upload_shrinks [of us session who au "clock n" h j] by simp
  ultimately show ?case unfolding fold using Cons.IH [OF ok] st by auto
qed (simp add: abort_all_def)

section \<open>What a message delivers\<close>

text \<open>
  The uploads of a message, none of which expires at any reading of the clock. \<open>others_kept\<close> says that an
  operation on one upload leaves the others.
\<close>

definition lasting :: "(nat \<Rightarrow> int) \<Rightarrow> upload \<Rightarrow> bool" where
  "lasting clock u \<longleftrightarrow> (\<forall>k. clock k < up_expires u)"

definition others_kept :: "(nat \<Rightarrow> int) \<Rightarrow> string \<Rightarrow> uploads \<Rightarrow> uploads \<Rightarrow> bool" where
  "others_kept clock i us us' \<longleftrightarrow>
     jmap_ok us' \<and> (\<forall>j u. j \<noteq> i \<longrightarrow> jget us j = Some u \<longrightarrow> lasting clock u \<longrightarrow> jget us' j = Some u)"

definition no_more :: "uploads \<Rightarrow> uploads \<Rightarrow> bool" where
  "no_more us us' \<longleftrightarrow> (\<forall>s. length (session_uploads s us') \<le> length (session_uploads s us))"

lemma lasting_purge: "jmap_ok us \<Longrightarrow> jget us i = Some u \<Longrightarrow> lasting clock u \<Longrightarrow> jget (purge (clock n) us) i = Some u"
  by (auto simp: lasting_def intro: purge_keeps)

lemma others_kept_set: "jmap_ok us \<Longrightarrow> others_kept clock i us (jset (purge (clock n) us) i u)"
  by (auto simp: others_kept_def lasting_purge)

lemma others_kept_trans: "others_kept clock i us us' \<Longrightarrow> others_kept clock i us' us'' \<Longrightarrow> others_kept clock i us us''"
  by (auto simp: others_kept_def)

lemma no_more_trans: "no_more us us' \<Longrightarrow> no_more us' us'' \<Longrightarrow> no_more us us''"
  by (auto simp: no_more_def intro: le_trans)

lemma no_more_purge: "no_more us (purge now us)"
  unfolding no_more_def purge_def by (blast intro: session_uploads_filter)

lemma no_more_set:
  assumes "jmap_ok us" "jget us i = Some u" "lasting clock u" "up_session v = up_session u"
  shows "no_more us (jset (purge (clock n) us) i v)"
proof -
  have "no_more (purge (clock n) us) (jset (purge (clock n) us) i v)"
    using lasting_purge [OF assms(1-3), of n] assms(4) by (simp add: no_more_def session_uploads_jset)
  with no_more_purge show ?thesis by (rule no_more_trans)
qed

lemma find_lasting:
  "jmap_ok us \<Longrightarrow> jget us i = Some u \<Longrightarrow> lasting clock u \<Longrightarrow> up_session u = session \<Longrightarrow> up_principal u = who \<Longrightarrow>
   au session who = Inr () \<Longrightarrow> find_upload au session who i (purge (clock n) us) = Inr u"
  by (simp add: find_upload_def lasting_purge)

lemma write_chunks_received:
  assumes "jmap_ok us" "jget us i = Some u" "lasting clock u" "up_session u = session" "up_principal u = who"
    and "au session who = Inr ()" "\<not> up_committed u" "um_size_bytes (up_metadata u) = Some (int m)"
    and "up_size u + length bytes \<le> m"
  shows "\<exists>us' n' cs. write_chunks clock au session who i (up_size u) bytes (us, n) = (Inr (), us', n') \<and>
     concat cs = bytes \<and> others_kept clock i us us' \<and> no_more us us' \<and>
     jget us' i = Some (u\<lparr>up_chunks := up_chunks u @ cs, up_size := up_size u + length bytes\<rparr>)"
  using assms
proof (induction "length bytes" arbitrary: bytes us u n rule: less_induct)
  case less
  show ?case
  proof (cases "bytes = []")
    case True
    with less.prems show ?thesis
      by (intro exI [of _ us] exI [of _ n] exI [of _ "[]"])
        (simp add: write_chunks.simps [of _ _ _ _ _ _ "[]"] others_kept_def no_more_def)
  next
    case False
    let ?c = "take chunk_limit bytes" and ?rest = "drop chunk_limit bytes"
    let ?u = "u\<lparr>up_chunks := up_chunks u @ [?c], up_size := up_size u + length ?c\<rparr>"
    let ?us = "jset (purge (clock n) us) i ?u"
    have c: "?c \<noteq> []" "length ?c \<le> chunk_limit" using False by (auto simp: chunk_limit_def)
    have split: "length ?c + length ?rest = length bytes" by simp
    have wrote: "write_upload au (clock n) session who i (int (up_size u)) ?c us = (?us, Inr (up_size u + length ?c))"
      using less.prems c split find_lasting [of us i u clock session who au n]
      by (auto simp: write_upload_def Let_def)
    have keep: "others_kept clock i us ?us" using less.prems by (simp add: others_kept_set)
    have more: "no_more us ?us"
      by (rule no_more_set [OF less.prems(1-3)]) simp
    show ?thesis
    proof (cases "?rest = []")
      case True
      then have "?c = bytes" by simp
      with wrote keep more less.prems(2) show ?thesis
        by (intro exI [of _ ?us] exI [of _ "Suc n"] exI [of _ "[bytes]"])
          (simp add: False write_chunks.simps [of _ _ _ _ _ _ bytes] True write_chunks.simps [of _ _ _ _ _ _ "[]"])
    next
      case rest: False
      then have full: "length ?c = chunk_limit" by simp
      have fewer: "length ?rest < length bytes" using False by (simp add: chunk_limit_def)
      from less.hyps [OF fewer, of ?us ?u "Suc n"] less.prems keep split
      obtain us' n' cs where ind: "write_chunks clock au session who i (up_size ?u) ?rest (?us, Suc n) = (Inr (), us', n')"
        "concat cs = ?rest" "others_kept clock i ?us us'" "no_more ?us us'"
        "jget us' i = Some (?u\<lparr>up_chunks := up_chunks ?u @ cs, up_size := up_size ?u + length ?rest\<rparr>)"
        by (auto simp: others_kept_def lasting_def)
      have "write_chunks clock au session who i (up_size u) bytes (us, n) = (Inr (), us', n')"
        using ind(1) wrote full False
        by (subst write_chunks.simps) (simp add: min_absorb2)
      moreover have "concat (?c # cs) = bytes" using ind(2) by simp
      moreover have "others_kept clock i us us'" using keep ind(3) by (rule others_kept_trans)
      moreover have "no_more us us'" using more ind(4) by (rule no_more_trans)
      moreover have "jget us' i = Some (u\<lparr>up_chunks := up_chunks u @ ?c # cs, up_size := up_size u + length bytes\<rparr>)"
        using ind(5) split by (simp add: add.assoc)
      ultimately show ?thesis by blast
    qed
  qed
qed

text \<open>An attachment that is staged: committed, and exactly as it was sent.\<close>

definition staged_as ::
  "(nat \<Rightarrow> int) \<Rightarrow> session_id \<Rightarrow> principal_id \<Rightarrow> uploads \<Rightarrow> string \<times> inline_upload \<Rightarrow> bool" where
  "staged_as clock session who us x \<longleftrightarrow>
     (\<exists>u. jget us (fst x) = Some u \<and> lasting clock u \<and> up_session u = session \<and> up_principal u = who \<and>
          up_committed u \<and> up_metadata u = inline_metadata (snd x) \<and>
          buffer_concat (up_chunks u) (up_size u) = iu_bytes (snd x))"

lemma staged_as_others_kept: "staged_as clock session who us x \<Longrightarrow> others_kept clock i us us' \<Longrightarrow> fst x \<noteq> i \<Longrightarrow> staged_as clock session who us' x"
  unfolding staged_as_def others_kept_def by blast

lemma stage_one_staged:
  assumes ok: "jmap_ok us" and au: "au session who = Inr ()" and clock: "\<And>j k. clock j < clock k + ttl"
    and sz: "length (iu_bytes a) \<le> attachment_bytes caps" "int (length (iu_bytes a)) \<le> max_safe_integer"
    and room: "length (session_uploads session us) < attachment_count caps"
  shows "\<exists>us' n'. stage_one clock caps ttl au session who fresh a (us, n) = (Some fresh, Inr (), us', n') \<and>
     others_kept clock fresh us us' \<and> staged_as clock session who us' (fresh, a) \<and>
     length (session_uploads session us') \<le> Suc (length (session_uploads session us))"
proof -
  let ?u = "\<lparr>up_session = session, up_principal = who, up_metadata = inline_metadata a,
                  up_expires = clock n + ttl, up_chunks = [], up_size = 0, up_committed = False\<rparr>"
  let ?us = "jset (purge (clock n) us) fresh ?u"
  have fewer: "length (session_uploads session (purge (clock n) us)) \<le> length (session_uploads session us)"
    using no_more_purge [of us "clock n"] by (simp add: no_more_def)
  have begun: "begin_upload caps ttl au (clock n) fresh session who (inline_metadata a) us = (?us, Inr fresh)"
    using au sz room fewer
    by (simp add: begin_upload_def Let_def inline_metadata_def is_safe_integer_def session_uploads_def)
  have lasts: "lasting clock ?u" using clock by (simp add: lasting_def)
  have one: "length (session_uploads session ?us) \<le> Suc (length (session_uploads session us))"
    using session_uploads_jset_le [of session "purge (clock n) us" fresh ?u] fewer by simp
  from write_chunks_received [where us = ?us and i = fresh and u = ?u and clock = clock and session = session and who = who
      and au = au and m = "length (iu_bytes a)" and bytes = "iu_bytes a" and n = "Suc n"] ok lasts au
  obtain us2 n2 cs where w: "write_chunks clock au session who fresh 0 (iu_bytes a) (?us, Suc n) = (Inr (), us2, n2)"
      "concat cs = iu_bytes a" "others_kept clock fresh ?us us2" "no_more ?us us2"
      "jget us2 fresh = Some (?u\<lparr>up_chunks := cs, up_size := length (iu_bytes a)\<rparr>)"
    by (auto simp: inline_metadata_def)
  let ?v = "?u\<lparr>up_chunks := cs, up_size := length (iu_bytes a)\<rparr>" and ?us3 = "jset (purge (clock n2) us2) fresh (?u\<lparr>up_chunks := cs, up_size := length (iu_bytes a), up_committed := True\<rparr>)"
  have ok2: "jmap_ok us2" and lasts2: "lasting clock ?v" using w(3) lasts by (auto simp: others_kept_def lasting_def)
  have "commit_upload au (clock n2) session who fresh us2 = (?us3, Inr fresh)"
    using find_lasting [where us = us2 and i = fresh and u = ?v and clock = clock and n = n2 and session = session
        and who = who and au = au] ok2 w(5) lasts2 au by (simp add: commit_upload_def Let_def inline_metadata_def)
  moreover have "others_kept clock fresh us ?us3"
    using others_kept_trans [OF others_kept_trans [OF others_kept_set [OF ok] w(3)] others_kept_set [OF ok2]] .
  moreover have "staged_as clock session who ?us3 (fresh, a)"
    using w(2) lasts by (auto simp: staged_as_def lasting_def buffer_concat_def)
  moreover have "no_more us2 ?us3"
    by (rule no_more_set [where u = ?v, OF ok2 w(5) lasts2]) simp
  then have "length (session_uploads session ?us3) \<le> Suc (length (session_uploads session us))"
    using one w(4) unfolding no_more_def by (meson le_trans)
  ultimately show ?thesis using begun w(1) by (simp add: stage_one_def)
qed

lemma stage_all_staged:
  assumes "jmap_ok us" and au: "au session who = Inr ()" and clock: "\<And>j k. clock j < clock k + ttl"
    and "\<forall>x \<in> set as. length (iu_bytes (snd x)) \<le> attachment_bytes caps \<and> int (length (iu_bytes (snd x))) \<le> max_safe_integer"
    and "length (session_uploads session us) + length as \<le> attachment_count caps" and "distinct (map fst as)"
  shows "\<exists>us' n'. stage_all clock caps ttl au session who as (us, n) = (map fst as, Inr (), us', n') \<and> jmap_ok us' \<and>
     (\<forall>x \<in> set as. staged_as clock session who us' x) \<and>
     (\<forall>x. staged_as clock session who us x \<longrightarrow> fst x \<notin> fst ` set as \<longrightarrow> staged_as clock session who us' x)"
  using assms(1,4-6)
proof (induction as arbitrary: us n)
  case (Cons x as)
  obtain fresh a where x: "x = (fresh, a)" by (cases x)
  from Cons.prems x stage_one_staged [of us au session who clock ttl a caps fresh n] au clock
  obtain us1 n1 where one: "stage_one clock caps ttl au session who fresh a (us, n) = (Some fresh, Inr (), us1, n1)"
      "others_kept clock fresh us us1" "staged_as clock session who us1 (fresh, a)"
      "length (session_uploads session us1) \<le> Suc (length (session_uploads session us))"
    by auto
  then have "jmap_ok us1" by (simp add: others_kept_def)
  from Cons.IH [OF this, of n1] Cons.prems one(4) x
  obtain us' n' where all: "stage_all clock caps ttl au session who as (us1, n1) = (map fst as, Inr (), us', n')" "jmap_ok us'"
      "\<forall>x \<in> set as. staged_as clock session who us' x"
      "\<forall>x. staged_as clock session who us1 x \<longrightarrow> fst x \<notin> fst ` set as \<longrightarrow> staged_as clock session who us' x"
    by auto
  have "staged_as clock session who us' x" using all(4) one(3) Cons.prems(4) x by auto
  moreover have "staged_as clock session who us' y"
    if "staged_as clock session who us y" "fst y \<noteq> fresh" "fst y \<notin> fst ` set as" for y
    using staged_as_others_kept [OF that(1) one(2) that(2)] all(4) that(3) by blast
  ultimately show ?case using one(1) all x by auto
qed simp

text \<open>
  \<open>send\<close> as far as it concerns the staging area: it takes the uploads of the handles and goes on
  with what it took, in whatever way.
\<close>

definition send_taking ::
  "(nat \<Rightarrow> int) \<Rightarrow> caps \<Rightarrow> 'h authorize \<Rightarrow> session_id \<Rightarrow> principal_id \<Rightarrow>
   ((upload_metadata \<times> byte list) list \<Rightarrow> staged \<Rightarrow> ('h session_error, 'a) result \<times> staged) \<Rightarrow>
   string list \<Rightarrow> staged \<Rightarrow> ('h session_error, 'a) result \<times> staged" where
  "send_taking clock caps au session who go hs st =
     (case st of (us, n) \<Rightarrow>
        (case take_uploads caps au (clock n) session who hs us of
           (us', Inl e) \<Rightarrow> (Inl e, us', Suc n)
         | (us', Inr taken) \<Rightarrow> go taken (us', Suc n)))"

lemma select_staged:
  "\<forall>x \<in> set as. staged_as clock session who us x \<Longrightarrow> au session who = Inr () \<Longrightarrow> jmap_ok us \<Longrightarrow>
   \<exists>sel. select_uploads au session who (map fst as) (purge (clock n) us) = Inr sel \<and>
     map (\<lambda>u. (up_metadata u, buffer_concat (up_chunks u) (up_size u))) sel =
     map (\<lambda>(i, a). (inline_metadata a, iu_bytes a)) as"
proof (induction as)
  case (Cons x as)
  then obtain u where u: "jget us (fst x) = Some u" "lasting clock u" "up_session u = session" "up_principal u = who"
      "up_committed u" "up_metadata u = inline_metadata (snd x)"
      "buffer_concat (up_chunks u) (up_size u) = iu_bytes (snd x)"
    by (auto simp: staged_as_def)
  with Cons.prems have "find_upload au session who (fst x) (purge (clock n) us) = Inr u"
    by (simp add: find_lasting)
  with Cons u show ?case by (auto simp: case_prod_unfold)
qed simp

lemma take_staged:
  assumes "\<forall>x \<in> set as. staged_as clock session who us x" and "au session who = Inr ()" and "jmap_ok us"
    and "distinct (map fst as)" and "length as \<le> attachment_count caps"
  shows "\<exists>us'. take_uploads caps au (clock n) session who (map fst as) us =
    (us', Inr (map (\<lambda>(i, a). (inline_metadata a, iu_bytes a)) as))"
proof (cases "as = []")
  case False
  from select_staged [where as = as and clock = clock and session = session and who = who and us = us and au = au and n = n]
    False assms show ?thesis
    by (auto simp: take_uploads_def Let_def)
qed (simp add: take_uploads_def)

text \<open>
  C27: A message whose attachments are within the caps, sent to a session that is shown to its sender,
  reaches the core with every attachment whole and in its order, in chunks the staging area takes,
  and the caller is told what the core answers. Whatever the core does in between, no
  attachment stays staged afterwards.
\<close>

theorem message_delivers:
  assumes staging: "jmap_ok us" "length (session_uploads session us) + length as \<le> attachment_count caps"
    and au: "au session who = Inr ()" "au' session who = Inr ()"
    and clock: "\<And>j k. clock j < clock k + ttl"
    and sizes: "\<forall>x \<in> set as. length (iu_bytes (snd x)) \<le> attachment_bytes caps \<and>
        int (length (iu_bytes (snd x))) \<le> max_safe_integer"
    and fresh: "distinct (map fst as)"
    and go: "\<And>taken st. jmap_ok (fst (snd (go taken st)))"
  shows "\<exists>st us' n'. message clock caps ttl au au' (send_taking clock caps au session who go) session who as (us, n) =
      (map fst as, mapped (fst (go (map (\<lambda>(i, a). (inline_metadata a, iu_bytes a)) as) st)), us', n') \<and>
    (\<forall>i \<in> set (map fst as). \<not> still_staged session who us' i)"
proof -
  from stage_all_staged [of us au session who clock ttl as caps n] staging au(1) clock sizes fresh
  obtain us1 n1 where all: "stage_all clock caps ttl au session who as (us, n) = (map fst as, Inr (), us1, n1)" "jmap_ok us1"
      "\<forall>x \<in> set as. staged_as clock session who us1 x"
    by blast
  from take_staged [where as = as and clock = clock and session = session and who = who and us = us1 and au = au
      and caps = caps and n = n1] all au(1) fresh staging(2)
  obtain us2 where taken: "take_uploads caps au (clock n1) session who (map fst as) us1 =
      (us2, Inr (map (\<lambda>(i, a). (inline_metadata a, iu_bytes a)) as))"
    by auto
  let ?go = "go (map (\<lambda>(i, a). (inline_metadata a, iu_bytes a)) as) (us2, Suc n1)"
  let ?final = "abort_all clock au' session who (map fst as) (snd ?go)"
  have "message clock caps ttl au au' (send_taking clock caps au session who go) session who as (us, n) =
      (map fst as, mapped (fst ?go), fst ?final, snd ?final)"
    using all(1) taken by (simp add: message_def send_taking_def split: prod.splits)
  moreover have "\<forall>i \<in> set (map fst as). \<not> still_staged session who (fst ?final) i"
    using abort_all_gone [where au = au' and session = session and who = who and st = "snd ?go" and hs = "map fst as"
        and clock = clock] au(2) go by blast
  ultimately show ?thesis by blast
qed

theorem message_delivers_witness:
  "\<exists>us' n'. message (\<lambda>k. int (min k 5)) example_caps 1000 (\<lambda>_ _. Inr ()) (\<lambda>_ _. Inr ())
     (send_taking (\<lambda>k. int (min k 5)) example_caps (\<lambda>_ _. Inr ()) ''s'' ''ann'' (\<lambda>taken st. (Inr (length taken), [], 0)))
     ''s'' ''ann'' [(''u'', \<lparr>iu_filename = ''a'', iu_media_type = ''t'', iu_bytes = [1, 2]\<rparr>)] ([], 0) =
     ([''u''], Inr 1, us', n') \<and> \<not> still_staged ''s'' ''ann'' us' ''u''"
  using message_delivers [where us = "[]" and session = "''s''" and caps = example_caps and who = "''ann''" and n = 0
      and au = "\<lambda>_ _. Inr ()" and au' = "\<lambda>_ _. Inr ()" and clock = "\<lambda>k. int (min k 5)" and ttl = 1000
      and as = "[(''u'', \<lparr>iu_filename = ''a'', iu_media_type = ''t'', iu_bytes = [1, 2]\<rparr>)]"
      and go = "\<lambda>taken st. (Inr (length taken), [], 0)"]
  by (simp add: session_uploads_def jvals_def example_caps_def max_safe_integer_def mapped_def)

end
