(* ===== verification/Checklist.thy ===== *)
theory Checklist
  imports Session_Manager
begin

text \<open>
  The checklist of a session (\<open>completed\<close>, \<open>checklist\<close> and \<open>tickChecklistItem\<close> of
  \<open>src/session-manager/index.ts\<close>). What is ticked is recorded in the session's own record; the host
  keeps only the promise of a tick, so that every caller of one item waits for the same outcome.
  The state is that of one session: its recorded completions, the ticks under way and settled, by
  number, and which tick an item's callers join.
\<close>

section \<open>State and steps\<close>

datatype tick_answer = Ticked | TickFailed host_error

datatype tick_phase = TickReads nat | TickAppends | TickSettled tick_answer

record tick_job =
  tj_item :: string
  tj_by :: principal_id
  tj_phase :: tick_phase

record checklist_state =
  ck_session :: session_id
  ck_log :: "(string \<times> principal_id) list"
  ck_jobs :: "tick_job list"
  ck_claims :: "(string, nat) jmap"
  ck_removed :: bool

definition new_checklist :: "session_id \<Rightarrow> checklist_state" where
  "new_checklist i = \<lparr>ck_session = i, ck_log = [], ck_jobs = [], ck_claims = [], ck_removed = False\<rparr>"

definition set_tick_phase :: "nat \<Rightarrow> tick_phase \<Rightarrow> checklist_state \<Rightarrow> checklist_state" where
  "set_tick_phase k p s = s\<lparr>ck_jobs := (ck_jobs s)[k := (ck_jobs s ! k)\<lparr>tj_phase := p\<rparr>]\<rparr>"

text \<open>
  \<open>tickChecklistItem\<close>: what the core says of the session comes first, then the item, then a tick
  that is under way or done; a new one begins to read the record.
\<close>

datatype tick_call = TickRefused host_error | TickJoins nat

definition tick_item ::
  "(records_error session_error, bool) result \<Rightarrow> string list \<Rightarrow> principal_id \<Rightarrow> string \<Rightarrow> checklist_state
   \<Rightarrow> checklist_state \<times> tick_call" where
  "tick_item found template who item s =
     (case found of
        Inl e \<Rightarrow> (s, TickRefused (host_error_of e))
      | Inr ended \<Rightarrow>
          if ended then (s, TickRefused (HostSessionEnded (ck_session s)))
          else if item \<notin> set template then (s, TickRefused (NoSuchItem item))
          else
            (case jget (ck_claims s) item of
               Some k \<Rightarrow> (s, TickJoins k)
             | None \<Rightarrow>
                 (s\<lparr>ck_jobs := ck_jobs s @ [\<lparr>tj_item = item, tj_by = who, tj_phase = TickReads (length (ck_log s))\<rparr>],
                    ck_claims := jset (ck_claims s) item (length (ck_jobs s))\<rparr>,
                  TickJoins (length (ck_jobs s)))))"

text \<open>
  The read yields the first \<open>n\<close> completions: at least those recorded when it began, or fewer when it
  meets a record it cannot read, at which it stops.
\<close>

datatype completed_read = ReadWhole nat | ReadBroken nat

definition seen_items :: "nat \<Rightarrow> checklist_state \<Rightarrow> string list" where
  "seen_items n s = map fst (take n (ck_log s))"

definition tick_read :: "nat \<Rightarrow> completed_read \<Rightarrow> checklist_state \<Rightarrow> checklist_state" where
  "tick_read k r s =
     (if length (ck_jobs s) \<le> k then s
      else
        (case tj_phase (ck_jobs s ! k) of
           TickReads mark \<Rightarrow>
             (case r of
                ReadWhole n \<Rightarrow>
                  if n < mark then s
                  else set_tick_phase k (if tj_item (ck_jobs s ! k) \<in> set (seen_items n s) then TickSettled Ticked else TickAppends) s
              | ReadBroken n \<Rightarrow>
                  set_tick_phase k (if tj_item (ck_jobs s ! k) \<in> set (seen_items n s) then TickSettled Ticked else TickAppends) s)
         | _ \<Rightarrow> s))"

text \<open>
  The append settles. An error lets go of the item, whether or not the completion was recorded;
  a storage error is told as the end of the session, which it is.
\<close>

datatype tick_append = TickRecorded | TickNotRecorded bool "records_error session_error"

fun tick_error :: "session_id \<Rightarrow> records_error session_error \<Rightarrow> host_error" where
  "tick_error i (StorageE e) = HostSessionEnded i"
| "tick_error i e = host_error_of e"

definition record_tick :: "nat \<Rightarrow> checklist_state \<Rightarrow> checklist_state" where
  "record_tick k s = s\<lparr>ck_log := ck_log s @ [(tj_item (ck_jobs s ! k), tj_by (ck_jobs s ! k))]\<rparr>"

definition tick_appended :: "nat \<Rightarrow> tick_append \<Rightarrow> checklist_state \<Rightarrow> checklist_state" where
  "tick_appended k r s =
     (if length (ck_jobs s) \<le> k \<or> tj_phase (ck_jobs s ! k) \<noteq> TickAppends then s
      else
        (case r of
           TickRecorded \<Rightarrow> set_tick_phase k (TickSettled Ticked) (record_tick k s)
         | TickNotRecorded landed e \<Rightarrow>
             (set_tick_phase k (TickSettled (TickFailed (tick_error (ck_session s) e)))
               (if landed then record_tick k s else s))
               \<lparr>ck_claims := jdel (ck_claims s) (tj_item (ck_jobs s ! k))\<rparr>))"

definition remove_checklist :: "checklist_state \<Rightarrow> checklist_state" where
  "remove_checklist s = s\<lparr>ck_claims := [], ck_removed := True\<rparr>"

text \<open>
  Ticks of a removed session are refused. After a restart the session is ended, so that no tick
  begins: there is no step for it.
\<close>

datatype checklist_event =
    TickItem bool "string list" principal_id string
  | TickRead nat completed_read
  | TickAppended nat tick_append
  | RemoveChecklist

fun checklist_step :: "checklist_event \<Rightarrow> checklist_state \<Rightarrow> checklist_state" where
  "checklist_step (TickItem ended template who item) s =
     fst (tick_item (if ck_removed s then Inl (NotFound (ck_session s)) else Inr ended) template who item s)"
| "checklist_step (TickRead k r) s = tick_read k r s"
| "checklist_step (TickAppended k r) s = tick_appended k r s"
| "checklist_step RemoveChecklist s = remove_checklist s"

definition checklist_run :: "checklist_event list \<Rightarrow> checklist_state \<Rightarrow> checklist_state" where
  "checklist_run es s = fold checklist_step es s"

text \<open>\<open>checklist\<close>: the template, each item with its last recorded completion.\<close>

definition completed_by :: "(string \<times> principal_id) list \<Rightarrow> string \<Rightarrow> principal_id option" where
  "completed_by es item = jget (fold (\<lambda>(i, who) m. jset m i who) es []) item"

definition checklist_view ::
  "(string \<times> string) list \<Rightarrow> (string \<times> principal_id) list \<Rightarrow> (string \<times> string \<times> principal_id option) list" where
  "checklist_view template es = map (\<lambda>(i, label). (i, label, completed_by es i)) template"

lemma completed_by_iff: "completed_by es i \<noteq> None \<longleftrightarrow> i \<in> fst ` set es"
proof -
  have "jget (fold (\<lambda>(i, who) m. jset m i who) es m) i \<noteq> None \<longleftrightarrow> i \<in> fst ` set es \<or> jget m i \<noteq> None" for m
    by (induction es arbitrary: m) (auto simp: jget_jset split: if_splits)
  from this [of "[]"] show ?thesis by (simp add: completed_by_def)
qed

section \<open>An item is recorded once\<close>

definition active :: "checklist_state \<Rightarrow> nat \<Rightarrow> bool" where
  "active s k \<longleftrightarrow> k < length (ck_jobs s) \<and> (\<forall>a. tj_phase (ck_jobs s ! k) \<noteq> TickSettled a)"

fun fits :: "(string \<times> principal_id) list \<Rightarrow> string \<Rightarrow> tick_phase \<Rightarrow> bool" where
  "fits es item (TickReads mark) \<longleftrightarrow> mark \<le> length es \<and> item \<notin> fst ` set (drop mark es)"
| "fits es item TickAppends \<longleftrightarrow> item \<notin> fst ` set es"
| "fits es item (TickSettled a) \<longleftrightarrow> a \<noteq> Ticked \<or> item \<in> fst ` set es"

definition jobs_fit :: "checklist_state \<Rightarrow> bool" where
  "jobs_fit s \<longleftrightarrow> (\<forall>k < length (ck_jobs s). fits (ck_log s) (tj_item (ck_jobs s ! k)) (tj_phase (ck_jobs s ! k)))"

definition jobs_unique :: "checklist_state \<Rightarrow> bool" where
  "jobs_unique s \<longleftrightarrow>
     (\<forall>k k'. active s k \<longrightarrow> active s k' \<longrightarrow> tj_item (ck_jobs s ! k) = tj_item (ck_jobs s ! k') \<longrightarrow> k = k')"

definition jobs_claimed :: "checklist_state \<Rightarrow> bool" where
  "jobs_claimed s \<longleftrightarrow>
     (ck_removed s \<or> (\<forall>k. active s k \<longrightarrow> jget (ck_claims s) (tj_item (ck_jobs s ! k)) = Some k))"

definition ticks_ok :: "checklist_state \<Rightarrow> bool" where
  "ticks_ok s \<longleftrightarrow> distinct (map fst (ck_log s)) \<and> jobs_fit s \<and> jobs_unique s \<and> jobs_claimed s"

lemma set_tick_phase_simps [simp]:
  "ck_log (set_tick_phase k p s) = ck_log s" "ck_claims (set_tick_phase k p s) = ck_claims s"
  "ck_removed (set_tick_phase k p s) = ck_removed s" "length (ck_jobs (set_tick_phase k p s)) = length (ck_jobs s)"
  "k < length (ck_jobs s) \<Longrightarrow> tj_item (ck_jobs (set_tick_phase k p s) ! j) = tj_item (ck_jobs s ! j)"
  "k < length (ck_jobs s) \<Longrightarrow>
   tj_phase (ck_jobs (set_tick_phase k p s) ! j) = (if j = k then p else tj_phase (ck_jobs s ! j))"
  by (auto simp: set_tick_phase_def nth_list_update)

lemma record_tick_simps [simp]:
  "ck_jobs (record_tick k s) = ck_jobs s" "ck_claims (record_tick k s) = ck_claims s"
  "ck_removed (record_tick k s) = ck_removed s"
  "ck_log (record_tick k s) = ck_log s @ [(tj_item (ck_jobs s ! k), tj_by (ck_jobs s ! k))]"
  by (simp_all add: record_tick_def)

lemma active_set_tick_phase:
  "k < length (ck_jobs s) \<Longrightarrow>
   active (set_tick_phase k p s) j = (if j = k then (\<forall>a. p \<noteq> TickSettled a) else active s j)"
  by (auto simp: active_def)

lemma active_cong [simp]:
  "active (record_tick k s) = active s" "active (s\<lparr>ck_claims := c\<rparr>) = active s"
  "active (s\<lparr>ck_claims := c, ck_removed := b\<rparr>) = active s"
  by (auto simp: active_def fun_eq_iff)

lemma record_tick_jobs [simp]:
  "jobs_unique (record_tick k s) = jobs_unique s" "jobs_claimed (record_tick k s) = jobs_claimed s"
  by (simp_all add: jobs_unique_def jobs_claimed_def)

text \<open>What a change of one tick's phase keeps, and what letting go of its item keeps.\<close>

lemma jobs_fit_phase:
  "jobs_fit s \<Longrightarrow> k < length (ck_jobs s) \<Longrightarrow> fits (ck_log s) (tj_item (ck_jobs s ! k)) p \<Longrightarrow> jobs_fit (set_tick_phase k p s)"
  by (auto simp: jobs_fit_def)

lemma jobs_unique_phase: "jobs_unique s \<Longrightarrow> active s k \<Longrightarrow> jobs_unique (set_tick_phase k p s)"
  by (auto simp: jobs_unique_def active_set_tick_phase active_def [of s k])

lemma jobs_claimed_phase: "jobs_claimed s \<Longrightarrow> active s k \<Longrightarrow> jobs_claimed (set_tick_phase k p s)"
  by (auto simp: jobs_claimed_def active_set_tick_phase active_def [of s k])

lemmas jobs_phase = jobs_fit_phase jobs_unique_phase jobs_claimed_phase

lemma jobs_fit_record:
  assumes "jobs_fit s" "jobs_unique s" "active s k" "tj_phase (ck_jobs s ! k) = TickAppends"
  shows "jobs_fit (set_tick_phase k (TickSettled a) (record_tick k s))"
proof -
  have "fits (ck_log s @ [(tj_item (ck_jobs s ! k), who)]) (tj_item (ck_jobs s ! j)) (tj_phase (ck_jobs s ! j))"
    if "j < length (ck_jobs s)" "j \<noteq> k" for j who
  proof -
    have "fits (ck_log s) (tj_item (ck_jobs s ! j)) (tj_phase (ck_jobs s ! j))"
      using assms(1) that(1) by (simp add: jobs_fit_def)
    moreover have "active s j \<Longrightarrow> tj_item (ck_jobs s ! j) \<noteq> tj_item (ck_jobs s ! k)"
      using assms(2,3) that(2) unfolding jobs_unique_def by blast
    ultimately show ?thesis using that(1) by (cases "tj_phase (ck_jobs s ! j)") (auto simp: active_def)
  qed
  moreover have "k < length (ck_jobs s)" using assms(3) by (simp add: active_def)
  ultimately show ?thesis by (auto simp: jobs_fit_def)
qed

lemma release_ok:
  assumes "ticks_ok s" and "active s' = active s" and "\<And>j. active s j \<Longrightarrow> tj_item (ck_jobs s ! j) \<noteq> item"
  shows "ticks_ok (s\<lparr>ck_claims := jdel (ck_claims s) item\<rparr>)"
  using assms by (simp add: ticks_ok_def jobs_fit_def jobs_unique_def jobs_claimed_def jget_jdel)

lemma tick_item_ok:
  assumes ok: "ticks_ok s" and here: "\<not> ck_removed s"
  shows "ticks_ok (fst (tick_item (Inr ended) template who item s))"
proof (cases "\<not> ended \<and> item \<in> set template \<and> jget (ck_claims s) item = None")
  case True
  let ?job = "\<lparr>tj_item = item, tj_by = who, tj_phase = TickReads (length (ck_log s))\<rparr>" and ?k = "length (ck_jobs s)"
  let ?s = "s\<lparr>ck_jobs := ck_jobs s @ [?job], ck_claims := jset (ck_claims s) item ?k\<rparr>"
  from True have s: "fst (tick_item (Inr ended) template who item s) = ?s" by (simp add: tick_item_def)
  have act: "active ?s j = (active s j \<or> j = ?k)" for j
    by (auto simp: active_def nth_append)
  have old: "j < ?k" if "active s j" for j using that by (simp add: active_def)
  have other: "tj_item (ck_jobs s ! j) \<noteq> item" if "active s j" for j
    using ok here that True by (auto simp: ticks_ok_def jobs_claimed_def)
  have "jobs_fit ?s" using ok by (auto simp: ticks_ok_def jobs_fit_def nth_append less_Suc_eq)
  moreover have "jobs_unique ?s"
    unfolding jobs_unique_def act using ok old other by (auto simp: ticks_ok_def jobs_unique_def nth_append)
  moreover have "jobs_claimed ?s"
    unfolding jobs_claimed_def act using ok here old other
    by (auto simp: ticks_ok_def jobs_claimed_def nth_append jget_jset)
  ultimately show ?thesis unfolding s using ok by (simp add: ticks_ok_def)
qed (use ok in \<open>auto simp: tick_item_def split: option.splits\<close>)

lemma tick_read_ok:
  assumes ok: "ticks_ok s" and whole: "\<And>n. r \<noteq> ReadBroken n"
  shows "ticks_ok (tick_read k r s)"
proof (cases "k < length (ck_jobs s)")
  case True
  show ?thesis
  proof (cases "tj_phase (ck_jobs s ! k)")
    case (TickReads mark)
    obtain n where r: "r = ReadWhole n" using whole by (cases r) auto
    let ?item = "tj_item (ck_jobs s ! k)"
    let ?p = "if ?item \<in> set (seen_items n s) then TickSettled Ticked else TickAppends"
    have act: "active s k" using True TickReads by (simp add: active_def)
    have "fits (ck_log s) ?item (TickReads mark)" using ok True TickReads by (metis ticks_ok_def jobs_fit_def)
    moreover have "fst ` set (ck_log s) = set (seen_items n s) \<union> fst ` set (drop n (ck_log s))"
      unfolding seen_items_def by (metis append_take_drop_id image_Un list.set_map set_append)
    moreover have "mark \<le> n \<Longrightarrow> set (drop n (ck_log s)) \<subseteq> set (drop mark (ck_log s))"
      by (rule set_drop_subset_set_drop)
    ultimately have "mark \<le> n \<Longrightarrow> fits (ck_log s) ?item ?p" by auto
    then have "mark \<le> n \<Longrightarrow> ticks_ok (set_tick_phase k ?p s)"
      using ok True act jobs_phase [of s k ?p] by (simp add: ticks_ok_def)
    with True TickReads r ok show ?thesis by (simp add: tick_read_def)
  qed (use ok True in \<open>auto simp: tick_read_def\<close>)
qed (use ok in \<open>simp add: tick_read_def\<close>)

lemma tick_appended_ok:
  assumes ok: "ticks_ok s" shows "ticks_ok (tick_appended k r s)"
proof (cases "k < length (ck_jobs s) \<and> tj_phase (ck_jobs s ! k) = TickAppends")
  case True
  let ?item = "tj_item (ck_jobs s ! k)"
  have act: "active s k" and k: "k < length (ck_jobs s)" using True by (simp_all add: active_def)
  have "fits (ck_log s) ?item TickAppends" using ok True by (metis ticks_ok_def jobs_fit_def)
  then have out: "?item \<notin> fst ` set (ck_log s)" by simp
  have landed: "ticks_ok (set_tick_phase k (TickSettled a) (record_tick k s))" for a
    using ok out act True jobs_fit_record [of s k a] jobs_unique_phase [of "record_tick k s" k]
      jobs_claimed_phase [of "record_tick k s" k]
    by (simp add: ticks_ok_def)
  have lost: "ticks_ok (set_tick_phase k (TickSettled a) s)" if "a \<noteq> Ticked" for a
    using ok act k that jobs_phase [of s k "TickSettled a"] by (simp add: ticks_ok_def)
  show ?thesis
  proof (cases r)
    case TickRecorded
    with True landed show ?thesis by (simp add: tick_appended_def)
  next
    case (TickNotRecorded l e)
    let ?p = "TickSettled (TickFailed (tick_error (ck_session s) e))"
    let ?s = "set_tick_phase k ?p (if l then record_tick k s else s)"
    have "ticks_ok ?s" using landed lost by simp
    moreover have "tj_item (ck_jobs ?s ! j) \<noteq> ?item" if "active ?s j" for j
      using that ok act k by (auto simp: ticks_ok_def jobs_unique_def active_set_tick_phase split: if_splits)
    ultimately have "ticks_ok (?s\<lparr>ck_claims := jdel (ck_claims ?s) ?item\<rparr>)"
      by (intro release_ok [of ?s ?s]) auto
    moreover have "ck_claims ?s = ck_claims s" by simp
    ultimately show ?thesis using TickNotRecorded True by (simp add: tick_appended_def)
  qed
qed (use ok in \<open>auto simp: tick_appended_def\<close>)

fun whole_reads :: "checklist_event \<Rightarrow> bool" where
  "whole_reads (TickRead k (ReadBroken n)) = False"
| "whole_reads _ = True"

lemma checklist_step_ok: "ticks_ok s \<Longrightarrow> whole_reads e \<Longrightarrow> ticks_ok (checklist_step e s)"
proof (cases e)
  case (TickItem ended template who item)
  assume "ticks_ok s"
  with TickItem tick_item_ok [of s ended template who item] show ?thesis by (simp add: tick_item_def)
next
  case (TickRead k r)
  assume "ticks_ok s" "whole_reads e"
  with TickRead show ?thesis by (cases r) (auto intro: tick_read_ok)
next
  case RemoveChecklist
  assume "ticks_ok s"
  with RemoveChecklist show ?thesis
    by (simp add: remove_checklist_def ticks_ok_def jobs_fit_def jobs_unique_def jobs_claimed_def)
qed (simp add: tick_appended_ok)

lemma checklist_run_ok: "ticks_ok s \<Longrightarrow> list_all whole_reads es \<Longrightarrow> ticks_ok (checklist_run es s)"
  unfolding checklist_run_def by (induction es arbitrary: s) (auto simp: checklist_step_ok)

text \<open>
  C28: As long as the record can be read, however ticks of any callers, failing appends and a removal
  interleave, every item is recorded at most once, and a caller who is told that an item is
  ticked finds it in the record.
\<close>

theorem ticked_once:
  fixes i :: session_id
  assumes "list_all whole_reads es"
  defines "s \<equiv> checklist_run es (new_checklist i)"
  shows "distinct (map fst (ck_log s)) \<and>
    list_all (\<lambda>j. tj_phase j \<noteq> TickSettled Ticked \<or> tj_item j \<in> fst ` set (ck_log s)) (ck_jobs s)"
proof -
  have "ticks_ok (new_checklist i)"
    by (simp add: ticks_ok_def jobs_fit_def jobs_unique_def jobs_claimed_def new_checklist_def active_def)
  then have ok: "ticks_ok s" unfolding s_def using assms(1) by (rule checklist_run_ok)
  then have fit: "fits (ck_log s) (tj_item (ck_jobs s ! k)) (tj_phase (ck_jobs s ! k))" if "k < length (ck_jobs s)" for k
    using that by (simp add: ticks_ok_def jobs_fit_def)
  have "tj_phase (ck_jobs s ! k) \<noteq> TickSettled Ticked \<or> tj_item (ck_jobs s ! k) \<in> fst ` set (ck_log s)"
    if "k < length (ck_jobs s)" for k
    using fit [OF that] by (cases "tj_phase (ck_jobs s ! k)") auto
  with ok show ?thesis by (simp add: ticks_ok_def list_all_length)
qed

theorem ticked_once_witness:
  "ck_log (checklist_run
     [TickItem False [''a'', ''b''] ''ann'' ''a'', TickItem False [''a'', ''b''] ''bob'' ''a'', TickRead 0 (ReadWhole 0),
      TickAppended 0 TickRecorded] (new_checklist ''s'')) = [(''a'', ''ann'')] \<and>
   distinct [''a'']"
proof -
  let ?es = "[TickItem False [''a'', ''b''] ''ann'' ''a'', TickItem False [''a'', ''b''] ''bob'' ''a'', TickRead 0 (ReadWhole 0),
      TickAppended 0 TickRecorded]"
  have "ck_log (checklist_run ?es (new_checklist ''s'')) = [(''a'', ''ann'')]"
    by (simp add: checklist_run_def new_checklist_def tick_item_def tick_read_def tick_appended_def set_tick_phase_def
        record_tick_def seen_items_def)
  moreover from this ticked_once [of ?es "''s''"] have "distinct [''a'']" by simp
  ultimately show ?thesis by blast
qed

text \<open>
  A record that cannot be read to its end makes a tick of an item that is already recorded append
  it once more.
\<close>

lemma broken_read_ticks_twice:
  "map fst (ck_log (checklist_run
     [TickItem False [''a''] ''ann'' ''a'', TickRead 0 (ReadWhole 0), TickAppended 0 (TickNotRecorded True (NotFound ''s'')),
      TickItem False [''a''] ''bob'' ''a'', TickRead 1 (ReadBroken 0), TickAppended 1 TickRecorded] (new_checklist ''s''))) =
   [''a'', ''a'']"
  by (simp add: checklist_run_def new_checklist_def tick_item_def tick_read_def tick_appended_def set_tick_phase_def
      record_tick_def seen_items_def)

end
