(* ===== verification/Host_Config.thy ===== *)
theory Host_Config
  imports Workspaces Complex_Main
begin

text \<open>
  The host's configuration (\<open>src/config/index.ts\<close>): \<open>loadConfig\<close> reads the environment and either
  refuses with the first field that is wrong or yields the whole configuration. \<open>Number\<close> is a
  parameter, a rational or none for a value that is not finite; so are \<open>JSON.parse\<close> and the calls
  that resolve a directory. Strings are of code units up to U+00FF.
\<close>

section \<open>Fields\<close>

type_synonym env = "string \<Rightarrow> string option"

datatype config_error =
    MissingField string
  | InvalidField string string
  | InsecureBind string

datatype auth_config =
    ProxyHeader string
  | OpenWebui string string
  | SharedSecret string string

datatype cjson =
    CNull
  | CBool bool
  | CNum "rat option"
  | CStr string
  | CArr "cjson list"
  | CObj "(string \<times> cjson) list"

text \<open>The parts of the platform the configuration is read with.\<close>

record platform =
  pl_windows :: bool
  pl_number :: "string \<Rightarrow> rat option"
  pl_json :: "string \<Rightarrow> (string, cjson) result"
  pl_resolve :: "string \<Rightarrow> (string, string) result"
  pl_make_and_resolve :: "string \<Rightarrow> (string, string) result"

definition js_space :: "char \<Rightarrow> bool" where
  "js_space c \<longleftrightarrow> of_char c \<in> {9, 10, 11, 12, 13, 32, 160 :: nat}"

definition trim :: "string \<Rightarrow> string" where
  "trim s = rev (dropWhile js_space (rev (dropWhile js_space s)))"

definition in_quotes :: "string \<Rightarrow> string" where
  "in_quotes s = CHR 0x27 # s @ [CHR 0x27]"

definition is_blank :: "string option \<Rightarrow> bool" where
  "is_blank raw \<longleftrightarrow> raw = None \<or> raw = Some []"

definition require_env :: "env \<Rightarrow> string \<Rightarrow> (config_error, string) result" where
  "require_env env name = (case env name of None \<Rightarrow> Inl (MissingField name) | Some v \<Rightarrow> if v = [] then Inl (MissingField name) else Inr v)"

definition non_negative_integer :: "rat option \<Rightarrow> nat option" where
  "non_negative_integer n =
     (case n of None \<Rightarrow> None | Some q \<Rightarrow> if of_int (floor q) \<noteq> q \<or> q < 0 then None else Some (nat (floor q)))"

definition parse_int_value :: "platform \<Rightarrow> string \<Rightarrow> string \<Rightarrow> (config_error, nat) result" where
  "parse_int_value pl name raw =
     (case non_negative_integer (pl_number pl raw) of
        None \<Rightarrow> Inl (InvalidField name (''expected a non-negative integer, got '' @ in_quotes raw))
      | Some n \<Rightarrow> Inr n)"

definition parse_int_env :: "platform \<Rightarrow> env \<Rightarrow> string \<Rightarrow> nat \<Rightarrow> (config_error, nat) result" where
  "parse_int_env pl env name fallback =
     (case env name of
        None \<Rightarrow> Inr fallback
      | Some raw \<Rightarrow> if raw = [] then Inr fallback else parse_int_value pl name raw)"

definition comma_list :: "string \<Rightarrow> string list" where
  "comma_list raw = filter (\<lambda>s. s \<noteq> []) (map trim (split_on (CHR '','') raw))"

definition parse_list :: "env \<Rightarrow> string \<Rightarrow> string list" where
  "parse_list env name = (case env name of None \<Rightarrow> [] | Some raw \<Rightarrow> if trim raw = [] then [] else comma_list raw)"

definition parse_auth :: "env \<Rightarrow> (config_error, auth_config) result" where
  "parse_auth env =
     and_then (require_env env ''AUTH_MODE'') (\<lambda>mode.
       if mode = ''proxy-header'' then
         and_then (require_env env ''AUTH_USER_HEADER'') (\<lambda>user. Inr (ProxyHeader user))
       else if mode = ''open-webui'' then
         and_then (require_env env ''AUTH_USER_HEADER'') (\<lambda>user.
         and_then (require_env env ''AUTH_SESSION_HEADER'') (\<lambda>session. Inr (OpenWebui user session)))
       else if mode = ''shared-secret'' then
         and_then (require_env env ''AUTH_COOKIE_NAME'') (\<lambda>cookie.
         and_then (require_env env ''AUTH_SECRET'') (\<lambda>secret. Inr (SharedSecret cookie secret)))
       else Inl (InvalidField ''AUTH_MODE'' (''unknown auth mode '' @ in_quotes mode)))"

fun resolve_all :: "platform \<Rightarrow> string list \<Rightarrow> (config_error, resolved_path list) result" where
  "resolve_all pl [] = Inr []"
| "resolve_all pl (c # cs) =
     (case pl_resolve pl c of
        Inl detail \<Rightarrow> Inl (InvalidField ''WORKSPACE_ROOTS'' (''cannot resolve '' @ in_quotes c @ '': '' @ detail))
      | Inr p \<Rightarrow> and_then (resolve_all pl cs) (\<lambda>ps. Inr (strip_extended_prefix p # ps)))"

definition parse_workspace_roots :: "platform \<Rightarrow> env \<Rightarrow> (config_error, resolved_path list) result" where
  "parse_workspace_roots pl env =
     and_then (require_env env ''WORKSPACE_ROOTS'') (\<lambda>raw.
       if comma_list raw = [] then Inl (InvalidField ''WORKSPACE_ROOTS'' ''must name at least one root'')
       else resolve_all pl (comma_list raw))"

text \<open>The storage root is made if it is not there, and may overlap no workspace root.\<close>

definition parse_storage_root :: "platform \<Rightarrow> env \<Rightarrow> resolved_path list \<Rightarrow> (config_error, resolved_path) result" where
  "parse_storage_root pl env roots =
     and_then (require_env env ''STORAGE_ROOT'') (\<lambda>raw.
       (case pl_make_and_resolve pl raw of
          Inl detail \<Rightarrow> Inl (InvalidField ''STORAGE_ROOT'' (''cannot resolve '' @ in_quotes raw @ '': '' @ detail))
        | Inr p \<Rightarrow>
            (case find (paths_overlap (pl_windows pl) (strip_extended_prefix p)) roots of
               Some other \<Rightarrow> Inl (InvalidField ''STORAGE_ROOT'' (''overlaps workspace root '' @ in_quotes other))
             | None \<Rightarrow> Inr (strip_extended_prefix p))))"

definition object_field :: "cjson \<Rightarrow> string \<Rightarrow> cjson option" where
  "object_field v key = (case v of CObj fs \<Rightarrow> map_of fs key | _ \<Rightarrow> None)"

definition checklist_entry :: "cjson \<Rightarrow> (string \<times> string) option" where
  "checklist_entry entry =
     (case object_field entry ''id'' of
        Some (CStr i) \<Rightarrow> (case object_field entry ''label'' of Some (CStr label) \<Rightarrow> Some (i, label) | _ \<Rightarrow> None)
      | _ \<Rightarrow> None)"

fun checklist_items :: "cjson list \<Rightarrow> (string \<times> string) list \<Rightarrow> (config_error, (string \<times> string) list) result" where
  "checklist_items [] items = Inr items"
| "checklist_items (entry # rest) items =
     (case checklist_entry entry of
        Some (i, label) \<Rightarrow>
          if i \<in> fst ` set items
          then Inl (InvalidField ''CHECKLIST_JSON'' (''duplicate item id '' @ in_quotes i))
          else checklist_items rest (items @ [(i, label)])
      | None \<Rightarrow> Inl (InvalidField ''CHECKLIST_JSON'' ''each item needs a string id and a string label''))"

definition parse_json_env :: "platform \<Rightarrow> env \<Rightarrow> string \<Rightarrow> (config_error, cjson option) result" where
  "parse_json_env pl env name =
     (case env name of
        None \<Rightarrow> Inr None
      | Some raw \<Rightarrow>
          if trim raw = [] then Inr None
          else
            (case pl_json pl raw of
               Inl detail \<Rightarrow> Inl (InvalidField name (''not valid JSON: '' @ detail))
             | Inr v \<Rightarrow> Inr (Some v)))"

definition parse_checklist :: "platform \<Rightarrow> env \<Rightarrow> (config_error, (string \<times> string) list) result" where
  "parse_checklist pl env =
     and_then (parse_json_env pl env ''CHECKLIST_JSON'') (\<lambda>v.
       case v of
         None \<Rightarrow> Inr []
       | Some (CArr entries) \<Rightarrow> checklist_items entries []
       | Some _ \<Rightarrow> Inl (InvalidField ''CHECKLIST_JSON'' ''must be an array''))"

record config_rates =
  cr_input :: rat
  cr_output :: rat
  cr_cache_read :: rat
  cr_cache_create :: rat

fun finite_number :: "cjson option \<Rightarrow> rat option" where
  "finite_number (Some (CNum q)) = q"
| "finite_number _ = None"

definition rate_field :: "cjson \<Rightarrow> string \<Rightarrow> (config_error, rat) result" where
  "rate_field v name =
     (let wrong = Inl (InvalidField ''TOKEN_RATES_JSON'' (''field '' @ in_quotes name @ '' must be a non-negative number''))
      in case finite_number (object_field v name) of None \<Rightarrow> wrong | Some q \<Rightarrow> if q < 0 then wrong else Inr q)"

definition rates_of :: "cjson \<Rightarrow> (config_error, config_rates option) result" where
  "rates_of v =
     and_then (rate_field v ''inputTokens'') (\<lambda>i.
     and_then (rate_field v ''outputTokens'') (\<lambda>out.
     and_then (rate_field v ''cacheRead'') (\<lambda>r.
     and_then (rate_field v ''cacheCreate'') (\<lambda>c.
       Inr (Some \<lparr>cr_input = i, cr_output = out, cr_cache_read = r, cr_cache_create = c\<rparr>)))))"

fun is_object :: "cjson \<Rightarrow> bool" where
  "is_object (CObj fs) = True"
| "is_object _ = False"

definition parse_token_rates :: "platform \<Rightarrow> env \<Rightarrow> (config_error, config_rates option) result" where
  "parse_token_rates pl env =
     and_then (parse_json_env pl env ''TOKEN_RATES_JSON'') (\<lambda>v.
       case v of
         None \<Rightarrow> Inr None
       | Some w \<Rightarrow>
           if is_object w then rates_of w else Inl (InvalidField ''TOKEN_RATES_JSON'' ''must be an object''))"

text \<open>\<open>/^127\.(\d{1,3})\.(\d{1,3})\.(\d{1,3})$/\<close> with every octet at most 255.\<close>

definition loopback_octet :: "string \<Rightarrow> bool" where
  "loopback_octet s \<longleftrightarrow>
     s \<noteq> [] \<and> length s \<le> 3 \<and> list_all (\<lambda>c. c \<in> set ''0123456789'') s \<and> digits_value s \<le> 255"

definition bind_is_routable :: "string \<Rightarrow> bool" where
  "bind_is_routable host =
     (let lower = map lower_char host
      in if lower = ''::1'' \<or> lower = ''localhost'' then False
         else
           (case split_on (CHR ''.'') lower of
              [n, a, b, c] \<Rightarrow> \<not> (n = ''127'' \<and> loopback_octet a \<and> loopback_octet b \<and> loopback_octet c)
            | _ \<Rightarrow> True))"

section \<open>The configuration\<close>

record config_caps =
  cc_ring_capacity :: nat
  cc_tool_result_bytes :: nat
  cc_subscriber_queue_high_water :: nat
  cc_keepalive_ms :: nat
  cc_audit_page_max :: nat
  cc_review_body_bytes :: nat
  cc_requisition_text_bytes :: nat
  cc_standing_rule_bytes :: nat
  cc_attachment_bytes :: nat
  cc_attachment_count :: nat
  cc_session_tool_output_bytes :: nat
  cc_permission_reason_bytes :: nat

definition parse_config_caps :: "platform \<Rightarrow> env \<Rightarrow> (config_error, config_caps) result" where
  "parse_config_caps pl env =
     and_then (parse_int_env pl env ''CAPS_RING_CAPACITY'' 2000) (\<lambda>ring.
     and_then (parse_int_env pl env ''CAPS_TOOL_RESULT_BYTES'' (64 * 1024)) (\<lambda>tool.
     and_then (parse_int_env pl env ''CAPS_SUBSCRIBER_QUEUE_HIGH_WATER'' 1000) (\<lambda>queue.
     and_then (parse_int_env pl env ''CAPS_KEEPALIVE_MS'' 15000) (\<lambda>keepalive.
     and_then (parse_int_env pl env ''CAPS_AUDIT_PAGE_MAX'' 200) (\<lambda>audit.
     and_then (parse_int_env pl env ''CAPS_REVIEW_BODY_BYTES'' (16 * 1024)) (\<lambda>review.
     and_then (parse_int_env pl env ''CAPS_REQUISITION_TEXT_BYTES'' (4 * 1024)) (\<lambda>requisition.
     and_then (parse_int_env pl env ''CAPS_STANDING_RULE_BYTES'' 1024) (\<lambda>rule.
     and_then (parse_int_env pl env ''CAPS_ATTACHMENT_BYTES'' (10 * 1024 * 1024)) (\<lambda>attachment.
     and_then (parse_int_env pl env ''CAPS_ATTACHMENT_COUNT'' 5) (\<lambda>n.
     and_then (parse_int_env pl env ''CAPS_SESSION_TOOL_OUTPUT_BYTES'' (256 * 1024 * 1024)) (\<lambda>output.
     and_then (parse_int_env pl env ''CAPS_PERMISSION_REASON_BYTES'' (4 * 1024)) (\<lambda>reason.
       Inr \<lparr>cc_ring_capacity = ring, cc_tool_result_bytes = tool, cc_subscriber_queue_high_water = queue,
            cc_keepalive_ms = keepalive, cc_audit_page_max = audit, cc_review_body_bytes = review,
            cc_requisition_text_bytes = requisition, cc_standing_rule_bytes = rule,
            cc_attachment_bytes = attachment, cc_attachment_count = n, cc_session_tool_output_bytes = output,
            cc_permission_reason_bytes = reason\<rparr>))))))))))))"

datatype edge_kind = EdgeSse | EdgeWs

record host_config =
  hc_host :: string
  hc_port :: nat
  hc_auth :: auth_config
  hc_roots :: "resolved_path list"
  hc_storage_root :: resolved_path
  hc_allowed_origins :: "string list"
  hc_trust_proxy :: "string list"
  hc_caps :: config_caps
  hc_cookie_max_age :: nat
  hc_include_raw :: bool
  hc_stream_deltas :: bool
  hc_terse :: bool
  hc_budget :: "nat option"
  hc_warn_fraction :: "rat option"
  hc_rates :: "config_rates option"
  hc_currency :: "string option"
  hc_checklist :: "(string \<times> string) list"
  hc_edge :: edge_kind

definition cookie_max_age :: "platform \<Rightarrow> env \<Rightarrow> auth_config \<Rightarrow> (config_error, nat) result" where
  "cookie_max_age pl env auth =
     (let default = 30 * 24 * 60 * 60
      in case auth of
           SharedSecret _ _ \<Rightarrow> parse_int_env pl env ''SESSION_COOKIE_MAX_AGE_SECONDS'' default
         | _ \<Rightarrow> Inr default)"

definition parse_budget :: "platform \<Rightarrow> env \<Rightarrow> (config_error, nat option) result" where
  "parse_budget pl env =
     (case env ''SESSION_TOKEN_BUDGET'' of
        None \<Rightarrow> Inr None
      | Some raw \<Rightarrow>
          if raw = [] then Inr None else and_then (parse_int_value pl ''SESSION_TOKEN_BUDGET'' raw) (\<lambda>n. Inr (Some n)))"

definition parse_warn_fraction :: "platform \<Rightarrow> env \<Rightarrow> nat option \<Rightarrow> (config_error, rat option) result" where
  "parse_warn_fraction pl env budget =
     (let name = ''SESSION_TOKEN_BUDGET_WARN_FRACTION'' in
      case env name of
        None \<Rightarrow> Inr None
      | Some raw \<Rightarrow>
          if raw = [] then Inr None
          else
            (case pl_number pl raw of
               None \<Rightarrow> Inl (InvalidField name (''expected a number strictly between 0 and 1, got '' @ in_quotes raw))
             | Some q \<Rightarrow>
                 if q \<le> 0 \<or> 1 \<le> q
                 then Inl (InvalidField name (''expected a number strictly between 0 and 1, got '' @ in_quotes raw))
                 else if budget = None
                 then Inl (InvalidField name ''set while SESSION_TOKEN_BUDGET is unset; the warning could never fire'')
                 else Inr (Some q)))"

definition parse_edge :: "env \<Rightarrow> (config_error, edge_kind) result" where
  "parse_edge env =
     (let raw = (case env ''EDGE'' of None \<Rightarrow> ''sse'' | Some e \<Rightarrow> if e = [] then ''sse'' else e)
      in if raw = ''sse'' then Inr EdgeSse else if raw = ''ws'' then Inr EdgeWs
         else Inl (InvalidField ''EDGE'' (''must be '' @ in_quotes ''sse'' @ '' or '' @ in_quotes ''ws'' @ '', got '' @ in_quotes raw)))"

definition parse_currency :: "env \<Rightarrow> string option" where
  "parse_currency env =
     (case env ''CURRENCY'' of None \<Rightarrow> None | Some raw \<Rightarrow> if trim raw = [] then None else Some (trim raw))"

fun trusts_a_header :: "auth_config \<Rightarrow> bool" where
  "trusts_a_header (ProxyHeader _) = True"
| "trusts_a_header (OpenWebui _ _) = True"
| "trusts_a_header (SharedSecret _ _) = False"

definition load_config :: "platform \<Rightarrow> env \<Rightarrow> (config_error, host_config) result" where
  "load_config pl env =
     (let host = (case env ''BIND_HOST'' of None \<Rightarrow> ''127.0.0.1'' | Some h \<Rightarrow> h) in
     and_then (parse_int_env pl env ''BIND_PORT'' 3000) (\<lambda>port.
     and_then (parse_auth env) (\<lambda>auth.
     and_then (parse_workspace_roots pl env) (\<lambda>roots.
     and_then (parse_storage_root pl env roots) (\<lambda>storage.
     and_then (parse_config_caps pl env) (\<lambda>caps.
     and_then (cookie_max_age pl env auth) (\<lambda>age.
     and_then (parse_budget pl env) (\<lambda>budget.
     and_then (parse_warn_fraction pl env budget) (\<lambda>fraction.
     and_then (parse_checklist pl env) (\<lambda>checklist.
     and_then (parse_token_rates pl env) (\<lambda>rates.
     and_then (parse_edge env) (\<lambda>edge.
       if trusts_a_header auth \<and> bind_is_routable host \<and> parse_list env ''TRUST_PROXY'' = []
       then Inl (InsecureBind (host @ '':'' @ decimal_nat port))
       else Inr \<lparr>hc_host = host, hc_port = port, hc_auth = auth, hc_roots = roots, hc_storage_root = storage,
              hc_allowed_origins = parse_list env ''ALLOWED_ORIGINS'', hc_trust_proxy = parse_list env ''TRUST_PROXY'',
              hc_caps = caps, hc_cookie_max_age = age, hc_include_raw = (env ''INCLUDE_RAW'' = Some ''true''),
              hc_stream_deltas = (env ''STREAM_DELTAS'' = Some ''true''),
              hc_terse = (env ''OUTPUT_MODE'' \<noteq> Some ''normal''), hc_budget = budget, hc_warn_fraction = fraction,
              hc_rates = rates, hc_currency = parse_currency env, hc_checklist = checklist, hc_edge = edge\<rparr>))))))))))))"

section \<open>What an accepted configuration promises\<close>

fun auth_named :: "auth_config \<Rightarrow> bool" where
  "auth_named (ProxyHeader u) = (u \<noteq> [])"
| "auth_named (OpenWebui u s) = (u \<noteq> [] \<and> s \<noteq> [])"
| "auth_named (SharedSecret c s) = (c \<noteq> [] \<and> s \<noteq> [])"

definition rates_ok :: "config_rates \<Rightarrow> bool" where
  "rates_ok r \<longleftrightarrow> 0 \<le> cr_input r \<and> 0 \<le> cr_output r \<and> 0 \<le> cr_cache_read r \<and> 0 \<le> cr_cache_create r"

definition config_safe :: "bool \<Rightarrow> host_config \<Rightarrow> bool" where
  "config_safe windows c \<longleftrightarrow>
     auth_named (hc_auth c) \<and> hc_roots c \<noteq> [] \<and>
     list_all (\<lambda>r. \<not> paths_overlap windows (hc_storage_root c) r) (hc_roots c) \<and>
     distinct (map fst (hc_checklist c)) \<and> list_all rates_ok (case hc_rates c of None \<Rightarrow> [] | Some r \<Rightarrow> [r]) \<and>
     (case hc_warn_fraction c of None \<Rightarrow> True | Some q \<Rightarrow> 0 < q \<and> q < 1 \<and> hc_budget c \<noteq> None) \<and>
     \<not> (trusts_a_header (hc_auth c) \<and> bind_is_routable (hc_host c) \<and> hc_trust_proxy c = [])"

lemma require_env_named: "require_env env name = Inr v \<Longrightarrow> v \<noteq> []"
  by (auto simp: require_env_def split: option.splits if_splits)

lemma parse_auth_named: "parse_auth env = Inr a \<Longrightarrow> auth_named a"
  by (auto simp: parse_auth_def and_then_Inr dest: require_env_named split: if_splits)

lemma resolve_all_length: "resolve_all pl cs = Inr ps \<Longrightarrow> length ps = length cs"
  by (induction cs arbitrary: ps) (auto simp: and_then_Inr split: sum.splits)

lemma parse_workspace_roots_nonempty: "parse_workspace_roots pl env = Inr ps \<Longrightarrow> ps \<noteq> []"
  by (auto simp: parse_workspace_roots_def and_then_Inr dest: resolve_all_length split: if_splits)

lemma find_None_all: "find P xs = None \<Longrightarrow> list_all (\<lambda>x. \<not> P x) xs"
  by (simp add: find_None_iff list_all_iff)

lemma parse_storage_root_apart:
  assumes "parse_storage_root pl env roots = Inr p"
  shows "list_all (\<lambda>r. \<not> paths_overlap (pl_windows pl) p r) roots"
proof -
  from assms obtain raw where raw: "(case pl_make_and_resolve pl raw of
          Inl detail \<Rightarrow> Inl (InvalidField ''STORAGE_ROOT'' (''cannot resolve '' @ in_quotes raw @ '': '' @ detail))
        | Inr p \<Rightarrow>
            (case find (paths_overlap (pl_windows pl) (strip_extended_prefix p)) roots of
               Some other \<Rightarrow> Inl (InvalidField ''STORAGE_ROOT'' (''overlaps workspace root '' @ in_quotes other))
             | None \<Rightarrow> Inr (strip_extended_prefix p))) = Inr p"
    unfolding parse_storage_root_def and_then_Inr by blast
  then obtain q where "pl_make_and_resolve pl raw = Inr q" by (cases "pl_make_and_resolve pl raw") auto
  with raw show ?thesis
    by (cases "find (paths_overlap (pl_windows pl) (strip_extended_prefix q)) roots") (auto dest: find_None_all)
qed

lemma checklist_items_distinct:
  "checklist_items es items = Inr out \<Longrightarrow> distinct (map fst items) \<Longrightarrow> distinct (map fst out)"
  by (induction es items rule: checklist_items.induct) (auto split: option.splits if_splits)

lemma parse_checklist_distinct:
  assumes "parse_checklist pl env = Inr items" shows "distinct (map fst items)"
proof -
  from assms obtain v where "(case v of None \<Rightarrow> Inr [] | Some (CArr entries) \<Rightarrow> checklist_items entries []
       | Some _ \<Rightarrow> Inl (InvalidField ''CHECKLIST_JSON'' ''must be an array'')) = Inr items"
    unfolding parse_checklist_def and_then_Inr by blast
  then show ?thesis
    by (cases v rule: option.exhaust; cases "the v") (auto dest: checklist_items_distinct)
qed

lemma rate_field_nonneg: "rate_field v name = Inr q \<Longrightarrow> 0 \<le> q"
  by (auto simp: rate_field_def Let_def split: option.splits if_splits)

lemma rates_of_ok: "rates_of v = Inr (Some r) \<Longrightarrow> rates_ok r"
  unfolding rates_of_def and_then_Inr rates_ok_def by (auto dest: rate_field_nonneg)

lemma parse_token_rates_ok: "parse_token_rates pl env = Inr (Some r) \<Longrightarrow> rates_ok r"
  unfolding parse_token_rates_def and_then_Inr by (auto dest: rates_of_ok split: option.splits if_splits)

lemma parse_warn_fraction_between:
  "parse_warn_fraction pl env budget = Inr (Some q) \<Longrightarrow> 0 < q \<and> q < 1 \<and> budget \<noteq> None"
  by (auto simp: parse_warn_fraction_def Let_def split: option.splits if_splits)

lemma load_config_parts:
  "load_config pl env = Inr c \<Longrightarrow>
   parse_auth env = Inr (hc_auth c) \<and> parse_workspace_roots pl env = Inr (hc_roots c) \<and>
   parse_storage_root pl env (hc_roots c) = Inr (hc_storage_root c) \<and>
   parse_warn_fraction pl env (hc_budget c) = Inr (hc_warn_fraction c) \<and>
   parse_checklist pl env = Inr (hc_checklist c) \<and> parse_token_rates pl env = Inr (hc_rates c) \<and>
   \<not> (trusts_a_header (hc_auth c) \<and> bind_is_routable (hc_host c) \<and> hc_trust_proxy c = [])"
  by (auto simp: load_config_def Let_def and_then_Inr split: if_splits)

text \<open>
  C25: Whatever the environment, a host that accepts its configuration names its credentials, has a
  workspace root, keeps its own directory apart from every workspace root, has no two checklist
  items of one name, no negative rate and a warning only within a budget; and when it trusts a header for who its users are, it either is not reachable from
  another machine or names the proxies it trusts.
\<close>

theorem accepted_config_safe:
  assumes "load_config pl env = Inr c"
  shows "config_safe (pl_windows pl) c"
proof -
  note parts = load_config_parts [OF assms]
  from parts have "case hc_warn_fraction c of None \<Rightarrow> True | Some q \<Rightarrow> 0 < q \<and> q < 1 \<and> hc_budget c \<noteq> None"
    using parse_warn_fraction_between by (auto split: option.split)
  moreover from parts have "list_all rates_ok (case hc_rates c of None \<Rightarrow> [] | Some r \<Rightarrow> [r])"
    using parse_token_rates_ok by (auto split: option.split)
  ultimately show ?thesis
    using parts parse_auth_named parse_workspace_roots_nonempty parse_storage_root_apart parse_checklist_distinct
    unfolding config_safe_def by blast
qed

definition example_platform :: platform where
  "example_platform =
     \<lparr>pl_windows = False, pl_number = (\<lambda>s. if s = ''0.5'' then Some (1 / 2) else Some (of_nat (digits_value s))),
      pl_json = (\<lambda>s. Inr (CArr [CObj [(''id'', CStr ''a''), (''label'', CStr ''A'')]])), pl_resolve = Inr,
      pl_make_and_resolve = Inr\<rparr>"

definition example_env :: env where
  "example_env =
     map_of [(''AUTH_MODE'', ''proxy-header''), (''AUTH_USER_HEADER'', ''x-user''), (''WORKSPACE_ROOTS'', ''/w, /v''),
       (''STORAGE_ROOT'', ''/state''), (''SESSION_TOKEN_BUDGET'', ''100''),
       (''SESSION_TOKEN_BUDGET_WARN_FRACTION'', ''0.5''), (''CHECKLIST_JSON'', ''[]'')]"

theorem accepted_config_safe_witness:
  "\<exists>c. load_config example_platform example_env = Inr c \<and> config_safe False c \<and> hc_roots c = [''/w'', ''/v''] \<and>
       hc_warn_fraction c = Some (1 / 2)"
proof -
  have "\<exists>c. load_config example_platform example_env = Inr c \<and> hc_roots c = [''/w'', ''/v''] \<and>
       hc_warn_fraction c = Some (1 / 2)"
    by (simp add: load_config_def example_env_def parse_int_env_def parse_auth_def require_env_def
        parse_workspace_roots_def comma_list_def trim_def js_space_def example_platform_def parse_storage_root_def
        strip_extended_prefix_def extended_prefix_def unc_prefix_def paths_overlap_def is_inside_root_def
        normalise_for_compare_def path_sep_def parse_config_caps_def cookie_max_age_def parse_budget_def
        parse_int_value_def non_negative_integer_def digits_value_def parse_warn_fraction_def parse_checklist_def
        parse_json_env_def object_field_def checklist_entry_def parse_token_rates_def parse_edge_def parse_list_def bind_is_routable_def
        lower_char_def loopback_octet_def Let_def)
  moreover have "pl_windows example_platform = False" by (simp add: example_platform_def)
  ultimately show ?thesis using accepted_config_safe [of example_platform example_env] by metis
qed

text \<open>The whole block 127.0.0.0/8 is loopback, whatever the leading zeros; an octet above 255 is not an address.\<close>

lemma bind_examples:
  "\<not> bind_is_routable ''LocalHost''" "\<not> bind_is_routable ''127.8.0.255''" "bind_is_routable ''127.0.0.256''"
  "bind_is_routable ''0.0.0.0''" "bind_is_routable ''127.0.0''"
  by code_simp+

end
