(* ===== verification/Identity.thy ===== *)
theory Identity
  imports Host_Config Truncation
begin

text \<open>
  Who a request comes from (\<open>src/identity/index.ts\<close>): the header a trusted proxy sets, or the cookie
  that carries the deployment's secret. The headers of a request are the entries of the object, in
  their order. \<open>decodeURIComponent\<close> is a parameter that is none where it throws.
\<close>

datatype identity_error =
    NoIdentity
  | UntrustedProxy string
  | BadSecret

datatype header_value = HeaderAbsent | HeaderText string | HeaderTexts "string list"

record identity_request =
  ir_headers :: "(string \<times> header_value) list"
  ir_remote :: string

definition shared_operator :: string where
  "shared_operator = ''shared''"

definition loopback_peers :: "string list" where
  "loopback_peers = [''127.0.0.1'', ''::1'', ''::ffff:127.0.0.1'']"

text \<open>The first entry of that name, whatever its case; of a repeated header the last value.\<close>

definition value_text :: "header_value \<Rightarrow> string option" where
  "value_text v =
     (case v of
        HeaderAbsent \<Rightarrow> None
      | HeaderText s \<Rightarrow> Some s
      | HeaderTexts ss \<Rightarrow> if ss = [] then None else Some (last ss))"

definition header :: "identity_request \<Rightarrow> string \<Rightarrow> string option" where
  "header req name =
     (case find (\<lambda>(k, v). map lower_char k = map lower_char name) (ir_headers req) of
        None \<Rightarrow> None
      | Some (k, v) \<Rightarrow> value_text v)"

text \<open>\<open>indexOf\<close> of the first equals sign splits a pair.\<close>

definition cookie_pair :: "string \<Rightarrow> (string \<times> string) option" where
  "cookie_pair pair =
     (let name = takeWhile (\<lambda>c. c \<noteq> CHR ''='') pair
      in if length name = length pair then None else Some (trim name, trim (drop (Suc (length name)) pair)))"

fun find_cookie :: "(string \<Rightarrow> string option) \<Rightarrow> string \<Rightarrow> string list \<Rightarrow> string option" where
  "find_cookie decode name [] = None"
| "find_cookie decode name (pair # pairs) =
     (case cookie_pair pair of
        None \<Rightarrow> find_cookie decode name pairs
      | Some (n, v) \<Rightarrow>
          if n \<noteq> name then find_cookie decode name pairs
          else Some (case decode v of None \<Rightarrow> v | Some d \<Rightarrow> d))"

definition cookie :: "(string \<Rightarrow> string option) \<Rightarrow> identity_request \<Rightarrow> string \<Rightarrow> string option" where
  "cookie decode req name =
     (case header req ''cookie'' of
        None \<Rightarrow> None
      | Some raw \<Rightarrow> find_cookie decode name (split_on (CHR '';'') raw))"

definition mapped_prefix :: string where
  "mapped_prefix = ''::ffff:''"

definition unmap_ipv4 :: "string \<Rightarrow> string" where
  "unmap_ipv4 address = (if take 7 address = mapped_prefix then drop 7 address else address)"

definition peer_is_trusted :: "string \<Rightarrow> string list \<Rightarrow> bool" where
  "peer_is_trusted remote trusted =
     (if trusted = [] then remote \<in> set loopback_peers \<or> unmap_ipv4 remote \<in> set loopback_peers
      else list_ex (\<lambda>a. unmap_ipv4 a = unmap_ipv4 remote) trusted)"

text \<open>
  The comparison of secrets: the bytes of both are compared to the end whatever their lengths.
  \<open>secrets_equal\<close> is what \<open>timingSafeEqual\<close> answers for two buffers of one length.
\<close>

definition secrets_equal :: "8 word list \<Rightarrow> 8 word list \<Rightarrow> bool" where
  "secrets_equal xs ys = list_all (\<lambda>(x, y). x = y) (zip xs ys)"

definition text_bytes :: "string \<Rightarrow> 8 word list" where
  "text_bytes s = utf8_encode (map of_char s)"

definition constant_time_equals :: "string \<Rightarrow> string \<Rightarrow> bool" where
  "constant_time_equals a b =
     (let left = text_bytes a; right = text_bytes b; same = (length left = length right)
      in secrets_equal left (if same then right else left) \<and> same)"

definition trusted_header :: "string list \<Rightarrow> string \<Rightarrow> identity_request \<Rightarrow> (identity_error, string) result" where
  "trusted_header trusted name req =
     (if \<not> peer_is_trusted (ir_remote req) trusted then Inl (UntrustedProxy (ir_remote req))
      else
        (case header req name of
           None \<Rightarrow> Inl NoIdentity
         | Some v \<Rightarrow> if trim v = [] then Inl NoIdentity else Inr (trim v)))"

definition secret_cookie :: "(string \<Rightarrow> string option) \<Rightarrow> string \<Rightarrow> string \<Rightarrow> identity_request \<Rightarrow> (identity_error, string) result" where
  "secret_cookie decode name secret req =
     (case cookie decode req name of
        None \<Rightarrow> Inl NoIdentity
      | Some presented \<Rightarrow>
          if presented = [] then Inl NoIdentity
          else if \<not> constant_time_equals presented secret then Inl BadSecret
          else Inr shared_operator)"

fun resolver_for ::
  "(string \<Rightarrow> string option) \<Rightarrow> auth_config \<Rightarrow> string list \<Rightarrow> identity_request \<Rightarrow> (identity_error, string) result" where
  "resolver_for decode (ProxyHeader user) trusted req = trusted_header trusted user req"
| "resolver_for decode (OpenWebui user session) trusted req = trusted_header trusted user req"
| "resolver_for decode (SharedSecret name secret) trusted req = secret_cookie decode name secret req"

section \<open>Who is believed\<close>

lemma secrets_equal_iff: "length xs = length ys \<Longrightarrow> secrets_equal xs ys \<longleftrightarrow> xs = ys"
  unfolding secrets_equal_def by (induction xs ys rule: list_induct2) auto

lemma text_bytes_inject: "text_bytes a = text_bytes b \<longleftrightarrow> a = b"
proof -
  have "list_all (\<lambda>cp. cp < 0x200000) (map (of_char :: char \<Rightarrow> nat) s)" for s
  proof -
    have "(of_char c :: nat) < 256" for c by (simp add: of_char_def) 
    then have "(of_char c :: nat) < 0x200000" for c by (rule less_trans) simp
    then show ?thesis by (simp add: list_all_iff)
  qed
  then have "utf8_decode (text_bytes s) = map of_char s" for s
    by (simp add: text_bytes_def utf8_decode_encode)
  moreover have "map (of_char :: char \<Rightarrow> nat) a = map of_char b \<longleftrightarrow> a = b"
    by (simp add: inj_map_eq_map inj_def)
  ultimately show ?thesis by metis
qed

lemma constant_time_equals_iff: "constant_time_equals a b \<longleftrightarrow> a = b"
  by (auto simp: constant_time_equals_def Let_def secrets_equal_iff text_bytes_inject)

lemma unmap_ipv4_mapped: "unmap_ipv4 (mapped_prefix @ a) = a"
  by (simp add: unmap_ipv4_def mapped_prefix_def)

text \<open>What must be the case for a request to be taken for an operator's.\<close>

fun entitled :: "(string \<Rightarrow> string option) \<Rightarrow> auth_config \<Rightarrow> string list \<Rightarrow> identity_request \<Rightarrow> string \<Rightarrow> bool" where
  "entitled decode (ProxyHeader user) trusted req who =
     (peer_is_trusted (ir_remote req) trusted \<and> map_option trim (header req user) = Some who)"
| "entitled decode (OpenWebui user session) trusted req who =
     (peer_is_trusted (ir_remote req) trusted \<and> map_option trim (header req user) = Some who)"
| "entitled decode (SharedSecret name secret) trusted req who =
     (cookie decode req name = Some secret \<and> who = shared_operator)"

text \<open>
  C26: A request is taken for an operator's exactly when it is entitled to it: its peer is a proxy the
  deployment trusts and the header names the operator, or its cookie carries the secret itself; and
  an operator's name is never empty.
\<close>

theorem resolved_iff_entitled:
  "resolver_for decode auth trusted req = Inr who \<longleftrightarrow>
   entitled decode auth trusted req who \<and> (case auth of SharedSecret _ s \<Rightarrow> s | _ \<Rightarrow> who) \<noteq> []"
  by (cases auth)
    (auto simp: trusted_header_def secret_cookie_def constant_time_equals_iff split: option.splits)

text \<open>
  With an empty list of proxies only loopback peers are believed, and of the block 127.0.0.0/8 only
  127.0.0.1, although the configuration counts the whole block as loopback.
\<close>

lemma other_loopback_is_untrusted:
  "\<not> bind_is_routable ''127.0.0.2''" "\<not> peer_is_trusted ''127.0.0.2'' []"
  by code_simp+

section \<open>The cookie of a login\<close>

text \<open>
  The cookie as it is sent back: the encoded secret has none of the characters that separate cookies
  and no space at its ends, and decodes to the secret. Other cookies may come before it, as long as
  none has its name.
\<close>

lemma trim_space: "js_space c \<Longrightarrow> trim (c # s) = trim s"
  by (simp add: trim_def)

lemma cookie_pair_split:
  "CHR ''='' \<notin> set name \<Longrightarrow> cookie_pair (name @ CHR ''='' # v) = Some (trim name, trim v)"
proof -
  assume "CHR ''='' \<notin> set name"
  then have "takeWhile (\<lambda>c. c \<noteq> CHR ''='') (name @ CHR ''='' # v) = name" by (induction name) auto
  then show ?thesis by (simp add: cookie_pair_def Let_def)
qed

lemma find_cookie_skips:
  "list_all (\<lambda>p. case cookie_pair p of None \<Rightarrow> True | Some (n, v) \<Rightarrow> n \<noteq> name) others \<Longrightarrow>
   find_cookie decode name (others @ pairs) = find_cookie decode name pairs"
  by (induction others) (auto split: option.splits)

text \<open>
  A browser that sends back the cookie of a successful login, after any cookies of other names, is
  recognised, whatever characters the secret has.
\<close>

theorem login_is_recognised:
  assumes encoded: "decode (encode secret) = Some secret" and secret: "secret \<noteq> []"
    and plain: "CHR '';'' \<notin> set (encode secret)" "trim (encode secret) = encode secret"
    and name: "CHR ''='' \<notin> set name" "CHR '';'' \<notin> set name" "trim name = name"
    and others: "list_all (\<lambda>p. CHR '';'' \<notin> set p \<and> (case cookie_pair p of None \<Rightarrow> True | Some (n, v) \<Rightarrow> n \<noteq> name)) others"
    and req: "header req ''cookie'' = Some (concat (map (\<lambda>p. p @ '';'') others) @ '' '' @ name @ ''='' @ encode secret)"
  shows "resolver_for decode (SharedSecret name secret) trusted req = Inr shared_operator"
proof -
  let ?pair = "'' '' @ name @ ''='' @ encode secret"
  have split: "split_on (CHR '';'') (concat (map (\<lambda>p. p @ '';'') others) @ ?pair) = others @ [?pair]"
    if "list_all (\<lambda>p. CHR '';'' \<notin> set p) others"
    using that plain name by (induction others) (simp_all add: split_on_line split_on_plain)
  have "cookie_pair ?pair = Some (name, encode secret)"
    using name plain cookie_pair_split [of "CHR '' '' # name" "encode secret"] trim_space [of "CHR '' ''" name]
    by (simp add: js_space_def)
  moreover have "list_all (\<lambda>p. CHR '';'' \<notin> set p) others"
    "list_all (\<lambda>p. case cookie_pair p of None \<Rightarrow> True | Some (n, v) \<Rightarrow> n \<noteq> name) others"
    using others by (simp_all add: list_all_iff)
  ultimately have "cookie decode req name = Some secret"
    using split req encoded find_cookie_skips [of name others decode "[?pair]"] by (simp add: cookie_def)
  with secret show ?thesis by (simp add: secret_cookie_def constant_time_equals_iff)
qed

theorem login_is_recognised_witness:
  "resolver_for (\<lambda>s. if s = ''a%3Bb'' then Some ''a;b'' else Some s) (SharedSecret ''sid'' ''a;b'') []
     \<lparr>ir_headers = [(''Cookie'', HeaderText ''theme=dark; sid=a%3Bb'')], ir_remote = ''10.0.0.1''\<rparr> = Inr shared_operator"
proof -
  let ?req = "\<lparr>ir_headers = [(''Cookie'', HeaderText ''theme=dark; sid=a%3Bb'')], ir_remote = ''10.0.0.1''\<rparr>"
  have "header ?req ''cookie'' = Some ''theme=dark; sid=a%3Bb''" by code_simp
  then show ?thesis
    by (intro login_is_recognised [where encode = "\<lambda>s. ''a%3Bb''" and others = "[''theme=dark'']"])
      (simp_all add: trim_def js_space_def cookie_pair_def Let_def)
qed

end
