(* ===== verification/Edge_Common.thy ===== *)
theory Edge_Common
  imports Session_Manager Identity Rpc_Values
begin

text \<open>
  What both transports of the console share (\<open>src/edge/http-common/index.ts\<close> and
  \<open>src/edge/error-envelope/index.ts\<close>): the codes and statuses of an answer, the mapping of the
  manager's and the records' errors to them, the reading of a body within its limit, the check of a
  request's origin, the parsing of positive integers, the probes, and the guard that drops a
  subscriber which does not drain its socket.
\<close>

section \<open>The error envelope\<close>

datatype api_error_code =
    Unauthenticated | BadOrigin | ApiNoSuchSession | NoSuchOutput | NoSuchAttachment | ApiNoSuchCheckpoint
  | ApiTurnInFlight | ApiSessionEnded | ApiWorkspaceBusy | ApiOutsideWorkspaceRoot | ApiBadRequest
  | RestoreCollision | CheckpointFailed | ApiAgentUnavailable | ApiNoSuchRequisition
  | ApiRequisitionNotApproved | ApiRequisitionConsumed | ApiAlreadyDecided | ApiNoSuchReview
  | ApiReviewFinal | ApiNoSuchItem | RecordWriteFailed | ApiPayrollUnavailable

fun status_for :: "api_error_code \<Rightarrow> nat" where
  "status_for Unauthenticated = 401"
| "status_for BadOrigin = 403"
| "status_for ApiNoSuchSession = 404"
| "status_for NoSuchOutput = 404"
| "status_for NoSuchAttachment = 404"
| "status_for ApiNoSuchCheckpoint = 404"
| "status_for ApiTurnInFlight = 409"
| "status_for ApiSessionEnded = 409"
| "status_for ApiWorkspaceBusy = 409"
| "status_for ApiOutsideWorkspaceRoot = 409"
| "status_for ApiBadRequest = 422"
| "status_for RestoreCollision = 409"
| "status_for CheckpointFailed = 500"
| "status_for ApiAgentUnavailable = 503"
| "status_for ApiNoSuchRequisition = 404"
| "status_for ApiRequisitionNotApproved = 409"
| "status_for ApiRequisitionConsumed = 409"
| "status_for ApiAlreadyDecided = 409"
| "status_for ApiNoSuchReview = 404"
| "status_for ApiReviewFinal = 409"
| "status_for ApiNoSuchItem = 404"
| "status_for RecordWriteFailed = 500"
| "status_for ApiPayrollUnavailable = 500"

text \<open>The code as it is spelled on the wire.\<close>

fun code_name :: "api_error_code \<Rightarrow> string" where
  "code_name Unauthenticated = ''unauthenticated''"
| "code_name BadOrigin = ''bad_origin''"
| "code_name ApiNoSuchSession = ''no_such_session''"
| "code_name NoSuchOutput = ''no_such_output''"
| "code_name NoSuchAttachment = ''no_such_attachment''"
| "code_name ApiNoSuchCheckpoint = ''no_such_checkpoint''"
| "code_name ApiTurnInFlight = ''turn_in_flight''"
| "code_name ApiSessionEnded = ''session_ended''"
| "code_name ApiWorkspaceBusy = ''workspace_busy''"
| "code_name ApiOutsideWorkspaceRoot = ''outside_workspace_root''"
| "code_name ApiBadRequest = ''bad_request''"
| "code_name RestoreCollision = ''restore_collision''"
| "code_name CheckpointFailed = ''checkpoint_failed''"
| "code_name ApiAgentUnavailable = ''agent_unavailable''"
| "code_name ApiNoSuchRequisition = ''no_such_requisition''"
| "code_name ApiRequisitionNotApproved = ''requisition_not_approved''"
| "code_name ApiRequisitionConsumed = ''requisition_consumed''"
| "code_name ApiAlreadyDecided = ''already_decided''"
| "code_name ApiNoSuchReview = ''no_such_review''"
| "code_name ApiReviewFinal = ''review_final''"
| "code_name ApiNoSuchItem = ''no_such_item''"
| "code_name RecordWriteFailed = ''record_write_failed''"
| "code_name ApiPayrollUnavailable = ''payroll_unavailable''"

record api_error =
  ae_code :: api_error_code
  ae_message :: string
  ae_detail :: "(string \<times> wire) list option"

definition plain_error :: "api_error_code \<Rightarrow> string \<Rightarrow> api_error" where
  "plain_error code msg = \<lparr>ae_code = code, ae_message = msg, ae_detail = None\<rparr>"

definition detailed :: "api_error_code \<Rightarrow> string \<Rightarrow> (string \<times> wire) list \<Rightarrow> api_error" where
  "detailed code msg detail = \<lparr>ae_code = code, ae_message = msg, ae_detail = Some detail\<rparr>"

section \<open>Errors of the records and of the manager\<close>

fun requisition_state_name :: "requisition_state \<Rightarrow> string" where
  "requisition_state_name RqOpen = ''open''"
| "requisition_state_name RqApproved = ''approved''"
| "requisition_state_name RqRejected = ''rejected''"
| "requisition_state_name RqConsumed = ''consumed''"

definition text_or_null :: "string option \<Rightarrow> wire" where
  "text_or_null t = (case t of None \<Rightarrow> WNull | Some s \<Rightarrow> WStr s)"

fun records_api_error :: "records_error \<Rightarrow> api_error" where
  "records_api_error (NoSuchRequisition i) =
     detailed ApiNoSuchRequisition ''no such requisition'' [(''requisitionId'', WStr i)]"
| "records_api_error (AlreadyDecided i by st) =
     detailed ApiAlreadyDecided ''this requisition has already been decided''
       [(''requisitionId'', WStr i), (''decidedBy'', text_or_null by), (''state'', WStr (requisition_state_name st))]"
| "records_api_error (RequisitionNotApproved i st) =
     detailed ApiRequisitionNotApproved ''this requisition is not approved''
       [(''requisitionId'', WStr i), (''state'', WStr (requisition_state_name st))]"
| "records_api_error (RequisitionConsumed i s) =
     detailed ApiRequisitionConsumed ''this requisition has already been spent''
       [(''requisitionId'', WStr i), (''sessionId'', text_or_null s)]"
| "records_api_error (NoSuchReview i) = detailed ApiNoSuchReview ''no such review'' [(''reviewId'', WStr i)]"
| "records_api_error (ReviewFinal i) = detailed ApiReviewFinal ''this review is already final'' [(''reviewId'', WStr i)]"
| "records_api_error (RecordsBadRequest f d) = detailed ApiBadRequest d [(''field'', WStr f)]"
| "records_api_error (RecordsStorage e) = plain_error RecordWriteFailed ''a record-log write failed''"

fun adapter_api_error :: "adapter_error \<Rightarrow> api_error" where
  "adapter_api_error (InvalidModel m) = detailed ApiBadRequest ''invalid model'' [(''field'', WStr ''model'')]"
| "adapter_api_error (UnsupportedVendor v) = detailed ApiBadRequest ''unsupported vendor'' [(''field'', WStr ''vendor'')]"
| "adapter_api_error (UnsupportedSandbox s) =
     detailed ApiBadRequest ''unsupported sandbox for this vendor'' [(''field'', WStr ''sandbox'')]"
| "adapter_api_error (AgentUnavailable im d) = plain_error ApiAgentUnavailable d"
| "adapter_api_error AdapterTurnInFlight = plain_error ApiAgentUnavailable ''the agent failed: turn_in_flight''"
| "adapter_api_error SessionClosed = plain_error ApiAgentUnavailable ''the agent failed: session_closed''"
| "adapter_api_error NoChild = plain_error ApiAgentUnavailable ''the agent failed: no_child''"
| "adapter_api_error (SchemaMismatch d) = plain_error ApiAgentUnavailable ''the agent failed: schema_mismatch''"
| "adapter_api_error (WriteFailed d) = plain_error ApiAgentUnavailable ''the agent failed: write_failed''"

fun checkpoint_api_error :: "checkpoint_error \<Rightarrow> api_error" where
  "checkpoint_api_error (NoSuchCheckpoint sha) =
     detailed ApiNoSuchCheckpoint ''no such checkpoint'' [(''sha'', WStr sha)]"
| "checkpoint_api_error (IgnoredPathCollision paths) =
     detailed RestoreCollision ''the restore would delete or overwrite ignored paths; nothing was changed''
       [(''paths'', WArr (map WStr paths))]"
| "checkpoint_api_error _ = plain_error CheckpointFailed ''a checkpoint operation failed''"

text \<open>\<open>apiErrorFor\<close>, one equation per case of its switch.\<close>

fun api_error_for :: "host_error \<Rightarrow> api_error" where
  "api_error_for (NoSuchSession i) = plain_error ApiNoSuchSession ''no such session''"
| "api_error_for (HostSessionEnded i) = plain_error ApiSessionEnded ''the session has ended and accepts no new turn''"
| "api_error_for (HostTurnInFlight i t) = detailed ApiTurnInFlight ''a turn is already running'' [(''turnId'', WStr t)]"
| "api_error_for (HostWorkspaceBusy cwd who) =
     detailed ApiWorkspaceBusy ''another live session holds this workspace'' [(''cwd'', WStr cwd), (''owner'', WStr who)]"
| "api_error_for (NoSuchItem i) = detailed ApiNoSuchItem ''no such checklist item'' [(''itemId'', WStr i)]"
| "api_error_for (HostBadRequest f d) = detailed ApiBadRequest d [(''field'', WStr f)]"
| "api_error_for (HostJail (OutsideWorkspaceRoot candidate roots)) =
     detailed ApiOutsideWorkspaceRoot ''cwd is outside every configured workspace root''
       [(''roots'', WArr (map WStr roots))]"
| "api_error_for (HostJail (Unresolvable p d)) =
     plain_error ApiOutsideWorkspaceRoot ''cwd is outside every configured workspace root''"
| "api_error_for (HostAdapter e) = adapter_api_error e"
| "api_error_for (HostCheckpoint e) = checkpoint_api_error e"
| "api_error_for (HostStorage e) = plain_error ApiAgentUnavailable ''session storage is unavailable''"
| "api_error_for (HostRecords e) = records_api_error e"
| "api_error_for (PayrollUnavailable e) =
     plain_error ApiPayrollUnavailable ''the payroll fold could not read the session spill''"

section \<open>Bodies\<close>

text \<open>
  \<open>readBody\<close>: the chunks of the request until they pass the limit. \<open>Buffer.toString\<close> and
  \<open>JSON.parse\<close> together are the parameter of the handlers.
\<close>

fun read_chunks :: "nat \<Rightarrow> nat \<Rightarrow> 8 word list list \<Rightarrow> 8 word list option" where
  "read_chunks limit taken [] = Some []"
| "read_chunks limit taken (c # cs) =
     (if limit < taken + length c then None
      else map_option (append c) (read_chunks limit (taken + length c) cs))"

definition read_body :: "nat \<Rightarrow> 8 word list list \<Rightarrow> 8 word list option" where
  "read_body limit chunks = read_chunks limit 0 chunks"

definition default_body_limit :: nat where
  "default_body_limit = 1024 * 1024"

definition message_body_limit_bytes :: "config_caps \<Rightarrow> nat" where
  "message_body_limit_bytes c =
     (let per_attachment = (cc_attachment_bytes c * 4 + 2) div 3 + 1024
      in cc_attachment_count c * per_attachment + 64 * 1024)"

lemma read_chunks_within:
  "read_chunks limit taken cs = (if taken + length (concat cs) \<le> limit \<or> cs = [] then Some (concat cs) else None)"
  by (induction cs arbitrary: taken) (auto simp: add.assoc)

lemma read_body_within: "read_body limit cs = (if length (concat cs) \<le> limit then Some (concat cs) else None)"
  by (auto simp: read_body_def read_chunks_within)

text \<open>Base64 makes four characters of every three bytes begun.\<close>

definition base64_length :: "nat \<Rightarrow> nat" where
  "base64_length n = 4 * ((n + 2) div 3)"

section \<open>Headers and origin\<close>

definition header_text :: "identity_request \<Rightarrow> string \<Rightarrow> string option" where
  "header_text req name = (case jget (ir_headers req) name of None \<Rightarrow> None | Some v \<Rightarrow> value_text v)"

definition origin_allowed :: "identity_request \<Rightarrow> string list \<Rightarrow> bool" where
  "origin_allowed req allowed =
     (if header_text req ''sec-fetch-site'' = Some ''same-origin'' then True
      else (case header_text req ''origin'' of None \<Rightarrow> False | Some origin \<Rightarrow> origin \<in> set allowed))"

definition is_mutating :: "string \<Rightarrow> bool" where
  "is_mutating m \<longleftrightarrow> m = ''POST'' \<or> m = ''PUT'' \<or> m = ''PATCH'' \<or> m = ''DELETE''"

section \<open>Numbers of a query\<close>

definition digit :: "char \<Rightarrow> bool" where
  "digit c \<longleftrightarrow> 48 \<le> (of_char c :: nat) \<and> (of_char c :: nat) \<le> 57"

fun positive_int_pattern :: "string \<Rightarrow> bool" where
  "positive_int_pattern [] = False"
| "positive_int_pattern (c # cs) = (digit c \<and> c \<noteq> CHR ''0'' \<and> list_all digit cs)"

definition safe_integers :: nat where
  "safe_integers = 9007199254740991"

text \<open>
  A value above \<open>safe_integers\<close> is rounded by \<open>Number\<close> to one that is no safe integer either: the
  spacing of the doubles there is at least one and \<open>safe_integers + 1\<close> is itself a double.
\<close>

definition parse_positive_int :: "string \<Rightarrow> nat option" where
  "parse_positive_int raw =
     (if \<not> positive_int_pattern raw then None
      else if digits_value raw \<le> safe_integers then Some (digits_value raw) else None)"

text \<open>
  \<open>Number.parseInt(raw, 10)\<close>: leading spaces, a sign, and the digits up to the first other character;
  none where it is \<open>NaN\<close> or too large for a double.
\<close>

definition parse_int :: "string \<Rightarrow> int option" where
  "parse_int raw =
     (let s = dropWhile js_space raw;
          negative = (s \<noteq> [] \<and> hd s = CHR ''-'');
          body = (if s \<noteq> [] \<and> hd s \<in> {CHR ''-'', CHR ''+''} then tl s else s);
          ds = takeWhile digit body; n = digits_value ds
      in
        if ds = [] \<or> 2 ^ 1024 - 2 ^ 970 \<le> n then None
        else Some (if negative then - int n else int n))"

text \<open>A digit stands for itself in the pattern of \<open>parseIsoTimestamp\<close>; \<open>Date.parse\<close> is a parameter.\<close>

definition iso_shape :: string where
  "iso_shape = ''dddd-dd-ddTdd:dd:dd.dddZ''"

definition iso_pattern :: "string \<Rightarrow> bool" where
  "iso_pattern s \<longleftrightarrow> list_all2 (\<lambda>p c. if p = CHR ''d'' then digit c else c = p) iso_shape s"

definition parse_iso_timestamp :: "(string \<Rightarrow> iso_timestamp option) \<Rightarrow> string \<Rightarrow> iso_timestamp option" where
  "parse_iso_timestamp date s = (if \<not> iso_pattern s then None else date s)"

section \<open>Probes\<close>

datatype probe_reply = ProbeReply nat string

definition handle_probe :: "string \<Rightarrow> string \<Rightarrow> bool \<Rightarrow> probe_reply option" where
  "handle_probe m path ready =
     (if m \<noteq> ''GET'' then None
      else if path = ''/livez'' then Some (ProbeReply 200 ''ok'')
      else if path = ''/readyz'' then
        Some (ProbeReply (if ready then 200 else 503) (if ready then ''ok'' else ''unavailable''))
      else None)"

section \<open>The guard against a stalled subscriber\<close>

record guard =
  gd_queued :: nat
  gd_dropped :: bool

definition fresh_guard :: guard where
  "fresh_guard = \<lparr>gd_queued = 0, gd_dropped = False\<rparr>"

definition guard_drain :: "guard \<Rightarrow> guard" where
  "guard_drain g = g\<lparr>gd_queued := 0\<rparr>"

text \<open>
  A chunk: whether it is handed to the stream, and whether the subscriber is dropped with it.
  \<open>flushed\<close> is what \<open>stream.write\<close> returns.
\<close>

definition guard_write :: "nat \<Rightarrow> bool \<Rightarrow> guard \<Rightarrow> guard \<times> bool \<times> bool" where
  "guard_write high_water flushed g =
     (if gd_dropped g then (g, False, False)
      else if flushed then (g, True, False)
      else
        (let g' = g\<lparr>gd_queued := gd_queued g + 1\<rparr>
         in if high_water < gd_queued g' then (g'\<lparr>gd_dropped := True\<rparr>, True, True) else (g', True, False)))"

text \<open>The number of chunks that were queued, not flushed, since the last drain, as the stream sees it.\<close>

datatype guard_event = GuardChunk bool | GuardDrained

fun guard_run :: "nat \<Rightarrow> guard_event list \<Rightarrow> guard \<times> nat \<times> nat \<Rightarrow> guard \<times> nat \<times> nat" where
  "guard_run hw [] s = s"
| "guard_run hw (GuardDrained # evs) (g, queued, drops) = guard_run hw evs (guard_drain g, 0, drops)"
| "guard_run hw (GuardChunk flushed # evs) (g, queued, drops) =
     (let (g', handed, dropped) = guard_write hw flushed g
      in guard_run hw evs
           (g', queued + (if handed \<and> \<not> flushed then 1 else 0), drops + (if dropped then 1 else 0)))"

lemma guard_run_bounded:
  "guard_run hw evs (g, queued, drops) = (g', queued', drops') \<Longrightarrow>
   queued \<le> hw + 1 \<Longrightarrow> (gd_dropped g \<or> gd_queued g = queued \<and> queued \<le> hw) \<Longrightarrow>
   drops = (if gd_dropped g then 1 else 0) \<Longrightarrow>
   queued' \<le> hw + 1 \<and> drops' = (if gd_dropped g' then 1 else 0)"
proof (induction hw evs "(g, queued, drops)" arbitrary: g queued drops rule: guard_run.induct)
  case (3 hw flushed evs g queued drops)
  obtain h handed dropped where w: "guard_write hw flushed g = (h, handed, dropped)" by (metis prod_cases3)
  show ?case
    by (rule 3(1) [OF w [symmetric] refl refl]) (use 3(2-) w in \<open>auto simp: guard_write_def Let_def split: if_splits\<close>)
qed (auto simp: guard_drain_def)

text \<open>
  A subscriber that does not drain has at most one chunk more than the high-water mark queued, and is
  dropped once.
\<close>

theorem stalled_subscriber_is_dropped:
  assumes "guard_run hw evs (fresh_guard, 0, 0) = (g, queued, drops)"
  shows "queued \<le> hw + 1 \<and> drops = (if gd_dropped g then 1 else 0)"
  using guard_run_bounded [OF assms] by (simp add: fresh_guard_def)

section \<open>Bodies that fit\<close>

lemma base64_length_le: "base64_length n \<le> (n * 4 + 2) div 3 + 2"
  unfolding base64_length_def by presburger

text \<open>
  A message whose attachments are within the caps is not refused for the length of its body, while
  each attachment's own JSON stays within 1022 bytes and the rest of the body within 64 KiB.
\<close>

lemma attachments_length:
  "list_all (\<lambda>(n, json). n \<le> most \<and> json \<le> 1022) atts \<Longrightarrow>
   (\<Sum>(n, json)\<leftarrow>atts. base64_length n + json) \<le> length atts * ((most * 4 + 2) div 3 + 1024)"
proof (induction atts)
  case (Cons a atts)
  obtain n json where a: "a = (n, json)" by (cases a)
  with Cons have "n \<le> most" "json \<le> 1022" by simp_all
  then have "base64_length n \<le> (most * 4 + 2) div 3 + 2"
    using base64_length_le [of n] div_le_mono [of "n * 4 + 2" "most * 4 + 2" 3] by linarith
  with Cons a \<open>json \<le> 1022\<close> show ?case by simp
qed simp

theorem message_body_fits:
  assumes "length atts \<le> cc_attachment_count c"
    and "list_all (\<lambda>(n, json). n \<le> cc_attachment_bytes c \<and> json \<le> 1022) atts"
    and "rest \<le> 64 * 1024"
    and "length (concat chunks) = (\<Sum>(n, json)\<leftarrow>atts. base64_length n + json) + rest"
  shows "read_body (message_body_limit_bytes c) chunks = Some (concat chunks)"
proof -
  have "(\<Sum>(n, json)\<leftarrow>atts. base64_length n + json) \<le> cc_attachment_count c * ((cc_attachment_bytes c * 4 + 2) div 3 + 1024)"
    using attachments_length [OF assms(2)] mult_le_mono1 [OF assms(1)] by (rule order_trans)
  with assms(3,4) show ?thesis by (simp add: read_body_within message_body_limit_bytes_def Let_def)
qed

end
