(* ===== verification/Http_Handlers.thy ===== *)
theory Http_Handlers
  imports Edge_Common
begin

text \<open>
  The handlers of the routes (\<open>createHttpHandlers\<close> of \<open>src/edge/http-common/index.ts\<close>): what each
  reads from the request, in the order of its checks, the call it makes, and the answer it gives to
  what the call returns. The calls are operations of the manager and of the records; what they
  return reaches a handler as a reply. \<open>JSON.parse\<close> of a body is a parameter, none where it throws.
\<close>

section \<open>Requests, calls and answers\<close>

record edge_request =
  eg_method :: string
  eg_path :: string
  eg_query :: "(string \<times> string) list"
  eg_identity :: identity_request
  eg_body :: "8 word list list"

record upload_text =
  ut_filename :: string
  ut_media_type :: string
  ut_data_base64 :: string

datatype edge_call =
    ListVendors
  | ListSessions principal_id
  | CreateSession principal_id string string "string option" "string option" "string option"
  | SendMessage session_id principal_id string "upload_text list"
  | AnswerPermission session_id principal_id permission_answer
  | InterruptTurn session_id principal_id turn_id
  | EndSession session_id principal_id
  | RemoveSession session_id principal_id
  | RenameSession session_id principal_id "string option"
  | GetSession session_id principal_id
  | OpenToolOutput session_id principal_id turn_id call_id
  | OpenToolOutputWindow session_id principal_id turn_id call_id tool_output_window
  | StatToolOutput session_id principal_id turn_id call_id
  | OpenAttachment session_id principal_id turn_id attachment_id
  | ListCheckpoints session_id principal_id
  | RestoreCheckpoint session_id principal_id git_sha
  | ReadAudit audit_query
  | RaiseRequisition principal_id requisition_input
  | ListRequisitions
  | DecideRequisition string principal_id bool
  | SnapshotAndReview principal_id review_input
  | AppendReview string principal_id review_patch
  | FinaliseReview string principal_id
  | ListReviews session_id
  | GetReview string principal_id
  | ReadChecklist session_id principal_id
  | TickItem session_id principal_id string
  | ReadPayroll session_id principal_id

text \<open>
  What a handler makes of its request: a refusal, a call, the cookie of a login, or a stream of the
  session's events from a number on.
\<close>

datatype handled = Refused api_error | Calls edge_call | LoggedIn string | Streams session_id principal_id nat

section \<open>Bodies\<close>

type_synonym json_parse = "8 word list \<Rightarrow> wire option"

definition bad_field :: "string \<Rightarrow> string \<Rightarrow> api_error" where
  "bad_field f msg = detailed ApiBadRequest msg [(''field'', WStr f)]"

definition json_body :: "json_parse \<Rightarrow> nat \<Rightarrow> edge_request \<Rightarrow> (api_error, wire) result" where
  "json_body parse limit req =
     (case read_body limit (eg_body req) of
        None \<Rightarrow> Inl (bad_field ''body'' ''request body too large'')
      | Some raw \<Rightarrow>
          (case parse raw of
             None \<Rightarrow> Inl (bad_field ''body'' ''body is not valid JSON'')
           | Some v \<Rightarrow> Inr v))"

text \<open>A property of a parsed value; only an object has any that a handler asks for.\<close>

definition member_of :: "wire \<Rightarrow> string \<Rightarrow> wire option" where
  "member_of v k = (case v of WObj kvs \<Rightarrow> jget kvs k | _ \<Rightarrow> None)"

definition object_like :: "wire \<Rightarrow> bool" where
  "object_like v \<longleftrightarrow> (case v of WObj _ \<Rightarrow> True | WArr _ \<Rightarrow> True | _ \<Rightarrow> False)"

definition object_body :: "json_parse \<Rightarrow> nat \<Rightarrow> edge_request \<Rightarrow> (api_error, wire) result" where
  "object_body parse limit req =
     and_then (json_body parse limit req)
       (\<lambda>v. if object_like v then Inr v else Inl (bad_field ''body'' ''body must be an object''))"

definition string_with :: "(string \<Rightarrow> bool) \<Rightarrow> string \<Rightarrow> string \<Rightarrow> wire \<Rightarrow> (api_error, string) result" where
  "string_with ok f msg v =
     (case member_of v f of
        Some (WStr s) \<Rightarrow> if ok s then Inr s else Inl (bad_field f msg)
      | _ \<Rightarrow> Inl (bad_field f msg))"

definition nonempty_string :: "string \<Rightarrow> string \<Rightarrow> wire \<Rightarrow> (api_error, string) result" where
  "nonempty_string = string_with (\<lambda>s. s \<noteq> [])"

definition string_or_null :: "string \<Rightarrow> wire option \<Rightarrow> (api_error, string option) result" where
  "string_or_null f v =
     (case v of
        None \<Rightarrow> Inr None
      | Some WNull \<Rightarrow> Inr None
      | Some (WStr s) \<Rightarrow> Inr (Some s)
      | Some _ \<Rightarrow> Inl (bad_field f (f @ '' must be a string or null'')))"

definition vendors :: "string list" where
  "vendors = [''claude'', ''codex'']"

definition vendor_of :: "wire \<Rightarrow> (api_error, string) result" where
  "vendor_of = string_with (\<lambda>s. s \<in> set vendors) ''vendor'' ''vendor must be one of claude, codex''"

definition handled_of :: "(api_error, edge_call) result \<Rightarrow> handled" where
  "handled_of r = (case r of Inl e \<Rightarrow> Refused e | Inr c \<Rightarrow> Calls c)"

section \<open>Sessions\<close>

definition handle_create :: "json_parse \<Rightarrow> edge_request \<Rightarrow> principal_id \<Rightarrow> handled" where
  "handle_create parse req who =
     handled_of
       (and_then (object_body parse default_body_limit req) (\<lambda>body.
        and_then (string_with (\<lambda>s. trim s \<noteq> []) ''cwd'' ''cwd is required'' body) (\<lambda>cwd.
        and_then (vendor_of body) (\<lambda>vendor.
        and_then (string_or_null ''model'' (member_of body ''model'')) (\<lambda>model.
        and_then (string_or_null ''sandbox'' (member_of body ''sandbox'')) (\<lambda>sandbox.
        and_then
          (if member_of body ''requisitionId'' = Some (WStr []) then Inr None
           else string_or_null ''requisitionId'' (member_of body ''requisitionId'')) (\<lambda>requisition.
        Inr (CreateSession who vendor cwd model sandbox requisition))))))))"

definition upload_of :: "wire \<Rightarrow> (api_error, upload_text) result" where
  "upload_of item =
     (if \<not> object_like item then Inl (bad_field ''attachments'' ''each attachment must be an object'')
      else
        (case (member_of item ''filename'', member_of item ''mediaType'', member_of item ''dataBase64'') of
           (Some (WStr n), Some (WStr t), Some (WStr d)) \<Rightarrow>
             Inr \<lparr>ut_filename = n, ut_media_type = t, ut_data_base64 = d\<rparr>
         | _ \<Rightarrow> Inl (bad_field ''attachments'' ''each attachment requires filename, mediaType and dataBase64 as strings'')))"

fun uploads_of :: "wire list \<Rightarrow> (api_error, upload_text list) result" where
  "uploads_of [] = Inr []"
| "uploads_of (item # items) =
     and_then (upload_of item) (\<lambda>u. and_then (uploads_of items) (\<lambda>us. Inr (u # us)))"

definition handle_message ::
  "json_parse \<Rightarrow> config_caps \<Rightarrow> edge_request \<Rightarrow> principal_id \<Rightarrow> session_id \<Rightarrow> handled" where
  "handle_message parse caps req who sid =
     handled_of
       (and_then (json_body parse (message_body_limit_bytes caps) req) (\<lambda>body.
        and_then (nonempty_string ''text'' ''text is required'' body) (\<lambda>txt.
        and_then
          (case member_of body ''attachments'' of
             None \<Rightarrow> Inr []
           | Some WNull \<Rightarrow> Inr []
           | Some (WArr items) \<Rightarrow> Inr items
           | Some _ \<Rightarrow> Inl (bad_field ''attachments'' ''attachments must be an array'')) (\<lambda>items.
        and_then (uploads_of items) (\<lambda>atts.
        Inr (SendMessage sid who txt atts))))))"

definition decision_of :: "string \<Rightarrow> permission_decision option" where
  "decision_of s = (if s = ''allow'' then Some Allow else if s = ''deny'' then Some Deny else None)"

definition scope_of :: "string \<Rightarrow> answer_scope option" where
  "scope_of s = (if s = ''once'' then Some AnswerOnce else if s = ''always'' then Some AnswerAlways else None)"

definition choice_of :: "(string \<Rightarrow> 'a option) \<Rightarrow> string \<Rightarrow> string \<Rightarrow> wire \<Rightarrow> (api_error, 'a) result" where
  "choice_of read f msg v =
     (case member_of v f of
        Some (WStr s) \<Rightarrow> (case read s of None \<Rightarrow> Inl (bad_field f msg) | Some a \<Rightarrow> Inr a)
      | _ \<Rightarrow> Inl (bad_field f msg))"

definition handle_permission :: "json_parse \<Rightarrow> edge_request \<Rightarrow> principal_id \<Rightarrow> session_id \<Rightarrow> handled" where
  "handle_permission parse req who sid =
     handled_of
       (and_then (object_body parse default_body_limit req) (\<lambda>body.
        and_then (nonempty_string ''requestId'' ''requestId is required'' body) (\<lambda>i.
        and_then (choice_of decision_of ''decision'' (''decision must be '' @ in_quotes ''allow'' @ '' or '' @ in_quotes ''deny'') body) (\<lambda>d.
        and_then (choice_of scope_of ''scope'' (''scope must be '' @ in_quotes ''once'' @ '' or '' @ in_quotes ''always'') body) (\<lambda>sc.
        and_then (string_or_null ''rule'' (member_of body ''rule'')) (\<lambda>rule.
        and_then (string_or_null ''reason'' (member_of body ''reason'')) (\<lambda>reason.
        Inr (AnswerPermission sid who
          \<lparr>pa_request_id = i, pa_decision = d, pa_scope = sc, pa_rule = rule, pa_reason = reason\<rparr>))))))))"

definition handle_interrupt :: "json_parse \<Rightarrow> edge_request \<Rightarrow> principal_id \<Rightarrow> session_id \<Rightarrow> handled" where
  "handle_interrupt parse req who sid =
     handled_of
       (and_then (json_body parse default_body_limit req) (\<lambda>body.
        and_then (nonempty_string ''turnId'' ''turnId is required'' body) (\<lambda>t.
        Inr (InterruptTurn sid who t))))"

text \<open>These read the body only to drain it.\<close>

definition handle_end :: "principal_id \<Rightarrow> session_id \<Rightarrow> handled" where
  "handle_end who sid = Calls (EndSession sid who)"

definition handle_delete :: "principal_id \<Rightarrow> session_id \<Rightarrow> handled" where
  "handle_delete who sid = Calls (RemoveSession sid who)"

text \<open>A name that is absent is refused: only null, or a blank one, takes the name away.\<close>

definition name_limit :: nat where
  "name_limit = 200"

definition handle_rename :: "json_parse \<Rightarrow> edge_request \<Rightarrow> principal_id \<Rightarrow> session_id \<Rightarrow> handled" where
  "handle_rename parse req who sid =
     handled_of
       (and_then (json_body parse default_body_limit req) (\<lambda>body.
        case member_of body ''name'' of
          Some WNull \<Rightarrow> Inr (RenameSession sid who None)
        | Some (WStr s) \<Rightarrow>
            (if name_limit < length (trim s) then Inl (bad_field ''name'' ''name must be 200 characters or fewer'')
             else Inr (RenameSession sid who (if trim s = [] then None else Some (trim s))))
        | _ \<Rightarrow> Inl (bad_field ''name'' ''name must be a string or null'')))"

section \<open>Stored output and attachments\<close>

definition query_get :: "edge_request \<Rightarrow> string \<Rightarrow> string option" where
  "query_get req k = map_option snd (find (\<lambda>kv. fst kv = k) (eg_query req))"

definition line_param :: "string \<Rightarrow> string option \<Rightarrow> (api_error, nat option) result" where
  "line_param f raw =
     (case raw of
        None \<Rightarrow> Inr None
      | Some s \<Rightarrow>
          (case parse_positive_int s of
             None \<Rightarrow> Inl (bad_field f (f @ '' must be a positive integer''))
           | Some n \<Rightarrow> Inr (Some n)))"

definition handle_tool_output :: "edge_request \<Rightarrow> principal_id \<Rightarrow> session_id \<Rightarrow> turn_id \<Rightarrow> call_id \<Rightarrow> handled" where
  "handle_tool_output req who sid t c =
     (let from_raw = query_get req ''fromLine''; count_raw = query_get req ''lineCount''
      in
        if from_raw = None \<and> count_raw = None then Calls (OpenToolOutput sid who t c)
        else
          handled_of
            (and_then (line_param ''fromLine'' from_raw) (\<lambda>from_line.
             and_then (line_param ''lineCount'' count_raw) (\<lambda>line_count.
             Inr (OpenToolOutputWindow sid who t c
               \<lparr>tw_from_line = int (case from_line of None \<Rightarrow> 1 | Some n \<Rightarrow> n),
                tw_line_count = map_option int line_count\<rparr>)))))"

definition handle_tool_output_stat ::
  "edge_request \<Rightarrow> principal_id \<Rightarrow> session_id \<Rightarrow> turn_id \<Rightarrow> call_id \<Rightarrow> handled" where
  "handle_tool_output_stat req who sid t c =
     (if query_get req ''fromLine'' \<noteq> None then Refused (bad_field ''fromLine'' ''HEAD does not accept a window'')
      else if query_get req ''lineCount'' \<noteq> None then Refused (bad_field ''lineCount'' ''HEAD does not accept a window'')
      else Calls (StatToolOutput sid who t c))"

section \<open>Audit\<close>

definition non_empty :: "string option \<Rightarrow> string option" where
  "non_empty v = (if v = Some [] then None else v)"

definition time_param ::
  "(string \<Rightarrow> iso_timestamp option) \<Rightarrow> string \<Rightarrow> string option \<Rightarrow> (api_error, iso_timestamp option) result" where
  "time_param date f raw =
     (case non_empty raw of
        None \<Rightarrow> Inr None
      | Some s \<Rightarrow>
          (case parse_iso_timestamp date s of
             None \<Rightarrow> Inl (bad_field f (f @ '' must be an ISO 8601 UTC timestamp''))
           | Some t \<Rightarrow> Inr (Some t)))"

definition limit_param :: "nat \<Rightarrow> string option \<Rightarrow> (api_error, int) result" where
  "limit_param page_max raw =
     (case raw of
        None \<Rightarrow> Inr (int page_max)
      | Some s \<Rightarrow>
          (case parse_int s of
             None \<Rightarrow> Inl (bad_field ''limit'' ''limit must be a positive integer'')
           | Some n \<Rightarrow>
               if n \<le> 0 then Inl (bad_field ''limit'' ''limit must be a positive integer'') else Inr (min n (int page_max))))"

definition handle_audit :: "(string \<Rightarrow> iso_timestamp option) \<Rightarrow> config_caps \<Rightarrow> edge_request \<Rightarrow> handled" where
  "handle_audit date caps req =
     handled_of
       (and_then (limit_param (cc_audit_page_max caps) (query_get req ''limit'')) (\<lambda>limit.
        and_then (time_param date ''since'' (query_get req ''since'')) (\<lambda>since.
        and_then (time_param date ''until'' (query_get req ''until'')) (\<lambda>until.
        Inr (ReadAudit
          \<lparr>aq_before = non_empty (query_get req ''before''), aq_limit = Some limit,
           aq_session = non_empty (query_get req ''sessionId''), aq_operator = non_empty (query_get req ''operator''),
           aq_since = since, aq_until = until,
           aq_incidents_only = (query_get req ''incidentsOnly'' = Some ''true'')\<rparr>)))))"

section \<open>Requisitions and reviews\<close>

definition handle_raise_requisition :: "json_parse \<Rightarrow> edge_request \<Rightarrow> principal_id \<Rightarrow> handled" where
  "handle_raise_requisition parse req who =
     handled_of
       (and_then (object_body parse default_body_limit req) (\<lambda>body.
        and_then (nonempty_string ''title'' ''title is required'' body) (\<lambda>title.
        and_then (nonempty_string ''justification'' ''justification is required'' body) (\<lambda>why.
        and_then (nonempty_string ''workspace'' ''workspace is required'' body) (\<lambda>ws.
        and_then (vendor_of body) (\<lambda>vendor.
        Inr (RaiseRequisition who
          \<lparr>ri_title = title, ri_justification = why, ri_workspace = ws, ri_vendor = vendor\<rparr>)))))))"

definition approval_of :: "string \<Rightarrow> bool option" where
  "approval_of s = (if s = ''approve'' then Some True else if s = ''reject'' then Some False else None)"

definition handle_decide_requisition :: "json_parse \<Rightarrow> edge_request \<Rightarrow> principal_id \<Rightarrow> string \<Rightarrow> handled" where
  "handle_decide_requisition parse req who i =
     handled_of
       (and_then (json_body parse default_body_limit req) (\<lambda>body.
        and_then (choice_of approval_of ''decision''
            (''decision must be '' @ in_quotes ''approve'' @ '' or '' @ in_quotes ''reject'') body) (\<lambda>approve.
        Inr (DecideRequisition i who approve))))"

definition rating_named :: "string \<Rightarrow> rating option" where
  "rating_named s =
     jget [(''does_not_meet'', DoesNotMeet), (''meets_some'', MeetsSome), (''meets'', Meets),
           (''exceeds'', Exceeds), (''exceptional'', Exceptional)] s"

definition parse_rating :: "wire option \<Rightarrow> (api_error, rating option) result" where
  "parse_rating v =
     (let wrong = Inl (bad_field ''rating'' ''rating is not a recognised token'')
      in
        case v of
          None \<Rightarrow> Inr None
        | Some WNull \<Rightarrow> Inr None
        | Some (WStr s) \<Rightarrow> (case rating_named s of None \<Rightarrow> wrong | Some r \<Rightarrow> Inr (Some r))
        | Some _ \<Rightarrow> wrong)"

definition parse_pip :: "wire option \<Rightarrow> (api_error, bool) result" where
  "parse_pip v = (case v of Some (WBool b) \<Rightarrow> Inr b | _ \<Rightarrow> Inl (bad_field ''pip'' ''pip must be a boolean''))"

definition handle_create_review :: "json_parse \<Rightarrow> edge_request \<Rightarrow> principal_id \<Rightarrow> handled" where
  "handle_create_review parse req who =
     handled_of
       (and_then (object_body parse default_body_limit req) (\<lambda>body.
        and_then (nonempty_string ''subject'' ''subject is required'' body) (\<lambda>subject.
        and_then (parse_rating (member_of body ''rating'')) (\<lambda>rating.
        and_then (parse_pip (member_of body ''pip'')) (\<lambda>pip.
        and_then (string_with (\<lambda>_. True) ''body'' ''body is required'' body) (\<lambda>txt.
        Inr (SnapshotAndReview who
          \<lparr>vi_subject = subject, vi_rating = rating, vi_pip = pip, vi_body = txt\<rparr>)))))))"

text \<open>\<open>in\<close> tells an absent field from one that is null.\<close>

definition if_present :: "wire option \<Rightarrow> (wire option \<Rightarrow> (api_error, 'a) result) \<Rightarrow> (api_error, 'a option) result" where
  "if_present v read = (if v = None then Inr None else map_sum id Some (read v))"

definition handle_append_review :: "json_parse \<Rightarrow> edge_request \<Rightarrow> principal_id \<Rightarrow> string \<Rightarrow> handled" where
  "handle_append_review parse req who i =
     handled_of
       (and_then (object_body parse default_body_limit req) (\<lambda>body.
        and_then (if_present (member_of body ''rating'') parse_rating) (\<lambda>rating.
        and_then (if_present (member_of body ''pip'') parse_pip) (\<lambda>pip.
        and_then (if_present (member_of body ''body'') (\<lambda>_. string_with (\<lambda>_. True) ''body'' ''body must be a string'' body)) (\<lambda>txt.
        Inr (AppendReview i who \<lparr>vp_rating = rating, vp_pip = pip, vp_body = txt\<rparr>))))))"

definition handle_finalise_review :: "principal_id \<Rightarrow> string \<Rightarrow> handled" where
  "handle_finalise_review who i = Calls (FinaliseReview i who)"

definition handle_list_reviews :: "edge_request \<Rightarrow> handled" where
  "handle_list_reviews req =
     (case non_empty (query_get req ''subject'') of
        None \<Rightarrow> Refused (bad_field ''subject'' ''subject is required'')
      | Some s \<Rightarrow> Calls (ListReviews s))"

section \<open>Checkpoints and login\<close>

definition handle_checkpoint_restore :: "json_parse \<Rightarrow> edge_request \<Rightarrow> principal_id \<Rightarrow> session_id \<Rightarrow> handled" where
  "handle_checkpoint_restore parse req who sid =
     handled_of
       (and_then (json_body parse default_body_limit req) (\<lambda>body.
        and_then (nonempty_string ''sha'' ''sha is required'' body) (\<lambda>sha.
        Inr (RestoreCheckpoint sid who sha))))"

text \<open>
  A body that is the JSON null makes the access throw inside the \<open>try\<close> of its parse. The encoding
  of the secret, \<open>encodeURIComponent\<close>, is a parameter.
\<close>

definition login_cookie :: "(string \<Rightarrow> string) \<Rightarrow> string \<Rightarrow> nat \<Rightarrow> string \<Rightarrow> string" where
  "login_cookie encode name max_age secret =
     name @ ''='' @ encode secret @ ''; SameSite=Strict; HttpOnly; Path=/; Max-Age='' @ decimal_nat max_age"

definition handle_login :: "json_parse \<Rightarrow> (string \<Rightarrow> string) \<Rightarrow> host_config \<Rightarrow> edge_request \<Rightarrow> handled" where
  "handle_login parse encode config req =
     (case hc_auth config of
        SharedSecret name secret \<Rightarrow>
          (case json_body parse default_body_limit req of
             Inl e \<Rightarrow> Refused e
           | Inr WNull \<Rightarrow> Refused (bad_field ''body'' ''body is not valid JSON'')
           | Inr v \<Rightarrow>
               (case member_of v ''secret'' of
                  Some (WStr presented) \<Rightarrow>
                    if constant_time_equals presented secret
                    then LoggedIn (login_cookie encode name (hc_cookie_max_age config) presented)
                    else Refused (plain_error Unauthenticated ''wrong secret'')
                | _ \<Rightarrow> Refused (plain_error Unauthenticated ''wrong secret'')))
      | _ \<Rightarrow> Refused (plain_error ApiNoSuchSession ''no such route''))"

section \<open>Answers\<close>

text \<open>
  What a call gives back: a value as \<open>JSON.stringify\<close> sees it, a stream with the totals or the type
  the code reads of it, or an error of the part it went to.
\<close>

datatype edge_value =
    Returned wire
  | OutputOpened "(nat \<times> nat) option"
  | OutputStat nat
  | AttachmentOpened string

datatype edge_failure =
    HostFailed host_error
  | RecordsFailed records_error
  | StoreFailed store_error
  | NoSnapshot

type_synonym headers = "(string \<times> string) list"

datatype edge_answer = Answered nat wire | Failed api_error | Piped headers | HeadOnly headers

definition blob_failure :: "api_error_code \<Rightarrow> string \<Rightarrow> host_error \<Rightarrow> api_error" where
  "blob_failure code msg e = (case e of NoSuchSession i \<Rightarrow> api_error_for e | _ \<Rightarrow> plain_error code msg)"

definition output_missing :: "host_error \<Rightarrow> api_error" where
  "output_missing = blob_failure NoSuchOutput ''the tool-output blob is missing or unreadable''"

fun failure_of :: "edge_call \<Rightarrow> edge_failure \<Rightarrow> api_error" where
  "failure_of c (RecordsFailed e) = records_api_error e"
| "failure_of c NoSnapshot = plain_error ApiNoSuchSession ''no such session''"
| "failure_of c (StoreFailed e) =
     (case e of
        Corrupt _ _ \<Rightarrow> bad_field ''before'' ''audit cursor is invalid''
      | _ \<Rightarrow> plain_error ApiAgentUnavailable ''audit storage is unavailable'')"
| "failure_of c (HostFailed e) =
     (case c of
        OpenToolOutput _ _ _ _ \<Rightarrow> output_missing e
      | OpenToolOutputWindow _ _ _ _ _ \<Rightarrow> output_missing e
      | StatToolOutput _ _ _ _ \<Rightarrow> output_missing e
      | OpenAttachment _ _ _ _ \<Rightarrow> blob_failure NoSuchAttachment ''the attachment is missing or unreadable'' e
      | _ \<Rightarrow> api_error_for e)"

definition picked :: "wire \<Rightarrow> string \<Rightarrow> (string \<times> wire) list" where
  "picked v k = (case member_of v k of None \<Rightarrow> [] | Some w \<Rightarrow> [(k, w)])"

definition ok_true :: wire where
  "ok_true = WObj [(''ok'', WBool True)]"

definition vendor_listing :: "wire \<Rightarrow> wire" where
  "vendor_listing p =
     WObj (picked p ''id'' @ picked p ''label'' @ picked p ''available'' @
           [(''unavailableReason'', (case member_of p ''unavailableReason'' of None \<Rightarrow> WNull | Some w \<Rightarrow> w))])"

fun elements :: "wire \<Rightarrow> wire list" where
  "elements (WArr vs) = vs"
| "elements _ = []"

definition under :: "string \<Rightarrow> wire \<Rightarrow> wire" where
  "under k v = WObj [(k, v)]"

fun success_of :: "edge_call \<Rightarrow> wire \<Rightarrow> nat \<times> wire" where
  "success_of ListVendors v = (200, under ''vendors'' (WArr (map vendor_listing (elements v))))"
| "success_of (ListSessions _) v = (200, under ''sessions'' v)"
| "success_of (CreateSession _ _ _ _ _ _) v = (201, WObj (picked v ''sessionId''))"
| "success_of (SendMessage _ _ _ _) v = (202, WObj (picked v ''turnId''))"
| "success_of (AnswerPermission _ _ _) v = (200, WObj (picked v ''accepted''))"
| "success_of (GetSession _ _) v = (200, under ''session'' v)"
| "success_of (ListCheckpoints _ _) v = (200, under ''checkpoints'' v)"
| "success_of (RestoreCheckpoint _ _ _) v =
     (200, WObj ((''ok'', WBool True) # picked v ''safety'' @ picked v ''unreached'' @ picked v ''exposed''))"
| "success_of (ReadAudit _) v = (200, v)"
| "success_of (RaiseRequisition _ _) v = (201, under ''requisition'' v)"
| "success_of ListRequisitions v = (200, under ''requisitions'' v)"
| "success_of (DecideRequisition _ _ _) v = (200, under ''requisition'' v)"
| "success_of (SnapshotAndReview _ _) v = (201, under ''review'' v)"
| "success_of (AppendReview _ _ _) v = (200, under ''review'' v)"
| "success_of (FinaliseReview _ _) v = (200, under ''review'' v)"
| "success_of (ListReviews _) v = (200, under ''reviews'' v)"
| "success_of (GetReview _ _) v = (200, under ''review'' v)"
| "success_of (ReadChecklist _ _) v = (200, under ''items'' v)"
| "success_of (ReadPayroll _ _) v = (200, v)"
| "success_of _ v = (200, ok_true)"

definition tool_output_headers :: headers where
  "tool_output_headers =
     [(''content-type'', ''text/plain; charset=utf-8''), (''x-content-type-options'', ''nosniff''),
      (''content-disposition'', ''attachment'')]"

definition allowed_image_types :: "string list" where
  "allowed_image_types = [''image/png'', ''image/jpeg'', ''image/gif'', ''image/webp'']"

definition attachment_headers :: "string \<Rightarrow> headers" where
  "attachment_headers media_type =
     (let shown = media_type \<in> set allowed_image_types
      in [(''content-type'', if shown then media_type else ''application/octet-stream''),
          (''x-content-type-options'', ''nosniff''),
          (''content-disposition'', if shown then ''inline'' else ''attachment'')])"

definition answer_to :: "edge_call \<Rightarrow> (edge_failure, edge_value) result \<Rightarrow> edge_answer" where
  "answer_to c r =
     (case r of
        Inl f \<Rightarrow> Failed (failure_of c f)
      | Inr (OutputOpened None) \<Rightarrow> Piped tool_output_headers
      | Inr (OutputOpened (Some (ls, bs))) \<Rightarrow>
          Piped (tool_output_headers @
            [(''x-tool-output-lines'', decimal_nat ls), (''x-tool-output-bytes'', decimal_nat bs)])
      | Inr (OutputStat n) \<Rightarrow> HeadOnly (tool_output_headers @ [(''content-length'', decimal_nat n)])
      | Inr (AttachmentOpened t) \<Rightarrow> Piped (attachment_headers t)
      | Inr (Returned v) \<Rightarrow> (case success_of c v of (st, b) \<Rightarrow> Answered st b))"

section \<open>What a handler passes on\<close>

text \<open>The operator a call is made for, where it is made for one.\<close>

fun call_operator :: "edge_call \<Rightarrow> principal_id option" where
  "call_operator (ListSessions who) = Some who"
| "call_operator (CreateSession who _ _ _ _ _) = Some who"
| "call_operator (SendMessage _ who _ _) = Some who"
| "call_operator (AnswerPermission _ who _) = Some who"
| "call_operator (InterruptTurn _ who _) = Some who"
| "call_operator (EndSession _ who) = Some who"
| "call_operator (RemoveSession _ who) = Some who"
| "call_operator (RenameSession _ who _) = Some who"
| "call_operator (GetSession _ who) = Some who"
| "call_operator (OpenToolOutput _ who _ _) = Some who"
| "call_operator (OpenToolOutputWindow _ who _ _ _) = Some who"
| "call_operator (StatToolOutput _ who _ _) = Some who"
| "call_operator (OpenAttachment _ who _ _) = Some who"
| "call_operator (ListCheckpoints _ who) = Some who"
| "call_operator (RestoreCheckpoint _ who _) = Some who"
| "call_operator (RaiseRequisition who _) = Some who"
| "call_operator (DecideRequisition _ who _) = Some who"
| "call_operator (SnapshotAndReview who _) = Some who"
| "call_operator (AppendReview _ who _) = Some who"
| "call_operator (FinaliseReview _ who) = Some who"
| "call_operator (GetReview _ who) = Some who"
| "call_operator (ReadChecklist _ who) = Some who"
| "call_operator (TickItem _ who _) = Some who"
| "call_operator (ReadPayroll _ who) = Some who"
| "call_operator ListVendors = None"
| "call_operator (ReadAudit _) = None"
| "call_operator ListRequisitions = None"
| "call_operator (ListReviews _) = None"

text \<open>Whether a call changes anything.\<close>

fun call_changes :: "edge_call \<Rightarrow> bool" where
  "call_changes (CreateSession _ _ _ _ _ _) = True"
| "call_changes (SendMessage _ _ _ _) = True"
| "call_changes (AnswerPermission _ _ _) = True"
| "call_changes (InterruptTurn _ _ _) = True"
| "call_changes (EndSession _ _) = True"
| "call_changes (RemoveSession _ _) = True"
| "call_changes (RenameSession _ _ _) = True"
| "call_changes (RestoreCheckpoint _ _ _) = True"
| "call_changes (RaiseRequisition _ _) = True"
| "call_changes (DecideRequisition _ _ _) = True"
| "call_changes (SnapshotAndReview _ _) = True"
| "call_changes (AppendReview _ _ _) = True"
| "call_changes (FinaliseReview _ _) = True"
| "call_changes (TickItem _ _ _) = True"
| "call_changes _ = False"

text \<open>
  What holds of every call that comes out of a reading of the request, whatever the request holds.
\<close>

definition all_calls :: "(edge_call \<Rightarrow> bool) \<Rightarrow> (api_error, edge_call) result \<Rightarrow> bool" where
  "all_calls P r \<longleftrightarrow> (case r of Inl e \<Rightarrow> True | Inr c \<Rightarrow> P c)"

fun handled_by :: "(edge_call \<Rightarrow> bool) \<Rightarrow> principal_id \<Rightarrow> handled \<Rightarrow> bool" where
  "handled_by P who (Refused e) = True"
| "handled_by P who (Calls c) = P c"
| "handled_by P who (LoggedIn k) = False"
| "handled_by P who (Streams i who' n) = (who' = who)"

named_theorems call_intros

lemma all_calls_simps [simp]: "all_calls P (Inl e)" "all_calls P (Inr c) = P c"
  by (simp_all add: all_calls_def)

lemma all_calls_and_then [call_intros]: "(\<And>a. all_calls P (f a)) \<Longrightarrow> all_calls P (and_then r f)"
  by (cases r) simp_all

lemma handled_by_handled_of [simp]: "handled_by P who (handled_of r) = all_calls P r"
  by (cases r) (simp_all add: handled_of_def)

lemma all_calls_if [call_intros]: "all_calls P a \<Longrightarrow> all_calls P b \<Longrightarrow> all_calls P (if q then a else b)"
  by simp

text \<open>Every handler that is given an operator calls for that operator; of those that are not, none changes anything.\<close>

definition for_operator :: "principal_id \<Rightarrow> edge_call \<Rightarrow> bool" where
  "for_operator who c \<longleftrightarrow> call_operator c = Some who"

definition only_reads :: "edge_call \<Rightarrow> bool" where
  "only_reads c \<longleftrightarrow> \<not> call_changes c \<and> call_operator c = None"

lemma sessions_for_operator [simp]:
  "handled_by (for_operator who) who (handle_create parse req who)"
  "handled_by (for_operator who) who (handle_message parse caps req who sid)"
  "handled_by (for_operator who) who (handle_permission parse req who sid)"
  "handled_by (for_operator who) who (handle_interrupt parse req who sid)"
  "handled_by (for_operator who) who (handle_end who sid)"
  "handled_by (for_operator who) who (handle_delete who sid)"
  unfolding handle_create_def handle_message_def handle_permission_def handle_interrupt_def handle_end_def
    handle_delete_def handled_by_handled_of handled_by.simps for_operator_def
  by (intro call_intros | simp)+

lemma rename_for_operator [simp]: "handled_by (for_operator who) who (handle_rename parse req who sid)"
  unfolding handle_rename_def handled_by_handled_of for_operator_def
  by (intro call_intros) (simp split: option.split wire.split)

lemma outputs_for_operator [simp]:
  "handled_by (\<lambda>c. call_operator c = Some who \<and> \<not> call_changes c) who (handle_tool_output req who sid t i)"
  "handled_by (\<lambda>c. call_operator c = Some who \<and> \<not> call_changes c) who (handle_tool_output_stat req who sid t i)"
  by (auto simp: handle_tool_output_def handle_tool_output_stat_def Let_def intro!: call_intros)

lemma records_for_operator [simp]:
  "handled_by (for_operator who) who (handle_raise_requisition parse req who)"
  "handled_by (for_operator who) who (handle_decide_requisition parse req who k)"
  "handled_by (for_operator who) who (handle_create_review parse req who)"
  "handled_by (for_operator who) who (handle_append_review parse req who k)"
  "handled_by (for_operator who) who (handle_finalise_review who k)"
  "handled_by (for_operator who) who (handle_checkpoint_restore parse req who sid)"
  unfolding handle_raise_requisition_def handle_decide_requisition_def handle_create_review_def
    handle_append_review_def handle_finalise_review_def handle_checkpoint_restore_def
    handled_by_handled_of handled_by.simps for_operator_def
  by (intro call_intros | simp)+

lemma open_reads [simp]:
  "handled_by only_reads who (handle_audit date caps req)"
  "handled_by only_reads who (handle_list_reviews req)"
  unfolding handle_audit_def handled_by_handled_of only_reads_def
  by (intro call_intros; simp) (simp add: handle_list_reviews_def split: option.split)

text \<open>No answer to a call carries the JSON of an attachment as markup.\<close>

lemma attachment_type_is_safe:
  "(''content-type'', t) \<in> set (attachment_headers m) \<Longrightarrow> t \<in> set allowed_image_types \<or> t = ''application/octet-stream''"
  by (auto simp: attachment_headers_def Let_def split: if_splits)

end
