(* ===== verification/Http_Routes.thy ===== *)
theory Http_Routes
  imports Http_Handlers
begin

text \<open>
  The routes of the two edges (the listeners of \<open>src/edge/sse/index.ts\<close> and \<open>src/edge/ws/index.ts\<close>):
  the probes and the client's files, the check of the origin before that of the identity, and the
  handler of each path. The two listeners are separate copies in the source and are separate here.
  \<open>decodeURIComponent\<close> is a parameter, none where it throws.
\<close>

section \<open>The environment of an edge\<close>

record edge_env =
  en_parse :: json_parse
  en_decode :: "string \<Rightarrow> string option"
  en_encode :: "string \<Rightarrow> string"
  en_date :: "string \<Rightarrow> iso_timestamp option"
  en_config :: host_config
  en_ready :: bool

definition identify :: "edge_env \<Rightarrow> edge_request \<Rightarrow> (identity_error, principal_id) result" where
  "identify env req =
     resolver_for (en_decode env) (hc_auth (en_config env)) (hc_trust_proxy (en_config env)) (eg_identity req)"

datatype routed = Probed probe_reply | StaticFile string | Routed handled

definition static_paths :: "string list" where
  "static_paths = [''/'', ''/app.js'', ''/render.js'', ''/app.css'', ''/theme.js'']"

definition no_route :: "string \<Rightarrow> handled" where
  "no_route f = Refused (bad_field f ''that route is not available in this build'')"

section \<open>Paths\<close>

text \<open>The patterns of the paths, over their segments; a captured segment is never empty.\<close>

definition segments :: "string \<Rightarrow> string list" where
  "segments path = split_on (CHR ''/'') path"

definition match_between :: "string list \<Rightarrow> string list \<Rightarrow> string \<Rightarrow> string option" where
  "match_between before after path =
     (let ss = segments path; n = length before
      in
        if length ss = n + 1 + length after \<and> take n ss = before \<and> drop (n + 1) ss = after \<and> ss ! n \<noteq> []
        then Some (ss ! n) else None)"

definition match_pair :: "string \<Rightarrow> string \<Rightarrow> (string \<times> string) option" where
  "match_pair name path =
     (case segments path of
        [a, b, c, d] \<Rightarrow> if a = [] \<and> b = name \<and> c \<noteq> [] \<and> d \<noteq> [] then Some (c, d) else None
      | _ \<Rightarrow> None)"

definition sessions_prefix :: string where
  "sessions_prefix = ''/api/sessions/''"

definition match_session :: "string \<Rightarrow> (string \<times> string) option" where
  "match_session path =
     (let n = length sessions_prefix; tail = drop n path;
          i = takeWhile (\<lambda>c. c \<noteq> CHR ''/'') tail; rest = drop (length i) tail
      in
        if take n path = sessions_prefix \<and> i \<noteq> [] \<and> CHR ''?'' \<notin> set rest then Some (i, rest) else None)"

definition decoded :: "edge_env \<Rightarrow> string \<Rightarrow> string \<Rightarrow> string \<Rightarrow> (string \<Rightarrow> handled) \<Rightarrow> handled" where
  "decoded env label f raw k =
     (case en_decode env raw of
        None \<Rightarrow> Refused (bad_field f (label @ '' is not a valid path segment''))
      | Some s \<Rightarrow> k s)"

section \<open>The routes of the SSE edge\<close>

definition last_event_id :: "edge_request \<Rightarrow> nat" where
  "last_event_id req =
     (case header_text (eg_identity req) ''last-event-id'' of
        None \<Rightarrow> 0
      | Some raw \<Rightarrow> (case parse_int raw of None \<Rightarrow> 0 | Some n \<Rightarrow> if 0 < n then nat n else 0))"

definition sse_session_route :: "edge_env \<Rightarrow> edge_request \<Rightarrow> principal_id \<Rightarrow> session_id \<Rightarrow> string \<Rightarrow> handled" where
  "sse_session_route env req who sid rest =
     (let m = eg_method req; parse = en_parse env
      in
        if m = ''POST'' \<and> rest = ''/message'' then handle_message parse (hc_caps (en_config env)) req who sid
        else if m = ''POST'' \<and> rest = ''/permission'' then handle_permission parse req who sid
        else if m = ''POST'' \<and> rest = ''/interrupt'' then handle_interrupt parse req who sid
        else if m = ''POST'' \<and> rest = ''/end'' then handle_end who sid
        else if m = ''POST'' \<and> rest = ''/rename'' then handle_rename parse req who sid
        else if m = ''POST'' \<and> rest = ''/checkpoint/restore'' then handle_checkpoint_restore parse req who sid
        else if m = ''DELETE'' \<and> rest = [] then handle_delete who sid
        else if m = ''GET'' \<and> rest = ''/events'' then Streams sid who (last_event_id req)
        else if m = ''GET'' \<and> rest = ''/checkpoints'' then Calls (ListCheckpoints sid who)
        else if m = ''GET'' \<and> rest = ''/checklist'' then Calls (ReadChecklist sid who)
        else
          (case match_between [[], ''checklist''] [] rest of
             Some item \<Rightarrow>
               if m = ''POST'' then decoded env ''itemId'' ''itemId'' item (\<lambda>i. Calls (TickItem sid who i))
               else no_route rest
           | None \<Rightarrow>
               if m = ''GET'' \<and> rest = ''/payroll'' then Calls (ReadPayroll sid who)
               else
                 (case match_pair ''tool-output'' rest of
                    Some (t, c) \<Rightarrow>
                      if m = ''GET'' then
                        decoded env ''turnId'' ''turnId'' t (\<lambda>t.
                        decoded env ''callId'' ''callId'' c (\<lambda>c. handle_tool_output req who sid t c))
                      else if m = ''HEAD'' then
                        decoded env ''turnId'' ''turnId'' t (\<lambda>t.
                        decoded env ''callId'' ''callId'' c (\<lambda>c. handle_tool_output_stat req who sid t c))
                      else no_route rest
                  | None \<Rightarrow>
                      (case match_pair ''attachments'' rest of
                         Some (t, a) \<Rightarrow>
                           if m = ''GET'' then
                             decoded env ''turnId'' ''turnId'' t (\<lambda>t.
                             decoded env ''attachmentId'' ''attachmentId'' a (\<lambda>a. Calls (OpenAttachment sid who t a)))
                           else no_route rest
                       | None \<Rightarrow>
                           if m = ''GET'' \<and> rest = [] then Calls (GetSession sid who)
                           else no_route (if rest = [] then ''/'' else rest)))))"

definition sse_route :: "edge_env \<Rightarrow> edge_request \<Rightarrow> principal_id \<Rightarrow> handled" where
  "sse_route env req who =
     (let m = eg_method req; path = eg_path req; parse = en_parse env
      in
        if m = ''GET'' \<and> path = ''/api/vendors'' then Calls ListVendors
        else if m = ''GET'' \<and> path = ''/api/sessions'' then Calls (ListSessions who)
        else if m = ''POST'' \<and> path = ''/api/sessions'' then handle_create parse req who
        else if m = ''GET'' \<and> path = ''/api/audit'' then handle_audit (en_date env) (hc_caps (en_config env)) req
        else if m = ''GET'' \<and> path = ''/api/requisitions'' then Calls ListRequisitions
        else if m = ''POST'' \<and> path = ''/api/requisitions'' then handle_raise_requisition parse req who
        else
          (case (m = ''POST'', match_between [[], ''api'', ''requisitions''] [''decision''] path) of
             (True, Some raw) \<Rightarrow>
               decoded env ''requisition id'' ''requisitionId'' raw (\<lambda>i. handle_decide_requisition parse req who i)
           | _ \<Rightarrow>
               if m = ''GET'' \<and> path = ''/api/reviews'' then handle_list_reviews req
               else if m = ''POST'' \<and> path = ''/api/reviews'' then handle_create_review parse req who
               else
                 (case (m = ''POST'', match_between [[], ''api'', ''reviews''] [''finalise''] path) of
                    (True, Some raw) \<Rightarrow> decoded env ''review id'' ''reviewId'' raw (\<lambda>i. handle_finalise_review who i)
                  | _ \<Rightarrow>
                      (case match_between [[], ''api'', ''reviews''] [] path of
                         Some raw \<Rightarrow>
                           decoded env ''review id'' ''reviewId'' raw (\<lambda>i.
                             if m = ''POST'' then handle_append_review parse req who i
                             else if m = ''GET'' then Calls (GetReview i who)
                             else no_route path)
                       | None \<Rightarrow>
                           (case match_session path of
                              Some (raw, rest) \<Rightarrow>
                                decoded env ''session id'' ''sessionId'' raw (\<lambda>sid. sse_session_route env req who sid rest)
                            | None \<Rightarrow> no_route path)))))"

definition sse_listener :: "edge_env \<Rightarrow> edge_request \<Rightarrow> routed" where
  "sse_listener env req =
     (let m = eg_method req; path = eg_path req
      in
        case handle_probe m path (en_ready env) of
          Some p \<Rightarrow> Probed p
        | None \<Rightarrow>
            if m = ''GET'' \<and> path \<in> set static_paths then StaticFile path
            else if take 5 path \<noteq> ''/api/'' then Routed (Refused (plain_error ApiNoSuchSession ''no such route''))
            else if is_mutating m \<and> \<not> origin_allowed (eg_identity req) (hc_allowed_origins (en_config env))
            then Routed (Refused (plain_error BadOrigin ''origin is not allowed''))
            else if m = ''POST'' \<and> path = ''/api/login''
            then Routed (handle_login (en_parse env) (en_encode env) (en_config env) req)
            else
              (case identify env req of
                 Inl e \<Rightarrow> Routed (Refused (plain_error Unauthenticated ''no usable identity''))
               | Inr who \<Rightarrow> Routed (sse_route env req who)))"

section \<open>The routes of the WebSocket edge\<close>

text \<open>The events of a session come over an upgrade there; a plain request for them is refused.\<close>

definition ws_session_route :: "edge_env \<Rightarrow> edge_request \<Rightarrow> principal_id \<Rightarrow> session_id \<Rightarrow> string \<Rightarrow> handled" where
  "ws_session_route env req who sid rest =
     (let m = eg_method req; parse = en_parse env
      in
        if m = ''POST'' \<and> rest = ''/message'' then handle_message parse (hc_caps (en_config env)) req who sid
        else if m = ''POST'' \<and> rest = ''/permission'' then handle_permission parse req who sid
        else if m = ''POST'' \<and> rest = ''/interrupt'' then handle_interrupt parse req who sid
        else if m = ''POST'' \<and> rest = ''/end'' then handle_end who sid
        else if m = ''POST'' \<and> rest = ''/rename'' then handle_rename parse req who sid
        else if m = ''POST'' \<and> rest = ''/checkpoint/restore'' then handle_checkpoint_restore parse req who sid
        else if m = ''DELETE'' \<and> rest = [] then handle_delete who sid
        else if m = ''GET'' \<and> rest = ''/events'' then 
          Refused (bad_field ''upgrade'' ''this edge serves events over a WebSocket upgrade, not a plain GET'')
        else if m = ''GET'' \<and> rest = ''/checkpoints'' then Calls (ListCheckpoints sid who)
        else if m = ''GET'' \<and> rest = ''/checklist'' then Calls (ReadChecklist sid who)
        else
          (case match_between [[], ''checklist''] [] rest of
             Some item \<Rightarrow>
               if m = ''POST'' then decoded env ''itemId'' ''itemId'' item (\<lambda>i. Calls (TickItem sid who i))
               else no_route rest
           | None \<Rightarrow>
               if m = ''GET'' \<and> rest = ''/payroll'' then Calls (ReadPayroll sid who)
               else
                 (case match_pair ''tool-output'' rest of
                    Some (t, c) \<Rightarrow>
                      if m = ''GET'' then
                        decoded env ''turnId'' ''turnId'' t (\<lambda>t.
                        decoded env ''callId'' ''callId'' c (\<lambda>c. handle_tool_output req who sid t c))
                      else if m = ''HEAD'' then
                        decoded env ''turnId'' ''turnId'' t (\<lambda>t.
                        decoded env ''callId'' ''callId'' c (\<lambda>c. handle_tool_output_stat req who sid t c))
                      else no_route rest
                  | None \<Rightarrow>
                      (case match_pair ''attachments'' rest of
                         Some (t, a) \<Rightarrow>
                           if m = ''GET'' then
                             decoded env ''turnId'' ''turnId'' t (\<lambda>t.
                             decoded env ''attachmentId'' ''attachmentId'' a (\<lambda>a. Calls (OpenAttachment sid who t a)))
                           else no_route rest
                       | None \<Rightarrow>
                           if m = ''GET'' \<and> rest = [] then Calls (GetSession sid who)
                           else no_route (if rest = [] then ''/'' else rest)))))"

definition ws_route :: "edge_env \<Rightarrow> edge_request \<Rightarrow> principal_id \<Rightarrow> handled" where
  "ws_route env req who =
     (let m = eg_method req; path = eg_path req; parse = en_parse env
      in
        if m = ''GET'' \<and> path = ''/api/vendors'' then Calls ListVendors
        else if m = ''GET'' \<and> path = ''/api/sessions'' then Calls (ListSessions who)
        else if m = ''POST'' \<and> path = ''/api/sessions'' then handle_create parse req who
        else if m = ''GET'' \<and> path = ''/api/audit'' then handle_audit (en_date env) (hc_caps (en_config env)) req
        else if m = ''GET'' \<and> path = ''/api/requisitions'' then Calls ListRequisitions
        else if m = ''POST'' \<and> path = ''/api/requisitions'' then handle_raise_requisition parse req who
        else
          (case (m = ''POST'', match_between [[], ''api'', ''requisitions''] [''decision''] path) of
             (True, Some raw) \<Rightarrow>
               decoded env ''requisition id'' ''requisitionId'' raw (\<lambda>i. handle_decide_requisition parse req who i)
           | _ \<Rightarrow>
               if m = ''GET'' \<and> path = ''/api/reviews'' then handle_list_reviews req
               else if m = ''POST'' \<and> path = ''/api/reviews'' then handle_create_review parse req who
               else
                 (case (m = ''POST'', match_between [[], ''api'', ''reviews''] [''finalise''] path) of
                    (True, Some raw) \<Rightarrow> decoded env ''review id'' ''reviewId'' raw (\<lambda>i. handle_finalise_review who i)
                  | _ \<Rightarrow>
                      (case match_between [[], ''api'', ''reviews''] [] path of
                         Some raw \<Rightarrow>
                           decoded env ''review id'' ''reviewId'' raw (\<lambda>i.
                             if m = ''POST'' then handle_append_review parse req who i
                             else if m = ''GET'' then Calls (GetReview i who)
                             else no_route path)
                       | None \<Rightarrow>
                           (case match_session path of
                              Some (raw, rest) \<Rightarrow>
                                decoded env ''session id'' ''sessionId'' raw (\<lambda>sid. ws_session_route env req who sid rest)
                            | None \<Rightarrow> no_route path)))))"

definition ws_listener :: "edge_env \<Rightarrow> edge_request \<Rightarrow> routed" where
  "ws_listener env req =
     (let m = eg_method req; path = eg_path req
      in
        case handle_probe m path (en_ready env) of
          Some p \<Rightarrow> Probed p
        | None \<Rightarrow>
            if m = ''GET'' \<and> path \<in> set static_paths then StaticFile path
            else if take 5 path \<noteq> ''/api/'' then Routed (Refused (plain_error ApiNoSuchSession ''no such route''))
            else if is_mutating m \<and> \<not> origin_allowed (eg_identity req) (hc_allowed_origins (en_config env))
            then Routed (Refused (plain_error BadOrigin ''origin is not allowed''))
            else if m = ''POST'' \<and> path = ''/api/login''
            then Routed (handle_login (en_parse env) (en_encode env) (en_config env) req)
            else
              (case identify env req of
                 Inl e \<Rightarrow> Routed (Refused (plain_error Unauthenticated ''no usable identity''))
               | Inr who \<Rightarrow> Routed (ws_route env req who)))"

section \<open>The edges agree\<close>

text \<open>\<open>server.ts\<close> binds one edge.\<close>

fun console_listener :: "edge_kind \<Rightarrow> edge_env \<Rightarrow> edge_request \<Rightarrow> routed" where
  "console_listener EdgeSse = sse_listener"
| "console_listener EdgeWs = ws_listener"

text \<open>The one request on which they differ.\<close>

definition asks_events :: "edge_request \<Rightarrow> bool" where
  "asks_events req \<longleftrightarrow>
     eg_method req = ''GET'' \<and> map_option snd (match_session (eg_path req)) = Some ''/events''"

lemma session_routes_agree:
  "\<not> (eg_method req = ''GET'' \<and> rest = ''/events'') \<Longrightarrow>
   ws_session_route env req who sid rest = sse_session_route env req who sid rest"
  unfolding ws_session_route_def sse_session_route_def Let_def by (simp only: if_False)

lemma routes_agree:
  assumes "\<not> asks_events req" shows "ws_route env req who = sse_route env req who"
proof (cases "match_session (eg_path req)")
  case None
  then show ?thesis by (simp only: ws_route_def sse_route_def Let_def option.case)
next
  case (Some p)
  obtain raw rest where p: "p = (raw, rest)" by (cases p)
  have "ws_session_route env req who sid rest = sse_session_route env req who sid rest" for sid
    using assms by (intro session_routes_agree) (simp add: asks_events_def Some p)
  then show ?thesis
    by (simp only: ws_route_def sse_route_def Let_def Some p option.case prod.case)
qed


section \<open>What a request must have to reach a call\<close>

text \<open>
  The call is for the operator himself, or one that is open to every operator and changes nothing;
  and what changes anything came by a method whose origin is checked.
\<close>

definition permitted :: "principal_id \<Rightarrow> string \<Rightarrow> edge_call \<Rightarrow> bool" where
  "permitted who m c \<longleftrightarrow>
     (call_operator c = Some who \<or> only_reads c) \<and> (call_changes c \<longrightarrow> is_mutating m)"

lemma handled_by_mono: "handled_by P who h \<Longrightarrow> (\<And>c. P c \<Longrightarrow> Q c) \<Longrightarrow> handled_by Q who h"
  by (cases h) simp_all

lemma permitted_own:
  "handled_by (for_operator who) who h \<Longrightarrow> is_mutating m \<Longrightarrow> handled_by (permitted who m) who h"
  by (erule handled_by_mono) (simp add: permitted_def for_operator_def)

lemma permitted_open: "handled_by only_reads who h \<Longrightarrow> handled_by (permitted who m) who h"
  by (erule handled_by_mono) (simp add: permitted_def only_reads_def)

lemma permitted_output:
  "handled_by (\<lambda>c. call_operator c = Some who \<and> \<not> call_changes c) who h \<Longrightarrow> handled_by (permitted who m) who h"
  by (erule handled_by_mono) (simp add: permitted_def)

named_theorems route_intros

lemma handled_if [route_intros]:
  "(q \<Longrightarrow> handled_by P who a) \<Longrightarrow> (\<not> q \<Longrightarrow> handled_by P who b) \<Longrightarrow> handled_by P who (if q then a else b)"
  by simp

lemma handled_option [route_intros]:
  "(x = None \<Longrightarrow> handled_by P who a) \<Longrightarrow> (\<And>y. x = Some y \<Longrightarrow> handled_by P who (f y)) \<Longrightarrow>
   handled_by P who (case x of None \<Rightarrow> a | Some y \<Rightarrow> f y)"
  by (cases x) simp_all

lemma handled_pair [route_intros]: "(\<And>x y. p = (x, y) \<Longrightarrow> handled_by P who (f x y)) \<Longrightarrow> handled_by P who (case p of (x, y) \<Rightarrow> f x y)"
  by (cases p) simp

lemma handled_decoded [route_intros]: "(\<And>s. handled_by P who (k s)) \<Longrightarrow> handled_by P who (decoded env l f raw k)"
  by (simp add: decoded_def split: option.split)

lemma handled_no_route [simp]: "handled_by P who (no_route f)"
  by (simp add: no_route_def)

lemma is_mutating_simps [simp]: "is_mutating ''POST''" "is_mutating ''DELETE''" "\<not> is_mutating ''GET''"
  by (simp_all add: is_mutating_def)

lemma session_route_permitted: "handled_by (permitted who (eg_method req)) who (sse_session_route env req who sid rest)"
  unfolding sse_session_route_def Let_def
  by (intro route_intros)
    (simp_all add: permitted_own permitted_output permitted_def)

lemma handled_bool [route_intros]:
  "(q \<Longrightarrow> handled_by P who a) \<Longrightarrow> (\<not> q \<Longrightarrow> handled_by P who b) \<Longrightarrow>
   handled_by P who (case q of True \<Rightarrow> a | False \<Rightarrow> b)"
  by (cases q) simp_all

lemma sse_route_permitted: "handled_by (permitted who (eg_method req)) who (sse_route env req who)"
  unfolding sse_route_def Let_def
  by (intro route_intros session_route_permitted)
    (auto simp: permitted_own permitted_open permitted_def only_reads_def)

lemma events_refused: "handled_by P who (ws_session_route env req who sid rest)"
  if "eg_method req = ''GET''" "rest = ''/events''"
  using that by (simp add: ws_session_route_def Let_def)

lemma ws_session_route_permitted: "handled_by (permitted who (eg_method req)) who (ws_session_route env req who sid rest)"
  using session_route_permitted [of who req env sid rest]
  by (cases "eg_method req = ''GET'' \<and> rest = ''/events''") (simp_all add: events_refused session_routes_agree)

lemma ws_route_permitted: "handled_by (permitted who (eg_method req)) who (ws_route env req who)"
  unfolding ws_route_def Let_def
  by (intro route_intros ws_session_route_permitted)
    (auto simp: permitted_own permitted_open permitted_def only_reads_def)

fun edge_route :: "edge_kind \<Rightarrow> edge_env \<Rightarrow> edge_request \<Rightarrow> principal_id \<Rightarrow> handled" where
  "edge_route EdgeSse = sse_route"
| "edge_route EdgeWs = ws_route"

lemma edge_route_permitted: "handled_by (permitted who (eg_method req)) who (edge_route edge env req who)"
  by (cases edge) (simp_all add: sse_route_permitted ws_route_permitted)

text \<open>A login mints a cookie; it calls nothing.\<close>

lemma login_calls_nothing: "handle_login parse encode config req \<noteq> Calls c"
  by (auto simp: handle_login_def split: auth_config.split sum.split wire.split option.split)

lemma listener_Calls:
  assumes "console_listener edge env req = Routed (Calls c)"
  obtains who where "identify env req = Inr who" "edge_route edge env req who = Calls c"
    "is_mutating (eg_method req) \<Longrightarrow> origin_allowed (eg_identity req) (hc_allowed_origins (en_config env))"
  using assms
  by (cases edge)
    (auto simp: sse_listener_def ws_listener_def Let_def login_calls_nothing split: option.splits if_splits sum.splits)


text \<open>
  A request from a foreign origin is refused as such, whether or not its identity resolves.
\<close>

theorem foreign_origin_is_refused_first:
  assumes "is_mutating (eg_method req)" and "take 5 (eg_path req) = ''/api/''"
    and "\<not> origin_allowed (eg_identity req) (hc_allowed_origins (en_config env))"
  shows "console_listener edge env req = Routed (Refused (plain_error BadOrigin ''origin is not allowed''))"
proof -
  have "eg_method req \<noteq> ''GET''" using assms(1) by (auto simp: is_mutating_def)
  with assms show ?thesis
    by (cases edge) (simp_all add: sse_listener_def ws_listener_def Let_def handle_probe_def)
qed

section \<open>Every session's path reaches its handler\<close>

fun edge_session_route ::
  "edge_kind \<Rightarrow> edge_env \<Rightarrow> edge_request \<Rightarrow> principal_id \<Rightarrow> session_id \<Rightarrow> string \<Rightarrow> handled" where
  "edge_session_route EdgeSse = sse_session_route"
| "edge_session_route EdgeWs = ws_session_route"

lemma segments_sessions: "segments (sessions_prefix @ tail) = [] # ''api'' # ''sessions'' # segments tail"
  by (simp add: segments_def sessions_prefix_def)

lemma match_between_sessions:
  "take 3 before \<noteq> [[], ''api'', ''sessions''] \<Longrightarrow> length before = 3 \<Longrightarrow>
   match_between before after (sessions_prefix @ tail) = None"
  by (auto simp: match_between_def segments_sessions Let_def)

lemma match_session_there:
  assumes "raw \<noteq> []" "CHR ''/'' \<notin> set raw" "rest = [] \<or> hd rest = CHR ''/''" "CHR ''?'' \<notin> set rest"
  shows "match_session (sessions_prefix @ raw @ rest) = Some (raw, rest)"
proof -
  have "takeWhile (\<lambda>c. c \<noteq> CHR ''/'') (raw @ rest) = raw"
    using assms(2,3) by (cases rest) (auto simp: takeWhile_append2 takeWhile_tail intro: takeWhile_eq_all_conv [THEN iffD2])
  with assms show ?thesis by (simp add: match_session_def Let_def)
qed

lemma edge_route_session:
  assumes "eg_path req = sessions_prefix @ raw @ rest"
    and "raw \<noteq> []" "CHR ''/'' \<notin> set raw" "rest = [] \<or> hd rest = CHR ''/''" "CHR ''?'' \<notin> set rest"
    and "en_decode env raw = Some sid"
  shows "edge_route edge env req who = edge_session_route edge env req who sid rest"
proof -
  have others: "eg_path req \<noteq> ''/api/vendors''" "eg_path req \<noteq> ''/api/sessions''" "eg_path req \<noteq> ''/api/audit''"
    "eg_path req \<noteq> ''/api/requisitions''" "eg_path req \<noteq> ''/api/reviews''"
    by (auto simp: assms(1) sessions_prefix_def)
  have session: "match_session (eg_path req) = Some (raw, rest)"
    unfolding assms(1) by (rule match_session_there) (use assms in auto)
  have none: "match_between [[], ''api'', ''requisitions''] a (eg_path req) = None"
    "match_between [[], ''api'', ''reviews''] a (eg_path req) = None" for a
    by (simp_all add: assms(1) match_between_sessions)
  show ?thesis
    by (cases edge)
      (simp_all add: sse_route_def ws_route_def Let_def others none session decoded_def assms(6) split: bool.split)
qed

text \<open>
  The path of a session, its identifier encoded, reaches the route of that session on both edges for
  every operator that is identified.
\<close>

theorem session_path_reaches_its_route:
  assumes "eg_path req = sessions_prefix @ raw @ rest"
    and "raw \<noteq> [] \<and> CHR ''/'' \<notin> set raw" and "rest = [] \<or> hd rest = CHR ''/''" and "CHR ''?'' \<notin> set rest"
    and "en_decode env raw = Some sid" and "identify env req = Inr who"
    and "is_mutating (eg_method req) \<longrightarrow> origin_allowed (eg_identity req) (hc_allowed_origins (en_config env))"
  shows "console_listener edge env req = Routed (edge_session_route edge env req who sid rest)"
proof -
  have path: "take 5 (eg_path req) = ''/api/''" "eg_path req \<notin> set static_paths" "eg_path req \<noteq> ''/api/login''"
    "eg_path req \<noteq> ''/livez''" "eg_path req \<noteq> ''/readyz''"
    by (auto simp: assms(1) sessions_prefix_def static_paths_def)
  have "edge_route edge env req who = edge_session_route edge env req who sid rest"
    by (rule edge_route_session) (use assms in auto)
  with path assms(6,7) show ?thesis
    by (cases edge; cases "is_mutating (eg_method req)")
      (simp_all add: sse_listener_def ws_listener_def Let_def handle_probe_def)
qed

section \<open>Examples\<close>

definition example_console :: host_config where
  "example_console =
     \<lparr>hc_host = ''127.0.0.1'', hc_port = 8080, hc_auth = ProxyHeader ''x-user'', hc_roots = [''/w''],
      hc_storage_root = ''/s'', hc_allowed_origins = [''https://console''], hc_trust_proxy = [],
      hc_caps = \<lparr>cc_ring_capacity = 10, cc_tool_result_bytes = 100, cc_subscriber_queue_high_water = 1,
        cc_keepalive_ms = 1000, cc_audit_page_max = 10, cc_review_body_bytes = 100, cc_requisition_text_bytes = 100,
        cc_standing_rule_bytes = 100, cc_attachment_bytes = 3, cc_attachment_count = 1,
        cc_session_tool_output_bytes = 100, cc_permission_reason_bytes = 100\<rparr>,
      hc_cookie_max_age = 60, hc_include_raw = False, hc_stream_deltas = False, hc_terse = True,
      hc_budget = None, hc_warn_fraction = None, hc_rates = None, hc_currency = None, hc_checklist = [],
      hc_edge = EdgeWs\<rparr>"

definition console_env :: edge_env where
  "console_env =
     \<lparr>en_parse = (\<lambda>_. Some (WObj [(''text'', WStr ''hello'')])), en_decode = Some, en_encode = id, en_date = (\<lambda>_. None),
      en_config = example_console, en_ready = True\<rparr>"

definition example_request :: "string \<Rightarrow> string \<Rightarrow> edge_request" where
  "example_request m path =
     \<lparr>eg_method = m, eg_path = path, eg_query = [],
      eg_identity = \<lparr>ir_headers = [(''x-user'', HeaderText ''ada''), (''origin'', HeaderText ''https://console'')],
        ir_remote = ''127.0.0.1''\<rparr>,
      eg_body = [[]]\<rparr>"

lemmas console_example_defs = example_console_def console_env_def example_request_def

lemma example_identity: "identify console_env (example_request m path) = Inr ''ada''"
  by (simp add: identify_def console_example_defs trusted_header_def peer_is_trusted_def loopback_peers_def header_def
      lower_char_def value_text_def trim_def js_space_def)

lemma example_origin:
  "origin_allowed (eg_identity (example_request m path)) (hc_allowed_origins (en_config console_env))"
  by (simp add: console_example_defs origin_allowed_def header_text_def value_text_def jget_def)

lemma example_fields [simp]:
  "eg_method (example_request m path) = m" "eg_path (example_request m path) = path" "en_decode console_env = Some"
  by (simp_all add: console_example_defs)

theorem session_path_reaches_its_route_witness:
  "console_listener EdgeSse console_env (example_request ''POST'' ''/api/sessions/s1/message'') =
     Routed (edge_session_route EdgeSse console_env (example_request ''POST'' ''/api/sessions/s1/message'') ''ada'' ''s1'' ''/message'')"
  by (rule session_path_reaches_its_route [where raw = "''s1''"])
    (simp_all add: example_identity example_origin sessions_prefix_def)



end
