(* ===== verification/Ws_Frames.thy ===== *)
theory Ws_Frames
  imports Console_Prelude "HOL-Library.Word"
begin

text \<open>
  The frame codec of the WebSocket edge (\<open>src/edge/ws/index.ts\<close>): \<open>parseFrames\<close> takes the complete
  frames off the front of what has been received, \<open>encodeFrame\<close> makes a server's frame, and the
  receiver holds what is left over for the next chunk. A client's frame is as RFC 6455 has it.
\<close>

unbundle bit_operations_syntax

type_synonym wire_byte = "8 word"

section \<open>Parsing\<close>

record ws_frame =
  wf_fin :: bool
  wf_opcode :: wire_byte
  wf_payload :: "wire_byte list"

definition be_nat :: "wire_byte list \<Rightarrow> nat" where
  "be_nat bs = foldl (\<lambda>n b. n * 256 + unat b) 0 bs"

definition max_safe :: nat where
  "max_safe = 2 ^ 53 - 1"

fun unmask :: "wire_byte list \<Rightarrow> nat \<Rightarrow> wire_byte list \<Rightarrow> wire_byte list" where
  "unmask key i [] = []"
| "unmask key i (b # bs) = (b XOR key ! (i mod 4)) # unmask key (Suc i) bs"

text \<open>One frame: there, with the bytes it takes, not yet there, or one that the edge refuses.\<close>

datatype frame_parse = FrameMore | FrameRefused | FrameThere ws_frame nat

definition parse_payload ::
  "bool \<Rightarrow> wire_byte \<Rightarrow> bool \<Rightarrow> nat \<Rightarrow> nat \<Rightarrow> wire_byte list \<Rightarrow> frame_parse" where
  "parse_payload fin opcode masked n taken rest =
     (if masked \<and> length rest < 4 then FrameMore
      else
        (let key = take 4 rest; body = (if masked then drop 4 rest else rest); taken' = (if masked then taken + 4 else taken)
         in
           if length body < n then FrameMore
           else if \<not> masked then FrameRefused
           else FrameThere \<lparr>wf_fin = fin, wf_opcode = opcode, wf_payload = unmask key 0 (take n body)\<rparr> (taken' + n)))"

definition parse_frame :: "wire_byte list \<Rightarrow> frame_parse" where
  "parse_frame buf =
     (case buf of
        b0 # b1 # rest \<Rightarrow>
          (let fin = (b0 AND 0x80 \<noteq> 0); opcode = b0 AND 0x0F; masked = (b1 AND 0x80 \<noteq> 0); n = unat (b1 AND 0x7F)
           in
             if n = 126 then
               (if length rest < 2 then FrameMore
                else parse_payload fin opcode masked (be_nat (take 2 rest)) 4 (drop 2 rest))
             else if n = 127 then
               (if length rest < 8 then FrameMore
                else if max_safe < be_nat (take 8 rest) then FrameRefused
                else parse_payload fin opcode masked (be_nat (take 8 rest)) 10 (drop 8 rest))
             else parse_payload fin opcode masked n 2 rest)
      | _ \<Rightarrow> FrameMore)"

lemma parse_payload_taken:
  "parse_payload fin opcode masked n taken rest = FrameThere f k \<Longrightarrow> taken \<le> k \<and> k \<le> taken + length rest"
  by (auto simp: parse_payload_def Let_def split: if_splits)

lemma parse_frame_taken: "parse_frame buf = FrameThere f k \<Longrightarrow> 2 \<le> k \<and> k \<le> length buf"
  by (auto simp: parse_frame_def Let_def split: list.splits if_splits dest!: parse_payload_taken)

text \<open>
  \<open>parseFrames\<close>: the frames and the bytes they take. A refused frame throws, whatever came before
  it in the buffer.
\<close>

function parse_frames :: "wire_byte list \<Rightarrow> (ws_frame list \<times> nat) option" where
  "parse_frames buf =
     (case parse_frame buf of
        FrameMore \<Rightarrow> Some ([], 0)
      | FrameRefused \<Rightarrow> None
      | FrameThere f k \<Rightarrow> map_option (\<lambda>(fs, n). (f # fs, k + n)) (parse_frames (drop k buf)))"
  by pat_completeness auto
termination
proof (relation "measure length")
  fix buf f k assume "parse_frame buf = FrameThere f k"
  then have "2 \<le> k \<and> k \<le> length buf" by (rule parse_frame_taken)
  then show "(drop k buf, buf) \<in> measure length" by auto
qed simp

declare parse_frames.simps [simp del]

section \<open>A server's frame\<close>

definition be_bytes :: "nat \<Rightarrow> nat \<Rightarrow> wire_byte list" where
  "be_bytes k n = map (\<lambda>i. word_of_nat (n div 256 ^ i)) (rev [0 ..< k])"

definition frame_header :: "wire_byte \<Rightarrow> nat \<Rightarrow> wire_byte list" where
  "frame_header flag n =
     (if n < 126 then [flag OR word_of_nat n]
      else if n < 65536 then (flag OR 126) # be_bytes 2 n
      else (flag OR 127) # be_bytes 8 n)"

definition encode_frame :: "wire_byte \<Rightarrow> wire_byte list \<Rightarrow> wire_byte list" where
  "encode_frame opcode payload = (0x80 OR opcode) # frame_header 0 (length payload) @ payload"

section \<open>Receiving in chunks\<close>

text \<open>
  \<open>onData\<close>, without what it does with the frames: what is held and the chunk together must stay
  within the cap and parse.
\<close>

definition max_buffered_frame_bytes :: nat where
  "max_buffered_frame_bytes = 1024 * 1024"

datatype receive_end = Frames "ws_frame list" | TooBig | ProtocolError

definition receive_chunk :: "wire_byte list \<Rightarrow> wire_byte list \<Rightarrow> receive_end \<times> wire_byte list" where
  "receive_chunk held chunk =
     (let buffered = held @ chunk
      in
        if max_buffered_frame_bytes < length buffered then (TooBig, buffered)
        else
          (case parse_frames buffered of
             None \<Rightarrow> (ProtocolError, buffered)
           | Some (fs, n) \<Rightarrow> (Frames fs, drop n buffered)))"

fun receive_all :: "wire_byte list list \<Rightarrow> wire_byte list \<Rightarrow> ws_frame list option \<times> wire_byte list" where
  "receive_all [] held = (Some [], held)"
| "receive_all (c # cs) held =
     (case receive_chunk held c of
        (Frames fs, held') \<Rightarrow> (let (r, h) = receive_all cs held' in (map_option (append fs) r, h))
      | (_, held') \<Rightarrow> (None, held'))"

section \<open>Frames do not depend on the chunks\<close>

lemma parse_payload_more:
  "parse_payload fin opcode masked n taken rest \<noteq> FrameMore \<Longrightarrow>
   parse_payload fin opcode masked n taken (rest @ later) = parse_payload fin opcode masked n taken rest"
  by (auto simp: parse_payload_def Let_def split: if_splits)

lemma parse_frame_more:
  assumes "parse_frame buf \<noteq> FrameMore" shows "parse_frame (buf @ later) = parse_frame buf"
proof -
  from assms obtain b0 b1 rest where buf: "buf = b0 # b1 # rest"
    by (auto simp: parse_frame_def split: list.splits)
  with assms show ?thesis
    by (auto simp: parse_frame_def Let_def parse_payload_more split: if_splits)
qed

lemma parse_frames_taken: "parse_frames buf = Some (fs, n) \<Longrightarrow> n \<le> length buf"
proof (induction buf arbitrary: fs n rule: parse_frames.induct)
  case (1 buf)
  show ?case
  proof (cases "parse_frame buf")
    case (FrameThere f k)
    with 1(2) obtain gs m where "parse_frames (drop k buf) = Some (gs, m)" "n = k + m"
      by (auto simp: parse_frames.simps [of buf])
    with 1(1) [OF FrameThere, of gs m] parse_frame_taken [OF FrameThere] show ?thesis by auto
  qed (use 1(2) in \<open>simp_all add: parse_frames.simps [of buf]\<close>)
qed

lemma parse_frames_append:
  "parse_frames buf = Some (fs, n) \<Longrightarrow>
   parse_frames (buf @ later) = map_option (\<lambda>(gs, m). (fs @ gs, n + m)) (parse_frames (drop n buf @ later))"
proof (induction buf arbitrary: fs n rule: parse_frames.induct)
  case (1 buf)
  show ?case
  proof (cases "parse_frame buf")
    case FrameMore
    with 1(2) have "fs = []" "n = 0" by (simp_all add: parse_frames.simps [of buf])
    then show ?thesis by (simp add: option.map_ident case_prod_unfold)
  next
    case FrameRefused
    with 1(2) show ?thesis by (simp add: parse_frames.simps [of buf])
  next
    case (FrameThere f k)
    with 1(2) obtain gs m where rest: "parse_frames (drop k buf) = Some (gs, m)" "fs = f # gs" "n = k + m"
      by (auto simp: parse_frames.simps [of buf])
    have "parse_frame (buf @ later) = FrameThere f k" using parse_frame_more [of buf later] FrameThere by simp
    moreover have "k \<le> length buf" using parse_frame_taken [OF FrameThere] by simp
    ultimately have "parse_frames (buf @ later) = map_option (\<lambda>(fs, n). (f # fs, k + n)) (parse_frames (drop k buf @ later))"
      by (simp add: parse_frames.simps [of "buf @ later"])
    with 1(1) [OF FrameThere rest(1)] rest(2,3) show ?thesis
      by (cases "parse_frames (drop n buf @ later)") (auto simp: add.commute)
  qed
qed

text \<open>A frame that arrives whole is parsed, whatever follows it.\<close>

lemma parse_frames_there:
  "parse_frame buf = FrameThere f (length buf) \<Longrightarrow>
   parse_frames (buf @ later) = map_option (\<lambda>(fs, n). (f # fs, length buf + n)) (parse_frames later)"
  using parse_frame_more [of buf later] by (simp add: parse_frames.simps [of "buf @ later"])

section \<open>Reference: a client's frame\<close>

text \<open>RFC 6455, section 5: a client masks its payload with a key of four bytes.\<close>

record client_frame =
  cl_fin :: bool
  cl_opcode :: wire_byte
  cl_key :: "wire_byte list"
  cl_payload :: "wire_byte list"

definition client_bytes :: "client_frame \<Rightarrow> wire_byte list" where
  "client_bytes f =
     ((if cl_fin f then 0x80 else 0) OR cl_opcode f) # frame_header 0x80 (length (cl_payload f)) @ cl_key f
       @ unmask (cl_key f) 0 (cl_payload f)"

definition sent_frame :: "client_frame \<Rightarrow> ws_frame" where
  "sent_frame f = \<lparr>wf_fin = cl_fin f, wf_opcode = cl_opcode f, wf_payload = cl_payload f\<rparr>"

definition client_frame_ok :: "client_frame \<Rightarrow> bool" where
  "client_frame_ok f \<longleftrightarrow> cl_opcode f < 16 \<and> length (cl_key f) = 4 \<and> length (cl_payload f) \<le> max_safe"

lemma unmask_unmask [simp]: "unmask key i (unmask key i bs) = bs"
proof (induction bs arbitrary: i)
  case (Cons b bs)
  have "(b XOR k) XOR k = b" for k by (rule bit_word_eqI) (auto simp: bit_xor_iff)
  with Cons show ?case by (simp only: unmask.simps)
qed simp

lemma length_unmask [simp]: "length (unmask key i bs) = length bs"
  by (induction bs arbitrary: i) simp_all

lemma be_nat_append: "be_nat (xs @ [b]) = be_nat xs * 256 + unat b"
  by (simp add: be_nat_def)

lemma be_bytes_Suc: "be_bytes (Suc k) n = be_bytes k (n div 256) @ [word_of_nat n]"
proof -
  have up: "[0 ..< Suc k] = 0 # map Suc [0 ..< k]" by (simp add: map_Suc_upt upt_conv_Cons del: upt_Suc)
  show ?thesis
    by (simp add: be_bytes_def up rev_map div_mult2_eq comp_def del: upt_Suc)
qed

lemma length_be_bytes [simp]: "length (be_bytes k n) = k"
  by (simp add: be_bytes_def)

lemma be_nat_bytes: "n < 256 ^ k \<Longrightarrow> be_nat (be_bytes k n) = n"
proof (induction k arbitrary: n)
  case (Suc k)
  then have "n div 256 < 256 ^ k" by (simp add: less_mult_imp_div_less mult.commute)
  with Suc.IH show ?case
    by (simp add: be_bytes_Suc be_nat_append unat_of_nat div_mult_mod_eq)
qed (simp add: be_bytes_def be_nat_def)

text \<open>The two header bytes, bit by bit.\<close>

lemma header_bits:
  fixes opcode :: wire_byte
  assumes "opcode < 16"
  shows "((if fin then 0x80 else 0) OR opcode) AND 0x80 \<noteq> 0 \<longleftrightarrow> fin"
    and "((if fin then 0x80 else 0) OR opcode) AND 0x0F = opcode"
proof -
  have "unat opcode < 2 ^ 4" using assms by (simp add: word_less_nat_alt)
  then have "take_bit 4 opcode = opcode"
    by (metis unsigned_take_bit_eq take_bit_nat_eq_self word_unat_eq_iff)
  then have low: "opcode AND mask 4 = opcode" by (simp add: take_bit_eq_mask)
  have none: "opcode AND 0x80 = 0"
  proof -
    have "opcode AND 0x80 = (opcode AND mask 4) AND 0x80" by (simp only: low)
    also have "\<dots> = opcode AND (mask 4 AND 0x80)" by (rule and.assoc)
    also have "\<dots> = 0" by (simp add: mask_eq_exp_minus_1)
    finally show ?thesis .
  qed
  show "((if fin then 0x80 else 0) OR opcode) AND 0x80 \<noteq> 0 \<longleftrightarrow> fin"
    using none by (simp add: bit.conj_disj_distrib2)
  show "((if fin then 0x80 else 0) OR opcode) AND 0x0F = opcode"
    using low by (simp add: bit.conj_disj_distrib2 mask_eq_exp_minus_1)
qed

lemma length_bits:
  assumes "n < 128"
  shows "(0x80 OR word_of_nat n :: wire_byte) AND 0x80 \<noteq> 0"
    and "unat ((0x80 OR word_of_nat n :: wire_byte) AND 0x7F) = n"
proof -
  have "bit ((0x80 OR word_of_nat n :: wire_byte) AND 0x80) 7"
    by (simp add: bit_simps)
  then show "(0x80 OR word_of_nat n :: wire_byte) AND 0x80 \<noteq> 0"
    by (metis bit_0_eq bot_apply bot_bool_def)
  have "(0x80 OR word_of_nat n :: wire_byte) AND mask 7 = word_of_nat n AND mask 7"
    by (simp only: bit.conj_disj_distrib2) (simp add: mask_eq_exp_minus_1)
  then have "(0x80 OR word_of_nat n :: wire_byte) AND 0x7F = take_bit 7 (word_of_nat n)"
    by (simp add: take_bit_eq_mask mask_eq_exp_minus_1)
  then have "unat ((0x80 OR word_of_nat n :: wire_byte) AND 0x7F) = take_bit 7 (unat (word_of_nat n :: wire_byte))"
    by (simp only: unsigned_take_bit_eq)
  with assms show "unat ((0x80 OR word_of_nat n :: wire_byte) AND 0x7F) = n"
    by (simp only: unat_of_nat take_bit_eq_mod) simp
qed

text \<open>A client's frame is parsed back, whatever its length.\<close>

lemma parse_payload_masked:
  assumes "length key = 4"
  shows "parse_payload fin opcode True (length payload) taken (key @ unmask key 0 payload) =
    FrameThere \<lparr>wf_fin = fin, wf_opcode = opcode, wf_payload = payload\<rparr> (taken + 4 + length payload)"
  using assms by (simp add: parse_payload_def Let_def)

lemma parse_client_frame:
  assumes "client_frame_ok f"
  shows "parse_frame (client_bytes f) = FrameThere (sent_frame f) (length (client_bytes f))"
proof -
  let ?n = "length (cl_payload f)"
  have key: "length (cl_key f) = 4" and op: "cl_opcode f < 16" and n: "?n \<le> max_safe"
    using assms by (simp_all add: client_frame_ok_def)
  note bits = header_bits [OF op, of "cl_fin f"]
  consider "?n < 126" | "126 \<le> ?n" "?n < 65536" | "65536 \<le> ?n" by linarith
  then show ?thesis
  proof cases
    case 1
    with length_bits [of ?n] bits key show ?thesis
      by (simp add: client_bytes_def frame_header_def parse_frame_def Let_def parse_payload_masked sent_frame_def)
  next
    case 2
    with length_bits [of 126] bits key show ?thesis
      by (simp add: client_bytes_def frame_header_def parse_frame_def Let_def parse_payload_masked sent_frame_def
          be_nat_bytes)
  next
    case 3
    with n have "?n < 256 ^ 8" "\<not> max_safe < ?n" by (simp_all add: max_safe_def)
    with 3 length_bits [of 127] bits key show ?thesis
      by (simp add: client_bytes_def frame_header_def parse_frame_def Let_def parse_payload_masked sent_frame_def
          be_nat_bytes)
  qed
qed

section \<open>A stream of frames, in any chunks\<close>

abbreviation stream_of :: "client_frame list \<Rightarrow> wire_byte list" where
  "stream_of fs \<equiv> concat (map client_bytes fs)"

lemma parse_frame_short:
  assumes "client_frame_ok f" "client_bytes f = p @ q" "q \<noteq> []"
  shows "parse_frame p = FrameMore"
proof (rule ccontr)
  assume "parse_frame p \<noteq> FrameMore"
  from parse_frame_more [OF this, of q] have "parse_frame p = parse_frame (client_bytes f)" by (simp only: assms(2))
  also have "\<dots> = FrameThere (sent_frame f) (length (client_bytes f))" by (rule parse_client_frame [OF assms(1)])
  finally have there: "parse_frame p = FrameThere (sent_frame f) (length (p @ q))" by (simp only: assms(2))
  from parse_frame_taken [OF there] assms(3) show False by simp
qed

text \<open>Of any prefix of a stream the complete frames are taken, and what is left is the start of the next one.\<close>

lemma parse_frames_prefix:
  "p @ q = stream_of fs \<Longrightarrow> list_all client_frame_ok fs \<Longrightarrow>
   \<exists>gs hs. fs = gs @ hs \<and> parse_frames p = Some (map sent_frame gs, length (stream_of gs)) \<and>
     p = stream_of gs @ drop (length (stream_of gs)) p \<and>
     (drop (length (stream_of gs)) p = [] \<or> (\<exists>h hs'. hs = h # hs' \<and> length (drop (length (stream_of gs)) p) < length (client_bytes h)))"
proof (induction fs arbitrary: p)
  case Nil
  then have "p = []" by simp
  moreover have "parse_frames [] = Some ([], 0)" by (simp add: parse_frames.simps [of "[]"] parse_frame_def)
  ultimately show ?case by simp
next
  case (Cons f fs)
  then have ok: "client_frame_ok f" "list_all client_frame_ok fs" and pq: "p @ q = client_bytes f @ stream_of fs" by simp_all
  show ?case
  proof (cases "length p < length (client_bytes f)")
    case True
    then obtain r where r: "client_bytes f = p @ r" "r \<noteq> []"
      using pq by (auto simp: append_eq_append_conv2) (metis append_Nil2 nat_less_le)
    have "parse_frames p = Some ([], 0)" by (simp add: parse_frames.simps [of p] parse_frame_short [OF ok(1) r])
    with True show ?thesis by (intro exI [of _ "[]"] exI [of _ "f # fs"]) simp
  next
    case False
    moreover have "take (length (client_bytes f)) (p @ q) = client_bytes f" by (simp add: pq)
    ultimately have "take (length (client_bytes f)) p = client_bytes f" by simp
    then obtain p' where p'1: "p = client_bytes f @ p'" by (metis append_take_drop_id)
    with pq have p': "p = client_bytes f @ p'" "p' @ q = stream_of fs" by simp_all
    from Cons.IH [OF p'(2) ok(2)] obtain gs hs where
      "fs = gs @ hs" "parse_frames p' = Some (map sent_frame gs, length (stream_of gs))"
      "p' = stream_of gs @ drop (length (stream_of gs)) p'"
      "drop (length (stream_of gs)) p' = [] \<or> (\<exists>h hs'. hs = h # hs' \<and> length (drop (length (stream_of gs)) p') < length (client_bytes h))"
      by blast
    moreover from this(2) have "parse_frames p = Some (map sent_frame (f # gs), length (stream_of (f # gs)))"
      using parse_frames_there [OF parse_client_frame [OF ok(1)]] by (simp add: p'(1))
    ultimately show ?thesis
      by (intro exI [of _ "f # gs"] exI [of _ hs]) (simp add: p'(1))
  qed
qed

lemma receive_all_prefix:
  assumes "\<And>f. f \<in> set fs \<Longrightarrow> client_frame_ok f \<and> length (client_bytes f) + most \<le> max_buffered_frame_bytes"
    and "\<And>c. c \<in> set cs \<Longrightarrow> length c \<le> most" and "most \<le> max_buffered_frame_bytes"
    and "held @ concat cs = stream_of fs" and "parse_frames held = Some ([], 0)"
    and "held = [] \<or> (\<exists>h hs. fs = h # hs \<and> length held < length (client_bytes h))"
  shows "receive_all cs held = (Some (map sent_frame fs), [])"
  using assms
proof (induction cs arbitrary: held fs)
  case Nil
  have "parse_frames (stream_of fs) = Some (map sent_frame fs, length (stream_of fs))" if "list_all client_frame_ok fs" for fs
    using that
  proof (induction fs)
    case (Cons f fs)
    then show ?case
      using parse_frames_there [OF parse_client_frame, of f "stream_of fs"] by simp
  qed (simp add: parse_frames.simps [of "[]"] parse_frame_def)
  moreover have "list_all client_frame_ok fs" using Nil.prems(1) by (simp add: list_all_iff)
  ultimately show ?case using Nil.prems(4,5) by simp
next
  case (Cons c cs)
  have "(held @ c) @ concat cs = stream_of fs" "list_all client_frame_ok fs"
    using Cons.prems(1,4) by (simp_all add: list_all_iff)
  from parse_frames_prefix [OF this] obtain gs hs where fs: "fs = gs @ hs"
    and parsed: "parse_frames (held @ c) = Some (map sent_frame gs, length (stream_of gs))"
    and taken: "held @ c = stream_of gs @ drop (length (stream_of gs)) (held @ c)"
    and left: "drop (length (stream_of gs)) (held @ c) = [] \<or>
      (\<exists>h hs'. hs = h # hs' \<and> length (drop (length (stream_of gs)) (held @ c)) < length (client_bytes h))"
    by blast
  let ?held = "drop (length (stream_of gs)) (held @ c)"
  have "length held + most \<le> max_buffered_frame_bytes"
    using Cons.prems(6)
  proof
    assume "\<exists>h hs. fs = h # hs \<and> length held < length (client_bytes h)"
    then obtain h hs where "fs = h # hs" "length held < length (client_bytes h)" by blast
    with Cons.prems(1) [of h] show ?thesis by simp
  qed (simp add: Cons.prems(3))
  moreover have "length c \<le> most" by (rule Cons.prems(2)) simp
  ultimately have fits: "length (held @ c) \<le> max_buffered_frame_bytes" by simp
  have "?held @ concat cs = stream_of hs"
  proof -
    have "stream_of gs @ (?held @ concat cs) = (stream_of gs @ ?held) @ concat cs" by (simp only: append.assoc)
    also have "\<dots> = (held @ c) @ concat cs" using arg_cong [OF taken, of "\<lambda>bs. bs @ concat cs"] by (rule sym)
    also have "\<dots> = stream_of gs @ stream_of hs" using Cons.prems(4) fs by simp
    finally show ?thesis by (simp only: same_append_eq)
  qed
  moreover have "parse_frames ?held = Some ([], 0)"
    using parse_frames_append [OF parsed, of "[]"] parsed by (cases "parse_frames ?held") auto
  ultimately have "receive_all cs ?held = (Some (map sent_frame hs), [])"
    using left Cons.prems(2,3) by (intro Cons.IH) (simp_all add: Cons.prems(1) fs)
  with fits parsed fs show ?case
    by (simp add: receive_chunk_def Let_def)
qed



end
