(* ===== verification/Ws_Connection.thy ===== *)
theory Ws_Connection
  imports Http_Routes Ws_Frames
begin

text \<open>
  One connection of the WebSocket edge (\<open>handleUpgrade\<close> of \<open>src/edge/ws/index.ts\<close>): the handshake,
  the deadline of the first frame, the first message with its identity and its resume point, the
  subscription, the guard that drops a client which does not drain its socket, and the teardown. What
  the connection writes is a list; the socket takes nothing after its end.
\<close>

section \<open>The handshake\<close>

datatype handshake = UpgradeRefused nat | Upgraded session_id string

definition match_events :: "string \<Rightarrow> string option" where
  "match_events path = match_between [[], ''api'', ''sessions''] [''events''] path"

definition ws_handshake :: "edge_env \<Rightarrow> edge_request \<Rightarrow> handshake" where
  "ws_handshake env req =
     (case match_events (eg_path req) of
        None \<Rightarrow> UpgradeRefused 404
      | Some raw \<Rightarrow>
          if \<not> origin_allowed (eg_identity req) (hc_allowed_origins (en_config env)) then UpgradeRefused 403
          else if map_option (map lower_char) (header_text (eg_identity req) ''upgrade'') \<noteq> Some ''websocket''
          then UpgradeRefused 400
          else
            (case header_text (eg_identity req) ''sec-websocket-key'' of
               None \<Rightarrow> UpgradeRefused 400
             | Some key \<Rightarrow>
                 (case en_decode env raw of None \<Rightarrow> UpgradeRefused 400 | Some sid \<Rightarrow> Upgraded sid key)))"

section \<open>State\<close>

datatype ws_out =
    OutEvent "nat option"
  | OutGap nat
  | OutError api_error_code string
  | OutPing
  | OutPong "wire_byte list"
  | OutClose nat string

text \<open>
  The first message: not there yet, thrown out of its handler and not yet caught, waiting for the
  manager's subscription, or done with. The source keeps \<open>authed\<close>, which is set by the first of them.
\<close>

datatype first_message = NotYet | Rejecting | Subscribing | Settled

record ws_conn =
  wc_open :: bool
  wc_subscription :: bool
  wc_live :: bool
  wc_keepalive :: bool
  wc_deadline :: bool
  wc_first :: first_message
  wc_buffered :: "wire_byte list"
  wc_last :: nat
  wc_guard :: guard
  wc_writable :: bool
  wc_closed :: bool
  wc_out :: "ws_out list"

text \<open>\<open>wc_live\<close> is the manager's side: whether it still has the subscriber.\<close>

definition ws_opened :: ws_conn where
  "ws_opened =
     \<lparr>wc_open = True, wc_subscription = False, wc_live = False, wc_keepalive = False, wc_deadline = True,
      wc_first = NotYet, wc_buffered = [], wc_last = 0, wc_guard = fresh_guard, wc_writable = True,
      wc_closed = False, wc_out = []\<rparr>"

record ws_env =
  we_parse :: json_parse
  we_identity :: "(identity_error, principal_id) result"
  we_high_water :: nat

section \<open>Writing and teardown\<close>

definition ws_put :: "ws_out \<Rightarrow> ws_conn \<Rightarrow> ws_conn" where
  "ws_put out s = (if wc_writable s then s\<lparr>wc_out := wc_out s @ [out]\<rparr> else s)"

definition ws_close_frame :: "nat \<Rightarrow> string \<Rightarrow> ws_conn \<Rightarrow> ws_conn" where
  "ws_close_frame code reason s = (ws_put (OutClose code reason) s)\<lparr>wc_writable := False\<rparr>"

definition ws_teardown :: "ws_conn \<Rightarrow> ws_conn" where
  "ws_teardown s =
     s\<lparr>wc_open := False, wc_keepalive := False, wc_deadline := False,
       wc_live := (wc_live s \<and> \<not> wc_subscription s), wc_subscription := False\<rparr>"

text \<open>
  \<open>deliver\<close>: \<open>flushed\<close> is what the socket's \<open>write\<close> would return; one that has ended takes nothing
  and returns false.
\<close>

definition ws_drop :: "ws_conn \<Rightarrow> ws_conn" where
  "ws_drop s =
     (if \<not> wc_open s then s
      else ws_close_frame 1000 ''dropped: too far behind'' (ws_teardown (ws_put (OutGap (wc_last s)) s)))"

definition ws_deliver :: "ws_env \<Rightarrow> nat option \<Rightarrow> bool \<Rightarrow> ws_conn \<Rightarrow> ws_conn" where
  "ws_deliver env seq flushed s =
     (if \<not> wc_open s then s
      else
        (let s1 = (case seq of None \<Rightarrow> s | Some n \<Rightarrow> s\<lparr>wc_last := n\<rparr>);
             (g, handed, dropped) = guard_write (we_high_water env) (flushed \<and> wc_writable s) (wc_guard s);
             s2 = (if handed then ws_put (OutEvent seq) s1 else s1)\<lparr>wc_guard := g\<rparr>
         in if dropped then ws_drop s2 else s2))"

definition ws_sink_close :: "ws_conn \<Rightarrow> ws_conn" where
  "ws_sink_close s =
     (let s1 = s\<lparr>wc_live := False\<rparr>
      in if \<not> wc_open s then s1 else ws_close_frame 1000 ''session ended'' (s1\<lparr>wc_open := False\<rparr>))"

section \<open>The first message\<close>

text \<open>
  \<open>onFirstMessage\<close> up to its \<open>await\<close>; \<open>known\<close> is what \<open>manager.get\<close> answers then. The member access
  throws for the JSON null alone.
\<close>

definition resume_point :: "wire \<Rightarrow> nat" where
  "resume_point v = (case member_of v ''after'' of Some (WNum (Whole i)) \<Rightarrow> if 0 < i then nat i else 0 | _ \<Rightarrow> 0)"

definition ws_first_message :: "ws_env \<Rightarrow> host_error option \<Rightarrow> wire_byte list \<Rightarrow> ws_conn \<Rightarrow> ws_conn" where
  "ws_first_message env known payload s =
     (let s1 = s\<lparr>wc_first := Settled, wc_deadline := False\<rparr>
      in
        case we_parse env payload of
          None \<Rightarrow> ws_close_frame 1002 ''bad first message'' (ws_put (OutError ApiBadRequest ''first message must be JSON'') s1)
        | Some WNull \<Rightarrow> s1\<lparr>wc_first := Rejecting\<rparr>
        | Some v \<Rightarrow>
            (let s2 = s1\<lparr>wc_last := resume_point v\<rparr>
             in
               case we_identity env of
                 Inl e \<Rightarrow>
                   ws_close_frame 4401 ''unauthenticated'' (ws_put (OutError Unauthenticated ''no usable identity'') s2)
               | Inr who \<Rightarrow>
                   (case known of
                      Some e \<Rightarrow>
                        (let api = api_error_for e
                         in ws_close_frame 4404 (code_name (ae_code api)) (ws_put (OutError (ae_code api) (ae_message api)) s2))
                    | None \<Rightarrow> s2\<lparr>wc_keepalive := True, wc_first := Subscribing\<rparr>)))"

text \<open>What follows the \<open>await\<close>: the manager has the subscriber, or the session is gone.\<close>

definition ws_subscribed :: "bool \<Rightarrow> ws_conn \<Rightarrow> ws_conn" where
  "ws_subscribed ok s =
     (let s1 = s\<lparr>wc_first := Settled\<rparr>
      in
        if \<not> ok then (let s2 = ws_teardown s1 in if wc_open s2 then ws_close_frame 1011 ''session removed'' s2 else s2)
        else s1\<lparr>wc_subscription := True, wc_live := wc_open s1\<rparr>)"

text \<open>The \<open>catch\<close> of a handler that threw.\<close>

definition ws_rejected :: "ws_conn \<Rightarrow> ws_conn" where
  "ws_rejected s =
     (let s1 = ws_teardown (s\<lparr>wc_first := Settled\<rparr>)
      in if wc_open s1 then ws_close_frame 1011 ''internal error'' s1 else s1)"

section \<open>Data\<close>

fun ws_handle_frames :: "ws_env \<Rightarrow> host_error option \<Rightarrow> ws_frame list \<Rightarrow> ws_conn \<Rightarrow> ws_conn" where
  "ws_handle_frames env known [] s = s"
| "ws_handle_frames env known (f # fs) s =
     (if wf_opcode f = 8 then ws_close_frame 1000 ''bye'' (ws_teardown s)
      else if wf_opcode f = 9 then ws_handle_frames env known fs (ws_put (OutPong (wf_payload f)) s)
      else if wf_opcode f = 10 then ws_handle_frames env known fs s
      else if wf_opcode f = 0 then ws_handle_frames env known fs s
      else if \<not> wf_fin f then ws_close_frame 1003 ''fragmentation not supported'' s
      else if wc_first s = NotYet then ws_handle_frames env known fs (ws_first_message env known (wf_payload f) s)
      else ws_handle_frames env known fs s)"

definition ws_data :: "ws_env \<Rightarrow> host_error option \<Rightarrow> wire_byte list \<Rightarrow> ws_conn \<Rightarrow> ws_conn" where
  "ws_data env known chunk s =
     (let buffered = wc_buffered s @ chunk; s1 = s\<lparr>wc_buffered := buffered\<rparr>
      in
        if max_buffered_frame_bytes < length buffered then ws_close_frame 1009 ''message too big'' s1
        else
          (case parse_frames buffered of
             None \<Rightarrow> ws_close_frame 1002 ''protocol error'' s1
           | Some (fs, n) \<Rightarrow> ws_handle_frames env known fs (s1\<lparr>wc_buffered := drop n buffered\<rparr>)))"

section \<open>Events\<close>

datatype ws_event =
    WsData "wire_byte list" "host_error option"
  | WsDeadline
  | WsKeepalive
  | WsRejected
  | WsSubscribed bool
  | WsDeliver "nat option" bool
  | WsSinkClosed
  | WsDrained
  | WsFailed
  | WsClosed

text \<open>
  When an event can happen: a timer's while it is set, the manager's while it has the sink, the
  socket's own until it is closed.
\<close>

fun ws_can :: "ws_event \<Rightarrow> ws_conn \<Rightarrow> bool" where
  "ws_can (WsData chunk known) s = (\<not> wc_closed s)"
| "ws_can WsDeadline s = wc_deadline s"
| "ws_can WsKeepalive s = wc_keepalive s"
| "ws_can WsRejected s = (wc_first s = Rejecting)"
| "ws_can (WsSubscribed ok) s = (wc_first s = Subscribing)"
| "ws_can (WsDeliver seq flushed) s = (wc_first s = Subscribing \<or> wc_live s)"
| "ws_can WsSinkClosed s = (wc_first s = Subscribing \<or> wc_live s)"
| "ws_can WsDrained s = (\<not> wc_closed s)"
| "ws_can WsFailed s = (\<not> wc_closed s)"
| "ws_can WsClosed s = (\<not> wc_closed s)"

fun ws_step :: "ws_env \<Rightarrow> ws_event \<Rightarrow> ws_conn \<Rightarrow> ws_conn" where
  "ws_step env (WsData chunk known) s = ws_data env known chunk s"
| "ws_step env WsDeadline s =
     ws_close_frame 4408 ''no first frame within the authentication deadline'' (ws_teardown (s\<lparr>wc_deadline := False\<rparr>))"
| "ws_step env WsKeepalive s = (if wc_open s then ws_put OutPing s else s)"
| "ws_step env WsRejected s = ws_rejected s"
| "ws_step env (WsSubscribed ok) s = ws_subscribed ok s"
| "ws_step env (WsDeliver seq flushed) s = ws_deliver env seq flushed s"
| "ws_step env WsSinkClosed s = ws_sink_close s"
| "ws_step env WsDrained s = s\<lparr>wc_guard := guard_drain (wc_guard s)\<rparr>"
| "ws_step env WsFailed s = ws_teardown s"
| "ws_step env WsClosed s = (ws_teardown s)\<lparr>wc_closed := True, wc_writable := False\<rparr>"

inductive ws_reaches :: "ws_env \<Rightarrow> ws_conn \<Rightarrow> bool" for env where
  opened: "ws_reaches env ws_opened"
| step: "ws_reaches env s \<Longrightarrow> ws_can e s \<Longrightarrow> ws_reaches env (ws_step env e s)"

section \<open>What holds of every connection\<close>

definition shows_session :: "ws_out \<Rightarrow> bool" where
  "shows_session out \<longleftrightarrow> (case out of OutEvent _ \<Rightarrow> True | OutGap _ \<Rightarrow> True | _ \<Rightarrow> False)"

definition closes :: "ws_out \<Rightarrow> bool" where
  "closes out \<longleftrightarrow> (case out of OutClose _ _ \<Rightarrow> True | _ \<Rightarrow> False)"

definition ws_inv :: "ws_env \<Rightarrow> ws_conn \<Rightarrow> bool" where
  "ws_inv env s \<longleftrightarrow>
     (wc_open s \<and> wc_first s = NotYet \<longrightarrow> wc_deadline s) \<and>
     (wc_deadline s \<longrightarrow> wc_first s = NotYet) \<and>
     (wc_live s \<longrightarrow> wc_open s \<and> wc_subscription s) \<and>
     (wc_closed s \<longrightarrow> \<not> wc_open s \<and> \<not> wc_deadline s \<and> \<not> wc_keepalive s \<and> \<not> wc_writable s) \<and>
     (\<not> is_ok (we_identity env) \<longrightarrow> \<not> wc_live s \<and> wc_first s \<noteq> Subscribing \<and> (\<forall>out\<in>set (wc_out s). \<not> shows_session out)) \<and>
     (\<forall>out\<in>set (butlast (wc_out s)). \<not> closes out) \<and>
     (wc_writable s \<longrightarrow> (\<forall>out\<in>set (wc_out s). \<not> closes out))"

named_theorems ws_defs

lemmas ws_writers [ws_defs] =
  ws_put_def ws_close_frame_def ws_teardown_def shows_session_def closes_def

lemma ws_inv_opened: "ws_inv env ws_opened"
  by (simp add: ws_inv_def ws_opened_def)

lemma ws_inv_put: "ws_inv env s \<Longrightarrow> \<not> shows_session out \<Longrightarrow> \<not> closes out \<Longrightarrow> ws_inv env (ws_put out s)"
  by (auto simp: ws_inv_def ws_put_def butlast_append dest: in_set_butlastD)

lemma ws_inv_close: "ws_inv env s \<Longrightarrow> ws_inv env (ws_close_frame code reason s)"
  by (auto simp: ws_inv_def ws_close_frame_def ws_put_def butlast_append shows_session_def dest: in_set_butlastD)

lemma ws_inv_teardown: "ws_inv env s \<Longrightarrow> ws_inv env (ws_teardown s)"
  by (auto simp: ws_inv_def ws_teardown_def)

lemma ws_inv_first:
  assumes "ws_inv env s" "wc_first s = NotYet" "\<not> wc_closed s"
  shows "ws_inv env (ws_first_message env known payload s)"
proof -
  have "ws_inv env (s\<lparr>wc_first := Settled, wc_deadline := False\<rparr>)" using assms by (auto simp: ws_inv_def)
  moreover have "ws_inv env (s\<lparr>wc_first := Settled, wc_deadline := False, wc_last := n\<rparr>)" for n
    using assms by (auto simp: ws_inv_def)
  moreover have "ws_inv env (s\<lparr>wc_deadline := False, wc_first := Rejecting\<rparr>)" using assms by (auto simp: ws_inv_def)
  moreover have "ws_inv env (s\<lparr>wc_deadline := False, wc_last := n, wc_keepalive := True, wc_first := Subscribing\<rparr>)"
    if "is_ok (we_identity env)" for n using assms that by (auto simp: ws_inv_def)
  ultimately show ?thesis
    by (auto simp: ws_first_message_def Let_def shows_session_def closes_def
        intro!: ws_inv_close ws_inv_put split: option.split wire.split sum.split)
qed

lemma ws_first_message_closed [simp]: "wc_closed (ws_first_message env known payload s) = wc_closed s"
  by (simp add: ws_first_message_def Let_def ws_close_frame_def ws_put_def split: option.split wire.split sum.split)

lemma ws_put_fields [simp]: "wc_closed (ws_put out s) = wc_closed s" "wc_first (ws_put out s) = wc_first s"
  "wc_open (ws_put out s) = wc_open s" "wc_buffered (ws_put out s) = wc_buffered s"
  by (simp_all add: ws_put_def)

lemma ws_inv_frames: "ws_inv env s \<Longrightarrow> \<not> wc_closed s \<Longrightarrow> ws_inv env (ws_handle_frames env known fs s)"
  by (induction env known fs s rule: ws_handle_frames.induct)
    (simp_all add: ws_inv_close ws_inv_teardown ws_inv_put ws_inv_first shows_session_def closes_def)

lemma ws_inv_buffered: "ws_inv env (s\<lparr>wc_buffered := b\<rparr>) = ws_inv env s"
  by (simp add: ws_inv_def)

lemma ws_inv_data: "ws_inv env s \<Longrightarrow> \<not> wc_closed s \<Longrightarrow> ws_inv env (ws_data env known chunk s)"
  by (simp add: ws_data_def Let_def ws_inv_close ws_inv_buffered ws_inv_frames split: option.split)

lemma ws_inv_shown:
  "ws_inv env s \<Longrightarrow> is_ok (we_identity env) \<Longrightarrow> \<not> closes out \<Longrightarrow> ws_inv env (ws_put out s)"
  by (auto simp: ws_inv_def ws_put_def butlast_append dest: in_set_butlastD)

lemma ws_inv_deliver:
  assumes "ws_inv env s" "is_ok (we_identity env)"
  shows "ws_inv env (ws_deliver env seq flushed s)"
proof -
  have last: "ws_inv env (s\<lparr>wc_last := n\<rparr>)" for n using assms(1) by (simp add: ws_inv_def)
  have guards: "ws_inv env (t\<lparr>wc_guard := g\<rparr>) = ws_inv env t" for t g by (simp add: ws_inv_def)
  have drop: "ws_inv env t \<Longrightarrow> ws_inv env (ws_drop t)" for t
    by (simp add: ws_drop_def ws_inv_close ws_inv_teardown ws_inv_shown assms(2) closes_def)
  show ?thesis
    using assms last
    by (auto simp: ws_deliver_def Let_def guards ws_inv_shown closes_def intro!: drop split: prod.split option.split)
qed

lemma ws_inv_step:
  assumes "ws_inv env s" "ws_can e s" shows "ws_inv env (ws_step env e s)"
proof (cases e)
  case (WsData chunk known)
  with assms show ?thesis by (simp add: ws_inv_data)
next
  case WsDeadline
  have "ws_inv env (ws_teardown (s\<lparr>wc_deadline := False\<rparr>))" using assms(1) by (auto simp: ws_inv_def ws_teardown_def)
  with WsDeadline show ?thesis by (simp add: ws_inv_close)
next
  case WsKeepalive
  with assms show ?thesis by (simp add: ws_inv_put shows_session_def closes_def)
next
  case WsRejected
  have "ws_inv env (ws_teardown (s\<lparr>wc_first := Settled\<rparr>))" "\<not> wc_open (ws_teardown (s\<lparr>wc_first := Settled\<rparr>))"
    using assms WsRejected by (auto simp: ws_inv_def ws_teardown_def)
  with WsRejected show ?thesis by (simp add: ws_rejected_def Let_def)
next
  case (WsSubscribed ok)
  with assms have "ws_inv env (ws_teardown (s\<lparr>wc_first := Settled\<rparr>))" "\<not> wc_open (ws_teardown (s\<lparr>wc_first := Settled\<rparr>))"
    "ws_inv env (s\<lparr>wc_first := Settled, wc_subscription := True, wc_live := wc_open s\<rparr>)"
    by (auto simp: ws_inv_def ws_teardown_def)
  with WsSubscribed show ?thesis by (simp add: ws_subscribed_def Let_def)
next
  case (WsDeliver seq flushed)
  with assms have "is_ok (we_identity env)" by (auto simp: ws_inv_def)
  with assms WsDeliver show ?thesis by (simp add: ws_inv_deliver)
next
  case WsSinkClosed
  have "ws_inv env (s\<lparr>wc_live := False\<rparr>)" "ws_inv env (s\<lparr>wc_live := False, wc_open := False\<rparr>)"
    using assms by (auto simp: ws_inv_def)
  with WsSinkClosed show ?thesis by (simp add: ws_sink_close_def Let_def ws_inv_close)
qed (use assms in \<open>auto simp: ws_inv_def ws_teardown_def\<close>)

lemma ws_reaches_inv: "ws_reaches env s \<Longrightarrow> ws_inv env s"
  by (induction rule: ws_reaches.induct) (simp_all add: ws_inv_opened ws_inv_step)

text \<open>
  C20: In every order of frames, timers, deliveries and failures of the socket, a client whose handshake
  does not resolve to an operator is never subscribed and is shown no event and no gap of a session.
\<close>

theorem unidentified_sees_nothing:
  assumes "ws_reaches env s" and "\<not> is_ok (we_identity env)"
  shows "list_all (\<lambda>out. \<not> shows_session out) (wc_out s) \<and> \<not> wc_live s"
  using ws_reaches_inv [OF assms(1)] assms(2) by (simp add: ws_inv_def list_all_iff)

text \<open>
  A connection writes one close frame at most, and nothing after it.
\<close>

theorem close_frame_is_last:
  assumes "ws_reaches env s"
  shows "list_all (\<lambda>out. \<not> closes out) (butlast (wc_out s))"
  using ws_reaches_inv [OF assms] by (simp add: ws_inv_def list_all_iff)

text \<open>
  Once the socket is closed the connection keeps no timer and no subscription.
\<close>

theorem closed_socket_keeps_nothing:
  assumes "ws_reaches env s" and "wc_closed s"
  shows "\<not> wc_open s \<and> \<not> wc_live s \<and> \<not> wc_keepalive s \<and> \<not> wc_deadline s"
  using ws_reaches_inv [OF assms(1)] assms(2) by (auto simp: ws_inv_def)

section \<open>Two ways to hold a socket\<close>

text \<open>
  What has been received after a refused frame is kept, and so is all that follows: the deadline and
  the close frame end only the writing half of the socket. Zeros are such a frame.
\<close>

lemma zeros_refused: "2 \<le> n \<Longrightarrow> parse_frames (replicate n 0) = None"
proof -
  assume "2 \<le> n"
  then obtain m where "n = Suc (Suc m)" by (metis Suc_le_D numeral_2_eq_2 Suc_le_mono)
  then show ?thesis
    by (simp add: parse_frames.simps [of "0 # 0 # replicate m 0"] parse_frame_def parse_payload_def Let_def)
qed

lemma ws_data_zeros:
  assumes "2 \<le> n" "wc_buffered s = replicate k 0"
  shows "wc_buffered (ws_data env known (replicate n 0) s) = replicate (k + n) 0"
    and "wc_first (ws_data env known (replicate n 0) s) = wc_first s"
    and "wc_closed (ws_data env known (replicate n 0) s) = wc_closed s"
proof -
  have "parse_frames (replicate (k + n) 0) = None" using assms(1) by (simp add: zeros_refused)
  then have "parse_frames (replicate k 0 @ replicate n 0) = None" by (simp only: replicate_add)
  then show "wc_buffered (ws_data env known (replicate n 0) s) = replicate (k + n) 0"
    and "wc_first (ws_data env known (replicate n 0) s) = wc_first s"
    and "wc_closed (ws_data env known (replicate n 0) s) = wc_closed s"
    by (simp_all add: ws_data_def Let_def assms(2) ws_close_frame_def ws_put_def replicate_add)
qed


text \<open>
  A first message that is the JSON null leaves the socket open, its deadline cleared and no close
  frame written: the code clears \<open>open\<close> in its teardown before it asks for it.
\<close>

theorem null_message_leaves_the_socket:
  assumes "we_parse env payload = Some WNull" and "wc_writable s"
  shows "wc_writable (ws_step env WsRejected (ws_first_message env known payload s)) \<and>
    \<not> wc_deadline (ws_step env WsRejected (ws_first_message env known payload s)) \<and>
    wc_out (ws_step env WsRejected (ws_first_message env known payload s)) = wc_out s"
  using assms by (simp add: ws_first_message_def ws_rejected_def ws_teardown_def Let_def)

section \<open>Witnesses\<close>

definition stranger :: ws_env where
  "stranger = \<lparr>we_parse = (\<lambda>_. None), we_identity = Inl NoIdentity, we_high_water = 1\<rparr>"

lemma stranger_timed_out: "ws_reaches stranger (ws_step stranger WsDeadline ws_opened)"
  by (rule ws_reaches.step [OF ws_reaches.opened]) (simp add: ws_opened_def)

theorem unidentified_sees_nothing_witness:
  "list_all (\<lambda>out. \<not> shows_session out) (wc_out (ws_step stranger WsDeadline ws_opened)) \<and>
   \<not> wc_live (ws_step stranger WsDeadline ws_opened) \<and> wc_out (ws_step stranger WsDeadline ws_opened) \<noteq> []"
  using unidentified_sees_nothing [OF stranger_timed_out]
  by (simp add: stranger_def ws_opened_def ws_teardown_def ws_close_frame_def ws_put_def)

theorem close_frame_is_last_witness:
  "list_all (\<lambda>out. \<not> closes out) (butlast (wc_out (ws_step stranger WsDeadline ws_opened))) \<and>
   list_ex closes (wc_out (ws_step stranger WsDeadline ws_opened))"
  using close_frame_is_last [OF stranger_timed_out]
  by (simp add: ws_opened_def ws_teardown_def ws_close_frame_def ws_put_def closes_def)

theorem closed_socket_keeps_nothing_witness:
  "\<not> wc_open (ws_step stranger WsClosed ws_opened) \<and> \<not> wc_live (ws_step stranger WsClosed ws_opened) \<and>
   \<not> wc_keepalive (ws_step stranger WsClosed ws_opened) \<and> \<not> wc_deadline (ws_step stranger WsClosed ws_opened)"
proof (rule closed_socket_keeps_nothing)
  show "ws_reaches stranger (ws_step stranger WsClosed ws_opened)"
    by (rule ws_reaches.step [OF ws_reaches.opened]) (simp add: ws_opened_def)
qed simp

end
