(* ===== verification/Sse_Stream.thy ===== *)
theory Sse_Stream
  imports Http_Routes
begin

text \<open>
  One stream of server-sent events (\<open>handleEvents\<close> of \<open>src/edge/sse/index.ts\<close>): the resume point, the
  subscription, the ids of the events, the guard that drops a client which does not drain its
  response, and the teardown. A browser resumes from the last id it has read.
\<close>

section \<open>State\<close>

text \<open>An event with its number, where it has one, and whether the number is written as its id.\<close>

datatype sse_out = SseRetry nat | SseEvent "nat option" bool | SseGap nat | SseComment

record sse_conn =
  sc_open :: bool
  sc_subscription :: bool
  sc_live :: bool
  sc_keepalive :: bool
  sc_subscribing :: bool
  sc_last :: nat
  sc_guard :: guard
  sc_ended :: bool
  sc_closed :: bool
  sc_out :: "sse_out list"

definition sse_retry_ms :: nat where
  "sse_retry_ms = 2000"

text \<open>Up to the \<open>await\<close> of the subscription; before it an unknown session is still answered with its status.\<close>

definition sse_opened :: "nat \<Rightarrow> sse_conn" where
  "sse_opened after =
     \<lparr>sc_open = True, sc_subscription = False, sc_live = False, sc_keepalive = True, sc_subscribing = True,
      sc_last = after, sc_guard = fresh_guard, sc_ended = False, sc_closed = False, sc_out = [SseRetry sse_retry_ms]\<rparr>"

definition handle_events :: "host_error option \<Rightarrow> nat \<Rightarrow> (api_error, sse_conn) result" where
  "handle_events known after = (case known of Some e \<Rightarrow> Inl (api_error_for e) | None \<Rightarrow> Inr (sse_opened after))"

section \<open>Operations\<close>

definition sse_teardown :: "sse_conn \<Rightarrow> sse_conn" where
  "sse_teardown s =
     s\<lparr>sc_open := False, sc_keepalive := False, sc_live := (sc_live s \<and> \<not> sc_subscription s),
       sc_subscription := False\<rparr>"

definition sse_put :: "sse_out \<Rightarrow> sse_conn \<Rightarrow> sse_conn" where
  "sse_put out s = (if sc_ended s \<or> sc_closed s then s else s\<lparr>sc_out := sc_out s @ [out]\<rparr>)"

definition sse_drop :: "sse_conn \<Rightarrow> sse_conn" where
  "sse_drop s = (if \<not> sc_open s then s else (sse_teardown (sse_put (SseGap (sc_last s)) s))\<lparr>sc_ended := True\<rparr>)"

definition sse_deliver :: "nat \<Rightarrow> nat option \<Rightarrow> bool \<Rightarrow> sse_conn \<Rightarrow> sse_conn" where
  "sse_deliver high_water seq flushed s =
     (if \<not> sc_open s then s
      else
        (let advances = (case seq of None \<Rightarrow> False | Some n \<Rightarrow> sc_last s < n);
             s1 = (case seq of Some n \<Rightarrow> if advances then s\<lparr>sc_last := n\<rparr> else s | None \<Rightarrow> s);
             (g, handed, dropped) = guard_write high_water flushed (sc_guard s);
             s2 = (if handed then sse_put (SseEvent seq advances) s1 else s1)\<lparr>sc_guard := g\<rparr>
         in if dropped then sse_drop s2 else s2))"

definition sse_sink_close :: "sse_conn \<Rightarrow> sse_conn" where
  "sse_sink_close s =
     (let s1 = s\<lparr>sc_live := False\<rparr> in if \<not> sc_open s then s1 else s1\<lparr>sc_open := False, sc_ended := True\<rparr>)"

definition sse_subscribed :: "bool \<Rightarrow> sse_conn \<Rightarrow> sse_conn" where
  "sse_subscribed ok s =
     (let s1 = s\<lparr>sc_subscribing := False\<rparr>
      in if \<not> ok then (sse_teardown s1)\<lparr>sc_ended := True\<rparr>
         else s1\<lparr>sc_subscription := True, sc_live := sc_open s1\<rparr>)"

section \<open>Events\<close>

datatype sse_event =
    SseSubscribed bool
  | SseDeliver "nat option" bool
  | SseSinkClosed
  | SseKeepalive
  | SseDrained
  | SseClosed

fun sse_can :: "sse_event \<Rightarrow> sse_conn \<Rightarrow> bool" where
  "sse_can (SseSubscribed ok) s = sc_subscribing s"
| "sse_can (SseDeliver seq flushed) s = (sc_subscribing s \<or> sc_live s)"
| "sse_can SseSinkClosed s = (sc_subscribing s \<or> sc_live s)"
| "sse_can SseKeepalive s = sc_keepalive s"
| "sse_can SseDrained s = (\<not> sc_closed s)"
| "sse_can SseClosed s = (\<not> sc_closed s)"

fun sse_step :: "nat \<Rightarrow> sse_event \<Rightarrow> sse_conn \<Rightarrow> sse_conn" where
  "sse_step hw (SseSubscribed ok) s = sse_subscribed ok s"
| "sse_step hw (SseDeliver seq flushed) s = sse_deliver hw seq flushed s"
| "sse_step hw SseSinkClosed s = sse_sink_close s"
| "sse_step hw SseKeepalive s = (if sc_open s then sse_put SseComment s else s)"
| "sse_step hw SseDrained s = s\<lparr>sc_guard := guard_drain (sc_guard s)\<rparr>"
| "sse_step hw SseClosed s = (sse_teardown s)\<lparr>sc_closed := True\<rparr>"

inductive sse_reaches :: "nat \<Rightarrow> nat \<Rightarrow> sse_conn \<Rightarrow> bool" for hw after where
  opened: "sse_reaches hw after (sse_opened after)"
| step: "sse_reaches hw after s \<Longrightarrow> sse_can e s \<Longrightarrow> sse_reaches hw after (sse_step hw e s)"

section \<open>What a browser makes of the stream\<close>

text \<open>
  The resume point as the browser keeps it, starting from the one it asked for. It is lost when an id
  does not advance it, when a number above it comes without an id, or when a gap restates another.
\<close>

fun sse_reads :: "sse_out \<Rightarrow> nat option \<Rightarrow> nat option" where
  "sse_reads out None = None"
| "sse_reads (SseEvent (Some n) True) (Some p) = (if p < n then Some n else None)"
| "sse_reads (SseEvent (Some n) False) (Some p) = (if n \<le> p then Some p else None)"
| "sse_reads (SseEvent None True) (Some p) = None"
| "sse_reads (SseEvent None False) (Some p) = Some p"
| "sse_reads (SseGap n) (Some p) = (if n = p then Some p else None)"
| "sse_reads (SseRetry n) (Some p) = Some p"
| "sse_reads SseComment (Some p) = Some p"

definition browser_position :: "nat \<Rightarrow> sse_out list \<Rightarrow> nat option" where
  "browser_position after outs = fold sse_reads outs (Some after)"

definition sse_inv :: "nat \<Rightarrow> sse_conn \<Rightarrow> bool" where
  "sse_inv after s \<longleftrightarrow>
     browser_position after (sc_out s) = Some (sc_last s) \<and>
     (sc_open s \<longrightarrow> \<not> sc_ended s \<and> \<not> sc_closed s \<and> \<not> gd_dropped (sc_guard s)) \<and>
     (sc_live s \<longrightarrow> sc_open s \<and> sc_subscription s) \<and>
     (sc_closed s \<longrightarrow> \<not> sc_keepalive s)"

lemma browser_position_append: "browser_position after (outs @ outs') = fold sse_reads outs' (browser_position after outs)"
  by (simp add: browser_position_def)

lemma sse_inv_opened: "sse_inv after (sse_opened after)"
  by (simp add: sse_inv_def sse_opened_def browser_position_def fresh_guard_def)

lemma sse_inv_teardown: "sse_inv after s \<Longrightarrow> sse_inv after (sse_teardown s)"
  by (auto simp: sse_inv_def sse_teardown_def)

lemma sse_inv_deliver: "sse_inv after s \<Longrightarrow> sse_inv after (sse_deliver hw seq flushed s)"
  by (cases seq; cases "sc_open s"; cases flushed)
    (auto simp: sse_deliver_def sse_inv_def Let_def guard_write_def sse_put_def sse_drop_def sse_teardown_def
      browser_position_append)

lemma sse_inv_step: "sse_inv after s \<Longrightarrow> sse_can e s \<Longrightarrow> sse_inv after (sse_step hw e s)"
proof (cases e)
  case (SseDeliver seq flushed)
  then show "sse_inv after s \<Longrightarrow> sse_inv after (sse_step hw e s)" by (simp add: sse_inv_deliver)
qed (auto simp: sse_inv_def sse_subscribed_def sse_sink_close_def sse_put_def sse_teardown_def guard_drain_def Let_def
    browser_position_append)

lemma sse_reaches_inv: "sse_reaches hw after s \<Longrightarrow> sse_inv after s"
  by (induction rule: sse_reaches.induct) (simp_all add: sse_inv_opened sse_inv_step)

text \<open>
  C21: In every order of deliveries, drains and failures, the position a browser reads from the ids of the
  stream is the one the edge holds: every id advances it, no number beyond it comes without an id,
  and the gap a dropped client is sent restates it.
\<close>

theorem browser_resumes_where_it_stopped:
  assumes "sse_reaches hw after s"
  shows "browser_position after (sc_out s) = Some (sc_last s)"
  using sse_reaches_inv [OF assms] by (simp add: sse_inv_def)

text \<open>
  Once the response is closed the stream keeps no timer and no subscription.
\<close>

theorem closed_stream_keeps_nothing:
  assumes "sse_reaches hw after s" and "sc_closed s"
  shows "\<not> sc_live s \<and> \<not> sc_keepalive s"
  using sse_reaches_inv [OF assms(1)] assms(2) by (auto simp: sse_inv_def)

definition dropped_stream :: sse_conn where
  "dropped_stream = sse_step 0 (SseDeliver (Some 5) False) (sse_opened 3)"

theorem browser_resumes_where_it_stopped_witness:
  "browser_position 3 (sc_out dropped_stream) = Some (sc_last dropped_stream) \<and> sc_last dropped_stream = 5 \<and>
   sc_out dropped_stream = [SseRetry 2000, SseEvent (Some 5) True, SseGap 5]"
proof -
  have "sse_reaches 0 3 dropped_stream"
    unfolding dropped_stream_def by (rule sse_reaches.step [OF sse_reaches.opened]) (simp add: sse_opened_def)
  from browser_resumes_where_it_stopped [OF this] show ?thesis
    by (simp add: dropped_stream_def sse_opened_def sse_deliver_def guard_write_def fresh_guard_def sse_put_def
        sse_drop_def sse_teardown_def sse_retry_ms_def)
qed

end
