(* ===== verification/Codex_Diff.thy ===== *)
theory Codex_Diff
  imports Edge_Common
begin

text \<open>
  The patches of a Codex turn (\<open>src/agent-console/providers/codex-cli/diff.ts\<close>): the check of a list
  of file changes, the parser of unified hunks, and the diff that is shown for a tool's result. Ahead
  of it stand the accessors of a vendor's record, which both adapters use.
\<close>

section \<open>Records\<close>

text \<open>A number of a record is a whole one here; no mapping looks at the digits of a fraction.\<close>

definition jprop :: "json \<Rightarrow> string \<Rightarrow> json option" where
  "jprop v k = (case v of JObj kvs \<Rightarrow> jget kvs k | _ \<Rightarrow> None)"

definition plain_object :: "json \<Rightarrow> bool" where
  "plain_object v \<longleftrightarrow> (case v of JObj _ \<Rightarrow> True | _ \<Rightarrow> False)"

definition text_of :: "json option \<Rightarrow> string option" where
  "text_of v = (case v of Some (JStr s) \<Rightarrow> Some s | _ \<Rightarrow> None)"

section \<open>File changes\<close>

datatype change_kind = ChangeAdd | ChangeDelete | ChangeUpdate

record file_change =
  fc_path :: string
  fc_kind :: change_kind
  fc_move_path :: "string option"
  fc_diff :: string

definition change_kind_of :: "string \<Rightarrow> change_kind option" where
  "change_kind_of s =
     jget [(''add'', ChangeAdd), (''delete'', ChangeDelete), (''update'', ChangeUpdate)] s"

fun change_kind_name :: "change_kind \<Rightarrow> string" where
  "change_kind_name ChangeAdd = ''add''"
| "change_kind_name ChangeDelete = ''delete''"
| "change_kind_name ChangeUpdate = ''update''"

text \<open>\<open>isFileChanges\<close>, with the value it takes the list for.\<close>

definition file_change_of :: "json \<Rightarrow> file_change option" where
  "file_change_of v =
     (case jprop v ''kind'' of
        Some (JObj kvs) \<Rightarrow>
          (case (text_of (jprop v ''path''), text_of (jprop v ''diff''), text_of (jget kvs ''type'')) of
             (Some p, Some d, Some t) \<Rightarrow>
               (case change_kind_of t of
                  None \<Rightarrow> None
                | Some k \<Rightarrow>
                    (case jget kvs ''move_path'' of
                       None \<Rightarrow> Some \<lparr>fc_path = p, fc_kind = k, fc_move_path = None, fc_diff = d\<rparr>
                     | Some JNull \<Rightarrow> Some \<lparr>fc_path = p, fc_kind = k, fc_move_path = None, fc_diff = d\<rparr>
                     | Some (JStr m) \<Rightarrow> Some \<lparr>fc_path = p, fc_kind = k, fc_move_path = Some m, fc_diff = d\<rparr>
                     | Some _ \<Rightarrow> None))
           | _ \<Rightarrow> None)
      | _ \<Rightarrow> None)"

fun all_of :: "('a \<Rightarrow> 'b option) \<Rightarrow> 'a list \<Rightarrow> 'b list option" where
  "all_of f [] = Some []"
| "all_of f (x # xs) =
     (case f x of None \<Rightarrow> None | Some y \<Rightarrow> (case all_of f xs of None \<Rightarrow> None | Some ys \<Rightarrow> Some (y # ys)))"

definition file_changes_of :: "json option \<Rightarrow> file_change list option" where
  "file_changes_of v = (case v of Some (JArr vs) \<Rightarrow> all_of file_change_of vs | _ \<Rightarrow> None)"

section \<open>Unified hunks\<close>

definition line_break :: char where
  "line_break = CHR 0x0A"

definition text_lines :: "string \<Rightarrow> string list" where
  "text_lines s = (let ls = split_on line_break s in if last ls = [] then butlast ls else ls)"

text \<open>One or more digits, and what follows them.\<close>

definition take_digits :: "string \<Rightarrow> (nat \<times> string) option" where
  "take_digits s =
     (let ds = takeWhile digit s in if ds = [] then None else Some (digits_value ds, drop (length ds) s))"

definition take_range :: "string \<Rightarrow> (nat \<times> nat \<times> string) option" where
  "take_range s =
     (case take_digits s of
        None \<Rightarrow> None
      | Some (start, rest) \<Rightarrow>
          (if rest \<noteq> [] \<and> hd rest = CHR '','' then
             (case take_digits (tl rest) of None \<Rightarrow> None | Some (n, rest') \<Rightarrow> Some (start, n, rest'))
           else Some (start, 1, rest)))"

definition strip :: "string \<Rightarrow> string \<Rightarrow> string option" where
  "strip pre s = (if take (length pre) s = pre then Some (drop (length pre) s) else None)"

text \<open>The pattern of a hunk's header; its last part matches anything but a carriage return.\<close>

definition hunk_header :: "string \<Rightarrow> (nat \<times> nat \<times> nat \<times> nat) option" where
  "hunk_header line =
     (case strip ''@@ -'' line of
        None \<Rightarrow> None
      | Some s \<Rightarrow>
          (case take_range s of
             None \<Rightarrow> None
           | Some (old_start, old_lines, s) \<Rightarrow>
               (case strip '' +'' s of
                  None \<Rightarrow> None
                | Some s \<Rightarrow>
                    (case take_range s of
                       None \<Rightarrow> None
                     | Some (new_start, new_lines, s) \<Rightarrow>
                         (case strip '' @@'' s of
                            None \<Rightarrow> None
                          | Some s \<Rightarrow>
                              if s = [] \<or> hd s = CHR '' '' \<and> CHR 0x0D \<notin> set s
                              then Some (old_start, old_lines, new_start, new_lines) else None)))))"

definition no_newline_mark :: string where
  "no_newline_mark = CHR 0x5C # '' No newline at end of file''"

text \<open>
  The loop: the hunks that are complete, the one that is being read, and the lines it has had so far
  of the old and of the new file.
\<close>

record diff_reading =
  dr_hunks :: "diff_hunk list"
  dr_current :: "diff_hunk option"
  dr_old :: nat
  dr_new :: nat

definition hunk_complete :: "diff_reading \<Rightarrow> bool" where
  "hunk_complete d \<longleftrightarrow>
     (case dr_current d of
        None \<Rightarrow> True
      | Some h \<Rightarrow> int (dr_old d) = dh_old_lines h \<and> int (dr_new d) = dh_new_lines h)"

definition hunks_so_far :: "diff_reading \<Rightarrow> diff_hunk list" where
  "hunks_so_far d = dr_hunks d @ (case dr_current d of None \<Rightarrow> [] | Some h \<Rightarrow> [h])"

definition read_body_line :: "string \<Rightarrow> diff_reading \<Rightarrow> diff_reading option" where
  "read_body_line line d =
     (case dr_current d of
        None \<Rightarrow> None
      | Some h \<Rightarrow>
          if line = [] \<or> hd line \<notin> {CHR '' '', CHR ''+'', CHR ''-''} then None
          else
            (let old = (if hd line = CHR ''+'' then dr_old d else dr_old d + 1);
                 new = (if hd line = CHR ''-'' then dr_new d else dr_new d + 1)
             in
               if dh_old_lines h < int old \<or> dh_new_lines h < int new then None
               else Some (d\<lparr>dr_current := Some (h\<lparr>dh_lines := dh_lines h @ [line]\<rparr>), dr_old := old, dr_new := new\<rparr>)))"

definition read_diff_line :: "string \<Rightarrow> diff_reading \<Rightarrow> diff_reading option" where
  "read_diff_line line d =
     (case hunk_header line of
        Some (old_start, old_lines, new_start, new_lines) \<Rightarrow>
          if \<not> hunk_complete d then None
          else if \<not> list_all (\<lambda>n. n \<le> safe_integers) [old_start, old_lines, new_start, new_lines] then None
          else
            Some \<lparr>dr_hunks = hunks_so_far d,
              dr_current = Some \<lparr>dh_path = None, dh_old_start = int old_start, dh_old_lines = int old_lines,
                dh_new_start = int new_start, dh_new_lines = int new_lines, dh_lines = []\<rparr>,
              dr_old = 0, dr_new = 0\<rparr>
      | None \<Rightarrow>
          if line = no_newline_mark then
            (case dr_current d of None \<Rightarrow> None | Some h \<Rightarrow> if dh_lines h = [] then None else Some d)
          else read_body_line line d)"

fun read_diff_lines :: "string list \<Rightarrow> diff_reading \<Rightarrow> diff_reading option" where
  "read_diff_lines [] d = Some d"
| "read_diff_lines (l # ls) d = (case read_diff_line l d of None \<Rightarrow> None | Some d' \<Rightarrow> read_diff_lines ls d')"

definition parse_unified_diff :: "string \<Rightarrow> diff_hunk list option" where
  "parse_unified_diff diff =
     (case read_diff_lines (text_lines diff) \<lparr>dr_hunks = [], dr_current = None, dr_old = 0, dr_new = 0\<rparr> of
        None \<Rightarrow> None
      | Some d \<Rightarrow> if hunks_so_far d \<noteq> [] \<and> hunk_complete d then Some (hunks_so_far d) else None)"

section \<open>The diff of a result\<close>

definition file_change_hunks :: "file_change \<Rightarrow> diff_hunk list option" where
  "file_change_hunks c =
     (if fc_kind c = ChangeUpdate then parse_unified_diff (fc_diff c)
      else
        (let ls = (if fc_diff c = [] then [] else text_lines (fc_diff c)); n = int (length ls);
             added = (fc_kind c = ChangeAdd)
         in Some [\<lparr>dh_path = None,
              dh_old_start = (if added \<or> ls = [] then 0 else 1), dh_old_lines = (if added then 0 else n),
              dh_new_start = (if \<not> added \<or> ls = [] then 0 else 1), dh_new_lines = (if added then n else 0),
              dh_lines = map (Cons (if added then CHR ''+'' else CHR ''-'')) ls\<rparr>]))"

text \<open>
  A moved file is shown with both paths, an empty one is no move. The arrow of a hunk's path, U+2192
  in the source, is written as in the output.
\<close>

definition moved_to :: "file_change \<Rightarrow> string option" where
  "moved_to c = (if fc_move_path c = Some [] then None else fc_move_path c)"

definition shown_path :: "file_change \<Rightarrow> string" where
  "shown_path c = (case moved_to c of None \<Rightarrow> fc_path c | Some m \<Rightarrow> fc_path c @ '' -> '' @ m)"

definition file_change_text :: "file_change \<Rightarrow> string" where
  "file_change_text c = change_kind_name (fc_kind c) @ '': '' @ shown_path c @ line_break # fc_diff c"

fun joined_with :: "string \<Rightarrow> string list \<Rightarrow> string" where
  "joined_with sep [] = []"
| "joined_with sep [s] = s"
| "joined_with sep (s # t # ss) = s @ sep @ joined_with sep (t # ss)"

definition file_change_output :: "file_change list \<Rightarrow> string" where
  "file_change_output cs = joined_with [line_break] (map file_change_text cs)"

definition file_changes_diff :: "file_change list \<Rightarrow> diff_hunk list option" where
  "file_changes_diff cs =
     (if cs = [] then None
      else
        map_option concat
          (all_of (\<lambda>c. map_option (map (\<lambda>h. h\<lparr>dh_path := Some (shown_path c)\<rparr>)) (file_change_hunks c)) cs))"

section \<open>What an accepted patch promises\<close>

definition old_count :: "string list \<Rightarrow> nat" where
  "old_count ls = length (filter (\<lambda>l. hd l \<noteq> CHR ''+'') ls)"

definition new_count :: "string list \<Rightarrow> nat" where
  "new_count ls = length (filter (\<lambda>l. hd l \<noteq> CHR ''-'') ls)"

definition body_line :: "string \<Rightarrow> bool" where
  "body_line l \<longleftrightarrow> l \<noteq> [] \<and> hd l \<in> {CHR '' '', CHR ''+'', CHR ''-''}"

definition hunk_exact :: "diff_hunk \<Rightarrow> bool" where
  "hunk_exact h \<longleftrightarrow>
     list_all body_line (dh_lines h) \<and> dh_old_lines h = int (old_count (dh_lines h)) \<and>
     dh_new_lines h = int (new_count (dh_lines h))"

lemma counts_snoc:
  "old_count (ls @ [l]) = (if hd l = CHR ''+'' then old_count ls else old_count ls + 1)"
  "new_count (ls @ [l]) = (if hd l = CHR ''-'' then new_count ls else new_count ls + 1)"
  by (simp_all add: old_count_def new_count_def)

definition reading_ok :: "diff_reading \<Rightarrow> bool" where
  "reading_ok d \<longleftrightarrow>
     list_all hunk_exact (dr_hunks d) \<and>
     (case dr_current d of
        None \<Rightarrow> True
      | Some h \<Rightarrow> list_all body_line (dh_lines h) \<and> dr_old d = old_count (dh_lines h) \<and> dr_new d = new_count (dh_lines h))"

lemma complete_is_exact: "reading_ok d \<Longrightarrow> hunk_complete d \<Longrightarrow> list_all hunk_exact (hunks_so_far d)"
  by (auto simp: reading_ok_def hunk_complete_def hunks_so_far_def hunk_exact_def split: option.splits)

lemma read_diff_line_ok: "reading_ok d \<Longrightarrow> read_diff_line l d = Some d' \<Longrightarrow> reading_ok d'"
proof (cases "hunk_header l")
  case None
  assume "reading_ok d" "read_diff_line l d = Some d'"
  with None show ?thesis
    by (auto simp: read_diff_line_def read_body_line_def reading_ok_def Let_def counts_snoc body_line_def
        split: option.splits if_splits)
next
  case (Some p)
  assume "reading_ok d" "read_diff_line l d = Some d'"
  with Some complete_is_exact [of d] show ?thesis
    by (cases p) (auto simp: read_diff_line_def reading_ok_def old_count_def new_count_def split: if_splits)
qed

lemma read_diff_lines_ok: "reading_ok d \<Longrightarrow> read_diff_lines ls d = Some d' \<Longrightarrow> reading_ok d'"
  by (induction ls arbitrary: d) (auto split: option.splits dest: read_diff_line_ok)

text \<open>A patch that is accepted has hunks whose lines are exactly as many as their headers say.\<close>

theorem accepted_patch_is_exact:
  assumes "parse_unified_diff d = Some hs"
  shows "hs \<noteq> [] \<and> list_all hunk_exact hs"
proof -
  from assms obtain r where r: "read_diff_lines (text_lines d) \<lparr>dr_hunks = [], dr_current = None, dr_old = 0, dr_new = 0\<rparr> = Some r"
    "hs = hunks_so_far r" "hs \<noteq> []" "hunk_complete r"
    by (auto simp: parse_unified_diff_def split: option.splits if_splits)
  have "reading_ok r" by (rule read_diff_lines_ok [OF _ r(1)]) (simp add: reading_ok_def)
  with r complete_is_exact show ?thesis by simp
qed

section \<open>Writing a patch and reading it back\<close>

definition hunk_header_text :: "diff_hunk \<Rightarrow> string" where
  "hunk_header_text h =
     ''@@ -'' @ decimal (dh_old_start h) @ '','' @ decimal (dh_old_lines h) @ '' +'' @ decimal (dh_new_start h) @ '','' @
     decimal (dh_new_lines h) @ '' @@''"

definition patch_lines :: "diff_hunk list \<Rightarrow> string list" where
  "patch_lines hs = concat (map (\<lambda>h. hunk_header_text h # dh_lines h) hs)"

definition patch_text :: "diff_hunk list \<Rightarrow> string" where
  "patch_text hs = joined_with [line_break] (patch_lines hs)"

definition hunk_writable :: "diff_hunk \<Rightarrow> bool" where
  "hunk_writable h \<longleftrightarrow>
     hunk_exact h \<and> dh_path h = None \<and> list_all (\<lambda>l. line_break \<notin> set l) (dh_lines h) \<and>
     list_all (\<lambda>i. 0 \<le> i \<and> i \<le> int safe_integers) [dh_old_start h, dh_old_lines h, dh_new_start h, dh_new_lines h]"

lemma split_joined: "ls \<noteq> [] \<Longrightarrow> list_all (\<lambda>l. line_break \<notin> set l) ls \<Longrightarrow> split_on line_break (joined_with [line_break] ls) = ls"
  by (induction "[line_break]" ls rule: joined_with.induct) (simp_all add: split_on_plain split_on_line)

lemma digit_char: "k < 10 \<Longrightarrow> digit (char_of (48 + k :: nat))"
  by (simp add: digit_def)

lemma decimal_nat_digits: "list_all digit (decimal_nat n)"
proof (induction n rule: decimal_nat.induct)
  case (1 n)
  then show ?case by (subst decimal_nat.simps) (simp add: digit_char)
qed

lemma take_digits_decimal:
  assumes "rest = [] \<or> \<not> digit (hd rest)" "0 \<le> i"
  shows "take_digits (decimal i @ rest) = Some (nat i, rest)"
proof -
  have "decimal i = decimal_nat (nat i)" using assms(2) by (simp add: decimal_def)
  moreover have "decimal_nat (nat i) \<noteq> []" by (subst decimal_nat.simps) simp
  moreover have "takeWhile digit (decimal_nat (nat i) @ rest) = decimal_nat (nat i)"
    using decimal_nat_digits [of "nat i"] assms(1)
    by (cases rest) (auto simp: list_all_iff takeWhile_append2 takeWhile_tail intro: takeWhile_eq_all_conv [THEN iffD2])
  ultimately show ?thesis by (simp add: take_digits_def Let_def)
qed

lemma strip_append [simp]: "strip pre (pre @ s) = Some s"
  by (simp add: strip_def)

lemma take_range_decimal:
  assumes "rest = [] \<or> \<not> digit (hd rest)" "0 \<le> i" "0 \<le> j"
  shows "take_range (decimal i @ CHR '','' # decimal j @ rest) = Some (nat i, nat j, rest)"
proof -
  have "\<not> digit (CHR '','')" by (simp add: digit_def)
  then have "take_digits (decimal i @ CHR '','' # decimal j @ rest) = Some (nat i, CHR '','' # decimal j @ rest)"
    using assms(2) by (intro take_digits_decimal) simp_all
  with take_digits_decimal [OF assms(1,3)] show ?thesis by (simp add: take_range_def)
qed

lemma hunk_header_text_parses:
  assumes "hunk_writable h"
  shows "hunk_header (hunk_header_text h) =
    Some (nat (dh_old_start h), nat (dh_old_lines h), nat (dh_new_start h), nat (dh_new_lines h))"
proof -
  have ge: "0 \<le> dh_old_start h" "0 \<le> dh_old_lines h" "0 \<le> dh_new_start h" "0 \<le> dh_new_lines h"
    using assms by (simp_all add: hunk_writable_def)
  have space: "\<not> digit (CHR '' '')" by (simp add: digit_def)
  let ?tail = "'' +'' @ decimal (dh_new_start h) @ CHR '','' # decimal (dh_new_lines h) @ '' @@''"
  have "hunk_header_text h = ''@@ -'' @ decimal (dh_old_start h) @ CHR '','' # decimal (dh_old_lines h) @ ?tail"
    by (simp add: hunk_header_text_def)
  moreover have "take_range (decimal (dh_old_start h) @ CHR '','' # decimal (dh_old_lines h) @ ?tail) =
      Some (nat (dh_old_start h), nat (dh_old_lines h), ?tail)"
    using ge space by (intro take_range_decimal) simp_all
  moreover have "take_range (decimal (dh_new_start h) @ CHR '','' # decimal (dh_new_lines h) @ '' @@'') =
      Some (nat (dh_new_start h), nat (dh_new_lines h), '' @@'')"
    using ge space by (intro take_range_decimal) simp_all
  moreover have "strip ''@@ -'' (''@@ -'' @ s) = Some s" "strip '' +'' ('' +'' @ s) = Some s" "strip '' @@'' '' @@'' = Some []" for s
    by (simp_all only: strip_append) (simp add: strip_def)
  ultimately show ?thesis by (simp only: hunk_header_def option.case prod.case) simp
qed

lemma body_line_is_no_header: "body_line l \<Longrightarrow> hunk_header l = None \<and> l \<noteq> no_newline_mark"
  by (cases l) (auto simp: body_line_def hunk_header_def strip_def no_newline_mark_def)

lemma read_body_lines:
  assumes "list_all body_line ls"
    and "int (old_count (dh_lines h @ ls)) \<le> dh_old_lines h" "int (new_count (dh_lines h @ ls)) \<le> dh_new_lines h"
  shows "read_diff_lines (ls @ more_lines)
      \<lparr>dr_hunks = hs, dr_current = Some h, dr_old = old_count (dh_lines h), dr_new = new_count (dh_lines h)\<rparr> =
    read_diff_lines more_lines
      \<lparr>dr_hunks = hs, dr_current = Some (h\<lparr>dh_lines := dh_lines h @ ls\<rparr>),
       dr_old = old_count (dh_lines h @ ls), dr_new = new_count (dh_lines h @ ls)\<rparr>"
  using assms
proof (induction ls arbitrary: h)
  case (Cons l ls)
  let ?h = "h\<lparr>dh_lines := dh_lines h @ [l]\<rparr>"
  have le: "old_count (dh_lines h @ [l]) \<le> old_count (dh_lines h @ l # ls)" "new_count (dh_lines h @ [l]) \<le> new_count (dh_lines h @ l # ls)"
    by (simp_all add: old_count_def new_count_def)
  have l: "body_line l" using Cons.prems(1) by simp
  have "read_diff_line l \<lparr>dr_hunks = hs, dr_current = Some h, dr_old = old_count (dh_lines h), dr_new = new_count (dh_lines h)\<rparr> =
      Some \<lparr>dr_hunks = hs, dr_current = Some ?h, dr_old = old_count (dh_lines ?h), dr_new = new_count (dh_lines ?h)\<rparr>"
    using body_line_is_no_header [OF l] l le Cons.prems(2,3)
    by (auto simp: read_diff_line_def read_body_line_def body_line_def Let_def counts_snoc)
  with Cons.IH [of ?h] Cons.prems show ?case by simp
qed simp

lemma read_patch_lines:
  assumes "list_all hunk_writable hs" "list_all hunk_exact (hunks_so_far d)" "hunk_complete d"
  shows "\<exists>r. read_diff_lines (patch_lines hs) d = Some r \<and> hunks_so_far r = hunks_so_far d @ hs \<and> hunk_complete r"
  using assms
proof (induction hs arbitrary: d)
  case Nil
  then show ?case by (simp add: patch_lines_def)
next
  case (Cons h hs)
  from Cons.prems have h: "hunk_writable h" by simp
  let ?h0 = "h\<lparr>dh_lines := []\<rparr>"
  let ?d0 = "\<lparr>dr_hunks = hunks_so_far d, dr_current = Some ?h0, dr_old = 0, dr_new = 0\<rparr>"
  let ?d1 = "\<lparr>dr_hunks = hunks_so_far d, dr_current = Some h, dr_old = old_count (dh_lines h), dr_new = new_count (dh_lines h)\<rparr>"
  have zero: "old_count [] = 0" "new_count [] = 0" by (simp_all add: old_count_def new_count_def)
  have made: "\<lparr>dh_path = None, dh_old_start = dh_old_start h, dh_old_lines = dh_old_lines h,
      dh_new_start = dh_new_start h, dh_new_lines = dh_new_lines h, dh_lines = []\<rparr> = ?h0"
    using h by (cases h) (simp add: hunk_writable_def)
  have "read_diff_line (hunk_header_text h) d = Some ?d0"
    using Cons.prems(3) h made by (simp add: read_diff_line_def hunk_header_text_parses) (simp add: hunk_writable_def nat_le_iff)
  moreover have "read_diff_lines (dh_lines h @ patch_lines hs) ?d0 = read_diff_lines (patch_lines hs) ?d1"
    using read_body_lines [of "dh_lines h" ?h0 "patch_lines hs" "hunks_so_far d"] h
    by (simp add: zero hunk_writable_def hunk_exact_def)
  moreover have "hunks_so_far ?d1 = hunks_so_far d @ [h]" "hunk_complete ?d1"
    using h by (simp_all add: hunks_so_far_def hunk_complete_def hunk_writable_def hunk_exact_def)
  moreover have "list_all hunk_exact (hunks_so_far ?d1)"
    using calculation(3) Cons.prems(2) h by (simp add: hunk_writable_def)
  ultimately show ?case using Cons.IH [of ?d1] Cons.prems(1) by (simp add: patch_lines_def)
qed

lemma decimal_no_newline: "line_break \<notin> set (decimal i)" if "0 \<le> i"
proof -
  have "list_all digit (decimal i)" using that by (simp add: decimal_def decimal_nat_digits)
  moreover have "\<not> digit line_break" by (simp add: digit_def line_break_def)
  ultimately show ?thesis by (auto simp: list_all_iff)
qed

lemma header_no_newline: "hunk_writable h \<Longrightarrow> line_break \<notin> set (hunk_header_text h)"
  by (simp add: hunk_header_text_def hunk_writable_def decimal_no_newline) (simp add: line_break_def)

lemma patch_lines_plain: "list_all hunk_writable hs \<Longrightarrow> list_all (\<lambda>l. l \<noteq> [] \<and> line_break \<notin> set l) (patch_lines hs)"
proof (induction hs)
  case (Cons h hs)
  then have "list_all (\<lambda>l. l \<noteq> [] \<and> line_break \<notin> set l) (dh_lines h)"
    by (auto simp: hunk_writable_def hunk_exact_def body_line_def list_all_iff)
  moreover have "hunk_header_text h \<noteq> []" by (simp add: hunk_header_text_def)
  ultimately show ?case using Cons by (simp add: patch_lines_def header_no_newline)
qed (simp add: patch_lines_def)

text \<open>
  A patch written from hunks whose headers count their lines is read back as those hunks.
\<close>

theorem patch_round_trip:
  assumes "list_all hunk_writable hs" and "hs \<noteq> []"
  shows "parse_unified_diff (patch_text hs) = Some hs"
proof -
  let ?d = "\<lparr>dr_hunks = [], dr_current = None, dr_old = 0, dr_new = 0\<rparr>"
  have ne: "patch_lines hs \<noteq> []" using assms(2) by (cases hs) (simp_all add: patch_lines_def)
  note plain = patch_lines_plain [OF assms(1)]
  have "split_on line_break (patch_text hs) = patch_lines hs"
    unfolding patch_text_def using ne plain by (intro split_joined) (auto simp: list_all_iff)
  moreover have "last (patch_lines hs) \<noteq> []" using ne plain by (simp add: list_all_iff)
  ultimately have "text_lines (patch_text hs) = patch_lines hs" by (simp add: text_lines_def)
  moreover obtain r where "read_diff_lines (patch_lines hs) ?d = Some r" "hunks_so_far r = hs" "hunk_complete r"
    using read_patch_lines [OF assms(1), of ?d] by (auto simp: hunks_so_far_def hunk_complete_def)
  ultimately show ?thesis using assms(2) by (simp add: parse_unified_diff_def)
qed

definition example_hunk :: diff_hunk where
  "example_hunk = \<lparr>dh_path = None, dh_old_start = 1, dh_old_lines = 2, dh_new_start = 1, dh_new_lines = 2,
     dh_lines = ['' a'', ''-b'', ''+c'']\<rparr>"

theorem patch_round_trip_witness: "parse_unified_diff (patch_text [example_hunk]) = Some [example_hunk]"
  by (rule patch_round_trip)
    (simp_all add: example_hunk_def hunk_writable_def hunk_exact_def body_line_def old_count_def new_count_def
      line_break_def safe_integers_def)

end
