(* ===== verification/Claude_Adapter.thy ===== *)
theory Claude_Adapter
  imports Codex_Diff
begin

text \<open>
  The adapter of the Claude command line (\<open>src/agent-console/providers/claude-cli/index.ts\<close> and
  \<open>summarise.ts\<close>): the mapping of every record of its output to what the runtime is told, and the
  life of the child that a turn spawns. Records are what \<open>JSON.parse\<close> made of a line, none for a line
  that does not parse; \<open>String\<close> of a value that is no string is a parameter.
\<close>

section \<open>State\<close>

text \<open>
  One adapter serves a session; each turn has a child of its own, by number. What the adapter writes
  to a child's input is kept with the child it goes to, and so are the orders to terminate one.
\<close>

datatype claude_write =
    UserMessage string "json list"
  | AllowTool request_id call_id
  | DenyTool request_id call_id string

text \<open>
  The input of the child: open, ended, or destroyed. A write to an ended stream destroys it; the
  adapter looks at the last only.
\<close>

datatype stdin_state = StdinOpen | StdinEnded | StdinDestroyed

record claude =
  ca_child :: "nat option"
  ca_cli_session :: "string option"
  ca_result_seen :: bool
  ca_kill_requested :: bool
  ca_last_usage :: "string option"
  ca_pending :: "(request_id, call_id) jmap"
  ca_stdin :: stdin_state
  ca_notes :: "adapter_notification list"
  ca_writes :: "(nat \<times> claude_write) list"
  ca_terminated :: "nat list"

definition claude_fresh :: claude where
  "claude_fresh =
     \<lparr>ca_child = None, ca_cli_session = None, ca_result_seen = False, ca_kill_requested = False, ca_last_usage = None,
      ca_pending = [], ca_stdin = StdinDestroyed, ca_notes = [], ca_writes = [], ca_terminated = []\<rparr>"

record claude_config =
  cg_string :: "json \<Rightarrow> string"
  cg_persist_reasoning :: bool
  cg_windows :: bool

definition tell :: "adapter_notification \<Rightarrow> claude \<Rightarrow> claude" where
  "tell n s = s\<lparr>ca_notes := ca_notes s @ [n]\<rparr>"

definition emit_event :: "payload \<Rightarrow> json option \<Rightarrow> claude \<Rightarrow> claude" where
  "emit_event d raw s = tell (AdapterEvent \<lparr>ae_data = d, ae_raw = raw\<rparr>) s"

definition terminate_child :: "nat \<Rightarrow> claude \<Rightarrow> claude" where
  "terminate_child n s = s\<lparr>ca_terminated := ca_terminated s @ [n]\<rparr>"

definition terminate_current :: "claude \<Rightarrow> claude" where
  "terminate_current s = (case ca_child s of None \<Rightarrow> s | Some n \<Rightarrow> terminate_child n s)"

definition fail_schema_mismatch :: "string \<Rightarrow> json \<Rightarrow> claude \<Rightarrow> claude" where
  "fail_schema_mismatch detail rec s =
     (let s1 = emit_event (ErrorEvent AdapterSchemaMismatch detail True) (Some rec) s;
          s2 = (if ca_result_seen s1 then s1
                else emit_event (TurnEnded StopError None) None (s1\<lparr>ca_result_seen := True\<rparr>))
      in terminate_current s2)"

definition unknown_record :: "string \<Rightarrow> json \<Rightarrow> claude \<Rightarrow> claude" where
  "unknown_record msg rec s = emit_event (ErrorEvent AdapterUnknownRecord msg False) (Some rec) s"

definition show_value :: "claude_config \<Rightarrow> json option \<Rightarrow> string" where
  "show_value cg v = (case v of None \<Rightarrow> ''undefined'' | Some (JStr s) \<Rightarrow> s | Some w \<Rightarrow> cg_string cg w)"

definition null_or_absent :: "json option \<Rightarrow> bool" where
  "null_or_absent v \<longleftrightarrow> v = None \<or> v = Some JNull"

section \<open>Tool calls\<close>

definition first_line :: "string \<Rightarrow> string" where
  "first_line s = takeWhile (\<lambda>c. c \<noteq> line_break) s"

definition summary_limit :: nat where
  "summary_limit = 200"

definition summarise_tool_call :: "string \<Rightarrow> (string \<times> json) list \<Rightarrow> string" where
  "summarise_tool_call name input =
     (case (name = ''Bash'', text_of (jget input ''command'')) of
        (True, Some command) \<Rightarrow> take summary_limit (first_line command)
      | _ \<Rightarrow>
          (case find (\<lambda>k. case text_of (jget input k) of Some v \<Rightarrow> v \<noteq> [] | None \<Rightarrow> False)
                  [''file_path'', ''path'', ''pattern'', ''url'', ''query''] of
             Some k \<Rightarrow>
               name @ '': '' @ take summary_limit (case text_of (jget input k) of Some v \<Rightarrow> v | None \<Rightarrow> [])
           | None \<Rightarrow> name))"

definition project_match_target :: "string \<Rightarrow> (string \<times> json) list \<Rightarrow> string option" where
  "project_match_target tool input =
     (if tool = ''Bash'' then text_of (jget input ''command'')
      else if tool \<in> {''Read'', ''Edit'', ''Write''} then text_of (jget input ''file_path'')
      else None)"

text \<open>The members of an object that may be left out; \<open>Inl\<close> where it is something else.\<close>

definition object_or_absent :: "json option \<Rightarrow> (unit, (string \<times> json) list) result" where
  "object_or_absent v = (case v of None \<Rightarrow> Inr [] | Some (JObj kvs) \<Rightarrow> Inr kvs | Some _ \<Rightarrow> Inl ())"

definition array_or_absent :: "json option \<Rightarrow> (unit, json list) result" where
  "array_or_absent v = (case v of None \<Rightarrow> Inr [] | Some (JArr vs) \<Rightarrow> Inr vs | Some _ \<Rightarrow> Inl ())"

section \<open>The diff of a result\<close>

definition number_of :: "json option \<Rightarrow> int option" where
  "number_of v = (case v of Some (JNum i) \<Rightarrow> Some i | _ \<Rightarrow> None)"

definition raw_hunk :: "json \<Rightarrow> diff_hunk option" where
  "raw_hunk h =
     (case (number_of (jprop h ''oldStart''), number_of (jprop h ''oldLines''), number_of (jprop h ''newStart''),
            number_of (jprop h ''newLines''), jprop h ''lines'') of
        (Some os, Some ol, Some ns, Some nl, Some (JArr ls)) \<Rightarrow>
          (case all_of (\<lambda>l. text_of (Some l)) ls of
             None \<Rightarrow> None
           | Some ts \<Rightarrow>
               Some \<lparr>dh_path = None, dh_old_start = os, dh_old_lines = ol, dh_new_start = ns, dh_new_lines = nl,
                 dh_lines = ts\<rparr>)
      | _ \<Rightarrow> None)"

definition extract_tool_result_diff :: "json option \<Rightarrow> diff_hunk list option" where
  "extract_tool_result_diff v =
     (case v of
        Some (JObj kvs) \<Rightarrow>
          (case jget kvs ''structuredPatch'' of
             Some (JArr []) \<Rightarrow>
               (case text_of (jget kvs ''content'') of
                  None \<Rightarrow> None
                | Some content \<Rightarrow>
                    if content = [] then None
                    else
                      (let ls = map (Cons (CHR ''+'')) (split_on line_break content)
                       in Some [\<lparr>dh_path = None, dh_old_start = 0, dh_old_lines = 0, dh_new_start = 1,
                            dh_new_lines = int (length ls), dh_lines = ls\<rparr>]))
           | Some (JArr hs) \<Rightarrow> all_of raw_hunk hs
           | _ \<Rightarrow> None)
      | _ \<Rightarrow> None)"

section \<open>Records of the assistant and of the user\<close>

fun assistant_blocks :: "claude_config \<Rightarrow> json \<Rightarrow> json list \<Rightarrow> claude \<Rightarrow> claude" where
  "assistant_blocks cg rec [] s = s"
| "assistant_blocks cg rec (b # bs) s =
     (if \<not> plain_object b then
        fail_schema_mismatch ''assistant message content carried a non-object block'' rec s
      else
        (let t = text_of (jprop b ''type''); txt = text_of (jprop b ''text''); thought = text_of (jprop b ''thinking'')
         in
           if t = Some ''text'' \<and> txt \<noteq> None \<and> txt \<noteq> Some [] then
             assistant_blocks cg rec bs (emit_event (Message Assistant (the txt) []) (Some rec) s)
           else if t = Some ''thinking'' \<and> thought \<noteq> None \<and> thought \<noteq> Some [] then
             assistant_blocks cg rec bs
               (if cg_persist_reasoning cg then emit_event (Thinking (the thought)) (Some rec) s else s)
           else if t = Some ''tool_use'' then
             (case text_of (jprop b ''id'') of
                None \<Rightarrow> fail_schema_mismatch ''tool_use block carried a non-string id'' rec s
              | Some i \<Rightarrow>
                  (case text_of (jprop b ''name'') of
                     None \<Rightarrow> fail_schema_mismatch ''tool_use block carried a non-string name'' rec s
                   | Some name \<Rightarrow>
                       (case object_or_absent (jprop b ''input'') of
                          Inl _ \<Rightarrow> fail_schema_mismatch ''tool_use block carried a non-object input'' rec s
                        | Inr input \<Rightarrow>
                            assistant_blocks cg rec bs
                              (emit_event
                                (ToolCall \<lparr>tc_call_id = i, tc_name = name, tc_input = JObj input,
                                   tc_summary = summarise_tool_call name input\<rparr>) (Some rec) s))))
           else assistant_blocks cg rec bs s))"

text \<open>Usage is reported once for a message; a field that is absent counts nothing.\<close>

definition usage_fields :: "string list" where
  "usage_fields = [''input_tokens'', ''output_tokens'', ''cache_read_input_tokens'', ''cache_creation_input_tokens'']"

definition usage_field :: "(string \<times> json) list \<Rightarrow> string \<Rightarrow> int" where
  "usage_field u k = (case number_of (jget u k) of None \<Rightarrow> 0 | Some i \<Rightarrow> i)"

definition usage_of :: "(string \<times> json) list \<Rightarrow> usage" where
  "usage_of u =
     \<lparr>input_tokens = usage_field u ''input_tokens'', output_tokens = usage_field u ''output_tokens'',
      cache_read = usage_field u ''cache_read_input_tokens'', cache_create = usage_field u ''cache_creation_input_tokens''\<rparr>"

definition handle_assistant :: "claude_config \<Rightarrow> json \<Rightarrow> claude \<Rightarrow> claude" where
  "handle_assistant cg rec s =
     (case object_or_absent (jprop rec ''message'') of
        Inl _ \<Rightarrow> fail_schema_mismatch ''assistant record carried a non-object message'' rec s
      | Inr m \<Rightarrow>
          (case object_or_absent (jget m ''usage'') of
             Inl _ \<Rightarrow> fail_schema_mismatch ''assistant message carried a non-object usage'' rec s
           | Inr u \<Rightarrow>
               (let i = text_of (jget m ''id'');
                    due = (jget m ''usage'' \<noteq> None \<and> i \<noteq> None \<and> i \<noteq> ca_last_usage s)
                in
                  case (if due then find (\<lambda>k. jget u k \<noteq> None \<and> number_of (jget u k) = None) usage_fields else None) of
                    Some k \<Rightarrow> fail_schema_mismatch (''assistant message usage.'' @ k @ '' was not numeric'') rec s
                  | None \<Rightarrow>
                      (let s1 = (if due then emit_event (UsageEvent (usage_of u)) (Some rec) (s\<lparr>ca_last_usage := i\<rparr>) else s)
                       in
                         case array_or_absent (jget m ''content'') of
                           Inl _ \<Rightarrow> fail_schema_mismatch ''assistant message carried a non-array content'' rec s1
                         | Inr bs \<Rightarrow> assistant_blocks cg rec bs s1))))"

text \<open>
  The text of a tool's result: a string, or the parts of an array. A part that is null throws, which
  is none here.
\<close>

definition part_text :: "claude_config \<Rightarrow> json \<Rightarrow> string option" where
  "part_text cg p =
     (if p = JNull then None
      else
        Some (case jprop p ''text'' of
                None \<Rightarrow> [] | Some JNull \<Rightarrow> [] | Some v \<Rightarrow> show_value cg (Some v)))"

definition result_text :: "claude_config \<Rightarrow> json option \<Rightarrow> string option" where
  "result_text cg raw =
     (case raw of
        Some (JStr t) \<Rightarrow> Some t
      | Some (JArr ps) \<Rightarrow> map_option concat (all_of (part_text cg) ps)
      | _ \<Rightarrow> Some [])"

definition truthy :: "json option \<Rightarrow> bool" where
  "truthy v \<longleftrightarrow>
     (case v of
        None \<Rightarrow> False | Some JNull \<Rightarrow> False | Some (JBool b) \<Rightarrow> b | Some (JNum i) \<Rightarrow> i \<noteq> 0
      | Some (JStr t) \<Rightarrow> t \<noteq> [] | Some _ \<Rightarrow> True)"

definition thrown :: "json \<Rightarrow> claude \<Rightarrow> claude" where
  "thrown rec s = fail_schema_mismatch ''unhandled error while mapping a Claude record'' rec s"

definition tool_result_of :: "call_id \<Rightarrow> bool \<Rightarrow> string \<Rightarrow> diff_hunk list option \<Rightarrow> payload" where
  "tool_result_of i ok txt diff =
     ToolResult \<lparr>tr_call_id = i, tr_ok = ok, tr_output = map of_char txt, tr_truncated = False,
       tr_bytes = length (text_bytes txt), tr_diff = diff\<rparr>"

fun user_blocks :: "claude_config \<Rightarrow> json \<Rightarrow> json list \<Rightarrow> claude \<Rightarrow> claude" where
  "user_blocks cg rec [] s = s"
| "user_blocks cg rec (b # bs) s =
     (if \<not> plain_object b then fail_schema_mismatch ''user message content carried a non-object block'' rec s
      else if text_of (jprop b ''type'') \<noteq> Some ''tool_result'' then user_blocks cg rec bs s
      else
        (case text_of (jprop b ''tool_use_id'') of
           None \<Rightarrow> fail_schema_mismatch ''tool_result block carried a non-string tool_use_id'' rec s
         | Some i \<Rightarrow>
             (case result_text cg (jprop b ''content'') of
                None \<Rightarrow> thrown rec s
              | Some txt \<Rightarrow>
                  user_blocks cg rec bs
                    (emit_event
                      (tool_result_of i (\<not> truthy (jprop b ''is_error'')) txt
                        (extract_tool_result_diff (jprop rec ''tool_use_result''))) (Some rec) s))))"

definition handle_user :: "claude_config \<Rightarrow> json \<Rightarrow> claude \<Rightarrow> claude" where
  "handle_user cg rec s =
     (case object_or_absent (jprop rec ''message'') of
        Inl _ \<Rightarrow> fail_schema_mismatch ''user record carried a non-object message'' rec s
      | Inr m \<Rightarrow>
          (case array_or_absent (jget m ''content'') of
             Inl _ \<Rightarrow> fail_schema_mismatch ''user message carried a non-array content'' rec s
           | Inr bs \<Rightarrow> user_blocks cg rec bs s))"

section \<open>Records of the system\<close>

definition is_number :: "json option \<Rightarrow> bool" where
  "is_number v \<longleftrightarrow> number_of v \<noteq> None"

text \<open>A hook: its identity, and for one that has ended an outcome and a code that may be missing.\<close>

definition hook_of :: "bool \<Rightarrow> json \<Rightarrow> (string, hook_event) result" where
  "hook_of completed rec =
     (case (text_of (jprop rec ''hook_id''), text_of (jprop rec ''hook_name''), text_of (jprop rec ''hook_event'')) of
        (Some i, Some n, Some e) \<Rightarrow>
          (let outcome = jprop rec ''outcome''; code = jprop rec ''exit_code''
           in
             if completed \<and> (\<not> null_or_absent outcome \<and> text_of outcome = None \<or>
                              \<not> null_or_absent code \<and> \<not> is_number code)
             then Inl ''hook record carried an invalid outcome or exit code''
             else
               Inr \<lparr>he_id = i, he_phase = (if completed then HookCompleted else HookStarted), he_event = e, he_name = n,
                 he_outcome = (if completed then text_of outcome else None),
                 he_exit_code = (if completed then number_of code else None)\<rparr>)
      | _ \<Rightarrow> Inl ''hook record carried invalid identity fields'')"

definition ignored_system_subtypes :: "string list" where
  "ignored_system_subtypes = [''thinking_tokens'', ''post_turn_summary'']"

definition task_subtypes :: "(string, notice_level \<times> session_notice_code) jmap" where
  "task_subtypes =
     [(''task_started'', (Info, TaskStarted)), (''task_progress'', (Info, TaskProgress)),
      (''task_completed'', (Info, TaskCompleted)), (''task_failed'', (Error, TaskFailed)),
      (''task_cancelled'', (Warn, TaskCancelled))]"

definition describe_task_event :: "string \<Rightarrow> json \<Rightarrow> string" where
  "describe_task_event subtype rec =
     (let label =
        (case text_of (jprop rec ''description'') of
           Some d \<Rightarrow> d
         | None \<Rightarrow>
             (case text_of (jprop rec ''name'') of
                Some n \<Rightarrow> n
              | None \<Rightarrow> (case text_of (jprop rec ''task_id'') of Some i \<Rightarrow> i | None \<Rightarrow> [])))
      in if label = [] then subtype else subtype @ '': '' @ label)"

definition handle_system :: "claude_config \<Rightarrow> json \<Rightarrow> claude \<Rightarrow> claude" where
  "handle_system cg rec s =
     (let sub = jprop rec ''subtype''; st = text_of sub
      in
        if st = Some ''hook_started'' \<or> st = Some ''hook_response'' then
          (case hook_of (st = Some ''hook_response'') rec of
             Inl detail \<Rightarrow> fail_schema_mismatch detail rec s
           | Inr h \<Rightarrow> emit_event (Hook h) (Some rec) s)
        else if st = Some ''init'' then
          (case text_of (jprop rec ''session_id'') of
             None \<Rightarrow> s
           | Some i \<Rightarrow> tell (CliSession i) (s\<lparr>ca_cli_session := Some i\<rparr>))
        else if st = Some ''compact_boundary'' \<or> st = Some ''status'' \<and> text_of (jprop rec ''status'') = Some ''compacting'' then
          emit_event (SessionNotice Info Compaction ''Compacting context'') (Some rec) (s\<lparr>ca_last_usage := None\<rparr>)
        else
          (case st of
             None \<Rightarrow> unknown_record (''unrecognised system subtype: '' @ show_value cg sub) rec s
           | Some t \<Rightarrow>
               if t \<in> set ignored_system_subtypes then s
               else
                 (case jget task_subtypes t of
                    Some (level, code) \<Rightarrow>
                      emit_event (SessionNotice level code (describe_task_event t rec)) (Some rec) s
                  | None \<Rightarrow> unknown_record (''unrecognised system subtype: '' @ show_value cg sub) rec s)))"

section \<open>Requests, streams and results\<close>

text \<open>Suggestions that are no array, which the code passes on as they are, are none here.\<close>

fun json_list :: "json option \<Rightarrow> json list" where
  "json_list (Some (JArr vs)) = vs"
| "json_list _ = []"

definition handle_control_request :: "claude_config \<Rightarrow> json \<Rightarrow> claude \<Rightarrow> claude" where
  "handle_control_request cg rec s =
     (case object_or_absent (jprop rec ''request'') of
        Inl _ \<Rightarrow> fail_schema_mismatch ''control_request carried a non-object request'' rec s
      | Inr q \<Rightarrow>
          if text_of (jget q ''subtype'') \<noteq> Some ''can_use_tool'' then
            unknown_record (''unrecognised control_request subtype: '' @ show_value cg (jget q ''subtype'')) rec s
          else
            (case text_of (jprop rec ''request_id'') of
               None \<Rightarrow> fail_schema_mismatch ''control_request carried a non-string request_id'' rec s
             | Some i \<Rightarrow>
                 (case text_of (jget q ''tool_use_id'') of
                    None \<Rightarrow> fail_schema_mismatch ''control_request carried a non-string tool_use_id'' rec s
                  | Some c \<Rightarrow>
                      (case text_of (jget q ''tool_name'') of
                         None \<Rightarrow> fail_schema_mismatch ''control_request carried a non-string tool_name'' rec s
                       | Some t \<Rightarrow>
                           (case object_or_absent (jget q ''input'') of
                              Inl _ \<Rightarrow> fail_schema_mismatch ''control_request carried a non-object input'' rec s
                            | Inr input \<Rightarrow>
                                emit_event
                                  (PermissionRequest
                                    \<lparr>pr_request_id = i, pr_call_id = c, pr_tool = t, pr_input = JObj input,
                                     pr_match_target = project_match_target t input,
                                     pr_suggestions = json_list (jget q ''permission_suggestions'')\<rparr>)
                                  (Some rec) (s\<lparr>ca_pending := jset (ca_pending s) i c\<rparr>))))))"

definition ignored_stream_event_types :: "string list" where
  "ignored_stream_event_types =
     [''message_start'', ''content_block_start'', ''content_block_stop'', ''message_delta'', ''message_stop'']"

definition ignored_delta_types :: "string list" where
  "ignored_delta_types = [''thinking_delta'', ''input_json_delta'']"

definition member :: "json option \<Rightarrow> string \<Rightarrow> json option" where
  "member v k = (case v of None \<Rightarrow> None | Some w \<Rightarrow> jprop w k)"

definition handle_stream_event :: "claude_config \<Rightarrow> json \<Rightarrow> claude \<Rightarrow> claude" where
  "handle_stream_event cg rec s =
     (let ev = jprop rec ''event''; et = member ev ''type''
      in
        if text_of et = Some ''content_block_delta'' then
          (let delta = member ev ''delta''; dt = member delta ''type''
           in
             if text_of dt = Some ''text_delta'' then
               (case text_of (member delta ''text'') of
                  None \<Rightarrow> s
                | Some txt \<Rightarrow> if txt = [] then s else emit_event (MessageDelta txt) (Some rec) s)
             else if text_of dt \<noteq> None \<and> the (text_of dt) \<in> set ignored_delta_types then s
             else unknown_record (''unrecognised content_block_delta delta type: '' @ show_value cg dt) rec s)
        else if text_of et \<noteq> None \<and> the (text_of et) \<in> set ignored_stream_event_types then s
        else unknown_record (''unrecognised stream_event type: '' @ show_value cg et) rec s)"

definition handle_result :: "json \<Rightarrow> claude \<Rightarrow> claude" where
  "handle_result rec s =
     (emit_event
       (TurnEnded (if text_of (jprop rec ''subtype'') = Some ''success'' then StopCompleted else StopError) None)
       (Some rec)
       (s\<lparr>ca_result_seen := True,
          ca_stdin := (if ca_child s \<noteq> None \<and> ca_stdin s = StdinOpen then StdinEnded else ca_stdin s)\<rparr>))"

definition ignored_top_level_types :: "string list" where
  "ignored_top_level_types = [''rate_limit_event'', ''control_response'']"

text \<open>\<open>handleRecord\<close> within its boundary: the member access of the JSON null throws.\<close>

definition handle_record :: "claude_config \<Rightarrow> json \<Rightarrow> claude \<Rightarrow> claude" where
  "handle_record cg rec s =
     (if rec = JNull then thrown rec s
      else
        (case text_of (jprop rec ''type'') of
           None \<Rightarrow> unknown_record ''record has no string type'' rec s
         | Some t \<Rightarrow>
             if t \<in> set ignored_top_level_types then s
             else if t = ''system'' then handle_system cg rec s
             else if t = ''assistant'' then handle_assistant cg rec s
             else if t = ''user'' then handle_user cg rec s
             else if t = ''control_request'' then handle_control_request cg rec s
             else if t = ''stream_event'' then handle_stream_event cg rec s
             else if t = ''result'' then handle_result rec s
             else unknown_record (''unrecognised record type: '' @ t) rec s))"

definition handle_line :: "claude_config \<Rightarrow> json option \<Rightarrow> claude \<Rightarrow> claude" where
  "handle_line cg line s =
     (case line of
        None \<Rightarrow> emit_event (ErrorEvent AdapterBadLine ''not JSON'' False) None s
      | Some rec \<Rightarrow> handle_record cg rec s)"

section \<open>The child of a turn\<close>

text \<open>\<open>send\<close>: none where it resolves with an error before anything is spawned.\<close>

definition safe_resume_id :: "string \<Rightarrow> bool" where
  "safe_resume_id i \<longleftrightarrow>
     i \<noteq> [] \<and>
     list_all (\<lambda>c. digit c \<or> 65 \<le> (of_char c :: nat) \<and> (of_char c :: nat) \<le> 90 \<or>
       97 \<le> (of_char c :: nat) \<and> (of_char c :: nat) \<le> 122 \<or> c \<in> {CHR ''.'', CHR ''_'', CHR ''-''}) i"

datatype spawn_attempt = SpawnedChild nat | SpawnThrew string

definition claude_send :: "string \<Rightarrow> string option \<Rightarrow> spawn_attempt \<Rightarrow> claude \<Rightarrow> claude \<times> adapter_error option" where
  "claude_send executable resume attempt s =
     (let s1 = s\<lparr>ca_result_seen := False, ca_kill_requested := False\<rparr>
      in
        case resume of
          Some i \<Rightarrow>
            if \<not> safe_resume_id i
            then (s1, Some (SchemaMismatch (''resume session id contains unsafe characters: '' @ i)))
            else
              (case attempt of
                 SpawnThrew detail \<Rightarrow> (s1, Some (AgentUnavailable executable detail))
               | SpawnedChild n \<Rightarrow> (s1\<lparr>ca_child := Some n, ca_stdin := StdinOpen\<rparr>, None))
        | None \<Rightarrow>
            (case attempt of
               SpawnThrew detail \<Rightarrow> (s1, Some (AgentUnavailable executable detail))
             | SpawnedChild n \<Rightarrow> (s1\<lparr>ca_child := Some n, ca_stdin := StdinOpen\<rparr>, None)))"

definition write_line :: "claude_write \<Rightarrow> claude \<Rightarrow> claude \<times> bool" where
  "write_line w s =
     (case ca_child s of
        None \<Rightarrow> (s, False)
      | Some n \<Rightarrow>
          (case ca_stdin s of
             StdinOpen \<Rightarrow> (s\<lparr>ca_writes := ca_writes s @ [(n, w)]\<rparr>, True)
           | StdinEnded \<Rightarrow> (s\<lparr>ca_stdin := StdinDestroyed\<rparr>, True)
           | StdinDestroyed \<Rightarrow> (s, False)))"

definition image_media_types :: "string list" where
  "image_media_types = [''image/png'', ''image/jpeg'', ''image/gif'', ''image/webp'']"

text \<open>What a user's message holds for an attachment: the image, its bytes in base64, or its name.\<close>

definition attachment_block :: "(8 word list \<Rightarrow> string) \<Rightarrow> attachment_ref \<times> 8 word list \<Rightarrow> json" where
  "attachment_block base64 a =
     (if ar_media_type (fst a) \<in> set image_media_types then
        JObj [(''type'', JStr ''image''),
              (''source'', JObj [(''type'', JStr ''base64''), (''media_type'', JStr (ar_media_type (fst a))),
                               (''data'', JStr (base64 (snd a)))])]
      else
        JObj [(''type'', JStr ''text''),
              (''text'', JStr (''[attachment '' @ CHR 0x22 # ar_filename (fst a) @ CHR 0x22 # '' ('' @
                 ar_media_type (fst a) @ '') omitted: Claude only accepts image attachments]''))])"

definition user_content :: "(8 word list \<Rightarrow> string) \<Rightarrow> (attachment_ref \<times> 8 word list) list \<Rightarrow> string \<Rightarrow> json list" where
  "user_content base64 atts txt =
     map (attachment_block base64) atts @ [JObj [(''type'', JStr ''text''), (''text'', JStr txt)]]"

definition child_spawned :: "claude_config \<Rightarrow> int \<Rightarrow> string \<Rightarrow> json list \<Rightarrow> claude \<Rightarrow> claude \<times> adapter_error option" where
  "child_spawned cg pid im content s =
     (let s1 = tell (Spawned pid (if cg_windows cg then None else Some pid) im) s;
          (s2, wrote) = write_line (UserMessage (case ca_cli_session s1 of None \<Rightarrow> [] | Some i \<Rightarrow> i) content) s1
      in (s2, if wrote then None else Some (WriteFailed ''stdin not writable immediately after spawn'')))"

text \<open>An error of a child that has not spawned: no turn ran, and its end is not reported.\<close>

definition spawn_failed :: "claude \<Rightarrow> claude" where
  "spawn_failed s = s\<lparr>ca_result_seen := True\<rparr>"

definition claude_overflow :: "nat \<Rightarrow> claude \<Rightarrow> claude" where
  "claude_overflow n s =
     (if ca_result_seen s then s
      else
        terminate_child n
          (emit_event (TurnEnded StopError None) None
            (emit_event (ErrorEvent AdapterOutputOverflow ''provider stdout line exceeds the configured cap'' True) None
              (s\<lparr>ca_result_seen := True\<rparr>))))"

definition child_closed :: "nat \<Rightarrow> int option \<Rightarrow> string option \<Rightarrow> claude \<Rightarrow> claude" where
  "child_closed n code signal s =
     (if ca_child s \<noteq> Some n then s
      else
        (let s1 = tell (Exited code signal) (s\<lparr>ca_child := None, ca_pending := []\<rparr>)
         in
           if ca_result_seen s1 then s1
           else emit_event (TurnEnded (if ca_kill_requested s1 then StopInterrupted else StopProcessExit) None) None s1))"

definition claude_respond ::
  "request_id \<Rightarrow> permission_decision \<Rightarrow> string option \<Rightarrow> claude \<Rightarrow> claude \<times> adapter_error option" where
  "claude_respond i decision reason s =
     (if ca_child s = None then (s, Some NoChild)
      else
        (case jget (ca_pending s) i of
           None \<Rightarrow> (s, None)
         | Some c \<Rightarrow>
             (let (s1, wrote) =
                write_line
                  (case decision of
                     Allow \<Rightarrow> AllowTool i c
                   | Deny \<Rightarrow> DenyTool i c (case reason of None \<Rightarrow> ''Denied by operator'' | Some r \<Rightarrow> r))
                  (s\<lparr>ca_pending := jdel (ca_pending s) i\<rparr>)
              in (s1, if wrote then None else Some (WriteFailed ''stdin not writable'')))))"

text \<open>\<open>has_pid\<close>: a child that could not be spawned has none.\<close>

definition claude_kill :: "bool \<Rightarrow> claude \<Rightarrow> claude" where
  "claude_kill has_pid s =
     (case ca_child s of
        None \<Rightarrow> s
      | Some n \<Rightarrow> if \<not> has_pid then s else terminate_child n (s\<lparr>ca_kill_requested := True\<rparr>))"

section \<open>Events\<close>

text \<open>
  A line, an overflow and the close name the child they come from. The adapter asks only the close for
  it: a line is mapped whichever child it came from.
\<close>

datatype claude_event =
    ClSend "string option" spawn_attempt
  | ClSpawned int string "json list"
  | ClSpawnFailed
  | ClLine nat "json option"
  | ClOverflow nat
  | ClStdinLost
  | ClClosed nat "int option" "string option"
  | ClRespond request_id permission_decision "string option"
  | ClKill bool

fun claude_step :: "claude_config \<Rightarrow> claude_event \<Rightarrow> claude \<Rightarrow> claude" where
  "claude_step cg (ClSend resume attempt) s = fst (claude_send ''claude'' resume attempt s)"
| "claude_step cg (ClSpawned pid im content) s = fst (child_spawned cg pid im content s)"
| "claude_step cg ClSpawnFailed s = spawn_failed s"
| "claude_step cg (ClLine n line) s = handle_line cg line s"
| "claude_step cg (ClOverflow n) s = claude_overflow n s"
| "claude_step cg ClStdinLost s = s\<lparr>ca_stdin := StdinDestroyed\<rparr>"
| "claude_step cg (ClClosed n code signal) s = child_closed n code signal s"
| "claude_step cg (ClRespond i decision reason) s = fst (claude_respond i decision reason s)"
| "claude_step cg (ClKill has_pid) s = claude_kill has_pid s"

definition claude_run :: "claude_config \<Rightarrow> claude_event list \<Rightarrow> claude \<Rightarrow> claude" where
  "claude_run cg es s = fold (claude_step cg) es s"

section \<open>Every turn is ended\<close>

definition ends_turn :: "adapter_notification \<Rightarrow> bool" where
  "ends_turn n \<longleftrightarrow> (case n of AdapterEvent e \<Rightarrow> (case ae_data e of TurnEnded _ _ \<Rightarrow> True | _ \<Rightarrow> False) | _ \<Rightarrow> False)"

definition may_report :: "adapter_notification \<Rightarrow> bool" where
  "may_report n \<longleftrightarrow> (case n of AdapterEvent e \<Rightarrow> adapter_emitted (ae_data e) | _ \<Rightarrow> True)"

text \<open>
  What the mapping of a record may do: it adds notifications an adapter may report, keeps the child,
  and takes the turn for ended only with its end among what it adds. A request it holds for an answer
  is one it has reported.
\<close>

definition asked :: "adapter_notification list \<Rightarrow> request_id \<Rightarrow> call_id \<Rightarrow> bool" where
  "asked ns i c \<longleftrightarrow>
     (\<exists>e r. AdapterEvent e \<in> set ns \<and> ae_data e = PermissionRequest r \<and> pr_request_id r = i \<and> pr_call_id r = c)"

definition pending_asked :: "claude \<Rightarrow> bool" where
  "pending_asked s \<longleftrightarrow>
     (\<forall>i c. jget (ca_pending s) i = Some c \<longrightarrow> asked (ca_notes s) i c)"

definition grows :: "claude \<Rightarrow> claude \<Rightarrow> bool" where
  "grows s s' \<longleftrightarrow>
     (\<exists>ns. ca_notes s' = ca_notes s @ ns \<and> list_all may_report ns \<and>
        (ca_result_seen s' \<and> \<not> ca_result_seen s \<longrightarrow> list_ex ends_turn ns)) \<and>
     (ca_result_seen s \<longrightarrow> ca_result_seen s') \<and> ca_child s' = ca_child s \<and> ca_writes s' = ca_writes s \<and>
     (pending_asked s \<longrightarrow> pending_asked s')"

lemma grows_refl [simp]: "grows s s"
  by (auto simp: grows_def)

lemma grows_trans: "grows s t \<Longrightarrow> grows t u \<Longrightarrow> grows s u"
  unfolding grows_def by (elim conjE exE) (rule conjI, rule exI, auto)

lemma asked_append: "asked ns i c \<Longrightarrow> asked (ns @ ns') i c"
  by (auto simp: asked_def)

lemma pending_asked_emit: "pending_asked s \<Longrightarrow> pending_asked (tell n s)"
  by (auto simp: pending_asked_def tell_def asked_append)

lemma grows_tell: "may_report n \<Longrightarrow> grows s (tell n s)"
  using pending_asked_emit [of s n] by (simp add: grows_def) (simp add: tell_def)

lemma grows_emit: "adapter_emitted d \<Longrightarrow> grows s (emit_event d raw s)"
  unfolding emit_event_def by (rule grows_tell) (simp add: may_report_def)

lemma grows_terminate: "grows s (terminate_child n s)"
  by (auto simp: grows_def terminate_child_def pending_asked_def)

lemma grows_unknown: "grows s (unknown_record m rec s)"
  unfolding unknown_record_def by (rule grows_emit) simp

lemma grows_ends: "grows s (emit_event (TurnEnded r u) raw (s\<lparr>ca_result_seen := True, ca_stdin := st\<rparr>))"
  using pending_asked_emit [of s] by (auto simp: grows_def emit_event_def tell_def may_report_def ends_turn_def pending_asked_def)

lemma grows_fail: "grows s (fail_schema_mismatch detail rec s)"
proof -
  let ?s1 = "emit_event (ErrorEvent AdapterSchemaMismatch detail True) (Some rec) s"
  have 1: "grows s ?s1" by (rule grows_emit) simp
  have "grows ?s1 (if ca_result_seen ?s1 then ?s1 else emit_event (TurnEnded StopError None) None (?s1\<lparr>ca_result_seen := True\<rparr>))"
    using grows_ends [of ?s1 StopError None None "ca_stdin ?s1"] by simp
  moreover have "grows t (terminate_current t)" for t
    by (simp add: terminate_current_def grows_terminate split: option.split)
  ultimately show ?thesis
    unfolding fail_schema_mismatch_def Let_def by (blast intro: grows_trans 1)
qed

named_theorems grows_intros

lemmas grows_basic [grows_intros] = grows_refl grows_unknown grows_fail

lemma grows_after_emit: "grows (emit_event d raw s) t \<Longrightarrow> adapter_emitted d \<Longrightarrow> grows s t"
  by (rule grows_trans [OF grows_emit])

lemma grows_assistant_blocks: "grows s (assistant_blocks cg rec bs s)"
proof (induction bs arbitrary: s)
  case (Cons b bs)
  have "grows s (assistant_blocks cg rec bs (emit_event d raw s))" if "adapter_emitted d" for d raw
    using Cons that by (rule grows_after_emit)
  then show ?case
    by (simp add: Let_def grows_fail Cons split: option.split sum.split)
qed simp

lemma grows_user_blocks: "grows s (user_blocks cg rec bs s)"
proof (induction bs arbitrary: s)
  case (Cons b bs)
  have "grows s (user_blocks cg rec bs (emit_event (tool_result_of i r t h) raw s))" for i r t h raw
    using Cons by (rule grows_after_emit) (simp add: tool_result_of_def)
  then show ?case
    by (simp add: grows_fail thrown_def Cons split: option.split)
qed simp

lemma grows_usage: "grows s (s\<lparr>ca_last_usage := i\<rparr>)" "grows s (s\<lparr>ca_cli_session := i\<rparr>)"
  by (auto simp: grows_def pending_asked_def)

lemma grows_handle_assistant: "grows s (handle_assistant cg rec s)"
proof -
  have reported: "grows s (emit_event (UsageEvent u) (Some rec) (s\<lparr>ca_last_usage := i\<rparr>))" for u i
    by (rule grows_trans [OF grows_usage(1) grows_emit]) simp
  show ?thesis
    by (auto simp: handle_assistant_def Let_def grows_fail grows_assistant_blocks
        intro: grows_trans [OF reported grows_fail] grows_trans [OF reported grows_assistant_blocks] split: sum.split option.split)
qed

lemma grows_handle_user: "grows s (handle_user cg rec s)"
  by (simp add: handle_user_def grows_fail grows_user_blocks split: sum.split)

lemma grows_handle_system: "grows s (handle_system cg rec s)"
proof -
  have "grows s (emit_event (SessionNotice Info Compaction m) (Some rec) (s\<lparr>ca_last_usage := None\<rparr>))" for m
    by (rule grows_trans [OF grows_usage(1) grows_emit]) simp
  moreover have "grows s (tell (CliSession i) (s\<lparr>ca_cli_session := Some i\<rparr>))" for i
    by (rule grows_trans [OF grows_usage(2) grows_tell]) (simp add: may_report_def)
  ultimately show ?thesis
    by (simp add: handle_system_def Let_def grows_fail grows_unknown grows_emit split: option.split sum.split prod.split)
qed

lemma grows_handle_control_request: "grows s (handle_control_request cg rec s)"
proof -
  have "grows s (emit_event (PermissionRequest r) (Some rec) (s\<lparr>ca_pending := jset (ca_pending s) (pr_request_id r) (pr_call_id r)\<rparr>))" for r
  proof -
    have "asked (ca_notes s @ [AdapterEvent \<lparr>ae_data = PermissionRequest r, ae_raw = Some rec\<rparr>]) (pr_request_id r) (pr_call_id r)"
      by (auto simp: asked_def)
    then show ?thesis
      by (auto simp: grows_def emit_event_def tell_def may_report_def pending_asked_def jget_jset asked_append)
  qed
  from this [of "\<lparr>pr_request_id = i, pr_call_id = c, pr_tool = t, pr_input = inp, pr_match_target = m, pr_suggestions = sg\<rparr>" for i c t inp m sg]
  show ?thesis
    by (simp add: handle_control_request_def grows_fail grows_unknown split: sum.split option.split)
qed

lemma grows_handle_stream_event: "grows s (handle_stream_event cg rec s)"
  by (simp add: handle_stream_event_def Let_def grows_unknown grows_emit split: option.split)

lemma grows_handle_record: "grows s (handle_record cg rec s)"
  by (simp add: handle_record_def thrown_def grows_fail grows_unknown grows_handle_system grows_handle_assistant
      grows_handle_user grows_handle_control_request grows_handle_stream_event handle_result_def grows_ends split: option.split)

lemma grows_line: "grows s (handle_line cg line s)"
  by (simp add: handle_line_def grows_emit grows_handle_record split: option.split)

lemma grows_overflow: "grows s (claude_overflow n s)"
proof -
  let ?s1 = "emit_event (ErrorEvent AdapterOutputOverflow ''provider stdout line exceeds the configured cap'' True) None s"
  have "grows s ?s1" by (rule grows_emit) simp
  moreover have "grows ?s1 (emit_event (TurnEnded StopError None) None (?s1\<lparr>ca_result_seen := True\<rparr>))"
    using grows_ends [of ?s1 StopError None None "ca_stdin ?s1"] by simp
  moreover have "emit_event e None (s\<lparr>ca_result_seen := True\<rparr>) = (emit_event e None s)\<lparr>ca_result_seen := True\<rparr>" for e
    by (simp add: emit_event_def tell_def)
  ultimately show ?thesis
    by (auto simp: claude_overflow_def intro: grows_trans grows_terminate)
qed

text \<open>The events of one turn, its child running: no other send, no close and no failure to spawn.\<close>

fun within_turn :: "claude_event \<Rightarrow> bool" where
  "within_turn (ClSend _ _) = False"
| "within_turn ClSpawnFailed = False"
| "within_turn (ClClosed _ _ _) = False"
| "within_turn _ = True"

definition turn_kept :: "nat \<Rightarrow> nat \<Rightarrow> claude \<Rightarrow> bool" where
  "turn_kept n k s \<longleftrightarrow>
     ca_child s = Some n \<and> k \<le> length (ca_notes s) \<and> list_all may_report (drop k (ca_notes s)) \<and>
     (ca_result_seen s \<longrightarrow> list_ex ends_turn (drop k (ca_notes s)))"

lemma turn_kept_grows: "turn_kept n k s \<Longrightarrow> grows s s' \<Longrightarrow> turn_kept n k s'"
  unfolding turn_kept_def grows_def by auto

lemma turn_kept_same:
  "turn_kept n k s \<Longrightarrow> ca_child s' = ca_child s \<Longrightarrow> ca_notes s' = ca_notes s \<Longrightarrow> ca_result_seen s' = ca_result_seen s \<Longrightarrow>
   turn_kept n k s'"
  by (simp add: turn_kept_def)

lemma write_line_same:
  "ca_child (fst (write_line w s)) = ca_child s" "ca_notes (fst (write_line w s)) = ca_notes s"
  "ca_result_seen (fst (write_line w s)) = ca_result_seen s" "ca_pending (fst (write_line w s)) = ca_pending s"
  by (simp_all add: write_line_def split: option.split stdin_state.split)

lemma turn_kept_step: "turn_kept n k s \<Longrightarrow> within_turn e \<Longrightarrow> turn_kept n k (claude_step cg e s)"
proof (cases e)
  case (ClSpawned pid im content)
  assume kept: "turn_kept n k s"
  have "grows s (tell (Spawned pid p im) s)" for p by (rule grows_tell) (simp add: may_report_def)
  note told = turn_kept_grows [OF kept this]
  have "turn_kept n k (fst (write_line w (tell (Spawned pid p im) s)))" for w p
    by (rule turn_kept_same [OF told]) (simp_all add: write_line_same)
  with ClSpawned show ?thesis by (simp add: child_spawned_def Let_def split: prod.split) (metis fst_conv)
next
  case (ClLine m line)
  assume "turn_kept n k s" with ClLine show ?thesis by (simp add: turn_kept_grows [OF _ grows_line])
next
  case (ClOverflow m)
  assume "turn_kept n k s" with ClOverflow show ?thesis by (simp add: turn_kept_grows [OF _ grows_overflow])
next
  case (ClRespond i decision reason)
  assume kept: "turn_kept n k s"
  have "turn_kept n k (fst (write_line w (s\<lparr>ca_pending := p\<rparr>)))" for w p
    by (rule turn_kept_same [OF kept]) (simp_all add: write_line_same)
  with ClRespond kept show ?thesis
    by (simp add: claude_respond_def Let_def split: option.split prod.split) (metis fst_conv)
next
  case (ClKill has_pid)
  assume kept: "turn_kept n k s"
  then show ?thesis
    unfolding ClKill claude_step.simps claude_kill_def
    by (auto simp: terminate_child_def turn_kept_def split: option.split)
qed (auto simp: turn_kept_def)

lemma turn_kept_run: "turn_kept n k s \<Longrightarrow> list_all within_turn es \<Longrightarrow> turn_kept n k (claude_run cg es s)"
  unfolding claude_run_def by (induction es arbitrary: s) (simp_all add: turn_kept_step)

lemma turn_kept_sent:
  "claude_send executable resume (SpawnedChild n) s = (t, None) \<Longrightarrow> turn_kept n (length (ca_notes s)) t"
  by (auto simp: claude_send_def Let_def turn_kept_def split: option.splits if_splits)

text \<open>
  A turn whose child has spawned is ended: whatever lines the child writes, in whatever order they
  come with answers, an interrupt and the loss of its input, once it has closed the runtime has been
  told of the turn's end, and of nothing an adapter may not report.
\<close>

theorem claude_turn_is_ended:
  assumes "claude_send executable resume (SpawnedChild n) s = (t, None)"
    and "list_all within_turn es"
  shows "\<exists>ns. ca_notes (child_closed n code signal (claude_run cg es t)) = ca_notes s @ ns \<and>
    list_ex ends_turn ns \<and> Exited code signal \<in> set ns \<and> list_all may_report ns"
proof -
  let ?k = "length (ca_notes s)"
  let ?u = "claude_run cg es t"
  have kept: "turn_kept n ?k ?u" using turn_kept_run [OF turn_kept_sent [OF assms(1)] assms(2)] .
  have prefix: "take ?k (ca_notes ?u) = ca_notes s"
  proof -
    have "ca_notes t = ca_notes s" using assms(1) by (auto simp: claude_send_def Let_def split: option.splits if_splits)
    moreover have "\<exists>ns. ca_notes (claude_run cg es v) = ca_notes v @ ns" if "list_all within_turn es" for es v
      unfolding claude_run_def using that
    proof (induction es arbitrary: v)
      case (Cons e es)
      have "\<exists>ns. ca_notes (claude_step cg e v) = ca_notes v @ ns"
        using Cons.prems grows_line grows_overflow
        by (cases e) (auto simp: grows_def child_spawned_def claude_respond_def claude_kill_def terminate_child_def tell_def
            write_line_same Let_def case_prod_unfold split: option.split, metis, metis)
      with Cons.IH [of "claude_step cg e v"] Cons.prems show ?case by auto
    qed simp
    ultimately show ?thesis using assms(2) by (metis append_eq_conv_conj)
  qed
  let ?ns = "drop ?k (ca_notes ?u)"
  have told: "ca_notes ?u = ca_notes s @ ?ns" using prefix by (metis append_take_drop_id)
  show ?thesis
  proof (cases "ca_result_seen ?u")
    case True
    then have "ca_notes (child_closed n code signal ?u) = ca_notes s @ (?ns @ [Exited code signal])"
      using kept told by (simp add: child_closed_def turn_kept_def tell_def Let_def)
    with kept True show ?thesis by (intro exI) (auto simp: turn_kept_def may_report_def)
  next
    case False
    then obtain r where "ca_notes (child_closed n code signal ?u) =
        ca_notes s @ (?ns @ [Exited code signal, AdapterEvent \<lparr>ae_data = TurnEnded r None, ae_raw = None\<rparr>])"
      using kept told by (simp add: child_closed_def turn_kept_def tell_def emit_event_def Let_def)
    with kept show ?thesis by (intro exI) (auto simp: turn_kept_def may_report_def ends_turn_def)
  qed
qed

definition example_claude :: claude_config where
  "example_claude = \<lparr>cg_string = (\<lambda>_. ''?''), cg_persist_reasoning = True, cg_windows = False\<rparr>"

definition message_line :: "json option" where
  "message_line =
     Some (JObj [(''type'', JStr ''assistant''),
       (''message'', JObj [(''content'', JArr [JObj [(''type'', JStr ''text''), (''text'', JStr ''hi'')]])])])"

theorem claude_turn_is_ended_witness:
  "\<exists>ns. ca_notes (child_closed 7 (Some 1) None
       (claude_run example_claude [ClSpawned 7 ''claude'' [], ClLine 7 message_line, ClKill True]
         (fst (claude_send ''claude'' None (SpawnedChild 7) claude_fresh)))) = ca_notes claude_fresh @ ns \<and>
     list_ex ends_turn ns \<and> Exited (Some 1) None \<in> set ns \<and> list_all may_report ns"
  by (rule claude_turn_is_ended [where executable = "''claude''" and resume = None]) (simp_all add: claude_send_def Let_def)

section \<open>Only what was asked is answered\<close>

lemma claude_step_notes: "\<exists>ns. ca_notes (claude_step cg e s) = ca_notes s @ ns"
proof (cases e)
  case (ClLine m line)
  with grows_line [of s cg line] show ?thesis by (auto simp: grows_def)
next
  case (ClOverflow m)
  with grows_overflow [of s m] show ?thesis by (auto simp: grows_def)
qed (auto simp: claude_send_def child_spawned_def claude_respond_def claude_kill_def terminate_child_def tell_def
    write_line_same spawn_failed_def child_closed_def emit_event_def Let_def case_prod_unfold split: option.split spawn_attempt.split)

lemma write_line_writes:
  "ca_writes (fst (write_line w s)) = ca_writes s \<or> (\<exists>n. ca_writes (fst (write_line w s)) = ca_writes s @ [(n, w)])"
  by (auto simp: write_line_def split: option.split stdin_state.split)

lemma claude_step_writes:
  "ca_writes (claude_step cg e s) = ca_writes s \<or>
   (\<exists>n w. ca_writes (claude_step cg e s) = ca_writes s @ [(n, w)] \<and>
     (\<forall>i c. w = AllowTool i c \<longrightarrow> jget (ca_pending s) i = Some c \<and> (\<exists>r. e = ClRespond i Allow r)))"
proof (cases e)
  case (ClLine m line)
  with grows_line [of s cg line] show ?thesis by (auto simp: grows_def)
next
  case (ClOverflow m)
  with grows_overflow [of s m] show ?thesis by (auto simp: grows_def)
next
  case (ClSpawned pid im content)
  with write_line_writes [of "UserMessage i content" "tell (Spawned pid p im) s" for i p] show ?thesis
    by (simp add: child_spawned_def Let_def case_prod_unfold tell_def) (metis claude_write.distinct(1))
next
  case (ClRespond i decision reason)
  with write_line_writes [of w "s\<lparr>ca_pending := p\<rparr>" for w p] show ?thesis
    by (cases decision) (simp_all add: claude_respond_def Let_def case_prod_unfold split: option.split, metis claude_write.inject(2),
      metis claude_write.distinct(5))
qed (auto simp: claude_send_def claude_kill_def terminate_child_def tell_def spawn_failed_def child_closed_def
    emit_event_def Let_def split: option.split spawn_attempt.split)

lemma claude_step_pending: "pending_asked s \<Longrightarrow> pending_asked (claude_step cg e s)"
proof (cases e)
  case (ClLine m line)
  assume "pending_asked s" with ClLine grows_line [of s cg line] show ?thesis by (auto simp: grows_def)
next
  case (ClOverflow m)
  assume "pending_asked s" with ClOverflow grows_overflow [of s m] show ?thesis by (auto simp: grows_def)
qed (auto simp: claude_send_def child_spawned_def claude_respond_def claude_kill_def terminate_child_def tell_def
    write_line_same spawn_failed_def child_closed_def emit_event_def pending_asked_def jget_jdel asked_append Let_def case_prod_unfold
    split: option.split spawn_attempt.split if_splits)

lemma claude_run_snoc: "claude_run cg (es @ [e]) s = claude_step cg e (claude_run cg es s)"
  by (simp add: claude_run_def)

lemma claude_run_pending: "pending_asked (claude_run cg es claude_fresh)"
proof (induction es rule: rev_induct)
  case Nil
  show ?case by (simp add: claude_run_def claude_fresh_def pending_asked_def)
qed (simp add: claude_run_snoc claude_step_pending)

text \<open>
  A tool is allowed on a child's input only for a request that was reported, under the call it was
  reported with, and only by an operator's answer that allows it, in whatever order lines, answers,
  interrupts, ends and new turns come.
\<close>

theorem claude_allows_only_what_was_asked:
  assumes "(n, AllowTool i c) \<in> set (ca_writes (claude_run cg es claude_fresh))"
  shows "asked (ca_notes (claude_run cg es claude_fresh)) i c \<and> (\<exists>r. ClRespond i Allow r \<in> set es)"
  using assms
proof (induction es rule: rev_induct)
  case Nil
  then show ?case by (simp add: claude_run_def claude_fresh_def)
next
  case (snoc e es)
  let ?s = "claude_run cg es claude_fresh"
  obtain ns where ns: "ca_notes (claude_step cg e ?s) = ca_notes ?s @ ns" using claude_step_notes by blast
  show ?case
  proof (cases "(n, AllowTool i c) \<in> set (ca_writes ?s)")
    case True
    with snoc.IH ns show ?thesis by (auto simp: claude_run_snoc asked_append)
  next
    case False
    with claude_step_writes [of cg e ?s] snoc.prems obtain r where "jget (ca_pending ?s) i = Some c" "e = ClRespond i Allow r"
      by (auto simp: claude_run_snoc)
    with claude_run_pending [of cg es] ns show ?thesis by (auto simp: claude_run_snoc pending_asked_def asked_append)
  qed
qed

definition permission_line :: "json option" where
  "permission_line =
     Some (JObj [(''type'', JStr ''control_request''), (''request_id'', JStr ''r1''),
       (''request'', JObj [(''subtype'', JStr ''can_use_tool''), (''tool_use_id'', JStr ''t1''), (''tool_name'', JStr ''Bash'')])])"

definition claude_answered_run :: "claude_event list" where
  "claude_answered_run = [ClSend None (SpawnedChild 7), ClLine 7 permission_line, ClRespond ''r1'' Allow None]"

theorem claude_allows_only_what_was_asked_witness:
  "asked (ca_notes (claude_run example_claude claude_answered_run claude_fresh)) ''r1'' ''t1'' \<and>
   (\<exists>r. ClRespond ''r1'' Allow r \<in> set claude_answered_run)"
proof (rule claude_allows_only_what_was_asked)
  show "(7, AllowTool ''r1'' ''t1'') \<in> set (ca_writes (claude_run example_claude claude_answered_run claude_fresh))"
    by (simp add: claude_answered_run_def permission_line_def claude_run_def claude_send_def claude_fresh_def handle_line_def
        handle_record_def handle_control_request_def ignored_top_level_types_def jprop_def text_of_def object_or_absent_def
        jget_def jset_def emit_event_def tell_def claude_respond_def write_line_def Let_def project_match_target_def)
qed

section \<open>What the mapping does not look at\<close>

text \<open>
  A child that has been replaced by the next turn's can still have lines to deliver. One that does not
  fit ends the turn that runs now and terminates its child, not the one the line came from.
\<close>

lemma late_line_ends_the_next_turn:
  assumes "ca_child s = Some m" "\<not> ca_result_seen s"
  shows "ca_terminated (claude_step cg (ClLine n (Some JNull)) s) = ca_terminated s @ [m]"
    and "ends_turn (last (ca_notes (claude_step cg (ClLine n (Some JNull)) s)))"
  using assms
  by (simp_all add: handle_line_def handle_record_def thrown_def fail_schema_mismatch_def emit_event_def tell_def
      terminate_current_def terminate_child_def ends_turn_def Let_def)

text \<open>A result that follows a line that did not fit ends the turn a second time.\<close>

lemma result_after_mismatch_ends_twice:
  assumes "\<not> ca_result_seen s"
  shows "length (filter ends_turn (ca_notes (claude_run cg
      [ClLine n (Some JNull), ClLine n (Some (JObj [(''type'', JStr ''result'')]))] s))) =
    length (filter ends_turn (ca_notes s)) + 2"
  using assms
  by (simp add: claude_run_def handle_line_def handle_record_def thrown_def fail_schema_mismatch_def emit_event_def tell_def
      terminate_current_def terminate_child_def ends_turn_def handle_result_def ignored_top_level_types_def jprop_def
      text_of_def jget_def Let_def split: option.split)

end
