(* ===== verification/Codex_Adapter.thy ===== *)
theory Codex_Adapter
  imports Claude_Adapter
begin

text \<open>
  The adapter of the Codex command line (\<open>src/agent-console/providers/codex-cli/index.ts\<close>). One turn
  of its JSON-RPC transport, \<open>app-server\<close>: the handshake, the mapping of every notification, the
  approvals, and the end of the child. What a line does that throws is not caught anywhere in the
  source, and ends the process of the server.
\<close>

section \<open>Path segments\<close>

definition reserved_names :: "string list" where
  "reserved_names =
     [''con'', ''prn'', ''aux'', ''nul''] @
     concat (map (\<lambda>p. map (\<lambda>c. p @ [c]) (''123456789'' @ [CHR 0xB9, CHR 0xB2, CHR 0xB3])) [''com'', ''lpt''])"

text \<open>Characters up to U+00FF are their own normal form.\<close>

definition is_safe_path_segment :: "string \<Rightarrow> bool" where
  "is_safe_path_segment name \<longleftrightarrow>
     name \<noteq> [] \<and> name \<noteq> ''.'' \<and> name \<noteq> ''..'' \<and>
     list_all (\<lambda>c. c \<notin> {CHR 0x5C, CHR ''/'', CHR 0x00, CHR '':''}) name \<and>
     last name \<notin> {CHR ''.'', CHR '' ''} \<and>
     map lower_char (takeWhile (\<lambda>c. c \<noteq> CHR ''.'') name) \<notin> set reserved_names"

section \<open>State\<close>

datatype rpc_id = RpcNumber int | RpcText string

datatype codex_write = RpcCall int string | ApprovalAnswer rpc_id bool

datatype rpc_outcome = RpcResult "json option" | RpcRefused string | RpcFailed string

text \<open>Where the handshake waits: for the answer to its call, or not any more.\<close>

datatype handshake_phase = HandInitialize | HandResume string | HandStart | HandTurn | HandDone

text \<open>
  \<open>xr_child\<close> is the adapter's current child, which a later turn replaces; \<open>xr_sent\<close> is what \<open>send\<close> has
  resolved with; \<open>xr_reply\<close> is an answer whose \<open>await\<close> has not resumed. The variables of both transports'
  turns are here: the \<open>exec\<close> transport only adds \<open>xr_dropped\<close>, and knows no calls and no approvals.
\<close>

record codex_run =
  xr_proc :: nat
  xr_child :: "nat option"
  xr_kill_requested :: bool
  xr_sent :: "adapter_error option option"
  xr_result_seen :: bool
  xr_seq :: int
  xr_phase :: handshake_phase
  xr_pending :: "int option"
  xr_reply :: "rpc_outcome option"
  xr_patches :: "(string, json) jmap"
  xr_approvals :: "(request_id, rpc_id) jmap"
  xr_seen :: "rpc_id list"
  xr_dropped :: "json option list"
  xr_stdin_open :: bool
  xr_closed :: bool
  xr_notes :: "adapter_notification list"
  xr_writes :: "codex_write list"
  xr_terminated :: "nat list"
  xr_crashed :: bool

record codex_config =
  xc_string :: "json \<Rightarrow> string"
  xc_persist_reasoning :: bool
  xc_windows :: bool
  xc_executable :: string

definition settled :: "codex_run \<Rightarrow> bool" where
  "settled s \<longleftrightarrow> xr_sent s \<noteq> None"

definition settle_send :: "adapter_error option \<Rightarrow> codex_run \<Rightarrow> codex_run" where
  "settle_send r s = (if settled s then s else s\<lparr>xr_sent := Some r\<rparr>)"

definition report :: "payload \<Rightarrow> json option \<Rightarrow> codex_run \<Rightarrow> codex_run" where
  "report d raw s = s\<lparr>xr_notes := xr_notes s @ [AdapterEvent \<lparr>ae_data = d, ae_raw = raw\<rparr>]\<rparr>"

definition kill_child :: "codex_run \<Rightarrow> codex_run" where
  "kill_child s = (case xr_child s of None \<Rightarrow> s | Some n \<Rightarrow> s\<lparr>xr_terminated := xr_terminated s @ [n]\<rparr>)"

definition shown :: "(json \<Rightarrow> string) \<Rightarrow> json option \<Rightarrow> string" where
  "shown f v = (case v of None \<Rightarrow> [] | Some JNull \<Rightarrow> [] | Some (JStr s) \<Rightarrow> s | Some w \<Rightarrow> f w)"

definition as_template :: "(json \<Rightarrow> string) \<Rightarrow> json option \<Rightarrow> string" where
  "as_template f v = (case v of None \<Rightarrow> ''undefined'' | Some (JStr s) \<Rightarrow> s | Some w \<Rightarrow> f w)"

text \<open>\<open>failSchemaMismatch\<close>: a turn that send has opened is ended here, after the kill.\<close>

definition mismatch :: "string \<Rightarrow> json \<Rightarrow> codex_run \<Rightarrow> codex_run" where
  "mismatch detail rec s =
     (let s1 = (report (ErrorEvent AdapterSchemaMismatch detail True) (Some rec) s)\<lparr>xr_approvals := []\<rparr>;
          turn_open = (settled s1 \<and> \<not> xr_result_seen s1);
          s2 = kill_child (settle_send (Some (SchemaMismatch detail)) (s1\<lparr>xr_result_seen := True\<rparr>))
      in if turn_open then report (TurnEnded StopError None) None s2 else s2)"

definition crash :: "codex_run \<Rightarrow> codex_run" where
  "crash s = s\<lparr>xr_crashed := True\<rparr>"

definition can_write :: "codex_run \<Rightarrow> bool" where
  "can_write s \<longleftrightarrow>
     xr_child s = Some (xr_proc s) \<and> xr_stdin_open s \<and> \<not> xr_kill_requested s \<and> \<not> xr_result_seen s"

section \<open>Items\<close>

definition safe_item_id :: "json option \<Rightarrow> string option" where
  "safe_item_id v = (case text_of v of Some i \<Rightarrow> if is_safe_path_segment i then Some i else None | None \<Rightarrow> None)"

definition ignored_item_types :: "string list" where
  "ignored_item_types = [''userMessage'']"

definition summarise_command :: "string \<Rightarrow> string" where
  "summarise_command c = take 200 (first_line c)"

text \<open>The changes last proposed for an item, kept as they were sent.\<close>

definition proposed :: "codex_run \<Rightarrow> string \<Rightarrow> file_change list" where
  "proposed s i = (case file_changes_of (jget (xr_patches s) i) of None \<Rightarrow> [] | Some cs \<Rightarrow> cs)"

text \<open>A falsy item is none.\<close>

definition item_of :: "json \<Rightarrow> json option" where
  "item_of params = (if truthy (jprop params ''item'') then jprop params ''item'' else None)"

definition patch_summary :: "file_change list \<Rightarrow> string" where
  "patch_summary cs = joined_with '', '' (map (\<lambda>c. change_kind_name (fc_kind c) @ '': '' @ fc_path c) cs)"

definition item_started :: "codex_config \<Rightarrow> json \<Rightarrow> json \<Rightarrow> codex_run \<Rightarrow> codex_run" where
  "item_started xc params rec s =
     (case item_of params of
        None \<Rightarrow> mismatch ''item/started carried no item'' rec s
      | Some item \<Rightarrow>
          (let t = text_of (jprop item ''type'')
           in
             if t = Some ''fileChange'' then
               (case (safe_item_id (jprop item ''id''), file_changes_of (jprop item ''changes'')) of
                  (Some i, Some cs) \<Rightarrow>
                    report
                      (ToolCall \<lparr>tc_call_id = i, tc_name = ''apply_patch'',
                         tc_input = JObj [(''changes'', the (jprop item ''changes''))], tc_summary = patch_summary cs\<rparr>)
                      (Some rec) (s\<lparr>xr_patches := jset (xr_patches s) i (the (jprop item ''changes''))\<rparr>)
                | _ \<Rightarrow> mismatch ''fileChange carried an invalid id or changes'' rec s)
             else if t = Some ''commandExecution'' then
               (let command = shown (xc_string xc) (jprop item ''command'')
                in report
                     (ToolCall \<lparr>tc_call_id = shown (xc_string xc) (jprop item ''id''), tc_name = ''exec'',
                        tc_input = JObj [(''command'', JStr command)], tc_summary = summarise_command command\<rparr>)
                     (Some rec) s)
             else if t \<in> {Some ''agentMessage'', Some ''reasoning''} then s
             else if as_template (xc_string xc) (jprop item ''type'') \<in> set ignored_item_types then s
             else mismatch (''unrecognised item type on item/started: '' @ as_template (xc_string xc) (jprop item ''type'')) rec s))"

text \<open>
  The parts of a reasoning item: an array of strings, empty where it is absent; none where the code's
  \<open>join\<close> does not exist.
\<close>

definition reasoning_parts :: "(json \<Rightarrow> string) \<Rightarrow> json option \<Rightarrow> string list option" where
  "reasoning_parts f v =
     (case v of
        None \<Rightarrow> Some []
      | Some JNull \<Rightarrow> Some []
      | Some (JArr vs) \<Rightarrow> Some (map (\<lambda>w. shown f (Some w)) vs)
      | Some _ \<Rightarrow> None)"

definition nonempty_text :: "json option \<Rightarrow> bool" where
  "nonempty_text v \<longleftrightarrow> (case v of Some (JStr t) \<Rightarrow> t \<noteq> [] | Some (JArr vs) \<Rightarrow> vs \<noteq> [] | _ \<Rightarrow> False)"

definition item_completed :: "codex_config \<Rightarrow> json \<Rightarrow> json \<Rightarrow> codex_run \<Rightarrow> codex_run" where
  "item_completed xc params rec s =
     (case item_of params of
        None \<Rightarrow> mismatch ''item/completed carried no item'' rec s
      | Some item \<Rightarrow>
          (let t = text_of (jprop item ''type''); ok = (text_of (jprop item ''status'') = Some ''completed'')
           in
             if t = Some ''fileChange'' then
               (case (safe_item_id (jprop item ''id''), file_changes_of (jprop item ''changes'')) of
                  (Some i, Some cs) \<Rightarrow>
                    if as_template (xc_string xc) (jprop item ''status'') \<notin> {''completed'', ''failed'', ''declined''}
                    then mismatch ''fileChange carried an invalid id, changes, or terminal status'' rec s
                    else
                      (let changes = (if cs \<noteq> [] then cs else proposed s i)
                       in report (tool_result_of i ok (file_change_output changes) (file_changes_diff changes))
                            (Some rec) (s\<lparr>xr_patches := jdel (xr_patches s) i\<rparr>))
                | _ \<Rightarrow> mismatch ''fileChange carried an invalid id, changes, or terminal status'' rec s)
             else if t = Some ''reasoning'' then
               (let v = (if nonempty_text (jprop item ''summary'') then jprop item ''summary'' else jprop item ''content'')
                in
                  case reasoning_parts (xc_string xc) v of
                    None \<Rightarrow> crash s
                  | Some ps \<Rightarrow>
                      (let txt = joined_with [line_break, line_break] ps
                       in if txt \<noteq> [] \<and> xc_persist_reasoning xc then report (Thinking txt) (Some rec) s else s))
             else if t = Some ''agentMessage'' then
               (let txt = shown (xc_string xc) (jprop item ''text'')
                in if txt \<noteq> [] then report (Message Assistant txt []) (Some rec) s else s)
             else if t = Some ''commandExecution'' then
               report
                 (tool_result_of (shown (xc_string xc) (jprop item ''id'')) ok
                   (shown (xc_string xc) (jprop item ''aggregatedOutput'')) None) (Some rec) s
             else if as_template (xc_string xc) (jprop item ''type'') \<in> set ignored_item_types then s
             else mismatch (''unrecognised item type on item/completed: '' @ as_template (xc_string xc) (jprop item ''type'')) rec s))"

section \<open>Approvals\<close>

definition rpc_id_of :: "json option \<Rightarrow> rpc_id option" where
  "rpc_id_of v =
     (case v of
        Some (JNum i) \<Rightarrow> if safe_integer i then Some (RpcNumber i) else None
      | Some (JStr t) \<Rightarrow> if t \<noteq> [] then Some (RpcText t) else None
      | _ \<Rightarrow> None)"

definition given :: "json option \<Rightarrow> bool" where
  "given v \<longleftrightarrow> (case text_of v of Some t \<Rightarrow> t \<noteq> [] | None \<Rightarrow> False)"

text \<open>\<open>fresh\<close> is the request's random identifier.\<close>

definition approval_request :: "request_id \<Rightarrow> json \<Rightarrow> codex_run \<Rightarrow> codex_run" where
  "approval_request fresh msg s =
     (case (rpc_id_of (jprop msg ''id''), jprop msg ''params'') of
        (Some i, Some (JObj input)) \<Rightarrow>
          (case safe_item_id (jget input ''itemId'') of
             None \<Rightarrow> mismatch ''approval request carried an invalid itemId or duplicate RPC id'' msg s
           | Some item \<Rightarrow>
               if i \<in> set (xr_seen s) then mismatch ''approval request carried an invalid itemId or duplicate RPC id'' msg s
               else
                 (let file_change = (text_of (jprop msg ''method'') = Some ''item/fileChange/requestApproval'')
                  in
                    if (if file_change then proposed s item = []
                        else \<not> given (jget input ''command'') \<or> \<not> given (jget input ''cwd''))
                    then mismatch ''approval request is missing the command/cwd or proposed file changes'' msg s
                    else
                      report
                        (PermissionRequest
                          \<lparr>pr_request_id = fresh, pr_call_id = item,
                           pr_tool = (if file_change then ''apply_patch'' else ''exec''),
                           pr_input = JObj (if file_change then jset input ''changes'' (the (jget (xr_patches s) item)) else input),
                           pr_match_target = None, pr_suggestions = []\<rparr>)
                        (Some msg) (s\<lparr>xr_seen := i # xr_seen s, xr_approvals := jset (xr_approvals s) fresh i\<rparr>)))
      | _ \<Rightarrow> mismatch ''approval request carried an invalid RPC id or params'' msg s)"

section \<open>Notifications\<close>

definition ignored_app_server_methods :: "string list" where
  "ignored_app_server_methods =
     [''thread/status/changed'', ''thread/archived'', ''thread/deleted'', ''thread/unarchived'', ''thread/closed'',
      ''skills/changed'', ''thread/name/updated'', ''thread/goal/updated'', ''thread/goal/cleared'',
      ''thread/environment/connected'', ''thread/environment/disconnected'', ''thread/settings/updated'',
      ''hook/started'', ''hook/completed'', ''turn/diff/updated'', ''turn/plan/updated'',
      ''item/autoApprovalReview/started'', ''item/autoApprovalReview/completed'', ''item/plan/delta'',
      ''command/exec/outputDelta'', ''process/outputDelta'', ''process/exited'',
      ''item/commandExecution/terminalInteraction'', ''item/mcpToolCall/progress'',
      ''mcpServer/oauthLogin/completed'', ''mcpServer/startupStatus/updated'', ''account/updated'',
      ''account/rateLimits/updated'', ''app/list/updated'', ''remoteControl/status/changed'',
      ''externalAgentConfig/import/progress'', ''externalAgentConfig/import/completed'', ''fs/changed'',
      ''item/reasoning/summaryPartAdded'', ''item/reasoning/textDelta'', ''thread/compacted'', ''model/rerouted'',
      ''model/verification'', ''turn/moderationMetadata'', ''model/safetyBuffering/updated'', ''warning'',
      ''guardianWarning'', ''deprecationNotice'', ''configWarning'', ''fuzzyFileSearch/sessionUpdated'',
      ''fuzzyFileSearch/sessionCompleted'', ''thread/realtime/started'', ''thread/realtime/itemAdded'',
      ''thread/realtime/transcript/delta'', ''thread/realtime/transcript/done'',
      ''thread/realtime/outputAudio/delta'', ''thread/realtime/sdp'', ''thread/realtime/error'',
      ''thread/realtime/closed'', ''windows/worldWritableWarning'', ''windowsSandbox/setupCompleted'',
      ''account/login/completed'', ''item/fileChange/outputDelta'']"

definition codex_usage :: "json \<Rightarrow> usage" where
  "codex_usage u =
     (let n = (\<lambda>k. case number_of (jprop u k) of None \<Rightarrow> 0 | Some i \<Rightarrow> i)
      in \<lparr>input_tokens = n ''inputTokens'', output_tokens = n ''outputTokens'', cache_read = n ''cachedInputTokens'',
          cache_create = n ''cacheWriteInputTokens''\<rparr>)"

definition stop_reason_of :: "json option \<Rightarrow> turn_stop_reason option" where
  "stop_reason_of v =
     (case text_of v of
        None \<Rightarrow> None
      | Some t \<Rightarrow>
          if t = ''completed'' then Some StopCompleted
          else if t = ''interrupted'' then Some StopInterrupted
          else if t = ''failed'' then Some StopError else None)"

definition turn_completed :: "codex_config \<Rightarrow> json \<Rightarrow> json \<Rightarrow> codex_run \<Rightarrow> codex_run" where
  "turn_completed xc params rec s =
     (let s1 = s\<lparr>xr_approvals := [], xr_result_seen := True\<rparr>; status = member (jprop params ''turn'') ''status''
      in
        case stop_reason_of status of
          None \<Rightarrow> mismatch (''turn/completed reported an unexpected status: '' @ as_template (xc_string xc) status) rec s1
        | Some r \<Rightarrow> kill_child (report (TurnEnded r None) (Some rec) s1))"

definition answered_id :: "json option \<Rightarrow> rpc_id \<Rightarrow> bool" where
  "answered_id v i \<longleftrightarrow>
     (case v of Some (JNum n) \<Rightarrow> i = RpcNumber n | Some (JStr t) \<Rightarrow> i = RpcText t | _ \<Rightarrow> False)"

definition handle_rpc_notification :: "codex_config \<Rightarrow> string \<Rightarrow> json \<Rightarrow> json \<Rightarrow> codex_run \<Rightarrow> codex_run" where
  "handle_rpc_notification xc m params rec s =
     (if m = ''serverRequest/resolved'' then
        s\<lparr>xr_approvals := filter (\<lambda>kv. \<not> answered_id (jprop params ''requestId'') (snd kv)) (xr_approvals s)\<rparr>
      else if m = ''thread/started'' then
        (case text_of (member (jprop params ''thread'') ''id'') of
           None \<Rightarrow> s
         | Some t \<Rightarrow> s\<lparr>xr_notes := xr_notes s @ [CliSession t]\<rparr>)
      else if m = ''turn/started'' then s
      else if m = ''item/started'' then item_started xc params rec s
      else if m = ''item/fileChange/patchUpdated'' then
        (case (safe_item_id (jprop params ''itemId''), file_changes_of (jprop params ''changes'')) of
           (Some i, Some _) \<Rightarrow> s\<lparr>xr_patches := jset (xr_patches s) i (the (jprop params ''changes''))\<rparr>
         | _ \<Rightarrow> mismatch ''patchUpdated carried an invalid itemId or changes'' rec s)
      else if m \<in> {''item/reasoning/summaryTextDelta'', ''item/commandExecution/outputDelta''} then s
      else if m = ''item/agentMessage/delta'' then
        (if given (jprop params ''delta'') then report (MessageDelta (the (text_of (jprop params ''delta'')))) (Some rec) s else s)
      else if m = ''item/completed'' then item_completed xc params rec s
      else if m = ''thread/tokenUsage/updated'' then
        (let u = member (jprop params ''tokenUsage'') ''last''
         in if truthy u then report (UsageEvent (codex_usage (the u))) (Some rec) s else s)
      else if m = ''turn/completed'' then turn_completed xc params rec s
      else if m \<in> set ignored_app_server_methods then s
      else mismatch (''unrecognised app-server notification: '' @ m) rec s)"

section \<open>Lines\<close>

definition has_member :: "json \<Rightarrow> string \<Rightarrow> bool" where
  "has_member v k \<longleftrightarrow> jprop v k \<noteq> None"

text \<open>A request, a notification or the response to a call, as the code tells them apart.\<close>

definition rpc_message :: "codex_config \<Rightarrow> request_id \<Rightarrow> json \<Rightarrow> codex_run \<Rightarrow> codex_run" where
  "rpc_message xc fresh msg s =
     (case text_of (jprop msg ''method'') of
        Some m \<Rightarrow>
          if has_member msg ''id'' then
            (if m \<in> {''item/commandExecution/requestApproval'', ''item/fileChange/requestApproval''}
             then approval_request fresh msg s
             else mismatch (''unrecognised app-server request: '' @ m) msg s)
          else
            handle_rpc_notification xc m
              (case jprop msg ''params'' of None \<Rightarrow> JObj [] | Some p \<Rightarrow> if p = JNull then JObj [] else p) msg s
      | None \<Rightarrow>
          (case number_of (jprop msg ''id'') of
             None \<Rightarrow> s
           | Some i \<Rightarrow>
               if xr_pending s \<noteq> Some i then s
               else
                 s\<lparr>xr_pending := None,
                   xr_reply := Some (if has_member msg ''error'' then RpcRefused ''rpc error'' else RpcResult (jprop msg ''result''))\<rparr>))"

text \<open>
  \<open>handleLine\<close>: none is a line that does not parse. The member access of the JSON null throws, and
  nothing catches it.
\<close>

definition rpc_line :: "codex_config \<Rightarrow> request_id \<Rightarrow> json option \<Rightarrow> codex_run \<Rightarrow> codex_run" where
  "rpc_line xc fresh line s =
     (if xr_result_seen s \<or> xr_kill_requested s \<or> xr_child s \<noteq> Some (xr_proc s) then s
      else
        (case line of
           None \<Rightarrow> report (ErrorEvent AdapterBadLine ''not JSON'' False) None s
         | Some msg \<Rightarrow> if msg = JNull then crash s else rpc_message xc fresh msg s))"

definition rpc_overflow :: "codex_run \<Rightarrow> codex_run" where
  "rpc_overflow s =
     (if xr_result_seen s then s
      else
        (let detail = ''provider stdout line exceeds the configured cap'';
             s1 = report (ErrorEvent AdapterOutputOverflow detail True) None (s\<lparr>xr_result_seen := True, xr_approvals := []\<rparr>);
             s2 = (if \<not> settled s1 then settle_send (Some (SchemaMismatch detail)) s1 else report (TurnEnded StopError None) None s1)
         in kill_child s2))"

section \<open>The handshake\<close>

definition rpc_call :: "string \<Rightarrow> handshake_phase \<Rightarrow> codex_run \<Rightarrow> codex_run" where
  "rpc_call m phase s =
     (let s1 = s\<lparr>xr_phase := phase, xr_seq := xr_seq s + 1, xr_reply := None\<rparr>
      in
        if can_write s then s1\<lparr>xr_pending := Some (xr_seq s), xr_writes := xr_writes s @ [RpcCall (xr_seq s) m]\<rparr>
        else s1\<lparr>xr_pending := None, xr_reply := Some (RpcFailed ''stdin not writable'')\<rparr>)"

text \<open>The handshake's own \<open>catch\<close>.\<close>

definition handshake_failed :: "codex_config \<Rightarrow> rpc_outcome \<Rightarrow> codex_run \<Rightarrow> codex_run" where
  "handshake_failed xc why s =
     (let s1 = s\<lparr>xr_approvals := [], xr_phase := HandDone, xr_reply := None\<rparr>;
          s2 = settle_send
                 (Some (case why of
                          RpcRefused d \<Rightarrow> SchemaMismatch d
                        | RpcFailed d \<Rightarrow> AgentUnavailable (xc_executable xc) d
                        | RpcResult _ \<Rightarrow> AgentUnavailable (xc_executable xc) ''thread/start response carried no thread.id'')) s1
      in if xr_child s2 = Some (xr_proc s2) then kill_child s2 else s2)"

definition resume_notice :: payload where
  "resume_notice =
     SessionNotice Warn ResumeUnavailable
       ''The previous conversation could not be resumed. Continuing with a fresh thread; earlier vendor context is unavailable.''"

text \<open>Where an \<open>await\<close> resumes.\<close>

definition rpc_resumed :: "codex_config \<Rightarrow> string option \<Rightarrow> codex_run \<Rightarrow> codex_run" where
  "rpc_resumed xc resume s =
     (case xr_reply s of
        None \<Rightarrow> s
      | Some r \<Rightarrow>
          (case xr_phase s of
             HandInitialize \<Rightarrow>
               (case r of
                  RpcResult _ \<Rightarrow>
                    (case resume of
                       Some i \<Rightarrow> rpc_call ''thread/resume'' (HandResume i) s
                     | None \<Rightarrow> rpc_call ''thread/start'' HandStart s)
                | _ \<Rightarrow> handshake_failed xc r s)
           | HandResume i \<Rightarrow>
               (case r of
                  RpcResult _ \<Rightarrow> rpc_call ''turn/start'' HandTurn s
                | RpcRefused _ \<Rightarrow> rpc_call ''thread/start'' HandStart (report resume_notice None s)
                | RpcFailed _ \<Rightarrow> handshake_failed xc r s)
           | HandStart \<Rightarrow>
               (case r of
                  RpcResult v \<Rightarrow>
                    if text_of (member (member v ''thread'') ''id'') = None then handshake_failed xc r s
                    else rpc_call ''turn/start'' HandTurn s
                | _ \<Rightarrow> handshake_failed xc r s)
           | HandTurn \<Rightarrow>
               (case r of
                  RpcResult _ \<Rightarrow> settle_send None (s\<lparr>xr_phase := HandDone, xr_reply := None\<rparr>)
                | _ \<Rightarrow> handshake_failed xc r s)
           | HandDone \<Rightarrow> s))"

section \<open>The child and the operator\<close>

definition codex_start :: "codex_config \<Rightarrow> nat \<Rightarrow> codex_run" where
  "codex_start xc n =
     rpc_call ''initialize'' HandInitialize
       \<lparr>xr_proc = n, xr_child = Some n, xr_kill_requested = False, xr_sent = None, xr_result_seen = False, xr_seq = 1,
        xr_phase = HandInitialize, xr_pending = None, xr_reply = None, xr_patches = [], xr_approvals = [], xr_seen = [], xr_dropped = [],
        xr_stdin_open = True, xr_closed = False, xr_notes = [], xr_writes = [], xr_terminated = [], xr_crashed = False\<rparr>"

definition codex_spawned :: "codex_config \<Rightarrow> int option \<Rightarrow> string \<Rightarrow> codex_run \<Rightarrow> codex_run" where
  "codex_spawned xc pid im s =
     s\<lparr>xr_notes := xr_notes s @
        [Spawned (case pid of None \<Rightarrow> -1 | Some p \<Rightarrow> p) (if xc_windows xc then None else pid) im]\<rparr>"

definition codex_failed :: "codex_config \<Rightarrow> string \<Rightarrow> codex_run \<Rightarrow> codex_run" where
  "codex_failed xc why s =
     (if settled s then s else settle_send (Some (AgentUnavailable (xc_executable xc) why)) (s\<lparr>xr_result_seen := True\<rparr>))"

definition codex_closed :: "int option \<Rightarrow> string option \<Rightarrow> codex_run \<Rightarrow> codex_run" where
  "codex_closed code signal s =
     (let s1 = s\<lparr>xr_approvals := [], xr_closed := True, xr_pending := None,
                xr_reply := (if xr_pending s = None then xr_reply s else Some (RpcFailed ''process exited''))\<rparr>
      in
        if xr_child s1 \<noteq> Some (xr_proc s1) then s1
        else
          (let s2 = s1\<lparr>xr_child := None, xr_notes := xr_notes s1 @ [Exited code signal]\<rparr>
           in
             if xr_result_seen s2 then s2
             else report (TurnEnded (if xr_kill_requested s2 then StopInterrupted else StopProcessExit) None) None s2))"

definition rpc_timed_out :: "codex_run \<Rightarrow> codex_run" where
  "rpc_timed_out s =
     (if xr_pending s = None then s
      else s\<lparr>xr_pending := None, xr_reply := Some (RpcFailed ''timed out waiting for a response'')\<rparr>)"

definition codex_respond :: "request_id \<Rightarrow> bool \<Rightarrow> codex_run \<Rightarrow> codex_run \<times> adapter_error option" where
  "codex_respond r allow s =
     (case jget (xr_approvals s) r of
        None \<Rightarrow> (s, Some NoChild)
      | Some i \<Rightarrow>
          if xr_child s \<noteq> Some (xr_proc s) \<or> xr_result_seen s \<or> xr_kill_requested s then (s, Some NoChild)
          else
            (let s1 = s\<lparr>xr_approvals := jdel (xr_approvals s) r\<rparr>
             in
               if can_write s1 then (s1\<lparr>xr_writes := xr_writes s1 @ [ApprovalAnswer i allow]\<rparr>, None)
               else (s1, Some (WriteFailed ''stdin not writable''))))"

definition codex_kill :: "codex_run \<Rightarrow> codex_run" where
  "codex_kill s =
     (if xr_child s = None then s else kill_child (s\<lparr>xr_kill_requested := True, xr_approvals := []\<rparr>))"

section \<open>Events\<close>

text \<open>
  \<open>XReplaced\<close> is another turn's spawn, or the close of its child. The child's own events come before it
  has closed, and none comes to a server that has crashed.
\<close>

datatype codex_event =
    XSpawned "int option" string
  | XFailed string
  | XLine request_id "json option"
  | XOverflow
  | XClosed "int option" "string option"
  | XStdinLost
  | XResumes
  | XTimeout
  | XRespond request_id bool
  | XKill
  | XReplaced "nat option"

fun from_child :: "codex_event \<Rightarrow> bool" where
  "from_child (XSpawned _ _) = True"
| "from_child (XFailed _) = True"
| "from_child (XLine _ _) = True"
| "from_child XOverflow = True"
| "from_child (XClosed _ _) = True"
| "from_child _ = False"

fun codex_event_step :: "codex_config \<Rightarrow> string option \<Rightarrow> codex_event \<Rightarrow> codex_run \<Rightarrow> codex_run" where
  "codex_event_step xc resume (XSpawned pid im) s = codex_spawned xc pid im s"
| "codex_event_step xc resume (XFailed why) s = codex_failed xc why s"
| "codex_event_step xc resume (XLine fresh line) s = rpc_line xc fresh line s"
| "codex_event_step xc resume XOverflow s = rpc_overflow s"
| "codex_event_step xc resume (XClosed code signal) s = codex_closed code signal s"
| "codex_event_step xc resume XStdinLost s = s\<lparr>xr_stdin_open := False\<rparr>"
| "codex_event_step xc resume XResumes s = rpc_resumed xc resume s"
| "codex_event_step xc resume XTimeout s = rpc_timed_out s"
| "codex_event_step xc resume (XRespond r allow) s = fst (codex_respond r allow s)"
| "codex_event_step xc resume XKill s = codex_kill s"
| "codex_event_step xc resume (XReplaced c) s =
     (if c = Some (xr_proc s) then s
      else s\<lparr>xr_child := c, xr_kill_requested := (xr_kill_requested s \<and> c = None)\<rparr>)"

definition codex_step :: "codex_config \<Rightarrow> string option \<Rightarrow> codex_event \<Rightarrow> codex_run \<Rightarrow> codex_run" where
  "codex_step xc resume e s = (if xr_crashed s \<or> from_child e \<and> xr_closed s then s else codex_event_step xc resume e s)"

definition codex_turn :: "codex_config \<Rightarrow> string option \<Rightarrow> codex_event list \<Rightarrow> nat \<Rightarrow> codex_run" where
  "codex_turn xc resume es n = fold (codex_step xc resume) es (codex_start xc n)"

section \<open>What an event can change\<close>

definition turn_ends :: "codex_run \<Rightarrow> nat" where
  "turn_ends s = length (filter ends_turn (xr_notes s))"

fun is_answer :: "codex_write \<Rightarrow> bool" where
  "is_answer (ApprovalAnswer _ _) = True"
| "is_answer (RpcCall _ _) = False"

fun answer_id :: "codex_write \<Rightarrow> rpc_id" where
  "answer_id (ApprovalAnswer i _) = i"
| "answer_id (RpcCall i _) = RpcNumber i"

definition answers :: "codex_run \<Rightarrow> codex_write list" where
  "answers s = filter is_answer (xr_writes s)"

text \<open>
  What handling a line does besides reporting: approvals are only withdrawn, none is answered, and
  the turn is ended only where it has not been ended, which is then remembered.
\<close>

definition quiet :: "codex_run \<Rightarrow> codex_run \<Rightarrow> bool" where
  "quiet s t \<longleftrightarrow>
     (\<exists>ns. xr_notes t = xr_notes s @ ns) \<and> answers t = answers s \<and> xr_seen t = xr_seen s \<and>
     (\<exists>P. xr_approvals t = filter P (xr_approvals s)) \<and>
     xr_child t = xr_child s \<and> xr_proc t = xr_proc s \<and> xr_closed t = xr_closed s \<and>
     (turn_ends t = turn_ends s \<and> (xr_result_seen s \<longrightarrow> xr_result_seen t) \<or>
      turn_ends t = turn_ends s + 1 \<and> \<not> xr_result_seen s \<and> xr_result_seen t)"

lemma filter_to_same: "\<exists>P. xs = filter P xs" "\<exists>P. [] = filter P xs" "\<exists>P. filter Q xs = filter P xs"
proof -
  show "\<exists>P. xs = filter P xs" by (rule exI [where x = "\<lambda>_. True"]) simp
  show "\<exists>P. [] = filter P xs" by (rule exI [where x = "\<lambda>_. False"]) simp
  show "\<exists>P. filter Q xs = filter P xs" by (rule exI [where x = Q]) simp
qed

lemma quiet_refl [simp]: "quiet s s"
  by (simp add: quiet_def filter_to_same)

lemma quiet_report: "\<not> ends_turn (AdapterEvent \<lparr>ae_data = d, ae_raw = raw\<rparr>) \<Longrightarrow> quiet s (report d raw s)"
  by (simp add: quiet_def report_def turn_ends_def answers_def filter_to_same)

lemma quiet_patches: "quiet (s\<lparr>xr_patches := p\<rparr>) t \<Longrightarrow> quiet s t"
  by (simp add: quiet_def turn_ends_def answers_def)

lemma quiet_patches_same: "quiet s (s\<lparr>xr_patches := p\<rparr>)"
  by (rule quiet_patches [where p = p]) simp

lemma quiet_mismatch: "quiet s (mismatch detail rec s)"
  by (auto simp: quiet_def mismatch_def report_def turn_ends_def answers_def settle_send_def settled_def kill_child_def ends_turn_def Let_def
      filter_to_same split: option.split)

lemma quiet_crash: "quiet s (crash s)"
  by (simp add: quiet_def crash_def turn_ends_def answers_def filter_to_same)

lemma not_ends_turn [simp]:
  "ends_turn (AdapterEvent \<lparr>ae_data = d, ae_raw = raw\<rparr>) \<longleftrightarrow> (case d of TurnEnded _ _ \<Rightarrow> True | _ \<Rightarrow> False)"
  "\<not> ends_turn (CliSession i)" "\<not> ends_turn (Exited c sg)" "\<not> ends_turn (Spawned p g im)"
  by (simp_all add: ends_turn_def)

lemmas quiet_cases = quiet_mismatch quiet_crash quiet_report quiet_patches [OF quiet_report] quiet_patches_same

lemma quiet_item_started: "quiet s (item_started xc params rec s)"
  unfolding item_started_def Let_def by (auto simp: quiet_cases split: option.split)

lemma quiet_item_completed: "quiet s (item_completed xc params rec s)"
  unfolding item_completed_def Let_def tool_result_of_def by (auto simp: quiet_cases split: option.split)

lemma quiet_turn_completed:
  assumes "\<not> xr_result_seen s"
  shows "quiet s (turn_completed xc params rec s)"
proof -
  let ?s = "s\<lparr>xr_approvals := [], xr_result_seen := True\<rparr>"
  have "quiet ?s t \<Longrightarrow> quiet s t" if "turn_ends t = turn_ends s" for t
    using that by (auto simp: quiet_def turn_ends_def answers_def filter_to_same)
  moreover have "turn_ends (mismatch detail rec ?s) = turn_ends s" for detail
    by (simp add: mismatch_def report_def turn_ends_def settle_send_def settled_def kill_child_def Let_def split: option.split)
  ultimately have "quiet s (mismatch detail rec ?s)" for detail
    using quiet_mismatch by blast
  moreover have "quiet s (kill_child (report (TurnEnded r None) (Some rec) ?s))" for r
    using assms by (auto simp: quiet_def report_def turn_ends_def answers_def kill_child_def filter_to_same split: option.split)
  ultimately show ?thesis
    by (simp add: turn_completed_def Let_def split: option.split)
qed

lemma quiet_filter: "quiet s (s\<lparr>xr_approvals := filter P (xr_approvals s)\<rparr>)"
  by (simp add: quiet_def turn_ends_def answers_def filter_to_same)

lemma quiet_cli_session: "quiet s (s\<lparr>xr_notes := xr_notes s @ [CliSession i]\<rparr>)"
  by (simp add: quiet_def turn_ends_def answers_def filter_to_same)

lemma quiet_if: "quiet s a \<Longrightarrow> quiet s b \<Longrightarrow> quiet s (if c then a else b)"
  by simp

lemma quiet_option: "quiet s a \<Longrightarrow> (\<And>x. quiet s (f x)) \<Longrightarrow> quiet s (case v of None \<Rightarrow> a | Some x \<Rightarrow> f x)"
  by (simp split: option.split)

lemma quiet_notification: "\<not> xr_result_seen s \<Longrightarrow> quiet s (handle_rpc_notification xc m params rec s)"
  unfolding handle_rpc_notification_def Let_def prod.case
  by (intro quiet_if quiet_option quiet_filter quiet_cli_session quiet_mismatch quiet_item_started quiet_item_completed
      quiet_turn_completed quiet_patches_same quiet_refl quiet_report) simp_all

lemma quiet_overflow: "quiet s (rpc_overflow s)"
  by (simp add: quiet_def rpc_overflow_def report_def turn_ends_def answers_def settle_send_def settled_def kill_child_def Let_def
      filter_to_same split: option.split)

lemma quiet_trans: "quiet s t \<Longrightarrow> quiet t u \<Longrightarrow> quiet s u"
  unfolding quiet_def by (elim conjE exE) (auto simp: filter_to_same)

lemma quiet_rpc_call: "quiet s (rpc_call m phase s)"
  by (simp add: quiet_def rpc_call_def turn_ends_def answers_def filter_to_same Let_def)

lemma quiet_handshake_failed: "quiet s (handshake_failed xc why s)"
  by (auto simp: quiet_def handshake_failed_def settle_send_def settled_def kill_child_def turn_ends_def answers_def filter_to_same
      Let_def split: option.split)

lemma quiet_resumed: "quiet s (rpc_resumed xc resume s)"
proof -
  have "quiet s (rpc_call ''thread/start'' HandStart (report resume_notice None s))"
    by (rule quiet_trans [OF quiet_report quiet_rpc_call]) (simp add: resume_notice_def)
  moreover have "quiet s (settle_send None (s\<lparr>xr_phase := p, xr_reply := None\<rparr>))" for p
    by (simp add: quiet_def settle_send_def settled_def turn_ends_def answers_def filter_to_same)
  ultimately show ?thesis
    by (simp add: rpc_resumed_def quiet_rpc_call quiet_handshake_failed split: option.split rpc_outcome.split handshake_phase.split)
qed

lemma approval_request_cases:
  obtains "quiet s (approval_request fresh msg s)"
  | p i raw where "i \<notin> set (xr_seen s)" "pr_request_id p = fresh"
      "approval_request fresh msg s =
        report (PermissionRequest p) raw (s\<lparr>xr_seen := i # xr_seen s, xr_approvals := jset (xr_approvals s) fresh i\<rparr>)"
proof -
  have "quiet s (approval_request fresh msg s) \<or>
    (\<exists>p i raw. approval_request fresh msg s =
         report (PermissionRequest p) raw (s\<lparr>xr_seen := i # xr_seen s, xr_approvals := jset (xr_approvals s) fresh i\<rparr>) \<and>
       i \<notin> set (xr_seen s) \<and> pr_request_id p = fresh)" (is "_ \<or> ?asked (approval_request fresh msg s)")
  proof (cases "rpc_id_of (jprop msg ''id'')")
    case None
    then show ?thesis by (simp add: approval_request_def quiet_mismatch)
  next
    case (Some i)
    note i = this
    show ?thesis
    proof (cases "\<exists>input item. jprop msg ''params'' = Some (JObj input) \<and> safe_item_id (jget input ''itemId'') = Some item \<and>
        i \<notin> set (xr_seen s)")
      case False
      with i show ?thesis
        by (auto simp: approval_request_def quiet_mismatch split: option.split json.split)
    next
      case True
      then obtain input item where "jprop msg ''params'' = Some (JObj input)" "safe_item_id (jget input ''itemId'') = Some item"
        "i \<notin> set (xr_seen s)" by blast
      moreover have "?asked (report (PermissionRequest p) raw
          (s\<lparr>xr_seen := i # xr_seen s, xr_approvals := jset (xr_approvals s) fresh i\<rparr>))"
        if "pr_request_id p = fresh" "i \<notin> set (xr_seen s)" for p raw
        using that by blast
      ultimately show ?thesis
        using i by (simp add: approval_request_def Let_def quiet_mismatch)
    qed
  qed
  with that show thesis by blast
qed

lemma quiet_bad_line: "quiet s (report (ErrorEvent AdapterBadLine m f) raw s)"
  by (rule quiet_report) simp

lemma quiet_reply: "quiet s (s\<lparr>xr_pending := p, xr_reply := r\<rparr>)"
  by (simp add: quiet_def turn_ends_def answers_def filter_to_same)

lemma rpc_message_quiet:
  assumes "\<not> xr_result_seen s"
  shows "quiet s (rpc_message xc fresh msg s) \<or> rpc_message xc fresh msg s = approval_request fresh msg s"
proof (cases "text_of (jprop msg ''method'')")
  case None
  then show ?thesis by (simp add: rpc_message_def quiet_reply split: option.split)
next
  case (Some m)
  show ?thesis
  proof (cases "has_member msg ''id''")
    case True
    with Some show ?thesis by (simp add: rpc_message_def quiet_mismatch)
  next
    case False
    with Some assms show ?thesis by (simp add: rpc_message_def quiet_notification)
  qed
qed

lemma rpc_line_cases:
  obtains "quiet s (rpc_line xc fresh line s)"
  | p i raw where "i \<notin> set (xr_seen s)" "pr_request_id p = fresh"
      "rpc_line xc fresh line s =
        report (PermissionRequest p) raw (s\<lparr>xr_seen := i # xr_seen s, xr_approvals := jset (xr_approvals s) fresh i\<rparr>)"
proof (cases "\<exists>msg. rpc_line xc fresh line s = approval_request fresh msg s")
  case True
  then obtain msg where "rpc_line xc fresh line s = approval_request fresh msg s" by blast
  with that show thesis by (metis approval_request_cases)
next
  case False
  then have "quiet s (rpc_line xc fresh line s)"
    using rpc_message_quiet [of s xc fresh]
    by (fastforce simp: rpc_line_def quiet_bad_line quiet_crash split: option.splits if_splits)
  with that show thesis by blast
qed

section \<open>Every event keeps the approvals in order\<close>

definition was_asked :: "adapter_notification list \<Rightarrow> request_id \<Rightarrow> bool" where
  "was_asked ns r \<longleftrightarrow> (\<exists>p raw. AdapterEvent \<lparr>ae_data = PermissionRequest p, ae_raw = raw\<rparr> \<in> set ns \<and> pr_request_id p = r)"

definition approvals_open :: "codex_run \<Rightarrow> bool" where
  "approvals_open s \<longleftrightarrow>
     jmap_ok (xr_approvals s) \<and> distinct (map snd (xr_approvals s)) \<and>
     (\<forall>(r, i) \<in> set (xr_approvals s). was_asked (xr_notes s) r \<and> i \<in> set (xr_seen s) \<and> i \<notin> answer_id ` set (answers s))"

definition codex_ok :: "codex_run \<Rightarrow> bool" where
  "codex_ok s \<longleftrightarrow>
     approvals_open s \<and> distinct (map answer_id (answers s)) \<and> answer_id ` set (answers s) \<subseteq> set (xr_seen s) \<and>
     turn_ends s \<le> 1 \<and> (turn_ends s = 1 \<longrightarrow> xr_result_seen s \<or> xr_closed s)"

lemma was_asked_append: "was_asked ns r \<Longrightarrow> was_asked (ns @ ns') r"
  by (auto simp: was_asked_def)

lemma approvals_open_fewer:
  assumes "approvals_open s" "xr_approvals t = filter P (xr_approvals s)" "\<exists>ns. xr_notes t = xr_notes s @ ns"
    and "xr_seen t = xr_seen s" "answers t = answers s"
  shows "approvals_open t"
  using assms by (auto simp: approvals_open_def jmap_ok_def distinct_map_filter was_asked_append)

lemma codex_ok_quiet:
  assumes "codex_ok s" "quiet s t" "\<not> xr_closed s \<or> xr_result_seen t = xr_result_seen s"
  shows "codex_ok t"
proof -
  from assms(2) obtain P where "xr_approvals t = filter P (xr_approvals s)" unfolding quiet_def by blast
  with assms have "approvals_open t" by (auto simp: codex_ok_def quiet_def intro: approvals_open_fewer)
  with assms show ?thesis by (auto simp: codex_ok_def quiet_def)
qed

lemma jdel_filter: "jdel m k = filter (\<lambda>kv. k \<noteq> fst kv) m"
  by (simp add: jdel_def AList.delete_eq case_prod_unfold)

lemma snd_update: "set (map snd (AList.update k v m)) \<subseteq> insert v (set (map snd m))"
  by (induction m) auto

lemma distinct_snd_jset: "distinct (map snd m) \<Longrightarrow> v \<notin> snd ` set m \<Longrightarrow> distinct (map snd (jset m k v))"
  unfolding jset_def
proof (induction m)
  case (Cons kv m)
  with snd_update [of k v m] show ?case by auto
qed simp

lemma codex_ok_asked:
  assumes "codex_ok s" "i \<notin> set (xr_seen s)" "pr_request_id p = fresh"
  shows "codex_ok (report (PermissionRequest p) raw
    (s\<lparr>xr_seen := i # xr_seen s, xr_approvals := jset (xr_approvals s) fresh i\<rparr>))" (is "codex_ok ?t")
proof -
  have open_s: "approvals_open s" and i: "i \<notin> answer_id ` set (answers s)" using assms by (auto simp: codex_ok_def)
  have new: "was_asked (xr_notes ?t) fresh" using assms(3) by (auto simp: was_asked_def report_def)
  have "i \<notin> snd ` set (xr_approvals s)" using open_s assms(2) by (auto simp: approvals_open_def)
  then have "distinct (map snd (jset (xr_approvals s) fresh i))"
    using open_s by (simp add: approvals_open_def distinct_snd_jset)
  with open_s new i have "approvals_open ?t"
    by (auto simp: approvals_open_def set_jset was_asked_append report_def answers_def)
  with assms(1) show ?thesis
    by (auto simp: codex_ok_def report_def answers_def turn_ends_def)
qed

lemma resumed_keeps_result: "xr_result_seen (rpc_resumed xc resume s) = xr_result_seen s"
  by (simp add: rpc_resumed_def rpc_call_def handshake_failed_def settle_send_def report_def kill_child_def Let_def
      split: option.split rpc_outcome.split handshake_phase.split)

lemma quiet_edges:
  "quiet s (codex_spawned xc pid im s)" "quiet s (codex_failed xc why s)" "quiet s (rpc_timed_out s)" "quiet s (codex_kill s)"
  "quiet s (s\<lparr>xr_stdin_open := b\<rparr>)"
  by (auto simp: quiet_def turn_ends_def answers_def filter_to_same codex_spawned_def codex_failed_def settle_send_def
      rpc_timed_out_def codex_kill_def kill_child_def settled_def split: option.split)

lemma codex_ok_closed:
  assumes "codex_ok s" "\<not> xr_closed s"
  shows "codex_ok (codex_closed code signal s)"
  using assms le_neq_trans [of "turn_ends s" 1]
  by (auto simp: codex_ok_def codex_closed_def approvals_open_def jmap_ok_def answers_def turn_ends_def report_def Let_def)

lemma codex_ok_respond:
  assumes "codex_ok s"
  shows "codex_ok (fst (codex_respond r allow s))"
proof (cases "jget (xr_approvals s) r")
  case None
  with assms show ?thesis by (simp add: codex_respond_def)
next
  case (Some i)
  have open_s: "approvals_open s" using assms by (simp add: codex_ok_def)
  have at_r: "(r, i) \<in> set (xr_approvals s)" using Some by (rule jget_in_set)
  let ?s1 = "s\<lparr>xr_approvals := jdel (xr_approvals s) r\<rparr>"
  have fewer: "codex_ok ?s1"
    by (rule codex_ok_quiet [OF assms]) (simp_all add: jdel_filter quiet_filter)
  have other: "i' \<noteq> i" if "(r', i') \<in> set (xr_approvals s)" "r' \<noteq> r" for r' i'
  proof
    assume "i' = i"
    moreover have "inj_on snd (set (xr_approvals s))" using open_s by (simp add: approvals_open_def distinct_map)
    ultimately show False using that at_r inj_onD [of snd _ "(r', i')" "(r, i)"] by auto
  qed
  have apart: "i \<notin> snd ` set (xr_approvals ?s1)" by (auto simp: set_jdel dest: other)
  let ?t = "?s1\<lparr>xr_writes := xr_writes ?s1 @ [ApprovalAnswer i allow]\<rparr>"
  have told: "answers ?t = answers s @ [ApprovalAnswer i allow]" by (simp add: answers_def)
  have known: "i \<in> set (xr_seen s)" "i \<notin> answer_id ` set (answers s)" using at_r open_s by (auto simp: approvals_open_def)
  have same: "answers ?s1 = answers s" by (simp add: answers_def)
  have "approvals_open ?t"
    using fewer apart unfolding codex_ok_def approvals_open_def told same by (auto simp: image_iff)
  with fewer known have "codex_ok ?t"
    unfolding codex_ok_def told same by (simp add: turn_ends_def)
  with assms fewer Some show ?thesis by (simp add: codex_respond_def Let_def)
qed

lemma codex_ok_step:
  assumes "codex_ok s"
  shows "codex_ok (codex_step xc resume e s)"
proof -
  have "codex_ok (codex_event_step xc resume e s)" if "from_child e \<Longrightarrow> \<not> xr_closed s"
  proof (cases e)
    case (XLine fresh line)
    with that have "\<not> xr_closed s" by simp
    then show ?thesis
      unfolding XLine codex_event_step.simps
      by (cases rule: rpc_line_cases [of s xc fresh line]) (simp_all add: codex_ok_quiet [OF assms] codex_ok_asked [OF assms])
  next
    case (XReplaced c)
    with assms show ?thesis by (simp add: codex_ok_def approvals_open_def answers_def turn_ends_def)
  next
    case XKill
    have "xr_result_seen (codex_kill s) = xr_result_seen s"
      by (simp add: codex_kill_def kill_child_def split: option.split)
    with XKill show ?thesis by (simp add: codex_ok_quiet [OF assms quiet_edges(4)])
  next
    case XTimeout
    have "xr_result_seen (rpc_timed_out s) = xr_result_seen s" by (simp add: rpc_timed_out_def)
    with XTimeout show ?thesis by (simp add: codex_ok_quiet [OF assms quiet_edges(3)])
  qed (use that assms in \<open>simp_all add: codex_ok_quiet [OF assms quiet_edges(1)] codex_ok_quiet [OF assms quiet_edges(2)]
      codex_ok_quiet [OF assms quiet_edges(5)] codex_ok_quiet [OF assms quiet_overflow] codex_ok_quiet [OF assms quiet_resumed]
      resumed_keeps_result codex_ok_closed codex_ok_respond\<close>)
  with assms show ?thesis by (auto simp: codex_step_def)
qed

lemma codex_turn_snoc: "codex_turn xc resume (es @ [e]) n = codex_step xc resume e (codex_turn xc resume es n)"
  by (simp add: codex_turn_def)

lemma codex_turn_ok: "codex_ok (codex_turn xc resume es n)"
proof (induction es rule: rev_induct)
  case Nil
  show ?case
    by (simp add: codex_turn_def codex_start_def rpc_call_def can_write_def codex_ok_def approvals_open_def jmap_ok_def
        answers_def turn_ends_def Let_def)
qed (simp add: codex_turn_snoc codex_ok_step)

section \<open>What a turn promises\<close>

text \<open>
  A turn of the app-server transport is ended at most once, whatever the child writes and however the
  answers, timeouts, interrupts, its close and the next turn's child come between.
\<close>

theorem codex_turn_ends_at_most_once: "turn_ends (codex_turn xc resume es n) \<le> 1"
  using codex_turn_ok [of xc resume es n] by (simp add: codex_ok_def)

lemma codex_step_answer:
  assumes "codex_ok s" "ApprovalAnswer i allow \<in> set (xr_writes (codex_step xc resume e s))"
    and "ApprovalAnswer i allow \<notin> set (xr_writes s)"
  shows "\<exists>r. e = XRespond r allow \<and> was_asked (xr_notes s) r"
proof -
  have quiet_out: "\<not> quiet s (codex_event_step xc resume e s)"
  proof
    assume "quiet s (codex_event_step xc resume e s)"
    then have "answers (codex_step xc resume e s) = answers s" by (simp add: codex_step_def quiet_def)
    moreover have "ApprovalAnswer i allow \<in> set (xr_writes t) \<longleftrightarrow> ApprovalAnswer i allow \<in> set (answers t)" for t
      by (simp add: answers_def)
    ultimately show False using assms by simp
  qed
  have stepped: "ApprovalAnswer i allow \<in> set (xr_writes (codex_event_step xc resume e s))"
    using assms(2,3) by (simp add: codex_step_def split: if_splits)
  show ?thesis
  proof (cases e)
    case (XRespond r a)
    with stepped assms show ?thesis
      by (auto simp: codex_respond_def codex_ok_def approvals_open_def Let_def dest: jget_in_set split: option.splits if_splits)
  next
    case (XLine fresh line)
    with quiet_out stepped assms(3) show ?thesis
      by (cases rule: rpc_line_cases [of s xc fresh line]) (simp_all add: report_def)
  next
    case (XReplaced c)
    with stepped assms(3) show ?thesis by (simp split: if_splits)
  next
    case (XClosed code signal)
    with stepped assms(3) show ?thesis by (simp add: codex_closed_def report_def Let_def split: if_splits)
  qed (use quiet_out in \<open>simp_all add: quiet_edges quiet_overflow quiet_resumed\<close>)
qed

lemma codex_step_asked: "was_asked (xr_notes s) r \<Longrightarrow> was_asked (xr_notes (codex_step xc resume e s)) r"
proof -
  assume asked: "was_asked (xr_notes s) r"
  have by_quiet: "quiet s t \<Longrightarrow> was_asked (xr_notes t) r" for t
    using asked by (auto simp: quiet_def was_asked_append)
  have "was_asked (xr_notes (codex_event_step xc resume e s)) r"
  proof (cases e)
    case (XLine fresh line)
    with asked show ?thesis
      by (cases rule: rpc_line_cases [of s xc fresh line]) (simp_all add: by_quiet report_def was_asked_append)
  next
    case (XClosed code signal)
    with asked show ?thesis by (simp add: codex_closed_def report_def Let_def was_asked_append)
  next
    case (XRespond q a)
    with asked show ?thesis by (simp add: codex_respond_def Let_def split: option.split)
  qed (use asked in \<open>simp_all add: by_quiet quiet_edges quiet_overflow quiet_resumed\<close>)
  with asked show ?thesis by (simp add: codex_step_def)
qed

lemma distinct_counts_once:
  assumes "distinct (map f xs)" "x \<in> set xs"
  shows "filter (\<lambda>y. f y = f x) xs = [x]"
  using assms
proof (induction xs)
  case (Cons y ys)
  show ?case
  proof (cases "x = y")
    case True
    moreover have "filter (\<lambda>z. f z = f y) ys = []" using Cons.prems by (auto simp: filter_empty_conv image_iff)
    ultimately show ?thesis by simp
  next
    case False
    with Cons show ?thesis by auto
  qed
qed simp

text \<open>
  An approval is answered only where the operator answered a request that had been reported, with the
  operator's own decision, and no request of the child is answered twice.
\<close>

theorem codex_answers_what_was_asked_once:
  assumes "ApprovalAnswer i allow \<in> set (xr_writes (codex_turn xc resume es n))"
  shows "(\<exists>r. XRespond r allow \<in> set es \<and> was_asked (xr_notes (codex_turn xc resume es n)) r) \<and>
    filter (\<lambda>w. answer_id w = i) (answers (codex_turn xc resume es n)) = [ApprovalAnswer i allow]"
proof
  show "\<exists>r. XRespond r allow \<in> set es \<and> was_asked (xr_notes (codex_turn xc resume es n)) r"
    using assms
  proof (induction es rule: rev_induct)
    case Nil
    then show ?case by (simp add: codex_turn_def codex_start_def rpc_call_def Let_def split: if_splits)
  next
    case (snoc e es)
    show ?case
    proof (cases "ApprovalAnswer i allow \<in> set (xr_writes (codex_turn xc resume es n))")
      case True
      with snoc.IH show ?thesis by (auto simp: codex_turn_snoc codex_step_asked)
    next
      case False
      with snoc.prems codex_step_answer [OF codex_turn_ok, of i allow xc resume e] show ?thesis
        by (fastforce simp: codex_turn_snoc codex_step_asked)
    qed
  qed
  have "ApprovalAnswer i allow \<in> set (answers (codex_turn xc resume es n))" using assms by (simp add: answers_def)
  then show "filter (\<lambda>w. answer_id w = i) (answers (codex_turn xc resume es n)) = [ApprovalAnswer i allow]"
    using distinct_counts_once [of answer_id "answers (codex_turn xc resume es n)" "ApprovalAnswer i allow"]
      codex_turn_ok [of xc resume es n] by (simp add: codex_ok_def)
qed

definition example_codex :: codex_config where
  "example_codex = \<lparr>xc_string = (\<lambda>_. ''?''), xc_persist_reasoning = True, xc_windows = False, xc_executable = ''codex''\<rparr>"

definition approval_line :: "json option" where
  "approval_line =
     Some (JObj [(''id'', JNum 4), (''method'', JStr ''item/commandExecution/requestApproval''),
       (''params'', JObj [(''itemId'', JStr ''x1''), (''command'', JStr ''ls''), (''cwd'', JStr ''w'')])])"

definition approved_turn :: "codex_event list" where
  "approved_turn = [XLine ''r1'' approval_line, XRespond ''r1'' True]"

lemma approved_turn_writes:
  "xr_writes (codex_turn example_codex None approved_turn 7) = [RpcCall 1 ''initialize'', ApprovalAnswer (RpcNumber 4) True]"
  by (simp add: codex_turn_def approved_turn_def codex_start_def rpc_call_def can_write_def codex_step_def rpc_line_def
      approval_line_def rpc_message_def jprop_def text_of_def jget_def has_member_def approval_request_def rpc_id_of_def
      safe_integer_def safe_integer_bound_def safe_item_id_def is_safe_path_segment_def given_def report_def codex_respond_def jset_def Let_def
      reserved_names_def lower_char_def)

theorem codex_answers_what_was_asked_once_witness:
  "(\<exists>r. XRespond r True \<in> set approved_turn \<and> was_asked (xr_notes (codex_turn example_codex None approved_turn 7)) r) \<and>
   filter (\<lambda>w. answer_id w = RpcNumber 4) (answers (codex_turn example_codex None approved_turn 7)) =
     [ApprovalAnswer (RpcNumber 4) True]"
  by (rule codex_answers_what_was_asked_once) (simp add: approved_turn_writes)

section \<open>What the transport does not handle\<close>

text \<open>
  A turn whose completion names an unknown status is never ended: the result is marked as seen before
  the status is read, so the failure takes the turn for a closed one, and the close stays silent.
\<close>

lemma unknown_status_never_ends:
  assumes "settled s" "\<not> xr_result_seen s" "\<not> xr_kill_requested s" "xr_child s = Some (xr_proc s)"
    and "\<not> xr_crashed s" "\<not> xr_closed s" "turn_ends s = 0"
  shows "turn_ends (fold (codex_step xc resume)
    [XLine fresh (Some (JObj [(''method'', JStr ''turn/completed'')])), XClosed code signal] s) = 0"
  using assms
  by (simp add: codex_step_def rpc_line_def rpc_message_def handle_rpc_notification_def turn_completed_def mismatch_def
      stop_reason_of_def jprop_def text_of_def jget_def has_member_def member_def report_def settle_send_def settled_def
      kill_child_def codex_closed_def turn_ends_def Let_def)

text \<open>A line that is the JSON null ends the server's process.\<close>

lemma null_line_crashes:
  assumes "\<not> xr_result_seen s" "\<not> xr_kill_requested s" "xr_child s = Some (xr_proc s)"
  shows "xr_crashed (codex_event_step xc resume (XLine fresh (Some JNull)) s)"
  using assms by (simp add: rpc_line_def crash_def)

end
