(* ===== verification/Codex_Exec.thy ===== *)
theory Codex_Exec
  imports Codex_Adapter
begin

text \<open>
  The fallback transport of the Codex adapter, \<open>codex exec --json\<close> (\<open>runExec\<close> of
  \<open>src/agent-console/providers/codex-cli/index.ts\<close>): no handshake and no approvals, one line of JSON per
  event of the turn. A command's call is named by the turn and the item, since the child's own item
  numbers start again with every turn.
\<close>

section \<open>Calls\<close>

definition compose_call_id :: "turn_id \<Rightarrow> json option \<Rightarrow> call_id option" where
  "compose_call_id t item_id =
     (case text_of item_id of
        None \<Rightarrow> None
      | Some i \<Rightarrow> if is_safe_path_segment (t @ ''.'' @ i) then Some (t @ ''.'' @ i) else None)"

definition dropped_notice :: payload where
  "dropped_notice =
     ErrorEvent AdapterUnknownRecord ''a command_execution item whose id would make an unsafe CallId was not mapped'' False"

definition call_id_for :: "turn_id \<Rightarrow> json \<Rightarrow> json \<Rightarrow> codex_run \<Rightarrow> codex_run \<times> call_id option" where
  "call_id_for t item rec s =
     (case compose_call_id t (jprop item ''id'') of
        Some c \<Rightarrow> (s, Some c)
      | None \<Rightarrow>
          if jprop item ''id'' \<in> set (xr_dropped s) then (s, None)
          else (report dropped_notice (Some rec) (s\<lparr>xr_dropped := jprop item ''id'' # xr_dropped s\<rparr>), None))"

section \<open>Lines\<close>

definition exec_item_started :: "codex_config \<Rightarrow> turn_id \<Rightarrow> json \<Rightarrow> codex_run \<Rightarrow> codex_run" where
  "exec_item_started xc t rec s =
     (case item_of rec of
        None \<Rightarrow> mismatch ''item.started carried no item'' rec s
      | Some item \<Rightarrow>
          if text_of (jprop item ''type'') = Some ''command_execution'' then
            (case call_id_for t item rec s of
               (s1, None) \<Rightarrow> s1
             | (s1, Some c) \<Rightarrow>
                 (let command = shown (xc_string xc) (jprop item ''command'')
                  in report
                       (ToolCall \<lparr>tc_call_id = c, tc_name = ''exec'', tc_input = JObj [(''command'', JStr command)],
                          tc_summary = summarise_command command\<rparr>) (Some rec) s1))
          else if as_template (xc_string xc) (jprop item ''type'') \<in> set ignored_item_types then s
          else mismatch (''unrecognised item type on item.started: '' @ as_template (xc_string xc) (jprop item ''type'')) rec s)"

definition exec_item_completed :: "codex_config \<Rightarrow> turn_id \<Rightarrow> json \<Rightarrow> codex_run \<Rightarrow> codex_run" where
  "exec_item_completed xc t rec s =
     (case item_of rec of
        None \<Rightarrow> mismatch ''item.completed carried no item'' rec s
      | Some item \<Rightarrow>
          (let ty = text_of (jprop item ''type''); txt = shown (xc_string xc) (jprop item ''text'')
           in
             if ty = Some ''reasoning'' then
               (if txt \<noteq> [] \<and> xc_persist_reasoning xc then report (Thinking txt) (Some rec) s else s)
             else if ty = Some ''agent_message'' then
               (if txt \<noteq> [] then report (Message Assistant txt []) (Some rec) s else s)
             else if ty = Some ''command_execution'' then
               (case call_id_for t item rec s of
                  (s1, None) \<Rightarrow> s1
                | (s1, Some c) \<Rightarrow>
                    report
                      (tool_result_of c (text_of (jprop item ''status'') = Some ''completed'')
                        (shown (xc_string xc) (jprop item ''aggregated_output'')) None) (Some rec) s1)
             else if as_template (xc_string xc) (jprop item ''type'') \<in> set ignored_item_types then s
             else mismatch (''unrecognised item type on item.completed: '' @ as_template (xc_string xc) (jprop item ''type'')) rec s))"

text \<open>
  \<open>handleLine\<close>: it asks neither whether the turn has ended nor which child is the current one. \<open>send\<close>
  resolves at the thread's start.
\<close>

definition exec_record :: "codex_config \<Rightarrow> turn_id \<Rightarrow> json \<Rightarrow> codex_run \<Rightarrow> codex_run" where
  "exec_record xc t rec s =
     (let ty = text_of (jprop rec ''type'')
      in
        if ty = Some ''thread.started'' then
          settle_send None
            (case text_of (jprop rec ''thread_id'') of
               None \<Rightarrow> s
             | Some i \<Rightarrow> s\<lparr>xr_notes := xr_notes s @ [CliSession i]\<rparr>)
        else if ty = Some ''turn.started'' then s
        else if ty = Some ''item.started'' then exec_item_started xc t rec s
        else if ty = Some ''item.completed'' then exec_item_completed xc t rec s
        else if ty = Some ''turn.completed'' then
          kill_child (report (TurnEnded StopCompleted None) (Some rec) (s\<lparr>xr_result_seen := True\<rparr>))
        else mismatch (''unrecognised exec record type: '' @ as_template (xc_string xc) (jprop rec ''type'')) rec s)"

definition exec_line :: "codex_config \<Rightarrow> turn_id \<Rightarrow> json option \<Rightarrow> codex_run \<Rightarrow> codex_run" where
  "exec_line xc t line s =
     (case line of
        None \<Rightarrow> report (ErrorEvent AdapterBadLine ''not JSON'' False) None s
      | Some rec \<Rightarrow> if rec = JNull then crash s else exec_record xc t rec s)"

section \<open>The child\<close>

definition exec_args :: "string \<Rightarrow> (string \<times> string) list \<Rightarrow> string option \<Rightarrow> string option \<Rightarrow> string list" where
  "exec_args sandbox terse model resume =
     [''exec'', ''--json'', ''--skip-git-repo-check'', ''-s'', sandbox] @
     concat (map (\<lambda>kv. [''-c'', fst kv @ ''='' @ snd kv]) terse) @
     (case model of None \<Rightarrow> [] | Some m \<Rightarrow> [''--model'', m]) @
     (case resume of None \<Rightarrow> [] | Some i \<Rightarrow> [''resume'', i])"

definition exec_start :: "nat \<Rightarrow> codex_run" where
  "exec_start n =
     \<lparr>xr_proc = n, xr_child = Some n, xr_kill_requested = False, xr_sent = None, xr_result_seen = False, xr_seq = 0,
      xr_phase = HandDone, xr_pending = None, xr_reply = None, xr_patches = [], xr_approvals = [], xr_seen = [],
      xr_dropped = [], xr_stdin_open = False, xr_closed = False, xr_notes = [], xr_writes = [], xr_terminated = [],
      xr_crashed = False\<rparr>"

text \<open>The \<open>error\<close> event marks the result as seen even where the turn has started.\<close>

definition exec_failed :: "codex_config \<Rightarrow> string \<Rightarrow> codex_run \<Rightarrow> codex_run" where
  "exec_failed xc why s = settle_send (Some (AgentUnavailable (xc_executable xc) why)) (s\<lparr>xr_result_seen := True\<rparr>)"

definition exec_closed :: "codex_config \<Rightarrow> int option \<Rightarrow> string option \<Rightarrow> codex_run \<Rightarrow> codex_run" where
  "exec_closed xc code signal s =
     (let s1 = s\<lparr>xr_closed := True\<rparr>
      in
        if xr_child s1 \<noteq> Some (xr_proc s1) then s1
        else
          (let s2 = s1\<lparr>xr_child := None, xr_notes := xr_notes s1 @ [Exited code signal]\<rparr>;
               s3 = (if xr_result_seen s2 then s2
                     else report (TurnEnded (if xr_kill_requested s2 then StopInterrupted else StopProcessExit) None) None s2)
           in settle_send (Some (AgentUnavailable (xc_executable xc) ''the process exited before reporting thread.started'')) s3))"

fun exec_event_step :: "codex_config \<Rightarrow> turn_id \<Rightarrow> codex_event \<Rightarrow> codex_run \<Rightarrow> codex_run" where
  "exec_event_step xc t (XSpawned pid im) s = codex_spawned xc pid im s"
| "exec_event_step xc t (XFailed why) s = exec_failed xc why s"
| "exec_event_step xc t (XLine fresh line) s = exec_line xc t line s"
| "exec_event_step xc t XOverflow s = rpc_overflow s"
| "exec_event_step xc t (XClosed code signal) s = exec_closed xc code signal s"
| "exec_event_step xc t XKill s = codex_kill s"
| "exec_event_step xc t (XReplaced c) s =
     (if c = Some (xr_proc s) then s
      else s\<lparr>xr_child := c, xr_kill_requested := (xr_kill_requested s \<and> c = None)\<rparr>)"
| "exec_event_step xc t _ s = s"

definition exec_step :: "codex_config \<Rightarrow> turn_id \<Rightarrow> codex_event \<Rightarrow> codex_run \<Rightarrow> codex_run" where
  "exec_step xc t e s = (if xr_crashed s \<or> from_child e \<and> xr_closed s then s else exec_event_step xc t e s)"

definition exec_turn :: "codex_config \<Rightarrow> turn_id \<Rightarrow> codex_event list \<Rightarrow> nat \<Rightarrow> codex_run" where
  "exec_turn xc t es n = fold (exec_step xc t) es (exec_start n)"

section \<open>Every send is answered and every turn ended\<close>

definition ended_or_refused :: "codex_run \<Rightarrow> bool" where
  "ended_or_refused s \<longleftrightarrow> (xr_result_seen s \<longrightarrow> 1 \<le> turn_ends s \<or> (\<exists>e. xr_sent s = Some (Some e)))"

lemma ended_report: "ended_or_refused s \<Longrightarrow> ended_or_refused (report d raw s)"
  by (auto simp: ended_or_refused_def report_def turn_ends_def)

lemma ended_update:
  "ended_or_refused (s\<lparr>xr_dropped := d\<rparr>) = ended_or_refused s" "ended_or_refused (crash s) = ended_or_refused s"
  "ended_or_refused (s\<lparr>xr_child := c, xr_kill_requested := k\<rparr>) = ended_or_refused s"
  "ended_or_refused (s\<lparr>xr_kill_requested := k, xr_approvals := a\<rparr>) = ended_or_refused s"
  by (simp_all add: ended_or_refused_def turn_ends_def crash_def)

lemma ended_note: "ended_or_refused s \<Longrightarrow> ended_or_refused (s\<lparr>xr_notes := xr_notes s @ ns\<rparr>)"
  by (auto simp: ended_or_refused_def turn_ends_def)

lemma ended_kill: "ended_or_refused (kill_child s) = ended_or_refused s"
  by (simp add: kill_child_def ended_or_refused_def turn_ends_def split: option.split)

lemma ended_settle: "ended_or_refused s \<Longrightarrow> ended_or_refused (settle_send r s)"
  by (auto simp: ended_or_refused_def settle_send_def settled_def turn_ends_def)

lemma ended_mismatch: "ended_or_refused s \<Longrightarrow> ended_or_refused (mismatch detail rec s)"
  by (auto simp: ended_or_refused_def mismatch_def report_def settle_send_def settled_def kill_child_def turn_ends_def Let_def
      split: option.split)

lemma ended_overflow: "ended_or_refused s \<Longrightarrow> ended_or_refused (rpc_overflow s)"
  by (auto simp: ended_or_refused_def rpc_overflow_def report_def settle_send_def settled_def kill_child_def turn_ends_def Let_def
      split: option.split)

lemma ended_completed: "ended_or_refused (report (TurnEnded r u) raw s)"
  by (simp add: ended_or_refused_def report_def turn_ends_def)

lemmas ended_intros = ended_report ended_note ended_settle ended_mismatch ended_overflow

lemma ended_call_id_for: "ended_or_refused s \<Longrightarrow> ended_or_refused (fst (call_id_for t item rec s))"
  by (simp add: call_id_for_def ended_report ended_update split: option.split)

lemma ended_item_started: "ended_or_refused s \<Longrightarrow> ended_or_refused (exec_item_started xc t rec s)"
  using ended_call_id_for [of s t _ rec]
  by (auto simp: exec_item_started_def Let_def split: option.split prod.split intro!: ended_intros) (metis fst_conv)+

lemma ended_item_completed: "ended_or_refused s \<Longrightarrow> ended_or_refused (exec_item_completed xc t rec s)"
  using ended_call_id_for [of s t _ rec]
  by (auto simp: exec_item_completed_def Let_def split: option.split prod.split intro!: ended_intros) (metis fst_conv)+

lemma ended_line: "ended_or_refused s \<Longrightarrow> ended_or_refused (exec_line xc t line s)"
  by (auto simp: exec_line_def exec_record_def Let_def ended_update ended_kill ended_completed ended_item_started
      ended_item_completed split: option.split intro!: ended_intros)

fun is_failure :: "codex_event \<Rightarrow> bool" where
  "is_failure (XFailed _) = True"
| "is_failure _ = False"

lemma ended_closed: "ended_or_refused s \<Longrightarrow> ended_or_refused (exec_closed xc code signal s)"
  by (auto simp: ended_or_refused_def exec_closed_def report_def settle_send_def settled_def turn_ends_def Let_def)

lemma ended_step: "ended_or_refused s \<Longrightarrow> \<not> is_failure e \<Longrightarrow> ended_or_refused (exec_step xc t e s)"
  by (cases e) (simp_all add: exec_step_def codex_spawned_def codex_kill_def ended_line ended_overflow ended_closed
      ended_update ended_kill ended_note)

lemma exec_step_proc: "xr_proc (exec_step xc t e s) = xr_proc s"
proof (cases e)
  case (XLine fresh line)
  have "xr_proc (mismatch d r s) = xr_proc s" for d r s
    by (simp add: mismatch_def report_def settle_send_def kill_child_def Let_def split: option.split)
  with XLine show ?thesis
    by (simp add: exec_step_def exec_line_def exec_record_def exec_item_started_def exec_item_completed_def call_id_for_def
        report_def settle_send_def kill_child_def crash_def Let_def split: option.split)
qed (auto simp: exec_step_def codex_spawned_def exec_failed_def rpc_overflow_def exec_closed_def codex_kill_def report_def
    settle_send_def kill_child_def Let_def split: option.split)

text \<open>
  The fallback transport leaves nobody waiting. Whatever the child writes, and however interrupts come
  between, once the child that is still the current one has closed, \<open>send\<close> has been resolved, its exit
  has been reported, and a turn that \<open>send\<close> had reported as started has been ended.
\<close>

theorem exec_send_is_answered:
  assumes "\<forall>e \<in> set es. \<not> is_failure e"
    and "xr_child (exec_turn xc t es n) = Some n"
    and "\<not> xr_crashed (exec_turn xc t es n)" "\<not> xr_closed (exec_turn xc t es n)"
  shows "xr_sent (exec_turn xc t (es @ [XClosed code signal]) n) \<noteq> None \<and>
    Exited code signal \<in> set (xr_notes (exec_turn xc t (es @ [XClosed code signal]) n)) \<and>
    (xr_sent (exec_turn xc t (es @ [XClosed code signal]) n) = Some None \<longrightarrow>
      1 \<le> turn_ends (exec_turn xc t (es @ [XClosed code signal]) n))"
proof -
  let ?s = "exec_turn xc t es n"
  have "ended_or_refused ?s \<and> xr_proc ?s = n"
    using assms(1)
  proof (induction es rule: rev_induct)
    case Nil
    show ?case by (simp add: exec_turn_def exec_start_def ended_or_refused_def)
  next
    case (snoc e es)
    then show ?case by (simp add: exec_turn_def ended_step exec_step_proc)
  qed
  moreover have "exec_turn xc t (es @ [XClosed code signal]) n = exec_closed xc code signal ?s"
    using assms(3,4) by (simp add: exec_turn_def exec_step_def)
  ultimately show ?thesis
    using assms(2) by (auto simp: exec_closed_def ended_or_refused_def report_def settle_send_def settled_def turn_ends_def Let_def)
qed

definition exec_thread_line :: "json option" where
  "exec_thread_line = Some (JObj [(''type'', JStr ''thread.started''), (''thread_id'', JStr ''a'')])"

theorem exec_send_is_answered_witness:
  "xr_sent (exec_turn example_codex ''t'' ([XLine [] exec_thread_line] @ [XClosed (Some 1) None]) 7) \<noteq> None \<and>
   Exited (Some 1) None \<in> set (xr_notes (exec_turn example_codex ''t'' ([XLine [] exec_thread_line] @ [XClosed (Some 1) None]) 7)) \<and>
   (xr_sent (exec_turn example_codex ''t'' ([XLine [] exec_thread_line] @ [XClosed (Some 1) None]) 7) = Some None \<longrightarrow>
     1 \<le> turn_ends (exec_turn example_codex ''t'' ([XLine [] exec_thread_line] @ [XClosed (Some 1) None]) 7))"
  by (rule exec_send_is_answered)
    (simp_all add: exec_turn_def exec_step_def exec_line_def exec_record_def exec_thread_line_def exec_start_def jprop_def
      text_of_def jget_def settle_send_def settled_def Let_def)

text \<open>Turns whose names have one length cannot share a call, whatever the child names its items.\<close>

lemma composed_calls_apart:
  assumes "compose_call_id t i = Some c" "compose_call_id u j = Some c" "length t = length u"
  shows "t = u \<and> text_of i = text_of j \<and> is_safe_path_segment c"
  using assms by (auto simp: compose_call_id_def split: option.splits if_splits)

section \<open>What the transport does not look at\<close>

text \<open>The turn's end is not remembered against further lines: a second completion ends it again.\<close>

lemma exec_second_completion_ends_twice:
  assumes "\<not> xr_crashed s" "\<not> xr_closed s"
  shows "turn_ends (fold (exec_step xc t)
    [XLine r (Some (JObj [(''type'', JStr ''turn.completed'')])), XLine r (Some (JObj [(''type'', JStr ''turn.completed'')]))] s) =
    turn_ends s + 2"
  using assms
  by (simp add: exec_step_def exec_line_def exec_record_def jprop_def text_of_def jget_def report_def kill_child_def
      turn_ends_def Let_def split: option.split)

text \<open>
  An error of a child whose turn has started, such as a signal that could not be delivered, silences
  the close: the turn is not ended.
\<close>

lemma exec_error_silences_the_close:
  assumes "settled s" "\<not> xr_crashed s" "\<not> xr_closed s" "xr_child s = Some (xr_proc s)"
  shows "turn_ends (fold (exec_step xc t) [XFailed why, XClosed code signal] s) = turn_ends s"
  using assms
  by (auto simp: exec_step_def exec_failed_def exec_closed_def settle_send_def settled_def turn_ends_def Let_def)

end
