(* ===== verification/Spec2Isabelle.thy ===== *)
theory Spec2Isabelle
  imports
    Console_Prelude
    Vocabulary
    Standing_Rules
    Truncation
    Workspaces
    Uploads
    Create_Attempts
    Event_Stream
    Append_Log
    Session_Machine
    Session_Frames
    Session_Slot
    Session_Transcript
    Session_Audit
    Session_Permissions
    Session_Liveness
    Session_Properties
    Process_Supervision
    Session_Registry
    Session_Boot
    Session_Create
    Subscriptions
    Records
    Records_Log
    Hiring
    Server_Lock
    Server_Process
    Runtime_Lease
    Line_Framing
    Rpc_Values
    Rpc_Writer
    Rpc_Peer
    Rpc_Output
    Rpc_Subscriptions
    Runtime_Server
    Payroll
    Budget_Notices
    Session_Manager
    Checklist
    Host_Config
    Identity
    Edge_Common
    Http_Handlers
    Http_Routes
    Ws_Frames
    Ws_Connection
    Sse_Stream
    Codex_Diff
    Claude_Adapter
    Codex_Adapter
    Codex_Exec
begin

text \<open>
  A verification library for SkyNet HR, a self-hosted server that drives command line coding agents
  and shows them in a browser. Paths below are under \<open>src/src/\<close>.

  \<^bold>\<open>The program.\<close> A process claims a storage root (\<open>store/index.ts\<close>), boots the session core
  (\<open>agent-console/core\<close>) and serves HTTP (\<open>edge/\<close>). The core owns one child process per session,
  turns what its adapter reports into numbered envelopes, keeps them in a ring and in a file, and
  delivers them to subscribers. Permission requests are answered, audited and granted by standing
  rules. The host around the core (\<open>session-manager/\<close>, \<open>records/\<close>) hires sessions against
  requisitions, keeps reviews, a checklist, payroll and budget notices, and takes its configuration
  from the environment (\<open>config/\<close>). The same core also runs alone behind JSON-RPC on its standard
  streams (\<open>agent-console/runtime\<close>).

  \<^bold>\<open>How the code is modelled.\<close> Structs are records, tagged unions datatypes, \<open>Result\<close> is a sum with
  the error left, a JavaScript \<open>Map\<close> an association list that keeps its order of insertion
  (\<open>jmap\<close>), strings are lists of characters up to U+00FF. An asynchronous method is cut at its
  \<open>await\<close>s: what runs in one tick is one definition, what is left a task or a phase that a later
  event resumes with the outcome it waited for, and a run is any list of events, so that every
  interleaving and every failure of the outside is covered. Clocks, random identifiers and what the
  operating system, git, a vendor's process or the disk answer are arguments. Platform functions that
  are not under \<open>src/\<close> (\<open>JSON.parse\<close>, \<open>realpath\<close>, \<open>decodeURIComponent\<close>, the base64 decoder) are
  parameters; where a theorem relies on one, it says so in a hypothesis.

  \<^bold>\<open>The theories.\<close>

  \<^item> \<open>Console_Prelude\<close>: results in sequence, insertion-ordered maps, lists, decimals, and the
    collections \<open>console_defs\<close> and \<open>console_inv\<close>.
  \<^item> \<open>Vocabulary\<close> (\<open>agent-console/contract\<close>, \<open>core/types.ts\<close>, \<open>providers/types.ts\<close>): the types of events, sessions, turns,
    audit records and adapters.
  \<^item> \<open>Standing_Rules\<close> and \<open>Truncation\<close> (\<open>core/index.ts\<close>): the wildcard matcher against its meaning, and
    the cutting of UTF-8 at the boundary of a character.
  \<^item> \<open>Workspaces\<close> (\<open>core/workspaces\<close>): the jail and the allocator of workspaces, no two overlapping
    ones exclusive. \<open>Uploads\<close> (\<open>core/attachments.ts\<close>): the staging of chunks within its caps.
  \<^item> \<open>Create_Attempts\<close> (\<open>core/create-attempts.ts\<close>): idempotent two-phase attempts and the
    coordinator. \<open>Hiring\<close> composes them with the registry of requisitions
    (\<open>session-manager/index.ts\<close>): an approved requisition is attached to one session at most.
  \<^item> \<open>Event_Stream\<close> (\<open>core/index.ts\<close>, \<open>store/memory.ts\<close>, \<open>store/fs.ts\<close>): numbering, ring and write
    queue. Both rings interpret the locale \<open>event_ring\<close>.
  \<^item> \<open>Session_Machine\<close>: one session of \<open>createSessionCore\<close>, every method and notification.
    \<open>Session_Frames\<close> says what its updates leave alone; \<open>Session_Slot\<close>, \<open>Session_Transcript\<close>,
    \<open>Session_Audit\<close>, \<open>Session_Permissions\<close> and \<open>Session_Liveness\<close> hold one invariant each, and
    \<open>Session_Properties\<close> what they come to for a run.
  \<^item> \<open>Session_Registry\<close>, \<open>Session_Boot\<close>, \<open>Session_Create\<close>, \<open>Subscriptions\<close>: listing and paging,
    recovery after a crash, creation with a crash between any two effects, and replay followed by live
    delivery without loss or repetition.
  \<^item> \<open>Append_Log\<close>, \<open>Process_Supervision\<close> (\<open>agent-console/process\<close>): logs of one JSON value a line,
    the pid ledger, the environment, killing and renaming.
  \<^item> \<open>Records\<close>, \<open>Records_Log\<close> (\<open>records/index.ts\<close>): requisitions and reviews; both registries
    interpret \<open>durable_registry\<close>, whose promise is that memory is what the log reads back.
  \<^item> \<open>Server_Lock\<close>, \<open>Server_Process\<close> (\<open>store/index.ts\<close>, \<open>server.ts\<close>) and \<open>Runtime_Lease\<close>
    (\<open>agent-console/store/lease.ts\<close>): one server, and one runtime, to a storage root.
  \<^item> \<open>Line_Framing\<close>, \<open>Rpc_Values\<close>, \<open>Rpc_Writer\<close>, \<open>Rpc_Peer\<close>, \<open>Rpc_Output\<close>, \<open>Rpc_Subscriptions\<close>,
    \<open>Runtime_Server\<close> (\<open>agent-console/runtime\<close>, \<open>providers/ndjson.ts\<close>): the protocol of the
    standalone runtime, from the bytes of its input to the credited streams of its subscribers. The
    peer interprets \<open>peer_output\<close>: what it does only ever appends to the writer's queue.
  \<^item> \<open>Payroll\<close>, \<open>Budget_Notices\<close>, \<open>Session_Manager\<close>, \<open>Checklist\<close> (\<open>session-manager/\<close>): the host's
    folds over the record of a session, and its messages with attachments.
  \<^item> \<open>Host_Config\<close> (\<open>config/index.ts\<close>) and \<open>Identity\<close> (\<open>identity/index.ts\<close>): what an accepted
    configuration promises and who a request is believed to come from.
  \<^item> The edges. \<open>Edge_Common\<close> has what both transports share: the envelope of an error and the
    mapping of the manager's errors to it, bodies within their limit, origins, and the guard that
    drops a client which does not drain (\<open>edge/http-common\<close>, \<open>edge/error-envelope\<close>). \<open>Http_Handlers\<close>
    reads every request into the call it makes and answers what the call gives back; \<open>Http_Routes\<close>
    has the two listeners, separately as in the source, and shows that they agree and that no call is
    made but for the operator the request resolves to, changes only from an allowed origin.
    \<open>Ws_Frames\<close> is the frame codec, exact for every chunking of a client's frames; \<open>Ws_Connection\<close> and
    \<open>Sse_Stream\<close> are one live connection each, in every order of its events.
  \<^bold>\<open>What the lemmas show.\<close> For each component an invariant that every step keeps (\<open>transcript_inv\<close>,
  \<open>uploads_ok\<close>, \<open>alloc_inv\<close>, \<open>link_ok\<close>, \<open>peer_ok\<close>, \<open>ticks_ok\<close> and others), and from it what a run
  promises; for a routine with a meaning of its own, equality with a reference (the wildcard matcher
  against the language it denotes, the line splitter against the lines of the whole stream, the
  registries against the fold of their log); the outcome of every error path where the code has one
  (\<open>Session_Create\<close>, \<open>Create_Attempts\<close>, \<open>Runtime_Server\<close>). Runs that show a defect are evaluated as
  lemmas beside the definitions concerned.

  \<^bold>\<open>Bounds and fuel.\<close> No loop of the model runs on fuel except \<open>read_through\<close> of \<open>Runtime_Server\<close>,
  a host's reading of stored output: one read more than the windows that fill is enough, and the
  theorem says so. Every other recursion is structural or has its measure. Milliseconds, token counts
  and sequence numbers are unbounded integers, as far below 2 to the power of 53 as the code keeps
  them; bytes are words of eight bits.

  \<^bold>\<open>Not modelled.\<close> The provider adapters (\<open>agent-console/providers\<close>); of the edges the bytes of the
  client's files, the piping of a stored blob and the answer to a handler that throws; the checkpoints
  extension drives git on the workspace, whose answers are parameters of the session; the file store
  is I/O around the rings, logs and records that are modelled; the registry of providers, the staging
  files of \<open>runtime/uploads.ts\<close>, the wiring of \<open>server.ts\<close> and the browser client are left out.
  Rounding of floating point in the payroll's prices and the budget's fraction is not modelled: both
  are rationals. \<open>Last-Event-ID\<close> is read exactly, where the code rounds a number beyond 2 to the 53rd.
\<close>

end
